(* ===== verification/Prelude.thy ===== *)
theory Prelude
  imports Main "HOL-Library.Word" "HOL-Library.Code_Target_Nat"
begin

text \<open>
  Shared ground of the development: the names of the model's basic types, the
  database idioms the services use (first row in an order, update of the rows that
  match a condition), and the generic lemmas about them.

  Times and durations are Go's \<open>time.Time\<close> and \<open>time.Duration\<close> in nanoseconds, as
  unbounded integers where no computation comes near the 64-bit range (and as
  words where one does). A \<open>uuid.UUID\<close> is an opaque number, \<open>uuid.Nil\<close> being 0.
\<close>

section \<open>Basic types\<close>

type_synonym byte = "8 word"
type_synonym bytes = "byte list"
type_synonym u16 = "16 word"
type_synonym u32 = "32 word"
type_synonym u64 = "64 word"
type_synonym uuid = nat
type_synonym time = int
type_synonym duration = int

abbreviation (input) uuid_nil :: uuid where
  "uuid_nil \<equiv> 0"

named_theorems table_simps \<open>facts about tables: rows, keys, updates\<close>
named_theorems codec \<open>facts about encoders and decoders\<close>

section \<open>Durations\<close>

abbreviation nanosecond :: duration where "nanosecond \<equiv> 1"
abbreviation microsecond :: duration where "microsecond \<equiv> 1000"
abbreviation millisecond :: duration where "millisecond \<equiv> 1000000"
abbreviation second :: duration where "second \<equiv> 1000000000"
abbreviation minute :: duration where "minute \<equiv> 60000000000"
abbreviation hour :: duration where "hour \<equiv> 3600000000000"

text \<open>Go's integer division truncates towards zero.\<close>

definition go_div :: "int \<Rightarrow> int \<Rightarrow> int" where
  "go_div a b = sgn a * sgn b * (\<bar>a\<bar> div \<bar>b\<bar>)"

lemma go_div_nonneg: "0 \<le> a \<Longrightarrow> 0 < b \<Longrightarrow> go_div a b = a div b"
  by (cases "a = 0") (simp_all add: go_div_def)

text \<open>\<open>1 << n\<close> for an \<open>int\<close> shift count: a negative count is a run-time panic (\<open>None\<close>).\<close>

definition go_shl1 :: "int \<Rightarrow> int option" where
  "go_shl1 n = (if n < 0 then None else Some (2 ^ nat n))"

section \<open>Rows of a table\<close>

text \<open>\<open>ORDER BY f LIMIT 1\<close>: the first row of least \<open>f\<close>.\<close>

fun min_row :: "('a \<Rightarrow> 'k::linorder) \<Rightarrow> 'a list \<Rightarrow> 'a option" where
  "min_row f [] = None"
| "min_row f (x # xs) =
     (case min_row f xs of None \<Rightarrow> Some x | Some y \<Rightarrow> if f x \<le> f y then Some x else Some y)"

lemma min_row_None [simp]: "min_row f xs = None \<longleftrightarrow> xs = []"
  by (cases xs) (auto split: option.splits)

lemma min_row_mem: "min_row f xs = Some x \<Longrightarrow> x \<in> set xs"
  by (induction xs arbitrary: x) (auto split: option.splits if_splits)

lemma min_row_least: "min_row f xs = Some x \<Longrightarrow> y \<in> set xs \<Longrightarrow> f x \<le> f y"
  by (induction xs arbitrary: x) (fastforce split: option.splits if_splits)+

lemma min_row_filterD:
  "min_row f (filter P xs) = Some x \<Longrightarrow>
     x \<in> set xs \<and> P x \<and> (\<forall>y \<in> set xs. P y \<longrightarrow> f x \<le> f y)"
  using min_row_mem [of f "filter P xs" x] min_row_least [of f "filter P xs" x] by auto

text \<open>\<open>UPDATE ... WHERE P\<close>.\<close>

definition update_where :: "('a \<Rightarrow> bool) \<Rightarrow> ('a \<Rightarrow> 'a) \<Rightarrow> 'a list \<Rightarrow> 'a list" where
  "update_where P f xs = map (\<lambda>x. if P x then f x else x) xs"

lemma update_where_Nil [simp]: "update_where P f [] = []"
  by (simp add: update_where_def)

lemma update_where_Cons [simp]:
  "update_where P f (x # xs) = (if P x then f x else x) # update_where P f xs"
  by (simp add: update_where_def)

lemma length_update_where [simp]: "length (update_where P f xs) = length xs"
  by (simp add: update_where_def)

lemma set_update_where: "set (update_where P f xs) = (\<lambda>x. if P x then f x else x) ` set xs"
  by (simp add: update_where_def)

lemma map_update_where [table_simps]:
  "(\<And>x. P x \<Longrightarrow> k (f x) = k x) \<Longrightarrow> map k (update_where P f xs) = map k xs"
  by (induction xs) auto

lemma update_where_mem_cases:
  assumes "y \<in> set (update_where P f xs)"
  obtains (updated) x where "x \<in> set xs" "P x" "y = f x"
    | (kept) "y \<in> set xs" "\<not> P y"
  using assms by (auto simp: set_update_where split: if_splits)

lemma distinct_key_unique:
  "distinct (map k xs) \<Longrightarrow> x \<in> set xs \<Longrightarrow> y \<in> set xs \<Longrightarrow> k x = k y \<Longrightarrow> x = y"
  by (auto simp: distinct_map dest: inj_onD)

text \<open>\<open>FirstOrCreate\<close>: insert the row unless one with its key is there.\<close>

definition first_or_create :: "('a \<Rightarrow> 'k) \<Rightarrow> 'a \<Rightarrow> 'a list \<Rightarrow> 'a list" where
  "first_or_create k r xs = (if k r \<in> k ` set xs then xs else xs @ [r])"

lemma distinct_first_or_create [table_simps]:
  "distinct (map k xs) \<Longrightarrow> distinct (map k (first_or_create k r xs))"
  by (auto simp: first_or_create_def)

lemma set_first_or_create_mono: "set xs \<subseteq> set (first_or_create k r xs)"
  by (auto simp: first_or_create_def)

lemma keys_first_or_create [table_simps]:
  "k ` set (first_or_create k r xs) = insert (k r) (k ` set xs)"
  by (auto simp: first_or_create_def)

lemma first_or_create_old:
  "x \<in> set (first_or_create k r xs) \<Longrightarrow> k x \<in> k ` set xs \<Longrightarrow> x \<in> set xs"
  by (auto simp: first_or_create_def split: if_splits)


lemma find_SomeD: "find P xs = Some x \<Longrightarrow> x \<in> set xs \<and> P x"
  by (induction xs) (auto split: if_splits)

lemma two_elements: "\<not> length xs \<le> 1 \<Longrightarrow> \<exists>x y zs. xs = x # y # zs"
  by (cases xs; cases "tl xs") auto

end
