(* ===== verification/GoStrings.thy ===== *)
theory GoStrings
  imports Prelude "HOL-Library.Sublist"
begin

text \<open>
  The parts of Go's \<open>strings\<close>, \<open>strconv\<close> and \<open>sort\<close> packages the modelled code calls.
  A Go string is its list of bytes (\<open>char\<close> is one byte).
\<close>

section \<open>package strings\<close>

definition HasPrefix :: "string \<Rightarrow> string \<Rightarrow> bool" where
  "HasPrefix s p \<longleftrightarrow> prefix p s"

lemma HasPrefix_code [code]: "HasPrefix s p \<longleftrightarrow> take (length p) s = p"
  by (auto simp: HasPrefix_def prefix_def) (metis append_take_drop_id)

definition TrimPrefix :: "string \<Rightarrow> string \<Rightarrow> string" where
  "TrimPrefix s p = (if HasPrefix s p then drop (length p) s else s)"

text \<open>\<open>strings.Cut\<close> at a one-byte separator: before, after, found.\<close>

fun Cut :: "string \<Rightarrow> char \<Rightarrow> string \<times> string \<times> bool" where
  "Cut [] c = ([], [], False)"
| "Cut (x # s) c =
     (if x = c then ([], s, True)
      else (case Cut s c of (b, a, ok) \<Rightarrow> (x # b, a, ok)))"

text \<open>\<open>strings.Split\<close> at a one-byte separator: never empty.\<close>

fun Split :: "string \<Rightarrow> char \<Rightarrow> string list" where
  "Split [] c = [[]]"
| "Split (x # s) c =
     (if x = c then [] # Split s c
      else (case Split s c of [] \<Rightarrow> [[x]] | w # ws \<Rightarrow> (x # w) # ws))"

lemma Split_not_Nil [simp]: "Split s c \<noteq> []"
  by (cases s) (auto split: list.splits)

lemma Split_no_sep: "c \<notin> set s \<Longrightarrow> Split s c = [s]"
  by (induction s) auto

lemma Split_append: "c \<notin> set s \<Longrightarrow> Split (s @ c # t) c = s # Split t c"
  by (induction s) auto

lemma Split_last: "c \<notin> set s \<Longrightarrow> Split (xs @ c # s) c = Split xs c @ [s]"
  by (induction xs) (auto simp: Split_no_sep split: list.splits)

lemma Cut_append: "c \<notin> set s \<Longrightarrow> Cut (s @ c # t) c = (s, t, True)"
  by (induction s) auto

lemma Cut_none: "c \<notin> set s \<Longrightarrow> Cut s c = (s, [], False)"
  by (induction s) auto

lemma Cut_some: "Cut s c = (b, a, True) \<Longrightarrow> s = b @ c # a \<and> c \<notin> set b"
  by (induction s arbitrary: b) (auto split: if_splits prod.splits)

text \<open>\<open>strings.LastIndex\<close> of one byte (\<open>None\<close> is -1).\<close>

definition LastIndex :: "string \<Rightarrow> char \<Rightarrow> nat option" where
  "LastIndex s c = (case Cut (rev s) c of (b, _, ok) \<Rightarrow> if ok then Some (length s - length b - 1) else None)"

text \<open>
  \<open>strings.TrimSpace\<close>: the bytes the first rune takes when it is white space
  (\<open>unicode.IsSpace\<close> in UTF-8), 0 when it is not.
\<close>

definition ascii_space :: "char \<Rightarrow> bool" where
  "ascii_space c \<longleftrightarrow> c \<in> {CHR 0x09, CHR 0x0A, CHR 0x0B, CHR 0x0C, CHR 0x0D, CHR 0x20}"

definition wide_space :: "char \<Rightarrow> char \<Rightarrow> char \<Rightarrow> bool" where
  "wide_space a b c \<longleftrightarrow>
     (a, b, c) = (CHR 0xE1, CHR 0x9A, CHR 0x80) \<or>
     (a, b) = (CHR 0xE2, CHR 0x80) \<and>
       (0x80 \<le> (of_char c :: nat) \<and> (of_char c :: nat) \<le> 0x8A \<or>
        c \<in> {CHR 0xA8, CHR 0xA9, CHR 0xAF}) \<or>
     (a, b, c) = (CHR 0xE2, CHR 0x81, CHR 0x9F) \<or>
     (a, b, c) = (CHR 0xE3, CHR 0x80, CHR 0x80)"

definition space_len :: "string \<Rightarrow> nat" where
  "space_len s =
     (case s of
        [] \<Rightarrow> 0
      | a # t \<Rightarrow>
          if ascii_space a then 1
          else (case t of
                  [] \<Rightarrow> 0
                | b # u \<Rightarrow>
                    if a = CHR 0xC2 \<and> b \<in> {CHR 0x85, CHR 0xA0} then 2
                    else (case u of [] \<Rightarrow> 0 | c # _ \<Rightarrow> if wide_space a b c then 3 else 0)))"

definition space_len_rev :: "string \<Rightarrow> nat" where
  "space_len_rev s =
     (case s of
        [] \<Rightarrow> 0
      | c # t \<Rightarrow>
          if ascii_space c then 1
          else (case t of
                  [] \<Rightarrow> 0
                | b # u \<Rightarrow>
                    if b = CHR 0xC2 \<and> c \<in> {CHR 0x85, CHR 0xA0} then 2
                    else (case u of [] \<Rightarrow> 0 | a # _ \<Rightarrow> if wide_space a b c then 3 else 0)))"

function trim_by :: "(string \<Rightarrow> nat) \<Rightarrow> string \<Rightarrow> string" where
  "trim_by len s = (if s \<noteq> [] \<and> len s \<noteq> 0 then trim_by len (drop (len s) s) else s)"
  by pat_completeness auto
termination
  by (relation "measure (\<lambda>(len, s). length s)") auto

declare trim_by.simps [simp del]

definition TrimSpace :: "string \<Rightarrow> string" where
  "TrimSpace s = rev (trim_by space_len_rev (rev (trim_by space_len s)))"

lemma trim_by_id: "len s = 0 \<Longrightarrow> trim_by len s = s"
  by (subst trim_by.simps) simp

lemma TrimSpace_id:
  assumes "space_len s = 0" "space_len_rev (rev s) = 0"
  shows "TrimSpace s = s"
  using assms by (simp add: TrimSpace_def trim_by_id)

text \<open>\<open>strings.ToUpper\<close> on ASCII letters.\<close>

definition ascii_upper :: "char \<Rightarrow> char" where
  "ascii_upper c =
     (let n = (of_char c :: nat) in if 97 \<le> n \<and> n \<le> 122 then char_of (n - 32) else c)"

section \<open>Digits\<close>

definition is_digit :: "char \<Rightarrow> bool" where
  "is_digit c \<longleftrightarrow> CHR ''0'' \<in> {c} \<or> 48 \<le> (of_char c :: nat) \<and> (of_char c :: nat) \<le> 57"

definition digit_val :: "char \<Rightarrow> nat" where
  "digit_val c = of_char c - 48"

definition digit_char :: "nat \<Rightarrow> char" where
  "digit_char d = char_of (48 + d)"

lemma is_digit_iff: "is_digit c \<longleftrightarrow> 48 \<le> (of_char c :: nat) \<and> (of_char c :: nat) \<le> 57"
  by (auto simp: is_digit_def)

lemma digit_char_simps [simp]:
  assumes "d < 10"
  shows "is_digit (digit_char d)" "digit_val (digit_char d) = d"
  using assms by (simp_all add: is_digit_iff digit_val_def digit_char_def)

lemma digit_val_less: "is_digit c \<Longrightarrow> digit_val c < 10"
  by (auto simp: is_digit_iff digit_val_def)

text \<open>The value of a digit string, and the decimal a number prints as (\<open>%d\<close>).\<close>

definition dec_value :: "string \<Rightarrow> nat" where
  "dec_value s = foldl (\<lambda>n c. 10 * n + digit_val c) 0 s"

fun dec :: "nat \<Rightarrow> string" where
  "dec n = (if n < 10 then [digit_char n] else dec (n div 10) @ [digit_char (n mod 10)])"

declare dec.simps [simp del]

lemma dec_value_snoc [simp]: "dec_value (s @ [c]) = 10 * dec_value s + digit_val c"
  by (simp add: dec_value_def)

lemma dec_value_Nil [simp]: "dec_value [] = 0"
  by (simp add: dec_value_def)

lemma dec_not_Nil [simp]: "dec n \<noteq> []"
  by (subst dec.simps) simp

lemma dec_digits: "c \<in> set (dec n) \<Longrightarrow> is_digit c"
proof (induction n rule: dec.induct)
  case (1 n)
  then show ?case by (cases "n < 10") (auto simp: dec.simps [of n])
qed

lemma dec_value_dec [simp, codec]: "dec_value (dec n) = n"
proof (induction n rule: dec.induct)
  case (1 n)
  show ?case
  proof (cases "n < 10")
    case True
    then show ?thesis by (simp add: dec.simps [of n] dec_value_def)
  next
    case False
    with 1 show ?thesis by (simp add: dec.simps [of n])
  qed
qed

lemma dec_inj: "dec m = dec n \<longleftrightarrow> m = n"
  by (metis dec_value_dec)

lemma not_digit_dec: "\<not> is_digit c \<Longrightarrow> c \<notin> set (dec n)"
  using dec_digits by blast

section \<open>package strconv\<close>

text \<open>\<open>ParseUint(s, 10, bits)\<close>: digits only, in range.\<close>

definition ParseUint :: "nat \<Rightarrow> string \<Rightarrow> nat option" where
  "ParseUint bits s =
     (if s \<noteq> [] \<and> list_all is_digit s \<and> dec_value s < 2 ^ bits then Some (dec_value s) else None)"

text \<open>\<open>ParseInt(s, 10, 64)\<close> and \<open>Atoi\<close>: an optional sign, then digits, in the 64-bit range.\<close>

definition ParseInt64 :: "string \<Rightarrow> int option" where
  "ParseInt64 s =
     (let (neg, t) = (case s of [] \<Rightarrow> (False, []) | c # r \<Rightarrow>
                        if c = CHR ''-'' then (True, r) else if c = CHR ''+'' then (False, r) else (False, s))
      in if t = [] \<or> \<not> list_all is_digit t then None
         else if neg then (if dec_value t \<le> 2 ^ 63 then Some (- int (dec_value t)) else None)
         else if dec_value t < 2 ^ 63 then Some (int (dec_value t)) else None)"

lemma ParseUint_dec [codec]: "n < 2 ^ bits \<Longrightarrow> ParseUint bits (dec n) = Some n"
  by (auto simp: ParseUint_def list_all_iff dest: dec_digits)

lemma ParseInt64_dec [codec]: "n < 2 ^ 63 \<Longrightarrow> ParseInt64 (dec n) = Some (int n)"
proof -
  assume n: "n < 2 ^ 63"
  obtain c r where cr: "dec n = c # r" by (cases "dec n") auto
  then have "is_digit c" using dec_digits [of c n] by simp
  then have "c \<noteq> CHR ''-''" "c \<noteq> CHR ''+''" by (auto simp: is_digit_iff)
  moreover have "list_all is_digit (dec n)" by (auto simp: list_all_iff dest: dec_digits)
  ultimately show ?thesis using n dec_value_dec [of n] by (simp add: ParseInt64_def cr)
qed

section \<open>package sort\<close>

text \<open>
  \<open>sort.Search(n, f)\<close>: the binary search of the library, as written. \<open>sort.Slice\<close> is
  modelled by the stable \<open>sort_key\<close>; where the code's result could depend on the order of equal
  keys, the lemmas are proved for every sorted permutation.
\<close>

function search_between :: "(nat \<Rightarrow> bool) \<Rightarrow> nat \<Rightarrow> nat \<Rightarrow> nat" where
  "search_between f i j =
     (if i < j then
        let h = (i + j) div 2
        in if \<not> f h then search_between f (h + 1) j else search_between f i h
      else i)"
  by pat_completeness auto
termination
  by (relation "measure (\<lambda>(f, i, j). j - i)") auto

declare search_between.simps [simp del]

definition Search :: "nat \<Rightarrow> (nat \<Rightarrow> bool) \<Rightarrow> nat" where
  "Search n f = search_between f 0 n"

definition is_split :: "(nat \<Rightarrow> bool) \<Rightarrow> nat \<Rightarrow> nat \<Rightarrow> nat \<Rightarrow> bool" where
  "is_split f i j m \<longleftrightarrow> i \<le> m \<and> m \<le> j \<and> (\<forall>k. i \<le> k \<and> k < m \<longrightarrow> \<not> f k) \<and> (\<forall>k. m \<le> k \<and> k < j \<longrightarrow> f k)"

lemma is_split_lower:
  assumes "is_split f (h + 1) j m" "i \<le> h" "\<And>k. i \<le> k \<Longrightarrow> k \<le> h \<Longrightarrow> \<not> f k"
  shows "is_split f i j m"
proof -
  have "\<not> f k" if "i \<le> k" "k < m" for k
    using assms(1) assms(3) [of k] that by (cases "k \<le> h") (auto simp: is_split_def)
  with assms(1,2) show ?thesis by (auto simp: is_split_def)
qed

lemma is_split_upper: "is_split f i h m \<Longrightarrow> h \<le> j \<Longrightarrow> (\<And>k. h \<le> k \<Longrightarrow> k < j \<Longrightarrow> f k) \<Longrightarrow> is_split f i j m"
  unfolding is_split_def by (meson leI le_trans)

lemma search_between_correct:
  assumes "i \<le> j" "\<And>a b. i \<le> a \<Longrightarrow> a \<le> b \<Longrightarrow> b < j \<Longrightarrow> f a \<Longrightarrow> f b"
  shows "is_split f i j (search_between f i j)"
  using assms
proof (induction f i j rule: search_between.induct)
  case (1 f i j)
  show ?case
  proof (cases "i < j")
    case False
    with "1.prems"(1) have "i = j" by simp
    then show ?thesis by (auto simp: search_between.simps [of f j j] is_split_def)
  next
    case True
    define h where "h = (i + j) div 2"
    have h: "i \<le> h" "h < j" using True by (auto simp: h_def)
    show ?thesis
    proof (cases "f h")
      case fh: True
      have eq: "search_between f i j = search_between f i h"
        using True fh by (subst search_between.simps) (simp add: h_def Let_def)
      have "is_split f i h (search_between f i h)"
      proof (rule "1.IH"(2) [OF True h_def])
        fix a b assume "i \<le> a" "a \<le> b" "b < h" "f a"
        then show "f b" using "1.prems"(2) [of a b] h by simp
      qed (use fh h in auto)
      then show ?thesis unfolding eq
        by (rule is_split_upper) (use "1.prems"(2) [of h] fh h in auto)
    next
      case fh: False
      have eq: "search_between f i j = search_between f (h + 1) j"
        using True fh by (subst search_between.simps) (simp add: h_def Let_def)
      have "is_split f (h + 1) j (search_between f (h + 1) j)"
      proof (rule "1.IH"(1) [OF True h_def])
        fix a b assume "h + 1 \<le> a" "a \<le> b" "b < j" "f a"
        then show "f b" using "1.prems"(2) [of a b] h by simp
      qed (use fh h in auto)
      then show ?thesis unfolding eq
        by (rule is_split_lower) (use "1.prems"(2) [of _ h] fh h in auto)
    qed
  qed
qed

lemma Search_le: "(\<And>a b. a \<le> b \<Longrightarrow> b < n \<Longrightarrow> f a \<Longrightarrow> f b) \<Longrightarrow> Search n f \<le> n"
  using search_between_correct [of 0 n f] unfolding Search_def is_split_def by blast

lemma Search_before: "(\<And>a b. a \<le> b \<Longrightarrow> b < n \<Longrightarrow> f a \<Longrightarrow> f b) \<Longrightarrow> k < Search n f \<Longrightarrow> \<not> f k"
  using search_between_correct [of 0 n f] unfolding Search_def is_split_def by blast

lemma Search_after: "(\<And>a b. a \<le> b \<Longrightarrow> b < n \<Longrightarrow> f a \<Longrightarrow> f b) \<Longrightarrow> Search n f \<le> k \<Longrightarrow> k < n \<Longrightarrow> f k"
  using search_between_correct [of 0 n f] unfolding Search_def is_split_def by blast

end
