(* ===== verification/Access.thy ===== *)
theory Access
  imports GoStrings
begin

text \<open>
  What stands before every handler of the API: the rate limiter (\<open>middleware/rate_limit.go\<close>), the
  sessions (\<open>auth/session.go\<close>, \<open>auth/memory_store.go\<close>), the session check (\<open>middleware/auth.go\<close>) and
  the role check (\<open>middleware/rbac.go\<close>). One request reads the clock once in the model.

  A session store is a record of its four operations: \<open>memory_store\<close> is the store of tests and
  development, \<open>redis_store\<close> the one of production over a Redis client that is a parameter. The locale
  \<open>session_backend\<close> is what both promise the session check.
\<close>

section \<open>The rate limiter\<close>

record limiter =
  rl_requests :: "string \<Rightarrow> time list option"
  rl_limit :: int
  rl_window :: duration
  rl_cleanupAt :: time

definition newRateLimiter :: "time \<Rightarrow> int \<Rightarrow> limiter" where
  "newRateLimiter now requestsPerMinute =
     \<lparr>rl_requests = (\<lambda>_. None), rl_limit = requestsPerMinute, rl_window = minute, rl_cleanupAt = now + 5 * minute\<rparr>"

definition recent :: "time \<Rightarrow> time list \<Rightarrow> time list" where
  "recent cutoff ts = filter (\<lambda>t. cutoff < t) ts"

definition rl_cleanup :: "time \<Rightarrow> time \<Rightarrow> limiter \<Rightarrow> limiter" where
  "rl_cleanup now cutoff rl =
     (if rl_cleanupAt rl < now
      then rl\<lparr>rl_requests := (\<lambda>key. case rl_requests rl key of
                                      None \<Rightarrow> None
                                    | Some ts \<Rightarrow> if recent cutoff ts = [] then None else Some (recent cutoff ts)),
              rl_cleanupAt := now + 5 * minute\<rparr>
      else rl)"

definition rl_stored :: "string \<Rightarrow> limiter \<Rightarrow> time list" where
  "rl_stored ip rl = (case rl_requests rl ip of None \<Rightarrow> [] | Some ts \<Rightarrow> ts)"

definition allow :: "time \<Rightarrow> string \<Rightarrow> limiter \<Rightarrow> bool \<times> limiter" where
  "allow now ip rl =
     (let cutoff = now - rl_window rl;
          rl = rl_cleanup now cutoff rl;
          filtered = recent cutoff (rl_stored ip rl)
      in if int (length filtered) \<ge> rl_limit rl then (False, rl)
         else (True, rl\<lparr>rl_requests := (rl_requests rl)(ip \<mapsto> filtered @ [now])\<rparr>))"

text \<open>A history of requests, each its time and its address: the limiter after them, and the times at
  which one address was let in.\<close>

fun allow_all :: "(time \<times> string) list \<Rightarrow> limiter \<Rightarrow> limiter" where
  "allow_all [] rl = rl"
| "allow_all ((t, i) # rs) rl = allow_all rs (snd (allow t i rl))"

fun admitted :: "string \<Rightarrow> (time \<times> string) list \<Rightarrow> limiter \<Rightarrow> time list" where
  "admitted ip [] rl = []"
| "admitted ip ((t, i) # rs) rl =
     (if fst (allow t i rl) \<and> i = ip then t # admitted ip rs (snd (allow t i rl))
      else admitted ip rs (snd (allow t i rl)))"

lemma recent_recent: "c \<le> d \<Longrightarrow> recent d (recent c ts) = recent d ts"
  by (auto simp: recent_def intro!: filter_cong)

lemma recent_append [simp]: "recent c (xs @ ys) = recent c xs @ recent c ys"
  by (simp add: recent_def)

lemma recent_Nil [simp]: "recent c [] = []"
  by (simp add: recent_def)

lemma rl_cleanup_keeps [simp]:
  "rl_limit (rl_cleanup now c rl) = rl_limit rl" "rl_window (rl_cleanup now c rl) = rl_window rl"
  by (auto simp: rl_cleanup_def)

lemma allow_keeps [simp]:
  "rl_limit (snd (allow now ip rl)) = rl_limit rl" "rl_window (snd (allow now ip rl)) = rl_window rl"
  by (auto simp: allow_def Let_def)

lemma stored_cleanup: "c \<le> d \<Longrightarrow> recent d (rl_stored ip (rl_cleanup now c rl)) = recent d (rl_stored ip rl)"
  by (auto simp: rl_stored_def rl_cleanup_def recent_recent split: option.splits)
    (metis recent_Nil recent_recent)

lemma allow_verdict:
  "fst (allow now ip rl) \<longleftrightarrow> int (length (recent (now - rl_window rl) (rl_stored ip rl))) < rl_limit rl"
  by (auto simp: allow_def Let_def stored_cleanup)

lemma allow_stored:
  assumes "now - rl_window rl \<le> c"
  shows "recent c (rl_stored ip (snd (allow now i rl))) =
    recent c (rl_stored ip rl) @ (if fst (allow now i rl) \<and> i = ip then recent c [now] else [])"
proof -
  let ?k = "now - rl_window rl"
  let ?rl = "rl_cleanup now ?k rl"
  have "recent c (recent ?k (rl_stored i ?rl)) = recent c (rl_stored i rl)" for i
    using assms by (simp add: recent_recent stored_cleanup)
  moreover have "rl_stored ip (?rl\<lparr>rl_requests := (rl_requests ?rl)(i \<mapsto> ts)\<rparr>) =
      (if i = ip then ts else rl_stored ip ?rl)" for ts
    by (simp add: rl_stored_def)
  ultimately show ?thesis
    using assms by (auto simp: allow_def Let_def stored_cleanup)
qed

text \<open>\<open>remembers prev H ip rl\<close>: from the window before \<open>prev\<close> on, the limiter holds the admissions \<open>H\<close>.\<close>

definition remembers :: "time \<Rightarrow> time list \<Rightarrow> string \<Rightarrow> limiter \<Rightarrow> bool" where
  "remembers prev H ip rl \<longleftrightarrow> (\<forall>c. prev - rl_window rl \<le> c \<longrightarrow> recent c (rl_stored ip rl) = recent c H)"

lemma remembers_allow:
  assumes "remembers prev H ip rl" "prev \<le> t"
  shows "remembers t (H @ (if fst (allow t i rl) \<and> i = ip then [t] else [])) ip (snd (allow t i rl))"
  using assms allow_stored [of t rl _ ip i] by (auto simp: remembers_def)

lemma remembers_verdict:
  "remembers prev H ip rl \<Longrightarrow> prev \<le> t \<Longrightarrow>
     fst (allow t ip rl) \<longleftrightarrow> int (length (recent (t - rl_window rl) H)) < rl_limit rl"
  by (simp add: allow_verdict remembers_def)

lemma remembers_all:
  assumes "remembers prev H ip rl" "sorted (prev # map fst rs)"
  shows "remembers (if rs = [] then prev else fst (last rs)) (H @ admitted ip rs rl) ip (allow_all rs rl)"
  using assms
proof (induction rs arbitrary: prev H rl)
  case (Cons r rs)
  obtain t i where r: "r = (t, i)" by (cases r)
  let ?H = "H @ (if fst (allow t i rl) \<and> i = ip then [t] else [])"
  have "remembers t ?H ip (snd (allow t i rl))"
    using Cons.prems r by (intro remembers_allow) auto
  moreover have "sorted (t # map fst rs)" using Cons.prems r by simp
  ultimately have "remembers (if rs = [] then t else fst (last rs)) (?H @ admitted ip rs (snd (allow t i rl))) ip
      (allow_all rs (snd (allow t i rl)))"
    by (rule Cons.IH)
  then show ?case by (cases "fst (allow t i rl) \<and> i = ip") (auto simp: r)
qed simp

definition in_window :: "time \<Rightarrow> time \<Rightarrow> duration \<Rightarrow> bool" where
  "in_window t u w \<longleftrightarrow> u - w < t \<and> t \<le> u"

lemma window_append:
  assumes "int (length (filter (\<lambda>x. in_window x u w) H)) \<le> n" "int (length (recent (t - w) H)) < n"
  shows "int (length (filter (\<lambda>x. in_window x u w) (H @ [t]))) \<le> n"
proof (cases "t \<le> u")
  case True
  have "filter (\<lambda>x. in_window x u w) (H @ [t]) = filter (\<lambda>x. in_window x u w) (recent (t - w) H @ [t])"
    using True by (auto simp: recent_def in_window_def intro!: filter_cong)
  then have "length (filter (\<lambda>x. in_window x u w) (H @ [t])) \<le> length (recent (t - w) H @ [t])"
    by (metis length_filter_le)
  then show ?thesis using assms(2) by simp
qed (use assms(1) in \<open>simp add: in_window_def\<close>)

lemma window_bound:
  assumes "remembers prev H ip rl" "sorted (prev # map fst rs)"
    "int (length (filter (\<lambda>x. in_window x u (rl_window rl)) H)) \<le> rl_limit rl"
  shows "int (length (filter (\<lambda>x. in_window x u (rl_window rl)) (H @ admitted ip rs rl))) \<le> rl_limit rl"
  using assms
proof (induction rs arbitrary: prev H rl)
  case (Cons r rs)
  obtain t i where r: "r = (t, i)" by (cases r)
  let ?H = "H @ (if fst (allow t i rl) \<and> i = ip then [t] else [])"
  have le: "prev \<le> t" using Cons.prems r by auto
  have "remembers t ?H ip (snd (allow t i rl))"
    using Cons.prems(1) le by (rule remembers_allow)
  moreover have "sorted (t # map fst rs)" using Cons.prems r by simp
  moreover have "int (length (filter (\<lambda>x. in_window x u (rl_window rl)) ?H)) \<le> rl_limit rl"
    using Cons.prems(3) remembers_verdict [OF Cons.prems(1) le] window_append [of u "rl_window rl" H "rl_limit rl" t]
    by (auto simp del: filter_append)
  ultimately have "int (length (filter (\<lambda>x. in_window x u (rl_window rl))
      (?H @ admitted ip rs (snd (allow t i rl))))) \<le> rl_limit rl"
    using Cons.IH [of t ?H "snd (allow t i rl)"] by simp
  moreover have "?H @ admitted ip rs (snd (allow t i rl)) = H @ admitted ip (r # rs) rl"
    by (auto simp: r)
  ultimately show ?case by (simp del: filter_append)
qed simp

lemma remembers_new: "remembers t [] ip (newRateLimiter t0 n)"
  by (simp add: remembers_def newRateLimiter_def rl_stored_def)

text \<open>C32. The rate limiter keeps its promise on every sliding minute, and not only on the minutes it looks
  back over: whatever requests arrive from whatever addresses, in the order of the clock, at most the limit
  of one address's requests are let in within any minute.\<close>

theorem rate_limit_bound:
  assumes "sorted (map fst reqs)" "0 \<le> n"
  shows "int (length (filter (\<lambda>t. in_window t u minute) (admitted ip reqs (newRateLimiter t0 n)))) \<le> n"
proof (cases reqs)
  case (Cons r rs)
  have "sorted (fst r # map fst reqs)" using assms(1) Cons by simp
  then have "int (length (filter (\<lambda>x. in_window x u (rl_window (newRateLimiter t0 n)))
      ([] @ admitted ip reqs (newRateLimiter t0 n)))) \<le> rl_limit (newRateLimiter t0 n)"
    by (rule window_bound [OF remembers_new]) (simp add: newRateLimiter_def assms(2))
  then show ?thesis by (simp add: newRateLimiter_def)
qed (simp add: assms(2))

theorem rate_limit_bound_witness:
  "int (length (filter (\<lambda>t. in_window t 5 minute)
     (admitted ''a'' [(1, ''a''), (2, ''b''), (3, ''a''), (4, ''a'')] (newRateLimiter 0 2)))) \<le> 2
   \<and> admitted ''a'' [(1, ''a''), (2, ''b''), (3, ''a''), (4, ''a'')] (newRateLimiter 0 2) = [1, 3]"
proof
  show "int (length (filter (\<lambda>t. in_window t 5 minute)
     (admitted ''a'' [(1, ''a''), (2, ''b''), (3, ''a''), (4, ''a'')] (newRateLimiter 0 2)))) \<le> 2"
    by (rule rate_limit_bound) simp_all
qed (simp add: newRateLimiter_def allow_def recent_def rl_cleanup_def rl_stored_def)

text \<open>Refusals never extend the wait: after any history, an address none of whose requests was let in
  for a minute, however often it retried meanwhile, is let in by its next request, as long as the
  limit allows any request at all.\<close>

theorem refused_address_gets_in:
  assumes "sorted (map fst (reqs @ retries))" "1 \<le> n"
    "admitted ip retries (allow_all reqs (newRateLimiter t0 n)) = []"
    "list_all (\<lambda>(t, _). t + minute \<le> now) reqs" "list_all (\<lambda>(t, _). t \<le> now) retries"
  shows "fst (allow now ip (allow_all (reqs @ retries) (newRateLimiter t0 n)))"
proof -
  let ?rl = "newRateLimiter t0 n"
  have app: "allow_all (as @ bs) rl = allow_all bs (allow_all as rl)"
    "admitted ip (as @ bs) rl = admitted ip as rl @ admitted ip bs (allow_all as rl)" for as bs rl
    by (induction as arbitrary: rl) auto
  have keeps: "rl_window (allow_all rs rl) = rl_window rl" "rl_limit (allow_all rs rl) = rl_limit rl" for rs rl
    by (induction rs arbitrary: rl) auto
  have mem: "set (admitted ip rs rl) \<subseteq> fst ` set rs" for rs rl
    by (induction ip rs rl rule: admitted.induct) auto
  let ?all = "reqs @ retries"
  let ?s = "if ?all = [] then now else fst (hd ?all)"
  have "sorted (?s # map fst ?all)" using assms(1) by (cases ?all) auto
  then have "remembers (if ?all = [] then ?s else fst (last ?all)) ([] @ admitted ip ?all ?rl) ip (allow_all ?all ?rl)"
    by (rule remembers_all [OF remembers_new])
  moreover have "(if ?all = [] then ?s else fst (last ?all)) \<le> now"
  proof -
    have "\<forall>x \<in> set ?all. fst x \<le> now" using assms(4, 5) by (fastforce simp: list_all_iff)
    then show ?thesis using last_in_set [of ?all] by auto
  qed
  ultimately have v: "fst (allow now ip (allow_all ?all ?rl)) \<longleftrightarrow>
      int (length (recent (now - minute) (admitted ip reqs ?rl))) < n"
    using remembers_verdict [of _ "admitted ip ?all ?rl" ip "allow_all ?all ?rl" now] assms(3)
    by (simp add: keeps app) (simp add: newRateLimiter_def)
  have "set (admitted ip reqs ?rl) \<subseteq> fst ` set reqs" by (rule mem)
  then have "recent (now - minute) (admitted ip reqs ?rl) = []"
    using assms(4) by (fastforce simp: recent_def filter_empty_conv list_all_iff)
  then show ?thesis using v assms(2) by simp
qed

theorem refused_address_gets_in_witness:
  "fst (allow (2 + minute) ''a'' (allow_all ([(1, ''a''), (2, ''a'')] @ [(3, ''a''), (1 + minute, ''b'')]) (newRateLimiter 0 2)))"
  by (rule refused_address_gets_in)
    (simp_all add: newRateLimiter_def allow_def recent_def rl_cleanup_def rl_stored_def)

end
