(* ===== verification/Sessions.thy ===== *)
theory Sessions
  imports Access
begin

text \<open>
  Sessions and the checks that read them: \<open>auth/session.go\<close>, \<open>auth/memory_store.go\<close>,
  \<open>middleware/auth.go\<close> and \<open>middleware/rbac.go\<close>. A store is a record of its four operations;
  \<open>memory_store\<close> keeps the sessions itself, \<open>redis_store\<close> runs on a Redis client and a JSON codec that are
  parameters. The locale \<open>session_backend\<close> states what the session check relies on: \<open>live s t tok\<close> is the
  session a token stands for at the moment \<open>t\<close>. One request reads the clock once.
\<close>

section \<open>The data\<close>

definition UserRoleAdmin :: string where "UserRoleAdmin = ''admin''"
definition UserRoleTechnician :: string where "UserRoleTechnician = ''technician''"
definition UserRoleViewer :: string where "UserRoleViewer = ''viewer''"
definition UserRoleCS :: string where "UserRoleCS = ''cs''"

lemmas role_defs = UserRoleAdmin_def UserRoleTechnician_def UserRoleViewer_def UserRoleCS_def

record session_data =
  sd_UserID :: uuid
  sd_Role :: string
  sd_CreatedAt :: time
  sd_LastActivity :: time

record 's store =
  Create :: "time \<Rightarrow> string \<Rightarrow> uuid \<Rightarrow> string \<Rightarrow> 's \<Rightarrow> bool \<times> 's"
  Get :: "time \<Rightarrow> string \<Rightarrow> 's \<Rightarrow> session_data option \<times> 's"
  Delete :: "time \<Rightarrow> string \<Rightarrow> 's \<Rightarrow> bool \<times> 's"
  Refresh :: "time \<Rightarrow> string \<Rightarrow> 's \<Rightarrow> bool \<times> 's"

section \<open>The store in memory\<close>

record MemoryStore =
  ms_sessions :: "string \<Rightarrow> session_data option"
  ms_ttl :: duration

definition NewMemoryStore :: "duration \<Rightarrow> MemoryStore" where
  "NewMemoryStore ttl = \<lparr>ms_sessions = (\<lambda>_. None), ms_ttl = ttl\<rparr>"

definition ms_create :: "time \<Rightarrow> string \<Rightarrow> uuid \<Rightarrow> string \<Rightarrow> MemoryStore \<Rightarrow> bool \<times> MemoryStore" where
  "ms_create now token userID role ms =
     (True, ms\<lparr>ms_sessions := (ms_sessions ms)(token \<mapsto>
        \<lparr>sd_UserID = userID, sd_Role = role, sd_CreatedAt = now, sd_LastActivity = now\<rparr>)\<rparr>)"

definition ms_get :: "time \<Rightarrow> string \<Rightarrow> MemoryStore \<Rightarrow> session_data option \<times> MemoryStore" where
  "ms_get now token ms =
     (case ms_sessions ms token of
        None \<Rightarrow> (None, ms)
      | Some d \<Rightarrow>
          if now - sd_LastActivity d > ms_ttl ms
          then (None, ms\<lparr>ms_sessions := (ms_sessions ms)(token := None)\<rparr>)
          else (Some d, ms))"

definition ms_delete :: "time \<Rightarrow> string \<Rightarrow> MemoryStore \<Rightarrow> bool \<times> MemoryStore" where
  "ms_delete now token ms = (True, ms\<lparr>ms_sessions := (ms_sessions ms)(token := None)\<rparr>)"

definition ms_refresh :: "time \<Rightarrow> string \<Rightarrow> MemoryStore \<Rightarrow> bool \<times> MemoryStore" where
  "ms_refresh now token ms =
     (case ms_sessions ms token of
        None \<Rightarrow> (False, ms)
      | Some d \<Rightarrow> (True, ms\<lparr>ms_sessions := (ms_sessions ms)(token \<mapsto> d\<lparr>sd_LastActivity := now\<rparr>)\<rparr>))"

definition memory_store :: "MemoryStore store" where
  "memory_store = \<lparr>Create = ms_create, Get = ms_get, Delete = ms_delete, Refresh = ms_refresh\<rparr>"

section \<open>The store on Redis\<close>

text \<open>The commands of the client, each with the moment the server runs it. \<open>Get\<close> answers an error,
  nothing (\<open>redis.Nil\<close>) or the value; \<open>Expire\<close> whether the key was there.\<close>

record 'r redis =
  rd_Set :: "time \<Rightarrow> string \<Rightarrow> string \<Rightarrow> duration \<Rightarrow> 'r \<Rightarrow> bool \<times> 'r"
  rd_Get :: "time \<Rightarrow> string \<Rightarrow> 'r \<Rightarrow> (string option) option \<times> 'r"
  rd_Del :: "time \<Rightarrow> string \<Rightarrow> 'r \<Rightarrow> bool \<times> 'r"
  rd_Expire :: "time \<Rightarrow> string \<Rightarrow> duration \<Rightarrow> 'r \<Rightarrow> bool option \<times> 'r"

record json =
  Marshal :: "session_data \<Rightarrow> string option"
  Unmarshal :: "string \<Rightarrow> session_data option"

definition session_key :: "string \<Rightarrow> string" where
  "session_key token = ''session:'' @ token"

definition redis_store :: "'r redis \<Rightarrow> json \<Rightarrow> duration \<Rightarrow> 'r store" where
  "redis_store c j ttl =
     \<lparr>Create = (\<lambda>now token userID role r.
        (case Marshal j \<lparr>sd_UserID = userID, sd_Role = role, sd_CreatedAt = now, sd_LastActivity = now\<rparr> of
           None \<Rightarrow> (False, r)
         | Some v \<Rightarrow> rd_Set c now (session_key token) v ttl r)),
      Get = (\<lambda>now token r.
        (case rd_Get c now (session_key token) r of
           (None, r) \<Rightarrow> (None, r)
         | (Some None, r) \<Rightarrow> (None, r)
         | (Some (Some v), r) \<Rightarrow> (Unmarshal j v, r))),
      Delete = (\<lambda>now token r. rd_Del c now (session_key token) r),
      Refresh = (\<lambda>now token r.
        (case rd_Expire c now (session_key token) ttl r of
           (None, r) \<Rightarrow> (False, r)
         | (Some existed, r) \<Rightarrow> (existed, r)))\<rparr>"

section \<open>The checks before a handler\<close>

datatype role_value = RoleValue string | OtherValue

record ctx =
  cx_user_id :: "uuid option"
  cx_user_role :: "role_value option"
  cx_session_token :: "string option"

definition no_ctx :: ctx where
  "no_ctx = \<lparr>cx_user_id = None, cx_user_role = None, cx_session_token = None\<rparr>"

type_synonym refusal = "nat \<times> string"

definition AuthMiddleware :: "'s store \<Rightarrow> time \<Rightarrow> string option \<Rightarrow> ctx \<Rightarrow> 's \<Rightarrow> (refusal + ctx) \<times> 's" where
  "AuthMiddleware st now cookie cx s =
     (case cookie of
        None \<Rightarrow> (Inl (401, ''UNAUTHORIZED''), s)
      | Some token \<Rightarrow>
          (case Get st now token s of
             (None, s) \<Rightarrow> (Inl (401, ''UNAUTHORIZED''), s)
           | (Some d, s) \<Rightarrow>
               (case Refresh st now token s of
                  (_, s) \<Rightarrow> (Inr (cx\<lparr>cx_user_id := Some (sd_UserID d), cx_user_role := Some (RoleValue (sd_Role d)),
                                     cx_session_token := Some token\<rparr>), s))))"

definition RequireRole :: "string list \<Rightarrow> ctx \<Rightarrow> refusal + ctx" where
  "RequireRole allowedRoles cx =
     (case cx_user_role cx of
        None \<Rightarrow> Inl (403, ''FORBIDDEN'')
      | Some OtherValue \<Rightarrow> Inl (403, ''FORBIDDEN'')
      | Some (RoleValue userRole) \<Rightarrow>
          if list_ex (\<lambda>role. userRole = role) allowedRoles then Inr cx else Inl (403, ''FORBIDDEN''))"

definition GetUserID :: "ctx \<Rightarrow> uuid option" where
  "GetUserID cx = cx_user_id cx"

definition GetUserRole :: "ctx \<Rightarrow> string option" where
  "GetUserRole cx = (case cx_user_role cx of Some (RoleValue r) \<Rightarrow> Some r | _ \<Rightarrow> None)"

section \<open>What the check relies on\<close>

locale session_backend =
  fixes st :: "'s store"
    and valid :: "'s \<Rightarrow> bool"
    and live :: "'s \<Rightarrow> time \<Rightarrow> string \<Rightarrow> (uuid \<times> string) option"
    and life :: duration
  assumes create_valid: "valid s \<Longrightarrow> valid (snd (Create st now tok uid role s))"
    and get_valid: "valid s \<Longrightarrow> valid (snd (Get st now tok s))"
    and delete_valid: "valid s \<Longrightarrow> valid (snd (Delete st now tok s))"
    and refresh_valid: "valid s \<Longrightarrow> valid (snd (Refresh st now tok s))"
    and get_live: "valid s \<Longrightarrow>
          map_option (\<lambda>d. (sd_UserID d, sd_Role d)) (fst (Get st now tok s)) = live s now tok"
    and get_keeps: "valid s \<Longrightarrow> now \<le> t \<Longrightarrow> live (snd (Get st now tok s)) t = live s t"
    and create_live: "valid s \<Longrightarrow> now \<le> t \<Longrightarrow> live (snd (Create st now tok uid role s)) t =
          (live s t)(tok := if t < now + life then Some (uid, role) else None)"
    and delete_live: "valid s \<Longrightarrow> live (snd (Delete st now tok s)) t = (live s t)(tok := None)"
    and refresh_live: "valid s \<Longrightarrow> now \<le> t \<Longrightarrow> live s now tok \<noteq> None \<Longrightarrow>
          live (snd (Refresh st now tok s)) t =
          (live s t)(tok := if t < now + life then live s now tok else None)"

text \<open>What happens to sessions: a login, a request that carries a token, a logout. \<open>run_sessions\<close> answers
  who each request was taken for.\<close>

datatype session_event =
    LoggedIn time string uuid string
  | Requested time string
  | LoggedOut time string

fun ev_time :: "session_event \<Rightarrow> time" where
  "ev_time (LoggedIn t _ _ _) = t"
| "ev_time (Requested t _) = t"
| "ev_time (LoggedOut t _) = t"

fun run_sessions :: "'s store \<Rightarrow> session_event list \<Rightarrow> 's \<Rightarrow> (uuid \<times> string) option list" where
  "run_sessions st [] s = []"
| "run_sessions st (LoggedIn t tok uid role # es) s = run_sessions st es (snd (Create st t tok uid role s))"
| "run_sessions st (LoggedOut t tok # es) s = run_sessions st es (snd (Delete st t tok s))"
| "run_sessions st (Requested t tok # es) s =
     (case AuthMiddleware st t (Some tok) no_ctx s of
        (Inl _, s) \<Rightarrow> None # run_sessions st es s
      | (Inr cx, s) \<Rightarrow> Some (the (GetUserID cx), the (GetUserRole cx)) # run_sessions st es s)"

text \<open>The specification: a token stands for who logged in with it, for \<open>life\<close> after the login or the
  last request, until it is logged out.\<close>

type_synonym sessions_spec = "string \<Rightarrow> ((uuid \<times> string) \<times> time) option"

definition spec_live :: "sessions_spec \<Rightarrow> time \<Rightarrow> string \<Rightarrow> (uuid \<times> string) option" where
  "spec_live m t tok = (case m tok of Some (who, until) \<Rightarrow> if t < until then Some who else None | None \<Rightarrow> None)"

fun spec_sessions :: "duration \<Rightarrow> session_event list \<Rightarrow> sessions_spec \<Rightarrow> (uuid \<times> string) option list" where
  "spec_sessions life [] m = []"
| "spec_sessions life (LoggedIn t tok uid role # es) m = spec_sessions life es (m(tok \<mapsto> ((uid, role), t + life)))"
| "spec_sessions life (LoggedOut t tok # es) m = spec_sessions life es (m(tok := None))"
| "spec_sessions life (Requested t tok # es) m =
     (case spec_live m t tok of
        None \<Rightarrow> None # spec_sessions life es m
      | Some who \<Rightarrow> Some who # spec_sessions life es (m(tok \<mapsto> (who, t + life))))"

context session_backend
begin

definition agrees :: "time \<Rightarrow> sessions_spec \<Rightarrow> 's \<Rightarrow> bool" where
  "agrees now m s \<longleftrightarrow> valid s \<and> (\<forall>t \<ge> now. live s t = spec_live m t)"

lemma agrees_later: "agrees now m s \<Longrightarrow> now \<le> t \<Longrightarrow> agrees t m s"
  by (simp add: agrees_def)

lemma agrees_create: "agrees t m s \<Longrightarrow> agrees t (m(tok \<mapsto> ((uid, role), t + life))) (snd (Create st t tok uid role s))"
  by (auto simp: agrees_def create_valid create_live spec_live_def fun_eq_iff)

lemma agrees_delete: "agrees t m s \<Longrightarrow> agrees t (m(tok := None)) (snd (Delete st t tok s))"
  by (auto simp: agrees_def delete_valid delete_live spec_live_def fun_eq_iff)

lemma agrees_get: "agrees t m s \<Longrightarrow> agrees t m (snd (Get st t tok s))"
  by (simp add: agrees_def get_valid get_keeps)

lemma agrees_refresh:
  "agrees t m s \<Longrightarrow> spec_live m t tok = Some who \<Longrightarrow>
     agrees t (m(tok \<mapsto> (who, t + life))) (snd (Refresh st t tok s))"
  by (auto simp: agrees_def refresh_valid refresh_live spec_live_def fun_eq_iff)

text \<open>The session check lets a request through exactly when its token is live, and hands on who it is.\<close>

lemma auth_live:
  "valid s \<Longrightarrow> AuthMiddleware st now (Some tok) cx s =
     (case live s now tok of
        None \<Rightarrow> (Inl (401, ''UNAUTHORIZED''), snd (Get st now tok s))
      | Some (uid, role) \<Rightarrow>
          (Inr (cx\<lparr>cx_user_id := Some uid, cx_user_role := Some (RoleValue role), cx_session_token := Some tok\<rparr>),
           snd (Refresh st now tok (snd (Get st now tok s)))))"
  unfolding AuthMiddleware_def
  by (cases "Get st now tok s"; cases "fst (Get st now tok s)")
    (auto simp: get_live [symmetric] split: prod.splits)

theorem run_refines:
  "agrees now m s \<Longrightarrow> sorted (now # map ev_time es) \<Longrightarrow> run_sessions st es s = spec_sessions life es m"
proof (induction es arbitrary: now m s)
  case (Cons e es)
  have ord: "now \<le> ev_time e" "sorted (ev_time e # map ev_time es)" using Cons.prems by auto
  have ag: "agrees (ev_time e) m s" using Cons.prems ord by (auto intro: agrees_later)
  show ?case
  proof (cases e)
    case (LoggedIn t tok uid role)
    have "run_sessions st es (snd (Create st t tok uid role s)) =
        spec_sessions life es (m(tok \<mapsto> ((uid, role), t + life)))"
      by (rule Cons.IH [OF agrees_create]) (use ag ord LoggedIn in auto)
    then show ?thesis by (simp add: LoggedIn)
  next
    case (LoggedOut t tok)
    have "run_sessions st es (snd (Delete st t tok s)) = spec_sessions life es (m(tok := None))"
      by (rule Cons.IH [OF agrees_delete]) (use ag ord LoggedOut in auto)
    then show ?thesis by (simp add: LoggedOut)
  next
    case (Requested t tok)
    have l: "live s t tok = spec_live m t tok" "valid s" using ag Requested by (simp_all add: agrees_def)
    show ?thesis
    proof (cases "spec_live m t tok")
      case None
      have "run_sessions st es (snd (Get st t tok s)) = spec_sessions life es m"
        by (rule Cons.IH [OF agrees_get]) (use ag ord Requested in auto)
      then show ?thesis using Requested l None by (simp add: auth_live)
    next
      case (Some who)
      have "run_sessions st es (snd (Refresh st t tok (snd (Get st t tok s)))) =
          spec_sessions life es (m(tok \<mapsto> (who, t + life)))"
        by (rule Cons.IH [OF agrees_refresh [OF agrees_get]]) (use ag ord Requested Some in auto)
      then show ?thesis
        using Requested l Some by (cases who) (simp add: auth_live GetUserID_def GetUserRole_def)
    qed
  qed
qed simp

end

section \<open>Both stores keep the contract\<close>

definition ms_live :: "MemoryStore \<Rightarrow> time \<Rightarrow> string \<Rightarrow> (uuid \<times> string) option" where
  "ms_live ms t tok =
     (case ms_sessions ms tok of
        None \<Rightarrow> None
      | Some d \<Rightarrow> if t - sd_LastActivity d \<le> ms_ttl ms then Some (sd_UserID d, sd_Role d) else None)"

lemmas ms_ops = memory_store_def ms_create_def ms_get_def ms_delete_def ms_refresh_def ms_live_def

interpretation ms: session_backend memory_store "\<lambda>ms. ms_ttl ms = ttl" ms_live "ttl + 1" for ttl
  by unfold_locales (auto simp: ms_ops fun_eq_iff split: option.splits if_splits)

text \<open>What is documented of Redis: \<open>kv\<close> reads a key's value and the moment it expires at. A codec reads
  back what it wrote.\<close>

definition redis_behaves :: "'r redis \<Rightarrow> ('r \<Rightarrow> string \<Rightarrow> (string \<times> time) option) \<Rightarrow> bool" where
  "redis_behaves c kv \<longleftrightarrow>
     (\<forall>now k v ttl r. kv (snd (rd_Set c now k v ttl r)) = (kv r)(k \<mapsto> (v, now + ttl))) \<and>
     (\<forall>now k r. fst (rd_Get c now k r) =
        Some (case kv r k of Some (v, e) \<Rightarrow> if now < e then Some v else None | None \<Rightarrow> None)) \<and>
     (\<forall>now k r. kv (snd (rd_Get c now k r)) = kv r) \<and>
     (\<forall>now k r. kv (snd (rd_Del c now k r)) = (kv r)(k := None)) \<and>
     (\<forall>now k ttl r. kv (snd (rd_Expire c now k ttl r)) =
        (case kv r k of Some (v, e) \<Rightarrow> if now < e then (kv r)(k \<mapsto> (v, now + ttl)) else kv r | None \<Rightarrow> kv r))"

definition json_behaves :: "json \<Rightarrow> bool" where
  "json_behaves j \<longleftrightarrow> (\<forall>d. \<exists>v. Marshal j d = Some v \<and> Unmarshal j v = Some d)"

definition redis_live :: "json \<Rightarrow> ('r \<Rightarrow> string \<Rightarrow> (string \<times> time) option) \<Rightarrow> 'r \<Rightarrow> time \<Rightarrow> string
    \<Rightarrow> (uuid \<times> string) option" where
  "redis_live j kv r t tok =
     (case kv r (session_key tok) of
        None \<Rightarrow> None
      | Some (v, e) \<Rightarrow>
          if t < e then map_option (\<lambda>d. (sd_UserID d, sd_Role d)) (Unmarshal j v) else None)"

lemma session_key_inj [simp]: "session_key a = session_key b \<longleftrightarrow> a = b"
  by (simp add: session_key_def)

lemma redis_backend:
  assumes c: "redis_behaves c kv" and j: "json_behaves j"
  shows "session_backend (redis_store c j ttl) (\<lambda>_. True) (redis_live j kv) ttl"
proof -
  have get: "fst (rd_Get c now k r) =
        Some (case kv r k of Some (v, e) \<Rightarrow> if now < e then Some v else None | None \<Rightarrow> None)"
    "kv (snd (rd_Get c now k r)) = kv r"
    and set: "kv (snd (rd_Set c now k v l r)) = (kv r)(k \<mapsto> (v, now + l))"
    and del: "kv (snd (rd_Del c now k r)) = (kv r)(k := None)"
    and exp: "kv (snd (rd_Expire c now k l r)) =
        (case kv r k of Some (v, e) \<Rightarrow> if now < e then (kv r)(k \<mapsto> (v, now + l)) else kv r | None \<Rightarrow> kv r)"
    for now k r v l
    using c by (simp_all add: redis_behaves_def)
  have get_fst: "fst (Get (redis_store c j ttl) now tok r) =
      (case kv r (session_key tok) of Some (v, e) \<Rightarrow> if now < e then Unmarshal j v else None | None \<Rightarrow> None)" for now tok r
    using get(1) [of now "session_key tok" r]
    by (auto simp: redis_store_def split: prod.splits option.splits if_splits)
  have get_snd: "snd (Get (redis_store c j ttl) now tok r) = snd (rd_Get c now (session_key tok) r)" for now tok r
    by (auto simp: redis_store_def split: prod.splits option.splits)
  have ref_snd: "snd (Refresh (redis_store c j ttl) now tok r) = snd (rd_Expire c now (session_key tok) ttl r)" for now tok r
    by (auto simp: redis_store_def split: prod.splits option.splits)
  have cre: "\<exists>v. snd (Create (redis_store c j ttl) now tok uid role r) = snd (rd_Set c now (session_key tok) v ttl r) \<and>
      Unmarshal j v = Some \<lparr>sd_UserID = uid, sd_Role = role, sd_CreatedAt = now, sd_LastActivity = now\<rparr>" for now tok uid role r
    using j by (auto simp: redis_store_def json_behaves_def split: option.splits)
      (metis option.distinct(1) option.inject)+
  have dele: "snd (Delete (redis_store c j ttl) now tok r) = snd (rd_Del c now (session_key tok) r)" for now tok r
    by (simp add: redis_store_def)
  show ?thesis
  proof
    fix now tok uid role and r t
    assume "now \<le> (t::time)"
    obtain v where v: "snd (Create (redis_store c j ttl) now tok uid role r) = snd (rd_Set c now (session_key tok) v ttl r)"
      "Unmarshal j v = Some \<lparr>sd_UserID = uid, sd_Role = role, sd_CreatedAt = now, sd_LastActivity = now\<rparr>"
      using cre by blast
    show "redis_live j kv (snd (Create (redis_store c j ttl) now tok uid role r)) t =
        (redis_live j kv r t)(tok := if t < now + ttl then Some (uid, role) else None)"
      by (simp add: v set redis_live_def fun_eq_iff)
  qed (auto simp: get_fst get_snd ref_snd dele get(2) del exp redis_live_def fun_eq_iff split: option.splits if_splits)
qed

section \<open>Who a request is taken for\<close>

lemma sorted_start: "sorted (map ev_time es) \<Longrightarrow> \<exists>now. sorted (now # map ev_time es)"
  by (cases es) (auto intro: exI [of _ "ev_time (hd es)"])

text \<open>The sessions kept in memory are the specified ones: in any course of logins, requests and
  logouts, in the order of the clock, every request is taken for exactly the user and the role that last
  logged in with its token, provided it has not been logged out and was used in the last \<open>ttl\<close>.\<close>

theorem memory_sessions_refine:
  assumes "sorted (map ev_time es)"
  shows "run_sessions memory_store es (NewMemoryStore ttl) = spec_sessions (ttl + 1) es (\<lambda>_. None)"
proof -
  obtain now where "sorted (now # map ev_time es)" using sorted_start [OF assms] by blast
  moreover have "ms.agrees ttl now (\<lambda>_. None) (NewMemoryStore ttl)"
    by (simp add: ms.agrees_def NewMemoryStore_def ms_live_def spec_live_def fun_eq_iff)
  ultimately show ?thesis by (rule ms.run_refines [rotated])
qed

definition sample_sessions :: "session_event list" where
  "sample_sessions =
     [LoggedIn 0 ''t'' 7 UserRoleCS, Requested 5 ''t'', Requested 5 ''u'', LoggedIn 6 ''u'' 8 UserRoleAdmin,
      LoggedOut 7 ''u'', Requested 8 ''u'', Requested 15 ''t'', Requested 26 ''t'']"

theorem memory_sessions_refine_witness:
  "run_sessions memory_store sample_sessions (NewMemoryStore 10) = spec_sessions (10 + 1) sample_sessions (\<lambda>_. None)
   \<and> spec_sessions (10 + 1) sample_sessions (\<lambda>_. None) = [Some (7, UserRoleCS), None, None, Some (7, UserRoleCS), None]"
proof
  show "run_sessions memory_store sample_sessions (NewMemoryStore 10) = spec_sessions (10 + 1) sample_sessions (\<lambda>_. None)"
    by (rule memory_sessions_refine) (simp add: sample_sessions_def)
qed (simp add: sample_sessions_def spec_live_def)


text \<open>A Redis and a codec that behave, for the witness.\<close>

type_synonym kv_store = "string \<Rightarrow> (string \<times> time) option"

definition small_redis :: "kv_store redis" where
  "small_redis =
     \<lparr>rd_Set = (\<lambda>now k v ttl r. (True, r(k \<mapsto> (v, now + ttl)))),
      rd_Get = (\<lambda>now k r. (Some (case r k of Some (v, e) \<Rightarrow> if now < e then Some v else None | None \<Rightarrow> None), r)),
      rd_Del = (\<lambda>now k r. (True, r(k := None))),
      rd_Expire = (\<lambda>now k ttl r.
        (case r k of Some (v, e) \<Rightarrow> if now < e then (Some True, r(k \<mapsto> (v, now + ttl))) else (Some False, r)
                   | None \<Rightarrow> (Some False, r)))\<rparr>"

definition int_text :: "int \<Rightarrow> string" where
  "int_text i = (if i < 0 then CHR ''-'' # dec (nat (- i)) else CHR ''+'' # dec (nat i))"

definition text_int :: "string \<Rightarrow> int" where
  "text_int s = (if hd s = CHR ''-'' then - int (dec_value (tl s)) else int (dec_value (tl s)))"

lemma text_int_text: "text_int (int_text i) = i"
  by (simp add: text_int_def int_text_def)

definition small_json :: json where
  "small_json =
     \<lparr>Marshal = (\<lambda>d. Some (dec (sd_UserID d) @ CHR '','' # int_text (sd_CreatedAt d) @ CHR '','' #
                          int_text (sd_LastActivity d) @ CHR '','' # sd_Role d)),
      Unmarshal = (\<lambda>v.
        (case Cut v (CHR '','') of (a, v, _) \<Rightarrow>
         (case Cut v (CHR '','') of (b, v, _) \<Rightarrow>
         (case Cut v (CHR '','') of (c, role, _) \<Rightarrow>
            Some \<lparr>sd_UserID = dec_value a, sd_Role = role, sd_CreatedAt = text_int b, sd_LastActivity = text_int c\<rparr>))))\<rparr>"

lemma small_json_behaves: "json_behaves small_json"
proof -
  have d: "CHR '','' \<notin> set (dec n)" for n by (rule not_digit_dec) (simp add: is_digit_iff)
  have i: "CHR '','' \<notin> set (int_text k)" for k using d by (simp add: int_text_def)
  show ?thesis
    using Cut_append [OF d] Cut_append [OF i] by (simp add: json_behaves_def small_json_def text_int_text)
qed


end
