(* ===== verification/Gateway.thy ===== *)
theory Gateway
  imports Sessions
begin

text \<open>
  The way of a request to its handler: the route table of \<open>api/router.go\<close>,
  \<open>api/router_routes_cs_groups.go\<close> and \<open>api/router_routes_mikrotik.go\<close>, with the chain of checks each route
  runs, and the walk along a chain. A route is its method, its pattern and its chain; which route a path
  matches is the router library's business, so a request names its pattern. A handler is its name here: \<open>Accounts\<close> models
  those of the accounts.
\<close>

section \<open>Chains\<close>

datatype mw = Cors | Limit nat | Authenticated | Role "string list" | Handler string

type_synonym route = "string \<times> string \<times> mw list"

datatype outcome = Refused nat string | NoContent | Reached string ctx | NotFound

record 's gate =
  ga_limiters :: "nat \<Rightarrow> limiter"
  ga_sessions :: 's

definition globalRequestsPerMinute :: int where "globalRequestsPerMinute = 600"
definition loginRequestsPerMinute :: int where "loginRequestsPerMinute = 10"

definition global_limiter :: nat where "global_limiter = 0"
definition login_limiter :: nat where "login_limiter = 1"

definition new_gate :: "time \<Rightarrow> 's \<Rightarrow> 's gate" where
  "new_gate now s =
     \<lparr>ga_limiters = (\<lambda>n. newRateLimiter now (if n = global_limiter then globalRequestsPerMinute else loginRequestsPerMinute)),
      ga_sessions = s\<rparr>"

fun run_chain :: "'s store \<Rightarrow> time \<Rightarrow> string \<Rightarrow> string \<Rightarrow> string option \<Rightarrow> mw list \<Rightarrow> ctx \<Rightarrow> 's gate \<Rightarrow> outcome \<times> 's gate" where
  "run_chain st now m ip cookie [] cx g = (NotFound, g)"
| "run_chain st now m ip cookie (Cors # ms) cx g =
     (if m = ''OPTIONS'' then (NoContent, g) else run_chain st now m ip cookie ms cx g)"
| "run_chain st now m ip cookie (Limit n # ms) cx g =
     (case allow now ip (ga_limiters g n) of
        (ok, rl) \<Rightarrow>
          (let g = g\<lparr>ga_limiters := (ga_limiters g)(n := rl)\<rparr>
           in if \<not> ok then (Refused 429 ''RATE_LIMIT_EXCEEDED'', g) else run_chain st now m ip cookie ms cx g))"
| "run_chain st now m ip cookie (Authenticated # ms) cx g =
     (case AuthMiddleware st now cookie cx (ga_sessions g) of
        (Inl (code, name), s) \<Rightarrow> (Refused code name, g\<lparr>ga_sessions := s\<rparr>)
      | (Inr cx, s) \<Rightarrow> run_chain st now m ip cookie ms cx (g\<lparr>ga_sessions := s\<rparr>))"
| "run_chain st now m ip cookie (Role rs # ms) cx g =
     (case RequireRole rs cx of
        Inl (code, name) \<Rightarrow> (Refused code name, g)
      | Inr cx \<Rightarrow> run_chain st now m ip cookie ms cx g)"
| "run_chain st now m ip cookie (Handler h # ms) cx g = (Reached h cx, g)"

section \<open>The routes\<close>

definition admin :: mw where "admin = Role [UserRoleAdmin]"
definition operator :: mw where "operator = Role [UserRoleAdmin, UserRoleTechnician]"

definition route_group :: "string \<Rightarrow> mw list \<Rightarrow> route list \<Rightarrow> route list" where
  "route_group pre use rs = map (\<lambda>(m, p, c). (m, pre @ p, use @ c)) rs"

definition registerAccountRoutes :: "route list" where
  "registerAccountRoutes =
   route_group ''/auth'' []
     [(''POST'', ''/login'', [Limit login_limiter, Handler ''auth.Login'']),
      (''POST'', ''/logout'', [Handler ''auth.Logout'']),
      (''GET'', ''/me'', [Authenticated, Handler ''auth.Me'']),
      (''GET'', ''/firebase-token'', [Authenticated, Role [UserRoleAdmin, UserRoleCS, UserRoleTechnician], Handler ''firebaseToken.Token''])] @
   route_group ''/users'' [Authenticated]
     [(''GET'', '''', [Handler ''user.List'']),
      (''POST'', '''', [admin, Handler ''user.Create'']),
      (''PUT'', ''/:id'', [operator, Handler ''user.Update'']),
      (''DELETE'', ''/:id'', [admin, Handler ''user.Delete''])] @
   route_group ''/sites'' [Authenticated]
     [(''GET'', '''', [Handler ''site.List'']),
      (''POST'', '''', [admin, Handler ''site.Create'']),
      (''PUT'', ''/:id'', [operator, Handler ''site.Update'']),
      (''DELETE'', ''/:id'', [admin, Handler ''site.Delete''])] @
   route_group ''/settings'' [Authenticated]
     [(''GET'', ''/browser'', [Handler ''setting.Browser'']),
      (''GET'', '''', [admin, Handler ''setting.List'']),
      (''PUT'', ''/:name'', [admin, Handler ''setting.Set'']),
      (''DELETE'', ''/:name'', [admin, Handler ''setting.Delete''])] @
   route_group ''/dashboard'' [Authenticated]
     [(''GET'', ''/stats'', [Handler ''dashboard.GetStats''])]"

definition registerPlantRoutes :: "route list" where
  "registerPlantRoutes =
   route_group ''/olts'' [Authenticated]
     [(''GET'', '''', [Handler ''olt.List'']),
      (''GET'', ''/:id'', [Handler ''olt.GetByID'']),
      (''POST'', '''', [admin, Handler ''olt.Create'']),
      (''PUT'', ''/:id'', [operator, Handler ''olt.Update'']),
      (''DELETE'', ''/:id'', [admin, Handler ''olt.Delete'']),
      (''POST'', ''/test-connection'', [admin, Handler ''olt.TestConnection'']),
      (''GET'', ''/:id/topology/cached'', [Handler ''olt.GetCachedTopology'']),
      (''POST'', ''/:id/topology'', [operator, Handler ''olt.DiscoverOLTTopology'']),
      (''POST'', ''/:id/discover'', [operator, Handler ''olt.DiscoverONTs'']),
      (''POST'', ''/:id/discover-and-register'', [operator, Handler ''olt.DiscoverAndRegisterONTs'']),
      (''POST'', ''/:id/discover-now'', [operator, Handler ''olt.DiscoverNow'']),
      (''GET'', ''/:id/stats'', [Handler ''metrics.GetOltsStats'']),
      (''GET'', ''/:id/unconfigured-onus'', [Handler ''unconfiguredONU.ListByOLT'']),
      (''GET'', ''/:id/vlans'', [Handler ''olt.ListVLANs'']),
      (''GET'', ''/:id/tcont-profiles'', [Handler ''olt.ListTCONTProfiles'']),
      (''GET'', ''/:id/vlan-profiles'', [Handler ''olt.ListVLANProfiles'']),
      (''GET'', ''/:id/onu-types'', [Handler ''olt.ListONUTypes'']),
      (''GET'', ''/:id/system'', [Handler ''olt.GetSystem'']),
      (''GET'', ''/:id/metrics/traffic'', [Handler ''metrics.GetOLTAggregateTraffic'']),
      (''GET'', ''/:id/pon-health'', [Handler ''olt.PonHealth'']),
      (''POST'', ''/:id/system/refresh'', [operator, Handler ''olt.RefreshSystem'']),
      (''POST'', ''/:id/gpon/register'', [operator, Handler ''zteProvision.Register'']),
      (''POST'', ''/:id/gpon/preview'', [operator, Handler ''zteProvision.PreviewRegister''])]"

definition registerONTRoutes :: "route list" where
  "registerONTRoutes =
   route_group ''/onts'' [Authenticated]
     [(''GET'', '''', [Handler ''ont.List'']),
      (''GET'', ''/troubled'', [Handler ''ont.ListTroubled'']),
      (''GET'', ''/:id'', [Handler ''ont.GetByID'']),
      (''POST'', '''', [admin, Handler ''ont.Create'']),
      (''PUT'', ''/:id'', [operator, Handler ''ont.Update'']),
      (''DELETE'', ''/:id'', [admin, Handler ''ont.Delete'']),
      (''GET'', ''/:id/removal/preview'', [admin, Handler ''ont.PreviewRemoval'']),
      (''GET'', ''/:id/metrics/realtime'', [Handler ''metrics.GetRealtime'']),
      (''GET'', ''/:id/metrics/timeseries'', [Handler ''metrics.GetTrafficTimeSeries'']),
      (''GET'', ''/:id/metrics/history'', [Handler ''metrics.GetHistory'']),
      (''GET'', ''/:id/metrics'', [Handler ''metrics.GetLatest'']),
      (''GET'', ''/:id/service-config'', [Handler ''ont.GetServiceConfig'']),
      (''GET'', ''/:id/events'', [Handler ''event.GetEvents'']),
      (''GET'', ''/:id/availability'', [Handler ''event.GetAvailability'']),
      (''POST'', ''/:id/gpon/configure'', [operator, Handler ''zteProvision.ConfigureExisting'']),
      (''POST'', ''/:id/gpon/preview'', [operator, Handler ''zteProvision.PreviewConfigure'']),
      (''POST'', ''/:id/provision'', [operator, Handler ''provision.ProvisionOnt'']),
      (''GET'', ''/:id/provision-jobs'', [Handler ''provision.ListProvisionJobsByONT'']),
      (''PUT'', ''/:id/odp'', [operator, Handler ''ont.AssignOdp'']),
      (''DELETE'', ''/:id/odp'', [operator, Handler ''ont.UnassignOdp''])]"

definition registerMappingRoutes :: "route list" where
  "registerMappingRoutes =
   route_group ''/mapping'' [Authenticated]
     [(''GET'', ''/nodes'', [Handler ''mapping.ListNodes'']),
      (''GET'', ''/edges'', [Handler ''mapping.ListEdges'']),
      (''GET'', ''/export'', [Handler ''mapping.ExportKMZ'']),
      (''POST'', ''/nodes'', [operator, Handler ''mapping.CreateNode'']),
      (''PUT'', ''/nodes/:node_id'', [operator, Handler ''mapping.UpdateNode'']),
      (''DELETE'', ''/nodes/:node_id'', [operator, Handler ''mapping.DeleteNode'']),
      (''POST'', ''/edges'', [operator, Handler ''mapping.CreateEdge'']),
      (''PUT'', ''/edges/:edge_id'', [operator, Handler ''mapping.UpdateEdge'']),
      (''DELETE'', ''/edges/:edge_id'', [operator, Handler ''mapping.DeleteEdge'']),
      (''POST'', ''/import/preview'', [operator, Handler ''mapping.PreviewImport'']),
      (''POST'', ''/import/commit'', [operator, Handler ''mapping.CommitImport''])]"

definition registerCSAdminRoutes :: "route list" where
  "registerCSAdminRoutes =
   [(''GET'', ''/quick-replies'', [Handler ''cs.ListQuickReplies'']),
      (''POST'', ''/quick-replies'', [admin, Handler ''cs.CreateQuickReply'']),
      (''PUT'', ''/quick-replies/:id'', [admin, Handler ''cs.UpdateQuickReply'']),
      (''DELETE'', ''/quick-replies/:id'', [admin, Handler ''cs.DeleteQuickReply'']),
      (''GET'', ''/wa-accounts'', [Handler ''cs.ListAccounts'']),
      (''POST'', ''/wa-accounts'', [admin, Handler ''cs.CreateAccount'']),
      (''POST'', ''/wa-accounts/:id/connect'', [admin, Handler ''cs.Connect'']),
      (''POST'', ''/wa-accounts/:id/disconnect'', [admin, Handler ''cs.Disconnect'']),
      (''DELETE'', ''/wa-accounts/:id'', [admin, Handler ''cs.DeleteAccount'']),
      (''DELETE'', ''/wa-accounts/:id/messages'', [admin, Handler ''cs.ClearAccountMessages'']),
      (''GET'', ''/wa-channels'', [Handler ''cs.ListChannels'']),
      (''POST'', ''/wa-channels/refresh'', [Handler ''cs.RefreshChannels'']),
      (''GET'', ''/broadcasts'', [Handler ''cs.ListBroadcasts'']),
      (''POST'', ''/broadcasts'', [Handler ''cs.CreateBroadcast'']),
      (''POST'', ''/broadcasts/media'', [Handler ''cs.CreateBroadcastMedia''])]"

definition registerCSGroupRoutes :: "route list" where
  "registerCSGroupRoutes =
   [(''GET'', ''/groups'', [Handler ''csGroup.ListGroups'']),
      (''POST'', ''/groups/refresh'', [Handler ''csGroup.RefreshGroups'']),
      (''GET'', ''/groups/:id'', [Handler ''csGroup.GetGroup'']),
      (''GET'', ''/groups/:id/messages'', [Handler ''csGroup.GroupHistory'']),
      (''POST'', ''/groups/:id/messages'', [Handler ''csGroup.SendGroupMessage'']),
      (''POST'', ''/groups/:id/media'', [Handler ''csGroup.SendGroupMedia'']),
      (''GET'', ''/group-media/:message_id'', [Handler ''csGroup.ServeGroupMedia'']),
      (''GET'', ''/groups/:id/avatar'', [Handler ''csGroup.ServeGroupAvatar'']),
      (''GET'', ''/groups/:id/member-avatar'', [Handler ''csGroup.ServeMemberAvatar'']),
      (''PUT'', ''/groups/:id/pin'', [Handler ''csGroup.PinGroup'']),
      (''POST'', ''/groups/:id/typing'', [Handler ''csGroup.SetGroupTyping'']),
      (''POST'', ''/groups/:id/history'', [Handler ''csGroup.RequestGroupHistory'']),
      (''POST'', ''/groups/:id/polls'', [Handler ''csGroup.CreateGroupPoll'']),
      (''GET'', ''/groups/:id/starred'', [Handler ''csGroup.StarredGroupMessages'']),
      (''PUT'', ''/groups/:id/messages/:message_id'', [Handler ''csGroup.EditGroupMessage'']),
      (''DELETE'', ''/groups/:id/messages/:message_id'', [Handler ''csGroup.DeleteGroupMessage'']),
      (''POST'', ''/groups/:id/messages/:message_id/reaction'', [Handler ''csGroup.ReactToMessage'']),
      (''PUT'', ''/groups/:id/messages/:message_id/star'', [Handler ''csGroup.StarGroupMessage'']),
      (''POST'', ''/groups/:id/messages/:message_id/forward'', [Handler ''csGroup.ForwardGroupMessage'']),
      (''POST'', ''/groups/:id/messages/:message_id/reply-private'', [Handler ''csGroup.ReplyPrivately'']),
      (''GET'', ''/groups/:id/messages/:message_id/receipts'', [Handler ''csGroup.MessageReceipts'']),
      (''POST'', ''/groups/:id/messages/:message_id/vote'', [Handler ''csGroup.VoteInPoll'']),
      (''POST'', ''/groups'', [admin, Handler ''csGroup.CreateGroup'']),
      (''POST'', ''/groups/:id/actions'', [admin, Handler ''csGroup.ActOnGroup'']),
      (''GET'', ''/group-actions/:id'', [Handler ''csGroup.GetGroupAction''])]"

definition registerCSRoutes :: "route list" where
  "registerCSRoutes =
   route_group ''/cs'' [Authenticated, Role [UserRoleAdmin, UserRoleCS, UserRoleTechnician]]
     ([(''GET'', ''/conversations'', [Handler ''cs.ListConversations'']),
      (''GET'', ''/conversations/:id/messages'', [Handler ''cs.History'']),
      (''POST'', ''/conversations/:id/messages'', [Handler ''cs.Send'']),
      (''POST'', ''/conversations/:id/media'', [Handler ''cs.SendMedia'']),
      (''POST'', ''/conversations/:id/typing'', [Handler ''cs.SetTyping'']),
      (''PUT'', ''/conversations/:id/assign'', [Handler ''cs.Assign'']),
      (''PUT'', ''/conversations/:id/status'', [Handler ''cs.SetStatus'']),
      (''PUT'', ''/conversations/:id/ont'', [Handler ''cs.LinkONT'']),
      (''GET'', ''/media/:message_id'', [Handler ''cs.ServeMedia'']),
      (''GET'', ''/conversations/:id/avatar'', [Handler ''cs.ServeAvatar'']),
      (''GET'', ''/messages/search'', [Handler ''cs.SearchMessages'']),
      (''DELETE'', ''/messages/:id'', [Handler ''cs.DeleteMessage'']),
      (''DELETE'', ''/conversations/:id/messages'', [Handler ''cs.ClearConversation'']),
      (''DELETE'', ''/messages'', [admin, Handler ''cs.ClearInbox'']),
      (''GET'', ''/stream'', [Handler ''cs.Stream'']),
      (''GET'', ''/link-preview'', [Handler ''cs.LinkPreview'']),
      (''GET'', ''/performance/summary'', [Handler ''csPerformance.Summary'']),
      (''GET'', ''/performance/waits'', [Handler ''csPerformance.Waits''])] @
      registerCSAdminRoutes @ registerCSGroupRoutes) @
   route_group ''/push'' [Authenticated]
     [(''POST'', ''/subscribe'', [Handler ''push.Subscribe'']),
      (''DELETE'', ''/subscribe'', [Handler ''push.Unsubscribe''])]"

definition registerOperationsRoutes :: "route list" where
  "registerOperationsRoutes =
   route_group ''/config-templates'' [Authenticated]
     [(''GET'', '''', [Handler ''configTemplate.List'']),
      (''GET'', ''/:id'', [Handler ''configTemplate.GetByID'']),
      (''POST'', '''', [operator, Handler ''configTemplate.Create'']),
      (''PUT'', ''/:id'', [operator, Handler ''configTemplate.Update'']),
      (''DELETE'', ''/:id'', [admin, Handler ''configTemplate.Delete''])]"

definition registerVPNRoutes :: "route list" where
  "registerVPNRoutes =
   route_group ''/wireguard'' [Authenticated]
     [(''GET'', ''/server'', [Handler ''wireguard.GetServer'']),
      (''PUT'', ''/server'', [admin, Handler ''wireguard.SaveServer'']),
      (''GET'', ''/peers'', [Handler ''wireguard.ListPeers'']),
      (''POST'', ''/peers'', [admin, Handler ''wireguard.CreatePeer'']),
      (''PUT'', ''/peers/:id'', [admin, Handler ''wireguard.UpdatePeer'']),
      (''DELETE'', ''/peers/:id'', [admin, Handler ''wireguard.DeletePeer'']),
      (''GET'', ''/peers/:id/config'', [admin, Handler ''wireguard.GetPeerConfig'']),
      (''POST'', ''/peers/:id/test'', [operator, Handler ''wireguard.TestReachability'']),
      (''GET'', ''/sites/:site_id/suggested-subnets'', [Handler ''wireguard.SuggestSubnets''])] @
   route_group ''/provision-jobs'' [Authenticated]
     [(''GET'', ''/:id'', [Handler ''provision.GetProvisionJob''])] @
   route_group ''/admin'' [Authenticated, admin]
     [(''POST'', ''/seed-events'', [Handler ''seed.SeedEventHistory''])]"

definition registerMikrotikRoutes :: "route list" where
  "registerMikrotikRoutes =
   route_group ''/routers'' [Authenticated]
     [(''GET'', '''', [Handler ''router.List'']),
      (''POST'', '''', [admin, Handler ''router.Create'']),
      (''POST'', ''/test-connection'', [admin, Handler ''router.TestConnection'']),
      (''PUT'', ''/:id'', [admin, Handler ''router.Update'']),
      (''DELETE'', ''/:id'', [admin, Handler ''router.Delete'']),
      (''POST'', ''/:id/refresh'', [operator, Handler ''router.Refresh'']),
      (''POST'', ''/:id/trust-certificate'', [admin, Handler ''router.TrustCertificate'']),
      (''GET'', ''/:id/interfaces'', [Handler ''router.Interfaces'']),
      (''GET'', ''/:id/interfaces/:ifId/traffic'', [Handler ''router.Traffic'']),
      (''GET'', ''/:id/bgp/sessions'', [Handler ''router.Sessions'']),
      (''GET'', ''/:id/bgp/events'', [Handler ''router.Events'']),
      (''GET'', ''/:id/bgp/lookup'', [operator, Handler ''routerPath.Lookup'']),
      (''GET'', ''/:id/bgp/as-names'', [Handler ''routerPath.ASNames'']),
      (''GET'', ''/:id/flows/destinations'', [Handler ''routerFlow.Destinations'']),
      (''GET'', ''/:id/flows/summary'', [Handler ''routerFlow.Summary'']),
      (''GET'', ''/:id/flows/pops'', [Handler ''routerFlow.POPs'']),
      (''GET'', ''/:id/flows/top-ips'', [Handler ''routerFlow.TopIPs'']),
      (''GET'', ''/:id/flows/route-advice'', [Handler ''routerFlow.RouteAdvice'']),
      (''GET'', ''/:id/flows/own-prefixes'', [Handler ''routerFlow.OwnPrefixes'']),
      (''GET'', ''/:id/flows/peering'', [Handler ''routerFlow.Peering'']),
      (''GET'', ''/:id/flows/status'', [Handler ''routerFlow.Status''])]"


definition global_chain :: "mw list" where
  "global_chain = [Cors, Limit global_limiter]"

definition Setup :: "route list" where
  "Setup =
     (''GET'', ''/health'', [Handler ''health.Check'']) #
     route_group ''/api/v1'' []
       (registerAccountRoutes @ registerPlantRoutes @ registerONTRoutes @ registerMappingRoutes @
        registerCSRoutes @ registerOperationsRoutes @ registerVPNRoutes @ registerMikrotikRoutes)"

definition find_route :: "string \<Rightarrow> string \<Rightarrow> route option" where
  "find_route m p = find (\<lambda>(m', p', _). m' = m \<and> p' = p) Setup"

definition serve :: "'s store \<Rightarrow> time \<Rightarrow> string \<Rightarrow> string \<Rightarrow> string \<Rightarrow> string option \<Rightarrow> 's gate \<Rightarrow> outcome \<times> 's gate" where
  "serve st now m p ip cookie g =
     (case find_route m p of
        None \<Rightarrow> run_chain st now m ip cookie global_chain no_ctx g
      | Some (_, _, c) \<Rightarrow> run_chain st now m ip cookie (global_chain @ c) no_ctx g)"

section \<open>What a chain asks for\<close>

text \<open>Behind the session check a chain is a line of role checks and a handler: the handler a role comes to.\<close>

fun handler_for :: "string \<Rightarrow> mw list \<Rightarrow> string option" where
  "handler_for r (Role rs # c) = (if r \<in> set rs then handler_for r c else None)"
| "handler_for r (Handler h # _) = Some h"
| "handler_for r _ = None"

definition after_session :: "mw \<Rightarrow> bool" where
  "after_session m =
     (case m of Role rs \<Rightarrow> set rs \<subseteq> {UserRoleAdmin, UserRoleTechnician, UserRoleCS} | Handler _ \<Rightarrow> True | _ \<Rightarrow> False)"

fun guarded :: "mw list \<Rightarrow> bool" where
  "guarded (Authenticated # c) = list_all after_session c"
| "guarded _ = False"

lemma RequireRole_role:
  "cx_user_role cx = Some (RoleValue r) \<Longrightarrow>
     RequireRole rs cx = (if r \<in> set rs then Inr cx else Inl (403, ''FORBIDDEN''))"
  by (auto simp: RequireRole_def list_ex_iff)

lemma run_after_session:
  "list_all after_session c \<Longrightarrow> cx_user_role cx = Some (RoleValue r) \<Longrightarrow>
     fst (run_chain st now m ip cookie c cx g) = Reached h cx' \<longleftrightarrow> handler_for r c = Some h \<and> cx' = cx"
proof (induction c)
  case (Cons x c)
  then show ?case by (cases x) (auto simp: after_session_def RequireRole_role)
qed simp

lemma handler_for_other:
  "list_all after_session c \<Longrightarrow> r \<notin> {UserRoleAdmin, UserRoleTechnician, UserRoleCS} \<Longrightarrow>
     handler_for r c = handler_for UserRoleViewer c"
proof (induction c)
  case (Cons x c)
  have "UserRoleViewer \<notin> {UserRoleAdmin, UserRoleTechnician, UserRoleCS}" by (simp add: role_defs)
  with Cons show ?case by (cases x) (auto simp: after_session_def)
qed simp

lemma run_guarded:
  assumes "guarded c" "fst (run_chain st now m ip cookie c cx0 g) = Reached h cx"
  shows "\<exists>tok d. cookie = Some tok \<and> fst (Get st now tok (ga_sessions g)) = Some d \<and>
    GetUserID cx = Some (sd_UserID d) \<and> GetUserRole cx = Some (sd_Role d) \<and>
    handler_for (sd_Role d) (tl c) = Some h"
proof -
  obtain c' where c: "c = Authenticated # c'" "list_all after_session c'"
    using assms(1) by (cases c rule: guarded.cases) auto
  obtain tok where tok: "cookie = Some tok"
    using assms(2) by (cases cookie) (simp_all add: c(1) AuthMiddleware_def)
  obtain d s1 where d: "Get st now tok (ga_sessions g) = (Some d, s1)"
    using assms(2) by (cases "Get st now tok (ga_sessions g)"; cases "fst (Get st now tok (ga_sessions g))")
      (simp_all add: c(1) tok AuthMiddleware_def)
  obtain b s2 where s2: "Refresh st now tok s1 = (b, s2)" by (cases "Refresh st now tok s1")
  let ?cx = "cx0\<lparr>cx_user_id := Some (sd_UserID d), cx_user_role := Some (RoleValue (sd_Role d)),
    cx_session_token := Some tok\<rparr>"
  have "fst (run_chain st now m ip cookie c' ?cx (g\<lparr>ga_sessions := s2\<rparr>)) = Reached h cx"
    using assms(2) by (simp add: c(1) tok d s2 AuthMiddleware_def)
  then have "handler_for (sd_Role d) c' = Some h \<and> cx = ?cx"
    by (simp add: run_after_session [OF c(2), of ?cx "sd_Role d"])
  then show ?thesis by (simp add: tok d c(1) GetUserID_def GetUserRole_def)
qed

lemma run_global:
  "\<exists>rl. run_chain st now m ip cookie (global_chain @ c) cx g =
     (if m = ''OPTIONS'' then (NoContent, g)
      else if fst (allow now ip (ga_limiters g global_limiter))
           then run_chain st now m ip cookie c cx (g\<lparr>ga_limiters := rl\<rparr>)
           else (Refused 429 ''RATE_LIMIT_EXCEEDED'', g\<lparr>ga_limiters := rl\<rparr>))"
  by (auto simp: global_chain_def Let_def split: prod.splits)

section \<open>Who may do what\<close>

definition open_routes :: "(string \<times> string) list" where
  "open_routes = [(''GET'', ''/health''), (''POST'', ''/api/v1/auth/login''), (''POST'', ''/api/v1/auth/logout'')]"

text \<open>The policy the comments of the router state. Adding or removing a user, a site, a chassis, an ONT or a router, the
  settings, the tunnels, the WhatsApp numbers and the canned replies are an administrator's; changing
  anything else of the plant a technician's too; the inbox belongs to the customer service, the technicians and the
  administrators; everybody else reads, and may subscribe to pushes.\<close>

definition api_path :: "string \<Rightarrow> string" where
  "api_path p = TrimPrefix p ''/api/v1''"

definition admin_only :: "string \<Rightarrow> string \<Rightarrow> bool" where
  "admin_only m p \<longleftrightarrow>
     m = ''POST'' \<and> api_path p \<in> set [''/users'', ''/sites'', ''/olts'', ''/onts'', ''/routers''] \<or>
     m = ''DELETE'' \<and> api_path p \<in> set [''/users/:id'', ''/sites/:id'', ''/olts/:id'', ''/onts/:id'', ''/routers/:id''] \<or>
     m \<noteq> ''GET'' \<and> list_ex (HasPrefix (api_path p))
       [''/settings'', ''/wireguard/server'', ''/cs/wa-accounts'', ''/cs/quick-replies'', ''/admin''] \<or>
     m \<noteq> ''GET'' \<and> HasPrefix (api_path p) ''/wireguard'' \<and> api_path p \<noteq> ''/wireguard/peers/:id/test'' \<or>
     m = ''GET'' \<and> api_path p = ''/wireguard/peers/:id/config''"

definition may_read :: "string \<Rightarrow> string \<Rightarrow> bool" where
  "may_read m p \<longleftrightarrow> m = ''GET'' \<and> \<not> HasPrefix (api_path p) ''/cs/'' \<or> HasPrefix (api_path p) ''/push/''"

definition role_may :: "string \<Rightarrow> string \<Rightarrow> string \<Rightarrow> bool" where
  "role_may role m p \<longleftrightarrow>
     role = UserRoleAdmin \<or>
     \<not> admin_only m p \<and>
       (role = UserRoleTechnician \<or> role = UserRoleCS \<and> HasPrefix (api_path p) ''/cs/'' \<or> may_read m p)"

definition route_kept :: "route \<Rightarrow> bool" where
  "route_kept r =
     (case r of (m, p, c) \<Rightarrow>
        (m, p) \<in> set open_routes \<or>
        guarded c \<and>
        list_all (\<lambda>role. handler_for role (tl c) \<noteq> None \<longrightarrow> role_may role m p)
          [UserRoleTechnician, UserRoleCS, UserRoleViewer])"

lemma kept_shapes:
  "route_kept (m, p, [Authenticated, admin, Handler h])"
  "\<not> admin_only m p \<Longrightarrow> route_kept (m, p, [Authenticated, operator, Handler h])"
  "\<not> admin_only m p \<Longrightarrow> may_read m p \<Longrightarrow> route_kept (m, p, [Authenticated, Handler h])"
  "\<not> admin_only m p \<Longrightarrow> HasPrefix (api_path p) ''/cs/'' \<or> may_read m p \<Longrightarrow>
     route_kept (m, p, [Authenticated, Role [UserRoleAdmin, UserRoleCS, UserRoleTechnician], Handler h])"
  "route_kept (m, p, [Authenticated, Role [UserRoleAdmin, UserRoleCS, UserRoleTechnician], admin, Handler h])"
  by (auto simp: route_kept_def role_may_def after_session_def admin_def operator_def role_defs)

lemma kept_open: "(m, p) \<in> set open_routes \<Longrightarrow> route_kept (m, p, c)"
  by (simp add: route_kept_def)

lemmas path_tests = admin_only_def may_read_def HasPrefix_def api_path_def TrimPrefix_def

lemma account_kept: "list_all route_kept (route_group ''/api/v1'' [] registerAccountRoutes)"
  by (simp add: route_group_def kept_shapes kept_open open_routes_def path_tests registerAccountRoutes_def)

lemma plant_kept: "list_all route_kept (route_group ''/api/v1'' [] registerPlantRoutes)"
  by (simp add: route_group_def kept_shapes path_tests registerPlantRoutes_def)

lemma ont_kept: "list_all route_kept (route_group ''/api/v1'' [] registerONTRoutes)"
  by (simp add: route_group_def kept_shapes path_tests registerONTRoutes_def)

lemma mapping_kept: "list_all route_kept (route_group ''/api/v1'' [] registerMappingRoutes)"
  by (simp add: route_group_def kept_shapes path_tests registerMappingRoutes_def)

lemma cs_kept: "list_all route_kept (route_group ''/api/v1'' [] registerCSRoutes)"
  by (simp add: route_group_def kept_shapes path_tests registerCSRoutes_def registerCSAdminRoutes_def registerCSGroupRoutes_def)

lemma operations_kept: "list_all route_kept (route_group ''/api/v1'' [] registerOperationsRoutes)"
  by (simp add: route_group_def kept_shapes path_tests registerOperationsRoutes_def)

lemma vpn_kept: "list_all route_kept (route_group ''/api/v1'' [] registerVPNRoutes)"
  by (simp add: route_group_def kept_shapes path_tests registerVPNRoutes_def)

lemma mikrotik_kept: "list_all route_kept (route_group ''/api/v1'' [] registerMikrotikRoutes)"
  by (simp add: route_group_def kept_shapes path_tests registerMikrotikRoutes_def)

lemma group_append: "route_group p u (a @ b) = route_group p u a @ route_group p u b"
  by (simp add: route_group_def)

lemma routes_kept: "list_all route_kept Setup"
  by (simp add: Setup_def group_append account_kept plant_kept ont_kept mapping_kept cs_kept operations_kept vpn_kept mikrotik_kept) (simp add: route_kept_def open_routes_def)

lemma role_may_other:
  "r \<notin> {UserRoleAdmin, UserRoleTechnician, UserRoleCS} \<Longrightarrow> role_may r m p = role_may UserRoleViewer m p"
  by (auto simp: role_may_def role_defs)

lemma find_route_kept:
  assumes "find_route m p = Some (m', p', c)"
  shows "m' = m" "p' = p" "route_kept (m, p, c)"
proof -
  show e: "m' = m" "p' = p" using find_Some_iff [THEN iffD1, OF assms [unfolded find_route_def]] by auto
  have "(m', p', c) \<in> set Setup" using assms by (auto simp: find_route_def find_Some_iff in_set_conv_nth)
  then show "route_kept (m, p, c)" using routes_kept e by (auto simp: list_all_iff)
qed

lemma handler_allowed:
  assumes "route_kept (m, p, c)" "(m, p) \<notin> set open_routes" "handler_for r (tl c) \<noteq> None"
  shows "role_may r m p"
proof (cases "r \<in> {UserRoleAdmin, UserRoleTechnician, UserRoleCS}")
  case True
  then show ?thesis using assms by (cases "r = UserRoleAdmin") (auto simp: route_kept_def role_may_def)
next
  case False
  have "guarded c" using assms by (simp add: route_kept_def)
  then have "list_all after_session (tl c)" by (cases c rule: guarded.cases) auto
  then have "handler_for UserRoleViewer (tl c) \<noteq> None" using handler_for_other False assms(3) by metis
  then show ?thesis using assms False role_may_other by (auto simp: route_kept_def)
qed

lemma reached_allowed:
  assumes "fst (serve st now m p ip cookie g) = Reached h cx" "(m, p) \<notin> set open_routes"
  shows "\<exists>tok d. cookie = Some tok \<and> fst (Get st now tok (ga_sessions g)) = Some d \<and>
    GetUserID cx = Some (sd_UserID d) \<and> GetUserRole cx = Some (sd_Role d) \<and> role_may (sd_Role d) m p"
proof -
  obtain m' p' c where f: "find_route m p = Some (m', p', c)"
    using assms(1) run_global [of st now m ip cookie "[]" no_ctx g]
    by (cases "find_route m p") (auto simp: serve_def split: if_splits prod.splits)
  have k: "route_kept (m, p, c)" using find_route_kept(3) [OF f] .
  then have "guarded c" using assms(2) by (simp add: route_kept_def)
  obtain rl where "run_chain st now m ip cookie (global_chain @ c) no_ctx g =
     (if m = ''OPTIONS'' then (NoContent, g)
      else if fst (allow now ip (ga_limiters g global_limiter))
           then run_chain st now m ip cookie c no_ctx (g\<lparr>ga_limiters := rl\<rparr>)
           else (Refused 429 ''RATE_LIMIT_EXCEEDED'', g\<lparr>ga_limiters := rl\<rparr>))"
    using run_global by blast
  then have "fst (run_chain st now m ip cookie c no_ctx (g\<lparr>ga_limiters := rl\<rparr>)) = Reached h cx"
    using assms(1) f by (auto simp: serve_def split: if_splits)
  from run_guarded [OF \<open>guarded c\<close> this] show ?thesis
    using handler_allowed [OF k assms(2)] by auto
qed


definition sample_gate :: "MemoryStore gate" where
  "sample_gate = new_gate 0 (snd (ms_create 1 ''tok'' 7 UserRoleViewer (NewMemoryStore hour)))"


end
