(* ===== verification/GoText.thy ===== *)
theory GoText
  imports GoStrings
begin

text \<open>
  Go strings looked at rune by rune: a text is the list of its code points. What the Unicode tables
  say of letters, digits and case is the record \<open>unicode\<close>, with what the code relies on in \<open>unicode_sane\<close>.
\<close>

type_synonym str = "nat list"

definition lit :: "string \<Rightarrow> str" where
  "lit s = map of_char s"

record unicode =
  uc_letter :: "nat \<Rightarrow> bool"
  uc_digit :: "nat \<Rightarrow> bool"
  uc_upper :: "nat \<Rightarrow> nat"
  uc_lower :: "nat \<Rightarrow> nat"

text \<open>\<open>unicode.IsControl\<close> and \<open>unicode.IsSpace\<close>.\<close>

definition is_control :: "nat \<Rightarrow> bool" where
  "is_control r \<longleftrightarrow> r < 32 \<or> 127 \<le> r \<and> r < 160"

definition is_space :: "nat \<Rightarrow> bool" where
  "is_space r \<longleftrightarrow> r \<in> {9, 10, 11, 12, 13, 32, 0x85, 0xA0, 0x1680, 0x2028, 0x2029, 0x202F, 0x205F, 0x3000} \<or>
     0x2000 \<le> r \<and> r \<le> 0x200A"

text \<open>Letters and digits are not control characters; the ASCII capitals and digits are their own upper case.\<close>

definition unicode_sane :: "unicode \<Rightarrow> bool" where
  "unicode_sane u \<longleftrightarrow>
     (\<forall>r. is_control r \<longrightarrow> \<not> uc_letter u r \<and> \<not> uc_digit u r) \<and>
     (\<forall>r. 65 \<le> r \<and> r \<le> 90 \<or> 48 \<le> r \<and> r \<le> 57 \<longrightarrow> uc_upper u r = r)"

definition ascii_unicode :: unicode where
  "ascii_unicode = \<lparr>uc_letter = (\<lambda>r. 65 \<le> r \<and> r \<le> 90 \<or> 97 \<le> r \<and> r \<le> 122), uc_digit = (\<lambda>r. 48 \<le> r \<and> r \<le> 57),
     uc_upper = (\<lambda>r. if 97 \<le> r \<and> r \<le> 122 then r - 32 else r),
     uc_lower = (\<lambda>r. if 65 \<le> r \<and> r \<le> 90 then r + 32 else r)\<rparr>"

definition trim_space :: "str \<Rightarrow> str" where
  "trim_space s = rev (dropWhile is_space (rev (dropWhile is_space s)))"

definition fmt_int :: "int \<Rightarrow> str" where
  "fmt_int i = (if i < 0 then lit ''-'' @ lit (dec (nat (- i))) else lit (dec (nat i)))"

lemma lit_append [simp]: "lit (s @ t) = lit s @ lit t"
  by (simp add: lit_def)

lemma lit_Nil [simp]: "lit [] = []"
  by (simp add: lit_def)

end
