(* ===== verification/Accounts.thy ===== *)
theory Accounts
  imports Gateway GoText
begin

text \<open>
  Accounts: \<open>services/user_service.go\<close>, \<open>services/user_initials.go\<close>, \<open>api/user_handler.go\<close> and
  \<open>api/auth_handler.go\<close>, served through \<open>Gateway\<close>. The password hash and its comparison (bcrypt), the
  validator of request bodies and the text of a unique-index error are parameters; the audit log is left
  out. Tokens and new identifiers are random, so each request brings its own. Names and e-mail addresses are lists of code points.
\<close>

section \<open>The user service\<close>

record user =
  us_ID :: uuid
  us_Username :: str
  us_Email :: str
  us_PasswordHash :: string
  us_Role :: string
  us_Initials :: str

record account_env =
  ae_unicode :: unicode
  ae_hash :: "string \<Rightarrow> string option"
  ae_compare :: "string \<Rightarrow> string \<Rightarrow> bool"
  ae_duplicate :: "string \<Rightarrow> string"

text \<open>\<open>strings.FieldsFunc\<close>: the maximal runs of runes that are no separators.\<close>

function FieldsFunc :: "(nat \<Rightarrow> bool) \<Rightarrow> str \<Rightarrow> str list" where
  "FieldsFunc f s =
     (let t = dropWhile f s
      in if t = [] then [] else takeWhile (\<lambda>r. \<not> f r) t # FieldsFunc f (dropWhile (\<lambda>r. \<not> f r) t))"
  by pat_completeness auto
termination
proof (relation "measure (\<lambda>(f, s). length s)")
  fix f :: "nat \<Rightarrow> bool" and s t :: str
  assume "t = dropWhile f s" "t \<noteq> []"
  then have "\<not> f (hd t)" "length t \<le> length s" using hd_dropWhile [of f s] by (auto simp: length_dropWhile_le)
  then show "((f, dropWhile (\<lambda>r. \<not> f r) t), f, s) \<in> measure (\<lambda>(f, s). length s)"
    using length_dropWhile_le [of "\<lambda>r. \<not> f r" "tl t"] \<open>t \<noteq> []\<close> by (cases t) auto
qed simp

declare FieldsFunc.simps [simp del]

definition name_break :: "nat \<Rightarrow> bool" where
  "name_break r \<longleftrightarrow> is_space r \<or> r = of_char (CHR ''.'') \<or> r = of_char (CHR ''_'') \<or> r = of_char (CHR ''-'')"

definition firstNRunes :: "str \<Rightarrow> nat \<Rightarrow> str" where
  "firstNRunes s n = take n s"

definition normalizeInitials :: "unicode \<Rightarrow> str \<Rightarrow> str" where
  "normalizeInitials u typed = map (uc_upper u) (trim_space typed)"

definition deriveInitials :: "unicode \<Rightarrow> str \<Rightarrow> str" where
  "deriveInitials u username =
     (let flds = FieldsFunc name_break username
      in if 1 < length flds then concat (map (\<lambda>w. map (uc_upper u) (take 1 w)) flds)
         else if length flds = 1 then normalizeInitials u (firstNRunes (hd flds) 2)
         else [])"

text \<open>The table of users: its indexes make names and e-mail addresses unique. A violation answers the
  database's message.\<close>

datatype user_error = ErrHash | ErrDB string | ErrNotFound

definition insert_user :: "account_env \<Rightarrow> user \<Rightarrow> user list \<Rightarrow> user_error + user list" where
  "insert_user env u tbl =
     (if list_ex (\<lambda>v. us_Username v = us_Username u) tbl then Inl (ErrDB (ae_duplicate env ''username''))
      else if list_ex (\<lambda>v. us_Email v = us_Email u) tbl then Inl (ErrDB (ae_duplicate env ''email''))
      else Inr (tbl @ [u]))"

definition user_Create ::
  "account_env \<Rightarrow> uuid \<Rightarrow> str \<Rightarrow> str \<Rightarrow> string \<Rightarrow> str \<Rightarrow> string \<Rightarrow> user list \<Rightarrow> user_error + user \<times> user list" where
  "user_Create env newid username email password initials role tbl =
     (case ae_hash env password of
        None \<Rightarrow> Inl ErrHash
      | Some hash \<Rightarrow>
          (let mark = normalizeInitials (ae_unicode env) initials;
               mark = (if mark = [] then deriveInitials (ae_unicode env) username else mark);
               u = \<lparr>us_ID = newid, us_Username = username, us_Email = email, us_PasswordHash = hash,
                    us_Role = role, us_Initials = mark\<rparr>
           in (case insert_user env u tbl of Inl e \<Rightarrow> Inl e | Inr tbl \<Rightarrow> Inr (u, tbl))))"

definition GetByID :: "uuid \<Rightarrow> user list \<Rightarrow> user option" where
  "GetByID i tbl = find (\<lambda>u. us_ID u = i) tbl"

definition GetByUsername :: "str \<Rightarrow> user list \<Rightarrow> user option" where
  "GetByUsername name tbl = find (\<lambda>u. us_Username u = name) tbl"

record user_updates =
  up_email :: "str option"
  up_password :: "string option"
  up_initials :: "str option"
  up_role :: "string option"

definition apply_updates :: "string option \<Rightarrow> str option \<Rightarrow> user_updates \<Rightarrow> user \<Rightarrow> user" where
  "apply_updates hash mark ups u =
     u\<lparr>us_Email := (case up_email ups of Some e \<Rightarrow> e | None \<Rightarrow> us_Email u),
       us_PasswordHash := (case hash of Some h \<Rightarrow> h | None \<Rightarrow> us_PasswordHash u),
       us_Initials := (case mark of Some m \<Rightarrow> m | None \<Rightarrow> us_Initials u),
       us_Role := (case up_role ups of Some r \<Rightarrow> r | None \<Rightarrow> us_Role u)\<rparr>"

definition updated_hash :: "account_env \<Rightarrow> user_updates \<Rightarrow> user_error + string option" where
  "updated_hash env ups =
     (case up_password ups of
        None \<Rightarrow> Inr None
      | Some p \<Rightarrow> (case ae_hash env p of None \<Rightarrow> Inl ErrHash | Some h \<Rightarrow> Inr (Some h)))"

definition updated_mark :: "account_env \<Rightarrow> uuid \<Rightarrow> user_updates \<Rightarrow> user list \<Rightarrow> user_error + str option" where
  "updated_mark env i ups tbl =
     (case up_initials ups of
        None \<Rightarrow> Inr None
      | Some raw \<Rightarrow>
          (let mark = normalizeInitials (ae_unicode env) raw
           in if mark \<noteq> [] then Inr (Some mark)
              else (case GetByID i tbl of
                      None \<Rightarrow> Inl ErrNotFound
                    | Some u \<Rightarrow> Inr (Some (deriveInitials (ae_unicode env) (us_Username u))))))"

definition user_Update :: "account_env \<Rightarrow> uuid \<Rightarrow> user_updates \<Rightarrow> user list \<Rightarrow> user_error + user list" where
  "user_Update env i ups tbl =
     (case updated_hash env ups of
        Inl e \<Rightarrow> Inl e
      | Inr hash \<Rightarrow>
          (case updated_mark env i ups tbl of
             Inl e \<Rightarrow> Inl e
           | Inr mark \<Rightarrow>
               (case up_email ups of
                  Some e \<Rightarrow>
                    if list_ex (\<lambda>v. us_ID v \<noteq> i \<and> us_Email v = e) tbl \<and> list_ex (\<lambda>v. us_ID v = i) tbl
                    then Inl (ErrDB (ae_duplicate env ''email''))
                    else Inr (update_where (\<lambda>u. us_ID u = i) (apply_updates hash mark ups) tbl)
                | None \<Rightarrow> Inr (update_where (\<lambda>u. us_ID u = i) (apply_updates hash mark ups) tbl))))"

definition user_Delete :: "uuid \<Rightarrow> user list \<Rightarrow> user list" where
  "user_Delete i tbl = filter (\<lambda>u. us_ID u \<noteq> i) tbl"

section \<open>The handlers\<close>

record CreateUserRequest =
  cu_Username :: str
  cu_Email :: str
  cu_Password :: string
  cu_Initials :: str
  cu_Role :: string

record 's accounts =
  ac_users :: "user list"
  ac_gate :: "'s gate"

definition Contains_text :: "string \<Rightarrow> string \<Rightarrow> bool" where
  "Contains_text s p = list_ex (\<lambda>i. HasPrefix (drop i s) p) [0..<length s + 1]"

definition ascii_lower :: "char \<Rightarrow> char" where
  "ascii_lower c = (let n = of_char c :: nat in if 65 \<le> n \<and> n \<le> 90 then char_of (n + 32) else c)"

definition isDuplicateError :: "string \<Rightarrow> string \<Rightarrow> bool" where
  "isDuplicateError errMsg fld \<longleftrightarrow>
     Contains_text errMsg ''duplicate'' \<or> Contains_text errMsg ''UNIQUE constraint failed'' \<or>
     Contains_text errMsg ''unique'' \<and> Contains_text (map ascii_lower errMsg) fld"

definition error_text :: "user_error \<Rightarrow> string" where
  "error_text e =
     (case e of ErrHash \<Rightarrow> ''failed to hash password: '' | ErrNotFound \<Rightarrow> ''user not found: ''
              | ErrDB m \<Rightarrow> ''failed to create user: '' @ m)"

definition refuseUserCreate :: "user_error \<Rightarrow> nat \<times> string" where
  "refuseUserCreate e =
     (if isDuplicateError (error_text e) ''username'' then (409, ''USERNAME_EXISTS'')
      else if isDuplicateError (error_text e) ''email'' then (409, ''EMAIL_EXISTS'')
      else (500, ''CREATE_FAILED''))"

definition mayUpdateUser :: "ctx \<Rightarrow> uuid \<Rightarrow> string option \<Rightarrow> bool" where
  "mayUpdateUser cx targetID role \<longleftrightarrow>
     GetUserRole cx = Some UserRoleAdmin \<or> role = None \<and> GetUserID cx = Some targetID"

definition handle_create :: "account_env \<Rightarrow> uuid \<Rightarrow> CreateUserRequest option \<Rightarrow> 's accounts \<Rightarrow> (nat \<times> string) \<times> 's accounts" where
  "handle_create env newid body w =
     (case body of
        None \<Rightarrow> ((400, ''INVALID_REQUEST''), w)
      | Some r \<Rightarrow>
          (case user_Create env newid (cu_Username r) (cu_Email r) (cu_Password r) (cu_Initials r) (cu_Role r) (ac_users w) of
             Inl e \<Rightarrow> (refuseUserCreate e, w)
           | Inr (u, tbl) \<Rightarrow> ((201, ''''), w\<lparr>ac_users := tbl\<rparr>)))"

definition handle_update ::
  "account_env \<Rightarrow> ctx \<Rightarrow> uuid option \<Rightarrow> user_updates option \<Rightarrow> 's accounts \<Rightarrow> (nat \<times> string) \<times> 's accounts" where
  "handle_update env cx param body w =
     (case param of
        None \<Rightarrow> ((400, ''INVALID_ID''), w)
      | Some i \<Rightarrow>
          (case body of
             None \<Rightarrow> ((400, ''INVALID_REQUEST''), w)
           | Some req \<Rightarrow>
               if \<not> mayUpdateUser cx i (up_role req) then ((403, ''FORBIDDEN''), w)
               else if GetByID i (ac_users w) = None then ((404, ''NOT_FOUND''), w)
               else (case user_Update env i req (ac_users w) of
                       Inl _ \<Rightarrow> ((500, ''UPDATE_FAILED''), w)
                     | Inr tbl \<Rightarrow>
                         if GetByID i tbl = None then ((500, ''FETCH_FAILED''), w\<lparr>ac_users := tbl\<rparr>)
                         else ((200, ''''), w\<lparr>ac_users := tbl\<rparr>))))"

definition handle_delete :: "ctx \<Rightarrow> uuid option \<Rightarrow> 's accounts \<Rightarrow> (nat \<times> string) \<times> 's accounts" where
  "handle_delete cx param w =
     (case param of
        None \<Rightarrow> ((400, ''INVALID_ID''), w)
      | Some i \<Rightarrow>
          if (case GetUserID cx of Some u \<Rightarrow> u | None \<Rightarrow> uuid_nil) = i then ((400, ''SELF_DELETE''), w)
          else ((204, ''''), w\<lparr>ac_users := user_Delete i (ac_users w)\<rparr>))"

definition Login ::
  "account_env \<Rightarrow> 's store \<Rightarrow> time \<Rightarrow> string \<Rightarrow> (str \<times> string) option \<Rightarrow> 's accounts \<Rightarrow> (nat \<times> string) \<times> 's accounts" where
  "Login env st now token body w =
     (case body of
        None \<Rightarrow> ((400, ''INVALID_REQUEST''), w)
      | Some (username, password) \<Rightarrow>
          (case GetByUsername username (ac_users w) of
             None \<Rightarrow> ((401, ''INVALID_CREDENTIALS''), w)
           | Some u \<Rightarrow>
               if \<not> ae_compare env (us_PasswordHash u) password then ((401, ''INVALID_CREDENTIALS''), w)
               else (case Create st now token (us_ID u) (us_Role u) (ga_sessions (ac_gate w)) of
                       (ok, s) \<Rightarrow>
                         (let w = w\<lparr>ac_gate := (ac_gate w)\<lparr>ga_sessions := s\<rparr>\<rparr>
                          in if ok then ((200, token), w) else ((500, ''SESSION_FAILED''), w)))))"

definition Logout :: "'s store \<Rightarrow> time \<Rightarrow> string option \<Rightarrow> 's accounts \<Rightarrow> (nat \<times> string) \<times> 's accounts" where
  "Logout st now cookie w =
     (case cookie of
        None \<Rightarrow> ((200, ''''), w)
      | Some token \<Rightarrow>
          ((200, ''''), w\<lparr>ac_gate := (ac_gate w)\<lparr>ga_sessions := snd (Delete st now token (ga_sessions (ac_gate w)))\<rparr>\<rparr>))"

definition Me :: "ctx \<Rightarrow> 's accounts \<Rightarrow> (nat \<times> string) \<times> 's accounts" where
  "Me cx w =
     (case GetUserID cx of
        None \<Rightarrow> ((401, ''UNAUTHORIZED''), w)
      | Some i \<Rightarrow> if GetByID i (ac_users w) = None then ((404, ''NOT_FOUND''), w) else ((200, ''''), w))"

section \<open>Requests\<close>

text \<open>A body is \<open>None\<close> when it does not bind, a parameter when it is no identifier.\<close>

datatype account_request =
    DoLogin "(str \<times> string) option" string
  | DoLogout
  | DoMe
  | DoList
  | DoCreate "CreateUserRequest option" uuid
  | DoUpdate "uuid option" "user_updates option"
  | DoDelete "uuid option"

fun request_route :: "account_request \<Rightarrow> string \<times> string" where
  "request_route (DoLogin _ _) = (''POST'', ''/api/v1/auth/login'')"
| "request_route DoLogout = (''POST'', ''/api/v1/auth/logout'')"
| "request_route DoMe = (''GET'', ''/api/v1/auth/me'')"
| "request_route DoList = (''GET'', ''/api/v1/users'')"
| "request_route (DoCreate _ _) = (''POST'', ''/api/v1/users'')"
| "request_route (DoUpdate _ _) = (''PUT'', ''/api/v1/users/:id'')"
| "request_route (DoDelete _) = (''DELETE'', ''/api/v1/users/:id'')"

fun handle_request ::
  "account_env \<Rightarrow> 's store \<Rightarrow> time \<Rightarrow> string option \<Rightarrow> ctx \<Rightarrow> account_request \<Rightarrow> 's accounts
    \<Rightarrow> (nat \<times> string) \<times> 's accounts" where
  "handle_request env st now cookie cx (DoLogin body token) w = Login env st now token body w"
| "handle_request env st now cookie cx DoLogout w = Logout st now cookie w"
| "handle_request env st now cookie cx DoMe w = Me cx w"
| "handle_request env st now cookie cx DoList w = ((200, ''''), w)"
| "handle_request env st now cookie cx (DoCreate body newid) w = handle_create env newid body w"
| "handle_request env st now cookie cx (DoUpdate param body) w = handle_update env cx param body w"
| "handle_request env st now cookie cx (DoDelete param) w = handle_delete cx param w"

definition account_serve ::
  "account_env \<Rightarrow> 's store \<Rightarrow> time \<Rightarrow> string \<Rightarrow> string option \<Rightarrow> account_request \<Rightarrow> 's accounts
    \<Rightarrow> (nat \<times> string) \<times> 's accounts" where
  "account_serve env st now ip cookie r w =
     (case request_route r of (m, p) \<Rightarrow>
        (case serve st now m p ip cookie (ac_gate w) of
           (Reached h cx, g) \<Rightarrow> handle_request env st now cookie cx r (w\<lparr>ac_gate := g\<rparr>)
         | (Refused code name, g) \<Rightarrow> ((code, name), w\<lparr>ac_gate := g\<rparr>)
         | (NoContent, g) \<Rightarrow> ((204, ''''), w\<lparr>ac_gate := g\<rparr>)
         | (NotFound, g) \<Rightarrow> ((404, ''''), w\<lparr>ac_gate := g\<rparr>)))"

section \<open>Only administrators make administrators\<close>

definition caller :: "'s store \<Rightarrow> time \<Rightarrow> string option \<Rightarrow> 's accounts \<Rightarrow> session_data option" where
  "caller st now cookie w =
     (case cookie of None \<Rightarrow> None | Some tok \<Rightarrow> fst (Get st now tok (ga_sessions (ac_gate w))))"

abbreviation roles_of :: "user list \<Rightarrow> (uuid \<times> str \<times> string) list" where
  "roles_of \<equiv> map (\<lambda>u. (us_ID u, us_Username u, us_Role u))"

abbreviation others :: "uuid option \<Rightarrow> user list \<Rightarrow> user list" where
  "others me \<equiv> filter (\<lambda>u. Some (us_ID u) \<noteq> me)"

lemma roles_update:
  "up_role ups = None \<Longrightarrow>
     roles_of (update_where (\<lambda>u. us_ID u = i) (apply_updates h m ups) tbl) = roles_of tbl"
  by (induction tbl) (auto simp: apply_updates_def)

lemma others_update:
  "others (Some i) (update_where (\<lambda>u. us_ID u = i) (apply_updates h m ups) tbl) = others (Some i) tbl"
  by (induction tbl) (auto simp: apply_updates_def)

lemma user_Update_shape:
  "user_Update env i ups tbl = Inr tbl' \<Longrightarrow>
     \<exists>h m. tbl' = update_where (\<lambda>u. us_ID u = i) (apply_updates h m ups) tbl"
  by (auto simp: user_Update_def split: sum.splits option.splits if_splits)

lemma handle_update_kept:
  assumes "GetUserRole cx \<noteq> Some UserRoleAdmin" "handle_update env cx param body w = (resp, w')"
  shows "roles_of (ac_users w') = roles_of (ac_users w) \<and>
    others (GetUserID cx) (ac_users w') = others (GetUserID cx) (ac_users w)"
proof (cases "w' = w")
  case False
  then obtain i req tbl where u: "user_Update env i req (ac_users w) = Inr tbl" "ac_users w' = tbl"
      "mayUpdateUser cx i (up_role req)"
    using assms(2) by (auto simp: handle_update_def split: option.splits sum.splits if_splits)
  then have "up_role req = None" "GetUserID cx = Some i" using assms(1) by (auto simp: mayUpdateUser_def)
  then show ?thesis using user_Update_shape [OF u(1)] u(2) roles_update others_update by auto
qed simp

lemma sessions_only:
  "ac_users (snd (Login env st now token body w)) = ac_users w"
  "ac_users (snd (Logout st now cookie w)) = ac_users w"
  "ac_users (snd (Me cx w)) = ac_users w"
  by (auto simp: Login_def Logout_def Me_def Let_def split: option.splits prod.splits)

lemma users_routes_closed:
  "(''POST'', ''/api/v1/users'') \<notin> set open_routes" "(''PUT'', ''/api/v1/users/:id'') \<notin> set open_routes"
  "(''DELETE'', ''/api/v1/users/:id'') \<notin> set open_routes"
  by (simp_all add: open_routes_def)

lemma role_may_users:
  "role_may r ''POST'' ''/api/v1/users'' \<Longrightarrow> r = UserRoleAdmin"
  "role_may r ''DELETE'' ''/api/v1/users/:id'' \<Longrightarrow> r = UserRoleAdmin"
  by (simp_all add: role_may_def path_tests)

text \<open>C35. Nobody promotes himself: a request whose sender is not an administrator, whatever account request it
  is, leaves the table of users with the same rows, names and roles, and changes no row but the
  sender's own.\<close>

theorem only_admins_manage_accounts:
  assumes "list_all (\<lambda>d. sd_Role d \<noteq> UserRoleAdmin) (case caller st now cookie w of None \<Rightarrow> [] | Some d \<Rightarrow> [d])"
    "account_serve env st now ip cookie r w = (resp, w')"
  shows "roles_of (ac_users w') = roles_of (ac_users w) \<and>
    others (map_option sd_UserID (caller st now cookie w)) (ac_users w') =
    others (map_option sd_UserID (caller st now cookie w)) (ac_users w)"
proof -
  obtain m p where r: "request_route r = (m, p)" by (cases "request_route r")
  obtain out g where o: "serve st now m p ip cookie (ac_gate w) = (out, g)" by fastforce
  show ?thesis
  proof (cases out)
    case (Reached h cx)
    let ?w = "w\<lparr>ac_gate := g\<rparr>"
    have run: "handle_request env st now cookie cx r ?w = (resp, w')"
      using assms(2) by (simp add: account_serve_def r o Reached)
    have ok: "(m, p) \<notin> set open_routes \<Longrightarrow>
      \<exists>d. caller st now cookie w = Some d \<and> GetUserID cx = Some (sd_UserID d) \<and>
        GetUserRole cx = Some (sd_Role d) \<and> role_may (sd_Role d) m p \<and> sd_Role d \<noteq> UserRoleAdmin"
      using reached_allowed [of st now m p ip cookie "ac_gate w" h cx] o Reached assms(1)
      by (auto simp: caller_def)
    show ?thesis
    proof (cases r)
      case (DoLogin body token)
      then show ?thesis using run sessions_only(1) [of env st now token body ?w] by auto
    next
      case DoLogout
      then show ?thesis using run sessions_only(2) [of st now cookie ?w] by auto
    next
      case DoMe
      then show ?thesis using run sessions_only(3) [of cx ?w] by auto
    next
      case (DoCreate body newid)
      then show ?thesis using ok users_routes_closed r role_may_users(1) by auto
    next
      case (DoUpdate param body)
      then show ?thesis
        using ok users_routes_closed r run handle_update_kept [of cx env param body ?w resp w'] by auto
    next
      case (DoDelete param)
      then show ?thesis using ok users_routes_closed r role_may_users(2) by auto
    qed (use run in auto)
  qed (use assms(2) in \<open>auto simp: account_serve_def r o\<close>)
qed

definition small_env :: account_env where
  "small_env = \<lparr>ae_unicode = ascii_unicode, ae_hash = (\<lambda>p. Some (CHR ''h'' # p)),
     ae_compare = (\<lambda>h p. h = CHR ''h'' # p), ae_duplicate = (\<lambda>f. ''duplicate key '' @ f)\<rparr>"

text \<open>An administrator with the token \<open>a\<close>, a technician with the token \<open>b\<close>.\<close>

definition small_accounts :: "MemoryStore accounts" where
  "small_accounts =
     \<lparr>ac_users =
        [\<lparr>us_ID = 1, us_Username = lit ''ana'', us_Email = lit ''ana@x'', us_PasswordHash = ''h1'',
          us_Role = UserRoleAdmin, us_Initials = lit ''AN''\<rparr>,
         \<lparr>us_ID = 2, us_Username = lit ''budi'', us_Email = lit ''budi@x'', us_PasswordHash = ''h2'',
          us_Role = UserRoleTechnician, us_Initials = lit ''BU''\<rparr>],
      ac_gate = new_gate 0 (snd (ms_create 0 ''b'' 2 UserRoleTechnician
                  (snd (ms_create 0 ''a'' 1 UserRoleAdmin (NewMemoryStore hour)))))\<rparr>"

definition promote_self :: account_request where
  "promote_self = DoUpdate (Some 2)
     (Some \<lparr>up_email = None, up_password = None, up_initials = None, up_role = Some UserRoleAdmin\<rparr>)"

theorem only_admins_manage_accounts_witness:
  "roles_of (ac_users (snd (account_serve small_env memory_store 1 ''ip'' (Some ''b'') promote_self small_accounts))) =
     roles_of (ac_users small_accounts) \<and>
   others (map_option sd_UserID (caller memory_store 1 (Some ''b'') small_accounts))
     (ac_users (snd (account_serve small_env memory_store 1 ''ip'' (Some ''b'') promote_self small_accounts))) =
   others (map_option sd_UserID (caller memory_store 1 (Some ''b'') small_accounts)) (ac_users small_accounts)"
  by (rule only_admins_manage_accounts [where env = small_env and ip = "''ip''" and r = promote_self
        and resp = "fst (account_serve small_env memory_store 1 ''ip'' (Some ''b'') promote_self small_accounts)"])
    (simp_all add: caller_def small_accounts_def new_gate_def memory_store_def ms_create_def ms_get_def
      NewMemoryStore_def role_defs)

section \<open>What the code does not promise\<close>

text \<open>Deleting a user ends none of his sessions: his token still reaches the handlers.\<close>

lemma deleted_user_stays_signed_in:
  "case account_serve small_env memory_store 1 ''ip'' (Some ''a'') (DoDelete (Some 2)) small_accounts of (resp, w) \<Rightarrow>
     resp = (204, []) \<and> GetByID 2 (ac_users w) = None \<and>
     fst (serve memory_store 2 ''POST'' ''/api/v1/olts/:id/gpon/register'' ''ip'' (Some ''b'') (ac_gate w)) =
       Reached ''zteProvision.Register''
         \<lparr>cx_user_id = Some 2, cx_user_role = Some (RoleValue UserRoleTechnician), cx_session_token = Some ''b''\<rparr>"
  by code_simp

text \<open>A duplicate e-mail address is reported as a duplicate name: the text of the error holds
  \<open>duplicate\<close> whichever index it violates.\<close>

lemma Contains_text_append:
  assumes "Contains_text s p"
  shows "Contains_text (x @ s) p"
proof -
  obtain i where "i < length s + 1" "HasPrefix (drop i s) p"
    using assms unfolding Contains_text_def list_ex_iff set_upt by auto
  then have "length x + i < length (x @ s) + 1" "HasPrefix (drop (length x + i) (x @ s)) p" by simp_all
  then show ?thesis unfolding Contains_text_def list_ex_iff set_upt by (meson atLeastLessThan_iff le0)
qed

lemma duplicate_email_reported_as_name:
  assumes "Contains_text m ''duplicate''"
  shows "refuseUserCreate (ErrDB m) = (409, ''USERNAME_EXISTS'')"
proof -
  have "Contains_text (error_text (ErrDB m)) ''duplicate''"
    unfolding error_text_def user_error.case by (rule Contains_text_append [OF assms])
  then show ?thesis unfolding refuseUserCreate_def isDuplicateError_def by (simp only: simp_thms if_True)
qed

end
