(* ===== verification/NetAddr.thy ===== *)
theory NetAddr
  imports GoStrings
begin

unbundle bit_operations_syntax

text \<open>
  Addresses and prefixes as \<open>net/netip\<close> has them, as far as the code uses them. An IPv4
  address is its 32 bits, an IPv6 one its 128; \<open>NoAddr\<close> and \<open>NoPrefix\<close> are the zero
  values. Only IPv4 text is parsed: every caller treats an IPv6 address and an error alike.
\<close>

datatype addr = NoAddr | V4 u32 | V6 "128 word"
datatype prefix = NoPrefix | Prefix addr nat

fun Is4 :: "addr \<Rightarrow> bool" where
  "Is4 (V4 _) = True"
| "Is4 _ = False"

fun BitLen :: "addr \<Rightarrow> nat" where
  "BitLen NoAddr = 0"
| "BitLen (V4 _) = 32"
| "BitLen (V6 _) = 128"

fun IsValid :: "prefix \<Rightarrow> bool" where
  "IsValid NoPrefix = False"
| "IsValid (Prefix a n) = (a \<noteq> NoAddr \<and> n \<le> BitLen a)"

fun Addr :: "prefix \<Rightarrow> addr" where
  "Addr NoPrefix = NoAddr"
| "Addr (Prefix a n) = a"

text \<open>\<open>Prefix.Bits\<close> is -1 on the zero prefix.\<close>

fun Bits :: "prefix \<Rightarrow> int" where
  "Bits NoPrefix = - 1"
| "Bits (Prefix a n) = int n"

definition mask_to :: "nat \<Rightarrow> 'a::len word \<Rightarrow> 'a word" where
  "mask_to n a = push_bit (LENGTH('a) - n) (drop_bit (LENGTH('a) - n) a)"

text \<open>\<open>Addr.Prefix(bits)\<close>: the address cut to its first bits; an error when there are not so many.\<close>

fun addr_Prefix :: "addr \<Rightarrow> nat \<Rightarrow> prefix option" where
  "addr_Prefix NoAddr n = None"
| "addr_Prefix (V4 a) n = (if n \<le> 32 then Some (Prefix (V4 (mask_to n a)) n) else None)"
| "addr_Prefix (V6 a) n = (if n \<le> 128 then Some (Prefix (V6 (mask_to n a)) n) else None)"

fun Masked :: "prefix \<Rightarrow> prefix" where
  "Masked NoPrefix = NoPrefix"
| "Masked (Prefix a n) = (case addr_Prefix a n of Some p \<Rightarrow> p | None \<Rightarrow> NoPrefix)"

fun Contains :: "prefix \<Rightarrow> addr \<Rightarrow> bool" where
  "Contains (Prefix (V4 p) n) (V4 a) = (n \<le> 32 \<and> drop_bit (32 - n) (a XOR p) = 0)"
| "Contains (Prefix (V6 p) n) (V6 a) = (n \<le> 128 \<and> drop_bit (128 - n) (a XOR p) = 0)"
| "Contains _ _ = False"

section \<open>Parsing\<close>

text \<open>One octet of a dotted quad: digits without a leading zero, at most 255.\<close>

definition parse_octet :: "string \<Rightarrow> nat option" where
  "parse_octet s =
     (if s \<noteq> [] \<and> list_all is_digit s \<and> (length s = 1 \<or> hd s \<noteq> CHR ''0'') \<and> dec_value s \<le> 255
      then Some (dec_value s) else None)"

definition quad :: "nat \<Rightarrow> nat \<Rightarrow> nat \<Rightarrow> nat \<Rightarrow> u32" where
  "quad a b c d = of_nat (((a * 256 + b) * 256 + c) * 256 + d)"

text \<open>\<open>netip.ParseAddr\<close>, when it answers an IPv4 address.\<close>

definition ParseAddr4 :: "string \<Rightarrow> u32 option" where
  "ParseAddr4 s =
     (case Split s (CHR ''.'') of
        [a, b, c, d] \<Rightarrow>
          (case (parse_octet a, parse_octet b, parse_octet c, parse_octet d) of
             (Some a, Some b, Some c, Some d) \<Rightarrow> Some (quad a b c d)
           | _ \<Rightarrow> None)
      | _ \<Rightarrow> None)"

text \<open>\<open>netip.ParsePrefix\<close>, when it answers an IPv4 prefix: split at the last slash, a length
  without sign or leading zero, at most 32. The address keeps its host bits.\<close>

definition ParsePrefix4 :: "string \<Rightarrow> prefix option" where
  "ParsePrefix4 s =
     (case LastIndex s (CHR ''/'') of
        None \<Rightarrow> None
      | Some i \<Rightarrow>
          (case ParseAddr4 (take i s) of
             None \<Rightarrow> None
           | Some a \<Rightarrow>
               (let b = drop (i + 1) s
                in if 1 < length b \<and> \<not> (is_digit (hd b) \<and> hd b \<noteq> CHR ''0'') then None
                   else (case ParseInt64 b of
                           None \<Rightarrow> None
                         | Some n \<Rightarrow> if 0 \<le> n \<and> n \<le> 32 then Some (Prefix (V4 a) (nat n)) else None))))"

text \<open>\<open>Addr.String\<close> of an IPv4 address.\<close>

definition octet_at :: "nat \<Rightarrow> u32 \<Rightarrow> nat" where
  "octet_at k a = (unat a div 256 ^ k) mod 256"

definition AddrString4 :: "u32 \<Rightarrow> string" where
  "AddrString4 a = dec (octet_at 3 a) @ ''.'' @ dec (octet_at 2 a) @ ''.'' @ dec (octet_at 1 a) @ ''.''
     @ dec (octet_at 0 a)"

lemma dec_hd_not_zero: "n \<noteq> 0 \<Longrightarrow> hd (dec n) \<noteq> CHR ''0''"
proof (induction n rule: dec.induct)
  case (1 n)
  show ?case
  proof (cases "n < 10")
    case True
    have "digit_char n \<noteq> CHR ''0''"
    proof
      assume eq: "digit_char n = CHR ''0''"
      have "n = digit_val (digit_char n)" using True by simp
      also have "\<dots> = 0" unfolding eq by (simp add: digit_val_def)
      finally show False using "1.prems" by simp
    qed
    with True show ?thesis by (simp add: dec.simps [of n])
  next
    case False
    with 1 show ?thesis by (simp add: dec.simps [of n])
  qed
qed

lemma parse_octet_dec [codec]: "n < 256 \<Longrightarrow> parse_octet (dec n) = Some n"
proof -
  assume n: "n < 256"
  have "list_all is_digit (dec n)" by (auto simp: list_all_iff dest: dec_digits)
  moreover have "length (dec n) = 1 \<or> hd (dec n) \<noteq> CHR ''0''"
    using dec_hd_not_zero [of n] by (cases "n = 0") (simp_all add: dec.simps [of 0])
  ultimately show ?thesis using n by (simp add: parse_octet_def)
qed

lemma octet_at_less: "octet_at k a < 256"
  by (simp add: octet_at_def)

lemma quad_octets: "quad (octet_at 3 a) (octet_at 2 a) (octet_at 1 a) (octet_at 0 a) = a"
proof -
  have "unat a < 256 ^ 4" using unsigned_less [of a] by simp
  then have "unat a div 256 div 256 div 256 < 256" by (simp add: less_mult_imp_div_less)
  moreover have "n = ((n div 256 div 256 div 256 * 256 + n div 256 div 256 mod 256) * 256 + n div 256 mod 256) * 256
      + n mod 256" for n :: nat
    by (simp only: div_mult_mod_eq)
  ultimately have "((octet_at 3 a * 256 + octet_at 2 a) * 256 + octet_at 1 a) * 256 + octet_at 0 a = unat a"
    by (simp add: octet_at_def power_numeral_reduce div_mult2_eq [symmetric] mult.commute)
  then show ?thesis by (simp add: quad_def)
qed

lemma dot_not_dec: "CHR ''.'' \<notin> set (dec n)"
  by (rule not_digit_dec) (simp add: is_digit_iff)

lemma ParseAddr4_AddrString4 [codec]: "ParseAddr4 (AddrString4 a) = Some a"
proof -
  have "Split (AddrString4 a) (CHR ''.'') =
      [dec (octet_at 3 a), dec (octet_at 2 a), dec (octet_at 1 a), dec (octet_at 0 a)]"
    using dot_not_dec by (simp add: AddrString4_def Split_append Split_no_sep)
  then show ?thesis
    using quad_octets [of a] by (simp add: ParseAddr4_def parse_octet_dec octet_at_less)
qed

lemma ParsePrefix4_shape:
  "ParsePrefix4 s = Some p \<Longrightarrow> \<exists>a n. p = Prefix (V4 a) n \<and> n \<le> 32"
  by (auto simp: ParsePrefix4_def Let_def split: option.splits if_splits)

section \<open>A prefix is an interval\<close>

definition low_addr :: "nat \<Rightarrow> u32 \<Rightarrow> u32" where
  "low_addr n a = mask_to n a"

definition high_addr :: "nat \<Rightarrow> u32 \<Rightarrow> u32" where
  "high_addr n a = mask_to n a OR (push_bit (32 - n) 1 - 1)"

lemma push_bit_one_minus: "push_bit k (1::u32) - 1 = mask k"
  by (simp add: mask_eq_exp_minus_1 push_bit_eq_mult)

lemma unat_less: "unat (a::u32) < 2 ^ 32"
  using unsigned_less [of a] by simp

lemma unat_drop: "unat (drop_bit k a) = unat a div 2 ^ k"
  unfolding unat_drop_bit_eq by (rule drop_bit_eq_div)

lemma unat_mask_to: "unat (mask_to n (a::u32)) = (unat a div 2 ^ (32 - n)) * 2 ^ (32 - n)"
proof -
  let ?k = "32 - n"
  have "(unat a div 2 ^ ?k) * 2 ^ ?k < 2 ^ 32"
    by (rule order.strict_trans1 [OF div_times_less_eq_dividend unat_less])
  then have "take_bit 32 ((unat a div 2 ^ ?k) * 2 ^ ?k) = (unat a div 2 ^ ?k) * 2 ^ ?k"
    by (simp only: take_bit_nat_eq_self_iff)
  moreover have "unat (mask_to n a) = take_bit 32 ((unat a div 2 ^ ?k) * 2 ^ ?k)"
    unfolding mask_to_def unsigned_push_bit_eq unat_drop by (simp add: push_bit_eq_mult)
  ultimately show ?thesis by simp
qed

lemma unat_high_addr: "unat (high_addr n a) = (unat a div 2 ^ (32 - n)) * 2 ^ (32 - n) + (2 ^ (32 - n) - 1)"
proof -
  let ?k = "32 - n"
  have m: "unat (mask ?k :: u32) = mask ?k"
  proof -
    have "take_bit ?k (- 1 :: u32) = mask ?k" by (rule take_bit_minus_one_eq_mask)
    then have "unat (mask ?k :: u32) = take_bit ?k (unat (- 1 :: u32))" by (metis unsigned_take_bit_eq)
    also have "\<dots> = take_bit ?k (mask 32)" by (simp only: unsigned_minus_1_eq_mask) simp
    also have "\<dots> = mask ?k" by (simp add: min_def)
    finally show ?thesis .
  qed
  have "unat (high_addr n a) = unat (mask_to n a) OR mask ?k"
    unfolding high_addr_def push_bit_one_minus unsigned_or_eq m ..
  also have "\<dots> = push_bit ?k (unat a div 2 ^ ?k) OR mask ?k"
    by (simp add: unat_mask_to push_bit_eq_mult)
  also have "\<dots> = push_bit ?k (unat a div 2 ^ ?k) + mask ?k"
    by (rule disjunctive_add_eq_or [symmetric], rule bit_eqI) (auto simp: bit_simps)
  finally show ?thesis by (simp add: push_bit_eq_mult mask_eq_exp_minus_1)
qed

lemma div_interval: "0 < (m::nat) \<Longrightarrow> a div m * m \<le> v \<and> v \<le> a div m * m + (m - 1) \<longleftrightarrow> v div m = a div m"
proof
  assume m: "0 < m" and "a div m * m \<le> v \<and> v \<le> a div m * m + (m - 1)"
  then obtain r where "v = a div m * m + r" "r < m" by (metis add_diff_inverse_nat less_diff_conv2 add.commute nat_add_left_cancel_le le_neq_implies_less diff_less zero_less_one not_less le_Suc_ex One_nat_def Suc_pred less_Suc_eq_le)
  then show "v div m = a div m" using m by simp
next
  assume m: "0 < m" and e: "v div m = a div m"
  have "v = v div m * m + v mod m" "v mod m < m" using m by (simp_all add: div_mult_mod_eq)
  then show "a div m * m \<le> v \<and> v \<le> a div m * m + (m - 1)" unfolding e by linarith
qed

lemma xor_drop_eq: "drop_bit k (a XOR b) = 0 \<longleftrightarrow> drop_bit k a = drop_bit k (b::'a::len word)"
proof
  assume "drop_bit k (a XOR b) = 0"
  then have "(drop_bit k a XOR drop_bit k b) XOR drop_bit k b = drop_bit k b" by simp
  then show "drop_bit k a = drop_bit k b" by (simp add: xor.assoc)
qed (simp add: drop_bit_xor)

lemma Contains_interval:
  "n \<le> 32 \<Longrightarrow> Contains (Prefix (V4 a) n) (V4 v) \<longleftrightarrow> low_addr n a \<le> v \<and> v \<le> high_addr n a"
proof -
  assume n: "n \<le> 32"
  let ?k = "32 - n"
  have "Contains (Prefix (V4 a) n) (V4 v) \<longleftrightarrow> unat (drop_bit ?k v) = unat (drop_bit ?k a)"
    using n by (simp only: Contains.simps xor_drop_eq) (simp only: word_unat_eq_iff simp_thms)
  also have "\<dots> \<longleftrightarrow> unat v div 2 ^ ?k = unat a div 2 ^ ?k"
    by (simp only: unat_drop)
  also have "\<dots> \<longleftrightarrow> low_addr n a \<le> v \<and> v \<le> high_addr n a"
    using div_interval [of "2 ^ ?k" "unat a" "unat v"]
    by (simp add: word_le_nat_alt unat_high_addr low_addr_def unat_mask_to)
  finally show ?thesis .
qed

lemma low_high: "low_addr n a \<le> high_addr n a"
  unfolding word_le_nat_alt unat_high_addr low_addr_def unat_mask_to by (rule le_add1)

text \<open>Membership in a masked prefix, for the lookups by length.\<close>

lemma mask_to_idem [simp]: "mask_to n (mask_to n a) = mask_to n a"
  by (rule bit_eqI) (auto simp: mask_to_def bit_simps)

lemma mask_to_eq: "mask_to n (a::u32) = mask_to n b \<longleftrightarrow> drop_bit (32 - n) a = drop_bit (32 - n) b"
proof
  assume "mask_to n a = mask_to n b"
  then have "unat (mask_to n a) = unat (mask_to n b)" by simp
  then have "unat (drop_bit (32 - n) a) = unat (drop_bit (32 - n) b)"
    unfolding unat_drop by (simp add: unat_mask_to)
  then show "drop_bit (32 - n) a = drop_bit (32 - n) b" by (rule unsigned_word_eqI)
qed (simp add: mask_to_def)

lemma Contains_masked:
  "Contains (Prefix (V4 p) n) (V4 a) \<longleftrightarrow> n \<le> 32 \<and> mask_to n a = mask_to n p"
  by (auto simp: mask_to_eq xor_drop_eq simp del: drop_bit_xor)

end
