(* ===== verification/NetIP.thy ===== *)
theory NetIP
  imports NetAddr "HOL-Library.Char_ord" "HOL-Library.List_Lexorder"
begin

text \<open>
  Go's package \<open>net\<close> as the tunnel code uses it: \<open>ParseIP\<close>, \<open>ParseCIDR\<close>, \<open>IP.String\<close>, \<open>IP.Equal\<close> and
  \<open>IPNet.Contains\<close>. An \<open>IP\<close> is a slice of four or of sixteen bytes; sixteen bytes that begin with
  \<open>::ffff\<close> are an IPv4 address to every one of these.
\<close>

section \<open>IPv6 text\<close>

definition hex_val :: "char \<Rightarrow> nat option" where
  "hex_val c =
     (let n = of_char c in
      if 48 \<le> n \<and> n \<le> 57 then Some (n - 48)
      else if 97 \<le> n \<and> n \<le> (102::nat) then Some (n - 87)
      else if 65 \<le> n \<and> n \<le> 70 then Some (n - 55) else None)"

definition is_hex :: "char \<Rightarrow> bool" where
  "is_hex c \<longleftrightarrow> hex_val c \<noteq> None"

definition hex_value :: "string \<Rightarrow> nat" where
  "hex_value s = foldl (\<lambda>n c. 16 * n + the (hex_val c)) 0 s"

text \<open>The loop of \<open>parseIPv6\<close>: at most eight groups, the place of the ellipsis, the bytes so far, the rest.\<close>

fun v6_loop :: "nat \<Rightarrow> nat option \<Rightarrow> nat list \<Rightarrow> string \<Rightarrow> (nat option \<times> nat list \<times> string) option" where
  "v6_loop 0 ell bs s = Some (ell, bs, s)"
| "v6_loop (Suc k) ell bs s =
     (let ds = takeWhile is_hex s; rest = dropWhile is_hex s
      in if ds = [] \<or> length ds > 4 then None
         else if rest \<noteq> [] \<and> hd rest = CHR ''.'' then
           (if ell = None \<and> length bs \<noteq> 12 then None
            else if length bs + 4 > 16 then None
            else (case ParseAddr4 s of
                    None \<Rightarrow> None
                  | Some a \<Rightarrow> Some (ell, bs @ [octet_at 3 a, octet_at 2 a, octet_at 1 a, octet_at 0 a], [])))
         else (let bs = bs @ [hex_value ds div 256, hex_value ds mod 256]
               in if rest = [] then Some (ell, bs, [])
                  else if hd rest \<noteq> CHR '':'' \<or> tl rest = [] then None
                  else if hd (tl rest) = CHR '':'' then
                    (if ell \<noteq> None then None
                     else if tl (tl rest) = [] then Some (Some (length bs), bs, [])
                     else v6_loop k (Some (length bs)) bs (tl (tl rest)))
                  else v6_loop k ell bs (tl rest)))"

definition v6_finish :: "nat option \<times> nat list \<times> string \<Rightarrow> nat list option" where
  "v6_finish r =
     (case r of (ell, bs, s) \<Rightarrow>
        if s \<noteq> [] then None
        else if length bs < 16 then
          (case ell of None \<Rightarrow> None | Some e \<Rightarrow> Some (take e bs @ replicate (16 - length bs) 0 @ drop e bs))
        else if ell \<noteq> None then None else Some bs)"

definition parse_v6 :: "string \<Rightarrow> 128 word option" where
  "parse_v6 s =
     (if take 2 s = ''::'' \<and> length s = 2 then Some 0
      else (case (if take 2 s = ''::'' then v6_loop 8 (Some 0) [] (drop 2 s) else v6_loop 8 None [] s) of
              None \<Rightarrow> None
            | Some r \<Rightarrow> map_option (\<lambda>bs. of_nat (foldl (\<lambda>n b. 256 * n + b) 0 bs)) (v6_finish r)))"

text \<open>\<open>netip.ParseAddr\<close>, without zones: every caller refuses an address with one.\<close>

datatype ip = IP4 u32 | IP16 "128 word"

definition parse_addr :: "string \<Rightarrow> ip option" where
  "parse_addr s =
     (if CHR ''%'' \<in> set s then None
      else (case List.find (\<lambda>c. c = CHR ''.'' \<or> c = CHR '':'') s of
              None \<Rightarrow> None
            | Some c \<Rightarrow> if c = CHR ''.'' then map_option IP4 (ParseAddr4 s) else map_option IP16 (parse_v6 s)))"

text \<open>\<open>IP.To4\<close>, and \<open>ParseIP\<close>, which answers sixteen bytes.\<close>

fun To4 :: "ip \<Rightarrow> u32 option" where
  "To4 (IP4 a) = Some a"
| "To4 (IP16 w) = (if drop_bit 32 w = 0xFFFF then Some (ucast w) else None)"

fun As16 :: "ip \<Rightarrow> 128 word" where
  "As16 (IP4 a) = push_bit 32 0xFFFF OR ucast a"
| "As16 (IP16 w) = w"

definition ParseIP :: "string \<Rightarrow> ip option" where
  "ParseIP s = map_option (\<lambda>a. IP16 (As16 a)) (parse_addr s)"

definition ip_Equal :: "ip \<Rightarrow> ip \<Rightarrow> bool" where
  "ip_Equal a b \<longleftrightarrow> As16 a = As16 b"

section \<open>Networks\<close>

datatype ipnet = Net4 u32 nat | Net6 "128 word" nat

fun net_ip :: "ipnet \<Rightarrow> ip" where
  "net_ip (Net4 a k) = IP4 a"
| "net_ip (Net6 w k) = IP16 w"

text \<open>\<open>Mask.Size\<close>: ones, and bits.\<close>

fun mask_size :: "ipnet \<Rightarrow> nat \<times> nat" where
  "mask_size (Net4 a k) = (k, 32)"
| "mask_size (Net6 w k) = (k, 128)"

definition net_ParseCIDR :: "string \<Rightarrow> ipnet option" where
  "net_ParseCIDR s =
     (case Cut s (CHR ''/'') of (adr, ones, found) \<Rightarrow>
        if \<not> found then None
        else (case parse_addr adr of
                None \<Rightarrow> None
              | Some a \<Rightarrow>
                  if ones = [] \<or> \<not> list_all is_digit ones then None
                  else (case a of
                          IP4 v \<Rightarrow> if dec_value ones \<le> 32 then Some (Net4 (mask_to (dec_value ones) v) (dec_value ones)) else None
                        | IP16 w \<Rightarrow> if dec_value ones \<le> 128 then Some (Net6 (mask_to (dec_value ones) w) (dec_value ones)) else None)))"

text \<open>\<open>networkNumberAndMask\<close>: a network in IPv4-mapped form is an IPv4 network.\<close>

definition nn_mask :: "ipnet \<Rightarrow> (u32 \<times> nat) + (128 word \<times> nat)" where
  "nn_mask n =
     (case n of
        Net4 a k \<Rightarrow> Inl (a, k)
      | Net6 w k \<Rightarrow> (case To4 (IP16 w) of Some a \<Rightarrow> Inl (a, k - 96) | None \<Rightarrow> Inr (w, k)))"

definition net_Contains :: "ipnet \<Rightarrow> ip \<Rightarrow> bool" where
  "net_Contains n x =
     (case (nn_mask n, To4 x) of
        (Inl (a, k), Some b) \<Rightarrow> mask_to k b = mask_to k a
      | (Inr (w, k), None) \<Rightarrow> mask_to k (As16 x) = mask_to k w
      | _ \<Rightarrow> False)"

lemma mask_to_narrow:
  assumes "j \<le> k" "mask_to k a = mask_to k (b::'a::len word)"
  shows "mask_to j a = mask_to j b"
proof (rule bit_word_eqI)
  fix i assume "i < LENGTH('a)"
  have "bit (mask_to k a) i = bit (mask_to k b) i" using assms(2) by simp
  then show "bit (mask_to j a) i = bit (mask_to j b) i" using assms(1) by (auto simp: mask_to_def bit_simps)
qed

lemma net_Contains_self: "net_Contains n (net_ip n)"
  by (cases n) (auto simp: net_Contains_def nn_mask_def split: option.splits)

section \<open>Printing\<close>

definition hex_digit :: "nat \<Rightarrow> char" where
  "hex_digit n = (if n < 10 then char_of (48 + n) else char_of (87 + n))"

definition hex :: "nat \<Rightarrow> string" where
  "hex n = (if n < 16 then [hex_digit n]
     else if n < 256 then [hex_digit (n div 16), hex_digit (n mod 16)]
     else if n < 4096 then [hex_digit (n div 256), hex_digit (n div 16 mod 16), hex_digit (n mod 16)]
     else [hex_digit (n div 4096), hex_digit (n div 256 mod 16), hex_digit (n div 16 mod 16), hex_digit (n mod 16)])"

definition v6_groups :: "128 word \<Rightarrow> nat list" where
  "v6_groups w = map (\<lambda>i. unat w div 2 ^ (16 * (7 - i)) mod 65536) [0..<8]"

text \<open>The first longest run of two zero groups or more.\<close>

definition zero_run :: "nat list \<Rightarrow> nat \<times> nat" where
  "zero_run gs =
     foldl (\<lambda>(a, b) i. let j = i + length (takeWhile (\<lambda>g. g = 0) (drop i gs))
                       in if j - i \<ge> 2 \<and> j - i > b - a then (i, j) else (a, b)) (255, 255) [0..<8]"

definition join_colon :: "nat list \<Rightarrow> string" where
  "join_colon gs = (case gs of [] \<Rightarrow> [] | g # hs \<Rightarrow> hex g @ concat (map (\<lambda>h. CHR '':'' # hex h) hs))"

definition AddrString6 :: "128 word \<Rightarrow> string" where
  "AddrString6 w =
     (case zero_run (v6_groups w) of (a, b) \<Rightarrow>
        if a = 255 then join_colon (v6_groups w)
        else join_colon (take a (v6_groups w)) @ ''::'' @ join_colon (drop b (v6_groups w)))"

definition IPString :: "ip \<Rightarrow> string" where
  "IPString x = (case To4 x of Some a \<Rightarrow> AddrString4 a | None \<Rightarrow> AddrString6 (As16 x))"

end
