(* ===== verification/TrustedProxies.thy ===== *)
theory TrustedProxies
  imports NetIP
begin

text \<open>
  The addresses whose \<open>X-Forwarded-For\<close> the API believes: \<open>middleware/trusted_proxies.go\<close>. The routing
  table is what a \<open>bufio.Scanner\<close> yields of it, its lines and whether it failed; the machine's byte
  order is a parameter. A block is trusted as the text \<open>gin\<close> parses again.
\<close>

section \<open>The routing table\<close>

text \<open>\<open>strings.Fields\<close>.\<close>

function space_run :: "string \<Rightarrow> string" where
  "space_run s = (if s \<noteq> [] \<and> space_len s \<noteq> 0 then space_run (drop (space_len s) s) else s)"
  by pat_completeness auto
termination by (relation "measure length") auto

declare space_run.simps [simp del]

fun word_run :: "string \<Rightarrow> string \<times> string" where
  "word_run [] = ([], [])"
| "word_run (c # s) = (if space_len (c # s) \<noteq> 0 then ([], c # s) else (case word_run s of (w, r) \<Rightarrow> (c # w, r)))"

lemma space_run_props: "length (space_run s) \<le> length s \<and> (space_run s = [] \<or> space_len (space_run s) = 0)"
proof (induction s rule: space_run.induct)
  case (1 s)
  show ?case
  proof (cases "s \<noteq> [] \<and> space_len s \<noteq> 0")
    case True
    have "space_run s = space_run (drop (space_len s) s)" using True by (simp add: space_run.simps [of s])
    then show ?thesis using 1 True by auto
  next
    case False
    have "space_run s = s" using False by (auto simp: space_run.simps [of s])
    then show ?thesis using False by auto
  qed
qed

lemma word_run_length: "length (snd (word_run s)) \<le> length s"
  by (induction s) (auto split: prod.splits)

function Fields :: "string \<Rightarrow> string list" where
  "Fields s =
     (let t = space_run s
      in if t = [] then [] else fst (word_run t) # Fields (snd (word_run t)))"
  by pat_completeness auto
termination
proof (relation "measure length")
  fix s t :: string
  assume t: "t = space_run s" "t \<noteq> []"
  obtain c u where u: "t = c # u" using t(2) by (cases t) simp_all
  have "space_len (c # u) = 0" using space_run_props [of s] t u by simp
  then have "length (snd (word_run t)) \<le> length u" using word_run_length [of u] by (auto simp: u split: prod.splits)
  then show "(snd (word_run t), s) \<in> measure length"
    using space_run_props [of s, folded t(1)] arg_cong [OF u, of length] by simp
qed simp

declare Fields.simps [simp del]

definition routeTableFields :: nat where
  "routeTableFields = 8"

definition dockerBridgeRange :: prefix where
  "dockerBridgeRange = Prefix (V4 (quad 172 16 0 0)) 12"

record routeEntry =
  re_iface :: string
  re_network :: prefix
  re_gateway :: addr

datatype proxies_error = ErrRouteAddr | ErrMask | ErrRouteScan | ErrNoDefaultRoute | ErrNoLinkSubnet | ErrOutsideBridge

definition parse_hex32 :: "string \<Rightarrow> u32 option" where
  "parse_hex32 s = (if s \<noteq> [] \<and> list_all is_hex s \<and> hex_value s < 2 ^ 32 then Some (of_nat (hex_value s)) else None)"

definition parseRouteAddr :: "bool \<Rightarrow> string \<Rightarrow> proxies_error + addr" where
  "parseRouteAddr little_endian fld =
     (case parse_hex32 fld of
        None \<Rightarrow> Inl ErrRouteAddr
      | Some v \<Rightarrow> Inr (V4 (if little_endian then quad (octet_at 0 v) (octet_at 1 v) (octet_at 2 v) (octet_at 3 v) else v)))"

text \<open>\<open>net.IPMask.Size\<close> of four bytes: the ones of a mask that is ones followed by zeros.\<close>

definition mask_ones :: "addr \<Rightarrow> nat option" where
  "mask_ones a = (case a of V4 m \<Rightarrow> find (\<lambda>n. unat m + 2 ^ (32 - n) = 2 ^ 32) [0..<33] | _ \<Rightarrow> None)"

definition parseRouteRow :: "bool \<Rightarrow> string list \<Rightarrow> proxies_error + routeEntry" where
  "parseRouteRow le fs =
     (case parseRouteAddr le (fs ! 1) of
        Inl e \<Rightarrow> Inl e
      | Inr destination \<Rightarrow>
          (case parseRouteAddr le (fs ! 2) of
             Inl e \<Rightarrow> Inl e
           | Inr gateway \<Rightarrow>
               (case parseRouteAddr le (fs ! 7) of
                  Inl e \<Rightarrow> Inl e
                | Inr m \<Rightarrow>
                    (case mask_ones m of
                       None \<Rightarrow> Inl ErrMask
                     | Some ones \<Rightarrow>
                         Inr \<lparr>re_iface = fs ! 0, re_network = Masked (Prefix destination ones), re_gateway = gateway\<rparr>))))"

fun route_rows :: "bool \<Rightarrow> string list \<Rightarrow> proxies_error + routeEntry list" where
  "route_rows le [] = Inr []"
| "route_rows le (l # ls) =
     (let fs = Fields l
      in if length fs < routeTableFields then route_rows le ls
         else (case parseRouteRow le fs of
                 Inl e \<Rightarrow> Inl e
               | Inr r \<Rightarrow> (case route_rows le ls of Inl e \<Rightarrow> Inl e | Inr rs \<Rightarrow> Inr (r # rs))))"

definition parseRouteTable :: "bool \<Rightarrow> string list \<times> bool \<Rightarrow> proxies_error + routeEntry list" where
  "parseRouteTable le scan =
     (case route_rows le (drop 1 (fst scan)) of
        Inl e \<Rightarrow> Inl e
      | Inr rs \<Rightarrow> if snd scan then Inl ErrRouteScan else Inr rs)"

section \<open>The trusted blocks\<close>

definition IsUnspecified :: "addr \<Rightarrow> bool" where
  "IsUnspecified a \<longleftrightarrow> a = V4 0 \<or> a = V6 0"

definition findDefaultRoute :: "routeEntry list \<Rightarrow> routeEntry option" where
  "findDefaultRoute routes = find (\<lambda>r. Bits (re_network r) = 0 \<and> \<not> IsUnspecified (re_gateway r)) routes"

definition findLinkSubnet :: "routeEntry list \<Rightarrow> routeEntry \<Rightarrow> prefix option" where
  "findLinkSubnet routes d =
     map_option re_network
       (find (\<lambda>r. re_iface r = re_iface d \<and> IsUnspecified (re_gateway r) \<and> 0 < Bits (re_network r) \<and>
                  Contains (re_network r) (re_gateway d)) routes)"

fun prefix_string :: "prefix \<Rightarrow> string" where
  "prefix_string (Prefix (V4 a) n) = AddrString4 a @ ''/'' @ dec n"
| "prefix_string _ = ''invalid Prefix''"

definition excludeAddress :: "prefix \<Rightarrow> addr \<Rightarrow> string list" where
  "excludeAddress subnet a =
     (case (subnet, a) of
        (Prefix _ n, V4 v) \<Rightarrow>
          map (\<lambda>bits. prefix_string (Masked (Prefix (V4 (v XOR push_bit (32 - bits) 1)) bits))) [n + 1..<33]
      | _ \<Rightarrow> [])"

definition trustedProxiesFromRoutes :: "bool \<Rightarrow> string list \<times> bool \<Rightarrow> proxies_error + string list" where
  "trustedProxiesFromRoutes le scan =
     (case parseRouteTable le scan of
        Inl e \<Rightarrow> Inl e
      | Inr routes \<Rightarrow>
          (case findDefaultRoute routes of
             None \<Rightarrow> Inl ErrNoDefaultRoute
           | Some d \<Rightarrow>
               (case findLinkSubnet routes d of
                  None \<Rightarrow> Inl ErrNoLinkSubnet
                | Some subnet \<Rightarrow>
                    if Bits subnet < Bits dockerBridgeRange \<or> \<not> Contains dockerBridgeRange (Addr subnet)
                    then Inl ErrOutsideBridge
                    else Inr (excludeAddress subnet (re_gateway d)))))"

section \<open>What is trusted\<close>

definition trusts :: "string list \<Rightarrow> u32 \<Rightarrow> bool" where
  "trusts blocks v \<longleftrightarrow> list_ex (\<lambda>b. case ParsePrefix4 b of Some p \<Rightarrow> Contains p (V4 v) | None \<Rightarrow> False) blocks"

lemma dec_short: "n \<le> 32 \<Longrightarrow> \<not> (1 < length (dec n) \<and> \<not> (is_digit (hd (dec n)) \<and> hd (dec n) \<noteq> CHR ''0''))"
  using dec_hd_not_zero [of n] dec_digits [of "hd (dec n)" n] by (cases "n = 0") (auto simp: dec.simps [of 0])

lemma LastIndex_append: "c \<notin> set t \<Longrightarrow> LastIndex (s @ c # t) c = Some (length s)"
  by (simp add: LastIndex_def Cut_append)

lemma ParsePrefix4_string: "n \<le> 32 \<Longrightarrow> ParsePrefix4 (prefix_string (Prefix (V4 a) n)) = Some (Prefix (V4 a) n)"
proof -
  assume n: "n \<le> 32"
  have "CHR ''/'' \<notin> set (dec n)" by (rule not_digit_dec) (simp add: is_digit_iff)
  then show ?thesis
    using n dec_short [OF n] by (simp add: ParsePrefix4_def LastIndex_append Let_def codec)
qed

lemma bit_mask_to: "bit (mask_to n (a::u32)) j \<longleftrightarrow> 32 - n \<le> j \<and> bit a j"
  by (auto simp: mask_to_def bit_simps dest: bit_imp_le_length)

lemma mask_to_bits: "mask_to n a = mask_to n (b::u32) \<longleftrightarrow> (\<forall>j. 32 - n \<le> j \<longrightarrow> bit a j = bit b j)"
proof -
  have "mask_to n a = mask_to n b \<longleftrightarrow> (\<forall>j. bit (mask_to n a) j = bit (mask_to n b) j)"
    by (auto intro: bit_eqI)
  then show ?thesis by (auto simp: bit_mask_to)
qed

lemma bit_flip: "j < 32 \<Longrightarrow> bit (v XOR push_bit i (1::u32)) j \<longleftrightarrow> (bit v j \<noteq> (j = i))"
  by (auto simp: bit_simps)

lemma flipped_halves:
  fixes x v :: u32
  assumes "n \<le> 32"
  shows "(\<exists>bits. n < bits \<and> bits \<le> 32 \<and> mask_to bits x = mask_to bits (v XOR push_bit (32 - bits) 1)) \<longleftrightarrow>
    mask_to n x = mask_to n v \<and> x \<noteq> v"
proof
  assume "\<exists>bits. n < bits \<and> bits \<le> 32 \<and> mask_to bits x = mask_to bits (v XOR push_bit (32 - bits) 1)"
  then obtain bits where b: "n < bits" "bits \<le> 32"
    and e: "\<And>j. 32 - bits \<le> j \<Longrightarrow> bit x j = bit (v XOR push_bit (32 - bits) 1) j"
    by (auto simp: mask_to_bits)
  have "bit x j = bit v j" if "32 - n \<le> j" for j
  proof (cases "j < 32")
    case True
    then show ?thesis using e [of j] bit_flip [OF True, of v "32 - bits"] b that by auto
  next
    case False
    then show ?thesis by (auto dest: bit_imp_le_length)
  qed
  moreover have "bit x (32 - bits) \<noteq> bit v (32 - bits)"
    using e [of "32 - bits"] bit_flip [of "32 - bits" v "32 - bits"] b by auto
  ultimately show "mask_to n x = mask_to n v \<and> x \<noteq> v" by (auto simp: mask_to_bits)
next
  assume a: "mask_to n x = mask_to n v \<and> x \<noteq> v"
  let ?D = "{i. i < 32 \<and> bit x i \<noteq> bit v i}"
  have ne: "?D \<noteq> {}"
  proof
    assume "?D = {}"
    then have "x = v" by (intro bit_word_eqI) auto
    then show False using a by simp
  qed
  define i where "i = Max ?D"
  have i: "i \<in> ?D" unfolding i_def by (rule Max_in) (use ne in auto)
  have top: "bit x j = bit v j" if "i < j" for j
  proof (rule ccontr)
    assume d: "bit x j \<noteq> bit v j"
    then have "j < 32" using bit_imp_le_length [of x j] bit_imp_le_length [of v j] by auto
    then have "j \<le> i" unfolding i_def by (intro Max_ge) (use d in auto)
    then show False using that by simp
  qed
  have "i < 32 - n"
  proof (rule ccontr)
    assume "\<not> i < 32 - n"
    then show False using a i by (auto simp: mask_to_bits)
  qed
  moreover have "mask_to (32 - i) x = mask_to (32 - i) (v XOR push_bit i 1)"
  proof -
    have "bit x j = bit (v XOR push_bit i 1) j" if "i \<le> j" for j
    proof (cases "j < 32")
      case True
      then show ?thesis using bit_flip [OF True, of v i] top [of j] i that by (cases "j = i") auto
    next
      case False
      then show ?thesis by (auto dest: bit_imp_le_length)
    qed
    then show ?thesis using i by (simp add: mask_to_bits)
  qed
  ultimately show "\<exists>bits. n < bits \<and> bits \<le> 32 \<and> mask_to bits x = mask_to bits (v XOR push_bit (32 - bits) 1)"
    using i by (intro exI [of _ "32 - i"]) auto
qed

lemma block_trusts:
  "bits \<le> 32 \<Longrightarrow>
     (case ParsePrefix4 (prefix_string (Masked (Prefix (V4 a) bits))) of Some p \<Rightarrow> Contains p (V4 x) | None \<Rightarrow> False)
       \<longleftrightarrow> mask_to bits x = mask_to bits a"
  by (simp add: ParsePrefix4_string Contains_masked del: prefix_string.simps Contains.simps)

lemma excludeAddress_trusts:
  assumes "n \<le> 32"
  shows "trusts (excludeAddress (Prefix (V4 a) n) (V4 v)) x \<longleftrightarrow> mask_to n x = mask_to n v \<and> x \<noteq> v"
proof -
  have "trusts (excludeAddress (Prefix (V4 a) n) (V4 v)) x \<longleftrightarrow>
      (\<exists>bits. n < bits \<and> bits \<le> 32 \<and> mask_to bits x = mask_to bits (v XOR push_bit (32 - bits) 1))"
  proof -
    have "trusts (excludeAddress (Prefix (V4 a) n) (V4 v)) x \<longleftrightarrow>
        (\<exists>bits \<in> set [n + 1..<33].
          case ParsePrefix4 (prefix_string (Masked (Prefix (V4 (v XOR push_bit (32 - bits) 1)) bits))) of
            Some p \<Rightarrow> Contains p (V4 x) | None \<Rightarrow> False)"
      by (simp only: trusts_def excludeAddress_def list_ex_iff set_map bex_simps prod.case prefix.case addr.case)
    also have "\<dots> \<longleftrightarrow> (\<exists>bits \<in> set [n + 1..<33]. mask_to bits x = mask_to bits (v XOR push_bit (32 - bits) 1))"
      by (rule bex_cong [OF refl]) (rule block_trusts, simp)
    also have "\<dots> \<longleftrightarrow> (\<exists>bits. n < bits \<and> bits \<le> 32 \<and> mask_to bits x = mask_to bits (v XOR push_bit (32 - bits) 1))"
    proof -
      have "bits \<in> set [n + 1..<33] \<longleftrightarrow> n < bits \<and> bits \<le> 32" for bits by auto
      then show ?thesis by blast
    qed
    finally show ?thesis .
  qed
  then show ?thesis using flipped_halves [OF assms] by simp
qed

lemma mask_ones_le: "mask_ones a = Some n \<Longrightarrow> n \<le> 32"
  by (auto simp: mask_ones_def find_Some_iff nth_append split: addr.splits)

lemma parseRouteAddr_V4: "parseRouteAddr le s = Inr a \<Longrightarrow> \<exists>v. a = V4 v"
  by (auto simp: parseRouteAddr_def split: option.splits)

lemma parseRouteRow_shape:
  assumes "parseRouteRow le fs = Inr r"
  shows "\<exists>a n g. re_network r = Prefix (V4 (mask_to n a)) n \<and> n \<le> 32 \<and> re_gateway r = V4 g"
  using assms mask_ones_le
  by (fastforce simp: parseRouteRow_def split: sum.splits option.splits dest: parseRouteAddr_V4)

lemma route_rows_shape:
  "route_rows le ls = Inr rs \<Longrightarrow> r \<in> set rs \<Longrightarrow>
     \<exists>a n g. re_network r = Prefix (V4 (mask_to n a)) n \<and> n \<le> 32 \<and> re_gateway r = V4 g"
proof (induction ls arbitrary: rs)
  case (Cons l ls)
  show ?case
  proof (cases "length (Fields l) < routeTableFields")
    case False
    then obtain r0 rs0 where "parseRouteRow le (Fields l) = Inr r0" "route_rows le ls = Inr rs0" "rs = r0 # rs0"
      using Cons.prems(1) by (auto simp: Let_def split: sum.splits)
    then show ?thesis using parseRouteRow_shape [of le "Fields l" r] Cons by auto
  qed (use Cons in simp)
qed simp

lemma subnet_in_bridge:
  assumes "n \<le> 32" "12 \<le> n" "Contains dockerBridgeRange (V4 (mask_to n a))" "mask_to n v = mask_to n a"
  shows "Contains dockerBridgeRange (V4 v)"
proof -
  have "mask_to 12 (mask_to n a) = mask_to 12 (quad 172 16 0 0)"
    using assms(3) unfolding dockerBridgeRange_def Contains_masked by simp
  moreover have "mask_to 12 v = mask_to 12 (mask_to n a)"
    by (rule mask_to_narrow [OF assms(2)]) (simp add: assms(4))
  ultimately show ?thesis unfolding dockerBridgeRange_def Contains_masked by simp
qed

text \<open>C36. Whose \<open>X-Forwarded-For\<close> is believed: the blocks handed to the web framework, parsed again, hold exactly
  the addresses of the subnet the default route leaves through, without its gateway; and that subnet
  lies inside the range of container networks.\<close>

theorem trusted_proxies_exact:
  assumes "trustedProxiesFromRoutes le scan = Inr blocks"
  shows "\<exists>routes d subnet. parseRouteTable le scan = Inr routes \<and> findDefaultRoute routes = Some d \<and>
    findLinkSubnet routes d = Some subnet \<and>
    (\<forall>v. trusts blocks v \<longleftrightarrow> Contains subnet (V4 v) \<and> V4 v \<noteq> re_gateway d) \<and>
    {v. Contains subnet (V4 v)} \<subseteq> {v. Contains dockerBridgeRange (V4 v)}"
proof -
  obtain routes d subnet where r: "parseRouteTable le scan = Inr routes" "findDefaultRoute routes = Some d"
      "findLinkSubnet routes d = Some subnet" "blocks = excludeAddress subnet (re_gateway d)"
      "Bits dockerBridgeRange \<le> Bits subnet" "Contains dockerBridgeRange (Addr subnet)"
    using assms by (auto simp: trustedProxiesFromRoutes_def split: sum.splits option.splits if_splits)
  have shape: "\<exists>a n g. re_network r = Prefix (V4 (mask_to n a)) n \<and> n \<le> 32 \<and> re_gateway r = V4 g"
    if "r \<in> set routes" for r
    using r(1) that route_rows_shape by (auto simp: parseRouteTable_def split: sum.splits if_splits)
  have d: "d \<in> set routes" using r(2) by (auto simp: findDefaultRoute_def dest: find_SomeD)
  obtain l where l: "l \<in> set routes" "subnet = re_network l" "Contains (re_network l) (re_gateway d)"
    using r(3) by (auto simp: findLinkSubnet_def dest!: find_SomeD)
  obtain g where g: "re_gateway d = V4 g" using shape [OF d] by auto
  obtain a n where s: "subnet = Prefix (V4 (mask_to n a)) n" "n \<le> 32" using shape [OF l(1)] l(2) by auto
  have gw: "mask_to n g = mask_to n a" using l(2, 3) g s Contains_masked [of "mask_to n a" n g] by simp
  have "trusts blocks v \<longleftrightarrow> Contains subnet (V4 v) \<and> V4 v \<noteq> re_gateway d" for v
    unfolding r(4) s(1) g excludeAddress_trusts [OF s(2)] Contains_masked by (simp add: s(2) gw)
  moreover have "Contains dockerBridgeRange (V4 v)" if "Contains subnet (V4 v)" for v
  proof (rule subnet_in_bridge [OF s(2)])
    show "12 \<le> n" using r(5) s by (simp add: dockerBridgeRange_def)
    show "Contains dockerBridgeRange (V4 (mask_to n a))" using r(6) s by simp
    show "mask_to n v = mask_to n a" using that unfolding s(1) Contains_masked by simp
  qed
  ultimately show ?thesis using r(1, 2, 3) by blast
qed

definition sample_routes :: "string list \<times> bool" where
  "sample_routes =
     ([''Iface Destination Gateway Flags RefCnt Use Metric Mask'',
       ''eth0 00000000 010012AC 0003 0 0 0 00000000'',
       ''eth0 000012AC 00000000 0001 0 0 0 F0FFFFFF''], False)"

theorem trusted_proxies_exact_witness:
  "\<exists>routes d subnet. parseRouteTable True sample_routes = Inr routes \<and> findDefaultRoute routes = Some d \<and>
    findLinkSubnet routes d = Some subnet \<and>
    (\<forall>v. trusts [''172.18.0.8/29'', ''172.18.0.4/30'', ''172.18.0.2/31'', ''172.18.0.0/32''] v \<longleftrightarrow>
       Contains subnet (V4 v) \<and> V4 v \<noteq> re_gateway d) \<and>
    {v. Contains subnet (V4 v)} \<subseteq> {v. Contains dockerBridgeRange (V4 v)}"
  by (rule trusted_proxies_exact) code_simp

end
