(* ===== verification/Outbox.thy ===== *)
theory Outbox
  imports GoStrings
begin

text \<open>
  Sending what waits: the loop that the drains of the customer outbox (\<open>wa/outbound.go\<close>), the group outbox
  (\<open>wa/group_drainer.go\<close>) and the broadcast outbox (\<open>wa/broadcast_drainer.go\<close>) share, and what an outbox promises.

  WhatsApp is a parameter: for what it is handed it answers an id or a reason. A drain holds its mutex, so a drain of the same
  outbox never runs inside it; what everything else does to the tables while the \<open>i\<close>-th message is being sent is \<open>mid i\<close>.
  The pause before a message is whether the context was done by then. The announcements to the browsers carry no state, and the
  root of the files belongs to the parameters that send them.
\<close>

section \<open>A drain\<close>

text \<open>How a drain ends: with all it claimed, at a pause, or when a table refused to record an outcome.\<close>

datatype drain_end = DrainDone | DrainCancelled | DrainUnrecorded

text \<open>\<open>log\<close> is what WhatsApp accepted, \<open>sent\<close> what was recorded as sent.\<close>

fun drain_rows ::
  "('m \<Rightarrow> 'o \<Rightarrow> string + 'r) \<Rightarrow> ('m \<Rightarrow> 'r \<Rightarrow> 'o \<Rightarrow> 'o option) \<Rightarrow> ('m \<Rightarrow> string \<Rightarrow> 'o \<Rightarrow> 'o option) \<Rightarrow> (nat \<Rightarrow> 'o \<Rightarrow> 'o)
    \<Rightarrow> (nat \<Rightarrow> bool) \<Rightarrow> nat \<Rightarrow> 'm list \<Rightarrow> 'm list \<Rightarrow> nat \<Rightarrow> 'o \<Rightarrow> 'm list \<times> nat \<times> drain_end \<times> 'o" where
  "drain_rows send mark_sent mark_failed mid cancelled i [] log sent s = (log, sent, DrainDone, s)"
| "drain_rows send mark_sent mark_failed mid cancelled i (m # ms) log sent s =
     (if i > 0 \<and> cancelled i then (log, sent, DrainCancelled, s)
      else case send m s of
        Inl reason \<Rightarrow>
          (case mark_failed m reason (mid i s) of
             None \<Rightarrow> (log, sent, DrainUnrecorded, mid i s)
           | Some s \<Rightarrow> drain_rows send mark_sent mark_failed mid cancelled (Suc i) ms log sent s)
      | Inr r \<Rightarrow>
          (case mark_sent m r (mid i s) of
             None \<Rightarrow> (log @ [m], sent, DrainUnrecorded, mid i s)
           | Some s \<Rightarrow> drain_rows send mark_sent mark_failed mid cancelled (Suc i) ms (log @ [m]) (Suc sent) s))"

record 'b Quote =
  qt_StanzaID :: string
  qt_FromMe :: bool
  qt_Participant :: string
  qt_Body :: 'b
  qt_Kind :: string

section \<open>What every outbox promises\<close>

text \<open>A course of events: steps of everybody else, and drains that did not stop at an outcome they could not record. The list
  is what WhatsApp accepted.\<close>

inductive traffic :: "('s \<Rightarrow> 's \<Rightarrow> bool) \<Rightarrow> ('s \<Rightarrow> 'm list \<Rightarrow> 's \<Rightarrow> bool) \<Rightarrow> 's \<Rightarrow> 'm list \<Rightarrow> 's \<Rightarrow> bool"
  for step drain s where
  start: "traffic step drain s [] s"
| other: "traffic step drain s log t \<Longrightarrow> step t t' \<Longrightarrow> traffic step drain s log t'"
| drained: "traffic step drain s log t \<Longrightarrow> drain t l t' \<Longrightarrow> traffic step drain s (log @ l) t'"

definition calm :: "('s \<Rightarrow> bool) \<Rightarrow> ('s \<Rightarrow> 's \<Rightarrow> bool) \<Rightarrow> (nat \<Rightarrow> 's \<Rightarrow> 's) \<Rightarrow> bool" where
  "calm ok step mid \<longleftrightarrow> (\<forall>i s. ok s \<longrightarrow> step\<^sup>*\<^sup>* s (mid i s))"

locale outbox =
  fixes ok :: "'s \<Rightarrow> bool" and step :: "'s \<Rightarrow> 's \<Rightarrow> bool" and queued :: "'s \<Rightarrow> uuid set" and known :: "'s \<Rightarrow> uuid set"
    and key :: "'m \<Rightarrow> uuid" and claim :: "int \<Rightarrow> 's \<Rightarrow> 'm list"
    and mark_sent :: "'m \<Rightarrow> 'r \<Rightarrow> 's \<Rightarrow> 's option" and mark_failed :: "'m \<Rightarrow> string \<Rightarrow> 's \<Rightarrow> 's option"
  assumes step_ok: "step s s' \<Longrightarrow> ok s \<Longrightarrow> ok s'"
    and step_known: "step s s' \<Longrightarrow> ok s \<Longrightarrow> known s \<subseteq> known s'"
    and step_queued: "step s s' \<Longrightarrow> ok s \<Longrightarrow> queued s' \<inter> known s \<subseteq> queued s"
    and queued_known: "queued s \<subseteq> known s"
    and claimed: "ok s \<Longrightarrow> distinct (map key (claim limit s)) \<and> key ` set (claim limit s) \<subseteq> queued s"
    and sent: "mark_sent m r s = Some s' \<Longrightarrow> ok s \<Longrightarrow> step\<^sup>*\<^sup>* s s' \<and> key m \<notin> queued s'"
    and failed: "mark_failed m e s = Some s' \<Longrightarrow> ok s \<Longrightarrow> step\<^sup>*\<^sup>* s s' \<and> key m \<notin> queued s'"
begin

lemma steps:
  assumes "step\<^sup>*\<^sup>* s s'" "ok s"
  shows "ok s' \<and> known s \<subseteq> known s' \<and> queued s' \<inter> known s \<subseteq> queued s"
  using assms
proof (induction rule: rtranclp_induct)
  case (step t u)
  then show ?case using step_ok [OF step(2)] step_known [OF step(2)] step_queued [OF step(2)] by blast
qed simp

lemma dead_stay:
  assumes "step\<^sup>*\<^sup>* s s'" "ok s" "K \<subseteq> known s" "K \<inter> queued s = {}"
  shows "K \<subseteq> known s' \<and> K \<inter> queued s' = {}"
  using steps [OF assms(1,2)] assms(3,4) by blast

lemma rows:
  assumes "ok s" "calm ok step mid" "key ` set ms \<subseteq> known s"
    and "drain_rows send mark_sent mark_failed mid cancelled i ms log n s = (log', n', e, s')"
  shows "\<exists>l. log' = log @ l \<and> subseq l ms \<and> step\<^sup>*\<^sup>* s s'
    \<and> (e \<noteq> DrainUnrecorded \<longrightarrow> key ` set l \<inter> queued s' = {} \<and> n' = n + length l)
    \<and> (e = DrainDone \<longrightarrow> key ` set ms \<inter> queued s' = {})"
  using assms(1,3,4)
proof (induction ms arbitrary: i log n s)
  case (Cons m ms)
  have mid: "step\<^sup>*\<^sup>* s (mid i s)" using assms(2) Cons.prems(1) by (simp add: calm_def)
  have ok_mid: "ok (mid i s)" and known_mid: "key ` set (m # ms) \<subseteq> known (mid i s)"
    using steps [OF mid Cons.prems(1)] Cons.prems(2) by blast+
  consider "i > 0 \<and> cancelled i"
    | r where "\<not> (i > 0 \<and> cancelled i)" "send m s = Inl r" "mark_failed m r (mid i s) = None"
    | r t where "\<not> (i > 0 \<and> cancelled i)" "send m s = Inl r" "mark_failed m r (mid i s) = Some t"
    | r where "\<not> (i > 0 \<and> cancelled i)" "send m s = Inr r" "mark_sent m r (mid i s) = None"
    | r t where "\<not> (i > 0 \<and> cancelled i)" "send m s = Inr r" "mark_sent m r (mid i s) = Some t"
    by (metis not_None_eq old.sum.exhaust)
  then show ?case
  proof cases
    case 1
    then show ?thesis using Cons.prems(3) by simp
  next
    case 2
    then have "log' = log \<and> n' = n \<and> e = DrainUnrecorded \<and> s' = mid i s" using Cons.prems(3) by auto
    then show ?thesis using mid by simp
  next
    case (3 r t)
    then have t: "step\<^sup>*\<^sup>* (mid i s) t" "key m \<notin> queued t" using failed ok_mid by blast+
    then have "ok t" "key ` set (m # ms) \<subseteq> known t" using steps [OF t(1) ok_mid] known_mid by blast+
    moreover have "drain_rows send mark_sent mark_failed mid cancelled (Suc i) ms log n t = (log', n', e, s')"
      using Cons.prems(3) 3 by auto
    ultimately obtain l where l: "log' = log @ l" "subseq l ms" "step\<^sup>*\<^sup>* t s'"
      "e \<noteq> DrainUnrecorded \<longrightarrow> key ` set l \<inter> queued s' = {} \<and> n' = n + length l"
      "e = DrainDone \<longrightarrow> key ` set ms \<inter> queued s' = {}"
      using Cons.IH [of t "Suc i" log n] by auto
    have "key m \<notin> queued s'"
      using dead_stay [OF l(3) \<open>ok t\<close>, of "{key m}"] t(2) \<open>key ` set (m # ms) \<subseteq> known t\<close> by auto
    then show ?thesis using l mid t(1) by (intro exI [of _ l]) auto
  next
    case (4 r)
    then have "log' = log @ [m] \<and> n' = n \<and> e = DrainUnrecorded \<and> s' = mid i s" using Cons.prems(3) by auto
    then show ?thesis using mid by (intro exI [of _ "[m]"]) simp
  next
    case (5 r t)
    then have t: "step\<^sup>*\<^sup>* (mid i s) t" "key m \<notin> queued t" using sent ok_mid by blast+
    then have "ok t" "key ` set (m # ms) \<subseteq> known t" using steps [OF t(1) ok_mid] known_mid by blast+
    moreover have "drain_rows send mark_sent mark_failed mid cancelled (Suc i) ms (log @ [m]) (Suc n) t = (log', n', e, s')"
      using Cons.prems(3) 5 by auto
    ultimately obtain l where l: "log' = (log @ [m]) @ l" "subseq l ms" "step\<^sup>*\<^sup>* t s'"
      "e \<noteq> DrainUnrecorded \<longrightarrow> key ` set l \<inter> queued s' = {} \<and> n' = Suc n + length l"
      "e = DrainDone \<longrightarrow> key ` set ms \<inter> queued s' = {}"
      using Cons.IH [of t "Suc i" "log @ [m]" "Suc n"] by auto
    have "key m \<notin> queued s'"
      using dead_stay [OF l(3) \<open>ok t\<close>, of "{key m}"] t(2) \<open>key ` set (m # ms) \<subseteq> known t\<close> by auto
    then show ?thesis using l mid t(1) by (intro exI [of _ "m # l"]) auto
  qed
qed simp


lemma drains:
  assumes "ok s" "calm ok step mid"
    and "drain_rows send mark_sent mark_failed mid cancelled 0 (claim limit s) [] 0 s = (l, n, e, s')"
  shows "distinct (map key l) \<and> set l \<subseteq> set (claim limit s) \<and> step\<^sup>*\<^sup>* s s'
    \<and> (e \<noteq> DrainUnrecorded \<longrightarrow> key ` set l \<inter> queued s' = {} \<and> n = length l)
    \<and> (e = DrainDone \<longrightarrow> key ` set (claim limit s) \<inter> queued s' = {})"
proof -
  have c: "distinct (map key (claim limit s))" "key ` set (claim limit s) \<subseteq> known s"
    using claimed [OF assms(1)] queued_known by blast+
  obtain l' where l': "l = [] @ l'" "subseq l' (claim limit s)" "step\<^sup>*\<^sup>* s s'"
    "e \<noteq> DrainUnrecorded \<longrightarrow> key ` set l' \<inter> queued s' = {} \<and> n = 0 + length l'"
    "e = DrainDone \<longrightarrow> key ` set (claim limit s) \<inter> queued s' = {}"
    using rows [OF assms(1,2) c(2) assms(3)] by blast
  have "subseq (map key l') (map key (claim limit s))" using l'(2) by (rule subseq_map)
  then have "distinct (map key l')" using c(1) by (auto simp: subseq_conv_nths)
  moreover have "set l' \<subseteq> set (claim limit s)" using l'(2) by (auto simp: subseq_conv_nths dest: in_set_nthsD)
  ultimately show ?thesis using l' by simp
qed

lemma never_twice:
  assumes "traffic step drain s log t" "ok s"
    and "\<And>s l s'. ok s \<Longrightarrow> drain s l s' \<Longrightarrow> \<exists>send mid cancelled limit n e. calm ok step mid \<and> e \<noteq> DrainUnrecorded
      \<and> drain_rows send mark_sent mark_failed mid cancelled 0 (claim limit s) [] 0 s = (l, n, e, s')"
  shows "ok t \<and> distinct (map key log) \<and> key ` set log \<subseteq> known t \<and> key ` set log \<inter> queued t = {}"
  using assms(1)
proof (induction rule: traffic.induct)
  case start
  then show ?case using assms(2) by simp
next
  case (other log t t')
  then show ?case using steps [of t t'] dead_stay [of t t' "key ` set log"] by blast
next
  case (drained log t l t')
  have ok: "ok t" using drained.IH by simp
  obtain send mid cancelled limit n e where d: "calm ok step mid" "e \<noteq> DrainUnrecorded"
    "drain_rows send mark_sent mark_failed mid cancelled 0 (claim limit t) [] 0 t = (l, n, e, t')"
    using assms(3) [OF ok drained.hyps(2)] by blast
  have l: "distinct (map key l)" "set l \<subseteq> set (claim limit t)" "step\<^sup>*\<^sup>* t t'" "key ` set l \<inter> queued t' = {}"
    using drains [OF ok d(1,3)] d(2) by simp_all
  have q: "key ` set l \<subseteq> queued t" using l(2) claimed [OF ok] by blast
  then have "key ` set log \<inter> key ` set l = {}" using drained.IH by blast
  moreover have "key ` set l \<subseteq> known t'" using q queued_known steps [OF l(3) ok] by blast
  moreover have "key ` set log \<subseteq> known t' \<and> key ` set log \<inter> queued t' = {}"
    using dead_stay [OF l(3) ok] drained.IH by blast
  ultimately show ?case using l drained.IH steps [OF l(3) ok] by auto
qed

end


section \<open>Rows that nobody queues again\<close>

definition waiting :: "('m \<Rightarrow> uuid) \<Rightarrow> ('m \<Rightarrow> bool) \<Rightarrow> 'm list \<Rightarrow> uuid set" where
  "waiting key q ms = key ` {m \<in> set ms. q m}"

definition settled_stay :: "('m \<Rightarrow> uuid) \<Rightarrow> ('m \<Rightarrow> bool) \<Rightarrow> 'm list \<Rightarrow> 'm list \<Rightarrow> bool" where
  "settled_stay key q ms ms' \<longleftrightarrow> key ` set ms \<subseteq> key ` set ms' \<and> waiting key q ms' \<inter> key ` set ms \<subseteq> waiting key q ms"

lemma kept_refl [simp, intro]: "settled_stay key q ms ms"
  by (auto simp: settled_stay_def)

lemma kept_snoc: "key m \<notin> key ` set ms \<Longrightarrow> settled_stay key q ms (ms @ [m])"
  by (auto simp: settled_stay_def waiting_def)

lemma kept_append: "key ` set ns \<inter> key ` set ms = {} \<Longrightarrow> settled_stay key q ms (ms @ ns)"
  by (auto simp: settled_stay_def waiting_def)

lemma kept_update:
  assumes "\<And>m. key (f m) = key m" "\<And>m. q (f m) \<Longrightarrow> q m"
  shows "settled_stay key q ms (update_where P f ms)"
proof -
  have "map key (update_where P f ms) = map key ms" by (rule map_update_where) (rule assms(1))
  then have "key ` set (update_where P f ms) = key ` set ms" by (metis list.set_map)
  moreover have "waiting key q (update_where P f ms) \<subseteq> waiting key q ms"
    using assms by (auto simp: waiting_def set_update_where split: if_splits)
  ultimately show ?thesis by (auto simp: settled_stay_def)
qed

lemma update_settles:
  assumes "\<And>m. key (f m) = key m" "\<And>m. \<not> q (f m)"
  shows "i \<notin> waiting key q (update_where (\<lambda>m. key m = i) f ms)"
  using assms by (auto simp: waiting_def set_update_where split: if_splits)

lemma waiting_known: "waiting key q ms \<subseteq> key ` set ms"
  by (auto simp: waiting_def)

lemma kept_trans:
  assumes "settled_stay key q ms ns" "settled_stay key q ns os"
  shows "settled_stay key q ms os"
proof -
  have sets: "A \<subseteq> C \<and> U \<inter> A \<subseteq> V" if "A \<subseteq> B \<and> W \<inter> A \<subseteq> V" "B \<subseteq> C \<and> U \<inter> B \<subseteq> W" for A B C U V W :: "uuid set"
    using that by blast
  show ?thesis unfolding settled_stay_def by (rule sets [OF assms [unfolded settled_stay_def]])
qed

lemma take_sorted:
  assumes "distinct (map key xs)"
  shows "distinct (map key (take n (sort_key f xs))) \<and> set (take n (sort_key f xs)) \<subseteq> set xs"
proof -
  have "set (take n (sort_key f xs)) \<subseteq> set xs" by (metis set_sort set_take_subset)
  moreover have "distinct (take n (sort_key f xs))" using assms by (auto simp: distinct_map intro!: distinct_take)
  ultimately show ?thesis using assms by (auto simp: distinct_map inj_on_def)
qed

lemma claimed_rows:
  assumes "distinct (map key ms)" "\<And>m. P m \<Longrightarrow> q m"
  shows "distinct (map key (take n (sort_key f (filter P ms)))) \<and>
    key ` set (take n (sort_key f (filter P ms))) \<subseteq> waiting key q ms"
  using take_sorted [of key "filter P ms" n f] assms by (auto simp: waiting_def distinct_map_filter)

end
