(* ===== verification/CsInbox.thy ===== *)
theory CsInbox
  imports GoStrings "HOL-Library.Multiset"
begin

text \<open>
  The WhatsApp inbox: threads (\<open>services/cs_conversation_service.go\<close>), their messages
  (\<open>services/cs_message_service.go\<close>, \<open>cs_message_phone.go\<close>, \<open>cs_message_fields.go\<close>, \<open>cs_message_quote.go\<close>,
  \<open>cs_message_duplicate.go\<close>) and how long customers wait (\<open>services/cs_wait.go\<close>), over the three tables and
  the indexes and checks of migrations 41 and 52. A transaction is one step; the look-up of \<open>saveArrived\<close>
  may see an older table than its insert does. Identifiers are random and the clock is read by the
  caller, so both are arguments. \<open>None\<close> is the error of a wait step, which its savepoint undoes.
\<close>

section \<open>Tables\<close>

datatype ConversationStatus = ConversationUnassigned | ConversationOpen | ConversationClosed
datatype MessageDirection = MessageIn | MessageOut
datatype MessageStatus = MessageQueued | MessageSent | MessageDelivered | MessageRead | MessageFailed
datatype WaitEndReason = WaitReplied | WaitPhone | WaitClosed | WaitAbandoned

record CSConversation =
  cv_ID :: uuid
  cv_WAAccountID :: uuid
  cv_CustomerJID :: string
  cv_CustomerPhone :: string
  cv_CustomerName :: string
  cv_AssignedUserID :: "uuid option"
  cv_Status :: ConversationStatus
  cv_ONTID :: "uuid option"
  cv_LastMessageAt :: time
  cv_LastMessageDirection :: "MessageDirection option"
  cv_UnreadCount :: int

record MediaFile =
  mf_Path :: string
  mf_Mime :: string
  mf_Filename :: string
  mf_Size :: int

record Preview =
  pv_URL :: string
  pv_Title :: string
  pv_Description :: string
  pv_Thumbnail :: bytes

record CSMessage =
  mg_ID :: uuid
  mg_ConversationID :: uuid
  mg_WAMessageID :: "string option"
  mg_Direction :: MessageDirection
  mg_SenderUserID :: "uuid option"
  mg_Kind :: string
  mg_Body :: string
  mg_Media :: "MediaFile option"
  mg_Status :: MessageStatus
  mg_FailReason :: string
  mg_ReplyToID :: "uuid option"
  mg_Preview :: "Preview option"
  mg_WATimestamp :: time
  mg_CreatedAt :: time

record CSWait =
  wt_ID :: uuid
  wt_ConversationID :: uuid
  wt_WAAccountID :: uuid
  wt_StartedAt :: time
  wt_CustomerSentAt :: time
  wt_LastCustomerSentAt :: time
  wt_EndedAt :: "time option"
  wt_EndReason :: "WaitEndReason option"
  wt_EndedBy :: "uuid option"
  wt_ReplyMessageID :: "uuid option"

record inbox =
  ib_conversations :: "CSConversation list"
  ib_messages :: "CSMessage list"
  ib_waits :: "CSWait list"

section \<open>Waits\<close>

definition csCustomerSilence :: duration where
  "csCustomerSilence = 24 * hour"

text \<open>Migration 52: how a wait ended decides who ended it, and a thread waits on one thing at a time.\<close>

definition wait_row_ok :: "CSWait \<Rightarrow> bool" where
  "wait_row_ok w \<longleftrightarrow>
     (wt_EndedAt w = None \<longleftrightarrow> wt_EndReason w = None) \<and>
     (case wt_EndReason w of
        Some WaitReplied \<Rightarrow> wt_EndedBy w \<noteq> None \<and> wt_ReplyMessageID w \<noteq> None
      | Some WaitPhone \<Rightarrow> wt_EndedBy w = None \<and> wt_ReplyMessageID w \<noteq> None
      | Some WaitClosed \<Rightarrow> wt_EndedBy w \<noteq> None \<and> wt_ReplyMessageID w = None
      | _ \<Rightarrow> wt_EndedBy w = None \<and> wt_ReplyMessageID w = None)"

definition open_on :: "uuid \<Rightarrow> CSWait \<Rightarrow> bool" where
  "open_on c w \<longleftrightarrow> wt_ConversationID w = c \<and> wt_EndedAt w = None"

definition waits_ok :: "CSWait list \<Rightarrow> bool" where
  "waits_ok ws \<longleftrightarrow>
     list_all wait_row_ok ws \<and> distinct (map wt_ConversationID (filter (\<lambda>w. wt_EndedAt w = None) ws))"

definition write_waits :: "CSWait list \<Rightarrow> inbox \<Rightarrow> inbox option" where
  "write_waits ws s = (if waits_ok ws then Some (s\<lparr>ib_waits := ws\<rparr>) else None)"

definition record_wait :: "(inbox \<Rightarrow> inbox option) \<Rightarrow> inbox \<Rightarrow> inbox" where
  "record_wait f s = (case f s of None \<Rightarrow> s | Some s' \<Rightarrow> s')"

definition extendable :: "uuid \<Rightarrow> time \<Rightarrow> CSWait \<Rightarrow> bool" where
  "extendable c at w \<longleftrightarrow> open_on c w \<and> wt_LastCustomerSentAt w \<ge> at - csCustomerSilence"

definition extendOpenWait :: "CSMessage \<Rightarrow> inbox \<Rightarrow> (bool \<times> inbox) option" where
  "extendOpenWait m s =
     (let hit = extendable (mg_ConversationID m) (mg_WATimestamp m)
      in map_option (\<lambda>s'. (list_ex hit (ib_waits s), s'))
           (write_waits
             (update_where hit
               (\<lambda>w. w\<lparr>wt_LastCustomerSentAt :=
                  (if wt_LastCustomerSentAt w < mg_WATimestamp m then mg_WATimestamp m else wt_LastCustomerSentAt w)\<rparr>)
               (ib_waits s)) s))"

definition endOpenWait ::
  "uuid \<Rightarrow> WaitEndReason \<Rightarrow> time \<Rightarrow> uuid option \<Rightarrow> uuid option \<Rightarrow> inbox \<Rightarrow> (bool \<times> inbox) option" where
  "endOpenWait c reason at endedBy reply s =
     map_option (\<lambda>s'. (list_ex (open_on c) (ib_waits s), s'))
       (write_waits
         (update_where (open_on c)
           (\<lambda>w. w\<lparr>wt_EndedAt := Some at, wt_EndReason := Some reason, wt_EndedBy := endedBy, wt_ReplyMessageID := reply\<rparr>)
           (ib_waits s)) s)"

definition find_conversation :: "uuid \<Rightarrow> inbox \<Rightarrow> CSConversation option" where
  "find_conversation c s = find (\<lambda>v. cv_ID v = c) (ib_conversations s)"

definition openWait :: "uuid \<Rightarrow> uuid \<Rightarrow> time \<Rightarrow> time \<Rightarrow> time \<Rightarrow> inbox \<Rightarrow> inbox option" where
  "openWait newid c startedAt sentAt lastSentAt s =
     (case find_conversation c s of
        None \<Rightarrow> None
      | Some v \<Rightarrow>
          write_waits
            (ib_waits s @
               [\<lparr>wt_ID = newid, wt_ConversationID = c, wt_WAAccountID = cv_WAAccountID v, wt_StartedAt = startedAt,
                 wt_CustomerSentAt = sentAt, wt_LastCustomerSentAt = lastSentAt, wt_EndedAt = None, wt_EndReason = None,
                 wt_EndedBy = None, wt_ReplyMessageID = None\<rparr>]) s)"

definition customerWrote :: "uuid \<Rightarrow> CSMessage \<Rightarrow> inbox \<Rightarrow> inbox option" where
  "customerWrote newid m s =
     (case extendOpenWait m s of
        None \<Rightarrow> None
      | Some (extended, s) \<Rightarrow>
          if extended then Some s
          else (case endOpenWait (mg_ConversationID m) WaitAbandoned (mg_CreatedAt m) None None s of
                  None \<Rightarrow> None
                | Some (_, s) \<Rightarrow>
                    openWait newid (mg_ConversationID m) (mg_CreatedAt m) (mg_WATimestamp m) (mg_WATimestamp m) s))"

definition replied :: "CSMessage \<Rightarrow> inbox \<Rightarrow> inbox option" where
  "replied m s =
     map_option snd
       (endOpenWait (mg_ConversationID m) WaitReplied (mg_WATimestamp m) (mg_SenderUserID m) (Some (mg_ID m)) s)"

definition later_messages :: "uuid \<Rightarrow> time \<Rightarrow> inbox \<Rightarrow> CSMessage list" where
  "later_messages c after_at s =
     sort_key mg_WATimestamp
       (filter (\<lambda>m. mg_ConversationID m = c \<and> mg_Direction m = MessageIn \<and> mg_WATimestamp m > after_at) (ib_messages s))"

definition reopenAfter :: "uuid \<Rightarrow> uuid \<Rightarrow> time \<Rightarrow> inbox \<Rightarrow> inbox option" where
  "reopenAfter newid c after_at s =
     (let later = later_messages c after_at s
      in if later = [] then Some s
         else openWait newid c (mg_CreatedAt (hd later)) (mg_WATimestamp (hd later)) (mg_WATimestamp (last later)) s)"

definition answeredFromPhone :: "uuid \<Rightarrow> CSMessage \<Rightarrow> inbox \<Rightarrow> inbox option" where
  "answeredFromPhone newid m s =
     (case find (open_on (mg_ConversationID m)) (ib_waits s) of
        None \<Rightarrow> Some s
      | Some w \<Rightarrow>
          if mg_WATimestamp m < wt_CustomerSentAt w then Some s
          else (let endedAt = (if mg_WATimestamp m < wt_StartedAt w then wt_StartedAt w else mg_WATimestamp m)
                in (case endOpenWait (mg_ConversationID m) WaitPhone endedAt None (Some (mg_ID m)) s of
                      None \<Rightarrow> None
                    | Some (endedWait, s) \<Rightarrow>
                        if \<not> endedWait then Some s
                        else reopenAfter newid (mg_ConversationID m) (mg_WATimestamp m) s)))"

definition closedWithoutReply :: "uuid \<Rightarrow> uuid \<Rightarrow> time \<Rightarrow> inbox \<Rightarrow> inbox option" where
  "closedWithoutReply c closedBy at s = map_option snd (endOpenWait c WaitClosed at (Some closedBy) None s)"

section \<open>Threads\<close>

record IncomingPeer =
  ip_WAAccountID :: uuid
  ip_JID :: string
  ip_Phone :: string
  ip_Name :: string

definition minPhoneDigits :: nat where "minPhoneDigits = 10"
definition maxStoredPhone :: nat where "maxStoredPhone = 20"

definition NormalizePhone :: "string \<Rightarrow> string option" where
  "NormalizePhone raw =
     (let n = filter is_digit raw
      in case (if HasPrefix n ''0'' then Some (''62'' @ TrimPrefix n ''0'')
               else if HasPrefix n ''62'' then Some n else None) of
           None \<Rightarrow> None
         | Some n \<Rightarrow> if length n < minPhoneDigits then None else Some n)"

definition stored_phone :: "string \<Rightarrow> string" where
  "stored_phone raw = (case NormalizePhone raw of Some p \<Rightarrow> p | None \<Rightarrow> take maxStoredPhone (TrimSpace raw))"

definition set_conversations :: "(CSConversation \<Rightarrow> bool) \<Rightarrow> (CSConversation \<Rightarrow> CSConversation) \<Rightarrow> inbox \<Rightarrow> inbox" where
  "set_conversations P f s = s\<lparr>ib_conversations := update_where P f (ib_conversations s)\<rparr>"

definition FindByPeer :: "uuid \<Rightarrow> string \<Rightarrow> inbox \<Rightarrow> CSConversation option" where
  "FindByPeer a jid s = find (\<lambda>v. cv_WAAccountID v = a \<and> cv_CustomerJID v = jid) (ib_conversations s)"

text \<open>\<open>owner\<close> is what the table of ONTs answers for a phone number.\<close>

definition FindOrCreate ::
  "(string \<Rightarrow> uuid option) \<Rightarrow> uuid \<Rightarrow> time \<Rightarrow> IncomingPeer \<Rightarrow> inbox \<Rightarrow> CSConversation option \<times> inbox" where
  "FindOrCreate owner newid now p s =
     (case FindByPeer (ip_WAAccountID p) (ip_JID p) s of
        None \<Rightarrow>
          (let v = \<lparr>cv_ID = newid, cv_WAAccountID = ip_WAAccountID p, cv_CustomerJID = ip_JID p,
                    cv_CustomerPhone = stored_phone (ip_Phone p), cv_CustomerName = ip_Name p, cv_AssignedUserID = None,
                    cv_Status = ConversationUnassigned, cv_ONTID = owner (stored_phone (ip_Phone p)),
                    cv_LastMessageAt = now, cv_LastMessageDirection = None, cv_UnreadCount = 0\<rparr>
           in (Some v, s\<lparr>ib_conversations := ib_conversations s @ [v]\<rparr>))
      | Some v \<Rightarrow>
          (let s = set_conversations (\<lambda>x. cv_ID x = cv_ID v)
                     (\<lambda>x. x\<lparr>cv_CustomerName := (if ip_Name p \<noteq> [] \<and> ip_Name p \<noteq> cv_CustomerName v then ip_Name p
                                               else cv_CustomerName x),
                           cv_Status := (if cv_Status v = ConversationClosed then ConversationUnassigned else cv_Status x),
                           cv_AssignedUserID := (if cv_Status v = ConversationClosed then None else cv_AssignedUserID x)\<rparr>) s
           in (find_conversation (cv_ID v) s, s)))"

definition updateConversation :: "uuid \<Rightarrow> (CSConversation \<Rightarrow> CSConversation) \<Rightarrow> inbox \<Rightarrow> inbox option" where
  "updateConversation c f s =
     (if find_conversation c s = None then None else Some (set_conversations (\<lambda>v. cv_ID v = c) f s))"

definition Assign :: "uuid \<Rightarrow> uuid \<Rightarrow> inbox \<Rightarrow> inbox option" where
  "Assign c holder = updateConversation c (\<lambda>v. v\<lparr>cv_AssignedUserID := Some holder, cv_Status := ConversationOpen\<rparr>)"

definition Close :: "uuid \<Rightarrow> uuid \<Rightarrow> time \<Rightarrow> inbox \<Rightarrow> inbox option" where
  "Close c closedBy now s =
     map_option (record_wait (closedWithoutReply c closedBy now))
       (updateConversation c (\<lambda>v. v\<lparr>cv_Status := ConversationClosed\<rparr>) s)"

definition LinkONT :: "uuid \<Rightarrow> uuid option \<Rightarrow> inbox \<Rightarrow> inbox option" where
  "LinkONT c ont = updateConversation c (\<lambda>v. v\<lparr>cv_ONTID := ont\<rparr>)"

definition MarkRead :: "uuid \<Rightarrow> inbox \<Rightarrow> bool \<times> inbox" where
  "MarkRead c s =
     (let hit = (\<lambda>v. cv_ID v = c \<and> cv_UnreadCount v > 0)
      in (list_ex hit (ib_conversations s), set_conversations hit (\<lambda>v. v\<lparr>cv_UnreadCount := 0\<rparr>) s))"

datatype inbox_error = ErrNotFound | ErrNotHolder | ErrQuoteNotInThread | ErrQuoteNotSent

definition EnsureHolder :: "uuid \<Rightarrow> uuid \<Rightarrow> inbox \<Rightarrow> inbox_error option" where
  "EnsureHolder c user s =
     (case find_conversation c s of
        None \<Rightarrow> Some ErrNotFound
      | Some v \<Rightarrow> if cv_AssignedUserID v = Some user then None else Some ErrNotHolder)"

definition ClaimForReply :: "uuid \<Rightarrow> uuid \<Rightarrow> inbox \<Rightarrow> (inbox_error + bool) \<times> inbox" where
  "ClaimForReply c user s =
     (let hit = (\<lambda>v. cv_ID v = c \<and> cv_Status v = ConversationUnassigned)
      in if list_ex hit (ib_conversations s)
         then (Inr True, set_conversations hit
                           (\<lambda>v. v\<lparr>cv_AssignedUserID := Some user, cv_Status := ConversationOpen\<rparr>) s)
         else (case EnsureHolder c user s of Some e \<Rightarrow> (Inl e, s) | None \<Rightarrow> (Inr False, s)))"

section \<open>Messages\<close>

record InboundMessage =
  in_ConversationID :: uuid
  in_WAMessageID :: string
  in_Kind :: string
  in_Body :: string
  in_Media :: "MediaFile option"
  in_At :: time
  in_ReplyToWAID :: string
  in_Preview :: "Preview option"

definition message_by_waid :: "string \<Rightarrow> inbox \<Rightarrow> CSMessage option" where
  "message_by_waid waid s = find (\<lambda>m. mg_WAMessageID m = Some waid) (ib_messages s)"

definition quotedRow :: "uuid \<Rightarrow> string \<Rightarrow> inbox \<Rightarrow> uuid option" where
  "quotedRow c waid s =
     (if waid = [] then None
      else map_option mg_ID (find (\<lambda>m. mg_WAMessageID m = Some waid \<and> mg_ConversationID m = c) (ib_messages s)))"

definition arrivedRow ::
  "uuid \<Rightarrow> time \<Rightarrow> InboundMessage \<Rightarrow> MessageDirection \<Rightarrow> MessageStatus \<Rightarrow> inbox \<Rightarrow> CSMessage" where
  "arrivedRow newid now i direction status s =
     \<lparr>mg_ID = newid, mg_ConversationID = in_ConversationID i, mg_WAMessageID = Some (in_WAMessageID i),
      mg_Direction = direction, mg_SenderUserID = None, mg_Kind = in_Kind i, mg_Body = in_Body i, mg_Media = in_Media i,
      mg_Status = status, mg_FailReason = [], mg_ReplyToID = quotedRow (in_ConversationID i) (in_ReplyToWAID i) s,
      mg_Preview = in_Preview i, mg_WATimestamp = in_At i, mg_CreatedAt = now\<rparr>"

definition inboundRow :: "uuid \<Rightarrow> time \<Rightarrow> InboundMessage \<Rightarrow> inbox \<Rightarrow> CSMessage" where
  "inboundRow newid now i = arrivedRow newid now i MessageIn MessageDelivered"

definition phoneRow :: "uuid \<Rightarrow> time \<Rightarrow> InboundMessage \<Rightarrow> inbox \<Rightarrow> CSMessage" where
  "phoneRow newid now i = arrivedRow newid now i MessageOut MessageSent"

definition bumpConversation :: "uuid \<Rightarrow> time \<Rightarrow> inbox \<Rightarrow> inbox" where
  "bumpConversation c at =
     set_conversations (\<lambda>v. cv_ID v = c)
       (\<lambda>v. v\<lparr>cv_LastMessageAt := at, cv_LastMessageDirection := Some MessageIn, cv_UnreadCount := cv_UnreadCount v + 1\<rparr>)"

definition customerMessageStored :: "uuid \<Rightarrow> CSMessage \<Rightarrow> inbox \<Rightarrow> inbox" where
  "customerMessageStored newid m s =
     record_wait (customerWrote newid m) (bumpConversation (mg_ConversationID m) (mg_WATimestamp m) s)"

definition markAnsweredFromPhone :: "uuid \<Rightarrow> time \<Rightarrow> inbox \<Rightarrow> inbox" where
  "markAnsweredFromPhone c at =
     set_conversations (\<lambda>v. cv_ID v = c \<and> cv_LastMessageAt v \<le> at)
       (\<lambda>v. v\<lparr>cv_LastMessageAt := at, cv_LastMessageDirection := Some MessageOut, cv_UnreadCount := 0\<rparr>)"

definition phoneMessageStored :: "uuid \<Rightarrow> CSMessage \<Rightarrow> inbox \<Rightarrow> inbox" where
  "phoneMessageStored newid m s =
     record_wait (answeredFromPhone newid m) (markAnsweredFromPhone (mg_ConversationID m) (mg_WATimestamp m) s)"

text \<open>The row is stored with its thread's foreign key. \<open>seen\<close> is the table the look-up saw. The answer is the
  stored message and whether this call stored it, \<open>None\<close> an error.\<close>

definition saveArrived ::
  "string \<Rightarrow> CSMessage \<Rightarrow> (CSMessage \<Rightarrow> inbox \<Rightarrow> inbox) \<Rightarrow> inbox \<Rightarrow> inbox \<Rightarrow> (CSMessage \<times> bool) option \<times> inbox" where
  "saveArrived waid row touch seen s =
     (case message_by_waid waid seen of
        Some m \<Rightarrow> (Some (m, False), s)
      | None \<Rightarrow>
          (case message_by_waid waid s of
             Some m \<Rightarrow> (Some (m, False), s)
           | None \<Rightarrow>
               if find_conversation (mg_ConversationID row) s = None then (None, s)
               else (Some (row, True), touch row (s\<lparr>ib_messages := ib_messages s @ [row]\<rparr>))))"

definition SaveInbound ::
  "uuid \<Rightarrow> uuid \<Rightarrow> time \<Rightarrow> InboundMessage \<Rightarrow> inbox \<Rightarrow> inbox \<Rightarrow> (CSMessage \<times> bool) option \<times> inbox" where
  "SaveInbound newid waitid now i seen s =
     saveArrived (in_WAMessageID i) (inboundRow newid now i s) (customerMessageStored waitid) seen s"

definition SaveFromPhone ::
  "uuid \<Rightarrow> uuid \<Rightarrow> time \<Rightarrow> InboundMessage \<Rightarrow> inbox \<Rightarrow> inbox \<Rightarrow> (CSMessage \<times> bool) option \<times> inbox" where
  "SaveFromPhone newid waitid now i seen s =
     saveArrived (in_WAMessageID i) (phoneRow newid now i s) (phoneMessageStored waitid) seen s"

definition Queue ::
  "uuid \<Rightarrow> time \<Rightarrow> uuid \<Rightarrow> uuid \<Rightarrow> string \<Rightarrow> string \<Rightarrow> MediaFile option \<Rightarrow> uuid option \<Rightarrow> inbox
    \<Rightarrow> CSMessage option \<times> inbox" where
  "Queue newid now c sender kind body media replyTo s =
     (let m = \<lparr>mg_ID = newid, mg_ConversationID = c, mg_WAMessageID = None, mg_Direction = MessageOut,
               mg_SenderUserID = Some sender, mg_Kind = kind, mg_Body = body, mg_Media = media, mg_Status = MessageQueued,
               mg_FailReason = [], mg_ReplyToID = replyTo, mg_Preview = None, mg_WATimestamp = now, mg_CreatedAt = now\<rparr>
      in (case updateConversation c (\<lambda>v. v\<lparr>cv_LastMessageAt := now, cv_LastMessageDirection := Some MessageOut\<rparr>)
                 (s\<lparr>ib_messages := ib_messages s @ [m]\<rparr>) of
            None \<Rightarrow> (None, s)
          | Some s' \<Rightarrow> (Some m, record_wait (replied m) s')))"

definition defaultHistoryLimit :: int where "defaultHistoryLimit = 50"

definition ClaimQueued :: "uuid \<Rightarrow> int \<Rightarrow> inbox \<Rightarrow> CSMessage list" where
  "ClaimQueued account limit s =
     (let limit = (if limit \<le> 0 then defaultHistoryLimit else limit)
      in take (nat limit)
           (sort_key mg_CreatedAt
             (filter (\<lambda>m. mg_Status m = MessageQueued \<and>
                list_ex (\<lambda>v. cv_ID v = mg_ConversationID m \<and> cv_WAAccountID v = account) (ib_conversations s))
              (ib_messages s))))"

definition updateMessage :: "uuid \<Rightarrow> (CSMessage \<Rightarrow> CSMessage) \<Rightarrow> inbox \<Rightarrow> inbox option" where
  "updateMessage i f s =
     (if list_ex (\<lambda>m. mg_ID m = i) (ib_messages s)
      then Some (s\<lparr>ib_messages := update_where (\<lambda>m. mg_ID m = i) f (ib_messages s)\<rparr>) else None)"

definition MarkSent :: "uuid \<Rightarrow> string \<Rightarrow> Preview option \<Rightarrow> inbox \<Rightarrow> inbox option" where
  "MarkSent i waid preview s =
     (if list_ex (\<lambda>m. mg_ID m \<noteq> i \<and> mg_WAMessageID m = Some waid) (ib_messages s) then None
      else updateMessage i
             (\<lambda>m. m\<lparr>mg_Status := MessageSent, mg_WAMessageID := Some waid, mg_FailReason := [],
                    mg_Preview := (if preview = None then mg_Preview m else preview)\<rparr>) s)"

definition MarkFailed :: "uuid \<Rightarrow> string \<Rightarrow> inbox \<Rightarrow> inbox option" where
  "MarkFailed i reason = updateMessage i (\<lambda>m. m\<lparr>mg_Status := MessageFailed, mg_FailReason := reason\<rparr>)"

text \<open>A status without a rank reads 0 from Go's map.\<close>

fun receiptRank :: "MessageStatus \<Rightarrow> nat" where
  "receiptRank MessageQueued = 0"
| "receiptRank MessageSent = 1"
| "receiptRank MessageDelivered = 2"
| "receiptRank MessageRead = 3"
| "receiptRank MessageFailed = 0"

definition ApplyReceipt :: "string \<Rightarrow> MessageStatus \<Rightarrow> inbox \<Rightarrow> uuid option \<times> inbox" where
  "ApplyReceipt waid status s =
     (case message_by_waid waid s of
        None \<Rightarrow> (None, s)
      | Some m \<Rightarrow>
          if receiptRank status \<le> receiptRank (mg_Status m) then (None, s)
          else (case updateMessage (mg_ID m) (\<lambda>m. m\<lparr>mg_Status := status\<rparr>) s of
                  None \<Rightarrow> (None, s)
                | Some s' \<Rightarrow> (Some (mg_ConversationID m), s')))"

definition InboundAwaitingRead :: "uuid \<Rightarrow> inbox \<Rightarrow> CSMessage list" where
  "InboundAwaitingRead c s =
     sort_key mg_WATimestamp
       (filter (\<lambda>m. mg_ConversationID m = c \<and> mg_Direction m = MessageIn \<and> mg_Status m \<noteq> MessageRead \<and>
                    mg_WAMessageID m \<noteq> None) (ib_messages s))"

definition MarkInboundRead :: "uuid list \<Rightarrow> inbox \<Rightarrow> inbox" where
  "MarkInboundRead ids s =
     s\<lparr>ib_messages := update_where (\<lambda>m. mg_ID m \<in> set ids) (\<lambda>m. m\<lparr>mg_Status := MessageRead\<rparr>) (ib_messages s)\<rparr>"

definition QuoteTarget :: "uuid \<Rightarrow> uuid \<Rightarrow> inbox \<Rightarrow> inbox_error + CSMessage" where
  "QuoteTarget c i s =
     (case find (\<lambda>m. mg_ID m = i \<and> mg_ConversationID m = c) (ib_messages s) of
        None \<Rightarrow> Inl ErrQuoteNotInThread
      | Some m \<Rightarrow> if mg_WAMessageID m = None then Inl ErrQuoteNotSent else Inr m)"

text \<open>What the WhatsApp process does with a customer's message: the thread first, then the message.\<close>

definition handle_customer ::
  "(string \<Rightarrow> uuid option) \<Rightarrow> uuid \<Rightarrow> uuid \<Rightarrow> uuid \<Rightarrow> time \<Rightarrow> IncomingPeer \<Rightarrow> (uuid \<Rightarrow> InboundMessage) \<Rightarrow> inbox
    \<Rightarrow> (CSMessage \<times> bool) option \<times> inbox" where
  "handle_customer owner convid newid waitid now p i s =
     (case FindOrCreate owner convid now p s of
        (None, s) \<Rightarrow> (None, s)
      | (Some v, s) \<Rightarrow> SaveInbound newid waitid now (i (cv_ID v)) s s)"

section \<open>Waits: every step succeeds\<close>

lemma waits_ok_open: "waits_ok ws \<Longrightarrow> length (filter (open_on c) ws) \<le> 1"
proof -
  assume ok: "waits_ok ws"
  have "filter (open_on c) ws = filter (\<lambda>w. wt_ConversationID w = c) (filter (\<lambda>w. wt_EndedAt w = None) ws)"
    by (auto simp: open_on_def intro!: filter_cong)
  moreover have "distinct (map wt_ConversationID xs) \<Longrightarrow> length (filter (\<lambda>w. wt_ConversationID w = c) xs) \<le> 1" for xs
    by (induction xs) (auto simp: filter_empty_conv image_iff)
  moreover have "distinct (map wt_ConversationID (filter (\<lambda>w. wt_EndedAt w = None) ws))"
    using ok by (simp only: waits_ok_def)
  ultimately show ?thesis by metis
qed

lemma open_update:
  "(\<And>w. P w \<Longrightarrow> wt_ConversationID (f w) = wt_ConversationID w) \<Longrightarrow>
   (\<And>w. P w \<Longrightarrow> wt_EndedAt (f w) = wt_EndedAt w) \<Longrightarrow>
     map wt_ConversationID (filter (\<lambda>w. wt_EndedAt w = None) (update_where P f ws)) =
     map wt_ConversationID (filter (\<lambda>w. wt_EndedAt w = None) ws)"
  by (induction ws) auto

lemma list_all_update: "list_all Q ws \<Longrightarrow> (\<And>w. P w \<Longrightarrow> Q w \<Longrightarrow> Q (f w)) \<Longrightarrow> list_all Q (update_where P f ws)"
  by (induction ws) auto

lemma wait_row_ok_extended [simp]: "wait_row_ok (w\<lparr>wt_LastCustomerSentAt := t\<rparr>) = wait_row_ok w"
  by (auto simp: wait_row_ok_def split: option.splits WaitEndReason.splits)

lemma extend_succeeds:
  assumes "waits_ok (ib_waits s)"
  obtains ws where "extendOpenWait m s =
      Some (list_ex (extendable (mg_ConversationID m) (mg_WATimestamp m)) (ib_waits s), s\<lparr>ib_waits := ws\<rparr>)"
    "waits_ok ws" "ws = update_where (extendable (mg_ConversationID m) (mg_WATimestamp m))
        (\<lambda>w. w\<lparr>wt_LastCustomerSentAt :=
           (if wt_LastCustomerSentAt w < mg_WATimestamp m then mg_WATimestamp m else wt_LastCustomerSentAt w)\<rparr>) (ib_waits s)"
proof -
  let ?ws = "update_where (extendable (mg_ConversationID m) (mg_WATimestamp m))
        (\<lambda>w. w\<lparr>wt_LastCustomerSentAt :=
           (if wt_LastCustomerSentAt w < mg_WATimestamp m then mg_WATimestamp m else wt_LastCustomerSentAt w)\<rparr>) (ib_waits s)"
  have ok: "waits_ok ?ws"
    using assms by (auto simp: waits_ok_def open_update intro!: list_all_update)
  have "extendOpenWait m s =
      Some (list_ex (extendable (mg_ConversationID m) (mg_WATimestamp m)) (ib_waits s), s\<lparr>ib_waits := ?ws\<rparr>)"
    using ok by (simp add: extendOpenWait_def write_waits_def Let_def)
  from that [OF this ok refl] show thesis .
qed

definition reason_fits :: "WaitEndReason \<Rightarrow> uuid option \<Rightarrow> uuid option \<Rightarrow> bool" where
  "reason_fits reason by_user reply \<longleftrightarrow>
     (case reason of WaitReplied \<Rightarrow> by_user \<noteq> None \<and> reply \<noteq> None | WaitPhone \<Rightarrow> by_user = None \<and> reply \<noteq> None
                   | WaitClosed \<Rightarrow> by_user \<noteq> None \<and> reply = None | WaitAbandoned \<Rightarrow> by_user = None \<and> reply = None)"

lemma wait_row_ok_ended:
  "reason_fits reason by_user reply \<Longrightarrow>
     wait_row_ok (w\<lparr>wt_EndedAt := Some at, wt_EndReason := Some reason, wt_EndedBy := by_user, wt_ReplyMessageID := reply\<rparr>)"
  by (cases w; cases reason) (simp_all add: wait_row_ok_def reason_fits_def)

lemma distinct_open_ended:
  assumes "distinct (map wt_ConversationID (filter (\<lambda>w. wt_EndedAt w = None) ws))"
    "\<And>w. wt_EndedAt (f w) \<noteq> None"
  shows "distinct (map wt_ConversationID (filter (\<lambda>w. wt_EndedAt w = None) (update_where P f ws)))"
proof -
  have "filter (\<lambda>w. wt_EndedAt w = None) (update_where P f ws) =
      filter (\<lambda>w. \<not> P w) (filter (\<lambda>w. wt_EndedAt w = None) ws)"
    using assms(2) by (induction ws) (simp_all del: not_None_eq)
  then show ?thesis using assms(1) by (simp only: distinct_map_filter)
qed

lemma no_open_left:
  "(\<And>w. wt_EndedAt (f w) \<noteq> None) \<Longrightarrow> filter (open_on c) (update_where (open_on c) f ws) = []"
  by (induction ws) (simp_all add: open_on_def del: not_None_eq)

lemma end_succeeds:
  assumes "waits_ok (ib_waits s)" "reason_fits reason by_user reply"
  obtains ws where "endOpenWait c reason at by_user reply s = Some (list_ex (open_on c) (ib_waits s), s\<lparr>ib_waits := ws\<rparr>)"
    "waits_ok ws" "filter (open_on c) ws = []"
    "ws = update_where (open_on c)
       (\<lambda>w. w\<lparr>wt_EndedAt := Some at, wt_EndReason := Some reason, wt_EndedBy := by_user, wt_ReplyMessageID := reply\<rparr>) (ib_waits s)"
proof -
  let ?ws = "update_where (open_on c)
       (\<lambda>w. w\<lparr>wt_EndedAt := Some at, wt_EndReason := Some reason, wt_EndedBy := by_user, wt_ReplyMessageID := reply\<rparr>) (ib_waits s)"
  have "list_all wait_row_ok ?ws"
    by (rule list_all_update) (use assms in \<open>simp_all add: waits_ok_def wait_row_ok_ended\<close>)
  moreover have "distinct (map wt_ConversationID (filter (\<lambda>w. wt_EndedAt w = None) ?ws))"
    by (rule distinct_open_ended) (use assms(1) in \<open>simp_all add: waits_ok_def\<close>)
  ultimately have ok: "waits_ok ?ws" by (simp add: waits_ok_def)
  have none: "filter (open_on c) ?ws = []"
    by (rule no_open_left) simp
  have "endOpenWait c reason at by_user reply s = Some (list_ex (open_on c) (ib_waits s), s\<lparr>ib_waits := ?ws\<rparr>)"
    unfolding endOpenWait_def write_waits_def if_P [OF ok] by simp
  from that [OF this ok none refl] show thesis .
qed

lemma openWait_succeeds:
  assumes "waits_ok (ib_waits s)" "find_conversation c s = Some v" "filter (open_on c) (ib_waits s) = []"
  obtains w where "openWait newid c startedAt sentAt lastSentAt s = Some (s\<lparr>ib_waits := ib_waits s @ [w]\<rparr>)"
    "waits_ok (ib_waits s @ [w])" "open_on c w" "wt_StartedAt w = startedAt" "wt_CustomerSentAt w = sentAt"
    "wt_LastCustomerSentAt w = lastSentAt"
proof -
  let ?w = "\<lparr>wt_ID = newid, wt_ConversationID = c, wt_WAAccountID = cv_WAAccountID v, wt_StartedAt = startedAt,
    wt_CustomerSentAt = sentAt, wt_LastCustomerSentAt = lastSentAt, wt_EndedAt = None, wt_EndReason = None,
    wt_EndedBy = None, wt_ReplyMessageID = None\<rparr>"
  have "waits_ok (ib_waits s @ [?w])"
    using assms(1, 3) by (auto simp: waits_ok_def wait_row_ok_def filter_empty_conv open_on_def)
  then show thesis using that [of ?w] assms(2) by (simp add: openWait_def write_waits_def open_on_def)
qed

text \<open>A customer's message leaves his thread with exactly one open wait, as recent as the message.\<close>

lemma customerWrote_succeeds:
  assumes "waits_ok (ib_waits s)" "find_conversation (mg_ConversationID m) s = Some v"
  obtains ws w where "customerWrote newid m s = Some (s\<lparr>ib_waits := ws\<rparr>)" "waits_ok ws"
    "filter (open_on (mg_ConversationID m)) ws = [w]" "mg_WATimestamp m \<le> wt_LastCustomerSentAt w"
proof -
  let ?c = "mg_ConversationID m"
  obtain ws1 where e: "extendOpenWait m s = Some (list_ex (extendable ?c (mg_WATimestamp m)) (ib_waits s), s\<lparr>ib_waits := ws1\<rparr>)"
    "waits_ok ws1" "ws1 = update_where (extendable ?c (mg_WATimestamp m))
        (\<lambda>w. w\<lparr>wt_LastCustomerSentAt :=
           (if wt_LastCustomerSentAt w < mg_WATimestamp m then mg_WATimestamp m else wt_LastCustomerSentAt w)\<rparr>) (ib_waits s)"
    by (rule extend_succeeds [OF assms(1)])
  show thesis
  proof (cases "list_ex (extendable ?c (mg_WATimestamp m)) (ib_waits s)")
    case True
    then obtain w0 where w0: "w0 \<in> set (ib_waits s)" "extendable ?c (mg_WATimestamp m) w0" by (auto simp: list_ex_iff)
    let ?w = "w0\<lparr>wt_LastCustomerSentAt :=
           (if wt_LastCustomerSentAt w0 < mg_WATimestamp m then mg_WATimestamp m else wt_LastCustomerSentAt w0)\<rparr>"
    have "?w \<in> set ws1" using w0 by (auto simp: e(3) set_update_where image_iff intro!: bexI [of _ w0])
    moreover have "open_on ?c ?w" using w0(2) by (simp add: extendable_def open_on_def)
    ultimately have "?w \<in> set (filter (open_on ?c) ws1)" by simp
    then have "filter (open_on ?c) ws1 = [?w]"
      using waits_ok_open [OF e(2), of ?c] by (cases "filter (open_on ?c) ws1") auto
    then show thesis using that [of ws1 ?w] True e by (simp add: customerWrote_def)
  next
    case False
    obtain ws2 where d: "endOpenWait ?c WaitAbandoned (mg_CreatedAt m) None None (s\<lparr>ib_waits := ws1\<rparr>) =
        Some (list_ex (open_on ?c) (ib_waits (s\<lparr>ib_waits := ws1\<rparr>)), s\<lparr>ib_waits := ws1\<rparr>\<lparr>ib_waits := ws2\<rparr>)"
      "waits_ok ws2" "filter (open_on ?c) ws2 = []"
      using end_succeeds [of "s\<lparr>ib_waits := ws1\<rparr>" WaitAbandoned None None] e(2) by (auto simp: reason_fits_def)
    have "find_conversation ?c (s\<lparr>ib_waits := ws2\<rparr>) = Some v" using assms(2) by (simp add: find_conversation_def)
    note fc = this
    obtain w where o: "openWait newid ?c (mg_CreatedAt m) (mg_WATimestamp m) (mg_WATimestamp m) (s\<lparr>ib_waits := ws2\<rparr>) =
        Some (s\<lparr>ib_waits := ws2\<rparr>\<lparr>ib_waits := ib_waits (s\<lparr>ib_waits := ws2\<rparr>) @ [w]\<rparr>)"
      "waits_ok (ib_waits (s\<lparr>ib_waits := ws2\<rparr>) @ [w])" "open_on ?c w" "wt_LastCustomerSentAt w = mg_WATimestamp m"
      by (rule openWait_succeeds [of "s\<lparr>ib_waits := ws2\<rparr>" ?c v newid "mg_CreatedAt m" "mg_WATimestamp m" "mg_WATimestamp m"])
        (use d fc in auto)
    show thesis using that [of "ws2 @ [w]" w] False e(1) d o by (simp add: customerWrote_def)
  qed
qed

lemma find_set_conversations:
  assumes "\<And>v. cv_ID (f v) = cv_ID v"
  shows "find_conversation c (set_conversations P f s) = None \<longleftrightarrow> find_conversation c s = None"
proof -
  have "find (\<lambda>v. cv_ID v = c) (update_where P f xs) = None \<longleftrightarrow> find (\<lambda>v. cv_ID v = c) xs = None" for xs
    by (induction xs) (simp_all add: assms)
  then show ?thesis by (simp add: find_conversation_def set_conversations_def)
qed

lemma set_conversations_frame [simp]:
  "ib_waits (set_conversations P f s) = ib_waits s" "ib_messages (set_conversations P f s) = ib_messages s"
  by (simp_all add: set_conversations_def)

lemma write_waits_frame: "write_waits ws s = Some s' \<Longrightarrow> s' = s\<lparr>ib_waits := ws\<rparr> \<and> waits_ok ws"
  by (auto simp: write_waits_def split: if_splits)

text \<open>Whatever a wait step answers, it keeps the rules of the table and leaves the other tables alone.\<close>

definition wait_step :: "(inbox \<Rightarrow> inbox option) \<Rightarrow> bool" where
  "wait_step f \<longleftrightarrow> (\<forall>s s'. f s = Some s' \<longrightarrow> (waits_ok (ib_waits s) \<longrightarrow> waits_ok (ib_waits s')) \<and>
     ib_messages s' = ib_messages s \<and> ib_conversations s' = ib_conversations s)"

lemma extend_frame: "extendOpenWait m s = Some (b, s') \<Longrightarrow>
    waits_ok (ib_waits s') \<and> ib_messages s' = ib_messages s \<and> ib_conversations s' = ib_conversations s"
  by (auto simp: extendOpenWait_def Let_def dest!: write_waits_frame)

lemma end_frame: "endOpenWait c r at u p s = Some (b, s') \<Longrightarrow>
    waits_ok (ib_waits s') \<and> ib_messages s' = ib_messages s \<and> ib_conversations s' = ib_conversations s"
  by (auto simp: endOpenWait_def dest!: write_waits_frame)

lemma openWait_frame: "openWait n c a b d s = Some s' \<Longrightarrow>
    waits_ok (ib_waits s') \<and> ib_messages s' = ib_messages s \<and> ib_conversations s' = ib_conversations s"
  by (auto simp: openWait_def split: option.splits dest!: write_waits_frame)

lemma reopen_frame: "reopenAfter n c a s = Some s' \<Longrightarrow>
    (waits_ok (ib_waits s) \<longrightarrow> waits_ok (ib_waits s')) \<and> ib_messages s' = ib_messages s \<and> ib_conversations s' = ib_conversations s"
  by (auto simp: reopenAfter_def Let_def split: if_splits dest!: openWait_frame)

lemmas wait_frames = extend_frame end_frame openWait_frame reopen_frame

lemma wait_steps:
  "wait_step (customerWrote n m)" "wait_step (replied m)" "wait_step (answeredFromPhone n m)"
  "wait_step (closedWithoutReply c u at)"
  unfolding wait_step_def customerWrote_def replied_def answeredFromPhone_def closedWithoutReply_def Let_def
  by (auto split: option.splits if_splits prod.splits dest!: wait_frames)

lemma record_wait_step:
  assumes "wait_step f"
  shows "waits_ok (ib_waits s) \<Longrightarrow> waits_ok (ib_waits (record_wait f s))"
    "ib_messages (record_wait f s) = ib_messages s" "ib_conversations (record_wait f s) = ib_conversations s"
  using assms by (auto simp: wait_step_def record_wait_def split: option.splits)

text \<open>A customer who writes is recorded as waiting, always: when his message is stored, the table of waits keeps its
  rules, the bookkeeping step did not fail, and his thread has exactly one open wait, at least as
  recent as the message.\<close>

theorem customer_is_waiting:
  assumes "waits_ok (ib_waits s)" "SaveInbound newid waitid now i seen s = (Some (m, True), s')"
  shows "waits_ok (ib_waits s') \<and> m \<in> set (ib_messages s') \<and>
    (\<exists>w. filter (open_on (in_ConversationID i)) (ib_waits s') = [w] \<and> in_At i \<le> wt_LastCustomerSentAt w)"
proof -
  let ?row = "inboundRow newid now i s"
  let ?s1 = "s\<lparr>ib_messages := ib_messages s @ [?row]\<rparr>"
  let ?s2 = "bumpConversation (in_ConversationID i) (in_At i) ?s1"
  have row: "mg_ConversationID ?row = in_ConversationID i" "mg_WATimestamp ?row = in_At i"
    by (simp_all add: inboundRow_def arrivedRow_def)
  have m: "m = ?row" "find_conversation (in_ConversationID i) s \<noteq> None" "s' = record_wait (customerWrote waitid ?row) ?s2"
    using assms(2) by (auto simp: SaveInbound_def saveArrived_def customerMessageStored_def row split: option.splits if_splits)
  have "find_conversation (in_ConversationID i) ?s2 \<noteq> None"
    unfolding bumpConversation_def using m(2)
    by (subst find_set_conversations) (simp_all add: find_conversation_def)
  then obtain v where v: "find_conversation (mg_ConversationID ?row) ?s2 = Some v" by (auto simp: row)
  have "waits_ok (ib_waits ?s2)" using assms(1) by (simp add: bumpConversation_def)
  then obtain ws w where c: "customerWrote waitid ?row ?s2 = Some (?s2\<lparr>ib_waits := ws\<rparr>)" "waits_ok ws"
    "filter (open_on (mg_ConversationID ?row)) ws = [w]" "mg_WATimestamp ?row \<le> wt_LastCustomerSentAt w"
    by (rule customerWrote_succeeds [OF _ v])
  then have "s' = ?s2\<lparr>ib_waits := ws\<rparr>" by (simp add: m(3) record_wait_def)
  then show ?thesis using c m(1) by (auto simp: row bumpConversation_def)
qed

lemma find_filter: "find P xs = (case filter P xs of [] \<Rightarrow> None | x # _ \<Rightarrow> Some x)"
  by (induction xs) auto

lemma answered_ends:
  assumes "waits_ok (ib_waits s)" "find (open_on (mg_ConversationID m)) (ib_waits s) = Some w"
    "\<not> mg_WATimestamp m < wt_CustomerSentAt w"
  obtains ws where "waits_ok ws" "filter (open_on (mg_ConversationID m)) ws = []"
    "answeredFromPhone n m s = reopenAfter n (mg_ConversationID m) (mg_WATimestamp m) (s\<lparr>ib_waits := ws\<rparr>)"
proof -
  let ?c = "mg_ConversationID m"
  let ?at = "if mg_WATimestamp m < wt_StartedAt w then wt_StartedAt w else mg_WATimestamp m"
  have fits: "reason_fits WaitPhone None (Some (mg_ID m))" by (simp add: reason_fits_def)
  have "list_ex (open_on ?c) (ib_waits s)" using assms(2) by (auto simp: list_ex_iff dest: find_SomeD)
  then obtain ws where e: "endOpenWait ?c WaitPhone ?at None (Some (mg_ID m)) s = Some (True, s\<lparr>ib_waits := ws\<rparr>)"
      "waits_ok ws" "filter (open_on ?c) ws = []"
    using end_succeeds [OF assms(1) fits, of ?c ?at] by metis
  have "answeredFromPhone n m s = reopenAfter n ?c (mg_WATimestamp m) (s\<lparr>ib_waits := ws\<rparr>)"
    using assms(2, 3) e(1) by (simp only: answeredFromPhone_def option.case Let_def if_False prod.case simp_thms)
  from that [OF e(2, 3) this] show thesis .
qed

lemma reopen_exact:
  assumes "waits_ok (ib_waits s)" "filter (open_on c) (ib_waits s) = []" "find_conversation c s = Some v"
  obtains s' where "reopenAfter n c at s = Some s'" "waits_ok (ib_waits s')"
    "map wt_CustomerSentAt (filter (open_on c) (ib_waits s')) = map mg_WATimestamp (take 1 (later_messages c at s))"
proof (cases "later_messages c at s")
  case Nil
  then show thesis using that [of s] assms by (simp add: reopenAfter_def)
next
  case (Cons l ls)
  obtain w where "openWait n c (mg_CreatedAt l) (mg_WATimestamp l) (mg_WATimestamp (last (l # ls))) s =
        Some (s\<lparr>ib_waits := ib_waits s @ [w]\<rparr>)"
      "waits_ok (ib_waits s @ [w])" "open_on c w" "wt_CustomerSentAt w = mg_WATimestamp l"
    by (rule openWait_succeeds [OF assms(1, 3, 2)])
  then show thesis using that [of "s\<lparr>ib_waits := ib_waits s @ [w]\<rparr>"] Cons assms(2) by (simp add: reopenAfter_def)
qed

lemma phone_exact:
  assumes ok: "waits_ok (ib_waits s)" and v: "find_conversation (mg_ConversationID m) s = Some v"
  shows "\<exists>s'. answeredFromPhone n m s = Some s' \<and> waits_ok (ib_waits s') \<and>
    map wt_CustomerSentAt (filter (open_on (mg_ConversationID m)) (ib_waits s')) =
      (case filter (open_on (mg_ConversationID m)) (ib_waits s) of
         [] \<Rightarrow> []
       | w # _ \<Rightarrow> if mg_WATimestamp m < wt_CustomerSentAt w then [wt_CustomerSentAt w]
                   else map mg_WATimestamp (take 1 (later_messages (mg_ConversationID m) (mg_WATimestamp m) s)))"
proof (cases "filter (open_on (mg_ConversationID m)) (ib_waits s)")
  case Nil
  then show ?thesis using ok by (simp add: answeredFromPhone_def find_filter)
next
  case (Cons w rest)
  have rest: "rest = []" using waits_ok_open [OF ok, of "mg_ConversationID m"] Cons by (cases rest) auto
  have f: "find (open_on (mg_ConversationID m)) (ib_waits s) = Some w" by (simp add: find_filter Cons)
  show ?thesis
  proof (cases "mg_WATimestamp m < wt_CustomerSentAt w")
    case True
    then show ?thesis using Cons f ok rest by (simp add: answeredFromPhone_def)
  next
    case False
    obtain ws where ws: "waits_ok ws" "filter (open_on (mg_ConversationID m)) ws = []"
      "answeredFromPhone n m s = reopenAfter n (mg_ConversationID m) (mg_WATimestamp m) (s\<lparr>ib_waits := ws\<rparr>)"
      by (rule answered_ends [OF ok f False])
    have v': "find_conversation (mg_ConversationID m) (s\<lparr>ib_waits := ws\<rparr>) = Some v"
      using v by (simp add: find_conversation_def)
    have l: "later_messages c at (s\<lparr>ib_waits := ws\<rparr>) = later_messages c at s" for c at
      by (simp add: later_messages_def)
    show ?thesis
      by (rule reopen_exact [of "s\<lparr>ib_waits := ws\<rparr>" "mg_ConversationID m" v n "mg_WATimestamp m"])
        (use ws v' l Cons False in auto)
  qed
qed

text \<open>An answer typed on the phone ends exactly the wait it answers: a reply sent before the wait's first
  message changes nothing, and when it reaches TikMan late, the wait that is left open starts at the first message the
  customer sent after it, if there is one.\<close>

theorem phone_reply_exact:
  assumes "waits_ok (ib_waits s)" "SaveFromPhone newid waitid now i seen s = (Some (m, True), s')"
  shows "waits_ok (ib_waits s') \<and>
    map wt_CustomerSentAt (filter (open_on (in_ConversationID i)) (ib_waits s')) =
      (case filter (open_on (in_ConversationID i)) (ib_waits s) of
         [] \<Rightarrow> []
       | w # _ \<Rightarrow> if in_At i < wt_CustomerSentAt w then [wt_CustomerSentAt w]
                   else map mg_WATimestamp (take 1 (later_messages (in_ConversationID i) (in_At i) s)))"
proof -
  let ?c = "in_ConversationID i"
  let ?row = "phoneRow newid now i s"
  let ?s2 = "markAnsweredFromPhone ?c (in_At i) (s\<lparr>ib_messages := ib_messages s @ [?row]\<rparr>)"
  have row: "mg_ConversationID ?row = ?c" "mg_WATimestamp ?row = in_At i" "mg_Direction ?row = MessageOut"
    by (simp_all add: phoneRow_def arrivedRow_def)
  have m: "find_conversation ?c s \<noteq> None" "s' = record_wait (answeredFromPhone waitid ?row) ?s2"
    using assms(2) by (auto simp: SaveFromPhone_def saveArrived_def phoneMessageStored_def row split: option.splits if_splits)
  have "find_conversation ?c ?s2 \<noteq> None"
    unfolding markAnsweredFromPhone_def using m(1)
    by (subst find_set_conversations) (simp_all add: find_conversation_def)
  then obtain v where v: "find_conversation (mg_ConversationID ?row) ?s2 = Some v" by (auto simp: row)
  have w2: "ib_waits ?s2 = ib_waits s" "later_messages ?c (in_At i) ?s2 = later_messages ?c (in_At i) s"
    by (simp_all add: markAnsweredFromPhone_def later_messages_def row)
  then have "waits_ok (ib_waits ?s2)" using assms(1) by simp
  from phone_exact [OF this v, of waitid] show ?thesis
    unfolding m(2) row w2 record_wait_def by (auto split: option.splits)
qed

section \<open>Receipts arrive in any order\<close>

definition apply_receipts :: "string \<Rightarrow> MessageStatus list \<Rightarrow> inbox \<Rightarrow> inbox" where
  "apply_receipts waid sts s = fold (\<lambda>st s. snd (ApplyReceipt waid st s)) sts s"

definition further :: "MessageStatus \<Rightarrow> MessageStatus \<Rightarrow> MessageStatus" where
  "further st cur = (if receiptRank st \<le> receiptRank cur then cur else st)"

lemma further_commute: "further a (further b c) = further b (further a c)"
  by (cases a; cases b; cases c) (simp_all add: further_def)

lemma receiptRank_further: "receiptRank (further a c) = max (receiptRank a) (receiptRank c)"
  by (simp add: further_def max_def)

lemma waid_update:
  "(\<And>m. mg_WAMessageID (f m) = mg_WAMessageID m) \<Longrightarrow>
     find (\<lambda>m. mg_WAMessageID m = Some waid) (update_where (\<lambda>m. mg_ID m = i) f ms) =
     map_option (\<lambda>m. if mg_ID m = i then f m else m) (find (\<lambda>m. mg_WAMessageID m = Some waid) ms)"
  by (induction ms) auto

text \<open>A receipt only moves the status of one row: the row the first message with that WhatsApp id names.\<close>

lemma receipt_row:
  "message_by_waid waid s = Some m \<Longrightarrow>
     snd (ApplyReceipt waid st s) =
       (if receiptRank st \<le> receiptRank (mg_Status m) then s
        else s\<lparr>ib_messages := update_where (\<lambda>x. mg_ID x = mg_ID m) (\<lambda>x. x\<lparr>mg_Status := st\<rparr>) (ib_messages s)\<rparr>)"
proof -
  assume m: "message_by_waid waid s = Some m"
  then have "list_ex (\<lambda>x. mg_ID x = mg_ID m) (ib_messages s)"
    by (auto simp: message_by_waid_def list_ex_iff dest: find_SomeD)
  with m show ?thesis by (simp add: ApplyReceipt_def updateMessage_def)
qed

lemma receipt_found:
  "message_by_waid waid s = Some m \<Longrightarrow>
     message_by_waid waid (snd (ApplyReceipt waid st s)) = Some (m\<lparr>mg_Status := further st (mg_Status m)\<rparr>)"
  by (simp add: receipt_row) (simp add: message_by_waid_def waid_update further_def)

lemma update_twice:
  "update_where (\<lambda>x. mg_ID x = i) (\<lambda>x. x\<lparr>mg_Status := b\<rparr>) (update_where (\<lambda>x. mg_ID x = i) (\<lambda>x. x\<lparr>mg_Status := a\<rparr>) ms) =
   update_where (\<lambda>x. mg_ID x = i) (\<lambda>x. x\<lparr>mg_Status := b\<rparr>) ms"
  by (induction ms) auto

lemma receipts_commute:
  "snd (ApplyReceipt waid a (snd (ApplyReceipt waid b s))) = snd (ApplyReceipt waid b (snd (ApplyReceipt waid a s)))"
proof (cases "message_by_waid waid s")
  case None
  then show ?thesis by (simp add: ApplyReceipt_def)
next
  case (Some m)
  show ?thesis
    unfolding receipt_row [OF receipt_found [OF Some]] unfolding receipt_row [OF Some]
    by (cases a; cases b; cases "mg_Status m") (simp_all add: further_def update_twice)
qed

lemma receipts_found:
  "message_by_waid waid s = Some m \<Longrightarrow>
     message_by_waid waid (apply_receipts waid sts s) = Some (m\<lparr>mg_Status := fold further sts (mg_Status m)\<rparr>)"
proof (induction sts arbitrary: s m)
  case Nil
  then show ?case by (simp add: apply_receipts_def)
next
  case (Cons st sts)
  from Cons.IH [OF receipt_found [OF Cons.prems]] show ?case by (simp add: apply_receipts_def)
qed

text \<open>Receipts may arrive in any order: two arrivals of the same receipts leave the inbox in the same state,
  and in that state the message has come as far as the furthest of them, or as it had come before.\<close>

theorem receipts_order_free:
  assumes "mset sts = mset sts'" "message_by_waid waid s = Some m"
  shows "apply_receipts waid sts s = apply_receipts waid sts' s \<and>
    map_option (receiptRank \<circ> mg_Status) (message_by_waid waid (apply_receipts waid sts s)) =
      Some (fold max (map receiptRank sts) (receiptRank (mg_Status m)))"
proof
  show "apply_receipts waid sts s = apply_receipts waid sts' s"
    unfolding apply_receipts_def
    by (rule fun_cong [of _ _ s], rule fold_multiset_equiv [OF _ assms(1)]) (auto simp: fun_eq_iff receipts_commute)
  have "receiptRank (fold further sts c) = fold max (map receiptRank sts) (receiptRank c)" for c
    by (induction sts arbitrary: c) (simp_all add: receiptRank_further)
  then show "map_option (receiptRank \<circ> mg_Status) (message_by_waid waid (apply_receipts waid sts s)) =
      Some (fold max (map receiptRank sts) (receiptRank (mg_Status m)))"
    by (simp add: receipts_found [OF assms(2)])
qed

section \<open>Deliveries are repeated\<close>

text \<open>WhatsApp delivers again what it is unsure about: once a message is stored, whatever delivers it again, in either direction and whatever
  its look-up saw, stores nothing, answers that it was there already, and leaves the
  inbox as it was.\<close>

theorem redelivery_changes_nothing:
  assumes "SaveInbound newid waitid now i seen s = (Some r, s')" "in_WAMessageID j = in_WAMessageID i"
    "message_by_waid (in_WAMessageID i) seen = None"
  shows "map_option snd (fst (SaveInbound newid' waitid' now' j seen' s')) = Some False \<and>
    snd (SaveInbound newid' waitid' now' j seen' s') = s' \<and>
    map_option snd (fst (SaveFromPhone newid' waitid' now' j seen' s')) = Some False \<and>
    snd (SaveFromPhone newid' waitid' now' j seen' s') = s'"
proof -
  have frame: "ib_messages (customerMessageStored n m x) = ib_messages x" for n m x
    by (simp add: customerMessageStored_def record_wait_step(2) [OF wait_steps(1)] bumpConversation_def)
  have "message_by_waid (in_WAMessageID i) s' \<noteq> None"
  proof (cases "message_by_waid (in_WAMessageID i) s")
    case None
    then have "inboundRow newid now i s \<in> set (ib_messages s')"
      using assms(1, 3) by (auto simp: SaveInbound_def saveArrived_def frame split: if_splits)
    moreover have "mg_WAMessageID (inboundRow newid now i s) = Some (in_WAMessageID i)"
      by (simp add: inboundRow_def arrivedRow_def)
    ultimately show ?thesis by (auto simp: message_by_waid_def find_None_iff)
  next
    case (Some m)
    then show ?thesis using assms(1, 3) by (simp add: SaveInbound_def saveArrived_def)
  qed
  then obtain m where "message_by_waid (in_WAMessageID j) s' = Some m" using assms(2) by auto
  then show ?thesis
    by (auto simp: SaveInbound_def SaveFromPhone_def saveArrived_def split: option.splits)
qed

section \<open>One holder\<close>

fun claims :: "uuid \<Rightarrow> uuid list \<Rightarrow> inbox \<Rightarrow> (inbox_error + bool) list" where
  "claims c [] s = []"
| "claims c (u # us) s = fst (ClaimForReply c u s) # claims c us (snd (ClaimForReply c u s))"

lemma claims_held:
  "find_conversation c s = Some v \<Longrightarrow> cv_AssignedUserID v = Some u \<Longrightarrow>
   list_all (\<lambda>x. cv_ID x = c \<longrightarrow> cv_Status x \<noteq> ConversationUnassigned) (ib_conversations s) \<Longrightarrow>
     claims c us s = map (\<lambda>x. if x = u then Inr False else Inl ErrNotHolder) us"
proof (induction us)
  case (Cons x us)
  have "ClaimForReply c x s = ((if x = u then Inr False else Inl ErrNotHolder), s)"
    using Cons.prems by (auto simp: ClaimForReply_def EnsureHolder_def list_ex_iff list_all_iff Let_def)
  with Cons show ?case by simp
qed simp

text \<open>Two first replies never both go out: of all the people who answer a thread nobody holds, in whatever order the
  database takes their claims, the first becomes its holder, and every other is refused as not the
  holder.\<close>

theorem one_claim_wins:
  assumes "distinct (map cv_ID (ib_conversations s))" "find_conversation c s = Some v"
    "cv_Status v = ConversationUnassigned"
  shows "claims c (u # us) s = Inr True # map (\<lambda>x. if x = u then Inr False else Inl ErrNotHolder) us"
proof -
  let ?hit = "\<lambda>v. cv_ID v = c \<and> cv_Status v = ConversationUnassigned"
  let ?s = "set_conversations ?hit (\<lambda>v. v\<lparr>cv_AssignedUserID := Some u, cv_Status := ConversationOpen\<rparr>) s"
  have v: "v \<in> set (ib_conversations s)" "cv_ID v = c"
    using assms(2) by (auto simp: find_conversation_def dest: find_SomeD)
  then have "list_ex ?hit (ib_conversations s)" using assms(3) by (auto simp: list_ex_iff)
  then have c1: "ClaimForReply c u s = (Inr True, ?s)" by (simp add: ClaimForReply_def)
  have only: "x = v" if "x \<in> set (ib_conversations s)" "cv_ID x = c" for x
    using distinct_key_unique [OF assms(1) that(1) v(1)] that(2) v(2) by simp
  have rows: "x = v\<lparr>cv_AssignedUserID := Some u, cv_Status := ConversationOpen\<rparr>"
    if "x \<in> set (ib_conversations ?s)" "cv_ID x = c" for x
    using that only assms(3) v(2) by (auto simp: set_conversations_def set_update_where)
  have "find_conversation c ?s \<noteq> None"
    by (subst find_set_conversations) (simp_all add: assms(2))
  then obtain x where x: "find_conversation c ?s = Some x" by auto
  then have "x = v\<lparr>cv_AssignedUserID := Some u, cv_Status := ConversationOpen\<rparr>"
    using rows by (auto simp: find_conversation_def dest!: find_SomeD)
  then have "claims c us ?s = map (\<lambda>x. if x = u then Inr False else Inl ErrNotHolder) us"
    using rows [THEN arg_cong [where f = cv_Status]] by (intro claims_held [OF x]) (auto simp: list_all_iff)
  then show ?thesis by (simp add: c1)
qed

section \<open>Every reachable inbox\<close>

inductive inbox_step :: "inbox \<Rightarrow> inbox \<Rightarrow> bool" where
  customer: "convid \<notin> cv_ID ` set (ib_conversations s) \<Longrightarrow> newid \<notin> mg_ID ` set (ib_messages s) \<Longrightarrow>
    inbox_step s (snd (handle_customer owner convid newid waitid now p i s))"
| phone: "newid \<notin> mg_ID ` set (ib_messages s) \<Longrightarrow> inbox_step s (snd (SaveFromPhone newid waitid now i seen s))"
| reply: "newid \<notin> mg_ID ` set (ib_messages s) \<Longrightarrow>
    inbox_step s (snd (Queue newid now c sender kind body media replyTo s))"
| sent: "MarkSent m waid preview s = Some s' \<Longrightarrow> inbox_step s s'"
| failed: "MarkFailed m reason s = Some s' \<Longrightarrow> inbox_step s s'"
| receipt: "inbox_step s (snd (ApplyReceipt waid st s))"
| acknowledged: "inbox_step s (MarkInboundRead ids s)"
| assigned: "Assign c u s = Some s' \<Longrightarrow> inbox_step s s'"
| closed: "Close c u now s = Some s' \<Longrightarrow> inbox_step s s'"
| linked: "LinkONT c ont s = Some s' \<Longrightarrow> inbox_step s s'"
| opened: "inbox_step s (snd (MarkRead c s))"
| claimed: "inbox_step s (snd (ClaimForReply c u s))"

definition holder_ok :: "CSConversation \<Rightarrow> bool" where
  "holder_ok v \<longleftrightarrow>
     (cv_Status v = ConversationUnassigned \<longrightarrow> cv_AssignedUserID v = None) \<and>
     (cv_Status v = ConversationOpen \<longrightarrow> cv_AssignedUserID v \<noteq> None)"

definition threads_ok :: "CSConversation list \<Rightarrow> bool" where
  "threads_ok vs \<longleftrightarrow> distinct (map cv_ID vs) \<and> distinct (map (\<lambda>v. (cv_WAAccountID v, cv_CustomerJID v)) vs) \<and>
     list_all holder_ok vs"

definition messages_ok :: "CSMessage list \<Rightarrow> bool" where
  "messages_ok ms \<longleftrightarrow> distinct (map mg_ID ms) \<and>
     (\<forall>m \<in> set ms. \<forall>m' \<in> set ms. mg_WAMessageID m = mg_WAMessageID m' \<and> mg_WAMessageID m \<noteq> None \<longrightarrow> m = m')"

definition inbox_ok :: "inbox \<Rightarrow> bool" where
  "inbox_ok s \<longleftrightarrow> threads_ok (ib_conversations s) \<and> messages_ok (ib_messages s) \<and> waits_ok (ib_waits s)"

lemma threads_update:
  assumes "threads_ok vs" "\<And>v. cv_ID (f v) = cv_ID v" "\<And>v. cv_WAAccountID (f v) = cv_WAAccountID v"
    "\<And>v. cv_CustomerJID (f v) = cv_CustomerJID v" "\<And>v. v \<in> set vs \<Longrightarrow> P v \<Longrightarrow> holder_ok v \<Longrightarrow> holder_ok (f v)"
  shows "threads_ok (update_where P f vs)"
  using assms by (auto simp: threads_ok_def map_update_where list_all_iff set_update_where)

lemma threads_set:
  assumes "inbox_ok s" "\<And>v. cv_ID (f v) = cv_ID v" "\<And>v. cv_WAAccountID (f v) = cv_WAAccountID v"
    "\<And>v. cv_CustomerJID (f v) = cv_CustomerJID v"
    "\<And>v. v \<in> set (ib_conversations s) \<Longrightarrow> P v \<Longrightarrow> holder_ok v \<Longrightarrow> holder_ok (f v)"
  shows "inbox_ok (set_conversations P f s)"
  using assms by (simp add: inbox_ok_def set_conversations_def threads_update)

lemma messages_same:
  "messages_ok ms \<Longrightarrow> x \<in> set ms \<Longrightarrow> y \<in> set ms \<Longrightarrow> mg_WAMessageID x = mg_WAMessageID y \<Longrightarrow>
     mg_WAMessageID x \<noteq> None \<Longrightarrow> x = y"
  unfolding messages_ok_def by blast

lemma messages_update:
  assumes "messages_ok ms" "\<And>m. mg_ID (f m) = mg_ID m" "\<And>m. mg_WAMessageID (f m) = mg_WAMessageID m"
  shows "messages_ok (update_where P f ms)"
  unfolding messages_ok_def
proof (intro conjI ballI impI)
  show "distinct (map mg_ID (update_where P f ms))" using assms by (simp add: messages_ok_def map_update_where)
  fix a b assume "a \<in> set (update_where P f ms)" "b \<in> set (update_where P f ms)"
    and e: "mg_WAMessageID a = mg_WAMessageID b \<and> mg_WAMessageID a \<noteq> None"
  then obtain x y where x: "x \<in> set ms" "a = (if P x then f x else x)" and y: "y \<in> set ms" "b = (if P y then f y else y)"
    by (auto simp: set_update_where)
  have "mg_WAMessageID a = mg_WAMessageID x" "mg_WAMessageID b = mg_WAMessageID y"
    unfolding x(2) y(2) using assms(3) by simp_all
  then have "x = y" using e messages_same [OF assms(1) x(1) y(1)] by metis
  then show "a = b" using x y by simp
qed

lemma messages_sent:
  assumes "messages_ok ms" "\<And>m. mg_ID (f m) = mg_ID m" "\<And>m. mg_WAMessageID (f m) = Some waid"
    "\<not> list_ex (\<lambda>m. mg_ID m \<noteq> i \<and> mg_WAMessageID m = Some waid) ms"
  shows "messages_ok (update_where (\<lambda>m. mg_ID m = i) f ms)"
  unfolding messages_ok_def
proof (intro conjI ballI impI)
  show "distinct (map mg_ID (update_where (\<lambda>m. mg_ID m = i) f ms))"
    using assms by (simp add: messages_ok_def map_update_where)
  fix a b assume "a \<in> set (update_where (\<lambda>m. mg_ID m = i) f ms)" "b \<in> set (update_where (\<lambda>m. mg_ID m = i) f ms)"
    and e: "mg_WAMessageID a = mg_WAMessageID b \<and> mg_WAMessageID a \<noteq> None"
  then obtain x y where x: "x \<in> set ms" "a = (if mg_ID x = i then f x else x)"
      and y: "y \<in> set ms" "b = (if mg_ID y = i then f y else y)"
    by (auto simp: set_update_where)
  have none: "mg_WAMessageID z \<noteq> Some waid" if "z \<in> set ms" "mg_ID z \<noteq> i" for z
    using assms(4) that by (auto simp: list_ex_iff)
  have "x = y"
  proof (cases "mg_ID x = i")
    case True
    then have "mg_ID y = i" using x y e assms(3) none by (metis (full_types))
    then show ?thesis using True x y assms(1) distinct_key_unique by (metis messages_ok_def)
  next
    case False
    then have "mg_ID y \<noteq> i" using x y e assms(3) none by (metis (full_types))
    with False have "a = x" "b = y" using x y by simp_all
    then show ?thesis using e messages_same [OF assms(1) x(1) y(1)] by metis
  qed
  then show "a = b" using x y by simp
qed

lemma messages_append:
  assumes "messages_ok ms" "mg_ID m \<notin> mg_ID ` set ms"
    "mg_WAMessageID m = None \<or> find (\<lambda>x. mg_WAMessageID x = mg_WAMessageID m) ms = None"
  shows "messages_ok (ms @ [m])"
  unfolding messages_ok_def
proof (intro conjI ballI impI)
  show "distinct (map mg_ID (ms @ [m]))" using assms(1, 2) by (simp add: messages_ok_def)
  fix a b assume ab: "a \<in> set (ms @ [m])" "b \<in> set (ms @ [m])"
    and e: "mg_WAMessageID a = mg_WAMessageID b \<and> mg_WAMessageID a \<noteq> None"
  have new: "mg_WAMessageID x \<noteq> mg_WAMessageID m" if "x \<in> set ms" "mg_WAMessageID x \<noteq> None" for x
    using assms(3) that by (auto simp: find_None_iff)
  have "a \<in> set ms \<or> a = m" "b \<in> set ms \<or> b = m" using ab by auto
  then show "a = b" using e new messages_same [OF assms(1), of a b] by metis
qed

lemma threads_append:
  "threads_ok vs \<Longrightarrow> cv_ID v \<notin> cv_ID ` set vs \<Longrightarrow>
   find (\<lambda>x. cv_WAAccountID x = cv_WAAccountID v \<and> cv_CustomerJID x = cv_CustomerJID v) vs = None \<Longrightarrow> holder_ok v \<Longrightarrow>
     threads_ok (vs @ [v])"
  by (auto simp: threads_ok_def find_None_iff)

lemma record_wait_ok: "wait_step f \<Longrightarrow> inbox_ok s \<Longrightarrow> inbox_ok (record_wait f s)"
  by (simp add: inbox_ok_def record_wait_step)

lemma saveArrived_ok:
  assumes "inbox_ok s" "mg_ID row \<notin> mg_ID ` set (ib_messages s)" "mg_WAMessageID row = Some waid"
    "\<And>s. inbox_ok s \<Longrightarrow> inbox_ok (touch row s)"
  shows "inbox_ok (snd (saveArrived waid row touch seen s))"
proof -
  have "inbox_ok (s\<lparr>ib_messages := ib_messages s @ [row]\<rparr>)" if "message_by_waid waid s = None"
    using assms(1, 2, 3) that by (simp add: inbox_ok_def messages_append message_by_waid_def)
  then show ?thesis using assms(1, 4) by (auto simp: saveArrived_def split: option.splits)
qed

lemma FindOrCreate_ok:
  assumes "inbox_ok s" "newid \<notin> cv_ID ` set (ib_conversations s)"
  shows "inbox_ok (snd (FindOrCreate owner newid now p s))"
    "ib_messages (snd (FindOrCreate owner newid now p s)) = ib_messages s"
proof -
  show "inbox_ok (snd (FindOrCreate owner newid now p s))"
  proof (cases "FindByPeer (ip_WAAccountID p) (ip_JID p) s")
    case None
    then show ?thesis
      using assms by (simp add: FindOrCreate_def inbox_ok_def threads_append holder_ok_def FindByPeer_def Let_def)
  next
    case (Some v)
    have v: "v \<in> set (ib_conversations s)" using Some by (auto simp: FindByPeer_def dest: find_SomeD)
    have only: "x = v" if "x \<in> set (ib_conversations s)" "cv_ID x = cv_ID v" for x
      using assms(1) that v distinct_key_unique by (fastforce simp: inbox_ok_def threads_ok_def)
    show ?thesis
      unfolding FindOrCreate_def Some option.case Let_def snd_conv
      by (rule threads_set [OF assms(1)])
        (auto dest: only simp: holder_ok_def)
  qed
  show "ib_messages (snd (FindOrCreate owner newid now p s)) = ib_messages s"
    by (simp add: FindOrCreate_def Let_def split: option.splits)
qed

lemma updateConversation_ok:
  assumes "updateConversation c f s = Some s'" "inbox_ok s" "\<And>v. cv_ID (f v) = cv_ID v"
    "\<And>v. cv_WAAccountID (f v) = cv_WAAccountID v" "\<And>v. cv_CustomerJID (f v) = cv_CustomerJID v"
    "\<And>v. holder_ok v \<Longrightarrow> holder_ok (f v)"
  shows "inbox_ok s'"
  using assms by (auto simp: updateConversation_def split: if_splits intro!: threads_set)

lemma updateMessage_ok:
  assumes "updateMessage i f s = Some s'" "inbox_ok s" "\<And>m. mg_ID (f m) = mg_ID m"
    "\<And>m. mg_WAMessageID (f m) = mg_WAMessageID m"
  shows "inbox_ok s'"
  using assms by (auto simp: updateMessage_def inbox_ok_def messages_update split: if_splits)

lemma customer_ok:
  assumes "inbox_ok s" "convid \<notin> cv_ID ` set (ib_conversations s)" "newid \<notin> mg_ID ` set (ib_messages s)"
  shows "inbox_ok (snd (handle_customer owner convid newid waitid now p i s))"
proof -
  have touch: "inbox_ok (customerMessageStored waitid row s)" if "inbox_ok s" for row s
    unfolding customerMessageStored_def bumpConversation_def
    by (intro record_wait_ok wait_steps threads_set that) (simp_all add: holder_ok_def)
  show ?thesis
    unfolding handle_customer_def SaveInbound_def
    using FindOrCreate_ok [OF assms(1, 2), of owner now p] assms(3)
    by (auto split: option.splits prod.splits simp: inboundRow_def arrivedRow_def intro!: saveArrived_ok touch)
qed

lemma phone_ok:
  assumes "inbox_ok s" "newid \<notin> mg_ID ` set (ib_messages s)"
  shows "inbox_ok (snd (SaveFromPhone newid waitid now i seen s))"
proof -
  have touch: "inbox_ok (phoneMessageStored waitid row s)" if "inbox_ok s" for row s
    unfolding phoneMessageStored_def markAnsweredFromPhone_def
    by (intro record_wait_ok wait_steps threads_set that) (simp_all add: holder_ok_def)
  show ?thesis
    unfolding SaveFromPhone_def
    using assms by (intro saveArrived_ok touch) (auto simp: phoneRow_def arrivedRow_def)
qed

lemma reply_ok:
  assumes "inbox_ok s" "newid \<notin> mg_ID ` set (ib_messages s)"
  shows "inbox_ok (snd (Queue newid now c sender kind body media replyTo s))"
proof -
  let ?m = "\<lparr>mg_ID = newid, mg_ConversationID = c, mg_WAMessageID = None, mg_Direction = MessageOut,
               mg_SenderUserID = Some sender, mg_Kind = kind, mg_Body = body, mg_Media = media, mg_Status = MessageQueued,
               mg_FailReason = [], mg_ReplyToID = replyTo, mg_Preview = None, mg_WATimestamp = now, mg_CreatedAt = now\<rparr>"
  have "inbox_ok (s\<lparr>ib_messages := ib_messages s @ [?m]\<rparr>)"
    using assms by (simp add: inbox_ok_def messages_append)
  then show ?thesis
    unfolding Queue_def Let_def
    by (auto split: option.splits intro!: record_wait_ok wait_steps assms(1) elim!: updateConversation_ok
        simp: holder_ok_def)
qed

lemma close_ok: "inbox_ok s \<Longrightarrow> Close c u now s = Some s' \<Longrightarrow> inbox_ok s'"
  by (auto simp: Close_def holder_ok_def intro!: record_wait_ok wait_steps elim!: updateConversation_ok)

lemma sent_ok: "inbox_ok s \<Longrightarrow> MarkSent m waid preview s = Some s' \<Longrightarrow> inbox_ok s'"
  by (auto simp: MarkSent_def updateMessage_def inbox_ok_def split: if_splits intro!: messages_sent)

lemma receipt_ok: "inbox_ok s \<Longrightarrow> inbox_ok (snd (ApplyReceipt waid st s))"
  by (auto simp: ApplyReceipt_def split: option.splits elim!: updateMessage_ok)

lemma claim_ok: "inbox_ok s \<Longrightarrow> inbox_ok (snd (ClaimForReply c u s))"
  by (auto simp: ClaimForReply_def Let_def holder_ok_def split: option.splits intro!: threads_set)

lemma step_ok:
  assumes "inbox_step s s'" "inbox_ok s"
  shows "inbox_ok s'"
  using assms
proof (induction rule: inbox_step.induct)
  case (acknowledged s ids)
  then show ?case by (auto simp: MarkInboundRead_def inbox_ok_def intro!: messages_update)
next
  case (assigned c u s s')
  then show ?case unfolding Assign_def by (elim updateConversation_ok) (simp_all add: holder_ok_def)
next
  case (linked c ont s s')
  then show ?case unfolding LinkONT_def by (elim updateConversation_ok) (simp_all add: holder_ok_def)
next
  case (failed m reason s s')
  then show ?case unfolding MarkFailed_def by (elim updateMessage_ok) simp_all
next
  case (opened s c)
  then show ?case unfolding MarkRead_def Let_def snd_conv by (intro threads_set) (simp_all add: holder_ok_def)
qed (blast intro: customer_ok phone_ok reply_ok close_ok sent_ok receipt_ok claim_ok)+

definition empty_inbox :: inbox where
  "empty_inbox = \<lparr>ib_conversations = [], ib_messages = [], ib_waits = []\<rparr>"


section \<open>A short course of events\<close>

definition sample_peer :: IncomingPeer where
  "sample_peer = \<lparr>ip_WAAccountID = 7, ip_JID = ''j'', ip_Phone = ''0812345678'', ip_Name = ''Ani''\<rparr>"

definition sample_message :: "string \<Rightarrow> time \<Rightarrow> uuid \<Rightarrow> InboundMessage" where
  "sample_message waid at c =
     \<lparr>in_ConversationID = c, in_WAMessageID = waid, in_Kind = ''text'', in_Body = ''halo'', in_Media = None, in_At = at,
      in_ReplyToWAID = [], in_Preview = None\<rparr>"

text \<open>A thread, the customer's message of time 5 that arrives at 9, and one of time 20 that arrives at 21.\<close>

definition sample_thread :: inbox where
  "sample_thread = snd (FindOrCreate (\<lambda>_. None) 1 4 sample_peer empty_inbox)"

definition sample_inbox :: inbox where
  "sample_inbox =
     snd (SaveInbound 11 101 21 (sample_message ''B'' 20 1) sample_thread
       (snd (SaveInbound 10 100 9 (sample_message ''A'' 5 1) sample_thread sample_thread)))"

theorem customer_is_waiting_witness:
  "waits_ok (ib_waits (snd (SaveInbound 10 100 9 (sample_message ''A'' 5 1) sample_thread sample_thread))) \<and>
   inboundRow 10 9 (sample_message ''A'' 5 1) sample_thread \<in>
     set (ib_messages (snd (SaveInbound 10 100 9 (sample_message ''A'' 5 1) sample_thread sample_thread))) \<and>
   (\<exists>w. filter (open_on (in_ConversationID (sample_message ''A'' 5 1)))
     (ib_waits (snd (SaveInbound 10 100 9 (sample_message ''A'' 5 1) sample_thread sample_thread))) = [w] \<and>
     in_At (sample_message ''A'' 5 1) \<le> wt_LastCustomerSentAt w)"
  by (rule customer_is_waiting [where s = sample_thread and seen = sample_thread and newid = 10 and waitid = 100 and now = 9])
    code_simp+

text \<open>The phone answered at 10, and its message arrives after the customer's of time 20.\<close>

theorem phone_reply_exact_witness:
  "waits_ok (ib_waits (snd (SaveFromPhone 12 102 30 (sample_message ''C'' 10 1) sample_inbox sample_inbox))) \<and>
   map wt_CustomerSentAt (filter (open_on (in_ConversationID (sample_message ''C'' 10 1)))
     (ib_waits (snd (SaveFromPhone 12 102 30 (sample_message ''C'' 10 1) sample_inbox sample_inbox)))) =
   (case filter (open_on (in_ConversationID (sample_message ''C'' 10 1))) (ib_waits sample_inbox) of
      [] \<Rightarrow> []
    | w # _ \<Rightarrow> if in_At (sample_message ''C'' 10 1) < wt_CustomerSentAt w then [wt_CustomerSentAt w]
                else map mg_WATimestamp (take 1 (later_messages (in_ConversationID (sample_message ''C'' 10 1))
                       (in_At (sample_message ''C'' 10 1)) sample_inbox)))"
  by (rule phone_reply_exact [where m = "phoneRow 12 30 (sample_message ''C'' 10 1) sample_inbox" and seen = sample_inbox
        and s = sample_inbox and newid = 12 and waitid = 102 and now = 30]) code_simp+

theorem receipts_order_free_witness:
  "apply_receipts ''A'' [MessageRead, MessageSent] sample_inbox = apply_receipts ''A'' [MessageSent, MessageRead] sample_inbox \<and>
   map_option (receiptRank \<circ> mg_Status) (message_by_waid ''A'' (apply_receipts ''A'' [MessageRead, MessageSent] sample_inbox)) =
     Some (fold max (map receiptRank [MessageRead, MessageSent])
       (receiptRank (mg_Status (inboundRow 10 9 (sample_message ''A'' 5 1) sample_thread))))"
  by (rule receipts_order_free) (simp, code_simp)

theorem redelivery_changes_nothing_witness:
  "map_option snd (fst (SaveInbound 13 103 40 (sample_message ''A'' 5 1) empty_inbox
       (snd (SaveInbound 10 100 9 (sample_message ''A'' 5 1) sample_thread sample_thread)))) = Some False \<and>
   snd (SaveInbound 13 103 40 (sample_message ''A'' 5 1) empty_inbox
       (snd (SaveInbound 10 100 9 (sample_message ''A'' 5 1) sample_thread sample_thread))) =
     snd (SaveInbound 10 100 9 (sample_message ''A'' 5 1) sample_thread sample_thread) \<and>
   map_option snd (fst (SaveFromPhone 13 103 40 (sample_message ''A'' 5 1) empty_inbox
       (snd (SaveInbound 10 100 9 (sample_message ''A'' 5 1) sample_thread sample_thread)))) = Some False \<and>
   snd (SaveFromPhone 13 103 40 (sample_message ''A'' 5 1) empty_inbox
       (snd (SaveInbound 10 100 9 (sample_message ''A'' 5 1) sample_thread sample_thread))) =
     snd (SaveInbound 10 100 9 (sample_message ''A'' 5 1) sample_thread sample_thread)"
  by (rule redelivery_changes_nothing [where i = "sample_message ''A'' 5 1" and seen = sample_thread and s = sample_thread
        and newid = 10 and waitid = 100 and now = 9 and r = "(inboundRow 10 9 (sample_message ''A'' 5 1) sample_thread, True)"])
    code_simp+

theorem one_claim_wins_witness:
  "claims 1 [5, 6, 5] sample_thread = [Inr True, Inl ErrNotHolder, Inr False]"
  using one_claim_wins [of sample_thread 1 "hd (ib_conversations sample_thread)" 5 "[6, 5]"]
  by (simp add: sample_thread_def FindOrCreate_def FindByPeer_def empty_inbox_def find_conversation_def Let_def)


section \<open>What the code does not promise\<close>

text \<open>A message delivered again stores nothing, but the thread it belongs to is reopened and taken from its
  holder all the same: the look-up of the thread comes first.\<close>

lemma redelivery_reopens:
  "case Close 1 5 50 (the (Assign 1 5 sample_inbox)) of
     Some s \<Rightarrow>
       (case handle_customer (\<lambda>_. None) 2 14 104 60 sample_peer (sample_message ''A'' 5) s of
          (r, s') \<Rightarrow>
            map_option snd r = Some False \<and>
            map cv_Status (ib_conversations s) = [ConversationClosed] \<and>
            map cv_Status (ib_conversations s') = [ConversationUnassigned] \<and>
            map cv_AssignedUserID (ib_conversations s') = [None])
   | None \<Rightarrow> False"
  by code_simp

end
