(* ===== verification/CsOutbox.thy ===== *)
theory CsOutbox
  imports Outbox CsInbox
begin

text \<open>
  The customer outbox: the drain of \<open>wa/outbound.go\<close> over the inbox. The card of a link is fetched by a parameter.
\<close>

section \<open>The drain\<close>

record whatsapp =
  wp_Resolve :: "string \<Rightarrow> Preview option"
  wp_SendText :: "string \<Rightarrow> string \<Rightarrow> string Quote option \<Rightarrow> Preview option \<Rightarrow> string + string"
  wp_SendMedia :: "string \<Rightarrow> string \<Rightarrow> MediaFile option \<Rightarrow> string \<Rightarrow> string Quote option \<Rightarrow> string + string"
  wp_MarkRead :: "string \<Rightarrow> string list \<Rightarrow> bool"

definition quote_message :: "CSMessage \<Rightarrow> inbox \<Rightarrow> string Quote option" where
  "quote_message m s =
     (case Option.bind (mg_ReplyToID m) (\<lambda>i. find (\<lambda>t. mg_ID t = i) (ib_messages s)) of
        None \<Rightarrow> None
      | Some t \<Rightarrow>
          (case mg_WAMessageID t of
             None \<Rightarrow> None
           | Some w \<Rightarrow> Some \<lparr>qt_StanzaID = w, qt_FromMe = (mg_Direction t = MessageOut), qt_Participant = [],
                             qt_Body = mg_Body t, qt_Kind = mg_Kind t\<rparr>))"

definition drainer_send :: "whatsapp \<Rightarrow> CSMessage \<Rightarrow> inbox \<Rightarrow> string + string \<times> Preview option" where
  "drainer_send wp m s =
     (case find_conversation (mg_ConversationID m) s of
        None \<Rightarrow> Inl ''percakapan tidak ditemukan: record not found''
      | Some conv \<Rightarrow>
          let q = quote_message m s in
          if mg_Kind m = ''text'' then
            (let preview = wp_Resolve wp (mg_Body m)
             in case wp_SendText wp (cv_CustomerJID conv) (mg_Body m) q preview of
                  Inl e \<Rightarrow> Inl e | Inr waid \<Rightarrow> Inr (waid, preview))
          else (case wp_SendMedia wp (cv_CustomerJID conv) (mg_Kind m) (mg_Media m) (mg_Body m) q of
                  Inl e \<Rightarrow> Inl e | Inr waid \<Rightarrow> Inr (waid, None)))"

definition acknowledgeRead :: "(string \<Rightarrow> string list \<Rightarrow> bool) \<Rightarrow> uuid \<Rightarrow> inbox \<Rightarrow> inbox" where
  "acknowledgeRead mark_read c s =
     (case find_conversation c s of
        None \<Rightarrow> s
      | Some conv \<Rightarrow>
          let waiting = InboundAwaitingRead c s in
          if waiting = [] then s
          else if \<not> mark_read (cv_CustomerJID conv) (map (the \<circ> mg_WAMessageID) waiting) then s
          else MarkInboundRead (map mg_ID waiting) s)"

text \<open>The customer's ticks turn blue once he is answered; \<open>mark_read\<close> is what WhatsApp says to that.\<close>

definition customer_sent ::
  "CSMessage \<Rightarrow> (string \<Rightarrow> string list \<Rightarrow> bool) \<times> string \<times> Preview option \<Rightarrow> inbox \<Rightarrow> inbox option" where
  "customer_sent m r s =
     (case r of (mark_read, waid, preview) \<Rightarrow>
        map_option (acknowledgeRead mark_read (mg_ConversationID m)) (MarkSent (mg_ID m) waid preview s))"

definition Drainer_Drain ::
  "whatsapp \<Rightarrow> (nat \<Rightarrow> inbox \<Rightarrow> inbox) \<Rightarrow> (nat \<Rightarrow> bool) \<Rightarrow> uuid \<Rightarrow> int \<Rightarrow> inbox
    \<Rightarrow> CSMessage list \<times> nat \<times> drain_end \<times> inbox" where
  "Drainer_Drain wp mid cancelled account limit s =
     drain_rows (\<lambda>m s. map_sum id (Pair (wp_MarkRead wp)) (drainer_send wp m s)) customer_sent
       (MarkFailed \<circ> mg_ID) mid cancelled 0 (ClaimQueued account limit s) [] 0 s"

section \<open>The customer outbox keeps the promise\<close>

definition is_queued :: "CSMessage \<Rightarrow> bool" where
  "is_queued m \<longleftrightarrow> mg_Status m = MessageQueued"

lemma saveArrived_kept:
  assumes "mg_ID row \<notin> mg_ID ` set (ib_messages s)" "\<And>s. ib_messages (touch row s) = ib_messages s"
  shows "settled_stay mg_ID is_queued (ib_messages s) (ib_messages (snd (saveArrived waid row touch seen s)))"
  using assms by (auto simp: saveArrived_def kept_snoc split: option.split)

lemma touches_no_message:
  "ib_messages (customerMessageStored waitid m s) = ib_messages s"
  "ib_messages (phoneMessageStored waitid m s) = ib_messages s"
  by (simp_all add: customerMessageStored_def phoneMessageStored_def record_wait_step(2) wait_steps bumpConversation_def
      markAnsweredFromPhone_def set_conversations_def)

lemma updateConversation_messages:
  "updateConversation c f s = Some s' \<Longrightarrow> ib_messages s' = ib_messages s"
  by (auto simp: updateConversation_def set_conversations_def split: if_splits)

lemma updateMessage_kept:
  assumes "updateMessage i f s = Some s'" "\<And>m. mg_ID (f m) = mg_ID m" "\<And>m. mg_Status (f m) \<noteq> MessageQueued"
  shows "settled_stay mg_ID is_queued (ib_messages s) (ib_messages s') \<and> i \<notin> waiting mg_ID is_queued (ib_messages s')"
  using assms update_settles [of mg_ID f is_queued i "ib_messages s"]
  by (auto simp: updateMessage_def is_queued_def intro!: kept_update split: if_splits)

lemma customer_kept:
  assumes "newid \<notin> mg_ID ` set (ib_messages s)"
  shows "settled_stay mg_ID is_queued (ib_messages s) (ib_messages (snd (handle_customer owner convid newid waitid now p i s)))"
proof (cases "FindOrCreate owner convid now p s")
  case (Pair found t)
  have t: "ib_messages t = ib_messages s"
    using arg_cong [OF Pair, of "\<lambda>r. ib_messages (snd r)"] by (simp add: FindOrCreate_def Let_def set_conversations_def split: option.splits)
  show ?thesis
  proof (cases found)
    case None
    then show ?thesis by (simp add: handle_customer_def Pair t)
  next
    case (Some v)
    have "settled_stay mg_ID is_queued (ib_messages t) (ib_messages (snd (SaveInbound newid waitid now (i (cv_ID v)) t t)))"
      unfolding SaveInbound_def using assms
      by (intro saveArrived_kept) (simp_all add: t touches_no_message inboundRow_def arrivedRow_def)
    then show ?thesis by (simp add: handle_customer_def Pair Some t)
  qed
qed

lemma inbox_step_kept:
  assumes "inbox_step s s'"
  shows "settled_stay mg_ID is_queued (ib_messages s) (ib_messages s')"
  using assms
proof (cases rule: inbox_step.cases)
  case (customer convid newid owner waitid now p i)
  then show ?thesis by (simp add: customer_kept)
next
  case (phone newid waitid now i seen)
  then show ?thesis unfolding phone SaveFromPhone_def
    by (intro saveArrived_kept) (simp_all add: touches_no_message phoneRow_def arrivedRow_def)
next
  case (reply newid now c sender kind body media replyTo)
  then show ?thesis
    unfolding reply(1) Queue_def Let_def using reply(2)
    by (auto simp: record_wait_step(2) wait_steps kept_snoc dest!: updateConversation_messages split: option.split)
next
  case (sent m waid preview)
  then show ?thesis by (auto simp: MarkSent_def split: if_splits dest!: updateMessage_kept)
next
  case (failed m reason)
  then show ?thesis unfolding MarkFailed_def by (auto dest!: updateMessage_kept)
next
  case (receipt waid st)
  then show ?thesis
    by (auto simp: ApplyReceipt_def updateMessage_def is_queued_def split: option.split intro!: kept_update)
next
  case (acknowledged ids)
  then show ?thesis by (auto simp: MarkInboundRead_def is_queued_def intro!: kept_update)
next
  case (claimed c u)
  then show ?thesis by (auto simp: ClaimForReply_def Let_def set_conversations_def split: option.split)
next
  case (opened c)
  then show ?thesis by (simp add: MarkRead_def Let_def set_conversations_def)
next
  case (closed c u now)
  then show ?thesis
    by (auto simp: Close_def record_wait_step(2) wait_steps dest!: updateConversation_messages)
qed (auto simp: Assign_def LinkONT_def dest!: updateConversation_messages)


lemma claimed_messages:
  assumes "inbox_ok s"
  shows "distinct (map mg_ID (ClaimQueued account limit s))
    \<and> mg_ID ` set (ClaimQueued account limit s) \<subseteq> waiting mg_ID is_queued (ib_messages s)"
  using assms unfolding ClaimQueued_def Let_def
  by (intro claimed_rows) (simp_all add: inbox_ok_def messages_ok_def is_queued_def)

lemma customer_sent_steps:
  assumes "customer_sent m r s = Some s'"
  shows "inbox_step\<^sup>*\<^sup>* s s' \<and> mg_ID m \<notin> waiting mg_ID is_queued (ib_messages s')"
proof -
  obtain mark_read waid preview where r: "r = (mark_read, waid, preview)" by (cases r)
  obtain t where t: "MarkSent (mg_ID m) waid preview s = Some t" and s': "s' = acknowledgeRead mark_read (mg_ConversationID m) t"
    using assms by (auto simp: customer_sent_def r)
  have "mg_ID m \<notin> waiting mg_ID is_queued (ib_messages t)"
    using t updateMessage_kept [of "mg_ID m" _ s t] by (auto simp: MarkSent_def split: if_splits)
  moreover have "s' = t \<or> (\<exists>ids. s' = MarkInboundRead ids t)"
    by (auto simp: s' acknowledgeRead_def Let_def split: option.split)
  moreover have "waiting mg_ID is_queued (ib_messages (MarkInboundRead ids t)) \<subseteq> waiting mg_ID is_queued (ib_messages t)" for ids
    by (auto simp: MarkInboundRead_def waiting_def is_queued_def set_update_where split: if_splits)
  ultimately show ?thesis
    using inbox_step.sent [OF t] inbox_step.acknowledged [of t] by (metis r_into_rtranclp rtranclp.rtrancl_into_rtrancl subsetD)
qed

lemma customer_failed_steps:
  assumes "(MarkFailed \<circ> mg_ID) m e s = Some s'"
  shows "inbox_step\<^sup>*\<^sup>* s s' \<and> mg_ID m \<notin> waiting mg_ID is_queued (ib_messages s')"
  using assms updateMessage_kept [of "mg_ID m" _ s s'] inbox_step.failed [of "mg_ID m" e s s']
  by (auto simp: MarkFailed_def)

interpretation customers: outbox inbox_ok inbox_step "\<lambda>s. waiting mg_ID is_queued (ib_messages s)" "\<lambda>s. mg_ID ` set (ib_messages s)"
    mg_ID "ClaimQueued account" customer_sent "MarkFailed \<circ> mg_ID" for account
proof
  fix s s' assume "inbox_step s s'"
  then show "inbox_ok s \<Longrightarrow> inbox_ok s'" "mg_ID ` set (ib_messages s) \<subseteq> mg_ID ` set (ib_messages s')"
    "waiting mg_ID is_queued (ib_messages s') \<inter> mg_ID ` set (ib_messages s) \<subseteq> waiting mg_ID is_queued (ib_messages s)"
    using step_ok inbox_step_kept by (auto simp: settled_stay_def)
qed (rule waiting_known, erule claimed_messages, erule customer_sent_steps, erule customer_failed_steps)

text \<open>One drain that did not stop at an outcome it could not record, whatever the others did meanwhile.\<close>

definition customer_drain :: "uuid \<Rightarrow> inbox \<Rightarrow> CSMessage list \<Rightarrow> inbox \<Rightarrow> bool" where
  "customer_drain account s log s' \<longleftrightarrow>
     (\<exists>wp mid cancelled limit n e. calm inbox_ok inbox_step mid \<and> e \<noteq> DrainUnrecorded
        \<and> Drainer_Drain wp mid cancelled account limit s = (log, n, e, s'))"


text \<open>A drain that runs to its end leaves nothing it claimed waiting: every message that was waiting when it began, up to the
  limit, is no longer queued when it ends, and it reports exactly as many as WhatsApp accepted.\<close>

theorem drain_settles:
  assumes "Drainer_Drain wp mid cancelled account limit s = (log, n, DrainDone, s')" "inbox_ok s"
    and "\<And>i s. inbox_ok s \<Longrightarrow> inbox_step\<^sup>*\<^sup>* s (mid i s)"
  shows "(\<forall>m \<in> set (ClaimQueued account limit s). \<forall>m' \<in> set (ib_messages s'). mg_ID m' = mg_ID m \<longrightarrow> mg_Status m' \<noteq> MessageQueued)
    \<and> set log \<subseteq> set (ClaimQueued account limit s) \<and> n = length log \<and> distinct (map mg_ID log)"
proof -
  have "calm inbox_ok inbox_step mid" using assms(3) by (simp add: calm_def)
  from customers.drains [OF assms(2) this assms(1) [unfolded Drainer_Drain_def]]
  have d: "distinct (map mg_ID log)" "set log \<subseteq> set (ClaimQueued account limit s)" "n = length log"
    "mg_ID ` set (ClaimQueued account limit s) \<inter> waiting mg_ID is_queued (ib_messages s') = {}" by simp_all
  then show ?thesis by (auto simp: waiting_def is_queued_def)
qed


section \<open>One answer goes out\<close>

definition sample_whatsapp :: whatsapp where
  "sample_whatsapp =
     \<lparr>wp_Resolve = (\<lambda>_. None), wp_SendText = (\<lambda>jid body q preview. if body = [] then Inl ''empty'' else Inr ''W''),
      wp_SendMedia = (\<lambda>_ _ _ _ _. Inl ''no media''), wp_MarkRead = (\<lambda>_ _. True)\<rparr>"

definition sample_waiting :: inbox where
  "sample_waiting = snd (Queue 20 30 1 5 ''text'' ''ya'' None None sample_thread)"

definition sample_drain :: "CSMessage list \<times> nat \<times> drain_end \<times> inbox" where
  "sample_drain = Drainer_Drain sample_whatsapp (\<lambda>_ s. s) (\<lambda>_. False) 7 10 sample_waiting"

lemma sample_waiting_ok: "inbox_ok sample_waiting"
  by code_simp

lemma sample_drained: "fst (snd sample_drain) = 1 \<and> fst (snd (snd sample_drain)) = DrainDone \<and> map mg_ID (fst sample_drain) = [20]"
  by code_simp


theorem drain_settles_witness:
  "(\<forall>m \<in> set (ClaimQueued 7 10 sample_waiting). \<forall>m' \<in> set (ib_messages (snd (snd (snd sample_drain)))).
      mg_ID m' = mg_ID m \<longrightarrow> mg_Status m' \<noteq> MessageQueued) \<and> map mg_ID (ClaimQueued 7 10 sample_waiting) = [20]"
proof -
  have "Drainer_Drain sample_whatsapp (\<lambda>_ s. s) (\<lambda>_. False) 7 10 sample_waiting
      = (fst sample_drain, 1, DrainDone, snd (snd (snd sample_drain)))"
    using sample_drained by (simp add: sample_drain_def [symmetric] prod_eq_iff)
  note d = drain_settles [OF this sample_waiting_ok]
  moreover have "map mg_ID (ClaimQueued 7 10 sample_waiting) = [20]" by code_simp
  ultimately show ?thesis by simp
qed


section \<open>What the code does not promise\<close>

text \<open>The mutex belongs to a drain, and a session that is restarted gets a new one, while a drain of the old session that was
  started by an announcement goes on: two drains that overlap hand over the same message twice.\<close>

lemma overlapping_drains_answer_twice:
  "map mg_ID (fst (Drainer_Drain sample_whatsapp (\<lambda>_ s. s) (\<lambda>_. False) 7 10 sample_waiting)) = [20]
   \<and> map mg_ID (fst (Drainer_Drain sample_whatsapp
        (\<lambda>_ s. snd (snd (snd (Drainer_Drain sample_whatsapp (\<lambda>_ s. s) (\<lambda>_. False) 7 10 s)))) (\<lambda>_. False) 7 10 sample_waiting)) = [20]"
  by code_simp

end
