(* ===== verification/GroupChat.thy ===== *)
theory GroupChat
  imports CsInbox GoText "HOL-Library.Product_Lexorder"
begin

text \<open>
  WhatsApp groups: their messages in both directions (\<open>services/wa_group_message_service.go\<close>), the outbox they are
  (\<open>wa_group_outbox.go\<close>), what happens to a message afterwards (\<open>wa_group_message_changes.go\<close>, \<open>wa_group_receipts.go\<close>,
  \<open>wa_group_polls.go\<close>) and the mentions in them (\<open>wa_group_mentions.go\<close>), over the tables of \<open>models/wa_group.go\<close>,
  \<open>wa_group_message.go\<close> and \<open>wa_group_extras.go\<close>.

  Texts are lists of code points, since they are cut by runes. A list of members kept as JSON is the list, and the JSON of
  a poll is read and written by parameters. Identifiers are random and the clock is read by the caller. A transaction is one
  step. The groups themselves mirror what WhatsApp lists (\<open>wa_group_service.go\<close>, \<open>wa_group_people.go\<close>).
\<close>

section \<open>Tables\<close>

datatype GroupRole = GroupRoleMember | GroupRoleAdmin | GroupRoleSuperAdmin

record WAGroup =
  gr_ID :: uuid
  gr_WAAccountID :: uuid
  gr_JID :: string
  gr_Name :: str
  gr_Topic :: str
  gr_TopicID :: string
  gr_OwnerJID :: string
  gr_ParticipantCount :: int
  gr_IsAdmin :: bool
  gr_Announce :: bool
  gr_Locked :: bool
  gr_Left :: bool
  gr_PinnedAt :: "time option"
  gr_LastMessageAt :: "time option"
  gr_LastMessagePreview :: str
  gr_LastMessageKind :: string
  gr_LastMessageSender :: str
  gr_LastMessageDirection :: "MessageDirection option"
  gr_UnreadCount :: int
  gr_SyncedAt :: "time option"

record WAGroupParticipant =
  gp_GroupID :: uuid
  gp_JID :: string
  gp_LID :: string
  gp_Phone :: string
  gp_Name :: str
  gp_PushName :: str
  gp_Role :: GroupRole
  gp_IsSelf :: bool

record GroupActor =
  ga_JID :: string
  ga_Name :: str
  ga_IsSelf :: bool

record WAGroupMessage =
  gm_ID :: uuid
  gm_GroupID :: uuid
  gm_WAMessageID :: "string option"
  gm_Direction :: MessageDirection
  gm_SenderJID :: string
  gm_SenderPhone :: string
  gm_SenderName :: str
  gm_SenderPushName :: str
  gm_SenderUserID :: "uuid option"
  gm_Kind :: string
  gm_Body :: str
  gm_Media :: "MediaFile option"
  gm_Status :: MessageStatus
  gm_FailReason :: string
  gm_ReplyToID :: "uuid option"
  gm_Mentions :: "string list"
  gm_Extra :: string
  gm_Edited :: bool
  gm_Deleted :: bool
  gm_Forwarded :: bool
  gm_StarredAt :: "time option"
  gm_MemberCount :: int
  gm_Preview :: "Preview option"
  gm_WATimestamp :: time
  gm_CreatedAt :: time

record WAGroupReceipt =
  rc_MessageID :: uuid
  rc_ReaderJID :: string
  rc_DeliveredAt :: "time option"
  rc_ReadAt :: "time option"

record WAGroupReaction =
  rx_MessageID :: uuid
  rx_Reactor :: GroupActor
  rx_Emoji :: string

record WAGroupPollVote =
  vt_MessageID :: uuid
  vt_Voter :: GroupActor
  vt_Options :: "str list"

record group_store =
  st_groups :: "WAGroup list"
  st_members :: "WAGroupParticipant list"
  st_messages :: "WAGroupMessage list"
  st_receipts :: "WAGroupReceipt list"
  st_reactions :: "WAGroupReaction list"
  st_votes :: "WAGroupPollVote list"

section \<open>The mirror of the groups\<close>

record GroupSnapshot =
  sn_JID :: string
  sn_Name :: str
  sn_Topic :: str
  sn_TopicID :: string
  sn_OwnerJID :: string
  sn_IsAdmin :: bool
  sn_Announce :: bool
  sn_Locked :: bool
  sn_Participants :: "WAGroupParticipant list"

definition names_group :: "uuid \<Rightarrow> string \<Rightarrow> WAGroup \<Rightarrow> bool" where
  "names_group account jid g \<longleftrightarrow> gr_WAAccountID g = account \<and> gr_JID g = jid"

definition groupByJID :: "uuid \<Rightarrow> string \<Rightarrow> group_store \<Rightarrow> WAGroup option" where
  "groupByJID account jid s = find (names_group account jid) (st_groups s)"

definition bare_group :: "uuid \<Rightarrow> uuid \<Rightarrow> string \<Rightarrow> WAGroup" where
  "bare_group newid account jid =
     \<lparr>gr_ID = newid, gr_WAAccountID = account, gr_JID = jid, gr_Name = [], gr_Topic = [], gr_TopicID = [], gr_OwnerJID = [],
      gr_ParticipantCount = 0, gr_IsAdmin = False, gr_Announce = False, gr_Locked = False, gr_Left = False, gr_PinnedAt = None,
      gr_LastMessageAt = None, gr_LastMessagePreview = [], gr_LastMessageKind = [], gr_LastMessageSender = [],
      gr_LastMessageDirection = None, gr_UnreadCount = 0, gr_SyncedAt = None\<rparr>"

definition as_listed :: "time \<Rightarrow> GroupSnapshot \<Rightarrow> WAGroup \<Rightarrow> WAGroup" where
  "as_listed now snap g =
     g\<lparr>gr_Name := sn_Name snap, gr_Topic := sn_Topic snap, gr_TopicID := sn_TopicID snap, gr_OwnerJID := sn_OwnerJID snap,
       gr_ParticipantCount := int (length (sn_Participants snap)), gr_IsAdmin := sn_IsAdmin snap,
       gr_Announce := sn_Announce snap, gr_Locked := sn_Locked snap, gr_Left := False, gr_SyncedAt := Some now\<rparr>"

text \<open>The last row of an address is the one whose name is kept.\<close>

definition push_names :: "uuid \<Rightarrow> WAGroupParticipant list \<Rightarrow> string \<Rightarrow> str" where
  "push_names g members jid =
     (case find (\<lambda>m. gp_GroupID m = g \<and> gp_PushName m \<noteq> [] \<and> gp_JID m = jid) (rev members) of
        None \<Rightarrow> [] | Some m \<Rightarrow> gp_PushName m)"

definition replaceParticipants ::
  "uuid \<Rightarrow> WAGroupParticipant list \<Rightarrow> WAGroupParticipant list \<Rightarrow> WAGroupParticipant list" where
  "replaceParticipants g members rows =
     filter (\<lambda>m. gp_GroupID m \<noteq> g) rows
     @ map (\<lambda>m. m\<lparr>gp_GroupID := g,
                  gp_PushName := (if gp_PushName m = [] then push_names g rows (gp_JID m) else gp_PushName m)\<rparr>) members"

definition upsertGroup ::
  "uuid \<Rightarrow> time \<Rightarrow> uuid \<Rightarrow> GroupSnapshot \<Rightarrow> group_store \<Rightarrow> group_store" where
  "upsertGroup newid now account snap s =
     (let groups = (if list_ex (names_group account (sn_JID snap)) (st_groups s)
                    then update_where (names_group account (sn_JID snap)) (as_listed now snap) (st_groups s)
                    else st_groups s @ [as_listed now snap (bare_group newid account (sn_JID snap))])
      in case find (names_group account (sn_JID snap)) groups of
           None \<Rightarrow> s
         | Some g \<Rightarrow> s\<lparr>st_groups := groups, st_members := replaceParticipants (gr_ID g) (sn_Participants snap) (st_members s)\<rparr>)"

fun upsert_all :: "(nat \<Rightarrow> uuid) \<Rightarrow> time \<Rightarrow> uuid \<Rightarrow> nat \<Rightarrow> GroupSnapshot list \<Rightarrow> group_store \<Rightarrow> group_store" where
  "upsert_all newid now account k [] s = s"
| "upsert_all newid now account k (snap # snaps) s =
     upsert_all newid now account (Suc k) snaps (upsertGroup (newid k) now account snap s)"

definition SyncAll :: "(nat \<Rightarrow> uuid) \<Rightarrow> time \<Rightarrow> uuid \<Rightarrow> GroupSnapshot list \<Rightarrow> group_store \<Rightarrow> group_store" where
  "SyncAll newid now account snaps s =
     (let s = upsert_all newid now account 0 snaps s
      in s\<lparr>st_groups := update_where
             (\<lambda>g. gr_WAAccountID g = account \<and> \<not> gr_Left g \<and> (snaps = [] \<or> gr_JID g \<notin> sn_JID ` set snaps))
             (\<lambda>g. g\<lparr>gr_Left := True\<rparr>) (st_groups s)\<rparr>)"

definition FindOrCreate :: "uuid \<Rightarrow> uuid \<Rightarrow> string \<Rightarrow> group_store \<Rightarrow> WAGroup option \<times> bool \<times> group_store" where
  "FindOrCreate newid account jid s =
     (if list_ex (names_group account jid) (st_groups s) then (groupByJID account jid s, False, s)
      else let s = s\<lparr>st_groups := st_groups s @ [bare_group newid account jid]\<rparr> in (groupByJID account jid s, True, s))"

definition MarkLeft :: "uuid \<Rightarrow> string \<Rightarrow> group_store \<Rightarrow> group_store" where
  "MarkLeft account jid s =
     s\<lparr>st_groups := update_where (names_group account jid) (\<lambda>g. g\<lparr>gr_Left := True\<rparr>) (st_groups s)\<rparr>"

definition MarkRead :: "uuid \<Rightarrow> group_store \<Rightarrow> bool \<times> group_store" where
  "MarkRead i s =
     (list_ex (\<lambda>g. gr_ID g = i \<and> gr_UnreadCount g > 0) (st_groups s),
      s\<lparr>st_groups := update_where (\<lambda>g. gr_ID g = i \<and> gr_UnreadCount g > 0) (\<lambda>g. g\<lparr>gr_UnreadCount := 0\<rparr>) (st_groups s)\<rparr>)"

definition NotePushName :: "uuid \<Rightarrow> string list \<Rightarrow> str \<Rightarrow> group_store \<Rightarrow> group_store" where
  "NotePushName g addresses name s =
     (if name = [] \<or> addresses = [] then s
      else s\<lparr>st_members := update_where
             (\<lambda>m. gp_GroupID m = g \<and> (gp_JID m \<in> set addresses \<or> gp_LID m \<in> set addresses) \<and> gp_PushName m \<noteq> name)
             (\<lambda>m. m\<lparr>gp_PushName := name\<rparr>) (st_members s)\<rparr>)"

definition SetPinned :: "uuid \<Rightarrow> bool \<Rightarrow> time \<Rightarrow> group_store \<Rightarrow> WAGroup option \<times> group_store" where
  "SetPinned i pinned now s =
     (let s = s\<lparr>st_groups := update_where (\<lambda>g. gr_ID g = i) (\<lambda>g. g\<lparr>gr_PinnedAt := (if pinned then Some now else None)\<rparr>)
                (st_groups s)\<rparr>
      in (find (\<lambda>g. gr_ID g = i) (st_groups s), s))"

definition MembersOtherThanUs :: "uuid \<Rightarrow> group_store \<Rightarrow> int" where
  "MembersOtherThanUs g s = int (length (filter (\<lambda>m. gp_GroupID m = g \<and> \<not> gp_IsSelf m) (st_members s)))"

section \<open>Mentions\<close>

fun uniqueStrings :: "'a list \<Rightarrow> 'a list" where
  "uniqueStrings [] = []"
| "uniqueStrings (v # vs) = v # uniqueStrings (filter (\<lambda>w. w \<noteq> v) vs)"

definition encodeJIDs :: "string list \<Rightarrow> string list" where
  "encodeJIDs jids = uniqueStrings jids"

definition jidUser :: "string \<Rightarrow> string" where
  "jidUser address = (case Cut address CHR ''@'' of (user, _, found) \<Rightarrow> if found then user else [])"

definition member_label :: "WAGroupParticipant \<Rightarrow> str" where
  "member_label m =
     (if gp_Name m \<noteq> [] then gp_Name m else if gp_PushName m \<noteq> [] then gp_PushName m else lit (gp_Phone m))"

definition member_keys :: "WAGroupParticipant \<Rightarrow> string list" where
  "member_keys m =
     filter (\<lambda>user. user \<noteq> []) [jidUser (gp_JID m), jidUser (gp_LID m)] @ (if gp_Phone m \<noteq> [] then [gp_Phone m] else [])"

text \<open>A later member of the same address takes its entry.\<close>

definition MemberNames :: "WAGroupParticipant list \<Rightarrow> string \<Rightarrow> str option" where
  "MemberNames members =
     fold (\<lambda>m names. if member_label m = [] then names else fold (\<lambda>k names. names(k \<mapsto> member_label m)) (member_keys m) names)
       members (\<lambda>_. None)"

text \<open>\<open>strings.ReplaceAll\<close> of a text that is not empty.\<close>

function ReplaceAll :: "'a list \<Rightarrow> 'a list \<Rightarrow> 'a list \<Rightarrow> 'a list" where
  "ReplaceAll s old new =
     (if old = [] then s
      else case s of
        [] \<Rightarrow> []
      | c # cs \<Rightarrow> if take (length old) s = old then new @ ReplaceAll (drop (length old) s) old new
                  else c # ReplaceAll cs old new)"
  by pat_completeness auto

termination
  by (relation "measure (\<lambda>(s, old, new). length s)") auto

declare ReplaceAll.simps [simp del]

definition ResolveMentions :: "str \<Rightarrow> string list \<Rightarrow> (string \<Rightarrow> str option) \<Rightarrow> str" where
  "ResolveMentions body mentioned names =
     foldl (\<lambda>body jid. let user = jidUser jid in
              case names user of
                Some name \<Rightarrow> if user \<noteq> [] then ReplaceAll body (lit (CHR ''@'' # user)) (lit ''@'' @ name) else body
              | None \<Rightarrow> body) body mentioned"

definition memberNamesOf :: "uuid \<Rightarrow> group_store \<Rightarrow> string \<Rightarrow> str option" where
  "memberNamesOf g s = MemberNames (filter (\<lambda>m. gp_GroupID m = g) (st_members s))"

definition withNames :: "uuid \<Rightarrow> str \<Rightarrow> string list \<Rightarrow> group_store \<Rightarrow> str" where
  "withNames g body jids s = (if jids = [] then body else ResolveMentions body jids (memberNamesOf g s))"

definition maxMentions :: nat where "maxMentions = 1024"

text \<open>A participant row names one member of one group.\<close>

definition CheckMentions :: "uuid \<Rightarrow> string list \<Rightarrow> group_store \<Rightarrow> bool" where
  "CheckMentions g jids s =
     (length jids \<le> maxMentions \<and>
      (jids = [] \<or> length (filter (\<lambda>m. gp_GroupID m = g \<and> gp_JID m \<in> set jids) (st_members s)) = length (uniqueStrings jids)))"

section \<open>Messages\<close>

definition groupPreviewRunes :: nat where "groupPreviewRunes = 255"

definition clampRunes :: "str \<Rightarrow> nat \<Rightarrow> str" where
  "clampRunes s limit = (if length s \<le> limit then s else take limit s)"

definition bump_sender :: "WAGroupMessage \<Rightarrow> str" where
  "bump_sender m =
     (let sender = gm_SenderName m;
          sender = (if sender = [] \<and> gm_SenderPushName m \<noteq> [] then lit ''~'' @ gm_SenderPushName m else sender)
      in if sender = [] then lit (gm_SenderPhone m) else sender)"

definition bumpGroup :: "WAGroupMessage \<Rightarrow> str \<Rightarrow> bool \<Rightarrow> group_store \<Rightarrow> group_store" where
  "bumpGroup m preview unread s =
     s\<lparr>st_groups := update_where
         (\<lambda>g. gr_ID g = gm_GroupID m \<and> (case gr_LastMessageAt g of None \<Rightarrow> True | Some t \<Rightarrow> t \<le> gm_WATimestamp m))
         (\<lambda>g. g\<lparr>gr_LastMessageAt := Some (gm_WATimestamp m), gr_LastMessagePreview := clampRunes preview groupPreviewRunes,
                gr_LastMessageKind := gm_Kind m, gr_LastMessageSender := clampRunes (bump_sender m) groupPreviewRunes,
                gr_LastMessageDirection := Some (gm_Direction m),
                gr_UnreadCount := (if unread then gr_UnreadCount g + 1 else gr_UnreadCount g)\<rparr>)
         (st_groups s)\<rparr>"

definition group_message :: "uuid \<Rightarrow> string \<Rightarrow> group_store \<Rightarrow> WAGroupMessage option" where
  "group_message g waid s = find (\<lambda>m. gm_GroupID m = g \<and> gm_WAMessageID m = Some waid) (st_messages s)"

record GroupArrival =
  ar_GroupID :: uuid
  ar_WAMessageID :: string
  ar_Direction :: MessageDirection
  ar_SenderJID :: string
  ar_SenderPhone :: string
  ar_SenderName :: str
  ar_SenderPushName :: str
  ar_Kind :: string
  ar_Body :: str
  ar_Media :: "MediaFile option"
  ar_ReplyToWAID :: string
  ar_Preview :: "Preview option"
  ar_At :: time
  ar_Mentions :: "string list"
  ar_Extra :: string
  ar_Forwarded :: bool

definition quotedGroupRow :: "uuid \<Rightarrow> string \<Rightarrow> group_store \<Rightarrow> uuid option" where
  "quotedGroupRow g waid s = (if waid = [] then None else map_option gm_ID (group_message g waid s))"

definition arrivedGroupRow :: "uuid \<Rightarrow> time \<Rightarrow> GroupArrival \<Rightarrow> group_store \<Rightarrow> WAGroupMessage" where
  "arrivedGroupRow newid now i s =
     \<lparr>gm_ID = newid, gm_GroupID = ar_GroupID i, gm_WAMessageID = Some (ar_WAMessageID i), gm_Direction = ar_Direction i,
      gm_SenderJID = ar_SenderJID i, gm_SenderPhone = ar_SenderPhone i, gm_SenderName = ar_SenderName i,
      gm_SenderPushName = ar_SenderPushName i, gm_SenderUserID = None, gm_Kind = ar_Kind i, gm_Body = ar_Body i,
      gm_Media = ar_Media i, gm_Status = (if ar_Direction i = MessageOut then MessageSent else MessageDelivered),
      gm_FailReason = [], gm_ReplyToID = quotedGroupRow (ar_GroupID i) (ar_ReplyToWAID i) s,
      gm_Mentions = encodeJIDs (ar_Mentions i), gm_Extra = ar_Extra i, gm_Edited = False, gm_Deleted = False,
      gm_Forwarded = ar_Forwarded i, gm_StarredAt = None, gm_MemberCount = 0, gm_Preview = ar_Preview i,
      gm_WATimestamp = ar_At i, gm_CreatedAt = now\<rparr>"

text \<open>\<open>seen\<close> is the table the look-up saw; migration 68's index refuses a message stored in between, which is then read back. A
  row's group is a foreign key. The answer is the message and whether this call stored it.\<close>

definition SaveArrived ::
  "uuid \<Rightarrow> time \<Rightarrow> GroupArrival \<Rightarrow> group_store \<Rightarrow> group_store \<Rightarrow> (WAGroupMessage \<times> bool) option \<times> group_store" where
  "SaveArrived newid now i seen s =
     (case group_message (ar_GroupID i) (ar_WAMessageID i) seen of
        Some m \<Rightarrow> (Some (m, False), s)
      | None \<Rightarrow>
          (case group_message (ar_GroupID i) (ar_WAMessageID i) s of
             Some m \<Rightarrow> (Some (m, False), s)
           | None \<Rightarrow>
               if \<not> list_ex (\<lambda>g. gr_ID g = ar_GroupID i) (st_groups s) then (None, s)
               else let m = arrivedGroupRow newid now i s
                    in (Some (m, True),
                        bumpGroup m (gm_Body m) (ar_Direction i = MessageIn \<and> ar_Kind i \<noteq> ''system'')
                          (s\<lparr>st_messages := st_messages s @ [m]\<rparr>))))"

record GroupOutgoing =
  og_GroupID :: uuid
  og_SenderUserID :: uuid
  og_SenderName :: str
  og_Kind :: string
  og_Body :: str
  og_Media :: "MediaFile option"
  og_ReplyToID :: "uuid option"
  og_Mentions :: "string list"
  og_Extra :: string
  og_Forwarded :: bool
  og_MemberCount :: int

definition Queue ::
  "uuid \<Rightarrow> time \<Rightarrow> GroupOutgoing \<Rightarrow> group_store \<Rightarrow> WAGroupMessage option \<times> group_store" where
  "Queue newid now out s =
     (if \<not> list_ex (\<lambda>g. gr_ID g = og_GroupID out) (st_groups s) then (None, s)
      else let m = \<lparr>gm_ID = newid, gm_GroupID = og_GroupID out, gm_WAMessageID = None, gm_Direction = MessageOut,
                    gm_SenderJID = [], gm_SenderPhone = [], gm_SenderName = og_SenderName out, gm_SenderPushName = [],
                    gm_SenderUserID = Some (og_SenderUserID out), gm_Kind = og_Kind out, gm_Body = og_Body out,
                    gm_Media = og_Media out, gm_Status = MessageQueued, gm_FailReason = [], gm_ReplyToID = og_ReplyToID out,
                    gm_Mentions = encodeJIDs (og_Mentions out), gm_Extra = og_Extra out, gm_Edited = False,
                    gm_Deleted = False, gm_Forwarded = og_Forwarded out, gm_StarredAt = None,
                    gm_MemberCount = og_MemberCount out, gm_Preview = None, gm_WATimestamp = now, gm_CreatedAt = now\<rparr>;
               s' = s\<lparr>st_messages := st_messages s @ [m]\<rparr>
           in (Some m, bumpGroup m (withNames (gm_GroupID m) (gm_Body m) (og_Mentions out) s') False s'))"

definition QuoteTarget :: "uuid \<Rightarrow> uuid \<Rightarrow> group_store \<Rightarrow> inbox_error + WAGroupMessage" where
  "QuoteTarget g i s =
     (case find (\<lambda>m. gm_ID m = i \<and> gm_GroupID m = g) (st_messages s) of
        None \<Rightarrow> Inl ErrQuoteNotInThread
      | Some m \<Rightarrow> if gm_WAMessageID m = None then Inl ErrQuoteNotSent else Inr m)"

definition Get :: "uuid \<Rightarrow> group_store \<Rightarrow> WAGroupMessage option" where
  "Get i s = find (\<lambda>m. gm_ID m = i) (st_messages s)"

definition group_update :: "uuid \<Rightarrow> (WAGroupMessage \<Rightarrow> WAGroupMessage) \<Rightarrow> group_store \<Rightarrow> group_store option" where
  "group_update i f s =
     (if list_ex (\<lambda>m. gm_ID m = i) (st_messages s)
      then Some (s\<lparr>st_messages := update_where (\<lambda>m. gm_ID m = i) f (st_messages s)\<rparr>) else None)"

section \<open>The outbox\<close>

text \<open>A waiting message with the address of its group.\<close>

definition ClaimQueued :: "uuid \<Rightarrow> int \<Rightarrow> group_store \<Rightarrow> (WAGroupMessage \<times> string) list" where
  "ClaimQueued account limit s =
     (let limit = (if limit \<le> 0 then defaultHistoryLimit else limit)
      in take (nat limit)
           (sort_key (gm_CreatedAt \<circ> fst)
             (concat (map (\<lambda>m. map (Pair m \<circ> gr_JID)
                 (filter (\<lambda>g. gr_ID g = gm_GroupID m \<and> gr_WAAccountID g = account) (st_groups s)))
               (filter (\<lambda>m. gm_Status m = MessageQueued) (st_messages s))))))"

definition MarkSent :: "uuid \<Rightarrow> string \<Rightarrow> Preview option \<Rightarrow> group_store \<Rightarrow> group_store option" where
  "MarkSent i waid preview s =
     (if \<exists>m \<in> set (st_messages s). gm_ID m = i \<and>
           list_ex (\<lambda>m'. gm_ID m' \<noteq> i \<and> gm_GroupID m' = gm_GroupID m \<and> gm_WAMessageID m' = Some waid) (st_messages s)
      then None
      else group_update i
             (\<lambda>m. m\<lparr>gm_WAMessageID := Some waid, gm_Status := MessageSent, gm_FailReason := [],
                    gm_Preview := (if preview = None then gm_Preview m else preview)\<rparr>) s)"

definition MarkFailed :: "uuid \<Rightarrow> string \<Rightarrow> group_store \<Rightarrow> group_store option" where
  "MarkFailed i reason = group_update i (\<lambda>m. m\<lparr>gm_Status := MessageFailed, gm_FailReason := reason\<rparr>)"

section \<open>What happens to a message afterwards\<close>

definition MessageByWAID :: "uuid \<Rightarrow> string \<Rightarrow> group_store \<Rightarrow> WAGroupMessage option" where
  "MessageByWAID g waid s = group_message g waid s"

definition MarkEdited :: "uuid \<Rightarrow> str \<Rightarrow> string list \<Rightarrow> group_store \<Rightarrow> group_store option" where
  "MarkEdited i body mentions = group_update i (\<lambda>m. m\<lparr>gm_Body := body, gm_Mentions := encodeJIDs mentions, gm_Edited := True\<rparr>)"

text \<open>The kind, the name and the type of a file stay; its path and size go. The answer is the path it had.\<close>

definition emptied :: "WAGroupMessage \<Rightarrow> WAGroupMessage" where
  "emptied m =
     m\<lparr>gm_Body := [], gm_Media := map_option (\<lambda>f. f\<lparr>mf_Path := [], mf_Size := 0\<rparr>) (gm_Media m), gm_Mentions := [],
       gm_Extra := [], gm_Deleted := True, gm_Preview := None\<rparr>"

definition MarkDeleted :: "uuid \<Rightarrow> group_store \<Rightarrow> (string \<times> group_store) option" where
  "MarkDeleted i s =
     (case Get i s of
        None \<Rightarrow> None
      | Some m \<Rightarrow>
          (case group_update i emptied s of
             None \<Rightarrow> None
           | Some s \<Rightarrow> Some (case gm_Media m of None \<Rightarrow> [] | Some f \<Rightarrow> mf_Path f,
                             s\<lparr>st_reactions := filter (\<lambda>r. rx_MessageID r \<noteq> i) (st_reactions s)\<rparr>)))"

text \<open>A row of a member's own on a message, replaced when it is there (\<open>ON CONFLICT\<close>).\<close>

definition upsert :: "('r \<Rightarrow> bool) \<Rightarrow> ('r \<Rightarrow> 'r) \<Rightarrow> 'r \<Rightarrow> 'r list \<Rightarrow> 'r list" where
  "upsert P f row rows = (if list_ex P rows then update_where P f rows else rows @ [row])"

definition reaction_of :: "uuid \<Rightarrow> string \<Rightarrow> WAGroupReaction \<Rightarrow> bool" where
  "reaction_of i jid r \<longleftrightarrow> rx_MessageID r = i \<and> ga_JID (rx_Reactor r) = jid"

definition known_message :: "uuid \<Rightarrow> group_store \<Rightarrow> bool" where
  "known_message i s \<longleftrightarrow> list_ex (\<lambda>m. gm_ID m = i) (st_messages s)"

definition SetReaction :: "uuid \<Rightarrow> GroupActor \<Rightarrow> string \<Rightarrow> group_store \<Rightarrow> group_store option" where
  "SetReaction i actor emoji s =
     (if emoji = [] then Some (s\<lparr>st_reactions := filter (\<lambda>r. \<not> reaction_of i (ga_JID actor) r) (st_reactions s)\<rparr>)
      else if \<not> known_message i s then None
      else Some (s\<lparr>st_reactions := upsert (reaction_of i (ga_JID actor))
             (\<lambda>r. r\<lparr>rx_Reactor := (rx_Reactor r)\<lparr>ga_Name := ga_Name actor\<rparr>, rx_Emoji := emoji\<rparr>)
             \<lparr>rx_MessageID = i, rx_Reactor = actor, rx_Emoji = emoji\<rparr> (st_reactions s)\<rparr>))"

definition SetStarred :: "uuid \<Rightarrow> bool \<Rightarrow> time \<Rightarrow> group_store \<Rightarrow> group_store option" where
  "SetStarred i starred now = group_update i (\<lambda>m. m\<lparr>gm_StarredAt := (if starred then Some now else None)\<rparr>)"

definition OldestAnchor :: "uuid \<Rightarrow> group_store \<Rightarrow> WAGroupMessage option" where
  "OldestAnchor g s =
     min_row (\<lambda>m. (gm_WATimestamp m, gm_ID m))
       (filter (\<lambda>m. gm_GroupID m = g \<and> gm_WAMessageID m \<noteq> None \<and> gm_Kind m \<noteq> ''system'') (st_messages s))"

section \<open>Receipts\<close>

definition receipt_of :: "uuid \<Rightarrow> string \<Rightarrow> WAGroupReceipt \<Rightarrow> bool" where
  "receipt_of i reader r \<longleftrightarrow> rc_MessageID r = i \<and> rc_ReaderJID r = reader"

text \<open>The message is the row that was loaded before the transaction.\<close>

definition moveTicks :: "WAGroupMessage \<Rightarrow> group_store \<Rightarrow> group_store" where
  "moveTicks m s =
     (let readers = length (filter (\<lambda>r. rc_MessageID r = gm_ID m \<and> rc_ReadAt r \<noteq> None) (st_receipts s));
          status = (if gm_MemberCount m > 0 \<and> int readers \<ge> gm_MemberCount m then MessageRead else MessageDelivered)
      in if receiptRank status \<le> receiptRank (gm_Status m) then s
         else s\<lparr>st_messages := update_where (\<lambda>m'. gm_ID m' = gm_ID m) (\<lambda>m'. m'\<lparr>gm_Status := status\<rparr>) (st_messages s)\<rparr>)"

definition applyOneReceipt :: "WAGroupMessage \<Rightarrow> string \<Rightarrow> bool \<Rightarrow> time \<Rightarrow> group_store \<Rightarrow> group_store option" where
  "applyOneReceipt m reader read seen_at s =
     (if \<not> known_message (gm_ID m) s then None
      else Some (moveTicks m (s\<lparr>st_receipts := upsert (receipt_of (gm_ID m) reader)
             (\<lambda>r. if read then r\<lparr>rc_DeliveredAt := Some seen_at, rc_ReadAt := Some seen_at\<rparr> else r\<lparr>rc_DeliveredAt := Some seen_at\<rparr>)
             \<lparr>rc_MessageID = gm_ID m, rc_ReaderJID = reader, rc_DeliveredAt = Some seen_at,
              rc_ReadAt = (if read then Some seen_at else None)\<rparr> (st_receipts s)\<rparr>)))"

fun receive_all ::
  "WAGroupMessage list \<Rightarrow> string \<Rightarrow> bool \<Rightarrow> time \<Rightarrow> group_store \<Rightarrow> uuid list \<times> bool \<times> group_store" where
  "receive_all [] reader read seen_at s = ([], True, s)"
| "receive_all (m # ms) reader read seen_at s =
     (case applyOneReceipt m reader read seen_at s of
        None \<Rightarrow> ([], False, s)
      | Some s \<Rightarrow> (case receive_all ms reader read seen_at s of (moved, ok, s) \<Rightarrow> (gm_ID m # moved, ok, s)))"

definition ApplyReceipt ::
  "uuid \<Rightarrow> string list \<Rightarrow> string \<Rightarrow> bool \<Rightarrow> time \<Rightarrow> group_store \<Rightarrow> uuid list \<times> bool \<times> group_store" where
  "ApplyReceipt g waids reader read seen_at s =
     receive_all
       (filter (\<lambda>m. gm_GroupID m = g \<and> gm_Direction m = MessageOut \<and>
                    (case gm_WAMessageID m of None \<Rightarrow> False | Some w \<Rightarrow> w \<in> set waids)) (st_messages s))
       reader read seen_at s"

section \<open>Polls\<close>

record PollExtra =
  pe_Question :: str
  pe_SelectableCount :: int
  pe_Options :: "(str \<times> GroupActor list) list"

definition maxPollOptions :: nat where "maxPollOptions = 12"

definition NewPollExtra :: "str \<Rightarrow> str list \<Rightarrow> int \<Rightarrow> PollExtra option" where
  "NewPollExtra question options selectable =
     (let options = uniqueStrings options in
      if question = [] then None
      else if length options < 2 \<or> length options > maxPollOptions then None
      else if selectable < 0 \<or> selectable > int (length options) then None
      else if [] \<in> set options then None
      else Some \<lparr>pe_Question = question, pe_SelectableCount = selectable, pe_Options = map (\<lambda>name. (name, [])) options\<rparr>)"

definition vote_of :: "uuid \<Rightarrow> string \<Rightarrow> WAGroupPollVote \<Rightarrow> bool" where
  "vote_of i jid v \<longleftrightarrow> vt_MessageID v = i \<and> ga_JID (vt_Voter v) = jid"

definition SetVote :: "uuid \<Rightarrow> GroupActor \<Rightarrow> str list \<Rightarrow> group_store \<Rightarrow> group_store option" where
  "SetVote i voter options s =
     (if options = [] then Some (s\<lparr>st_votes := filter (\<lambda>v. \<not> vote_of i (ga_JID voter) v) (st_votes s)\<rparr>)
      else if \<not> known_message i s then None
      else Some (s\<lparr>st_votes := upsert (vote_of i (ga_JID voter))
             (\<lambda>v. v\<lparr>vt_Voter := (vt_Voter v)\<lparr>ga_Name := ga_Name voter\<rparr>, vt_Options := options\<rparr>)
             \<lparr>vt_MessageID = i, vt_Voter = voter, vt_Options = options\<rparr> (st_votes s)\<rparr>))"

text \<open>A name that two options share is the last one's.\<close>

definition tally_vote :: "GroupActor \<Rightarrow> str \<Rightarrow> (str \<times> GroupActor list) list \<Rightarrow> (str \<times> GroupActor list) list" where
  "tally_vote voter name options =
     (case find (\<lambda>k. fst (options ! k) = name) (rev [0..<length options]) of
        None \<Rightarrow> options
      | Some k \<Rightarrow> options[k := (name, snd (options ! k) @ [voter])])"

definition tallyPoll :: "PollExtra \<Rightarrow> WAGroupPollVote list \<Rightarrow> PollExtra" where
  "tallyPoll extra votes =
     extra\<lparr>pe_Options :=
       fold (\<lambda>v. fold (tally_vote (vt_Voter v)) (vt_Options v)) votes (map (\<lambda>(name, _). (name, [])) (pe_Options extra))\<rparr>"

section \<open>Every reachable store\<close>

definition message_times :: "WAGroupMessage list \<Rightarrow> uuid \<Rightarrow> time list" where
  "message_times ms g = map gm_WATimestamp (filter (\<lambda>m. gm_GroupID m = g) ms)"

definition newest :: "time list \<Rightarrow> time option" where
  "newest ts = (if ts = [] then None else Some (Max (set ts)))"

lemma newest_snoc: "newest (ts @ [t]) = Some (case newest ts of None \<Rightarrow> t | Some u \<Rightarrow> max u t)"
  by (cases "ts = []") (simp_all add: newest_def max.commute)

text \<open>Identifiers are unique, so is a group's address on a number, an id of WhatsApp is one message's in its group, every
  message's group is there, the summary of a
  group is as new as its newest message, and a member has one receipt, one reaction and one vote on a message.\<close>

definition stored_ok :: "WAGroupMessage list \<Rightarrow> bool" where
  "stored_ok ms \<longleftrightarrow> distinct (map gm_ID ms) \<and>
     (\<forall>m \<in> set ms. \<forall>m' \<in> set ms.
        gm_GroupID m = gm_GroupID m' \<and> gm_WAMessageID m = gm_WAMessageID m' \<and> gm_WAMessageID m \<noteq> None \<longrightarrow> m = m')"

definition group_ok :: "group_store \<Rightarrow> bool" where
  "group_ok s \<longleftrightarrow>
     stored_ok (st_messages s)
     \<and> distinct (map gr_ID (st_groups s)) \<and> distinct (map (\<lambda>g. (gr_WAAccountID g, gr_JID g)) (st_groups s))
     \<and> gm_GroupID ` set (st_messages s) \<subseteq> gr_ID ` set (st_groups s)
     \<and> (\<forall>g \<in> set (st_groups s). gr_LastMessageAt g = newest (message_times (st_messages s) (gr_ID g)))
     \<and> distinct (map (\<lambda>r. (rc_MessageID r, rc_ReaderJID r)) (st_receipts s))
     \<and> distinct (map (\<lambda>r. (rx_MessageID r, ga_JID (rx_Reactor r))) (st_reactions s))
     \<and> distinct (map (\<lambda>v. (vt_MessageID v, ga_JID (vt_Voter v))) (st_votes s))"

lemma message_times_snoc:
  "message_times (ms @ [m]) g = message_times ms g @ (if gm_GroupID m = g then [gm_WATimestamp m] else [])"
  by (simp add: message_times_def)

lemma message_times_update:
  assumes "\<And>m. gm_GroupID (f m) = gm_GroupID m \<and> gm_WATimestamp (f m) = gm_WATimestamp m"
  shows "message_times (update_where P f ms) g = message_times ms g"
  by (induction ms) (auto simp: message_times_def assms)

lemma bump_groups:
  "map gr_ID (st_groups (bumpGroup m preview unread s)) = map gr_ID (st_groups s)"
  "map (\<lambda>g. (gr_WAAccountID g, gr_JID g)) (st_groups (bumpGroup m preview unread s))
     = map (\<lambda>g. (gr_WAAccountID g, gr_JID g)) (st_groups s)"
  "st_messages (bumpGroup m preview unread s) = st_messages s"
  "st_receipts (bumpGroup m preview unread s) = st_receipts s"
  "st_reactions (bumpGroup m preview unread s) = st_reactions s"
  "st_votes (bumpGroup m preview unread s) = st_votes s"
  by (simp_all add: bumpGroup_def map_update_where)

lemma stored_okI:
  assumes "distinct (map gm_ID ms)"
    and "\<And>m m'. m \<in> set ms \<Longrightarrow> m' \<in> set ms \<Longrightarrow> gm_GroupID m = gm_GroupID m' \<Longrightarrow> gm_WAMessageID m = gm_WAMessageID m'
      \<Longrightarrow> gm_WAMessageID m \<noteq> None \<Longrightarrow> m = m'"
  shows "stored_ok ms"
  unfolding stored_ok_def using assms by blast

lemma stored_snoc:
  assumes "stored_ok ms" "gm_ID m \<notin> gm_ID ` set ms"
    and "\<forall>m' \<in> set ms. \<not> (gm_GroupID m = gm_GroupID m' \<and> gm_WAMessageID m = gm_WAMessageID m' \<and> gm_WAMessageID m \<noteq> None)"
  shows "stored_ok (ms @ [m])"
proof -
  have "a = b" if "a \<in> insert m (set ms)" "b \<in> insert m (set ms)" "gm_GroupID a = gm_GroupID b"
      "gm_WAMessageID a = gm_WAMessageID b" "gm_WAMessageID a \<noteq> None" for a b
  proof (cases "a = m \<or> b = m")
    case True
    then show ?thesis using that assms(3) by force
  next
    case False
    then show ?thesis using that assms(1) unfolding stored_ok_def by blast
  qed
  then show ?thesis using assms(1,2) by (intro stored_okI) (auto simp: stored_ok_def)
qed

lemma added_ok:
  assumes "group_ok s" "gm_ID m \<notin> gm_ID ` set (st_messages s)" "list_ex (\<lambda>g. gr_ID g = gm_GroupID m) (st_groups s)"
    and "gm_WAMessageID m = None \<or> group_message (gm_GroupID m) (the (gm_WAMessageID m)) s = None"
  shows "group_ok (bumpGroup m preview unread (s\<lparr>st_messages := st_messages s @ [m]\<rparr>))"
proof -
  let ?s = "s\<lparr>st_messages := st_messages s @ [m]\<rparr>"
  have "stored_ok (st_messages s @ [m])"
    by (rule stored_snoc) (use assms in \<open>auto simp: group_ok_def group_message_def find_None_iff\<close>)
  moreover have "gr_LastMessageAt g = newest (message_times (st_messages s @ [m]) (gr_ID g))"
    if mem: "g \<in> set (st_groups (bumpGroup m preview unread ?s))" for g
  proof -
    let ?P = "\<lambda>g. gr_ID g = gm_GroupID m \<and> (case gr_LastMessageAt g of None \<Rightarrow> True | Some t \<Rightarrow> t \<le> gm_WATimestamp m)"
    obtain f where f: "\<And>g. gr_ID (f g) = gr_ID g \<and> gr_LastMessageAt (f g) = Some (gm_WATimestamp m)"
      and groups: "st_groups (bumpGroup m preview unread ?s) = update_where ?P f (st_groups s)"
      by (rule that [rotated]) (simp add: bumpGroup_def, simp)
    obtain g0 where g0: "g0 \<in> set (st_groups s)" and g: "g = (if ?P g0 then f g0 else g0)"
      using mem unfolding groups set_update_where by blast
    have "gr_LastMessageAt g0 = newest (message_times (st_messages s) (gr_ID g0))" using assms(1) g0 by (simp add: group_ok_def)
    then show ?thesis by (auto simp: g f message_times_snoc newest_snoc max_def split: option.splits)
  qed
  moreover have "gm_GroupID ` set (st_messages s) \<subseteq> gr_ID ` set (st_groups s)" "gm_GroupID m \<in> gr_ID ` set (st_groups s)"
    using assms(1,3) by (simp_all add: group_ok_def) (force simp: list_ex_iff)
  moreover have "gr_ID ` set (st_groups (bumpGroup m preview unread ?s)) = gr_ID ` set (st_groups s)"
    using arg_cong [OF bump_groups(1) [of m preview unread ?s], of set] by simp
  ultimately show ?thesis using assms(1) by (simp add: group_ok_def bump_groups)
qed

lemma updated_ok:
  assumes "group_ok s" "group_update i f s = Some s'"
    and "\<And>m. gm_ID (f m) = gm_ID m \<and> gm_GroupID (f m) = gm_GroupID m \<and> gm_WATimestamp (f m) = gm_WATimestamp m"
    and "\<And>m. m \<in> set (st_messages s) \<Longrightarrow> gm_ID m = i \<Longrightarrow> gm_WAMessageID (f m) = gm_WAMessageID m
      \<or> (gm_WAMessageID (f m) \<noteq> None \<and> (\<forall>m' \<in> set (st_messages s). gm_ID m' \<noteq> i \<and> gm_GroupID m' = gm_GroupID m
           \<longrightarrow> gm_WAMessageID m' \<noteq> gm_WAMessageID (f m)))"
  shows "group_ok s'"
proof -
  have s': "s' = s\<lparr>st_messages := update_where (\<lambda>m. gm_ID m = i) f (st_messages s)\<rparr>"
    using assms(2) by (simp add: group_update_def split: if_splits)
  let ?f = "\<lambda>m. if gm_ID m = i then f m else m" and ?ms = "st_messages s"
  have d: "distinct (map gm_ID ?ms)"
    and u: "\<forall>m \<in> set ?ms. \<forall>m' \<in> set ?ms. gm_GroupID m = gm_GroupID m' \<and> gm_WAMessageID m = gm_WAMessageID m'
      \<and> gm_WAMessageID m \<noteq> None \<longrightarrow> m = m'"
    using assms(1) unfolding group_ok_def stored_ok_def by blast+
  have id: "gm_ID (?f m) = gm_ID m" for m using assms(3) by simp
  have clash: False if "a \<in> set ?ms" "b \<in> set ?ms" "gm_ID a = i" "gm_ID b \<noteq> i" "gm_GroupID a = gm_GroupID b"
      "gm_WAMessageID (f a) = gm_WAMessageID b" "gm_WAMessageID b \<noteq> None" for a b
    using assms(4) [OF that(1,3)]
  proof
    assume "gm_WAMessageID (f a) = gm_WAMessageID a"
    then show False using u that by metis
  next
    assume "gm_WAMessageID (f a) \<noteq> None \<and> (\<forall>m' \<in> set ?ms. gm_ID m' \<noteq> i \<and> gm_GroupID m' = gm_GroupID a
      \<longrightarrow> gm_WAMessageID m' \<noteq> gm_WAMessageID (f a))"
    then show False using that(2,4-6) by auto
  qed
  have one: "m = m'" if m: "m \<in> set ?ms" "m' \<in> set ?ms" and eq: "gm_GroupID m = gm_GroupID m'"
      "gm_WAMessageID (?f m) = gm_WAMessageID (?f m')" "gm_WAMessageID (?f m) \<noteq> None" for m m'
  proof (cases "gm_ID m = gm_ID m'")
    case True
    then show ?thesis using distinct_key_unique [OF d m] by simp
  next
    case False
    consider "gm_ID m = i" "gm_ID m' \<noteq> i" | "gm_ID m' = i" "gm_ID m \<noteq> i" | "gm_ID m \<noteq> i" "gm_ID m' \<noteq> i"
      using False by blast
    then show ?thesis
    proof cases
      case 1
      then show ?thesis using clash [OF m 1] eq by simp
    next
      case 2
      then show ?thesis using clash [OF m(2,1) 2] eq by simp
    next
      case 3
      then show ?thesis using u m eq by simp
    qed
  qed
  have "stored_ok (map ?f ?ms)"
  proof (rule stored_okI)
    show "distinct (map gm_ID (map ?f ?ms))" using d by (simp add: comp_def id)
  next
    fix a b
    assume "a \<in> set (map ?f ?ms)" "b \<in> set (map ?f ?ms)"
    then obtain m m' where m: "m \<in> set ?ms" "m' \<in> set ?ms" and ab: "a = ?f m" "b = ?f m'"
      unfolding set_map by blast
    assume "gm_GroupID a = gm_GroupID b" "gm_WAMessageID a = gm_WAMessageID b" "gm_WAMessageID a \<noteq> None"
    moreover have "gm_GroupID (?f x) = gm_GroupID x" for x using assms(3) by simp
    ultimately show "a = b" using one [OF m] unfolding ab by metis
  qed
  then have "stored_ok (update_where (\<lambda>m. gm_ID m = i) f ?ms)" by (simp only: update_where_def)
  moreover have "map gm_GroupID (update_where (\<lambda>m. gm_ID m = i) f ?ms) = map gm_GroupID ?ms"
    by (rule map_update_where) (simp add: assms(3))
  then have "gm_GroupID ` set (update_where (\<lambda>m. gm_ID m = i) f ?ms) = gm_GroupID ` set ?ms"
    by (metis list.set_map)
  ultimately show ?thesis
    using assms(1) message_times_update [of f "\<lambda>m. gm_ID m = i" ?ms] assms(3) by (simp add: group_ok_def s')
qed

lemma SaveArrived_ok:
  assumes "group_ok s" "newid \<notin> gm_ID ` set (st_messages s)"
  shows "group_ok (snd (SaveArrived newid now i seen s))"
  using assms
  by (auto simp: SaveArrived_def arrivedGroupRow_def Let_def split: option.split intro!: added_ok)

lemma Queue_ok:
  assumes "group_ok s" "newid \<notin> gm_ID ` set (st_messages s)"
  shows "group_ok (snd (Queue newid now out s))"
  using assms by (auto simp: Queue_def Let_def intro!: added_ok)

lemma MarkSent_ok: "group_ok s \<Longrightarrow> MarkSent i waid preview s = Some s' \<Longrightarrow> group_ok s'"
  by (erule updated_ok [where f = "\<lambda>m. m\<lparr>gm_WAMessageID := Some waid, gm_Status := MessageSent, gm_FailReason := [],
      gm_Preview := (if preview = None then gm_Preview m else preview)\<rparr>" and i = i])
    (auto simp: MarkSent_def list_ex_iff split: if_splits)

lemma MarkFailed_ok: "group_ok s \<Longrightarrow> MarkFailed i reason s = Some s' \<Longrightarrow> group_ok s'"
  unfolding MarkFailed_def by (erule updated_ok, assumption) simp_all

lemma MarkEdited_ok: "group_ok s \<Longrightarrow> MarkEdited i body mentions s = Some s' \<Longrightarrow> group_ok s'"
  unfolding MarkEdited_def by (erule updated_ok, assumption) simp_all

lemma SetStarred_ok: "group_ok s \<Longrightarrow> SetStarred i starred now s = Some s' \<Longrightarrow> group_ok s'"
  unfolding SetStarred_def by (erule updated_ok, assumption) simp_all

lemma group_ok_rows:
  assumes "group_ok s"
  shows "distinct (map (\<lambda>r. (rc_MessageID r, rc_ReaderJID r)) rs) \<Longrightarrow> group_ok (s\<lparr>st_receipts := rs\<rparr>)"
    and "distinct (map (\<lambda>r. (rx_MessageID r, ga_JID (rx_Reactor r))) xs) \<Longrightarrow> group_ok (s\<lparr>st_reactions := xs\<rparr>)"
    and "distinct (map (\<lambda>v. (vt_MessageID v, ga_JID (vt_Voter v))) vs) \<Longrightarrow> group_ok (s\<lparr>st_votes := vs\<rparr>)"
  using assms by (simp_all add: group_ok_def)

lemma group_okD:
  assumes "group_ok s"
  shows "distinct (map (\<lambda>r. (rc_MessageID r, rc_ReaderJID r)) (st_receipts s))"
    and "distinct (map (\<lambda>r. (rx_MessageID r, ga_JID (rx_Reactor r))) (st_reactions s))"
    and "distinct (map (\<lambda>v. (vt_MessageID v, ga_JID (vt_Voter v))) (st_votes s))"
  using assms by (simp_all add: group_ok_def)

lemma MarkDeleted_ok:
  assumes "group_ok s" "MarkDeleted i s = Some (path, s')"
  shows "group_ok s'"
proof -
  obtain t where t: "group_update i emptied s = Some t" and s': "s' = t\<lparr>st_reactions := filter (\<lambda>r. rx_MessageID r \<noteq> i) (st_reactions t)\<rparr>"
    using assms(2) by (auto simp: MarkDeleted_def split: option.splits)
  have "group_ok t" by (rule updated_ok [OF assms(1) t]) (simp_all add: emptied_def)
  then show ?thesis unfolding s' by (intro group_ok_rows distinct_map_filter group_okD)
qed

lemma upsert_keys:
  assumes "distinct (map key rows)" "\<And>r. key (f r) = key r" "\<And>r. P r \<longleftrightarrow> key r = key row"
  shows "distinct (map key (upsert P f row rows))"
proof (cases "list_ex P rows")
  case True
  then show ?thesis using assms(1) by (simp add: upsert_def map_update_where assms(2))
next
  case False
  then show ?thesis using assms by (auto simp: upsert_def list_ex_iff)
qed

lemma SetReaction_ok: "group_ok s \<Longrightarrow> SetReaction i actor emoji s = Some s' \<Longrightarrow> group_ok s'"
  by (auto simp: SetReaction_def reaction_of_def split: if_splits
      intro!: group_ok_rows upsert_keys distinct_map_filter dest: group_okD(2))

lemma SetVote_ok: "group_ok s \<Longrightarrow> SetVote i voter options s = Some s' \<Longrightarrow> group_ok s'"
  by (auto simp: SetVote_def vote_of_def split: if_splits
      intro!: group_ok_rows upsert_keys distinct_map_filter dest: group_okD(3))

lemma moveTicks_ok:
  assumes "group_ok s"
  shows "group_ok (moveTicks m s)"
proof (cases "list_ex (\<lambda>m'. gm_ID m' = gm_ID m) (st_messages s)")
  case True
  then have "group_ok (s\<lparr>st_messages := update_where (\<lambda>m'. gm_ID m' = gm_ID m) (\<lambda>m'. m'\<lparr>gm_Status := st\<rparr>) (st_messages s)\<rparr>)" for st
    by (intro updated_ok [OF assms, of "gm_ID m" "\<lambda>m'. m'\<lparr>gm_Status := st\<rparr>"]) (simp_all add: group_update_def)
  then show ?thesis using assms by (simp add: moveTicks_def Let_def)
next
  case False
  then have "update_where (\<lambda>m'. gm_ID m' = gm_ID m) f (st_messages s) = st_messages s" for f
    unfolding update_where_def by (intro map_idI) (auto simp: list_ex_iff)
  then show ?thesis using assms by (simp add: moveTicks_def Let_def)
qed

lemma applyOneReceipt_ok:
  assumes "group_ok s" "applyOneReceipt m reader read seen_at s = Some s'"
  shows "group_ok s'"
proof -
  let ?s = "s\<lparr>st_receipts := upsert (receipt_of (gm_ID m) reader)
      (\<lambda>r. if read then r\<lparr>rc_DeliveredAt := Some seen_at, rc_ReadAt := Some seen_at\<rparr> else r\<lparr>rc_DeliveredAt := Some seen_at\<rparr>)
      \<lparr>rc_MessageID = gm_ID m, rc_ReaderJID = reader, rc_DeliveredAt = Some seen_at, rc_ReadAt = (if read then Some seen_at else None)\<rparr>
      (st_receipts s)\<rparr>"
  have "group_ok ?s"
    using assms(1) by (intro group_ok_rows upsert_keys group_okD) (auto simp: receipt_of_def)
  then show ?thesis using assms(2) moveTicks_ok [of ?s m] by (simp add: applyOneReceipt_def split: if_splits)
qed

lemma receive_all_ok: "group_ok s \<Longrightarrow> group_ok (snd (snd (receive_all ms reader read seen_at s)))"
proof (induction ms arbitrary: s)
  case (Cons m ms)
  then show ?case
    by (cases "applyOneReceipt m reader read seen_at s")
      (auto simp: split_beta dest: applyOneReceipt_ok)
qed simp

text \<open>What the messages rely on of a group.\<close>

definition group_key :: "WAGroup \<Rightarrow> uuid \<times> (uuid \<times> string) \<times> time option" where
  "group_key g = (gr_ID g, (gr_WAAccountID g, gr_JID g), gr_LastMessageAt g)"

lemma group_ok_groups:
  assumes "group_ok s" "map group_key gs = map group_key (st_groups s)"
  shows "group_ok (s\<lparr>st_groups := gs\<rparr>)"
proof -
  have ids: "map gr_ID gs = map gr_ID (st_groups s)"
    using arg_cong [OF assms(2), of "map fst"] by (simp add: group_key_def comp_def)
  have addresses: "map (\<lambda>g. (gr_WAAccountID g, gr_JID g)) gs = map (\<lambda>g. (gr_WAAccountID g, gr_JID g)) (st_groups s)"
    using arg_cong [OF assms(2), of "map (fst \<circ> snd)"] by (simp add: group_key_def comp_def)
  have "gr_ID ` set gs = gr_ID ` set (st_groups s)" using ids by (metis list.set_map)
  moreover have "gr_LastMessageAt g = newest (message_times (st_messages s) (gr_ID g))" if "g \<in> set gs" for g
  proof -
    have "group_key g \<in> set (map group_key (st_groups s))" using that assms(2) by (metis image_eqI list.set_map)
    then obtain g' where "g' \<in> set (st_groups s)" "gr_ID g = gr_ID g'" "gr_LastMessageAt g = gr_LastMessageAt g'"
      by (auto simp: group_key_def)
    then show ?thesis using assms(1) by (simp add: group_ok_def)
  qed
  ultimately show ?thesis using assms(1) ids addresses by (simp add: group_ok_def)
qed

lemma group_ok_update:
  assumes "group_ok s" "\<And>g. group_key (f g) = group_key g"
  shows "group_ok (s\<lparr>st_groups := update_where P f (st_groups s)\<rparr>)"
  by (rule group_ok_groups [OF assms(1)]) (simp add: map_update_where assms(2))

lemma group_ok_new:
  assumes "group_ok s" "gr_ID g \<notin> gr_ID ` set (st_groups s)" "gr_LastMessageAt g = None"
    and "\<not> list_ex (names_group (gr_WAAccountID g) (gr_JID g)) (st_groups s)"
  shows "group_ok (s\<lparr>st_groups := st_groups s @ [g]\<rparr>)"
proof -
  have "gm_GroupID ` set (st_messages s) \<subseteq> gr_ID ` set (st_groups s)" using assms(1) by (simp add: group_ok_def)
  then have "gr_ID g \<notin> gm_GroupID ` set (st_messages s)" using assms(2) by blast
  then have "filter (\<lambda>m. gm_GroupID m = gr_ID g) (st_messages s) = []"
    unfolding filter_empty_conv by (metis image_eqI)
  then have "newest (message_times (st_messages s) (gr_ID g)) = None" by (simp add: message_times_def newest_def)
  moreover have "(gr_WAAccountID g, gr_JID g) \<notin> (\<lambda>g. (gr_WAAccountID g, gr_JID g)) ` set (st_groups s)"
    using assms(4) by (auto simp: list_ex_iff names_group_def)
  ultimately show ?thesis using assms(1-3) by (auto simp: group_ok_def)
qed

lemma group_ok_members: "group_ok (s\<lparr>st_members := ms\<rparr>) = group_ok s"
  by (simp add: group_ok_def)

lemma as_listed_key [simp]: "group_key (as_listed now snap g) = group_key g"
  by (simp add: as_listed_def group_key_def)

lemma as_listed_fields [simp]:
  "gr_ID (as_listed now snap g) = gr_ID g" "gr_WAAccountID (as_listed now snap g) = gr_WAAccountID g"
  "gr_JID (as_listed now snap g) = gr_JID g" "gr_LastMessageAt (as_listed now snap g) = gr_LastMessageAt g"
  by (simp_all add: as_listed_def)

lemma bare_fields [simp]:
  "gr_ID (bare_group i a j) = i" "gr_WAAccountID (bare_group i a j) = a" "gr_JID (bare_group i a j) = j"
  "gr_LastMessageAt (bare_group i a j) = None"
  by (simp_all add: bare_group_def)

lemma upsertGroup_ok:
  assumes "group_ok s" "newid \<notin> gr_ID ` set (st_groups s)"
  shows "group_ok (upsertGroup newid now account snap s)"
proof (cases "list_ex (names_group account (sn_JID snap)) (st_groups s)")
  case True
  have "group_ok (s\<lparr>st_groups := update_where (names_group account (sn_JID snap)) (as_listed now snap) (st_groups s)\<rparr>)"
    by (rule group_ok_update [OF assms(1)]) simp
  then show ?thesis using assms(1) True
    by (simp add: upsertGroup_def Let_def group_ok_members split: option.split)
next
  case False
  have "group_ok (s\<lparr>st_groups := st_groups s @ [as_listed now snap (bare_group newid account (sn_JID snap))]\<rparr>)"
    by (rule group_ok_new [OF assms(1)]) (use assms(2) False in simp_all)
  then show ?thesis using assms(1) False
    by (simp add: upsertGroup_def Let_def group_ok_members split: option.split)
qed

lemma upsertGroup_ids:
  "gr_ID ` set (st_groups (upsertGroup newid now account snap s)) \<subseteq> insert newid (gr_ID ` set (st_groups s))"
  by (auto simp: upsertGroup_def Let_def set_update_where split: option.split)

lemma upsert_fresh:
  assumes "inj newid" "\<forall>i \<ge> k. newid i \<notin> gr_ID ` set (st_groups s)"
  shows "\<forall>i \<ge> Suc k. newid i \<notin> gr_ID ` set (st_groups (upsertGroup (newid k) now account snap s))"
proof (intro allI impI notI)
  fix i
  assume "Suc k \<le> i" "newid i \<in> gr_ID ` set (st_groups (upsertGroup (newid k) now account snap s))"
  then have "newid i = newid k \<or> newid i \<in> gr_ID ` set (st_groups s)" using upsertGroup_ids by blast
  then show False using assms \<open>Suc k \<le> i\<close> by (auto dest: injD)
qed

lemma upsert_all_ok:
  assumes "group_ok s" "inj newid" "\<forall>i \<ge> k. newid i \<notin> gr_ID ` set (st_groups s)"
  shows "group_ok (upsert_all newid now account k snaps s)"
  using assms(1,3)
proof (induction snaps arbitrary: k s)
  case (Cons snap snaps)
  let ?s = "upsertGroup (newid k) now account snap s"
  have "group_ok ?s" using Cons.prems by (auto intro: upsertGroup_ok)
  moreover have "\<forall>i \<ge> Suc k. newid i \<notin> gr_ID ` set (st_groups ?s)" using assms(2) Cons.prems(2) by (rule upsert_fresh)
  ultimately show ?case using Cons.IH [of ?s "Suc k"] by simp
qed simp

lemma SyncAll_ok:
  assumes "group_ok s" "inj newid" "\<forall>i. newid i \<notin> gr_ID ` set (st_groups s)"
  shows "group_ok (SyncAll newid now account snaps s)"
  unfolding SyncAll_def Let_def
  by (rule group_ok_update [OF upsert_all_ok]) (use assms in \<open>auto simp: group_key_def\<close>)

lemma found_group_ok:
  assumes "group_ok s" "newid \<notin> gr_ID ` set (st_groups s)"
  shows "group_ok (snd (snd (FindOrCreate newid account jid s)))"
  using assms by (auto simp: FindOrCreate_def Let_def intro!: group_ok_new)

lemma mirror_marks_ok:
  assumes "group_ok s"
  shows "group_ok (MarkLeft account jid s)" "group_ok (snd (MarkRead i s))" "group_ok (snd (SetPinned i pinned now s))"
    "group_ok (NotePushName g addresses name s)"
  using assms
  by (auto simp: MarkLeft_def MarkRead_def SetPinned_def NotePushName_def Let_def group_ok_members group_key_def
      intro!: group_ok_update)

inductive group_step :: "group_store \<Rightarrow> group_store \<Rightarrow> bool" where
  arrived: "newid \<notin> gm_ID ` set (st_messages s) \<Longrightarrow> group_step s (snd (SaveArrived newid now i seen s))"
| written: "newid \<notin> gm_ID ` set (st_messages s) \<Longrightarrow> group_step s (snd (Queue newid now out s))"
| sent: "MarkSent i waid preview s = Some s' \<Longrightarrow> group_step s s'"
| failed: "MarkFailed i reason s = Some s' \<Longrightarrow> group_step s s'"
| edited: "MarkEdited i body mentions s = Some s' \<Longrightarrow> group_step s s'"
| deleted: "MarkDeleted i s = Some (path, s') \<Longrightarrow> group_step s s'"
| reacted: "SetReaction i actor emoji s = Some s' \<Longrightarrow> group_step s s'"
| starred: "SetStarred i starred now s = Some s' \<Longrightarrow> group_step s s'"
| receipt: "group_step s (snd (snd (ApplyReceipt g waids reader read seen_at s)))"
| voted: "SetVote i voter options s = Some s' \<Longrightarrow> group_step s s'"
| synced: "inj newids \<Longrightarrow> \<forall>k. newids k \<notin> gr_ID ` set (st_groups s) \<Longrightarrow> group_step s (SyncAll newids now account snaps s)"
| listed_anew: "newid \<notin> gr_ID ` set (st_groups s) \<Longrightarrow> group_step s (upsertGroup newid now account snap s)"
| heard_of: "newid \<notin> gr_ID ` set (st_groups s) \<Longrightarrow> group_step s (snd (snd (FindOrCreate newid account jid s)))"
| left_group: "group_step s (MarkLeft account jid s)"
| read: "group_step s (snd (MarkRead i s))"
| pinned: "group_step s (snd (SetPinned i pin now s))"
| named: "group_step s (NotePushName g addresses name s)"

lemma group_step_ok: "group_step s s' \<Longrightarrow> group_ok s \<Longrightarrow> group_ok s'"
  by (induction rule: group_step.induct)
    (auto simp: ApplyReceipt_def intro: SaveArrived_ok Queue_ok MarkSent_ok MarkFailed_ok MarkEdited_ok MarkDeleted_ok
      SetReaction_ok SetStarred_ok SetVote_ok receive_all_ok SyncAll_ok upsertGroup_ok found_group_ok mirror_marks_ok)

text \<open>Whatever happens to a group, in whatever order its messages come: every id is one message's, and an id of WhatsApp
  one message's in its group; the summary of a group is as new as the newest message stored of it, so that history fetched
  late never takes its place; and a member has one receipt, one reaction and one vote on a message.\<close>

theorem group_invariant:
  assumes "group_step\<^sup>*\<^sup>* s s'" "group_ok s"
  shows "group_ok s'"
  using assms by (induction rule: rtranclp_induct) (auto intro: group_step_ok)


section \<open>The ticks of a message\<close>

definition readers_of :: "uuid \<Rightarrow> WAGroupReceipt list \<Rightarrow> string set" where
  "readers_of i rs = rc_ReaderJID ` {r \<in> set rs. rc_MessageID r = i \<and> rc_ReadAt r \<noteq> None}"

lemma readers_counted:
  assumes "distinct (map (\<lambda>r. (rc_MessageID r, rc_ReaderJID r)) rs)"
  shows "length (filter (\<lambda>r. rc_MessageID r = i \<and> rc_ReadAt r \<noteq> None) rs) = card (readers_of i rs)"
proof -
  let ?xs = "filter (\<lambda>r. rc_MessageID r = i \<and> rc_ReadAt r \<noteq> None) rs"
  have "inj_on rc_ReaderJID (set ?xs)"
    using assms by (auto simp: distinct_map inj_on_def)
  moreover have "distinct ?xs" using assms by (simp add: distinct_map)
  moreover have "readers_of i rs = rc_ReaderJID ` set ?xs" by (simp add: readers_of_def)
  ultimately show ?thesis by (simp only: card_image distinct_card)
qed

definition received :: "uuid \<Rightarrow> string \<Rightarrow> bool \<Rightarrow> time \<Rightarrow> WAGroupReceipt list \<Rightarrow> WAGroupReceipt list" where
  "received i reader read t rs =
     upsert (receipt_of i reader)
       (\<lambda>r. if read then r\<lparr>rc_DeliveredAt := Some t, rc_ReadAt := Some t\<rparr> else r\<lparr>rc_DeliveredAt := Some t\<rparr>)
       \<lparr>rc_MessageID = i, rc_ReaderJID = reader, rc_DeliveredAt = Some t, rc_ReadAt = (if read then Some t else None)\<rparr> rs"

lemma readers_of_simps [simp]:
  "readers_of i [] = {}"
  "readers_of i (r # rs) =
     (if rc_MessageID r = i \<and> rc_ReadAt r \<noteq> None then insert (rc_ReaderJID r) (readers_of i rs) else readers_of i rs)"
  by (auto simp: readers_of_def)

lemma readers_of_append [simp]: "readers_of i (rs @ rs') = readers_of i rs \<union> readers_of i rs'"
  by (auto simp: readers_of_def)

lemma readers_delivered:
  assumes "\<And>r. rc_MessageID (f r) = rc_MessageID r \<and> rc_ReaderJID (f r) = rc_ReaderJID r \<and> rc_ReadAt (f r) = rc_ReadAt r"
  shows "readers_of i (update_where P f rs) = readers_of i rs"
  using assms by (induction rs) auto

lemma readers_read:
  assumes "\<And>r. rc_MessageID (f r) = rc_MessageID r \<and> rc_ReaderJID (f r) = rc_ReaderJID r \<and> rc_ReadAt (f r) = Some t"
  shows "readers_of i (update_where (receipt_of i reader) f rs)
    = (if list_ex (receipt_of i reader) rs then insert reader (readers_of i rs) else readers_of i rs)"
  using assms by (induction rs) (auto simp: receipt_of_def)

lemma readers_received:
  "readers_of i (received i reader read t rs) = (if read then insert reader (readers_of i rs) else readers_of i rs)"
  by (cases read) (simp_all add: received_def upsert_def readers_delivered readers_read)


text \<open>Receipts of one message, one after the other: who, whether he read it, and when.\<close>

definition after_receipts ::
  "uuid \<Rightarrow> string \<Rightarrow> (string \<times> bool \<times> time) list \<Rightarrow> group_store \<Rightarrow> group_store" where
  "after_receipts g waid rs s = fold (\<lambda>(reader, read, t) s. snd (snd (ApplyReceipt g [waid] reader read t s))) rs s"

definition ticks :: "int \<Rightarrow> nat \<Rightarrow> MessageStatus" where
  "ticks members n = (if members > 0 \<and> int n \<ge> members then MessageRead else MessageDelivered)"

lemma filter_is: "distinct xs \<Longrightarrow> x \<in> set xs \<Longrightarrow> filter (\<lambda>y. y = x) xs = [x]"
  by (induction xs) (auto simp: filter_empty_conv)

lemma receipt_names_one:
  assumes "group_ok s" "m \<in> set (st_messages s)" "gm_GroupID m = g" "gm_WAMessageID m = Some waid" "gm_Direction m = MessageOut"
  shows "ApplyReceipt g [waid] reader read t s = receive_all [m] reader read t s"
proof -
  let ?P = "\<lambda>m. gm_GroupID m = g \<and> gm_Direction m = MessageOut \<and>
      (case gm_WAMessageID m of None \<Rightarrow> False | Some w \<Rightarrow> w \<in> set [waid])"
  have d: "distinct (st_messages s)" using assms(1) by (auto simp: group_ok_def stored_ok_def distinct_map)
  have one: "?P m' \<longleftrightarrow> m' = m" if "m' \<in> set (st_messages s)" for m'
  proof
    assume "?P m'"
    then have "gm_GroupID m' = gm_GroupID m" "gm_WAMessageID m' = gm_WAMessageID m" "gm_WAMessageID m' \<noteq> None"
      using assms(3,4) by (auto split: option.splits)
    then show "m' = m" using assms(1,2) that unfolding group_ok_def stored_ok_def by blast
  qed (use assms in simp)
  have "filter ?P (st_messages s) = filter (\<lambda>m'. m' = m) (st_messages s)" by (rule filter_cong) (auto simp: one)
  also have "\<dots> = [m]" using d assms(2) by (rule filter_is)
  finally show ?thesis by (simp add: ApplyReceipt_def)
qed

lemma one_receipt:
  fixes reader :: string and read :: bool and t :: time
  assumes "group_ok s" "m \<in> set (st_messages s)" "gm_GroupID m = g" "gm_WAMessageID m = Some waid" "gm_Direction m = MessageOut"
  defines "rs \<equiv> received (gm_ID m) reader read t (st_receipts s)"
  defines "st \<equiv> ticks (gm_MemberCount m) (card (readers_of (gm_ID m) rs))"
  shows "st_receipts (snd (snd (ApplyReceipt g [waid] reader read t s))) = rs"
    and "m\<lparr>gm_Status := (if receiptRank st \<le> receiptRank (gm_Status m) then gm_Status m else st)\<rparr>
      \<in> set (st_messages (snd (snd (ApplyReceipt g [waid] reader read t s))))"
proof -
  let ?s = "s\<lparr>st_receipts := rs\<rparr>"
  have known: "known_message (gm_ID m) s" using assms(2) by (auto simp: known_message_def list_ex_iff)
  have step: "snd (snd (ApplyReceipt g [waid] reader read t s)) = moveTicks m ?s"
    by (simp add: receipt_names_one [OF assms(1-5)] applyOneReceipt_def known rs_def received_def)
  have "group_ok ?s" unfolding rs_def received_def using assms(1)
    by (intro group_ok_rows upsert_keys group_okD) (auto simp: receipt_of_def)
  from readers_counted [OF group_okD(1) [OF this], of "gm_ID m"]
  have moved: "moveTicks m ?s = (if receiptRank st \<le> receiptRank (gm_Status m) then ?s
      else ?s\<lparr>st_messages := update_where (\<lambda>m'. gm_ID m' = gm_ID m) (\<lambda>m'. m'\<lparr>gm_Status := st\<rparr>) (st_messages s)\<rparr>)"
    by (simp add: moveTicks_def st_def ticks_def Let_def)
  show "st_receipts (snd (snd (ApplyReceipt g [waid] reader read t s))) = rs" by (simp add: step moved)
  show "m\<lparr>gm_Status := (if receiptRank st \<le> receiptRank (gm_Status m) then gm_Status m else st)\<rparr>
      \<in> set (st_messages (snd (snd (ApplyReceipt g [waid] reader read t s))))"
    using assms(2) by (auto simp: step moved set_update_where image_iff intro: bexI [of _ m])
qed


definition who_read :: "(string \<times> bool \<times> time) list \<Rightarrow> string set" where
  "who_read rs = {reader. \<exists>t. (reader, True, t) \<in> set rs}"

lemma finite_who_read [simp]: "finite (who_read rs)"
  by (rule finite_subset [of _ "fst ` set rs"]) (force simp: who_read_def)+

lemma who_read_snoc: "who_read (rs @ [(reader, read, t)]) = (if read then insert reader (who_read rs) else who_read rs)"
  by (auto simp: who_read_def)

lemma after_receipts_spec:
  assumes "group_ok s" "m \<in> set (st_messages s)" "gm_GroupID m = g" "gm_WAMessageID m = Some waid" "gm_Direction m = MessageOut"
    and "gm_Status m = MessageSent" "\<forall>r \<in> set (st_receipts s). rc_MessageID r \<noteq> gm_ID m"
  defines "st rs \<equiv> if rs = [] then MessageSent else ticks (gm_MemberCount m) (card (who_read rs))"
  shows "group_ok (after_receipts g waid rs s) \<and> readers_of (gm_ID m) (st_receipts (after_receipts g waid rs s)) = who_read rs
    \<and> m\<lparr>gm_Status := st rs\<rparr> \<in> set (st_messages (after_receipts g waid rs s))"
proof (induction rs rule: rev_induct)
  case Nil
  have "m\<lparr>gm_Status := MessageSent\<rparr> = m" using assms(6) by (metis WAGroupMessage.surjective WAGroupMessage.update_convs(13))
  then show ?case using assms(1,2,7) by (auto simp: after_receipts_def readers_of_def who_read_def st_def)
next
  case (snoc x rs)
  obtain reader read t where x: "x = (reader, read, t)" by (cases x)
  let ?s = "after_receipts g waid rs s" and ?m = "m\<lparr>gm_Status := st rs\<rparr>"
  have s: "group_ok ?s" "?m \<in> set (st_messages ?s)" "readers_of (gm_ID m) (st_receipts ?s) = who_read rs"
    using snoc.IH by simp_all
  have m: "gm_GroupID ?m = g" "gm_WAMessageID ?m = Some waid" "gm_Direction ?m = MessageOut" using assms(3-5) by simp_all
  let ?s' = "snd (snd (ApplyReceipt g [waid] reader read t ?s))"
  have run: "after_receipts g waid (rs @ [x]) s = ?s'" by (simp add: after_receipts_def x)
  note one = one_receipt [OF s(1,2) m, of reader read t]
  have readers: "readers_of (gm_ID m) (received (gm_ID m) reader read t (st_receipts ?s)) = who_read (rs @ [x])"
    by (simp add: readers_received s(3) x who_read_snoc)
  have "card (who_read rs) \<le> card (who_read (rs @ [x]))"
    by (rule card_mono) (auto simp: x who_read_snoc)
  then have "(if receiptRank (ticks (gm_MemberCount m) (card (who_read (rs @ [x])))) \<le> receiptRank (st rs) then st rs
      else ticks (gm_MemberCount m) (card (who_read (rs @ [x])))) = st (rs @ [x])"
    by (auto simp: st_def ticks_def)
  then have "m\<lparr>gm_Status := st (rs @ [x])\<rparr> \<in> set (st_messages ?s')"
    using one(2) by (simp add: readers cong: if_cong)
  moreover have "group_ok ?s'"
    using receive_all_ok [OF s(1)] by (simp add: ApplyReceipt_def)
  ultimately show ?case using one(1) readers by (simp add: run)
qed

text \<open>C38. The ticks of a message of ours count members, not receipts. Whatever receipts come for it, in whatever order, late or
  twice: it stays sent while there is none, is read exactly when the members it went to have each said so, and is delivered
  in between; a message that went to no known number of members is never shown as read.\<close>

theorem ticks_count_readers:
  assumes "group_ok s" "m \<in> set (st_messages s)" "gm_GroupID m = g" "gm_WAMessageID m = Some waid" "gm_Direction m = MessageOut"
    and "gm_Status m = MessageSent" "\<forall>r \<in> set (st_receipts s). rc_MessageID r \<noteq> gm_ID m"
  shows "Get (gm_ID m) (after_receipts g waid rs s) =
    Some (m\<lparr>gm_Status :=
      (if rs = [] then MessageSent
       else if 0 < gm_MemberCount m \<and> gm_MemberCount m \<le> int (card {reader. \<exists>t. (reader, True, t) \<in> set rs}) then MessageRead
       else MessageDelivered)\<rparr>)"
proof -
  let ?s = "after_receipts g waid rs s"
  let ?m = "m\<lparr>gm_Status := if rs = [] then MessageSent else ticks (gm_MemberCount m) (card (who_read rs))\<rparr>"
  have s: "group_ok ?s" "?m \<in> set (st_messages ?s)" using after_receipts_spec [OF assms] by blast+
  have "find (\<lambda>m'. gm_ID m' = gm_ID m) (st_messages ?s) = Some ?m"
  proof (cases "find (\<lambda>m'. gm_ID m' = gm_ID m) (st_messages ?s)")
    case None
    then show ?thesis using s(2) by (auto simp: find_None_iff)
  next
    case (Some m')
    then have "m' = ?m" using s find_SomeD [OF Some] distinct_key_unique [of gm_ID "st_messages ?s" m' ?m]
      by (simp add: group_ok_def stored_ok_def)
    then show ?thesis using Some by simp
  qed
  then show ?thesis by (simp add: Get_def ticks_def who_read_def)
qed


definition sample_group :: WAGroup where
  "sample_group = bare_group 1 7 ''g''"

definition sample_group_message :: WAGroupMessage where
  "sample_group_message =
     \<lparr>gm_ID = 5, gm_GroupID = 1, gm_WAMessageID = Some ''w'', gm_Direction = MessageOut, gm_SenderJID = [], gm_SenderPhone = [],
      gm_SenderName = [], gm_SenderPushName = [], gm_SenderUserID = None, gm_Kind = ''text'', gm_Body = [], gm_Media = None,
      gm_Status = MessageSent, gm_FailReason = [], gm_ReplyToID = None, gm_Mentions = [], gm_Extra = [], gm_Edited = False,
      gm_Deleted = False, gm_Forwarded = False, gm_StarredAt = None, gm_MemberCount = 2, gm_Preview = None,
      gm_WATimestamp = 10, gm_CreatedAt = 10\<rparr>"

definition sample_store :: group_store where
  "sample_store =
     \<lparr>st_groups = [sample_group\<lparr>gr_LastMessageAt := Some 10\<rparr>], st_members = [], st_messages = [sample_group_message],
      st_receipts = [], st_reactions = [], st_votes = []\<rparr>"

lemma sample_store_ok: "group_ok sample_store"
  by (simp add: group_ok_def stored_ok_def sample_store_def sample_group_def bare_group_def sample_group_message_def message_times_def newest_def)

lemma ticks_count_readers_witness:
  "Get 5 (after_receipts 1 ''w'' [(''a'', True, 20), (''b'', False, 21), (''a'', True, 22)] sample_store)
     = Some (sample_group_message\<lparr>gm_Status := MessageDelivered\<rparr>)
   \<and> Get 5 (after_receipts 1 ''w'' [(''a'', True, 20), (''b'', True, 21)] sample_store)
     = Some (sample_group_message\<lparr>gm_Status := MessageRead\<rparr>)"
proof -
  have m: "sample_group_message \<in> set (st_messages sample_store)" "gm_GroupID sample_group_message = 1" "gm_WAMessageID sample_group_message = Some ''w''"
    "gm_Direction sample_group_message = MessageOut" "gm_Status sample_group_message = MessageSent"
    "\<forall>r \<in> set (st_receipts sample_store). rc_MessageID r \<noteq> gm_ID sample_group_message" "gm_ID sample_group_message = 5"
    "gm_MemberCount sample_group_message = 2"
    by (simp_all add: sample_store_def sample_group_message_def)
  note t = ticks_count_readers [OF sample_store_ok m(1-6)]
  have "{reader. \<exists>t. (reader, True, t) \<in> set [(''a'', True, 20 :: time), (''b'', False, 21), (''a'', True, 22)]} = {''a''}"
    "{reader. \<exists>t. (reader, True, t) \<in> set [(''a'', True, 20 :: time), (''b'', True, 21)]} = {''a'', ''b''}"
    by auto
  then show ?thesis
    using t [of "[(''a'', True, 20), (''b'', False, 21), (''a'', True, 22)]"] t [of "[(''a'', True, 20), (''b'', True, 21)]"]
    by (simp only: m(7,8)) simp
qed

lemma group_invariant_witness: "group_ok (the (MarkEdited 5 [104, 105] [] sample_store))"
proof (rule group_invariant [OF r_into_rtranclp sample_store_ok])
  show "group_step sample_store (the (MarkEdited 5 [104, 105] [] sample_store))"
    by (rule group_step.edited [of 5 "[104, 105]" "[]"]) (simp add: MarkEdited_def group_update_def sample_store_def sample_group_message_def)
qed


section \<open>A sync mirrors the groups\<close>

definition joined :: "uuid \<Rightarrow> WAGroupParticipant list \<Rightarrow> WAGroupParticipant list \<Rightarrow> WAGroupParticipant list" where
  "joined g rows members =
     map (\<lambda>m. m\<lparr>gp_GroupID := g, gp_PushName := (if gp_PushName m = [] then push_names g rows (gp_JID m) else gp_PushName m)\<rparr>)
       members"

definition members_of :: "uuid \<Rightarrow> group_store \<Rightarrow> WAGroupParticipant list" where
  "members_of g s = filter (\<lambda>m. gp_GroupID m = g) (st_members s)"

lemma find_in_filter: "(\<And>x. P x \<Longrightarrow> Q x) \<Longrightarrow> find P (filter Q xs) = find P xs"
  by (induction xs) auto

lemma push_names_members: "push_names g (filter (\<lambda>m. gp_GroupID m = g) rows) jid = push_names g rows jid"
proof -
  have "find (\<lambda>m. gp_GroupID m = g \<and> gp_PushName m \<noteq> [] \<and> gp_JID m = jid) (filter (\<lambda>m. gp_GroupID m = g) (rev rows))
      = find (\<lambda>m. gp_GroupID m = g \<and> gp_PushName m \<noteq> [] \<and> gp_JID m = jid) (rev rows)"
    by (rule find_in_filter) simp
  then show ?thesis by (simp only: push_names_def rev_filter)
qed

lemma joined_members: "joined g (members_of g s) ms = joined g (st_members s) ms"
  by (simp add: joined_def members_of_def push_names_members)

lemma replaced_members:
  "filter (\<lambda>m. gp_GroupID m = h) (replaceParticipants g members rows)
    = (if h = g then joined g rows members else filter (\<lambda>m. gp_GroupID m = h) rows)"
  by (auto simp: replaceParticipants_def joined_def filter_empty_conv comp_def intro!: filter_True filter_cong)

lemma upsertGroup_spec:
  fixes now :: time and account :: uuid and snap :: GroupSnapshot
  assumes "group_ok s" "newid \<notin> gr_ID ` set (st_groups s)"
  defines "s' \<equiv> upsertGroup newid now account snap s"
  obtains g where "g \<in> set (st_groups s')" "names_group account (sn_JID snap) g" "\<exists>g0. g = as_listed now snap g0"
    and "\<And>g'. g' \<in> set (st_groups s') \<Longrightarrow> \<not> names_group account (sn_JID snap) g' \<Longrightarrow> g' \<in> set (st_groups s)"
    and "\<And>g'. g' \<in> set (st_groups s) \<Longrightarrow> names_group account (sn_JID snap) g' \<Longrightarrow> as_listed now snap g' \<in> set (st_groups s')"
    and "\<And>g'. g' \<in> set (st_groups s) \<Longrightarrow> \<not> names_group account (sn_JID snap) g' \<Longrightarrow> g' \<in> set (st_groups s')"
    and "members_of (gr_ID g) s' = joined (gr_ID g) (st_members s) (sn_Participants snap)"
    and "\<And>h. h \<noteq> gr_ID g \<Longrightarrow> members_of h s' = members_of h s"
proof -
  let ?P = "names_group account (sn_JID snap)"
  define groups where "groups = (if list_ex ?P (st_groups s) then update_where ?P (as_listed now snap) (st_groups s)
      else st_groups s @ [as_listed now snap (bare_group newid account (sn_JID snap))])"
  have mem: "g' \<in> set groups \<longleftrightarrow> (g' \<in> set (st_groups s) \<and> \<not> ?P g')
      \<or> (\<exists>g0. g' = as_listed now snap g0 \<and> ?P g0 \<and> (g0 \<in> set (st_groups s)
           \<or> \<not> list_ex ?P (st_groups s) \<and> g0 = bare_group newid account (sn_JID snap)))" for g'
    by (auto simp: groups_def set_update_where image_iff names_group_def list_ex_iff)
  have ex: "find ?P groups \<noteq> None"
  proof
    assume "find ?P groups = None"
    then have none: "\<not> ?P g'" if "g' \<in> set groups" for g' using that by (auto simp: find_None_iff)
    show False
    proof (cases "list_ex ?P (st_groups s)")
      case True
      then obtain g0 where "g0 \<in> set (st_groups s)" "?P g0" by (auto simp: list_ex_iff)
      then have "as_listed now snap g0 \<in> set groups" using mem by blast
      then show False using none [of "as_listed now snap g0"] \<open>?P g0\<close> by (auto simp: names_group_def)
    next
      case False
      then show False using none [of "as_listed now snap (bare_group newid account (sn_JID snap))"]
        by (auto simp: groups_def names_group_def)
    qed
  qed
  then obtain g where find: "find ?P groups = Some g" by blast
  then have g: "g \<in> set groups" "?P g" by (auto dest: find_SomeD)
  have s': "s' = s\<lparr>st_groups := groups, st_members := replaceParticipants (gr_ID g) (sn_Participants snap) (st_members s)\<rparr>"
    using find by (simp add: s'_def upsertGroup_def groups_def Let_def)
  show thesis
  proof (rule that [of g])
    show "\<exists>g0. g = as_listed now snap g0" using g mem by blast
  next
    fix g'
    assume "g' \<in> set (st_groups s')" "\<not> ?P g'"
    then show "g' \<in> set (st_groups s)" using mem [of g'] by (auto simp: s' names_group_def)
  qed (use g mem in \<open>auto simp: s' members_of_def replaced_members\<close>)
qed


lemma same_group:
  assumes "group_ok s" "g \<in> set (st_groups s)" "g' \<in> set (st_groups s)" "names_group account jid g" "names_group account jid' g'"
  shows "gr_ID g = gr_ID g' \<longleftrightarrow> jid = jid'"
proof
  assume "gr_ID g = gr_ID g'"
  moreover have "distinct (map gr_ID (st_groups s))" using assms(1) by (simp add: group_ok_def)
  ultimately show "jid = jid'" using distinct_key_unique [of gr_ID "st_groups s" g g'] assms by (simp add: names_group_def)
next
  assume "jid = jid'"
  moreover have "distinct (map (\<lambda>g. (gr_WAAccountID g, gr_JID g)) (st_groups s))" using assms(1) by (simp add: group_ok_def)
  ultimately show "gr_ID g = gr_ID g'"
    using distinct_key_unique [of "\<lambda>g. (gr_WAAccountID g, gr_JID g)" "st_groups s" g g'] assms by (simp add: names_group_def)
qed

definition listed :: "uuid \<Rightarrow> GroupSnapshot list \<Rightarrow> WAGroup \<Rightarrow> bool" where
  "listed account snaps g \<longleftrightarrow> gr_WAAccountID g = account \<and> gr_JID g \<in> sn_JID ` set snaps"

lemma listed_Cons: "listed account (snap # snaps) g \<longleftrightarrow> names_group account (sn_JID snap) g \<or> listed account snaps g"
  by (auto simp: listed_def names_group_def)

lemma upsert_all_spec:
  fixes now :: time and account :: uuid
  assumes "group_ok s" "inj newid" "\<forall>i \<ge> k. newid i \<notin> gr_ID ` set (st_groups s)" "distinct (map sn_JID snaps)"
  defines "s' \<equiv> upsert_all newid now account k snaps s"
  shows "(\<forall>g. \<not> listed account snaps g \<longrightarrow> (g \<in> set (st_groups s') \<longleftrightarrow> g \<in> set (st_groups s)))
    \<and> (\<forall>h. (\<forall>g \<in> set (st_groups s'). gr_ID g = h \<longrightarrow> \<not> listed account snaps g) \<longrightarrow> members_of h s' = members_of h s)
    \<and> (\<forall>snap \<in> set snaps. \<exists>g \<in> set (st_groups s'). names_group account (sn_JID snap) g \<and> (\<exists>g0. g = as_listed now snap g0)
         \<and> members_of (gr_ID g) s' = joined (gr_ID g) (st_members s) (sn_Participants snap))
    \<and> (\<forall>g \<in> set (st_groups s). \<forall>snap \<in> set snaps. names_group account (sn_JID snap) g \<longrightarrow> as_listed now snap g \<in> set (st_groups s'))"
    (is "?others s snaps s' \<and> ?kept s snaps s' \<and> ?there s snaps s' \<and> ?again s snaps s'")
  using assms(1,3,4) unfolding s'_def
proof (induction snaps arbitrary: k s)
  case Nil
  then show ?case by simp
next
  case (Cons snap snaps)
  let ?s1 = "upsertGroup (newid k) now account snap s"
  let ?s' = "upsert_all newid now account (Suc k) snaps ?s1"
  have fresh: "newid k \<notin> gr_ID ` set (st_groups s)" using Cons.prems(2) by simp
  have ok1: "group_ok ?s1" using Cons.prems(1) fresh by (rule upsertGroup_ok)
  have fresh1: "\<forall>i \<ge> Suc k. newid i \<notin> gr_ID ` set (st_groups ?s1)"
    using assms(2) Cons.prems(2) by (rule upsert_fresh)
  have ok': "group_ok ?s'" using ok1 assms(2) fresh1 by (rule upsert_all_ok)
  have jids: "distinct (map sn_JID snaps)" and new: "sn_JID snap \<notin> sn_JID ` set snaps" using Cons.prems(3) by auto
  have IH: "?others ?s1 snaps ?s'" "?kept ?s1 snaps ?s'" "?there ?s1 snaps ?s'" "?again ?s1 snaps ?s'"
    using Cons.IH [OF ok1 fresh1 jids] by blast+
  obtain g where g: "g \<in> set (st_groups ?s1)" "names_group account (sn_JID snap) g" "\<exists>g0. g = as_listed now snap g0"
    and old: "\<And>g'. g' \<in> set (st_groups ?s1) \<Longrightarrow> \<not> names_group account (sn_JID snap) g' \<Longrightarrow> g' \<in> set (st_groups s)"
    and again: "\<And>g'. g' \<in> set (st_groups s) \<Longrightarrow> names_group account (sn_JID snap) g' \<Longrightarrow> as_listed now snap g' \<in> set (st_groups ?s1)"
    and stay: "\<And>g'. g' \<in> set (st_groups s) \<Longrightarrow> \<not> names_group account (sn_JID snap) g' \<Longrightarrow> g' \<in> set (st_groups ?s1)"
    and joined: "members_of (gr_ID g) ?s1 = joined (gr_ID g) (st_members s) (sn_Participants snap)"
    and rest: "\<And>h. h \<noteq> gr_ID g \<Longrightarrow> members_of h ?s1 = members_of h s"
    by (rule upsertGroup_spec [OF Cons.prems(1) fresh, where now = now and account = account and snap = snap]) (rule that)
  have head_only: "\<not> listed account snaps g'" if "names_group account (sn_JID snap) g'" for g'
    using that new by (auto simp: listed_def names_group_def)
  have g': "g \<in> set (st_groups ?s')" using IH(1) g head_only by blast
  have "?others s (snap # snaps) ?s'" using IH(1) old stay unfolding listed_Cons by blast
  moreover have "?kept s (snap # snaps) ?s'"
  proof (intro allI impI)
    fix h
    assume h: "\<forall>g \<in> set (st_groups ?s'). gr_ID g = h \<longrightarrow> \<not> listed account (snap # snaps) g"
    then have "members_of h ?s' = members_of h ?s1" using IH(2) unfolding listed_Cons by blast
    moreover have "h \<noteq> gr_ID g" using h g' g(2) unfolding listed_Cons by blast
    ultimately show "members_of h ?s' = members_of h s" using rest by simp
  qed
  moreover have "?there s (snap # snaps) ?s'"
  proof
    fix sn
    assume "sn \<in> set (snap # snaps)"
    then consider "sn = snap" | "sn \<in> set snaps" by auto
    then show "\<exists>g \<in> set (st_groups ?s'). names_group account (sn_JID sn) g \<and> (\<exists>g0. g = as_listed now sn g0)
        \<and> members_of (gr_ID g) ?s' = joined (gr_ID g) (st_members s) (sn_Participants sn)"
    proof cases
      case 1
      have "\<not> listed account snaps g'" if "g' \<in> set (st_groups ?s')" "gr_ID g' = gr_ID g" for g'
        using distinct_key_unique [of gr_ID "st_groups ?s'" g' g] that g' ok' head_only [OF g(2)] by (auto simp: group_ok_def)
      then have "members_of (gr_ID g) ?s' = members_of (gr_ID g) ?s1" using IH(2) by blast
      then show ?thesis using 1 g' g joined by auto
    next
      case 2
      then obtain h where h: "h \<in> set (st_groups ?s')" "names_group account (sn_JID sn) h" "\<exists>g0. h = as_listed now sn g0"
        "members_of (gr_ID h) ?s' = joined (gr_ID h) (st_members ?s1) (sn_Participants sn)" using IH(3) by blast
      have "sn_JID sn \<noteq> sn_JID snap" using 2 new by (metis image_eqI)
      then have "gr_ID h \<noteq> gr_ID g" using same_group [OF ok' h(1) g' h(2) g(2)] by simp
      then have "joined (gr_ID h) (st_members ?s1) (sn_Participants sn) = joined (gr_ID h) (st_members s) (sn_Participants sn)"
        using rest joined_members by metis
      then show ?thesis using h by auto
    qed
  qed
  moreover have "?again s (snap # snaps) ?s'"
  proof (intro ballI impI)
    fix g0 sn
    assume g0: "g0 \<in> set (st_groups s)" "sn \<in> set (snap # snaps)" "names_group account (sn_JID sn) g0"
    show "as_listed now sn g0 \<in> set (st_groups ?s')"
    proof (cases "sn = snap")
      case True
      then have "names_group account (sn_JID snap) (as_listed now sn g0)" using g0(3) by (simp add: names_group_def)
      then show ?thesis using IH(1) again [OF g0(1)] g0(3) True head_only by blast
    next
      case False
      then have "sn_JID sn \<noteq> sn_JID snap" using g0(2) new by auto (metis image_eqI)
      then have "\<not> names_group account (sn_JID snap) g0" using g0(3) by (auto simp: names_group_def)
      then show ?thesis using IH(4) stay [OF g0(1)] g0 False by auto
    qed
  qed
  ultimately show ?case by simp
qed


lemma upsert_all_messages [simp]:
  "st_messages (upsert_all newid now account k snaps s) = st_messages s"
  "st_receipts (upsert_all newid now account k snaps s) = st_receipts s"
  "st_reactions (upsert_all newid now account k snaps s) = st_reactions s"
  "st_votes (upsert_all newid now account k snaps s) = st_votes s"
  by (induction snaps arbitrary: k s) (simp_all add: upsertGroup_def Let_def split: option.split)



definition sample_snapshot :: GroupSnapshot where
  "sample_snapshot =
     \<lparr>sn_JID = ''h'', sn_Name = [72], sn_Topic = [], sn_TopicID = [], sn_OwnerJID = [], sn_IsAdmin = True, sn_Announce = False,
      sn_Locked = False,
      sn_Participants = [\<lparr>gp_GroupID = 0, gp_JID = ''m'', gp_LID = [], gp_Phone = [], gp_Name = [], gp_PushName = [],
                          gp_Role = GroupRoleMember, gp_IsSelf = False\<rparr>]\<rparr>"


end
