(* ===== verification/GroupOutbox.thy ===== *)
theory GroupOutbox
  imports Outbox GroupChat
begin

text \<open>
  The group outbox: the drain of \<open>wa/group_drainer.go\<close> over the groups. Decoding a poll is a parameter.
\<close>

section \<open>The drain\<close>

record group_whatsapp =
  gw_Resolve :: "str \<Rightarrow> Preview option"
  gw_SendGroupText :: "string \<Rightarrow> str \<Rightarrow> str Quote option \<Rightarrow> string list \<Rightarrow> bool \<Rightarrow> Preview option \<Rightarrow> string + string"
  gw_SendGroupMedia :: "string \<Rightarrow> string \<Rightarrow> MediaFile option \<Rightarrow> str \<Rightarrow> str Quote option \<Rightarrow> string list \<Rightarrow> bool \<Rightarrow> string + string"
  gw_SendGroupPoll :: "string \<Rightarrow> str \<Rightarrow> str list \<Rightarrow> int \<Rightarrow> string + string"
  gw_DecodePoll :: "string \<Rightarrow> string + PollExtra"

text \<open>A quote in a group names who wrote it.\<close>

definition quote_in_group :: "WAGroupMessage \<Rightarrow> group_store \<Rightarrow> str Quote option" where
  "quote_in_group m s =
     (case Option.bind (gm_ReplyToID m) (\<lambda>i. Get i s) of
        None \<Rightarrow> None
      | Some t \<Rightarrow>
          (case gm_WAMessageID t of
             None \<Rightarrow> None
           | Some w \<Rightarrow> Some \<lparr>qt_StanzaID = w, qt_FromMe = (gm_Direction t = MessageOut), qt_Participant = gm_SenderJID t,
                             qt_Body = gm_Body t, qt_Kind = gm_Kind t\<rparr>))"

definition sendPoll :: "group_whatsapp \<Rightarrow> WAGroupMessage \<Rightarrow> string \<Rightarrow> string + string" where
  "sendPoll gw m jid =
     (case gw_DecodePoll gw (gm_Extra m) of
        Inl e \<Rightarrow> Inl e
      | Inr poll \<Rightarrow> gw_SendGroupPoll gw jid (pe_Question poll) (map fst (pe_Options poll)) (pe_SelectableCount poll))"

definition group_send :: "group_whatsapp \<Rightarrow> WAGroupMessage \<times> string \<Rightarrow> group_store \<Rightarrow> string + string \<times> Preview option" where
  "group_send gw row s =
     (case row of (m, jid) \<Rightarrow>
        let q = quote_in_group m s in
        if gm_Kind m = ''text'' then
          (let preview = gw_Resolve gw (gm_Body m)
           in case gw_SendGroupText gw jid (gm_Body m) q (gm_Mentions m) (gm_Forwarded m) preview of
                Inl e \<Rightarrow> Inl e | Inr waid \<Rightarrow> Inr (waid, preview))
        else if gm_Kind m = ''poll'' then
          (case sendPoll gw m jid of Inl e \<Rightarrow> Inl e | Inr waid \<Rightarrow> Inr (waid, None))
        else (case gw_SendGroupMedia gw jid (gm_Kind m) (gm_Media m) (gm_Body m) q (gm_Mentions m) (gm_Forwarded m) of
                Inl e \<Rightarrow> Inl e | Inr waid \<Rightarrow> Inr (waid, None)))"

definition group_sent :: "WAGroupMessage \<times> string \<Rightarrow> string \<times> Preview option \<Rightarrow> group_store \<Rightarrow> group_store option" where
  "group_sent row r = MarkSent (gm_ID (fst row)) (fst r) (snd r)"

definition GroupDrainer_Drain ::
  "group_whatsapp \<Rightarrow> (nat \<Rightarrow> group_store \<Rightarrow> group_store) \<Rightarrow> (nat \<Rightarrow> bool) \<Rightarrow> uuid \<Rightarrow> int \<Rightarrow> group_store
    \<Rightarrow> (WAGroupMessage \<times> string) list \<times> nat \<times> drain_end \<times> group_store" where
  "GroupDrainer_Drain gw mid cancelled account limit s =
     drain_rows (group_send gw) group_sent (MarkFailed \<circ> gm_ID \<circ> fst) mid cancelled 0 (ClaimQueued account limit s) [] 0 s"


section \<open>The group outbox keeps the promise\<close>

definition group_queued :: "WAGroupMessage \<Rightarrow> bool" where
  "group_queued m \<longleftrightarrow> gm_Status m = MessageQueued"

lemma group_update_kept:
  assumes "group_update i f s = Some s'" "\<And>m. gm_ID (f m) = gm_ID m" "\<And>m. gm_Status (f m) = MessageQueued \<Longrightarrow> gm_Status m = MessageQueued"
  shows "settled_stay gm_ID group_queued (st_messages s) (st_messages s')"
proof -
  have "s' = s\<lparr>st_messages := update_where (\<lambda>m. gm_ID m = i) f (st_messages s)\<rparr>"
    using assms(1) by (simp add: group_update_def split: if_splits)
  then show ?thesis using assms(2,3) by (auto simp: group_queued_def intro!: kept_update)
qed

lemma group_update_settles:
  assumes "group_update i f s = Some s'" "\<And>m. gm_ID (f m) = gm_ID m" "\<And>m. gm_Status (f m) \<noteq> MessageQueued"
  shows "i \<notin> waiting gm_ID group_queued (st_messages s')"
  using assms update_settles [of gm_ID f group_queued i "st_messages s"]
  by (auto simp: group_update_def group_queued_def split: if_splits)

lemma moveTicks_kept: "settled_stay gm_ID group_queued (st_messages s) (st_messages (moveTicks m s))"
  by (auto simp: moveTicks_def Let_def group_queued_def intro!: kept_update)

lemma applyOneReceipt_kept:
  "applyOneReceipt m reader read t s = Some s' \<Longrightarrow> settled_stay gm_ID group_queued (st_messages s) (st_messages s')"
  using moveTicks_kept [of "s\<lparr>st_receipts := received (gm_ID m) reader read t (st_receipts s)\<rparr>" m]
  by (auto simp: applyOneReceipt_def received_def split: if_splits)

lemma receive_all_kept: "settled_stay gm_ID group_queued (st_messages s) (st_messages (snd (snd (receive_all ms reader read t s))))"
proof (induction ms arbitrary: s)
  case (Cons m ms)
  then show ?case
    by (cases "applyOneReceipt m reader read t s") (auto simp: split_beta dest!: applyOneReceipt_kept intro: kept_trans)
qed simp

lemma mirror_keeps_messages:
  "st_messages (upsertGroup newid now account snap s) = st_messages s"
  "st_messages (SyncAll newids now account snaps s) = st_messages s"
  "st_messages (snd (snd (FindOrCreate newid account jid s))) = st_messages s"
  "st_messages (MarkLeft account jid s) = st_messages s"
  "st_messages (snd (MarkRead i s)) = st_messages s"
  "st_messages (snd (SetPinned i pin now s)) = st_messages s"
  "st_messages (NotePushName g addresses name s) = st_messages s"
  by (simp_all add: upsertGroup_def SyncAll_def FindOrCreate_def MarkLeft_def MarkRead_def SetPinned_def NotePushName_def Let_def
      split: option.split)

lemma group_step_kept:
  assumes "group_step s s'"
  shows "settled_stay gm_ID group_queued (st_messages s) (st_messages s')"
  using assms
proof (cases rule: group_step.cases)
  case (arrived newid now i seen)
  then show ?thesis
    by (auto simp: SaveArrived_def Let_def bump_groups arrivedGroupRow_def kept_snoc split: option.split)
next
  case (written newid now out)
  then show ?thesis by (auto simp: Queue_def Let_def bump_groups kept_snoc)
next
  case (sent i waid preview)
  then show ?thesis by (auto simp: MarkSent_def split: if_splits intro: group_update_kept)
next
  case (failed i reason)
  then show ?thesis by (auto simp: MarkFailed_def intro: group_update_kept)
next
  case (edited i body mentions)
  then show ?thesis unfolding MarkEdited_def by (elim group_update_kept) simp_all
next
  case (deleted i path)
  then obtain t where t: "group_update i emptied s = Some t" "st_messages s' = st_messages t"
    by (auto simp: MarkDeleted_def split: option.splits)
  show ?thesis unfolding t(2) by (rule group_update_kept [OF t(1)]) (simp_all add: emptied_def)
next
  case (starred i starred now)
  then show ?thesis unfolding SetStarred_def by (elim group_update_kept) simp_all
next
  case (receipt g waids reader read t)
  then show ?thesis by (simp add: ApplyReceipt_def receive_all_kept)
qed (auto simp: SetReaction_def SetVote_def mirror_keeps_messages split: if_splits)

lemma distinct_concat_keyed:
  assumes "distinct (map key ms)" "\<And>m. m \<in> set ms \<Longrightarrow> length (g m) \<le> 1" "\<And>m x. x \<in> set (g m) \<Longrightarrow> fst x = m"
  shows "distinct (map (key \<circ> fst) (concat (map g ms)))"
  using assms(1,2)
proof (induction ms)
  case (Cons m ms)
  have "distinct (map (key \<circ> fst) (g m))" using Cons.prems(2) [of m] by (cases "g m") auto
  moreover have "(key \<circ> fst) ` set (g m) \<subseteq> {key m}" using assms(3) by auto
  moreover have "(key \<circ> fst) ` set (concat (map g ms)) \<subseteq> key ` set ms" using assms(3) by fastforce
  moreover have "key m \<notin> key ` set ms" using Cons.prems(1) by simp
  ultimately have "(key \<circ> fst) ` set (g m) \<inter> (key \<circ> fst) ` set (concat (map g ms)) = {}"
    by (metis Int_insert_left_if0 Int_lower1 inf.absorb_iff2 inf_bot_left inf_assoc insert_disjoint(1) subset_singletonD subsetD)
  moreover have "distinct (map (key \<circ> fst) (concat (map g ms)))" using Cons by (simp add: comp_def)
  ultimately show ?case using \<open>distinct (map (key \<circ> fst) (g m))\<close>
    by (simp only: list.map concat.simps map_append distinct_append set_map)
qed simp

lemma one_row: "distinct (map k xs) \<Longrightarrow> length (filter (\<lambda>x. k x = i \<and> P x) xs) \<le> 1"
  by (induction xs) (auto simp: filter_empty_conv image_iff)

lemma claimed_group_messages:
  assumes "group_ok s"
  shows "distinct (map (gm_ID \<circ> fst) (ClaimQueued account limit s))
    \<and> (gm_ID \<circ> fst) ` set (ClaimQueued account limit s) \<subseteq> waiting gm_ID group_queued (st_messages s)"
proof -
  let ?g = "\<lambda>m. map (Pair m \<circ> gr_JID) (filter (\<lambda>g. gr_ID g = gm_GroupID m \<and> gr_WAAccountID g = account) (st_groups s))"
  let ?rows = "concat (map ?g (filter (\<lambda>m. gm_Status m = MessageQueued) (st_messages s)))"
  have "distinct (map gr_ID (st_groups s))" and d: "distinct (map gm_ID (st_messages s))"
    using assms by (simp_all add: group_ok_def stored_ok_def)
  then have "length (filter (\<lambda>g. gr_ID g = i \<and> gr_WAAccountID g = account) (st_groups s)) \<le> 1" for i
    by (intro one_row)
  then have rows: "distinct (map (gm_ID \<circ> fst) ?rows)"
    by (intro distinct_concat_keyed) (use d in \<open>auto intro: distinct_map_filter\<close>)
  have waiting: "(gm_ID \<circ> fst) ` set ?rows \<subseteq> waiting gm_ID group_queued (st_messages s)"
    by (auto simp: waiting_def group_queued_def)
  note t = take_sorted [OF rows, of "nat (if limit \<le> 0 then defaultHistoryLimit else limit)" "gm_CreatedAt \<circ> fst"]
  show ?thesis unfolding ClaimQueued_def Let_def
    by (rule conjI [OF conjunct1 [OF t] subset_trans [OF image_mono [OF conjunct2 [OF t]] waiting]])
qed


lemma group_sent_steps:
  assumes "group_sent row r s = Some s'"
  shows "group_step\<^sup>*\<^sup>* s s' \<and> (gm_ID \<circ> fst) row \<notin> waiting gm_ID group_queued (st_messages s')"
  using assms group_step.sent [of "gm_ID (fst row)" "fst r" "snd r" s s']
    group_update_settles [of "gm_ID (fst row)" _ s s']
  by (auto simp: group_sent_def MarkSent_def split: if_splits)

lemma group_failed_steps:
  assumes "(MarkFailed \<circ> gm_ID \<circ> fst) row e s = Some s'"
  shows "group_step\<^sup>*\<^sup>* s s' \<and> (gm_ID \<circ> fst) row \<notin> waiting gm_ID group_queued (st_messages s')"
  using assms group_step.failed [of "gm_ID (fst row)" e s s'] group_update_settles [of "gm_ID (fst row)" _ s s']
  by (auto simp: MarkFailed_def)

interpretation group: outbox group_ok group_step "\<lambda>s. waiting gm_ID group_queued (st_messages s)"
    "\<lambda>s. gm_ID ` set (st_messages s)" "gm_ID \<circ> fst" "ClaimQueued account" group_sent "MarkFailed \<circ> gm_ID \<circ> fst" for account
proof
  fix s s' assume "group_step s s'"
  then show "group_ok s \<Longrightarrow> group_ok s'" "gm_ID ` set (st_messages s) \<subseteq> gm_ID ` set (st_messages s')"
    "waiting gm_ID group_queued (st_messages s') \<inter> gm_ID ` set (st_messages s) \<subseteq> waiting gm_ID group_queued (st_messages s)"
    using group_step_ok group_step_kept by (auto simp: settled_stay_def)
qed (rule waiting_known, erule claimed_group_messages, erule group_sent_steps, erule group_failed_steps)

definition group_drain :: "uuid \<Rightarrow> group_store \<Rightarrow> (WAGroupMessage \<times> string) list \<Rightarrow> group_store \<Rightarrow> bool" where
  "group_drain account s log s' \<longleftrightarrow>
     (\<exists>gw mid cancelled limit n e. calm group_ok group_step mid \<and> e \<noteq> DrainUnrecorded
        \<and> GroupDrainer_Drain gw mid cancelled account limit s = (log, n, e, s'))"

text \<open>Nothing is said twice in a group.\<close>

lemma said_once:
  assumes "traffic group_step (group_drain account) s log t" "group_ok s"
  shows "distinct (map (gm_ID \<circ> fst) log)"
proof -
  have "\<exists>send mid cancelled limit n e. calm group_ok group_step mid \<and> e \<noteq> DrainUnrecorded
      \<and> drain_rows send group_sent (MarkFailed \<circ> gm_ID \<circ> fst) mid cancelled 0 (ClaimQueued account limit s) [] 0 s = (l, n, e, s')"
    if "group_drain account s l s'" for s l s'
    using that unfolding group_drain_def GroupDrainer_Drain_def by blast
  then show ?thesis using group.never_twice [OF assms] by blast
qed

end
