(* ===== verification/Broadcasts.thy ===== *)
theory Broadcasts
  imports Outbox CsInbox
begin

text \<open>
  Announcements: the table of \<open>models/cs_broadcast.go\<close>, which is their outbox and their history, its operations
  (\<open>services/cs_broadcast_post_service.go\<close>) and its drain (\<open>wa/broadcast_drainer.go\<close>). The quotes around an unknown
  destination are left out of its reason.
\<close>

section \<open>Announcements\<close>

datatype BroadcastPostStatus = BroadcastQueued | BroadcastSent | BroadcastFailed

record WABroadcastPost =
  bp_ID :: uuid
  bp_WAAccountID :: uuid
  bp_Destination :: string
  bp_DestinationJID :: "string option"
  bp_SenderUserID :: uuid
  bp_Kind :: string
  bp_Body :: string
  bp_Media :: "MediaFile option"
  bp_Status :: BroadcastPostStatus
  bp_FailReason :: string
  bp_WAMessageID :: "string option"
  bp_CreatedAt :: time
  bp_SentAt :: "time option"

record BroadcastPost =
  bc_WAAccountID :: uuid
  bc_Destination :: string
  bc_ChannelJID :: string
  bc_SenderUserID :: uuid
  bc_Kind :: string
  bc_Body :: string
  bc_Media :: "MediaFile option"

definition DestinationChannel :: string where "DestinationChannel = ''channel''"
definition DestinationStatus :: string where "DestinationStatus = ''status''"

datatype post_error = ErrChannelMissing | ErrChannelNamed | ErrDestinationUnknown

definition buildBroadcastPost :: "uuid \<Rightarrow> time \<Rightarrow> BroadcastPost \<Rightarrow> post_error + WABroadcastPost" where
  "buildBroadcastPost newid now i =
     (let post = \<lparr>bp_ID = newid, bp_WAAccountID = bc_WAAccountID i, bp_Destination = bc_Destination i, bp_DestinationJID = None,
                  bp_SenderUserID = bc_SenderUserID i, bp_Kind = bc_Kind i, bp_Body = bc_Body i, bp_Media = bc_Media i,
                  bp_Status = BroadcastQueued, bp_FailReason = [], bp_WAMessageID = None, bp_CreatedAt = now, bp_SentAt = None\<rparr>
      in if bc_Destination i = DestinationChannel
         then (if bc_ChannelJID i = [] then Inl ErrChannelMissing else Inr (post\<lparr>bp_DestinationJID := Some (bc_ChannelJID i)\<rparr>))
         else if bc_Destination i = DestinationStatus
         then (if bc_ChannelJID i \<noteq> [] then Inl ErrChannelNamed else Inr post)
         else Inl ErrDestinationUnknown)"

definition Post_Queue :: "uuid \<Rightarrow> time \<Rightarrow> BroadcastPost \<Rightarrow> WABroadcastPost list \<Rightarrow> (post_error + WABroadcastPost) \<times> WABroadcastPost list" where
  "Post_Queue newid now i posts =
     (case buildBroadcastPost newid now i of Inl e \<Rightarrow> (Inl e, posts) | Inr post \<Rightarrow> (Inr post, posts @ [post]))"

text \<open>One transaction: all of the rows or none. \<open>newid k\<close> is the id the \<open>k\<close>-th insert draws.\<close>

fun build_all :: "(nat \<Rightarrow> uuid) \<Rightarrow> time \<Rightarrow> nat \<Rightarrow> BroadcastPost list \<Rightarrow> post_error + WABroadcastPost list" where
  "build_all newid now k [] = Inr []"
| "build_all newid now k (i # is) =
     (case buildBroadcastPost (newid k) now i of
        Inl e \<Rightarrow> Inl e
      | Inr post \<Rightarrow> (case build_all newid now (Suc k) is of Inl e \<Rightarrow> Inl e | Inr rows \<Rightarrow> Inr (post # rows)))"

definition QueueAll ::
  "(nat \<Rightarrow> uuid) \<Rightarrow> time \<Rightarrow> BroadcastPost list \<Rightarrow> WABroadcastPost list
    \<Rightarrow> (post_error + WABroadcastPost list) \<times> WABroadcastPost list" where
  "QueueAll newid now is posts =
     (case build_all newid now 0 is of Inl e \<Rightarrow> (Inl e, posts) | Inr rows \<Rightarrow> (Inr rows, posts @ rows))"

definition defaultPostHistoryLimit :: int where "defaultPostHistoryLimit = 50"

definition ListRecent :: "int \<Rightarrow> WABroadcastPost list \<Rightarrow> WABroadcastPost list" where
  "ListRecent limit posts =
     (let limit = (if limit \<le> 0 \<or> limit > defaultPostHistoryLimit then defaultPostHistoryLimit else limit)
      in take (nat limit) (sort_key (\<lambda>p. - bp_CreatedAt p) posts))"

definition Post_ClaimQueued :: "uuid \<Rightarrow> int \<Rightarrow> WABroadcastPost list \<Rightarrow> WABroadcastPost list" where
  "Post_ClaimQueued account limit posts =
     (let limit = (if limit \<le> 0 then defaultPostHistoryLimit else limit)
      in take (nat limit) (sort_key bp_CreatedAt (filter (\<lambda>p. bp_Status p = BroadcastQueued \<and> bp_WAAccountID p = account) posts)))"

definition post_update :: "uuid \<Rightarrow> (WABroadcastPost \<Rightarrow> WABroadcastPost) \<Rightarrow> WABroadcastPost list \<Rightarrow> WABroadcastPost list option" where
  "post_update i f posts =
     (if list_ex (\<lambda>p. bp_ID p = i) posts then Some (update_where (\<lambda>p. bp_ID p = i) f posts) else None)"

definition Post_MarkSent :: "time \<Rightarrow> uuid \<Rightarrow> string \<Rightarrow> WABroadcastPost list \<Rightarrow> WABroadcastPost list option" where
  "Post_MarkSent now i waid =
     post_update i (\<lambda>p. p\<lparr>bp_Status := BroadcastSent, bp_FailReason := [], bp_WAMessageID := Some waid, bp_SentAt := Some now\<rparr>)"

definition Post_MarkFailed :: "uuid \<Rightarrow> string \<Rightarrow> WABroadcastPost list \<Rightarrow> WABroadcastPost list option" where
  "Post_MarkFailed i reason = post_update i (\<lambda>p. p\<lparr>bp_Status := BroadcastFailed, bp_FailReason := reason\<rparr>)"

record broadcast_whatsapp =
  bw_SendChannelText :: "string \<Rightarrow> string \<Rightarrow> string + string"
  bw_SendChannelMedia :: "string \<Rightarrow> string \<Rightarrow> MediaFile option \<Rightarrow> string \<Rightarrow> string + string"
  bw_SendStatusText :: "string \<Rightarrow> string + string"
  bw_SendStatusMedia :: "string \<Rightarrow> MediaFile option \<Rightarrow> string \<Rightarrow> string + string"

definition sendStatus :: "broadcast_whatsapp \<Rightarrow> WABroadcastPost \<Rightarrow> string + string" where
  "sendStatus bw p =
     (if bp_Kind p = ''text'' then bw_SendStatusText bw (bp_Body p)
      else bw_SendStatusMedia bw (bp_Kind p) (bp_Media p) (bp_Body p))"

definition sendChannel :: "broadcast_whatsapp \<Rightarrow> WABroadcastPost \<Rightarrow> string + string" where
  "sendChannel bw p =
     (case bp_DestinationJID p of
        None \<Rightarrow> Inl ''kiriman saluran tanpa saluran''
      | Some jid \<Rightarrow>
          if bp_Kind p = ''text'' then bw_SendChannelText bw jid (bp_Body p)
          else bw_SendChannelMedia bw jid (bp_Kind p) (bp_Media p) (bp_Body p))"

definition post_send :: "broadcast_whatsapp \<Rightarrow> WABroadcastPost \<Rightarrow> WABroadcastPost list \<Rightarrow> string + string" where
  "post_send bw p posts =
     (if bp_Destination p = DestinationStatus then sendStatus bw p
      else if bp_Destination p = DestinationChannel then sendChannel bw p
      else Inl (''tujuan tidak dikenal '' @ bp_Destination p))"

definition post_sent :: "WABroadcastPost \<Rightarrow> time \<times> string \<Rightarrow> WABroadcastPost list \<Rightarrow> WABroadcastPost list option" where
  "post_sent p r = Post_MarkSent (fst r) (bp_ID p) (snd r)"

definition BroadcastDrainer_Drain ::
  "broadcast_whatsapp \<Rightarrow> (nat \<Rightarrow> time) \<Rightarrow> (nat \<Rightarrow> WABroadcastPost list \<Rightarrow> WABroadcastPost list) \<Rightarrow> (nat \<Rightarrow> bool) \<Rightarrow> uuid \<Rightarrow> int
    \<Rightarrow> WABroadcastPost list \<Rightarrow> WABroadcastPost list \<times> nat \<times> drain_end \<times> WABroadcastPost list" where
  "BroadcastDrainer_Drain bw clk mid cancelled account limit posts =
     drain_rows (\<lambda>p posts. map_sum id (Pair (clk (bp_ID p))) (post_send bw p posts)) post_sent
       (Post_MarkFailed \<circ> bp_ID) mid cancelled 0 (Post_ClaimQueued account limit posts) [] 0 posts"


section \<open>The broadcast outbox keeps the promise\<close>

definition posts_ok :: "WABroadcastPost list \<Rightarrow> bool" where
  "posts_ok posts \<longleftrightarrow> distinct (map bp_ID posts)"

definition post_queued :: "WABroadcastPost \<Rightarrow> bool" where
  "post_queued p \<longleftrightarrow> bp_Status p = BroadcastQueued"

inductive post_step :: "WABroadcastPost list \<Rightarrow> WABroadcastPost list \<Rightarrow> bool" where
  written: "newid \<notin> bp_ID ` set posts \<Longrightarrow> post_step posts (snd (Post_Queue newid now i posts))"
| written_all: "inj newids \<Longrightarrow> \<forall>k. newids k \<notin> bp_ID ` set posts \<Longrightarrow> post_step posts (snd (QueueAll newids now is posts))"
| sent: "Post_MarkSent now i waid posts = Some posts' \<Longrightarrow> post_step posts posts'"
| failed: "Post_MarkFailed i reason posts = Some posts' \<Longrightarrow> post_step posts posts'"

lemma build_id: "buildBroadcastPost newid now i = Inr p \<Longrightarrow> bp_ID p = newid"
  by (auto simp: buildBroadcastPost_def Let_def split: if_splits)

lemma build_all_ids: "build_all newid now k is = Inr rows \<Longrightarrow> map bp_ID rows = map newid [k ..< k + length is]"
proof (induction "is" arbitrary: k rows)
  case (Cons i "is")
  then obtain p ps where p: "buildBroadcastPost (newid k) now i = Inr p" "build_all newid now (Suc k) is = Inr ps" "rows = p # ps"
    by (auto split: sum.splits)
  have "[k ..< k + length (i # is)] = k # [Suc k ..< Suc k + length is]" by (simp add: upt_conv_Cons del: upt_Suc)
  then show ?case using Cons.IH [OF p(2)] build_id [OF p(1)] by (simp only: p(3) list.map)
qed simp

lemma post_update_kept:
  assumes "post_update i f posts = Some posts'" "\<And>p. bp_ID (f p) = bp_ID p" "\<And>p. bp_Status (f p) \<noteq> BroadcastQueued"
  shows "settled_stay bp_ID post_queued posts posts'" "posts_ok posts \<Longrightarrow> posts_ok posts'" "i \<notin> waiting bp_ID post_queued posts'"
  using assms update_settles [of bp_ID f post_queued i posts]
  by (auto simp: post_update_def post_queued_def posts_ok_def map_update_where intro!: kept_update split: if_splits)

lemma post_step_kept:
  assumes "post_step posts posts'"
  shows "settled_stay bp_ID post_queued posts posts' \<and> (posts_ok posts \<longrightarrow> posts_ok posts')"
  using assms
proof (cases rule: post_step.cases)
  case (written newid now i)
  then show ?thesis by (auto simp: Post_Queue_def posts_ok_def kept_snoc build_id split: sum.split)
next
  case (written_all newids now "is")
  show ?thesis
  proof (cases "build_all newids now 0 is")
    case (Inl e)
    then show ?thesis by (simp add: written_all(1) QueueAll_def)
  next
    case (Inr rows)
    have rows: "map bp_ID rows = map newids [0 ..< length is]" using build_all_ids [OF Inr] by simp
    have "bp_ID ` set rows = newids ` set [0 ..< length is]" using rows by (metis list.set_map)
    then have ids: "bp_ID ` set rows \<subseteq> range newids" "distinct (map bp_ID rows)"
      using inj_on_subset [OF written_all(2), of "{0 ..< length is}"] by (auto simp: rows distinct_map)
    have "range newids \<inter> bp_ID ` set posts = {}" using written_all(3) by auto
    then have "bp_ID ` set rows \<inter> bp_ID ` set posts = {}"
      using inf_mono [OF ids(1) order_refl, of "bp_ID ` set posts"] by simp
    then show ?thesis using ids(2) by (auto simp: written_all(1) QueueAll_def Inr posts_ok_def kept_append)
  qed
next
  case (sent now i waid)
  then show ?thesis unfolding Post_MarkSent_def using post_update_kept(1,2) by fastforce
next
  case (failed i reason)
  then show ?thesis unfolding Post_MarkFailed_def using post_update_kept(1,2) by fastforce
qed

lemma claimed_posts:
  assumes "posts_ok posts"
  shows "distinct (map bp_ID (Post_ClaimQueued account limit posts))
    \<and> bp_ID ` set (Post_ClaimQueued account limit posts) \<subseteq> waiting bp_ID post_queued posts"
  using assms unfolding Post_ClaimQueued_def Let_def posts_ok_def by (intro claimed_rows) (simp_all add: post_queued_def)

lemma post_sent_steps:
  assumes "post_sent p r posts = Some posts'"
  shows "post_step\<^sup>*\<^sup>* posts posts' \<and> bp_ID p \<notin> waiting bp_ID post_queued posts'"
  using assms post_step.sent [of "fst r" "bp_ID p" "snd r" posts posts'] post_update_kept(3) [of "bp_ID p" _ posts posts']
  by (auto simp: post_sent_def Post_MarkSent_def)

lemma post_failed_steps:
  assumes "(Post_MarkFailed \<circ> bp_ID) p e posts = Some posts'"
  shows "post_step\<^sup>*\<^sup>* posts posts' \<and> bp_ID p \<notin> waiting bp_ID post_queued posts'"
  using assms post_step.failed [of "bp_ID p" e posts posts'] post_update_kept(3) [of "bp_ID p" _ posts posts']
  by (auto simp: Post_MarkFailed_def)

interpretation posts: outbox posts_ok post_step "waiting bp_ID post_queued" "\<lambda>posts. bp_ID ` set posts" bp_ID
    "Post_ClaimQueued account" post_sent "Post_MarkFailed \<circ> bp_ID" for account
proof
  fix s s' assume "post_step s s'"
  then show "posts_ok s \<Longrightarrow> posts_ok s'" "bp_ID ` set s \<subseteq> bp_ID ` set s'"
    "waiting bp_ID post_queued s' \<inter> bp_ID ` set s \<subseteq> waiting bp_ID post_queued s"
    using post_step_kept by (auto simp: settled_stay_def)
qed (rule waiting_known, erule claimed_posts, erule post_sent_steps, erule post_failed_steps)

definition post_drain :: "uuid \<Rightarrow> WABroadcastPost list \<Rightarrow> WABroadcastPost list \<Rightarrow> WABroadcastPost list \<Rightarrow> bool" where
  "post_drain account s log s' \<longleftrightarrow>
     (\<exists>bw clk mid cancelled limit n e. calm posts_ok post_step mid \<and> e \<noteq> DrainUnrecorded
        \<and> BroadcastDrainer_Drain bw clk mid cancelled account limit s = (log, n, e, s'))"

lemma announced_once:
  assumes "traffic post_step (post_drain account) s log t" "posts_ok s"
  shows "distinct (map bp_ID log)"
proof -
  have "\<exists>send mid cancelled limit n e. calm posts_ok post_step mid \<and> e \<noteq> DrainUnrecorded
      \<and> drain_rows send post_sent (Post_MarkFailed \<circ> bp_ID) mid cancelled 0 (Post_ClaimQueued account limit s) [] 0 s = (l, n, e, s')"
    if "post_drain account s l s'" for s l s'
    using that unfolding post_drain_def BroadcastDrainer_Drain_def by blast
  then show ?thesis using posts.never_twice [OF assms] by blast
qed

end
