(* ===== verification/Telemetry.thy ===== *)
theory Telemetry
  imports Prelude
begin

text \<open>
  What is told of an ONT over time: its status events and the availability worked out from them
  (\<open>services/event_service.go\<close>, \<open>services/event_status_batch.go\<close>) and the data it moved by the OLT's counters
  (\<open>services/metrics_traffic_usage.go\<close>). A row of the event table keeps its place; an inserted row comes last with a
  greater identifier. \<open>int64(d.Seconds())\<close> truncates to whole seconds. The counters are 64-bit
  words that wrap; the ceiling of one bucket is exact for buckets of whole seconds, which all are.
\<close>

section \<open>Status events\<close>

definition EventTypeOnline :: string where "EventTypeOnline = ''online''"
definition EventTypeOffline :: string where "EventTypeOffline = ''offline''"

lemmas event_type_defs = EventTypeOnline_def EventTypeOffline_def

record ONTEvent =
  ev_ID :: int
  ev_ONTID :: uuid
  ev_EventType :: string
  ev_EventTime :: time
  ev_Reason :: string
  ev_DurationSeconds :: "int option"

record StatusChange =
  sc_ONTID :: uuid
  sc_EventType :: string
  sc_Reason :: string

definition seconds :: "duration \<Rightarrow> int" where
  "seconds d = go_div d second"

definition next_id :: "ONTEvent list \<Rightarrow> int" where
  "next_id evs = foldl (\<lambda>m e. max m (ev_ID e)) 0 evs + 1"

definition valid_event_type :: "string \<Rightarrow> bool" where
  "valid_event_type t \<longleftrightarrow> t = EventTypeOnline \<or> t = EventTypeOffline"

definition LogEvent :: "ONTEvent \<Rightarrow> ONTEvent list \<Rightarrow> ONTEvent list option" where
  "LogEvent e evs = (if valid_event_type (ev_EventType e) then Some (evs @ [e\<lparr>ev_ID := next_id evs\<rparr>]) else None)"

definition validateStatusChanges :: "StatusChange list \<Rightarrow> bool" where
  "validateStatusChanges cs = list_all (\<lambda>c. valid_event_type (sc_EventType c)) cs"

text \<open>\<open>ROW_NUMBER() OVER (PARTITION BY ont_id ORDER BY event_time DESC, id DESC) = 1\<close>.\<close>

definition latest_event :: "uuid \<Rightarrow> ONTEvent list \<Rightarrow> ONTEvent option" where
  "latest_event ont evs =
     min_row (\<lambda>e. - ev_EventTime e)
       (rev (sort_key ev_ID (filter (\<lambda>e. ev_ONTID e = ont) evs)))"

definition latestEventPerONT :: "uuid list \<Rightarrow> ONTEvent list \<Rightarrow> uuid \<Rightarrow> ONTEvent option" where
  "latestEventPerONT ids evs = (\<lambda>ont. if ont \<in> set ids then latest_event ont evs else None)"

definition closeEvent :: "ONTEvent \<Rightarrow> time \<Rightarrow> ONTEvent list \<Rightarrow> ONTEvent list" where
  "closeEvent previous now evs =
     update_where (\<lambda>e. ev_ID e = ev_ID previous)
       (\<lambda>e. e\<lparr>ev_DurationSeconds := Some (seconds (now - ev_EventTime previous))\<rparr>) evs"

text \<open>The loop of \<open>LogStatusChanges\<close>: the table with the events it closed, and the events it opens.\<close>

fun log_changes ::
  "(uuid \<Rightarrow> ONTEvent option) \<Rightarrow> time \<Rightarrow> StatusChange list \<Rightarrow> ONTEvent list \<times> ONTEvent list \<Rightarrow> ONTEvent list \<times> ONTEvent list" where
  "log_changes latest now [] st = st"
| "log_changes latest now (c # cs) (evs, opened) =
     (let e = \<lparr>ev_ID = 0, ev_ONTID = sc_ONTID c, ev_EventType = sc_EventType c, ev_EventTime = now,
               ev_Reason = sc_Reason c, ev_DurationSeconds = None\<rparr>
      in (case latest (sc_ONTID c) of
            None \<Rightarrow> log_changes latest now cs (evs, opened @ [e])
          | Some previous \<Rightarrow>
              if ev_EventType previous = sc_EventType c then log_changes latest now cs (evs, opened)
              else log_changes latest now cs (closeEvent previous now evs, opened @ [e])))"

fun insert_events :: "ONTEvent list \<Rightarrow> ONTEvent list \<Rightarrow> ONTEvent list" where
  "insert_events [] evs = evs"
| "insert_events (e # es) evs = insert_events es (evs @ [e\<lparr>ev_ID := next_id evs\<rparr>])"

definition LogStatusChanges :: "time \<Rightarrow> StatusChange list \<Rightarrow> ONTEvent list \<Rightarrow> ONTEvent list option" where
  "LogStatusChanges now changes evs =
     (if changes = [] then Some evs
      else if \<not> validateStatusChanges changes then None
      else (case log_changes (latestEventPerONT (map sc_ONTID changes) evs) now changes (evs, []) of
              (evs, opened) \<Rightarrow> Some (insert_events opened evs)))"

section \<open>Availability\<close>

record availability =
  av_TotalSeconds :: int
  av_OnlineSeconds :: int
  av_OfflineSeconds :: int
  av_OnlineEvents :: nat
  av_OfflineEvents :: nat
  av_online :: "int list"
  av_offline :: "int list"

definition GetEventsInTimeRange :: "uuid \<Rightarrow> time \<Rightarrow> time \<Rightarrow> ONTEvent list \<Rightarrow> ONTEvent list" where
  "GetEventsInTimeRange ont s e evs =
     sort_key (\<lambda>x. - ev_EventTime x) (filter (\<lambda>x. ev_ONTID x = ont \<and> s \<le> ev_EventTime x \<and> ev_EventTime x \<le> e) evs)"

text \<open>Events come newest first, so an event runs until the one before it in the list.\<close>

fun accumulateEventDurations :: "time \<Rightarrow> ONTEvent list \<Rightarrow> availability \<Rightarrow> availability" where
  "accumulateEventDurations until [] st = st"
| "accumulateEventDurations until (e # es) st =
     (let d = seconds (until - ev_EventTime e)
      in accumulateEventDurations (ev_EventTime e) es
           (if ev_EventType e = EventTypeOnline
            then st\<lparr>av_OnlineEvents := av_OnlineEvents st + 1, av_OnlineSeconds := av_OnlineSeconds st + d,
                    av_online := av_online st @ [d]\<rparr>
            else st\<lparr>av_OfflineEvents := av_OfflineEvents st + 1, av_OfflineSeconds := av_OfflineSeconds st + d,
                    av_offline := av_offline st @ [d]\<rparr>))"

definition availabilityFromCurrentStatus :: "string option \<Rightarrow> availability \<Rightarrow> availability option" where
  "availabilityFromCurrentStatus status st =
     map_option (\<lambda>s. if s = ''online'' then st\<lparr>av_OnlineSeconds := av_TotalSeconds st\<rparr>
                     else st\<lparr>av_OfflineSeconds := av_TotalSeconds st\<rparr>) status"

text \<open>The status is that of the ONT's row, if it has one.\<close>

definition CalculateAvailability ::
  "string option \<Rightarrow> uuid \<Rightarrow> time \<Rightarrow> time \<Rightarrow> ONTEvent list \<Rightarrow> availability option" where
  "CalculateAvailability status ont startTime endTime evs =
     (let st = \<lparr>av_TotalSeconds = seconds (endTime - startTime), av_OnlineSeconds = 0, av_OfflineSeconds = 0,
                av_OnlineEvents = 0, av_OfflineEvents = 0, av_online = [], av_offline = []\<rparr>;
          events = GetEventsInTimeRange ont startTime endTime evs
      in if events = [] then availabilityFromCurrentStatus status st
         else (let st = accumulateEventDurations endTime events st;
                   f = last events;
                   before = seconds (ev_EventTime f - startTime)
               in Some (if ev_EventTime f > startTime
                        then (if ev_EventType f = EventTypeOnline
                              then st\<lparr>av_OnlineSeconds := av_OnlineSeconds st + before\<rparr>
                              else st\<lparr>av_OfflineSeconds := av_OfflineSeconds st + before\<rparr>)
                        else st)))"

text \<open>The mean of the stretches, as a fraction: the sum and the count.\<close>

definition mean :: "int list \<Rightarrow> int \<times> nat" where
  "mean durations = (sum_list durations, length durations)"

section \<open>Data used\<close>

record counter_row =
  cr_FirstRxBytes :: "u64 option"
  cr_LastRxBytes :: "u64 option"
  cr_FirstTxBytes :: "u64 option"
  cr_LastTxBytes :: "u64 option"

record TrafficUsage =
  tu_DownloadBytes :: u64
  tu_UploadBytes :: u64

definition gponLineRateBps :: int where
  "gponLineRateBps = 2488320000"

definition plausibleBytes :: "duration \<Rightarrow> u64" where
  "plausibleBytes step = (if step \<le> 0 then 0 else of_int (step * gponLineRateBps div 8 div second))"

definition counterAdvance :: "u64 option \<Rightarrow> u64 option \<Rightarrow> u64 option \<Rightarrow> u64 \<Rightarrow> u64" where
  "counterAdvance previous fst_reading lst ceiling =
     (case (fst_reading, lst) of
        (Some a, Some b) \<Rightarrow>
          if b < a then 0
          else if ceiling > 0 \<and> b - a > ceiling then 0
          else (case previous of
                  Some p \<Rightarrow> if p \<le> a \<and> (ceiling = 0 \<or> a - p \<le> ceiling) then b - a + (a - p) else b - a
                | None \<Rightarrow> b - a)
      | _ \<Rightarrow> 0)"

fun usage_loop :: "u64 \<Rightarrow> u64 option \<Rightarrow> u64 option \<Rightarrow> counter_row list \<Rightarrow> TrafficUsage \<Rightarrow> TrafficUsage" where
  "usage_loop ceiling prevRx prevTx [] u = u"
| "usage_loop ceiling prevRx prevTx (r # rs) u =
     usage_loop ceiling
       (if cr_LastRxBytes r = None then prevRx else cr_LastRxBytes r)
       (if cr_LastTxBytes r = None then prevTx else cr_LastTxBytes r) rs
       (u\<lparr>tu_UploadBytes := tu_UploadBytes u + counterAdvance prevRx (cr_FirstRxBytes r) (cr_LastRxBytes r) ceiling,
          tu_DownloadBytes := tu_DownloadBytes u + counterAdvance prevTx (cr_FirstTxBytes r) (cr_LastTxBytes r) ceiling\<rparr>)"

definition trafficUsageOver :: "counter_row list \<Rightarrow> duration \<Rightarrow> TrafficUsage" where
  "trafficUsageOver rows step =
     usage_loop (plausibleBytes step) None None rows \<lparr>tu_DownloadBytes = 0, tu_UploadBytes = 0\<rparr>"

section \<open>Availability accounts for the window\<close>

lemma seconds_bounds: "0 \<le> d \<Longrightarrow> 0 \<le> seconds d \<and> seconds d * second \<le> d \<and> d < seconds d * second + second"
proof -
  assume d: "0 \<le> d"
  have "seconds d = d div second" using d by (simp add: seconds_def go_div_nonneg)
  moreover have "d div second * second + d mod second = d" by (rule div_mult_mod_eq)
  moreover have "0 \<le> d mod second" "d mod second < second" by simp_all
  ultimately show ?thesis using d by (simp add: pos_imp_zdiv_nonneg_iff) linarith
qed

fun newest_first :: "time \<Rightarrow> ONTEvent list \<Rightarrow> bool" where
  "newest_first until [] = True"
| "newest_first until (e # es) \<longleftrightarrow> ev_EventTime e \<le> until \<and> newest_first (ev_EventTime e) es"

lemma accumulate_accounts:
  assumes "newest_first until evs" "evs \<noteq> []"
  shows "let st' = accumulateEventDurations until evs st;
             gained = av_OnlineSeconds st' + av_OfflineSeconds st' - (av_OnlineSeconds st + av_OfflineSeconds st)
         in gained * second \<le> until - ev_EventTime (last evs) \<and>
            until - ev_EventTime (last evs) < (gained + int (length evs)) * second"
  using assms
proof (induction evs arbitrary: until st)
  case (Cons e es)
  let ?d = "seconds (until - ev_EventTime e)"
  have d: "?d * second \<le> until - ev_EventTime e" "until - ev_EventTime e < ?d * second + second"
    using Cons.prems(1) seconds_bounds [of "until - ev_EventTime e"] by auto
  show ?case
  proof (cases "es = []")
    case True
    then show ?thesis using d by (simp add: Let_def algebra_simps)
  next
    case False
    let ?st = "if ev_EventType e = EventTypeOnline
            then st\<lparr>av_OnlineEvents := av_OnlineEvents st + 1, av_OnlineSeconds := av_OnlineSeconds st + ?d,
                    av_online := av_online st @ [?d]\<rparr>
            else st\<lparr>av_OfflineEvents := av_OfflineEvents st + 1, av_OfflineSeconds := av_OfflineSeconds st + ?d,
                    av_offline := av_offline st @ [?d]\<rparr>"
    have "av_OnlineSeconds ?st + av_OfflineSeconds ?st = av_OnlineSeconds st + av_OfflineSeconds st + ?d" by simp
    moreover have "newest_first (ev_EventTime e) es" using Cons.prems(1) by simp
    note Cons.IH [OF this False, of ?st]
    ultimately show ?thesis using d False by (simp add: Let_def algebra_simps)
  qed
qed simp

lemma sorted_newest_first:
  "sorted (map (\<lambda>x. - ev_EventTime x) evs) \<Longrightarrow> (\<And>x. x \<in> set evs \<Longrightarrow> ev_EventTime x \<le> until) \<Longrightarrow> newest_first until evs"
  by (induction evs arbitrary: until) auto

section \<open>The history of an ONT\<close>

definition DeleteOldEvents :: "time \<Rightarrow> duration \<Rightarrow> ONTEvent list \<Rightarrow> ONTEvent list" where
  "DeleteOldEvents now olderThan evs = filter (\<lambda>e. \<not> ev_EventTime e < now - olderThan) evs"

definition history :: "uuid \<Rightarrow> ONTEvent list \<Rightarrow> ONTEvent list" where
  "history ont evs = filter (\<lambda>e. ev_ONTID e = ont) evs"

text \<open>Types alternate, time does not run back, and an event has a duration exactly when another follows it.\<close>

fun alternates :: "ONTEvent list \<Rightarrow> bool" where
  "alternates [] = True"
| "alternates [e] \<longleftrightarrow> valid_event_type (ev_EventType e) \<and> ev_DurationSeconds e = None"
| "alternates (a # b # es) \<longleftrightarrow>
     valid_event_type (ev_EventType a) \<and> ev_EventType a \<noteq> ev_EventType b \<and> ev_EventTime a \<le> ev_EventTime b \<and>
     ev_DurationSeconds a = Some (seconds (ev_EventTime b - ev_EventTime a)) \<and> alternates (b # es)"

definition numbered :: "ONTEvent list \<Rightarrow> bool" where
  "numbered evs \<longleftrightarrow> sorted_wrt (<) (0 # map ev_ID evs)"

definition well_recorded :: "ONTEvent list \<Rightarrow> bool" where
  "well_recorded evs \<longleftrightarrow> numbered evs \<and> (\<forall>ont. alternates (history ont evs))"

abbreviation unnumbered :: "ONTEvent \<Rightarrow> ONTEvent" where
  "unnumbered e \<equiv> e\<lparr>ev_ID := 0\<rparr>"

lemma history_simps [simp]:
  "history ont [] = []"
  "history ont (e # evs) = (if ev_ONTID e = ont then e # history ont evs else history ont evs)"
  "history ont (xs @ ys) = history ont xs @ history ont ys"
  by (simp_all add: history_def)

lemma set_history [simp]: "set (history ont evs) = {e \<in> set evs. ev_ONTID e = ont}"
  by (auto simp: history_def)

lemma alternates_append_last:
  assumes "alternates h" "h \<noteq> []" "valid_event_type (ev_EventType e)" "ev_DurationSeconds e = None"
    and "ev_EventType (last h) \<noteq> ev_EventType e" "ev_EventTime (last h) \<le> ev_EventTime e"
  shows "alternates (butlast h @ [(last h)\<lparr>ev_DurationSeconds := Some (seconds (ev_EventTime e - ev_EventTime (last h)))\<rparr>, e])"
  using assms
proof (induction h rule: alternates.induct)
  case (3 a b es)
  then show ?case by (cases es) auto
qed auto

lemma alternates_unnumbered [simp]: "alternates (map unnumbered h) = alternates h"
  by (induction h rule: alternates.induct) auto

lemma alternates_tl: "alternates (a # es) \<Longrightarrow> alternates es"
  by (cases es) auto

lemma alternates_times: "alternates h \<Longrightarrow> sorted (map ev_EventTime h)"
proof (induction h rule: alternates.induct)
  case (3 a b es)
  then show ?case by (auto intro: order_trans)
qed auto

lemma alternates_types: "alternates h \<Longrightarrow> e \<in> set h \<Longrightarrow> valid_event_type (ev_EventType e)"
  by (induction h rule: alternates.induct) auto

lemma alternates_drop_old:
  "alternates h \<Longrightarrow> alternates (filter (\<lambda>e. \<not> ev_EventTime e < t) h)"
proof (induction h rule: alternates.induct)
  case (3 a b es)
  have "filter (\<lambda>e. \<not> ev_EventTime e < t) (a # b # es) = a # b # es" if "\<not> ev_EventTime a < t"
    using that alternates_times [OF "3.prems"] by (auto simp: filter_id_conv)
  then show ?case using 3 by (cases "ev_EventTime a < t") auto
qed auto

section \<open>The latest event\<close>

lemma sort_key_sorted: "sorted (map f xs) \<Longrightarrow> sort_key f xs = xs"
  by (induction xs) (auto simp: insort_is_Cons)

lemma min_row_greatest_last:
  "sorted (map f xs) \<Longrightarrow> min_row (\<lambda>e. - f e :: int) (rev xs) = (if xs = [] then None else Some (last xs))"
proof (induction xs rule: rev_induct)
  case (snoc x xs)
  have "f y \<le> f x" if "min_row (\<lambda>e. - f e) (rev xs) = Some y" for y
    using min_row_mem [OF that] snoc.prems by (auto simp: sorted_append)
  then show ?case by (auto split: option.splits)
qed simp

lemma latest_event_last:
  assumes "well_recorded evs"
  shows "latest_event ont evs = (if history ont evs = [] then None else Some (last (history ont evs)))"
proof -
  have "sorted (map ev_ID evs)" using assms by (auto simp: well_recorded_def numbered_def intro: strict_sorted_imp_sorted)
  then have "sort_key ev_ID (history ont evs) = history ont evs"
    by (intro sort_key_sorted) (auto simp: history_def sorted_filter)
  moreover have "sorted (map ev_EventTime (history ont evs))"
    using assms alternates_times by (auto simp: well_recorded_def)
  ultimately show ?thesis by (simp add: latest_event_def min_row_greatest_last flip: history_def)
qed


section \<open>Recording a page of statuses\<close>

lemma foldl_max_ge: "(m :: int) \<le> foldl (\<lambda>m e. max m (f e)) m xs"
  by (induction xs arbitrary: m) (auto intro: order_trans [OF max.cobounded1])

lemma foldl_max_ge_all: "x \<in> set xs \<Longrightarrow> (f x :: int) \<le> foldl (\<lambda>m e. max m (f e)) m xs"
  by (induction xs arbitrary: m) (auto intro: order_trans [OF max.cobounded2 foldl_max_ge])

lemma next_id_greater: "e \<in> set evs \<Longrightarrow> ev_ID e < next_id evs"
  using foldl_max_ge_all [where x = e and xs = evs and f = ev_ID and m = 0] by (simp add: next_id_def)

lemma next_id_pos: "0 < next_id evs"
  using foldl_max_ge [where m = 0 and f = ev_ID and xs = evs] by (simp add: next_id_def)

lemma numbered_insert [simp]: "numbered evs \<Longrightarrow> numbered (insert_events es evs)"
proof (induction es arbitrary: evs)
  case (Cons e es)
  have "numbered (evs @ [e\<lparr>ev_ID := next_id evs\<rparr>])"
    using Cons.prems next_id_greater next_id_pos [of evs] by (auto simp: numbered_def sorted_wrt_append)
  then show ?case using Cons.IH by simp
qed simp

lemma history_insert: "map unnumbered (history ont (insert_events es evs)) = map unnumbered (history ont evs @ history ont es)"
  by (induction es arbitrary: evs) auto

lemma set_insert_events: "e \<in> set (insert_events es evs) \<Longrightarrow> e \<in> set evs \<or> unnumbered e \<in> unnumbered ` set es"
  by (induction es arbitrary: evs) fastforce+

lemma closeEvent_simps [simp]:
  "map ev_ID (closeEvent p now evs) = map ev_ID evs"
  "map ev_ONTID (closeEvent p now evs) = map ev_ONTID evs"
  "map ev_EventTime (closeEvent p now evs) = map ev_EventTime evs"
  by (simp_all add: closeEvent_def map_update_where)

lemma numbered_closeEvent [simp]: "numbered (closeEvent p now evs) = numbered evs"
  by (simp add: numbered_def del: sorted_wrt.simps)

lemma history_closeEvent: "history ont (closeEvent p now evs) = closeEvent p now (history ont evs)"
  by (induction evs) (auto simp: closeEvent_def)

lemma closeEvent_other: "ev_ID p \<notin> ev_ID ` set evs \<Longrightarrow> closeEvent p now evs = evs"
  by (induction evs) (auto simp: closeEvent_def)

lemma closeEvent_last:
  assumes "numbered h" "h \<noteq> []"
  shows "closeEvent (last h) now h =
         butlast h @ [(last h)\<lparr>ev_DurationSeconds := Some (seconds (now - ev_EventTime (last h)))\<rparr>]"
proof -
  obtain xs x where h: "h = xs @ [x]" using assms(2) by (cases h rule: rev_cases) auto
  have "ev_ID x \<notin> ev_ID ` set xs" using assms(1) by (fastforce simp: h numbered_def sorted_wrt_append)
  then have "closeEvent x now xs = xs" by (rule closeEvent_other)
  then show ?thesis by (simp add: h closeEvent_def update_where_def)
qed

lemma numbered_history: "numbered evs \<Longrightarrow> numbered (history ont evs)"
  by (auto simp: numbered_def history_def sorted_wrt_map intro: sorted_wrt_filter)

lemma closeEvent_of_another:
  assumes "numbered evs" "p \<in> set evs" "ev_ONTID p \<noteq> ont"
  shows "closeEvent p now (history ont evs) = history ont evs"
proof (rule closeEvent_other)
  have "distinct (map ev_ID evs)" using assms(1) by (auto simp: numbered_def strict_sorted_iff)
  then show "ev_ID p \<notin> ev_ID ` set (history ont evs)"
    using assms distinct_key_unique [of ev_ID evs p] by auto
qed


definition opened_for :: "(uuid \<Rightarrow> ONTEvent option) \<Rightarrow> time \<Rightarrow> StatusChange \<Rightarrow> ONTEvent list" where
  "opened_for latest now c =
     (if map_option ev_EventType (latest (sc_ONTID c)) = Some (sc_EventType c) then []
      else [\<lparr>ev_ID = 0, ev_ONTID = sc_ONTID c, ev_EventType = sc_EventType c, ev_EventTime = now,
             ev_Reason = sc_Reason c, ev_DurationSeconds = None\<rparr>])"

definition closed_for :: "(uuid \<Rightarrow> ONTEvent option) \<Rightarrow> time \<Rightarrow> StatusChange \<Rightarrow> ONTEvent list \<Rightarrow> ONTEvent list" where
  "closed_for latest now c evs =
     (case latest (sc_ONTID c) of
        None \<Rightarrow> evs
      | Some p \<Rightarrow> if ev_EventType p = sc_EventType c then evs else closeEvent p now evs)"

lemma log_changes_eq:
  "log_changes latest now cs (evs, opened) =
     (fold (closed_for latest now) cs evs, opened @ concat (map (opened_for latest now) cs))"
  by (induction cs arbitrary: evs opened) (auto simp: opened_for_def closed_for_def Let_def split: option.splits)

lemma history_opened:
  assumes "distinct (map sc_ONTID cs)"
  shows "history ont (concat (map (opened_for latest now) cs)) =
         (case find (\<lambda>c. sc_ONTID c = ont) cs of None \<Rightarrow> [] | Some c \<Rightarrow> opened_for latest now c)"
  using assms
proof (induction cs)
  case (Cons c cs)
  have "find (\<lambda>d. sc_ONTID d = ont) cs = None" if "sc_ONTID c = ont"
    using Cons.prems that by (auto simp: find_None_iff image_iff)
  then show ?case using Cons by (auto simp: opened_for_def)
qed simp

lemma closed_for_numbered [simp]:
  "map ev_ID (closed_for latest now c evs) = map ev_ID evs"
  "map ev_ONTID (closed_for latest now c evs) = map ev_ONTID evs"
  "map ev_EventTime (closed_for latest now c evs) = map ev_EventTime evs"
  by (simp_all add: closed_for_def split: option.splits)

lemma fold_closed_for [simp]:
  "map ev_ID (fold (closed_for latest now) cs evs) = map ev_ID evs"
  "map ev_EventTime (fold (closed_for latest now) cs evs) = map ev_EventTime evs"
  by (induction cs arbitrary: evs) simp_all

lemma history_of_closed_for: "history ont (closed_for latest now c evs) = closed_for latest now c (history ont evs)"
  by (simp add: closed_for_def history_closeEvent split: option.splits)

text \<open>Closing the last event of one ONT leaves the history of every other as it was.\<close>

lemma history_closed_for:
  assumes "numbered evs" "\<And>p. latest (sc_ONTID c) = Some p \<Longrightarrow> (ev_ID p, sc_ONTID c) \<in> (\<lambda>e. (ev_ID e, ev_ONTID e)) ` set evs"
    and "sc_ONTID c \<noteq> ont"
  shows "history ont (closed_for latest now c evs) = history ont evs"
proof -
  have dist: "distinct (map ev_ID evs)" using assms(1) by (auto simp: numbered_def strict_sorted_iff)
  have "ev_ID p \<notin> ev_ID ` set (history ont evs)" if p: "latest (sc_ONTID c) = Some p" for p
  proof -
    from assms(2) [OF p] obtain e where e: "e \<in> set evs" "ev_ID e = ev_ID p" "ev_ONTID e = sc_ONTID c" by auto
    have False if "f \<in> set evs" "ev_ONTID f = ont" "ev_ID f = ev_ID p" for f
      using distinct_key_unique [OF dist e(1) that(1)] e that assms(3) by simp
    then show ?thesis by (simp add: image_iff) metis
  qed
  then show ?thesis
    by (auto simp: closed_for_def history_closeEvent closeEvent_other split: option.splits)
qed

lemma keys_closed_for [simp]:
  "(\<lambda>e. (ev_ID e, ev_ONTID e)) ` set (closed_for latest now c evs) = (\<lambda>e. (ev_ID e, ev_ONTID e)) ` set evs"
proof -
  have "map (\<lambda>e. (ev_ID e, ev_ONTID e)) (closed_for latest now c evs) = map (\<lambda>e. (ev_ID e, ev_ONTID e)) evs"
    by (auto simp: closed_for_def closeEvent_def map_update_where split: option.splits)
  from arg_cong [OF this, of set] show ?thesis by simp
qed

lemma history_fold_closed:
  assumes "distinct (map sc_ONTID cs)" "numbered evs"
    and "\<And>c p. c \<in> set cs \<Longrightarrow> latest (sc_ONTID c) = Some p \<Longrightarrow>
           (ev_ID p, sc_ONTID c) \<in> (\<lambda>e. (ev_ID e, ev_ONTID e)) ` set evs"
  shows "history ont (fold (closed_for latest now) cs evs) =
         (case find (\<lambda>c. sc_ONTID c = ont) cs of
            None \<Rightarrow> history ont evs | Some c \<Rightarrow> closed_for latest now c (history ont evs))"
  using assms
proof (induction cs arbitrary: evs)
  case (Cons c cs)
  let ?evs = "closed_for latest now c evs"
  have IH: "history ont (fold (closed_for latest now) cs ?evs) =
      (case find (\<lambda>c. sc_ONTID c = ont) cs of None \<Rightarrow> history ont ?evs | Some c \<Rightarrow> closed_for latest now c (history ont ?evs))"
    using Cons.prems by (intro Cons.IH) (auto simp: numbered_def simp del: sorted_wrt.simps)
  show ?case
  proof (cases "sc_ONTID c = ont")
    case True
    then have "find (\<lambda>d. sc_ONTID d = ont) cs = None" using Cons.prems(1) by (auto simp: find_None_iff image_iff)
    then show ?thesis using True IH by (simp add: history_of_closed_for)
  next
    case False
    then have "history ont ?evs = history ont evs" using Cons.prems by (intro history_closed_for) auto
    from IH [unfolded this] show ?thesis using False by simp
  qed
qed simp


section \<open>What recording a page does\<close>

definition recorded :: "time \<Rightarrow> StatusChange \<Rightarrow> ONTEvent list \<Rightarrow> ONTEvent list" where
  "recorded now c h =
     (let e = \<lparr>ev_ID = 0, ev_ONTID = sc_ONTID c, ev_EventType = sc_EventType c, ev_EventTime = now,
               ev_Reason = sc_Reason c, ev_DurationSeconds = None\<rparr>
      in if h = [] then [e]
         else if ev_EventType (last h) = sc_EventType c then h
         else butlast h @ [(last h)\<lparr>ev_DurationSeconds := Some (seconds (now - ev_EventTime (last h)))\<rparr>, e])"

lemma latest_key:
  assumes "well_recorded evs" "latestEventPerONT ids evs ont = Some p"
  shows "p \<in> set evs \<and> ev_ONTID p = ont"
  using assms latest_event_last [OF assms(1), of ont] last_in_set [of "history ont evs"]
  by (auto simp: latestEventPerONT_def split: if_splits simp del: last_in_set)

lemma log_status_history:
  assumes wf: "well_recorded evs" and dist: "distinct (map sc_ONTID cs)" and res: "LogStatusChanges now cs evs = Some evs'"
  shows "map unnumbered (history ont evs') =
         map unnumbered (case find (\<lambda>c. sc_ONTID c = ont) cs of None \<Rightarrow> history ont evs | Some c \<Rightarrow> recorded now c (history ont evs))"
proof (cases "cs = []")
  case True
  then show ?thesis using res by (simp add: LogStatusChanges_def)
next
  case False
  let ?L = "latestEventPerONT (map sc_ONTID cs) evs" and ?h = "history ont evs"
  have evs': "evs' = insert_events (concat (map (opened_for ?L now) cs)) (fold (closed_for ?L now) cs evs)"
    using res False by (auto simp: LogStatusChanges_def log_changes_eq split: if_splits)
  have closed: "history ont (fold (closed_for ?L now) cs evs) =
      (case find (\<lambda>c. sc_ONTID c = ont) cs of None \<Rightarrow> ?h | Some c \<Rightarrow> closed_for ?L now c ?h)"
    using wf by (intro history_fold_closed dist) (auto simp: well_recorded_def dest!: latest_key [OF wf] intro!: image_eqI)
  show ?thesis
  proof (cases "find (\<lambda>c. sc_ONTID c = ont) cs")
    case None
    then show ?thesis using closed by (simp add: evs' history_insert history_opened [OF dist])
  next
    case (Some c)
    then have c: "c \<in> set cs" "sc_ONTID c = ont" by (auto dest: find_SomeD)
    then have L: "?L (sc_ONTID c) = (if ?h = [] then None else Some (last ?h))"
      using latest_event_last [OF wf, of ont] by (auto simp: latestEventPerONT_def)
    have "numbered ?h" using wf by (simp add: well_recorded_def numbered_history)
    then have "closed_for ?L now c ?h @ opened_for ?L now c = recorded now c ?h"
      using L closeEvent_last [of ?h] by (auto simp: closed_for_def opened_for_def recorded_def Let_def)
    then show ?thesis
      using closed Some by (simp add: evs' history_insert history_opened [OF dist] flip: map_append)
  qed
qed

lemma alternates_recorded:
  assumes "alternates h" "\<forall>e \<in> set h. ev_EventTime e \<le> now" "valid_event_type (sc_EventType c)"
  shows "alternates (recorded now c h) \<and> recorded now c h \<noteq> [] \<and> ev_EventType (last (recorded now c h)) = sc_EventType c
         \<and> (\<forall>e \<in> set (recorded now c h). ev_EventTime e \<le> now)"
proof -
  let ?e = "\<lparr>ev_ID = 0, ev_ONTID = sc_ONTID c, ev_EventType = sc_EventType c, ev_EventTime = now,
             ev_Reason = sc_Reason c, ev_DurationSeconds = None\<rparr>"
  have "alternates (butlast h @ [(last h)\<lparr>ev_DurationSeconds := Some (seconds (now - ev_EventTime (last h)))\<rparr>, ?e])"
    if "h \<noteq> []" "ev_EventType (last h) \<noteq> sc_EventType c"
    using alternates_append_last [of h ?e] that assms by simp
  then show ?thesis using assms by (auto simp: recorded_def Let_def dest: in_set_butlastD)
qed

lemma well_recorded_step:
  assumes wf: "well_recorded evs" and dist: "distinct (map sc_ONTID cs)" and now: "\<forall>e \<in> set evs. ev_EventTime e \<le> now"
    and res: "LogStatusChanges now cs evs = Some evs'"
  shows "well_recorded evs'" "\<forall>e \<in> set evs'. ev_EventTime e \<le> now"
    and "\<forall>c \<in> set cs. history (sc_ONTID c) evs' \<noteq> [] \<and> ev_EventType (last (history (sc_ONTID c) evs')) = sc_EventType c"
proof -
  let ?new = "\<lambda>ont. case find (\<lambda>c. sc_ONTID c = ont) cs of None \<Rightarrow> history ont evs | Some c \<Rightarrow> recorded now c (history ont evs)"
  have valid: "valid_event_type (sc_EventType c)" if "c \<in> set cs" for c
    using that res by (auto simp: LogStatusChanges_def validateStatusChanges_def list_all_iff split: if_splits)
  have alt: "alternates (history ont evs)" for ont using wf by (simp add: well_recorded_def)
  have h: "map unnumbered (history ont evs') = map unnumbered (?new ont)" for ont
    by (rule log_status_history [OF wf dist res])
  have new: "alternates (?new ont) \<and> (\<forall>e \<in> set (?new ont). ev_EventTime e \<le> now)" for ont
    using alternates_recorded [OF alt, of ont now] now alt valid by (auto dest!: find_SomeD split: option.splits)
  have "numbered evs'"
    using res wf by (auto simp: LogStatusChanges_def log_changes_eq well_recorded_def numbered_def
        simp del: sorted_wrt.simps split: if_splits intro!: numbered_insert [unfolded numbered_def])
  moreover have "alternates (history ont evs')" for ont
    using h [of ont] new [of ont] by (metis alternates_unnumbered)
  ultimately show "well_recorded evs'" by (simp add: well_recorded_def)
  show "\<forall>e \<in> set evs'. ev_EventTime e \<le> now"
  proof
    fix e assume "e \<in> set evs'"
    then have "unnumbered e \<in> set (map unnumbered (?new (ev_ONTID e)))" by (simp flip: h)
    then show "ev_EventTime e \<le> now" using new [of "ev_ONTID e"] by (auto dest!: arg_cong [where f = ev_EventTime])
  qed
  show "\<forall>c \<in> set cs. history (sc_ONTID c) evs' \<noteq> [] \<and> ev_EventType (last (history (sc_ONTID c) evs')) = sc_EventType c"
  proof
    fix c assume c: "c \<in> set cs"
    then have "find (\<lambda>d. sc_ONTID d = sc_ONTID c) cs = Some c"
      using dist by (induction cs) (auto simp: image_iff)
    then have "map unnumbered (history (sc_ONTID c) evs') = map unnumbered (recorded now c (history (sc_ONTID c) evs))"
      using h [of "sc_ONTID c"] by simp
    moreover have "recorded now c (history (sc_ONTID c) evs) \<noteq> []"
      "ev_EventType (last (recorded now c (history (sc_ONTID c) evs))) = sc_EventType c"
      using alternates_recorded [OF alt _ valid [OF c]] now by auto
    ultimately show "history (sc_ONTID c) evs' \<noteq> [] \<and> ev_EventType (last (history (sc_ONTID c) evs')) = sc_EventType c"
      by (metis (no_types, lifting) last_map list.map_disc_iff ONTEvent.select_convs(3) ONTEvent.surjective ONTEvent.update_convs(1))
  qed
qed

lemma well_recorded_delete: "well_recorded evs \<Longrightarrow> well_recorded (DeleteOldEvents now olderThan evs)"
proof -
  assume wf: "well_recorded evs"
  have "history ont (DeleteOldEvents now olderThan evs) = filter (\<lambda>e. \<not> ev_EventTime e < now - olderThan) (history ont evs)" for ont
    by (auto simp: history_def DeleteOldEvents_def conj_commute)
  then show ?thesis
    using wf alternates_drop_old by (auto simp: well_recorded_def numbered_def DeleteOldEvents_def sorted_wrt_map sorted_wrt_filter)
qed


text \<open>C31. The status record of every ONT stays coherent. Recording a page of statuses, with each ONT at
  most once and the clock not behind the table, keeps event types alternating, times
  ordered, and every event but an ONT's last one closed with the whole seconds until the next; the last event
  of each ONT on the page then carries the status reported, and dropping old events keeps all this.\<close>

theorem status_record_coherent:
  assumes "well_recorded evs" "distinct (map sc_ONTID changes)" "\<forall>e \<in> set evs. ev_EventTime e \<le> now"
    and "LogStatusChanges now changes evs = Some evs'"
  shows "well_recorded evs' \<and> (\<forall>e \<in> set evs'. ev_EventTime e \<le> now) \<and>
         (\<forall>c \<in> set changes. history (sc_ONTID c) evs' \<noteq> [] \<and>
            ev_EventType (last (history (sc_ONTID c) evs')) = sc_EventType c) \<and>
         well_recorded (DeleteOldEvents later olderThan evs')"
  using well_recorded_step [OF assms] well_recorded_delete by blast

lemma log_status_total: "validateStatusChanges cs \<Longrightarrow> \<exists>evs'. LogStatusChanges now cs evs = Some evs'"
  by (simp add: LogStatusChanges_def log_changes_eq)

lemma well_recorded_Nil: "well_recorded []"
  by (simp add: well_recorded_def numbered_def)

theorem status_record_coherent_witness:
  "well_recorded (the (LogStatusChanges 9 [\<lparr>sc_ONTID = 1, sc_EventType = ''offline'', sc_Reason = ''LOS''\<rparr>]
     (the (LogStatusChanges 5 [\<lparr>sc_ONTID = 1, sc_EventType = ''online'', sc_Reason = ''''\<rparr>] []))))"
proof -
  let ?up = "[\<lparr>sc_ONTID = 1, sc_EventType = ''online'', sc_Reason = ''''\<rparr>]"
    and ?down = "[\<lparr>sc_ONTID = 1, sc_EventType = ''offline'', sc_Reason = ''LOS''\<rparr>]"
  have v: "validateStatusChanges ?up" "validateStatusChanges ?down"
    by (simp_all add: validateStatusChanges_def valid_event_type_def event_type_defs)
  from log_status_total [OF v(1)] obtain a where a: "LogStatusChanges 5 ?up [] = Some a" by blast
  have wf: "well_recorded a" by (rule well_recorded_step(1) [OF well_recorded_Nil _ _ a]) simp_all
  have t5: "\<forall>e \<in> set a. ev_EventTime e \<le> 5"
    by (rule well_recorded_step(2) [OF well_recorded_Nil _ _ a]) simp_all
  from log_status_total [OF v(2)] obtain b where b: "LogStatusChanges 9 ?down a = Some b" by blast
  from t5 have t: "\<forall>e \<in> set a. ev_EventTime e \<le> 9" by (auto dest!: bspec)
  have "well_recorded b" by (rule status_record_coherent [OF wf _ t b, THEN conjunct1]) simp
  then show ?thesis by (simp only: a b option.sel)
qed

section \<open>Availability of an ONT over a window\<close>

lemma accumulate_nonneg:
  "newest_first until evs \<Longrightarrow> 0 \<le> av_OnlineSeconds st \<Longrightarrow> 0 \<le> av_OfflineSeconds st \<Longrightarrow>
   0 \<le> av_OnlineSeconds (accumulateEventDurations until evs st) \<and>
   0 \<le> av_OfflineSeconds (accumulateEventDurations until evs st)"
proof (induction evs arbitrary: until st)
  case (Cons e es)
  have "0 \<le> seconds (until - ev_EventTime e)" using Cons.prems(1) seconds_bounds [of "until - ev_EventTime e"] by simp
  then show ?case using Cons by (auto simp: Let_def)
qed simp

lemma accumulate_total [simp]:
  "av_TotalSeconds (accumulateEventDurations until evs st) = av_TotalSeconds st"
  by (induction evs arbitrary: until st) (simp_all add: Let_def)

lemma GetEventsInTimeRange_newest_first: "newest_first e (GetEventsInTimeRange ont s e evs)"
  by (rule sorted_newest_first) (auto simp: GetEventsInTimeRange_def sorted_sort_key)

text \<open>Availability accounts for the whole window. Online and offline seconds are
  never negative, together never exceed the window, and fall short of it by at most one second of rounding for
  each event in the window; with no event in the window they fill it exactly.\<close>

theorem availability_accounts:
  assumes "startTime \<le> endTime" "CalculateAvailability status ont startTime endTime evs = Some st"
  shows "0 \<le> av_OnlineSeconds st \<and> 0 \<le> av_OfflineSeconds st \<and>
         av_TotalSeconds st = seconds (endTime - startTime) \<and>
         av_OnlineSeconds st + av_OfflineSeconds st \<le> av_TotalSeconds st \<and>
         av_TotalSeconds st \<le> av_OnlineSeconds st + av_OfflineSeconds st +
           int (length (GetEventsInTimeRange ont startTime endTime evs))"
proof -
  let ?events = "GetEventsInTimeRange ont startTime endTime evs"
  let ?st0 = "\<lparr>av_TotalSeconds = seconds (endTime - startTime), av_OnlineSeconds = 0, av_OfflineSeconds = 0,
                av_OnlineEvents = 0, av_OfflineEvents = 0, av_online = [], av_offline = []\<rparr>"
  let ?acc = "accumulateEventDurations endTime ?events ?st0"
  have total: "0 \<le> seconds (endTime - startTime)" "seconds (endTime - startTime) * second \<le> endTime - startTime"
    "endTime - startTime < seconds (endTime - startTime) * second + second"
    using assms(1) seconds_bounds [of "endTime - startTime"] by simp_all
  show ?thesis
  proof (cases "?events = []")
    case True
    then show ?thesis
      using assms(2) total by (auto simp: CalculateAvailability_def availabilityFromCurrentStatus_def Let_def split: if_splits)
  next
    case False
    let ?f = "last ?events"
    let ?before = "seconds (ev_EventTime ?f - startTime)"
    have "?f \<in> set ?events" using False by (rule last_in_set)
    then have f: "startTime \<le> ev_EventTime ?f" by (auto simp: GetEventsInTimeRange_def)
    have before: "0 \<le> ?before" "?before * second \<le> ev_EventTime ?f - startTime"
      "ev_EventTime ?f - startTime < ?before * second + second"
      using f seconds_bounds [of "ev_EventTime ?f - startTime"] by simp_all
    have nf: "newest_first endTime ?events" by (rule GetEventsInTimeRange_newest_first)
    note acc = accumulate_accounts [OF nf False, of ?st0, unfolded Let_def]
    have nonneg: "0 \<le> av_OnlineSeconds ?acc \<and> 0 \<le> av_OfflineSeconds ?acc"
      using accumulate_nonneg [OF nf, of ?st0] by simp
    have "?before = 0" if "\<not> startTime < ev_EventTime ?f" using that f by (simp add: seconds_def go_div_def)
    then have "av_OnlineSeconds st + av_OfflineSeconds st = av_OnlineSeconds ?acc + av_OfflineSeconds ?acc + ?before
        \<and> av_TotalSeconds st = seconds (endTime - startTime) \<and> 0 \<le> av_OnlineSeconds st \<and> 0 \<le> av_OfflineSeconds st"
      using assms(2) False nonneg before(1) by (auto simp: CalculateAvailability_def Let_def split: if_splits)
    then show ?thesis using acc total before by auto
  qed
qed


theorem availability_accounts_witness:
  "let evs = [\<lparr>ev_ID = 1, ev_ONTID = 1, ev_EventType = ''offline'', ev_EventTime = 3 * second, ev_Reason = '''', ev_DurationSeconds = None\<rparr>];
       st = the (CalculateAvailability (Some ''offline'') 1 0 (10 * second) evs)
   in av_OnlineSeconds st + av_OfflineSeconds st \<le> 10"
proof -
  let ?evs = "[\<lparr>ev_ID = 1, ev_ONTID = 1, ev_EventType = ''offline'', ev_EventTime = 3 * second, ev_Reason = '''', ev_DurationSeconds = None\<rparr>]"
  obtain st where st: "CalculateAvailability (Some ''offline'') 1 0 (10 * second) ?evs = Some st"
    by (simp add: CalculateAvailability_def GetEventsInTimeRange_def Let_def)
  have "seconds (10 * second - 0) = 10" by (simp add: seconds_def go_div_def)
  with availability_accounts [OF _ st] have "av_OnlineSeconds st + av_OfflineSeconds st \<le> 10" by simp
  then show ?thesis using st by (simp add: Let_def)
qed

text \<open>
  The stretch before the first event counts for the state that event begins: an ONT that was online
  for nine of ten seconds and then went offline is reported offline for all ten.
\<close>

lemma stretch_before_first_event_counts_for_its_new_state:
  "map_option (\<lambda>st. (av_OnlineSeconds st, av_OfflineSeconds st))
     (CalculateAvailability (Some ''offline'') 1 0 (10 * second)
       [\<lparr>ev_ID = 2, ev_ONTID = 1, ev_EventType = ''offline'', ev_EventTime = 9 * second, ev_Reason = ''LOS'', ev_DurationSeconds = None\<rparr>])
   = Some (0, 10)"
  by (simp add: CalculateAvailability_def GetEventsInTimeRange_def Let_def event_type_defs seconds_def go_div_def)

section \<open>Data used over a window\<close>

text \<open>A counter's readings, in order: each bucket's first and last. A bucket without readings adds none.\<close>

fun readings :: "(u64 option \<times> u64 option) list \<Rightarrow> u64 list" where
  "readings [] = []"
| "readings ((Some a, Some b) # rs) = a # b # readings rs"
| "readings (_ # rs) = readings rs"

definition paired :: "(u64 option \<times> u64 option) list \<Rightarrow> bool" where
  "paired rs \<longleftrightarrow> (\<forall>r \<in> set rs. fst r = None \<longleftrightarrow> snd r = None)"

definition steady :: "u64 \<Rightarrow> u64 list \<Rightarrow> bool" where
  "steady ceiling rs \<longleftrightarrow> successively (\<lambda>a b. a \<le> b \<and> (ceiling = 0 \<or> b - a \<le> ceiling)) rs"

fun advances :: "u64 \<Rightarrow> u64 option \<Rightarrow> (u64 option \<times> u64 option) list \<Rightarrow> u64" where
  "advances ceiling p [] = 0"
| "advances ceiling p (r # rs) =
     counterAdvance p (fst r) (snd r) ceiling + advances ceiling (if snd r = None then p else snd r) rs"

abbreviation rx :: "counter_row \<Rightarrow> u64 option \<times> u64 option" where
  "rx r \<equiv> (cr_FirstRxBytes r, cr_LastRxBytes r)"

abbreviation tx :: "counter_row \<Rightarrow> u64 option \<times> u64 option" where
  "tx r \<equiv> (cr_FirstTxBytes r, cr_LastTxBytes r)"

lemma usage_loop_advances:
  "usage_loop ceiling p q rows u =
     u\<lparr>tu_UploadBytes := tu_UploadBytes u + advances ceiling p (map rx rows),
       tu_DownloadBytes := tu_DownloadBytes u + advances ceiling q (map tx rows)\<rparr>"
  by (induction rows arbitrary: p q u) (simp_all add: algebra_simps)

lemma steady_step:
  "steady ceiling (p # a # b # rs) \<Longrightarrow> counterAdvance (Some p) (Some a) (Some b) ceiling = b - p"
  "steady ceiling (a # b # rs) \<Longrightarrow> counterAdvance None (Some a) (Some b) ceiling = b - a"
  by (auto simp: steady_def counterAdvance_def not_less [symmetric])

lemma advances_telescope_from:
  "paired rs \<Longrightarrow> steady ceiling (p # readings rs) \<Longrightarrow> advances ceiling (Some p) rs = last (p # readings rs) - p"
proof (induction rs arbitrary: p)
  case (Cons r rs)
  consider (none) "r = (None, None)" | (some) a b where "r = (Some a, Some b)"
    using Cons.prems(1) by (cases r; cases "fst r"; cases "snd r") (auto simp: paired_def)
  then show ?case
  proof cases
    case none
    then show ?thesis using Cons by (simp add: paired_def counterAdvance_def)
  next
    case some
    then have step: "counterAdvance (Some p) (Some a) (Some b) ceiling = b - p"
      using Cons.prems(2) steady_step(1) by simp
    have "advances ceiling (Some b) rs = last (b # readings rs) - b"
      using Cons.prems some by (intro Cons.IH) (auto simp: paired_def steady_def)
    then show ?thesis using some step by simp
  qed
qed simp

lemma advances_telescope:
  "paired rs \<Longrightarrow> steady ceiling (readings rs) \<Longrightarrow>
   advances ceiling None rs = (if readings rs = [] then 0 else last (readings rs) - hd (readings rs))"
proof (induction rs)
  case (Cons r rs)
  consider (none) "r = (None, None)" | (some) a b where "r = (Some a, Some b)"
    using Cons.prems(1) by (cases r; cases "fst r"; cases "snd r") (auto simp: paired_def)
  then show ?case
  proof cases
    case none
    then show ?thesis using Cons by (simp add: paired_def counterAdvance_def)
  next
    case some
    then have step: "counterAdvance None (Some a) (Some b) ceiling = b - a"
      using Cons.prems(2) steady_step(2) by simp
    have "advances ceiling (Some b) rs = last (b # readings rs) - b"
      using Cons.prems some by (intro advances_telescope_from) (auto simp: paired_def steady_def)
    then show ?thesis using some step by simp
  qed
qed simp

text \<open>Data used is what the counter moved. Over a window in which a counter never runs back and
  never moves by more than the line could carry between two readings, the usage reported is the last reading
  less the first, whatever the buckets and however many of them are empty.\<close>

theorem usage_is_counter_movement:
  assumes "paired (map rx rows)" "steady (plausibleBytes step) (readings (map rx rows))"
    and "paired (map tx rows)" "steady (plausibleBytes step) (readings (map tx rows))"
    and "readings (map rx rows) \<noteq> []" "readings (map tx rows) \<noteq> []"
  shows "trafficUsageOver rows step =
           \<lparr>tu_DownloadBytes = last (readings (map tx rows)) - hd (readings (map tx rows)),
            tu_UploadBytes = last (readings (map rx rows)) - hd (readings (map rx rows))\<rparr>"
  using assms by (simp add: trafficUsageOver_def usage_loop_advances advances_telescope)

theorem usage_is_counter_movement_witness:
  "trafficUsageOver [\<lparr>cr_FirstRxBytes = Some 5, cr_LastRxBytes = Some 7, cr_FirstTxBytes = Some 1, cr_LastTxBytes = Some 4\<rparr>,
     \<lparr>cr_FirstRxBytes = Some 9, cr_LastRxBytes = Some 9, cr_FirstTxBytes = Some 4, cr_LastTxBytes = Some 11\<rparr>] second =
   \<lparr>tu_DownloadBytes = 10, tu_UploadBytes = 4\<rparr>"
proof -
  have p: "plausibleBytes second = 311040000" by (simp add: plausibleBytes_def gponLineRateBps_def)
  show ?thesis by (subst usage_is_counter_movement) (simp_all add: p paired_def steady_def)
qed

end
