(* ===== verification/PollQueue.thy ===== *)
theory PollQueue
  imports Prelude
begin

text \<open>
  The poll queues of \<open>services/poll_job_service.go\<close> (one row per OLT and tier) and
  \<open>services/router_poll_jobs.go\<close> (one row per router and tier): schedules, leases,
  claim, completion, failure with backoff, deferral and run-now. A table is the list
  of its rows, keyed by device and tier. Each service method is one transaction, so
  interleavings of workers are sequences of these operations; \<open>time.Now()\<close> is an
  argument, and so is the set of rows another transaction holds locked while a claim
  runs (\<open>FOR UPDATE SKIP LOCKED\<close>).

  The locale \<open>lease_queue\<close> is the contract both queues give the worker loop:
  a grant needs a free or expired lease and takes it, and only a release gives it back.
\<close>

section \<open>Rows\<close>

record 'k poll_job =
  pj_device :: uuid
  pj_kind :: 'k
  pj_due_at :: time
  pj_locked_by :: "string option"
  pj_locked_at :: "time option"
  pj_last_run_at :: "time option"
  pj_last_duration_ms :: "int option"
  pj_last_error :: "string option"
  pj_failures :: int

definition job_key :: "'k poll_job \<Rightarrow> uuid \<times> 'k" where
  "job_key r = (pj_device r, pj_kind r)"

abbreviation lock_row :: "string \<Rightarrow> time \<Rightarrow> 'k poll_job \<Rightarrow> 'k poll_job" where
  "lock_row w now r \<equiv> r\<lparr>pj_locked_by := Some w, pj_locked_at := Some now\<rparr>"

definition unlock_row :: "'k poll_job \<Rightarrow> 'k poll_job" where
  "unlock_row r = r\<lparr>pj_locked_by := None, pj_locked_at := None\<rparr>"

definition wf_jobs :: "'k poll_job list \<Rightarrow> bool" where
  "wf_jobs tbl \<longleftrightarrow> distinct (map job_key tbl)"

text \<open>No lease holds the row at \<open>now\<close>, for a lease duration per tier.\<close>

definition lock_free :: "('k \<Rightarrow> duration) \<Rightarrow> time \<Rightarrow> 'k poll_job \<Rightarrow> bool" where
  "lock_free lease now r \<longleftrightarrow>
     (case pj_locked_at r of None \<Rightarrow> True | Some t \<Rightarrow> t < now - lease (pj_kind r))"

lemma job_key_simps [simp]:
  "job_key (r\<lparr>pj_due_at := d\<rparr>) = job_key r"
  "job_key (r\<lparr>pj_locked_by := b\<rparr>) = job_key r"
  "job_key (r\<lparr>pj_locked_at := l\<rparr>) = job_key r"
  "job_key (r\<lparr>pj_last_run_at := l\<rparr>) = job_key r"
  "job_key (r\<lparr>pj_last_duration_ms := m\<rparr>) = job_key r"
  "job_key (r\<lparr>pj_last_error := e\<rparr>) = job_key r"
  "job_key (r\<lparr>pj_failures := n\<rparr>) = job_key r"
  "job_key (unlock_row r) = job_key r"
  by (simp_all add: job_key_def unlock_row_def)

lemma keys_update_where [table_simps]:
  assumes "\<And>r. job_key (f r) = job_key r"
  shows "job_key ` set (update_where P f tbl) = job_key ` set tbl"
  using map_update_where [of P job_key f tbl] assms by (metis set_map)

lemma wf_jobs_update [table_simps]:
  "(\<And>r. job_key (f r) = job_key r) \<Longrightarrow> wf_jobs (update_where P f tbl) = wf_jobs tbl"
  by (simp add: wf_jobs_def map_update_where)

section \<open>The OLT queue\<close>

datatype poll_kind = PollKindStatus | PollKindMetrics | PollKindDiscovery

definition StatusInterval :: duration where "StatusInterval = minute"
definition MetricsInterval :: duration where "MetricsInterval = 10 * minute"
definition DiscoveryInterval :: duration where "DiscoveryInterval = 6 * hour"

definition statusLease :: duration where "statusLease = 2 * minute"
definition metricsLease :: duration where "metricsLease = 5 * minute"
definition discoveryLease :: duration where "discoveryLease = 15 * minute"

definition agentShare :: int where "agentShare = 2"
definition maxBackoffShift :: int where "maxBackoffShift = 5"

fun IntervalFor :: "poll_kind \<Rightarrow> duration" where
  "IntervalFor PollKindStatus = StatusInterval"
| "IntervalFor PollKindMetrics = MetricsInterval"
| "IntervalFor _ = DiscoveryInterval"

fun LeaseFor :: "poll_kind \<Rightarrow> duration" where
  "LeaseFor PollKindStatus = statusLease"
| "LeaseFor PollKindMetrics = metricsLease"
| "LeaseFor _ = discoveryLease"

definition SpacingFor :: "poll_kind \<Rightarrow> duration \<Rightarrow> duration" where
  "SpacingFor kind took =
     (let tier = IntervalFor kind; stretched = took * agentShare
      in if stretched > tier then stretched else tier)"

definition AllPollKinds :: "poll_kind list" where
  "AllPollKinds = [PollKindDiscovery, PollKindStatus, PollKindMetrics]"

definition new_job :: "uuid \<Rightarrow> 'k \<Rightarrow> time \<Rightarrow> 'k poll_job" where
  "new_job dev kind due = \<lparr>pj_device = dev, pj_kind = kind, pj_due_at = due, pj_locked_by = None,
     pj_locked_at = None, pj_last_run_at = None, pj_last_duration_ms = None,
     pj_last_error = None, pj_failures = 0\<rparr>"

text \<open>\<open>clk\<close> is what \<open>time.Now()\<close> answers for each row visited.\<close>

definition EnsureJobs ::
  "(uuid \<Rightarrow> poll_kind \<Rightarrow> time) \<Rightarrow> uuid list \<Rightarrow> poll_kind poll_job list \<Rightarrow> poll_kind poll_job list" where
  "EnsureJobs clk olts tbl =
     fold (\<lambda>olt tbl. fold (\<lambda>kind tbl. first_or_create job_key (new_job olt kind (clk olt kind)) tbl)
             AllPollKinds tbl) olts tbl"

definition claimable :: "time \<Rightarrow> poll_kind poll_job \<Rightarrow> bool" where
  "claimable now r \<longleftrightarrow>
     (case pj_locked_at r of
        None \<Rightarrow> True
      | Some t \<Rightarrow> list_ex (\<lambda>kind. pj_kind r = kind \<and> t < now - LeaseFor kind) AllPollKinds)"

definition Claim ::
  "string \<Rightarrow> (uuid \<times> poll_kind \<Rightarrow> bool) \<Rightarrow> time \<Rightarrow> poll_kind poll_job list
    \<Rightarrow> poll_kind poll_job list \<times> poll_kind poll_job option" where
  "Claim worker skipped now tbl =
     (case min_row pj_due_at
             (filter (\<lambda>r. pj_due_at r \<le> now \<and> claimable now r \<and> \<not> skipped (job_key r)) tbl) of
        None \<Rightarrow> (tbl, None)
      | Some candidate \<Rightarrow>
          (update_where (\<lambda>r. job_key r = job_key candidate) (lock_row worker now) tbl,
           Some (lock_row worker now candidate)))"

datatype run_now_error = RecordNotFound | ErrJobRunning

text \<open>\<open>RunNow\<close> reads the clock for its lease check and again for the new due time.\<close>

definition RunNow ::
  "uuid \<Rightarrow> poll_kind \<Rightarrow> time \<Rightarrow> time \<Rightarrow> poll_kind poll_job list
    \<Rightarrow> run_now_error + poll_kind poll_job list" where
  "RunNow olt kind now due tbl =
     (case List.find (\<lambda>r. job_key r = (olt, kind)) tbl of
        None \<Rightarrow> Inl RecordNotFound
      | Some job \<Rightarrow>
          (case pj_locked_at job of
             Some t \<Rightarrow>
               if now - t < LeaseFor kind then Inl ErrJobRunning
               else Inr (update_where (\<lambda>r. job_key r = (olt, kind)) (\<lambda>r. r\<lparr>pj_due_at := due\<rparr>) tbl)
           | None \<Rightarrow> Inr (update_where (\<lambda>r. job_key r = (olt, kind)) (\<lambda>r. r\<lparr>pj_due_at := due\<rparr>) tbl)))"

definition Complete ::
  "poll_kind poll_job \<Rightarrow> duration \<Rightarrow> time \<Rightarrow> poll_kind poll_job list \<Rightarrow> poll_kind poll_job list" where
  "Complete job took now tbl =
     update_where (\<lambda>r. job_key r = job_key job)
       (\<lambda>r. (unlock_row r)\<lparr>pj_due_at := now + SpacingFor (pj_kind job) took,
              pj_last_run_at := Some now, pj_last_duration_ms := Some (go_div took millisecond),
              pj_last_error := None, pj_failures := 0\<rparr>) tbl"

definition backoff :: "poll_kind \<Rightarrow> int \<Rightarrow> duration option" where
  "backoff kind failures =
     (let shift = failures - 1;
          shift = (if shift > maxBackoffShift then maxBackoffShift else shift)
      in map_option (\<lambda>p. IntervalFor kind * p) (go_shl1 shift))"

text \<open>\<open>None\<close> is the run-time panic of a negative shift count.\<close>

definition Fail ::
  "poll_kind poll_job \<Rightarrow> string \<Rightarrow> time \<Rightarrow> poll_kind poll_job list \<Rightarrow> poll_kind poll_job list option" where
  "Fail job cause now tbl =
     (let failures = pj_failures job + 1
      in case backoff (pj_kind job) failures of
           None \<Rightarrow> None
         | Some wait \<Rightarrow> Some (update_where (\<lambda>r. job_key r = job_key job)
             (\<lambda>r. (unlock_row r)\<lparr>pj_due_at := now + wait, pj_last_run_at := Some now,
                    pj_last_error := Some cause, pj_failures := failures\<rparr>) tbl))"

definition Defer ::
  "poll_kind poll_job \<Rightarrow> time \<Rightarrow> poll_kind poll_job list \<Rightarrow> poll_kind poll_job list" where
  "Defer job now tbl =
     update_where (\<lambda>r. job_key r = job_key job)
       (\<lambda>r. (unlock_row r)\<lparr>pj_due_at := now + IntervalFor (pj_kind job)\<rparr>) tbl"

section \<open>The router queue\<close>

datatype router_poll_kind =
  RouterPollKindInterfaces | RouterPollKindBGP | RouterPollKindDiscovery | RouterPollKindRoutes

definition RouterInterfacesInterval :: duration where "RouterInterfacesInterval = minute"
definition RouterBGPInterval :: duration where "RouterBGPInterval = minute"
definition RouterDiscoveryInterval :: duration where "RouterDiscoveryInterval = 6 * hour"
definition RouterRoutesInterval :: duration where "RouterRoutesInterval = hour"

definition routerPollLease :: duration where "routerPollLease = 2 * minute"
definition routerDiscoveryLease :: duration where "routerDiscoveryLease = 5 * minute"

definition longLeaseKinds :: "router_poll_kind list" where
  "longLeaseKinds = [RouterPollKindDiscovery, RouterPollKindRoutes]"

definition AllRouterPollKinds :: "router_poll_kind list" where
  "AllRouterPollKinds =
     [RouterPollKindDiscovery, RouterPollKindInterfaces, RouterPollKindBGP, RouterPollKindRoutes]"

fun RouterIntervalFor :: "router_poll_kind \<Rightarrow> duration" where
  "RouterIntervalFor RouterPollKindInterfaces = RouterInterfacesInterval"
| "RouterIntervalFor RouterPollKindBGP = RouterBGPInterval"
| "RouterIntervalFor RouterPollKindRoutes = RouterRoutesInterval"
| "RouterIntervalFor _ = RouterDiscoveryInterval"

definition router_claimable :: "time \<Rightarrow> router_poll_kind poll_job \<Rightarrow> bool" where
  "router_claimable now r \<longleftrightarrow>
     (case pj_locked_at r of
        None \<Rightarrow> True
      | Some t \<Rightarrow>
          (pj_kind r \<in> set longLeaseKinds \<and> t < now - routerDiscoveryLease) \<or>
          (pj_kind r \<notin> set longLeaseKinds \<and> t < now - routerPollLease))"

definition RouterClaim ::
  "string \<Rightarrow> (uuid \<times> router_poll_kind \<Rightarrow> bool) \<Rightarrow> time \<Rightarrow> router_poll_kind poll_job list
    \<Rightarrow> router_poll_kind poll_job list \<times> router_poll_kind poll_job option" where
  "RouterClaim worker skipped now tbl =
     (case min_row pj_due_at
             (filter (\<lambda>r. pj_due_at r \<le> now \<and> router_claimable now r \<and> \<not> skipped (job_key r)) tbl) of
        None \<Rightarrow> (tbl, None)
      | Some candidate \<Rightarrow>
          (update_where (\<lambda>r. job_key r = job_key candidate) (lock_row worker now) tbl,
           Some (lock_row worker now candidate)))"

text \<open>\<open>release\<close> adds the two lock columns to the caller's updates.\<close>

definition router_release ::
  "router_poll_kind poll_job \<Rightarrow> (router_poll_kind poll_job \<Rightarrow> router_poll_kind poll_job)
    \<Rightarrow> router_poll_kind poll_job list \<Rightarrow> router_poll_kind poll_job list" where
  "router_release job updates tbl =
     update_where (\<lambda>r. job_key r = job_key job) (\<lambda>r. updates (unlock_row r)) tbl"

definition RouterComplete ::
  "router_poll_kind poll_job \<Rightarrow> duration \<Rightarrow> time \<Rightarrow> router_poll_kind poll_job list
    \<Rightarrow> router_poll_kind poll_job list" where
  "RouterComplete job took now tbl =
     router_release job
       (\<lambda>r. r\<lparr>pj_due_at := now + RouterIntervalFor (pj_kind job), pj_last_run_at := Some now,
              pj_last_duration_ms := Some (go_div took millisecond),
              pj_last_error := None, pj_failures := 0\<rparr>) tbl"

definition maxRouterBackoffShift :: int where "maxRouterBackoffShift = 2"

definition routerBackoff :: "router_poll_kind \<Rightarrow> int \<Rightarrow> duration option" where
  "routerBackoff kind failures =
     (let shift = failures - 1;
          shift = (if shift > maxRouterBackoffShift then maxRouterBackoffShift else shift)
      in map_option (\<lambda>p. RouterIntervalFor kind * p) (go_shl1 shift))"

definition RouterFail ::
  "router_poll_kind poll_job \<Rightarrow> string \<Rightarrow> time \<Rightarrow> router_poll_kind poll_job list
    \<Rightarrow> router_poll_kind poll_job list option" where
  "RouterFail job cause now tbl =
     (let failures = pj_failures job + 1
      in case routerBackoff (pj_kind job) failures of
           None \<Rightarrow> None
         | Some wait \<Rightarrow> Some (router_release job
             (\<lambda>r. r\<lparr>pj_due_at := now + wait, pj_last_run_at := Some now,
                    pj_last_error := Some cause, pj_failures := failures\<rparr>) tbl))"

definition RouterRunNow ::
  "uuid \<Rightarrow> router_poll_kind list \<Rightarrow> time \<Rightarrow> router_poll_kind poll_job list
    \<Rightarrow> router_poll_kind poll_job list" where
  "RouterRunNow router kinds now tbl =
     update_where (\<lambda>r. pj_device r = router \<and> pj_kind r \<in> set kinds) (\<lambda>r. r\<lparr>pj_due_at := now\<rparr>) tbl"

lemmas interval_defs =
  StatusInterval_def MetricsInterval_def DiscoveryInterval_def statusLease_def metricsLease_def
  discoveryLease_def RouterInterfacesInterval_def RouterBGPInterval_def RouterDiscoveryInterval_def
  RouterRoutesInterval_def routerPollLease_def routerDiscoveryLease_def


section \<open>The contract of a lease queue\<close>

text \<open>
  \<open>step\<close> is one operation on the table and the job it grants, if any; \<open>at\<close> is when
  the operation reads the clock and \<open>releases\<close> says whether it gives a key's lease up.
\<close>

fun queue_run ::
  "('t \<Rightarrow> 'op \<Rightarrow> 't \<times> 'g option) \<Rightarrow> 't \<Rightarrow> 'op list \<Rightarrow> 't \<times> 'g list" where
  "queue_run step tbl [] = (tbl, [])"
| "queue_run step tbl (op # ops) =
     (case step tbl op of
        (tbl', None) \<Rightarrow> queue_run step tbl' ops
      | (tbl', Some g) \<Rightarrow> (case queue_run step tbl' ops of (tbl'', gs) \<Rightarrow> (tbl'', g # gs)))"

definition held_since :: "'k poll_job list \<Rightarrow> uuid \<times> 'k \<Rightarrow> time \<Rightarrow> bool" where
  "held_since tbl k t \<longleftrightarrow>
     k \<in> job_key ` set tbl \<and> (\<forall>r \<in> set tbl. job_key r = k \<longrightarrow> pj_locked_at r = Some t)"

locale lease_queue =
  fixes lease :: "'k \<Rightarrow> duration"
    and step :: "'k poll_job list \<Rightarrow> 'op \<Rightarrow> 'k poll_job list \<times> 'k poll_job option"
    and at :: "'op \<Rightarrow> time"
    and releases :: "'op \<Rightarrow> uuid \<times> 'k \<Rightarrow> bool"
  assumes step_wf: "wf_jobs tbl \<Longrightarrow> step tbl op = (tbl', g) \<Longrightarrow> wf_jobs tbl'"
    and grant_free: "wf_jobs tbl \<Longrightarrow> step tbl op = (tbl', Some j) \<Longrightarrow>
          \<exists>r \<in> set tbl. job_key r = job_key j \<and> lock_free lease (at op) r"
    and grant_takes: "wf_jobs tbl \<Longrightarrow> step tbl op = (tbl', Some j) \<Longrightarrow>
          held_since tbl' (job_key j) (at op)"
    and step_frame: "wf_jobs tbl \<Longrightarrow> step tbl op = (tbl', g) \<Longrightarrow> held_since tbl k t \<Longrightarrow>
          \<not> releases op k \<Longrightarrow> (\<forall>j. g = Some j \<longrightarrow> job_key j \<noteq> k) \<Longrightarrow> held_since tbl' k t"
begin

lemma held_blocks_grant:
  assumes "wf_jobs tbl" "held_since tbl (dev, kind) t" "at op \<le> t + lease kind"
    and "step tbl op = (tbl', Some j)"
  shows "job_key j \<noteq> (dev, kind)"
proof
  assume "job_key j = (dev, kind)"
  then obtain r where r: "r \<in> set tbl" "job_key r = (dev, kind)" "lock_free lease (at op) r"
    using grant_free [OF assms(1,4)] by metis
  from r(1,2) assms(2) have "pj_locked_at r = Some t" by (simp add: held_since_def)
  with r assms(3) show False by (auto simp: lock_free_def job_key_def)
qed

lemma lease_exclusive:
  assumes "wf_jobs tbl" "held_since tbl (dev, kind) t"
    and "\<forall>op \<in> set ops. \<not> releases op (dev, kind) \<and> at op \<le> t + lease kind"
    and "queue_run step tbl ops = (tbl', gs)"
  shows "(dev, kind) \<notin> job_key ` set gs \<and> held_since tbl' (dev, kind) t"
  using assms
proof (induction ops arbitrary: tbl gs)
  case Nil
  then show ?case by simp
next
  case (Cons op ops)
  obtain tbl1 g where s: "step tbl op = (tbl1, g)" by (cases "step tbl op")
  have g: "\<forall>j. g = Some j \<longrightarrow> job_key j \<noteq> (dev, kind)"
    using held_blocks_grant [OF Cons.prems(1,2)] Cons.prems(3) s by auto
  have wf: "wf_jobs tbl1" using step_wf [OF Cons.prems(1) s] .
  have held: "held_since tbl1 (dev, kind) t"
    using step_frame [OF Cons.prems(1) s Cons.prems(2)] Cons.prems(3) g by simp
  obtain gs1 where run: "queue_run step tbl1 ops = (tbl', gs1)"
      and gs: "gs = (case g of None \<Rightarrow> gs1 | Some j \<Rightarrow> j # gs1)"
    using Cons.prems(4) s by (cases "queue_run step tbl1 ops") (auto split: option.splits)
  have "(dev, kind) \<notin> job_key ` set gs1 \<and> held_since tbl' (dev, kind) t"
    using Cons.IH [OF wf held _ run] Cons.prems(3) by simp
  with g gs show ?case by (auto split: option.splits)
qed

lemma grant_then_exclusive:
  assumes "wf_jobs tbl" "step tbl op = (tbl1, Some j)"
    and "\<forall>op' \<in> set ops. \<not> releases op' (job_key j) \<and> at op' \<le> at op + lease (pj_kind j)"
    and "queue_run step tbl1 ops = (tbl', gs)"
  shows "job_key j \<notin> job_key ` set gs"
proof -
  have k: "job_key j = (pj_device j, pj_kind j)" by (simp add: job_key_def)
  have "held_since tbl1 (pj_device j, pj_kind j) (at op)"
    using grant_takes [OF assms(1,2)] k by simp
  then show ?thesis
    using lease_exclusive [OF step_wf [OF assms(1,2)]] assms(3,4) k by metis
qed

end

section \<open>Both queues keep the contract\<close>

datatype olt_op =
    OClaim string "uuid \<times> poll_kind \<Rightarrow> bool" time
  | OComplete "poll_kind poll_job" duration time
  | OFail "poll_kind poll_job" string time
  | ODefer "poll_kind poll_job" time
  | ORunNow uuid poll_kind time time
  | OEnsure "uuid \<Rightarrow> poll_kind \<Rightarrow> time" "uuid list" time

fun olt_step ::
  "poll_kind poll_job list \<Rightarrow> olt_op \<Rightarrow> poll_kind poll_job list \<times> poll_kind poll_job option" where
  "olt_step tbl (OClaim w sk now) = Claim w sk now tbl"
| "olt_step tbl (OComplete j took now) = (Complete j took now tbl, None)"
| "olt_step tbl (OFail j cause now) =
     (case Fail j cause now tbl of None \<Rightarrow> tbl | Some tbl' \<Rightarrow> tbl', None)"
| "olt_step tbl (ODefer j now) = (Defer j now tbl, None)"
| "olt_step tbl (ORunNow olt kind now due) =
     (case RunNow olt kind now due tbl of Inl _ \<Rightarrow> tbl | Inr tbl' \<Rightarrow> tbl', None)"
| "olt_step tbl (OEnsure clk olts now) = (EnsureJobs clk olts tbl, None)"

fun olt_op_time :: "olt_op \<Rightarrow> time" where
  "olt_op_time (OClaim w sk now) = now"
| "olt_op_time (OComplete j took now) = now"
| "olt_op_time (OFail j cause now) = now"
| "olt_op_time (ODefer j now) = now"
| "olt_op_time (ORunNow olt kind now due) = now"
| "olt_op_time (OEnsure clk olts now) = now"

fun olt_releases :: "olt_op \<Rightarrow> uuid \<times> poll_kind \<Rightarrow> bool" where
  "olt_releases (OComplete j took now) k \<longleftrightarrow> job_key j = k"
| "olt_releases (OFail j cause now) k \<longleftrightarrow> job_key j = k"
| "olt_releases (ODefer j now) k \<longleftrightarrow> job_key j = k"
| "olt_releases _ k \<longleftrightarrow> False"

text \<open>The condition the SQL spells out tier by tier is the lease of each row's own tier.\<close>

lemma claimable_lock_free: "claimable now r = lock_free LeaseFor now r"
  by (cases "pj_kind r") (auto simp: claimable_def lock_free_def AllPollKinds_def split: option.splits)

definition router_lease :: "router_poll_kind \<Rightarrow> duration" where
  "router_lease kind = (if kind \<in> set longLeaseKinds then routerDiscoveryLease else routerPollLease)"

lemma router_claimable_lock_free: "router_claimable now r = lock_free router_lease now r"
  by (auto simp: router_claimable_def lock_free_def router_lease_def split: option.splits)

lemma router_lease_eq:
  "router_lease kind = (if kind \<in> {RouterPollKindDiscovery, RouterPollKindRoutes}
     then 5 * minute else 2 * minute)"
  by (simp add: router_lease_def longLeaseKinds_def interval_defs)

text \<open>The claim both queues share, over their own conditions.\<close>

lemma held_since_update_same:
  assumes "wf_jobs tbl" "c \<in> set tbl"
  shows "held_since (update_where (\<lambda>r. job_key r = job_key c) (lock_row w now) tbl) (job_key c) now"
  using assms(2) by (auto simp: held_since_def keys_update_where elim!: update_where_mem_cases)

lemma held_since_update_other:
  assumes "held_since tbl k t" "\<And>r. job_key (f r) = job_key r"
    and "\<And>r. P r \<Longrightarrow> job_key r = k \<Longrightarrow> pj_locked_at (f r) = pj_locked_at r"
  shows "held_since (update_where P f tbl) k t"
  using assms
  by (auto simp: held_since_def keys_update_where elim!: update_where_mem_cases)

lemma held_since_first_or_create:
  assumes "held_since tbl k t"
  shows "held_since (first_or_create job_key r tbl) k t"
  using assms first_or_create_old [of _ job_key r tbl]
  by (auto simp: held_since_def keys_first_or_create)

lemma EnsureJobs_cases:
  assumes "Q tbl" "\<And>tbl r. Q tbl \<Longrightarrow> Q (first_or_create job_key r tbl)"
  shows "Q (EnsureJobs clk olts tbl)"
proof -
  have "Q (fold (\<lambda>kind tbl. first_or_create job_key (new_job olt kind (clk olt kind)) tbl) ks tbl)"
    if "Q tbl" for olt ks tbl
    using that by (induction ks arbitrary: tbl) (auto intro: assms(2))
  then have "Q (EnsureJobs clk olts tbl)" if "Q tbl" for tbl
    using that unfolding EnsureJobs_def by (induction olts arbitrary: tbl) auto
  from this [OF assms(1)] show ?thesis .
qed

lemma wf_jobs_Ensure: "wf_jobs tbl \<Longrightarrow> wf_jobs (EnsureJobs clk olts tbl)"
  by (rule EnsureJobs_cases) (auto simp: wf_jobs_def distinct_first_or_create)

lemma ClaimE:
  assumes "Claim w sk now tbl = (tbl', Some j)"
  obtains c where "c \<in> set tbl" "pj_due_at c \<le> now" "claimable now c" "\<not> sk (job_key c)"
    "j = lock_row w now c" "tbl' = update_where (\<lambda>r. job_key r = job_key c) (lock_row w now) tbl"
    "\<And>r. r \<in> set tbl \<Longrightarrow> pj_due_at r \<le> now \<Longrightarrow> claimable now r \<Longrightarrow> \<not> sk (job_key r) \<Longrightarrow>
       pj_due_at c \<le> pj_due_at r"
  using assms that unfolding Claim_def
  by (auto split: option.splits dest: min_row_filterD)

lemma Claim_none:
  "Claim w sk now tbl = (tbl', None) \<longleftrightarrow>
     tbl' = tbl \<and> (\<forall>r \<in> set tbl. pj_due_at r \<le> now \<longrightarrow> claimable now r \<longrightarrow> sk (job_key r))"
  by (auto simp: Claim_def filter_empty_conv split: option.splits dest: min_row_filterD)

lemma RouterClaimE:
  assumes "RouterClaim w sk now tbl = (tbl', Some j)"
  obtains c where "c \<in> set tbl" "pj_due_at c \<le> now" "router_claimable now c" "\<not> sk (job_key c)"
    "j = lock_row w now c" "tbl' = update_where (\<lambda>r. job_key r = job_key c) (lock_row w now) tbl"
  using assms that unfolding RouterClaim_def
  by (auto split: option.splits dest: min_row_filterD)

lemma RouterClaim_none: "RouterClaim w sk now tbl = (tbl', None) \<Longrightarrow> tbl' = tbl"
  by (auto simp: RouterClaim_def split: option.splits)


lemma unlock_row_simps [simp]:
  "pj_kind (unlock_row r) = pj_kind r" "pj_device (unlock_row r) = pj_device r"
  "pj_due_at (unlock_row r) = pj_due_at r" "pj_locked_at (unlock_row r) = None"
  "pj_failures (unlock_row r) = pj_failures r"
  by (simp_all add: unlock_row_def)

lemma olt_step_wf:
  assumes "wf_jobs tbl" "olt_step tbl op = (tbl', g)"
  shows "wf_jobs tbl'"
proof (cases op)
  case (OClaim w sk now)
  with assms show ?thesis by (cases g) (auto simp: Claim_none wf_jobs_update elim!: ClaimE)
next
  case (OEnsure clk olts now)
  with assms show ?thesis using wf_jobs_Ensure by auto
qed (use assms in \<open>auto simp: Complete_def Fail_def Defer_def RunNow_def wf_jobs_update Let_def
       split: option.splits sum.splits if_splits\<close>)

lemma olt_step_grant:
  assumes "olt_step tbl op = (tbl', Some j)"
  obtains w sk now where "op = OClaim w sk now" "Claim w sk now tbl = (tbl', Some j)"
  using assms by (cases op) auto

lemma olt_step_frame:
  assumes "olt_step tbl op = (tbl', g)" "held_since tbl k t" "\<not> olt_releases op k"
    and "\<forall>j. g = Some j \<longrightarrow> job_key j \<noteq> k"
  shows "held_since tbl' k t"
proof (cases op)
  case (OClaim w sk now)
  with assms show ?thesis
    by (cases g) (auto simp: Claim_none elim!: ClaimE intro!: held_since_update_other [of tbl k t])
next
  case (OEnsure clk olts now)
  with assms show ?thesis
    by (auto intro: EnsureJobs_cases [of "\<lambda>tbl. held_since tbl k t"] held_since_first_or_create)
qed (use assms in \<open>auto simp: Complete_def Fail_def Defer_def RunNow_def Let_def
       split: option.splits sum.splits if_splits intro!: held_since_update_other [of tbl k t]\<close>)

interpretation olt_queue: lease_queue LeaseFor olt_step olt_op_time olt_releases
proof
  fix tbl op tbl' j
  assume wf: "wf_jobs tbl" and s: "olt_step tbl op = (tbl', Some j)"
  obtain w sk now where op: "op = OClaim w sk now" and c: "Claim w sk now tbl = (tbl', Some j)"
    using s by (rule olt_step_grant)
  show "\<exists>r \<in> set tbl. job_key r = job_key j \<and> lock_free LeaseFor (olt_op_time op) r"
    using c op by (fastforce elim!: ClaimE simp: claimable_lock_free)
  show "held_since tbl' (job_key j) (olt_op_time op)"
    using c op wf by (auto elim!: ClaimE intro: held_since_update_same)
qed (auto intro: olt_step_wf olt_step_frame)

datatype router_op =
    RClaim string "uuid \<times> router_poll_kind \<Rightarrow> bool" time
  | RComplete "router_poll_kind poll_job" duration time
  | RFail "router_poll_kind poll_job" string time
  | RRunNow uuid "router_poll_kind list" time

fun router_step ::
  "router_poll_kind poll_job list \<Rightarrow> router_op
    \<Rightarrow> router_poll_kind poll_job list \<times> router_poll_kind poll_job option" where
  "router_step tbl (RClaim w sk now) = RouterClaim w sk now tbl"
| "router_step tbl (RComplete j took now) = (RouterComplete j took now tbl, None)"
| "router_step tbl (RFail j cause now) =
     (case RouterFail j cause now tbl of None \<Rightarrow> tbl | Some tbl' \<Rightarrow> tbl', None)"
| "router_step tbl (RRunNow router kinds now) = (RouterRunNow router kinds now tbl, None)"

fun router_op_time :: "router_op \<Rightarrow> time" where
  "router_op_time (RClaim w sk now) = now"
| "router_op_time (RComplete j took now) = now"
| "router_op_time (RFail j cause now) = now"
| "router_op_time (RRunNow router kinds now) = now"

fun router_releases :: "router_op \<Rightarrow> uuid \<times> router_poll_kind \<Rightarrow> bool" where
  "router_releases (RComplete j took now) k \<longleftrightarrow> job_key j = k"
| "router_releases (RFail j cause now) k \<longleftrightarrow> job_key j = k"
| "router_releases _ k \<longleftrightarrow> False"

lemmas router_op_defs = RouterComplete_def RouterFail_def RouterRunNow_def router_release_def

lemma router_step_wf:
  assumes "wf_jobs tbl" "router_step tbl op = (tbl', g)"
  shows "wf_jobs tbl'"
proof (cases op)
  case (RClaim w sk now)
  with assms show ?thesis by (cases g) (auto dest!: RouterClaim_none simp: wf_jobs_update elim!: RouterClaimE)
qed (use assms in \<open>auto simp: router_op_defs wf_jobs_update Let_def split: option.splits\<close>)

lemma router_step_frame:
  assumes "router_step tbl op = (tbl', g)" "held_since tbl k t" "\<not> router_releases op k"
    and "\<forall>j. g = Some j \<longrightarrow> job_key j \<noteq> k"
  shows "held_since tbl' k t"
proof (cases op)
  case (RClaim w sk now)
  with assms show ?thesis
    by (cases g) (auto dest!: RouterClaim_none elim!: RouterClaimE intro!: held_since_update_other [of tbl k t])
qed (use assms in \<open>auto simp: router_op_defs Let_def
       split: option.splits intro!: held_since_update_other [of tbl k t]\<close>)

interpretation router_queue: lease_queue router_lease router_step router_op_time router_releases
proof
  fix tbl op tbl' j
  assume wf: "wf_jobs tbl" and s: "router_step tbl op = (tbl', Some j)"
  obtain w sk now where op: "op = RClaim w sk now" and c: "RouterClaim w sk now tbl = (tbl', Some j)"
    using s by (cases op) auto
  show "\<exists>r \<in> set tbl. job_key r = job_key j \<and> lock_free router_lease (router_op_time op) r"
    using c op by (fastforce elim!: RouterClaimE simp: router_claimable_lock_free)
  show "held_since tbl' (job_key j) (router_op_time op)"
    using c op wf by (auto elim!: RouterClaimE intro: held_since_update_same)
qed (auto intro: router_step_wf router_step_frame)

section \<open>Properties\<close>

text \<open>C16. A worker that claims an OLT's tier keeps it for the tier's lease: in any later
  sequence of queue operations by any workers that lie within the lease and do not complete,
  fail or defer that very job, no claim hands the job out again.\<close>

theorem olt_lease_exclusive:
  assumes "wf_jobs tbl"
    and "Claim w skipped t tbl = (tbl1, Some j)"
    and "\<forall>op \<in> set ops. \<not> olt_releases op (job_key j) \<and> olt_op_time op \<le> t + LeaseFor (pj_kind j)"
    and "queue_run olt_step tbl1 ops = (tbl', granted)"
  shows "job_key j \<notin> job_key ` set granted"
  using olt_queue.grant_then_exclusive [of tbl "OClaim w skipped t" tbl1 j ops tbl' granted] assms
  by simp

theorem olt_lease_exclusive_witness:
  "(1, PollKindStatus) \<notin> job_key ` set (snd (queue_run olt_step
     [lock_row ''a'' minute (new_job 1 PollKindStatus 0), new_job 1 PollKindMetrics 5]
     [OClaim ''b'' (\<lambda>_. False) (2 * minute), ORunNow 1 PollKindStatus (2 * minute) (2 * minute),
      OClaim ''c'' (\<lambda>_. False) (3 * minute)]))"
proof -
  let ?tbl = "[new_job 1 PollKindStatus 0, new_job 1 PollKindMetrics 5]"
  let ?j = "lock_row ''a'' minute (new_job 1 PollKindStatus 0)"
  let ?tbl1 = "[?j, new_job 1 PollKindMetrics 5]"
  let ?ops = "[OClaim ''b'' (\<lambda>_. False) (2 * minute), ORunNow 1 PollKindStatus (2 * minute) (2 * minute),
         OClaim ''c'' (\<lambda>_. False) (3 * minute)]"
  have wf: "wf_jobs ?tbl" by (simp add: wf_jobs_def job_key_def new_job_def)
  have c: "Claim ''a'' (\<lambda>_. False) minute ?tbl = (?tbl1, Some ?j)"
    by (simp add: Claim_def claimable_def job_key_def new_job_def)
  have key: "job_key ?j = (1, PollKindStatus)" by (simp add: job_key_def new_job_def)
  have ops: "\<forall>op \<in> set ?ops. \<not> olt_releases op (job_key ?j) \<and>
      olt_op_time op \<le> minute + LeaseFor (pj_kind ?j)"
    by (simp add: new_job_def statusLease_def)
  have "job_key ?j \<notin> job_key ` set (snd (queue_run olt_step ?tbl1 ?ops))"
    by (rule olt_lease_exclusive [OF wf c ops, of "fst (queue_run olt_step ?tbl1 ?ops)"])
      (rule prod.collapse [symmetric])
  then show ?thesis by (simp only: key not_False_eq_True)
qed

text \<open>The same contract for the router queue, whose SQL condition is written over the long-lease
  tiers: within the lease nobody else is handed the job, whatever other workers and run-now requests do.\<close>

theorem router_lease_exclusive:
  assumes "wf_jobs tbl"
    and "RouterClaim w skipped t tbl = (tbl1, Some j)"
    and "\<forall>op \<in> set ops. \<not> router_releases op (job_key j) \<and>
           router_op_time op \<le> t + (if pj_kind j \<in> {RouterPollKindDiscovery, RouterPollKindRoutes}
                                    then 5 * minute else 2 * minute)"
    and "queue_run router_step tbl1 ops = (tbl', granted)"
  shows "job_key j \<notin> job_key ` set granted"
  using router_queue.grant_then_exclusive [of tbl "RClaim w skipped t" tbl1 j ops tbl' granted] assms
  by (simp add: router_lease_eq)

theorem router_lease_exclusive_witness:
  "job_key (new_job 1 RouterPollKindBGP 0) \<notin> job_key ` set (snd (queue_run router_step
     [lock_row ''a'' minute (new_job 1 RouterPollKindBGP 0)]
     [RRunNow 1 [RouterPollKindBGP] (2 * minute), RClaim ''b'' (\<lambda>_. False) (3 * minute)]))"
proof -
  let ?j = "lock_row ''a'' minute (new_job 1 RouterPollKindBGP 0)"
  let ?ops = "[RRunNow 1 [RouterPollKindBGP] (2 * minute), RClaim ''b'' (\<lambda>_. False) (3 * minute)]"
  have wf: "wf_jobs [new_job 1 RouterPollKindBGP 0]" by (simp add: wf_jobs_def)
  have c: "RouterClaim ''a'' (\<lambda>_. False) minute [new_job 1 RouterPollKindBGP 0] = ([?j], Some ?j)"
    by (simp add: RouterClaim_def router_claimable_def new_job_def)
  have "job_key ?j \<notin> job_key ` set (snd (queue_run router_step [?j] ?ops))"
    by (rule router_lease_exclusive [OF wf c, of ?ops "fst (queue_run router_step [?j] ?ops)"])
      (simp_all add: new_job_def)
  then show ?thesis by simp
qed

text \<open>A claim hands out nothing only when every due job is leased or being claimed by another
  transaction, and otherwise the most overdue job that is neither; it marks exactly that row and
  leaves every other row as it was.\<close>

theorem claim_most_overdue:
  "case Claim w skipped now tbl of
     (tbl', None) \<Rightarrow> tbl' = tbl \<and>
       (\<forall>r \<in> set tbl. \<not> (pj_due_at r \<le> now \<and> lock_free LeaseFor now r \<and> \<not> skipped (job_key r)))
   | (tbl', Some j) \<Rightarrow>
       (\<exists>c \<in> set tbl. j = lock_row w now c \<and> pj_due_at c \<le> now \<and> lock_free LeaseFor now c \<and>
          \<not> skipped (job_key c)) \<and>
       (\<forall>r \<in> set tbl. \<not> (pj_due_at r < pj_due_at j \<and> lock_free LeaseFor now r \<and> \<not> skipped (job_key r))) \<and>
       tbl' = map (\<lambda>r. if job_key r = job_key j then lock_row w now r else r) tbl"
proof (cases "Claim w skipped now tbl")
  case (Pair tbl' g)
  show ?thesis
  proof (cases g)
    case None
    with Pair have "Claim w skipped now tbl = (tbl', None)" by simp
    then show ?thesis using Claim_none [of w skipped now tbl tbl'] by (auto simp: claimable_lock_free)
  next
    case (Some j)
    with Pair have "Claim w skipped now tbl = (tbl', Some j)" by simp
    then obtain c where c: "c \<in> set tbl" "pj_due_at c \<le> now" "claimable now c" "\<not> skipped (job_key c)"
      "j = lock_row w now c" "tbl' = update_where (\<lambda>r. job_key r = job_key c) (lock_row w now) tbl"
      and least: "\<And>r. r \<in> set tbl \<Longrightarrow> pj_due_at r \<le> now \<Longrightarrow> claimable now r \<Longrightarrow> \<not> skipped (job_key r)
        \<Longrightarrow> pj_due_at c \<le> pj_due_at r"
      by (rule ClaimE) blast
    have "\<not> (pj_due_at r < pj_due_at j \<and> lock_free LeaseFor now r \<and> \<not> skipped (job_key r))"
      if "r \<in> set tbl" for r
      using least [OF that] c(2,5) by (force simp: claimable_lock_free)
    with c show ?thesis
      by (auto simp: Pair Some claimable_lock_free update_where_def)
  qed
qed

theorem claim_most_overdue_witness:
  "\<exists>j. snd (Claim ''a'' (\<lambda>_. False) minute [new_job 1 PollKindMetrics 5, new_job 1 PollKindStatus 0]) = Some j \<and>
     \<not> (pj_due_at (new_job 1 PollKindMetrics 5) < pj_due_at j)"
proof -
  let ?tbl = "[new_job 1 PollKindMetrics 5, new_job 1 PollKindStatus 0]"
  let ?j = "lock_row ''a'' minute (new_job 1 PollKindStatus 0)"
  have c: "Claim ''a'' (\<lambda>_. False) minute ?tbl = ([new_job 1 PollKindMetrics 5, ?j], Some ?j)"
    by (simp add: Claim_def claimable_def job_key_def new_job_def)
  from claim_most_overdue [where w = "''a''" and skipped = "\<lambda>_. False" and now = minute and tbl = ?tbl] c
  have "\<not> (pj_due_at (new_job 1 PollKindMetrics 5) < pj_due_at ?j \<and>
      lock_free LeaseFor minute (new_job 1 PollKindMetrics 5 :: poll_kind poll_job))"
    by (simp add: new_job_def)
  then show ?thesis unfolding c by (simp add: lock_free_def new_job_def)
qed

lemma backoff_value:
  assumes "1 \<le> n"
  shows "backoff kind n = Some (IntervalFor kind * 2 ^ nat (min (n - 1) 5))"
  using assms by (auto simp: backoff_def go_shl1_def maxBackoffShift_def Let_def min_def)

lemma IntervalFor_pos: "0 < IntervalFor kind"
  by (cases kind) (simp_all add: interval_defs)

lemma pow_bounds: "k \<le> (5::nat) \<Longrightarrow> (2::int) ^ k \<le> 32"
  using power_increasing [of k 5 "2::int"] by simp

text \<open>C17. Recording a failure never panics on a row whose failure count is not negative, counts it,
  frees the lease and puts the next run between one and thirty-two intervals ahead, doubling with each
  consecutive failure up to that cap.\<close>

theorem fail_backs_off:
  assumes "0 \<le> pj_failures job"
  shows "\<exists>wait. Fail job cause now tbl =
      Some (map (\<lambda>r. if job_key r = job_key job
        then r\<lparr>pj_due_at := now + wait, pj_locked_by := None, pj_locked_at := None,
               pj_last_run_at := Some now, pj_last_error := Some cause,
               pj_failures := pj_failures job + 1\<rparr> else r) tbl) \<and>
      wait = IntervalFor (pj_kind job) * 2 ^ nat (min (pj_failures job) 5) \<and>
      IntervalFor (pj_kind job) \<le> wait \<and> wait \<le> 32 * IntervalFor (pj_kind job)"
proof -
  let ?wait = "IntervalFor (pj_kind job) * 2 ^ nat (min (pj_failures job) 5)"
  have b: "backoff (pj_kind job) (pj_failures job + 1) = Some ?wait"
    using backoff_value [of "pj_failures job + 1"] assms by simp
  have p: "(1::int) \<le> 2 ^ nat (min (pj_failures job) 5)" "(2::int) ^ nat (min (pj_failures job) 5) \<le> 32"
    by (simp, rule pow_bounds, simp)
  have "IntervalFor (pj_kind job) \<le> ?wait \<and> ?wait \<le> 32 * IntervalFor (pj_kind job)"
    using p IntervalFor_pos [of "pj_kind job"] by (auto intro: mult_left_mono [of _ 32, simplified mult.commute])
  with b show ?thesis
    by (auto simp: Fail_def Let_def update_where_def unlock_row_def intro!: map_cong)
qed

theorem fail_backs_off_witness:
  "\<exists>wait. backoff PollKindMetrics 9 = Some wait \<and> wait \<le> 32 * MetricsInterval"
proof -
  let ?job = "(new_job 7 PollKindMetrics 0)\<lparr>pj_failures := 8\<rparr>"
  have "0 \<le> pj_failures ?job" by simp
  from fail_backs_off [OF this, of "''timeout''" 100 "[?job]"] backoff_value [of 9 PollKindMetrics]
  show ?thesis by (auto simp: new_job_def)
qed

text \<open>After a run that took \<open>took\<close> the tier is due no sooner than its own interval and no sooner
  than twice \<open>took\<close>, so polling takes at most half of a chassis agent's time; and completion clears the
  lease, the error and the failure count of exactly that row.\<close>

theorem complete_spacing:
  "Complete job took now tbl =
     map (\<lambda>r. if job_key r = job_key job
       then r\<lparr>pj_due_at := now + max (IntervalFor (pj_kind job)) (2 * took), pj_locked_by := None,
              pj_locked_at := None, pj_last_run_at := Some now,
              pj_last_duration_ms := Some (go_div took millisecond), pj_last_error := None,
              pj_failures := 0\<rparr> else r) tbl"
  by (auto simp: Complete_def SpacingFor_def agentShare_def Let_def update_where_def unlock_row_def max_def)

text \<open>Neither completion nor failure checks whose lease it ends. A worker that outlived its lease
  ends the lease of the worker that took the job over, and a third worker is then handed a job the
  second still holds.\<close>

theorem stale_complete_frees_the_new_lease:
  "\<exists>tbl ops tbl' j1 j2 j3. wf_jobs tbl \<and>
     queue_run olt_step tbl ops = (tbl', [j1, j2, j3]) \<and>
     job_key j1 = job_key j2 \<and> job_key j2 = job_key j3 \<and>
     pj_locked_by j2 = Some ''b'' \<and> pj_locked_by j3 = Some ''c'' \<and>
     the (pj_locked_at j3) < the (pj_locked_at j2) + LeaseFor (pj_kind j2)"
proof -
  let ?row = "new_job 1 PollKindStatus 0"
  let ?j1 = "lock_row ''a'' 0 ?row"
  let ?ops = "[OClaim ''a'' (\<lambda>_. False) 0, OClaim ''b'' (\<lambda>_. False) (3 * minute),
               OComplete ?j1 0 (3 * minute), OClaim ''c'' (\<lambda>_. False) (4 * minute)]"
  have "\<exists>tbl' j2 j3. queue_run olt_step [?row] ?ops = (tbl', [?j1, j2, j3]) \<and>
      job_key ?j1 = job_key j2 \<and> job_key j2 = job_key j3 \<and>
      pj_locked_by j2 = Some ''b'' \<and> pj_locked_by j3 = Some ''c'' \<and>
      the (pj_locked_at j3) < the (pj_locked_at j2) + LeaseFor (pj_kind j2)"
    by (simp add: Claim_def claimable_def AllPollKinds_def Complete_def SpacingFor_def agentShare_def
        unlock_row_def new_job_def job_key_def interval_defs)
  moreover have "wf_jobs [?row]" by (simp add: wf_jobs_def)
  ultimately show ?thesis by blast
qed

end
