(* ===== verification/RangeTables.thy ===== *)
theory RangeTables
  imports NetAddr
begin

text \<open>
  The address tables of package \<open>netflow\<close>: \<open>ipset.go\<close> (lists of networks, merged),
  \<open>asn.go\<close> (ranges announced by an AS), \<open>geo.go\<close> (networks and their country) and
  \<open>anonymity.go\<close>. All three answer by a binary search over ranges sorted by start; the
  locale \<open>range_search\<close> states what makes such a search right, and each table is an
  instance of it.

  A \<open>bufio.Scanner\<close> is what it yields: its lines, and whether \<open>scanner.Err()\<close> is set
  afterwards. A \<open>csv.Reader\<close> is what it yields too. \<open>sort.Slice\<close> is a stable sort here; no result
  depends on the order of ranges with one start.
\<close>

section \<open>Search over sorted, disjoint ranges\<close>

definition disjoint_sorted :: "('r \<Rightarrow> u32) \<Rightarrow> ('r \<Rightarrow> u32) \<Rightarrow> 'r list \<Rightarrow> bool" where
  "disjoint_sorted lo hi rs \<longleftrightarrow>
     (\<forall>r \<in> set rs. lo r \<le> hi r) \<and> (\<forall>i j. i < j \<longrightarrow> j < length rs \<longrightarrow> hi (rs ! i) < lo (rs ! j))"

definition in_range :: "('r \<Rightarrow> u32) \<Rightarrow> ('r \<Rightarrow> u32) \<Rightarrow> u32 \<Rightarrow> 'r \<Rightarrow> bool" where
  "in_range lo hi v r \<longleftrightarrow> lo r \<le> v \<and> v \<le> hi r"

locale range_search =
  fixes lo hi :: "'r \<Rightarrow> u32"
    and ranges :: "'t \<Rightarrow> 'r list"
    and valid :: "'t \<Rightarrow> bool"
    and lookup :: "'t \<Rightarrow> u32 \<Rightarrow> 'a"
    and found :: "'r \<Rightarrow> 'a"
    and missing :: 'a
  assumes valid_ranges: "valid t \<Longrightarrow> disjoint_sorted lo hi (ranges t)"
    and lookup_search:
      "lookup t v =
         (let i = Search (length (ranges t)) (\<lambda>i. v < lo (ranges t ! i))
          in if i = 0 \<or> hi (ranges t ! (i - 1)) < v then missing else found (ranges t ! (i - 1)))"
begin

lemma starts_sorted:
  assumes "valid t" "i \<le> j" "j < length (ranges t)"
  shows "lo (ranges t ! i) \<le> lo (ranges t ! j)"
proof (cases "i = j")
  case False
  with assms valid_ranges [of t] have "lo (ranges t ! i) \<le> hi (ranges t ! i)"
    "hi (ranges t ! i) < lo (ranges t ! j)"
    by (auto simp: disjoint_sorted_def)
  then show ?thesis by simp
qed simp

lemma after_start: "valid t \<Longrightarrow> a \<le> b \<Longrightarrow> b < length (ranges t) \<Longrightarrow> v < lo (ranges t ! a) \<Longrightarrow> v < lo (ranges t ! b)"
  using starts_sorted [of t a b] by simp

lemma lookup_hit:
  assumes t: "valid t" and r: "r \<in> set (ranges t)" "in_range lo hi v r"
  shows "lookup t v = found r"
proof -
  let ?rs = "ranges t" and ?f = "\<lambda>i. v < lo (ranges t ! i)"
  obtain k where k: "k < length ?rs" "?rs ! k = r" using r(1) by (auto simp: in_set_conv_nth)
  let ?s = "Search (length ?rs) ?f"
  have mono: "\<And>a b. a \<le> b \<Longrightarrow> b < length ?rs \<Longrightarrow> ?f a \<Longrightarrow> ?f b" using after_start [OF t] .
  have le: "?s \<le> length ?rs" using mono by (rule Search_le)
  have "k < ?s"
  proof (rule ccontr)
    assume "\<not> k < ?s"
    then have "?f k" using mono k(1) by (intro Search_after [of "length ?rs" ?f k]) auto
    then have "v < lo r" using k(2) by simp
    with r(2) show False by (auto simp: in_range_def)
  qed
  moreover have "\<not> k + 1 < ?s"
  proof
    assume lt: "k + 1 < ?s"
    with mono have "\<not> ?f (k + 1)" by (intro Search_before [of "length ?rs" ?f "k + 1"]) auto
    moreover have "hi (?rs ! k) < lo (?rs ! (k + 1))"
      using valid_ranges [OF t] lt le by (auto simp: disjoint_sorted_def)
    ultimately have "hi r < v" using k(2) by simp
    with r(2) show False by (auto simp: in_range_def)
  qed
  ultimately have "?s = k + 1" by simp
  with k r(2) show ?thesis by (auto simp: lookup_search Let_def in_range_def)
qed

lemma lookup_miss:
  assumes t: "valid t" and none: "\<And>r. r \<in> set (ranges t) \<Longrightarrow> \<not> in_range lo hi v r"
  shows "lookup t v = missing"
proof -
  let ?rs = "ranges t" and ?f = "\<lambda>i. v < lo (ranges t ! i)"
  let ?s = "Search (length ?rs) ?f"
  have mono: "\<And>a b. a \<le> b \<Longrightarrow> b < length ?rs \<Longrightarrow> ?f a \<Longrightarrow> ?f b" using after_start [OF t] .
  have le: "?s \<le> length ?rs" using mono by (rule Search_le)
  have "hi (?rs ! (?s - 1)) < v" if s: "?s \<noteq> 0"
  proof -
    have "\<not> ?f (?s - 1)" using mono s by (intro Search_before [of "length ?rs" ?f "?s - 1"]) auto
    moreover have "?rs ! (?s - 1) \<in> set ?rs" using s le by simp
    ultimately show ?thesis using none [of "?rs ! (?s - 1)"] by (auto simp: in_range_def)
  qed
  then show ?thesis by (auto simp: lookup_search Let_def)
qed

text \<open>The complete answer: the range that holds the address, and \<open>missing\<close> when none does.\<close>

lemma lookup_spec:
  assumes "valid t"
  shows "lookup t v = (case find (in_range lo hi v) (ranges t) of None \<Rightarrow> missing | Some r \<Rightarrow> found r)"
proof (cases "find (in_range lo hi v) (ranges t)")
  case None
  then have "\<And>r. r \<in> set (ranges t) \<Longrightarrow> \<not> in_range lo hi v r" by (simp add: find_None_iff)
  with None assms show ?thesis by (simp add: lookup_miss)
next
  case (Some r)
  then have "r \<in> set (ranges t)" "in_range lo hi v r" by (auto simp: find_Some_iff)
  with Some assms show ?thesis by (simp add: lookup_hit)
qed

end

section \<open>Address lists (ipset.go)\<close>

record ipv4Range =
  rg_start :: u32
  rg_end :: u32

record IPSet =
  is_ranges :: "ipv4Range list"

definition Contains_char :: "string \<Rightarrow> char \<Rightarrow> bool" where
  "Contains_char s c \<longleftrightarrow> c \<in> set s"

text \<open>\<open>parseNetwork\<close>, where it answers an IPv4 network (callers reject any other).\<close>

definition parseNetwork :: "string \<Rightarrow> prefix option" where
  "parseNetwork network =
     (if Contains_char network (CHR ''/'') then ParsePrefix4 network
      else (case ParseAddr4 network of None \<Rightarrow> None | Some a \<Rightarrow> addr_Prefix (V4 a) (BitLen (V4 a))))"

text \<open>\<open>As4\<close> panics on anything but an IPv4 address; \<open>None\<close> is that panic.\<close>

definition prefixRange :: "prefix \<Rightarrow> ipv4Range option" where
  "prefixRange p =
     (case Addr (Masked p) of
        V4 start \<Rightarrow> Some \<lparr>rg_start = start, rg_end = start OR (push_bit (nat (32 - Bits p)) 1 - 1)\<rparr>
      | _ \<Rightarrow> None)"

text \<open>
  \<open>mergeRanges\<close> merges in place: \<open>merged := ranges[:1]\<close> shares the array the loop reads, so
  appending to it overwrites an element of \<open>ranges\<close>. \<open>arr\<close> is that array, \<open>m\<close> the length of
  \<open>merged\<close> and \<open>k\<close> the index the loop reads next.
\<close>

function merge_loop :: "ipv4Range list \<Rightarrow> nat \<Rightarrow> nat \<Rightarrow> ipv4Range list" where
  "merge_loop arr m k =
     (if k < length arr then
        let r = arr ! k; l = arr ! (m - 1)
        in if rg_end l = NOT 0 \<or> rg_start r \<le> rg_end l + 1
           then merge_loop (arr[m - 1 := l\<lparr>rg_end := max (rg_end l) (rg_end r)\<rparr>]) m (k + 1)
           else merge_loop (arr[m := r]) (m + 1) (k + 1)
      else take m arr)"
  by pat_completeness auto
termination
  by (relation "measure (\<lambda>(arr, m, k). length arr - k)") auto

declare merge_loop.simps [simp del]

definition mergeRanges :: "ipv4Range list \<Rightarrow> ipv4Range list" where
  "mergeRanges rs = merge_loop (sort_key rg_start rs) 1 1"

datatype ipset_error = ErrNotNetwork nat | ErrScanner | ErrNoEntries | IPSetPanic

fun ipset_lines :: "nat \<Rightarrow> string list \<Rightarrow> ipv4Range list \<Rightarrow> ipset_error + ipv4Range list" where
  "ipset_lines n [] rs = Inr rs"
| "ipset_lines n (l # ls) rs =
     (let text = TrimSpace l
      in if text = [] \<or> HasPrefix text ''#'' \<or> Contains_char text (CHR '':'') then ipset_lines (n + 1) ls rs
         else (case parseNetwork text of
                 None \<Rightarrow> Inl (ErrNotNetwork n)
               | Some p \<Rightarrow>
                   if \<not> Is4 (Addr p) then Inl (ErrNotNetwork n)
                   else (case prefixRange p of
                           None \<Rightarrow> Inl IPSetPanic
                         | Some r \<Rightarrow> ipset_lines (n + 1) ls (rs @ [r]))))"

definition ParseIPSet :: "string list \<times> bool \<Rightarrow> ipset_error + IPSet" where
  "ParseIPSet scan =
     (case ipset_lines 1 (fst scan) [] of
        Inl e \<Rightarrow> Inl e
      | Inr rs \<Rightarrow> if snd scan then Inl ErrScanner else if rs = [] then Inl ErrNoEntries
                   else Inr \<lparr>is_ranges = mergeRanges rs\<rparr>)"

text \<open>\<open>IPSet.Contains\<close>; \<open>None\<close> is the nil list of a service without the file.\<close>

definition search4 :: "IPSet \<Rightarrow> u32 \<Rightarrow> bool" where
  "search4 s v =
     (let i = Search (length (is_ranges s)) (\<lambda>i. v < rg_start (is_ranges s ! i))
      in i \<noteq> 0 \<and> v \<le> rg_end (is_ranges s ! (i - 1)))"

definition IPSet_Contains :: "IPSet option \<Rightarrow> addr \<Rightarrow> bool" where
  "IPSet_Contains s ip =
     (case (s, ip) of (Some t, V4 v) \<Rightarrow> search4 t v | _ \<Rightarrow> False)"

subsection \<open>The merge\<close>

abbreviation rg_in :: "u32 \<Rightarrow> ipv4Range \<Rightarrow> bool" where
  "rg_in \<equiv> in_range rg_start rg_end"

definition covers :: "ipv4Range list \<Rightarrow> u32 \<Rightarrow> bool" where
  "covers rs v \<longleftrightarrow> (\<exists>r \<in> set rs. rg_in v r)"

text \<open>The merge without the shared array: \<open>done\<close> is what is merged, in order, \<open>l\<close> its last range.\<close>

fun merge_spec :: "ipv4Range \<Rightarrow> ipv4Range list \<Rightarrow> ipv4Range list" where
  "merge_spec l [] = [l]"
| "merge_spec l (r # rs) =
     (if rg_end l = NOT 0 \<or> rg_start r \<le> rg_end l + 1
      then merge_spec (l\<lparr>rg_end := max (rg_end l) (rg_end r)\<rparr>) rs
      else l # merge_spec r rs)"

lemma merge_loop_spec:
  assumes "1 \<le> m" "m \<le> k" "k \<le> length arr"
  shows "merge_loop arr m k = take (m - 1) arr @ merge_spec (arr ! (m - 1)) (drop k arr)"
  using assms
proof (induction arr m k rule: merge_loop.induct)
  case (1 arr m k)
  show ?case
  proof (cases "k < length arr")
    case False
    with "1.prems" take_Suc_conv_app_nth [of "m - 1" arr] show ?thesis
      by (subst merge_loop.simps) simp
  next
    case k: True
    let ?r = "arr ! k" and ?l = "arr ! (m - 1)"
    let ?l' = "?l\<lparr>rg_end := max (rg_end ?l) (rg_end ?r)\<rparr>"
    have d: "drop k arr = ?r # drop (k + 1) arr" using k by (simp add: Cons_nth_drop_Suc)
    show ?thesis
    proof (cases "rg_end ?l = NOT 0 \<or> rg_start ?r \<le> rg_end ?l + 1")
      case True
      have "merge_loop arr m k = merge_loop (arr[m - 1 := ?l']) m (k + 1)"
        using k True by (subst merge_loop.simps) (simp add: Let_def)
      also have "\<dots> = take (m - 1) (arr[m - 1 := ?l']) @
          merge_spec (arr[m - 1 := ?l'] ! (m - 1)) (drop (k + 1) (arr[m - 1 := ?l']))"
        using "1.IH"(1) [OF k refl refl True] "1.prems" k by simp
      also have "\<dots> = take (m - 1) arr @ merge_spec ?l' (drop (k + 1) arr)"
        using "1.prems" k by simp
      finally show ?thesis using True by (simp add: d)
    next
      case False
      have "merge_loop arr m k = merge_loop (arr[m := ?r]) (m + 1) (k + 1)"
        using k False by (subst merge_loop.simps) (simp add: Let_def)
      also have "\<dots> = take m (arr[m := ?r]) @ merge_spec (arr[m := ?r] ! m) (drop (k + 1) (arr[m := ?r]))"
        using "1.IH"(2) [OF k refl refl False] "1.prems" k by simp
      also have "\<dots> = take m arr @ merge_spec ?r (drop (k + 1) arr)"
        using "1.prems" k by simp
      also have "take m arr = take (m - 1) arr @ [?l]"
        using "1.prems" k take_Suc_conv_app_nth [of "m - 1" arr] by simp
      finally show ?thesis using False by (simp add: d)
    qed
  qed
qed

lemma mergeRanges_spec:
  "rs \<noteq> [] \<Longrightarrow> mergeRanges rs = (case sort_key rg_start rs of [] \<Rightarrow> [] | r # ss \<Rightarrow> merge_spec r ss)"
  by (cases "sort_key rg_start rs")
    (simp_all add: mergeRanges_def merge_loop_spec Suc_le_eq del: sort_key_simps,
     metis length_sort list.size(3) length_0_conv)

text \<open>Touching or overlapping ranges with sorted starts join into one interval.\<close>

lemma less_add_one: "x \<noteq> NOT 0 \<Longrightarrow> x < x + (1::u32)"
proof -
  assume "x \<noteq> NOT 0"
  then have "x < - 1" using word_order.not_eq_extremum [of x] by simp
  then have "unat x < unat (- 1 :: u32)" by (simp only: word_less_nat_alt)
  also have "unat (- 1 :: u32) = 2 ^ 32 - 1" by (simp only: unsigned_minus_1_eq_mask) (simp add: mask_eq_exp_minus_1)
  finally have "unat x + unat (1::u32) < 2 ^ LENGTH(32)" by simp
  then have "unat (x + 1) = unat x + 1" by (simp only: unat_add_lem) simp
  then show "x < x + 1" by (simp add: word_less_nat_alt)
qed

lemma join_in_range:
  assumes "rg_end l = NOT 0 \<or> rg_start r \<le> rg_end l + 1" "rg_start l \<le> rg_start r"
    "rg_start l \<le> rg_end l" "rg_start r \<le> rg_end r"
  shows "rg_in v (l\<lparr>rg_end := max (rg_end l) (rg_end r)\<rparr>) \<longleftrightarrow> rg_in v l \<or> rg_in v r"
proof -
  have touch: "rg_start r \<le> v" if "rg_end l < v"
  proof (cases "rg_end l = NOT 0")
    case True
    with that show ?thesis using word_not_simps(1) by (simp add: not_less [symmetric] leD)
  next
    case False
    with that have "rg_end l + 1 \<le> v" by (simp add: inc_le)
    with False assms(1) show ?thesis by simp
  qed
  show ?thesis
  proof (cases "rg_end l < v")
    case True
    with touch assms(2-4) show ?thesis by (auto simp: in_range_def le_max_iff_disj)
  next
    case False
    with assms(2-4) show ?thesis by (auto simp: in_range_def le_max_iff_disj)
  qed
qed

lemma merge_spec_covers:
  assumes "sorted (map rg_start (l # rs))" "\<forall>r \<in> set (l # rs). rg_start r \<le> rg_end r"
  shows "covers (merge_spec l rs) v \<longleftrightarrow> rg_in v l \<or> covers rs v"
  using assms
proof (induction rs arbitrary: l)
  case (Cons r rs)
  show ?case
  proof (cases "rg_end l = NOT 0 \<or> rg_start r \<le> rg_end l + 1")
    case True
    let ?l' = "l\<lparr>rg_end := max (rg_end l) (rg_end r)\<rparr>"
    have "covers (merge_spec ?l' rs) v \<longleftrightarrow> rg_in v ?l' \<or> covers rs v"
      using Cons.prems by (intro Cons.IH) (auto simp: le_max_iff_disj)
    with True Cons.prems join_in_range [of l r v] show ?thesis by (auto simp: covers_def)
  next
    case False
    with Cons show ?thesis by (auto simp: covers_def)
  qed
qed (simp add: covers_def)

lemma hd_merge_spec: "rg_start (hd (merge_spec l rs)) = rg_start l"
  by (induction rs arbitrary: l) auto

lemma merge_spec_not_Nil [simp]: "merge_spec l rs \<noteq> []"
  by (induction rs arbitrary: l) auto

lemma merge_spec_gap:
  assumes "sorted (map rg_start (l # rs))" "\<forall>r \<in> set (l # rs). rg_start r \<le> rg_end r"
  shows "sorted_wrt (\<lambda>a b. rg_end a < rg_start b) (merge_spec l rs) \<and>
    (\<forall>r \<in> set (merge_spec l rs). rg_start r \<le> rg_end r \<and> rg_start l \<le> rg_start r)"
  using assms
proof (induction rs arbitrary: l)
  case (Cons r rs)
  show ?case
  proof (cases "rg_end l = NOT 0 \<or> rg_start r \<le> rg_end l + 1")
    case True
    let ?l' = "l\<lparr>rg_end := max (rg_end l) (rg_end r)\<rparr>"
    have "sorted_wrt (\<lambda>a b. rg_end a < rg_start b) (merge_spec ?l' rs) \<and>
        (\<forall>x \<in> set (merge_spec ?l' rs). rg_start x \<le> rg_end x \<and> rg_start ?l' \<le> rg_start x)"
      using Cons.prems by (intro Cons.IH) (auto simp: le_max_iff_disj)
    with True show ?thesis by simp
  next
    case False
    have gap: "rg_end l < rg_start r"
    proof (rule ccontr)
      assume "\<not> rg_end l < rg_start r"
      moreover have "rg_end l \<le> rg_end l + 1" using False less_add_one [of "rg_end l"] by simp
      ultimately show False using False by (auto dest: order_trans)
    qed
    have IH: "sorted_wrt (\<lambda>a b. rg_end a < rg_start b) (merge_spec r rs) \<and>
        (\<forall>x \<in> set (merge_spec r rs). rg_start x \<le> rg_end x \<and> rg_start r \<le> rg_start x)"
      using Cons.prems by (intro Cons.IH) auto
    have "rg_end l < rg_start x" if "x \<in> set (merge_spec r rs)" for x
      using IH that gap by (meson order_less_le_trans)
    moreover have "rg_start l \<le> rg_start x" if "x \<in> set (merge_spec r rs)" for x
      using IH that Cons.prems(1) by (auto intro: order_trans)
    ultimately show ?thesis using False IH Cons.prems(2) by simp
  qed
qed simp

lemma disjoint_sorted_wrt:
  "disjoint_sorted lo hi rs \<longleftrightarrow> (\<forall>r \<in> set rs. lo r \<le> hi r) \<and> sorted_wrt (\<lambda>a b. hi a < lo b) rs"
  by (auto simp: disjoint_sorted_def sorted_wrt_iff_nth_less)

definition ipset_ok :: "IPSet \<Rightarrow> bool" where
  "ipset_ok s \<longleftrightarrow> disjoint_sorted rg_start rg_end (is_ranges s)"

interpretation ipset: range_search rg_start rg_end is_ranges ipset_ok search4 "\<lambda>_. True" False
  by unfold_locales (auto simp: ipset_ok_def search4_def Let_def not_less)


lemma mergeRanges_ok:
  assumes "rs \<noteq> []" "\<forall>r \<in> set rs. rg_start r \<le> rg_end r"
  shows "disjoint_sorted rg_start rg_end (mergeRanges rs)" "covers (mergeRanges rs) v \<longleftrightarrow> covers rs v"
proof -
  obtain r ss where s: "sort_key rg_start rs = r # ss"
    using assms(1) by (metis length_0_conv length_sort list.exhaust)
  have sorted: "sorted (map rg_start (r # ss))" using sorted_sort_key [of rg_start rs] by (simp only: s)
  have set: "set (r # ss) = set rs" by (simp only: s [symmetric] set_sort)
  then have wf: "\<forall>x \<in> set (r # ss). rg_start x \<le> rg_end x" using assms(2) by (simp only: set)
  have eq: "mergeRanges rs = merge_spec r ss" unfolding mergeRanges_spec [OF assms(1)] s by (rule list.case)
  show "disjoint_sorted rg_start rg_end (mergeRanges rs)"
    unfolding eq disjoint_sorted_wrt using merge_spec_gap [OF sorted wf] by blast
  show "covers (mergeRanges rs) v \<longleftrightarrow> covers rs v"
    unfolding eq merge_spec_covers [OF sorted wf] unfolding covers_def set [symmetric] by simp
qed

subsection \<open>The lines of a list\<close>

definition skipped_line :: "string \<Rightarrow> bool" where
  "skipped_line l \<longleftrightarrow>
     (let text = TrimSpace l in text = [] \<or> HasPrefix text ''#'' \<or> Contains_char text (CHR '':''))"

lemma parseNetwork_shape: "parseNetwork s = Some p \<Longrightarrow> \<exists>a n. p = Prefix (V4 a) n \<and> n \<le> 32"
  by (auto simp: parseNetwork_def dest: ParsePrefix4_shape split: if_splits option.splits)

lemma prefixRange_eq:
  "n \<le> 32 \<Longrightarrow> prefixRange (Prefix (V4 a) n) = Some \<lparr>rg_start = low_addr n a, rg_end = high_addr n a\<rparr>"
  by (simp add: prefixRange_def low_addr_def high_addr_def nat_diff_distrib)

lemma rg_in_prefixRange:
  assumes "parseNetwork s = Some p" "prefixRange p = Some r"
  shows "rg_in v r \<longleftrightarrow> Contains p (V4 v)" "rg_start r \<le> rg_end r"
proof -
  obtain a n where p: "p = Prefix (V4 a) n" and n: "n \<le> 32" using parseNetwork_shape assms(1) by blast
  have r: "r = \<lparr>rg_start = low_addr n a, rg_end = high_addr n a\<rparr>" using assms(2) n by (simp add: p prefixRange_eq)
  show "rg_in v r \<longleftrightarrow> Contains p (V4 v)" unfolding p Contains_interval [OF n] by (simp add: r in_range_def)
  show "rg_start r \<le> rg_end r" by (simp add: r low_high)
qed

definition line_range :: "string \<Rightarrow> ipv4Range option" where
  "line_range l = Option.bind (parseNetwork (TrimSpace l)) prefixRange"

lemma line_range_Some_iff: "(\<exists>r. line_range l = Some r) \<longleftrightarrow> (\<exists>p. parseNetwork (TrimSpace l) = Some p)"
proof
  assume "\<exists>p. parseNetwork (TrimSpace l) = Some p"
  then obtain p where p: "parseNetwork (TrimSpace l) = Some p" ..
  with parseNetwork_shape obtain a n where "p = Prefix (V4 a) n" "n \<le> 32" by blast
  with p show "\<exists>r. line_range l = Some r" by (simp add: line_range_def prefixRange_eq)
qed (auto simp: line_range_def bind_eq_Some_conv)

lemma ipset_lines_eq:
  "ipset_lines n ls rs =
     (case find (\<lambda>i. line_range (ls ! i) = None) (filter (\<lambda>i. \<not> skipped_line (ls ! i)) [0..<length ls]) of
        Some i \<Rightarrow> Inl (ErrNotNetwork (n + i))
      | None \<Rightarrow> Inr (rs @ map (the \<circ> line_range) (filter (\<lambda>l. \<not> skipped_line l) ls)))"
proof (induction ls arbitrary: n rs)
  case (Cons l ls)
  let ?P = "\<lambda>ls i. line_range (ls ! i) = None" and ?F = "\<lambda>ls i. \<not> skipped_line (ls ! i)"
  have up: "[0..<length (l # ls)] = 0 # map Suc [0..<length ls]" by (simp add: upt_conv_Cons map_Suc_upt del: upt_Suc)
  have tail: "find (?P (l # ls)) (filter (?F (l # ls)) (map Suc is)) = map_option Suc (find (?P ls) (filter (?F ls) is))"
    for "is"
    by (induction "is") auto
  show ?case
  proof (cases "skipped_line l")
    case True
    then have "ipset_lines n (l # ls) rs = ipset_lines (n + 1) ls rs" by (simp add: skipped_line_def Let_def)
    with True show ?thesis unfolding Cons.IH up by (simp add: tail split: option.splits)
  next
    case ns: False
    show ?thesis
    proof (cases "parseNetwork (TrimSpace l)")
      case None
      then have "ipset_lines n (l # ls) rs = Inl (ErrNotNetwork n)" "line_range l = None"
        using ns by (auto simp: skipped_line_def Let_def line_range_def)
      then show ?thesis unfolding up using ns by simp
    next
      case (Some p)
      then obtain r where r: "line_range l = Some r" using line_range_Some_iff [of l] by blast
      with Some have pr: "prefixRange p = Some r" by (simp add: line_range_def)
      have "Is4 (Addr p)" using parseNetwork_shape [OF Some] by auto
      with Some pr have "ipset_lines n (l # ls) rs = ipset_lines (n + 1) ls (rs @ [r])"
        using ns by (simp add: skipped_line_def Let_def)
      with ns r show ?thesis unfolding Cons.IH up by (simp add: tail split: option.splits)
    qed
  qed
qed simp

lemma ipset_lines_Inr:
  assumes "ipset_lines n ls [] = Inr rs"
  shows "set rs = {r. \<exists>l \<in> set ls. \<not> skipped_line l \<and> line_range l = Some r}"
    "l \<in> set ls \<Longrightarrow> \<not> skipped_line l \<Longrightarrow> line_range l \<noteq> None"
proof -
  have none: "find (\<lambda>i. line_range (ls ! i) = None) (filter (\<lambda>i. \<not> skipped_line (ls ! i)) [0..<length ls]) = None"
    and rs: "rs = map (the \<circ> line_range) (filter (\<lambda>l. \<not> skipped_line l) ls)"
    using assms by (auto simp: ipset_lines_eq split: option.splits)
  have all: "line_range l \<noteq> None" if l: "l \<in> set ls" "\<not> skipped_line l" for l
  proof -
    obtain i where "i < length ls" "ls ! i = l" using l(1) by (auto simp: in_set_conv_nth)
    with none l(2) show ?thesis by (auto simp: find_None_iff)
  qed
  then show "l \<in> set ls \<Longrightarrow> \<not> skipped_line l \<Longrightarrow> line_range l \<noteq> None" .
  show "set rs = {r. \<exists>l \<in> set ls. \<not> skipped_line l \<and> line_range l = Some r}"
    using all by (force simp: rs)
qed


lemma ParseIPSet_ok:
  assumes "ParseIPSet scan = Inr s"
  shows "ipset_ok s"
    "covers (is_ranges s) v \<longleftrightarrow>
       (\<exists>l \<in> set (fst scan). \<not> skipped_line l \<and> (\<exists>p. parseNetwork (TrimSpace l) = Some p \<and> Contains p (V4 v)))"
proof -
  obtain rs where rs: "ipset_lines 1 (fst scan) [] = Inr rs" "rs \<noteq> []" "s = \<lparr>is_ranges = mergeRanges rs\<rparr>"
    using assms by (auto simp: ParseIPSet_def split: sum.splits if_splits)
  note set = ipset_lines_Inr(1) [OF rs(1)]
  have line: "\<exists>p. parseNetwork (TrimSpace l) = Some p \<and> prefixRange p = Some r" if "line_range l = Some r" for l r
    using that by (auto simp: line_range_def bind_eq_Some_conv)
  then have wf: "\<forall>r \<in> set rs. rg_start r \<le> rg_end r" using rg_in_prefixRange(2) by (fastforce simp: set)
  show "ipset_ok s" using mergeRanges_ok(1) [OF rs(2) wf] by (simp add: ipset_ok_def rs(3))
  have "covers (is_ranges s) v \<longleftrightarrow> covers rs v" using mergeRanges_ok(2) [OF rs(2) wf] by (simp add: rs(3))
  also have "\<dots> \<longleftrightarrow> (\<exists>l \<in> set (fst scan). \<not> skipped_line l \<and> (\<exists>r. line_range l = Some r \<and> rg_in v r))"
    by (auto simp: covers_def set)
  also have "\<dots> \<longleftrightarrow> (\<exists>l \<in> set (fst scan). \<not> skipped_line l \<and> (\<exists>p. parseNetwork (TrimSpace l) = Some p \<and> Contains p (V4 v)))"
  proof -
    have "(\<exists>r. line_range l = Some r \<and> rg_in v r) \<longleftrightarrow> (\<exists>p. parseNetwork (TrimSpace l) = Some p \<and> Contains p (V4 v))" for l
      using line line_range_Some_iff [of l] rg_in_prefixRange(1)
      by (metis (no_types, lifting) line_range_def bind.bind_lunit option.inject)
    then show ?thesis by simp
  qed
  finally show "covers (is_ranges s) v \<longleftrightarrow>
      (\<exists>l \<in> set (fst scan). \<not> skipped_line l \<and> (\<exists>p. parseNetwork (TrimSpace l) = Some p \<and> Contains p (V4 v)))" .
qed

lemma search4_covers: "ipset_ok s \<Longrightarrow> search4 s v \<longleftrightarrow> covers (is_ranges s) v"
  using ipset.lookup_hit [of s _ v] ipset.lookup_miss [of s v] unfolding covers_def by blast

section \<open>The AS table (asn.go)\<close>

record ASNInfo =
  ai_name :: string
  ai_country :: string

record asnRange =
  ar_start :: u32
  ar_end :: u32
  ar_asn :: u32

record ASNTable =
  at_ranges :: "asnRange list"
  at_names :: "u32 \<Rightarrow> ASNInfo option"

datatype asn_error = ErrColumns | ErrMalformed | ErrEndsBeforeStart

datatype asn_table_error = ErrASNLine nat asn_error | ErrASNScanner | ErrNoRanges | ErrOverlap

definition asn_addLine :: "string \<Rightarrow> ASNTable \<Rightarrow> asn_error + ASNTable" where
  "asn_addLine line t =
     (case Split line (CHR 0x09) of
        [c0, c1, c2, c3, c4] \<Rightarrow>
          (case (ParseAddr4 c0, ParseAddr4 c1, ParseUint 32 c2) of
             (Some start, Some end, Some asn) \<Rightarrow>
               if end < start then Inl ErrEndsBeforeStart
               else if asn = 0 then Inr t
               else Inr (t\<lparr>at_ranges := at_ranges t @ [\<lparr>ar_start = start, ar_end = end, ar_asn = of_nat asn\<rparr>],
                           at_names := (at_names t)(of_nat asn \<mapsto> \<lparr>ai_name = c4, ai_country = c3\<rparr>)\<rparr>)
           | _ \<Rightarrow> Inl ErrMalformed)
      | _ \<Rightarrow> Inl ErrColumns)"

fun asn_lines :: "nat \<Rightarrow> string list \<Rightarrow> ASNTable \<Rightarrow> asn_table_error + ASNTable" where
  "asn_lines n [] t = Inr t"
| "asn_lines n (l # ls) t =
     (case asn_addLine l t of Inl e \<Rightarrow> Inl (ErrASNLine n e) | Inr t' \<Rightarrow> asn_lines (n + 1) ls t')"

fun checkDisjoint :: "asnRange list \<Rightarrow> bool" where
  "checkDisjoint (prev # cur # rs) = (\<not> ar_start cur \<le> ar_end prev \<and> checkDisjoint (cur # rs))"
| "checkDisjoint _ = True"

definition ParseASNTable :: "string list \<times> bool \<Rightarrow> asn_table_error + ASNTable" where
  "ParseASNTable scan =
     (case asn_lines 1 (fst scan) \<lparr>at_ranges = [], at_names = (\<lambda>_. None)\<rparr> of
        Inl e \<Rightarrow> Inl e
      | Inr t \<Rightarrow>
          if snd scan then Inl ErrASNScanner
          else if at_ranges t = [] then Inl ErrNoRanges
          else (let t' = t\<lparr>at_ranges := sort_key ar_start (at_ranges t)\<rparr>
                in if checkDisjoint (at_ranges t') then Inr t' else Inl ErrOverlap))"

definition asn_search :: "ASNTable \<Rightarrow> u32 \<Rightarrow> u32" where
  "asn_search t v =
     (let i = Search (length (at_ranges t)) (\<lambda>i. v < ar_start (at_ranges t ! i))
      in if i = 0 \<or> ar_end (at_ranges t ! (i - 1)) < v then 0 else ar_asn (at_ranges t ! (i - 1)))"

definition asn_Lookup :: "ASNTable \<Rightarrow> addr \<Rightarrow> u32" where
  "asn_Lookup t ip = (case ip of V4 v \<Rightarrow> asn_search t v | _ \<Rightarrow> 0)"

text \<open>What a line announces, AS 0 and malformed lines announcing nothing.\<close>

definition announces :: "string \<Rightarrow> asnRange \<Rightarrow> bool" where
  "announces line r \<longleftrightarrow>
     (\<exists>c0 c1 c2 c3 c4 n. Split line (CHR 0x09) = [c0, c1, c2, c3, c4] \<and> ParseAddr4 c0 = Some (ar_start r) \<and>
        ParseAddr4 c1 = Some (ar_end r) \<and> ParseUint 32 c2 = Some n \<and> n \<noteq> 0 \<and> ar_asn r = of_nat n)"

definition asn_ok :: "ASNTable \<Rightarrow> bool" where
  "asn_ok t \<longleftrightarrow> disjoint_sorted ar_start ar_end (at_ranges t)"

interpretation asn: range_search ar_start ar_end at_ranges asn_ok asn_search ar_asn 0
  by unfold_locales (auto simp: asn_ok_def asn_search_def Let_def)

lemma adjacent_disjoint:
  assumes "\<forall>r \<in> set rs. lo r \<le> hi r" "\<And>i. Suc i < length rs \<Longrightarrow> hi (rs ! i) < (lo (rs ! Suc i) :: u32)"
  shows "disjoint_sorted lo hi rs"
proof -
  have "hi (rs ! i) < lo (rs ! j)" if "i < j" "j < length rs" for i j
    using that
  proof (induction j)
    case (Suc j)
    show ?case
    proof (cases "i = j")
      case True
      with Suc.prems assms(2) [of j] show ?thesis by simp
    next
      case False
      with Suc have "hi (rs ! i) < lo (rs ! j)" by simp
      also have "\<dots> \<le> hi (rs ! j)" using assms(1) Suc.prems by simp
      also have "\<dots> < lo (rs ! Suc j)" using assms(2) Suc.prems by simp
      finally show ?thesis .
    qed
  qed simp
  with assms(1) show ?thesis by (simp add: disjoint_sorted_def)
qed

lemma checkDisjoint_iff:
  "checkDisjoint rs \<longleftrightarrow> (\<forall>i. Suc i < length rs \<longrightarrow> ar_end (rs ! i) < ar_start (rs ! Suc i))"
  by (induction rs rule: checkDisjoint.induct) (auto simp: nth_Cons not_le less_Suc_eq_0_disj split: nat.splits)

lemma asn_addLine_ranges:
  "asn_addLine l t = Inr t' \<Longrightarrow>
     set (at_ranges t') = set (at_ranges t) \<union> {r. announces l r} \<and>
     (\<forall>r. announces l r \<longrightarrow> ar_start r \<le> ar_end r)"
  by (auto simp: asn_addLine_def announces_def split: list.splits option.splits if_splits)

lemma asn_lines_ranges:
  "asn_lines n ls t = Inr t' \<Longrightarrow>
     set (at_ranges t') = set (at_ranges t) \<union> {r. \<exists>l \<in> set ls. announces l r} \<and>
     (\<forall>l \<in> set ls. \<forall>r. announces l r \<longrightarrow> ar_start r \<le> ar_end r)"
proof (induction ls arbitrary: n t)
  case (Cons l ls)
  then obtain t1 where "asn_addLine l t = Inr t1" "asn_lines (n + 1) ls t1 = Inr t'"
    by (auto split: sum.splits)
  with Cons.IH [of "n + 1" t1] asn_addLine_ranges [of l t t1] show ?case by auto
qed simp

lemma ParseASNTable_ok:
  assumes "ParseASNTable scan = Inr t"
  shows "asn_ok t" "set (at_ranges t) = {r. \<exists>l \<in> set (fst scan). announces l r}"
proof -
  obtain t0 where t0: "asn_lines 1 (fst scan) \<lparr>at_ranges = [], at_names = (\<lambda>_. None)\<rparr> = Inr t0"
    and t: "t = t0\<lparr>at_ranges := sort_key ar_start (at_ranges t0)\<rparr>" "checkDisjoint (at_ranges t)"
    using assms by (auto simp: ParseASNTable_def Let_def split: sum.splits if_splits)
  from asn_lines_ranges [OF t0]
  have set: "set (at_ranges t) = {r. \<exists>l \<in> set (fst scan). announces l r}"
    and wf: "\<forall>r \<in> set (at_ranges t). ar_start r \<le> ar_end r" by (auto simp: t(1))
  show "set (at_ranges t) = {r. \<exists>l \<in> set (fst scan). announces l r}" by (rule set)
  show "asn_ok t" unfolding asn_ok_def
    using wf t(2) by (intro adjacent_disjoint) (auto simp: checkDisjoint_iff)
qed

section \<open>The country table (geo.go)\<close>

record geoRange =
  gr_start :: u32
  gr_end :: u32
  gr_country :: "char \<times> char"

record GeoTable =
  gt_ranges :: "geoRange list"

datatype geo_error = ErrNotIPv4Network | ErrNotCountry | GeoPanic

datatype geo_table_error = ErrGeoHeader | ErrGeoRead | ErrGeoRecord nat geo_error | ErrNoNetworks | ErrGeoOverlap

definition is_upper :: "char \<Rightarrow> bool" where
  "is_upper c \<longleftrightarrow> 65 \<le> (of_char c :: nat) \<and> (of_char c :: nat) \<le> 90"

definition isCountryCode :: "string \<Rightarrow> bool" where
  "isCountryCode s \<longleftrightarrow> (case s of [a, b] \<Rightarrow> is_upper a \<and> is_upper b | _ \<Rightarrow> False)"

definition geo_add :: "string \<Rightarrow> string \<Rightarrow> GeoTable \<Rightarrow> geo_error + GeoTable" where
  "geo_add network country t =
     (if Contains_char network (CHR '':'') then Inr t
      else (case parseNetwork network of
              None \<Rightarrow> Inl ErrNotIPv4Network
            | Some p \<Rightarrow>
                if \<not> Is4 (Addr p) then Inl ErrNotIPv4Network
                else if country = [] then Inr t
                else if \<not> isCountryCode country then Inl ErrNotCountry
                else (case Addr (Masked p) of
                        V4 start \<Rightarrow>
                          Inr (t\<lparr>gt_ranges := gt_ranges t @
                            [\<lparr>gr_start = start, gr_end = start OR (push_bit (nat (32 - Bits p)) 1 - 1),
                              gr_country = (country ! 0, country ! 1)\<rparr>]\<rparr>)
                      | _ \<Rightarrow> Inl GeoPanic)))"

text \<open>A record has the header's eight columns (\<open>FieldsPerRecord\<close>); the reader's other errors are
  the flag. Only the network and the country code are read.\<close>

fun geo_records :: "nat \<Rightarrow> string list list \<Rightarrow> GeoTable \<Rightarrow> geo_table_error + GeoTable" where
  "geo_records n [] t = Inr t"
| "geo_records n (rec # recs) t =
     (if length rec \<noteq> 8 then Inl ErrGeoRead
      else (case geo_add (rec ! 0) (rec ! 2) t of
              Inl e \<Rightarrow> Inl (ErrGeoRecord n e)
            | Inr t' \<Rightarrow> geo_records (n + 1) recs t'))"

fun geo_disjoint :: "geoRange list \<Rightarrow> bool" where
  "geo_disjoint (prev # cur # rs) = (\<not> gr_start cur \<le> gr_end prev \<and> geo_disjoint (cur # rs))"
| "geo_disjoint _ = True"

definition ParseGeoTable :: "bool \<times> string list list \<times> bool \<Rightarrow> geo_table_error + GeoTable" where
  "ParseGeoTable csv =
     (case csv of (header_ok, recs, failed) \<Rightarrow>
        if \<not> header_ok then Inl ErrGeoHeader
        else (case geo_records 2 recs \<lparr>gt_ranges = []\<rparr> of
                Inl e \<Rightarrow> Inl e
              | Inr t \<Rightarrow>
                  if failed then Inl ErrGeoRead
                  else if gt_ranges t = [] then Inl ErrNoNetworks
                  else (let rs = sort_key gr_start (gt_ranges t)
                        in if geo_disjoint rs then Inr \<lparr>gt_ranges = rs\<rparr> else Inl ErrGeoOverlap)))"

definition geo_search :: "GeoTable \<Rightarrow> u32 \<Rightarrow> string" where
  "geo_search t v =
     (let i = Search (length (gt_ranges t)) (\<lambda>i. v < gr_start (gt_ranges t ! i))
      in if i = 0 \<or> gr_end (gt_ranges t ! (i - 1)) < v then []
         else (case gr_country (gt_ranges t ! (i - 1)) of (a, b) \<Rightarrow> [a, b]))"

definition geo_Lookup :: "GeoTable \<Rightarrow> addr \<Rightarrow> string" where
  "geo_Lookup t ip = (case ip of V4 v \<Rightarrow> geo_search t v | _ \<Rightarrow> [])"

definition geo_ok :: "GeoTable \<Rightarrow> bool" where
  "geo_ok t \<longleftrightarrow> disjoint_sorted gr_start gr_end (gt_ranges t)"

interpretation geo: range_search gr_start gr_end gt_ranges geo_ok geo_search
  "\<lambda>r. case gr_country r of (a, b) \<Rightarrow> [a, b]" "[]"
  by unfold_locales (auto simp: geo_ok_def geo_search_def Let_def)

text \<open>A record that places a network in a country.\<close>

definition places :: "string list \<Rightarrow> prefix \<Rightarrow> string \<Rightarrow> bool" where
  "places rec p c \<longleftrightarrow> \<not> Contains_char (rec ! 0) (CHR '':'') \<and> parseNetwork (rec ! 0) = Some p \<and> c = rec ! 2 \<and> c \<noteq> []"

lemma geo_disjoint_iff:
  "geo_disjoint rs \<longleftrightarrow> (\<forall>i. Suc i < length rs \<longrightarrow> gr_end (rs ! i) < gr_start (rs ! Suc i))"
  by (induction rs rule: geo_disjoint.induct) (auto simp: nth_Cons not_le less_Suc_eq_0_disj split: nat.splits)

definition geo_range_of :: "geoRange \<Rightarrow> prefix \<Rightarrow> string \<Rightarrow> bool" where
  "geo_range_of r p c \<longleftrightarrow> (\<forall>v. in_range gr_start gr_end v r \<longleftrightarrow> Contains p (V4 v)) \<and>
     gr_start r \<le> gr_end r \<and> c = (case gr_country r of (a, b) \<Rightarrow> [a, b])"

lemma geo_add_cases:
  assumes "geo_add (rec ! 0) (rec ! 2) t = Inr t'"
  shows "t' = t \<and> (\<forall>p c. \<not> places rec p c) \<or>
    (\<exists>r p c. gt_ranges t' = gt_ranges t @ [r] \<and> places rec p c \<and> geo_range_of r p c)"
proof (cases "Contains_char (rec ! 0) (CHR '':'') \<or> rec ! 2 = []")
  case True
  with assms show ?thesis by (auto simp: geo_add_def places_def split: option.splits if_splits)
next
  case False
  then obtain p where p: "parseNetwork (rec ! 0) = Some p" and cc: "isCountryCode (rec ! 2)"
    using assms by (auto simp: geo_add_def split: option.splits if_splits)
  obtain x y where xy: "rec ! 2 = [x, y]" using cc by (auto simp: isCountryCode_def split: list.splits)
  obtain a n where pa: "p = Prefix (V4 a) n" and n: "n \<le> 32" using parseNetwork_shape [OF p] by blast
  let ?r = "\<lparr>gr_start = low_addr n a, gr_end = high_addr n a, gr_country = (x, y)\<rparr>"
  have "gt_ranges t' = gt_ranges t @ [?r]"
    using assms False p n
    by (auto simp: geo_add_def pa xy low_addr_def high_addr_def nat_diff_distrib split: if_splits)
  moreover have "places rec p [x, y]" using False p by (simp add: places_def xy)
  moreover have "geo_range_of ?r p [x, y]"
    by (simp add: geo_range_of_def pa Contains_interval [OF n] in_range_def low_high del: Contains.simps)
  ultimately show ?thesis by blast
qed

lemma places_unique: "places rec p c \<Longrightarrow> places rec p' c' \<Longrightarrow> p' = p \<and> c' = c"
  by (simp add: places_def)

lemma geo_records_ranges:
  assumes "geo_records n recs t = Inr t'"
  shows "(\<forall>r \<in> set (gt_ranges t'). r \<in> set (gt_ranges t) \<or> (\<exists>rec \<in> set recs. \<exists>p c. places rec p c \<and> geo_range_of r p c)) \<and>
    (\<forall>rec \<in> set recs. \<forall>p c. places rec p c \<longrightarrow> (\<exists>r \<in> set (gt_ranges t'). geo_range_of r p c)) \<and>
    set (gt_ranges t) \<subseteq> set (gt_ranges t')"
  using assms
proof (induction recs arbitrary: n t)
  case (Cons rec recs)
  then obtain t1 where t1: "geo_add (rec ! 0) (rec ! 2) t = Inr t1" "geo_records (n + 1) recs t1 = Inr t'"
    by (auto split: sum.splits if_splits)
  note IH = Cons.IH [OF t1(2)]
  from geo_add_cases [OF t1(1)] show ?case
  proof
    assume "t1 = t \<and> (\<forall>p c. \<not> places rec p c)"
    with IH show ?thesis by auto
  next
    assume "\<exists>r p c. gt_ranges t1 = gt_ranges t @ [r] \<and> places rec p c \<and> geo_range_of r p c"
    then obtain r p c where r: "gt_ranges t1 = gt_ranges t @ [r]" "places rec p c" "geo_range_of r p c" by blast
    have "\<exists>r \<in> set (gt_ranges t'). geo_range_of r p' c'" if "places rec p' c'" for p' c'
      using places_unique [OF r(2) that] r(1,3) IH by auto
    moreover have "r' \<in> set (gt_ranges t) \<or> (\<exists>rec' \<in> set (rec # recs). \<exists>p c. places rec' p c \<and> geo_range_of r' p c)"
      if r': "r' \<in> set (gt_ranges t')" for r'
    proof (cases "r' = r")
      case True
      with r show ?thesis by auto
    next
      case False
      from IH r' have "r' \<in> set (gt_ranges t1) \<or> (\<exists>rec \<in> set recs. \<exists>p c. places rec p c \<and> geo_range_of r' p c)"
        by blast
      with False show ?thesis by (simp add: r(1)) blast
    qed
    moreover have "set (gt_ranges t) \<subseteq> set (gt_ranges t')" using IH r(1) by simp
    ultimately show ?thesis using IH by auto
  qed
qed simp

lemma ParseGeoTable_ok:
  assumes "ParseGeoTable (ok, recs, failed) = Inr t"
  shows "geo_ok t"
    "\<And>r. r \<in> set (gt_ranges t) \<Longrightarrow> \<exists>rec \<in> set recs. \<exists>p c. places rec p c \<and> geo_range_of r p c"
    "\<And>rec p c. rec \<in> set recs \<Longrightarrow> places rec p c \<Longrightarrow> \<exists>r \<in> set (gt_ranges t). geo_range_of r p c"
proof -
  obtain t0 where t0: "geo_records 2 recs \<lparr>gt_ranges = []\<rparr> = Inr t0"
    and t: "t = \<lparr>gt_ranges = sort_key gr_start (gt_ranges t0)\<rparr>" "geo_disjoint (gt_ranges t)"
    using assms by (auto simp: ParseGeoTable_def Let_def split: sum.splits if_splits)
  have set: "set (gt_ranges t) = set (gt_ranges t0)" by (simp add: t(1))
  note R = geo_records_ranges [OF t0]
  show src: "\<exists>rec \<in> set recs. \<exists>p c. places rec p c \<and> geo_range_of r p c" if "r \<in> set (gt_ranges t)" for r
    using R that by (simp add: set)
  show "\<exists>r \<in> set (gt_ranges t). geo_range_of r p c" if "rec \<in> set recs" "places rec p c" for rec p c
    using R that by (simp add: set)
  have "\<forall>r \<in> set (gt_ranges t). gr_start r \<le> gr_end r" using src unfolding geo_range_of_def by blast
  then show "geo_ok t" unfolding geo_ok_def
    using t(2) by (intro adjacent_disjoint) (auto simp: geo_disjoint_iff)
qed

section \<open>Anonymity lists (anonymity.go)\<close>

record AnonymityLists =
  al_Tor :: "IPSet option"
  al_VPN :: "IPSet option"
  al_Hosting :: "IPSet option"

datatype anonymity = AnonymityTor | AnonymityVPN | AnonymityHosting

definition anonymity_Classify :: "AnonymityLists \<Rightarrow> addr \<Rightarrow> anonymity option" where
  "anonymity_Classify l ip =
     (if IPSet_Contains (al_Tor l) ip then Some AnonymityTor
      else if IPSet_Contains (al_VPN l) ip then Some AnonymityVPN
      else if IPSet_Contains (al_Hosting l) ip then Some AnonymityHosting
      else None)"

section \<open>Properties\<close>

text \<open>C24. A parsed address list answers exactly what its lines say: it holds an IPv4 address precisely
  when some line that is not a comment, blank or IPv6 states a network containing it, however the
  networks overlap, touch or are ordered, and although the ranges are merged inside one shared array.\<close>

theorem ipset_contains_iff:
  assumes "ParseIPSet (ls, failed) = Inr s"
  shows "IPSet_Contains (Some s) ip \<longleftrightarrow>
    (\<exists>v l p. ip = V4 v \<and> l \<in> set ls \<and> \<not> skipped_line l \<and> parseNetwork (TrimSpace l) = Some p \<and> Contains p ip)"
proof (cases ip)
  case (V4 v)
  with ParseIPSet_ok [OF assms] search4_covers [of s v] show ?thesis
    by (auto simp: IPSet_Contains_def)
qed (simp_all add: IPSet_Contains_def)

lemma ipset_example:
  "ParseIPSet ([''10.0.0.0/31'', ''# tor'', ''10.0.0.1'', '' 10.0.0.2''], False) =
     Inr \<lparr>is_ranges = [\<lparr>rg_start = 0x0A000000, rg_end = 0x0A000002\<rparr>]\<rparr>"
  by code_simp

theorem ipset_contains_iff_witness:
  "\<exists>s. ParseIPSet ([''10.0.0.0/31'', ''# tor'', ''10.0.0.1'', '' 10.0.0.2''], False) = Inr s \<and>
     IPSet_Contains (Some s) (V4 0x0A000002) \<and>
     (\<exists>l \<in> set [''10.0.0.0/31'', ''# tor'', ''10.0.0.1'', '' 10.0.0.2'']. \<exists>p.
        parseNetwork (TrimSpace l) = Some p \<and> Contains p (V4 0x0A000002))"
proof -
  let ?s = "\<lparr>is_ranges = [\<lparr>rg_start = 0x0A000000, rg_end = 0x0A000002\<rparr>]\<rparr>"
  have "IPSet_Contains (Some ?s) (V4 0x0A000002)" by code_simp
  with ipset_contains_iff [OF ipset_example, of "V4 0x0A000002"] ipset_example show ?thesis by blast
qed

text \<open>Parsing a list never panics and never loses a line silently: it succeeds exactly when the
  scanner read everything, every line is skippable or states an IPv4 network, and at least one does.\<close>

theorem ipset_parse_total:
  "((\<exists>s. ParseIPSet (ls, failed) = Inr s) \<longleftrightarrow>
     \<not> failed \<and> filter (\<lambda>l. \<not> skipped_line l \<and> parseNetwork (TrimSpace l) = None) ls = [] \<and>
     filter (\<lambda>l. \<not> skipped_line l) ls \<noteq> []) \<and>
   ParseIPSet (ls, failed) \<noteq> Inl IPSetPanic"
proof -
  let ?bad = "find (\<lambda>i. line_range (ls ! i) = None) (filter (\<lambda>i. \<not> skipped_line (ls ! i)) [0..<length ls])"
  have none: "line_range l = None \<longleftrightarrow> parseNetwork (TrimSpace l) = None" for l
    using line_range_Some_iff [of l] by (cases "line_range l"; cases "parseNetwork (TrimSpace l)") auto
  have "?bad = None \<longleftrightarrow> (\<forall>i < length ls. \<not> skipped_line (ls ! i) \<longrightarrow> line_range (ls ! i) \<noteq> None)"
    by (auto simp: find_None_iff)
  also have "\<dots> \<longleftrightarrow> filter (\<lambda>l. \<not> skipped_line l \<and> parseNetwork (TrimSpace l) = None) ls = []"
    unfolding none filter_empty_conv by (auto simp: all_set_conv_all_nth)
  finally have bad: "?bad = None \<longleftrightarrow> filter (\<lambda>l. \<not> skipped_line l \<and> parseNetwork (TrimSpace l) = None) ls = []" .
  have "(\<exists>s. ParseIPSet (ls, failed) = Inr s) \<longleftrightarrow> \<not> failed \<and> ?bad = None \<and> filter (\<lambda>l. \<not> skipped_line l) ls \<noteq> []"
    unfolding ParseIPSet_def ipset_lines_eq by (cases ?bad) simp_all
  moreover have "ParseIPSet (ls, failed) \<noteq> Inl IPSetPanic"
    unfolding ParseIPSet_def ipset_lines_eq by (cases ?bad) simp_all
  ultimately show ?thesis unfolding bad by blast
qed

theorem ipset_parse_total_witness:
  "\<exists>s. ParseIPSet ([''10.0.0.0/31'', ''# tor''], False) = Inr s"
proof -
  have "skipped_line ''# tor''" "\<not> skipped_line ''10.0.0.0/31''"
    "parseNetwork (TrimSpace ''10.0.0.0/31'') = Some (Prefix (V4 0x0A000000) 31)" by code_simp+
  then show ?thesis using ipset_parse_total [of "[''10.0.0.0/31'', ''# tor'']" False] by simp
qed

text \<open>A parsed AS table looks an address up to the AS of the line whose range holds it, to 0 when
  no line announces it, and no table is ever accepted in which the answer would depend on the line
  chosen: two announced ranges of an accepted table that hold one address are the same range.\<close>

theorem asn_lookup_correct:
  assumes "ParseASNTable (ls, failed) = Inr t"
  shows "(\<forall>l \<in> set ls. \<forall>r. announces l r \<longrightarrow> ar_start r \<le> v \<longrightarrow> v \<le> ar_end r \<longrightarrow> asn_Lookup t (V4 v) = ar_asn r) \<and>
    ((\<forall>l \<in> set ls. \<forall>r. announces l r \<longrightarrow> \<not> (ar_start r \<le> v \<and> v \<le> ar_end r)) \<longrightarrow> asn_Lookup t (V4 v) = 0) \<and>
    \<not> failed"
proof -
  note ok = ParseASNTable_ok [OF assms]
  have "asn_Lookup t (V4 v) = ar_asn r" if "l \<in> set ls" "announces l r" "ar_start r \<le> v" "v \<le> ar_end r" for l r
    using asn.lookup_hit [OF ok(1), of r v] that by (auto simp: asn_Lookup_def ok(2) in_range_def)
  moreover have "asn_Lookup t (V4 v) = 0"
    if "\<forall>l \<in> set ls. \<forall>r. announces l r \<longrightarrow> \<not> (ar_start r \<le> v \<and> v \<le> ar_end r)"
    using asn.lookup_miss [OF ok(1), of v] that by (auto simp: asn_Lookup_def ok(2) in_range_def)
  moreover have "\<not> failed" using assms by (auto simp: ParseASNTable_def split: sum.splits)
  ultimately show ?thesis by blast
qed

definition asn_sample :: "string list" where
  "asn_sample = [''8.8.8.0'' @ [CHR 0x09] @ ''8.8.8.255'' @ [CHR 0x09] @ ''15169'' @ [CHR 0x09] @ ''US'' @ [CHR 0x09] @ ''GOOGLE'',
     ''1.0.0.0'' @ [CHR 0x09] @ ''1.0.0.255'' @ [CHR 0x09] @ ''13335'' @ [CHR 0x09] @ ''US'' @ [CHR 0x09] @ ''CLOUDFLARENET'']"

theorem asn_lookup_correct_witness:
  "\<exists>t. ParseASNTable (asn_sample, False) = Inr t \<and> asn_Lookup t (V4 0x08080808) = 15169"
proof -
  have ok: "case ParseASNTable (asn_sample, False) of Inl _ \<Rightarrow> False | Inr t \<Rightarrow> True" by code_simp
  then obtain t where t: "ParseASNTable (asn_sample, False) = Inr t" by (auto split: sum.splits)
  let ?r = "\<lparr>ar_start = 0x08080800, ar_end = 0x080808FF, ar_asn = 15169\<rparr>"
  have a: "ParseAddr4 ''8.8.8.0'' = Some 0x08080800" "ParseAddr4 ''8.8.8.255'' = Some 0x080808FF"
    "ParseUint 32 ''15169'' = Some 15169" by code_simp+
  have s: "Split (asn_sample ! 0) (CHR 0x09) = [''8.8.8.0'', ''8.8.8.255'', ''15169'', ''US'', ''GOOGLE'']" by code_simp
  have "announces (asn_sample ! 0) ?r" unfolding announces_def using s a by force
  moreover have "asn_sample ! 0 \<in> set asn_sample" by (simp add: asn_sample_def)
  ultimately have "asn_Lookup t (V4 0x08080808) = 15169"
    using asn_lookup_correct [OF t, of "0x08080808"] by force
  with t show ?thesis by blast
qed

text \<open>A parsed country table answers the country code of the record whose network holds the address
  and the empty string when no record with a country does; an accepted table has no two records whose
  networks overlap with different countries.\<close>

theorem geo_lookup_correct:
  assumes "ParseGeoTable (ok, recs, failed) = Inr t"
  shows "(\<forall>rec \<in> set recs. \<forall>p c. places rec p c \<longrightarrow> Contains p (V4 v) \<longrightarrow> geo_Lookup t (V4 v) = c) \<and>
    ((\<forall>rec \<in> set recs. \<forall>p c. places rec p c \<longrightarrow> \<not> Contains p (V4 v)) \<longrightarrow> geo_Lookup t (V4 v) = [])"
proof -
  note g = ParseGeoTable_ok [OF assms]
  have "geo_Lookup t (V4 v) = c" if h: "rec \<in> set recs" "places rec p c" "Contains p (V4 v)" for rec p c
  proof -
    obtain r where "r \<in> set (gt_ranges t)" "geo_range_of r p c" using g(3) [OF h(1,2)] by blast
    with geo.lookup_hit [OF g(1), of r v] h(3) show ?thesis by (simp add: geo_Lookup_def geo_range_of_def)
  qed
  moreover have "geo_Lookup t (V4 v) = []"
    if none: "\<forall>rec \<in> set recs. \<forall>p c. places rec p c \<longrightarrow> \<not> Contains p (V4 v)"
  proof -
    have "\<not> in_range gr_start gr_end v r" if "r \<in> set (gt_ranges t)" for r
      using g(2) [OF that] none unfolding geo_range_of_def by blast
    then show ?thesis using geo.lookup_miss [OF g(1), of v] by (simp add: geo_Lookup_def)
  qed
  ultimately show ?thesis by blast
qed

theorem geo_lookup_correct_witness:
  "\<exists>t. ParseGeoTable (True, [[''10.1.0.0/16'', [], ''ID'', [], [], [], [], []],
      [''2001:db8::/32'', [], ''US'', [], [], [], [], []]], False) = Inr t \<and>
     geo_Lookup t (V4 0x0A01FFFF) = ''ID''"
proof -
  let ?recs = "[[''10.1.0.0/16'', [], ''ID'', [], [], [], [], []],
      [''2001:db8::/32'', [], ''US'', [], [], [], [], []]]"
  have "case ParseGeoTable (True, ?recs, False) of Inl _ \<Rightarrow> False | Inr t \<Rightarrow> True" by code_simp
  then obtain t where t: "ParseGeoTable (True, ?recs, False) = Inr t" by (auto split: sum.splits)
  have "parseNetwork ''10.1.0.0/16'' = Some (Prefix (V4 0x0A010000) 16)"
    "\<not> Contains_char ''10.1.0.0/16'' (CHR '':'')" by code_simp+
  then have pl: "places (?recs ! 0) (Prefix (V4 0x0A010000) 16) ''ID''" by (simp add: places_def)
  have c: "Contains (Prefix (V4 0x0A010000) 16) (V4 0x0A01FFFF)" by code_simp
  have "?recs ! 0 \<in> set ?recs" by (simp del: set_simps) simp
  from geo_lookup_correct [OF t, THEN conjunct1, rule_format, OF this pl c]
  have "geo_Lookup t (V4 0x0A01FFFF) = ''ID''" .
  with t show ?thesis by blast
qed

end
