(* ===== verification/Ipfix.thy ===== *)
theory Ipfix
  imports NetAddr
begin

text \<open>
  IPFIX decoding (\<open>netflow/ipfix.go\<close>, \<open>netflow/ipfix_template.go\<close>): one message updates the
  exporter's template table and yields flows. Counters and lengths have Go's widths; the
  conversion of a slice to \<open>[4]byte\<close> panics on any other length, and a panic anywhere is
  the value \<open>None\<close>. Every loop of the decoder is total here: the termination proofs are the proofs
  that the loops end.
\<close>

section \<open>Constants and data\<close>

definition MaxTemplatesPerExporter :: nat where "MaxTemplatesPerExporter = 256"
definition ipfixVersion :: u16 where "ipfixVersion = 10"
definition messageHeaderLen :: nat where "messageHeaderLen = 16"
definition setHeaderLen :: nat where "setHeaderLen = 4"
definition templateSetID :: u16 where "templateSetID = 2"
definition optionsSetID :: u16 where "optionsSetID = 3"
definition minDataSetID :: u16 where "minDataSetID = 256"

definition ieOctetDeltaCount :: u16 where "ieOctetDeltaCount = 1"
definition iePacketDeltaCount :: u16 where "iePacketDeltaCount = 2"
definition ieSourceIPv4Address :: u16 where "ieSourceIPv4Address = 8"
definition ieIngressInterface :: u16 where "ieIngressInterface = 10"
definition ieDestinationIPv4Address :: u16 where "ieDestinationIPv4Address = 12"
definition ieEgressInterface :: u16 where "ieEgressInterface = 14"

definition enterpriseBit :: u16 where "enterpriseBit = 0x8000"
definition variableLength :: u16 where "variableLength = 0xFFFF"
definition longVarLenMarker :: byte where "longVarLenMarker = 255"
definition fieldSpecLen :: nat where "fieldSpecLen = 4"
definition enterpriseLen :: nat where "enterpriseLen = 4"

lemmas ie_defs =
  ieOctetDeltaCount_def iePacketDeltaCount_def ieSourceIPv4Address_def ieIngressInterface_def
  ieDestinationIPv4Address_def ieEgressInterface_def

lemmas len_defs = messageHeaderLen_def setHeaderLen_def fieldSpecLen_def enterpriseLen_def

record Flow =
  fl_Src :: addr
  fl_Dst :: addr
  fl_Ingress :: u32
  fl_Egress :: u32
  fl_Bytes :: u64
  fl_Packets :: u64

definition zero_flow :: Flow where
  "zero_flow = \<lparr>fl_Src = NoAddr, fl_Dst = NoAddr, fl_Ingress = 0, fl_Egress = 0, fl_Bytes = 0, fl_Packets = 0\<rparr>"

record Result =
  res_Flows :: "Flow list"
  res_MissingTemplate :: nat
  res_RejectedTemplates :: nat

definition zero_result :: Result where
  "zero_result = \<lparr>res_Flows = [], res_MissingTemplate = 0, res_RejectedTemplates = 0\<rparr>"

record templateKey =
  tk_domain :: u32
  tk_id :: u16

record templateField =
  tf_id :: u16
  tf_length :: u16

record ipfix_template =
  tm_fields :: "templateField list"
  tm_usable :: bool

type_synonym Templates = "templateKey \<Rightarrow> ipfix_template option"

definition NewTemplates :: Templates where
  "NewTemplates = (\<lambda>_. None)"

datatype decode_error = ErrNotIPFIX | ErrTruncated

text \<open>\<open>binary.BigEndian\<close>; every use in the code is guarded, so the out-of-range panic is not modelled
  but proved absent by the lengths the callers check.\<close>

definition be16 :: "bytes \<Rightarrow> u16" where
  "be16 b = push_bit 8 (ucast (b ! 0)) OR ucast (b ! 1)"

definition be32 :: "bytes \<Rightarrow> u32" where
  "be32 b = push_bit 24 (ucast (b ! 0)) OR push_bit 16 (ucast (b ! 1)) OR push_bit 8 (ucast (b ! 2)) OR ucast (b ! 3)"

definition beUint :: "bytes \<Rightarrow> u64" where
  "beUint v = foldl (\<lambda>n b. push_bit 8 n OR ucast b) 0 v"

text \<open>\<open>netip.AddrFrom4([4]byte(v))\<close>: the conversion panics unless there are four bytes.\<close>

definition AddrFrom4 :: "bytes \<Rightarrow> addr option" where
  "AddrFrom4 v = (if length v = 4 then Some (V4 (be32 v)) else None)"

section \<open>Templates\<close>

fun fields_loop :: "bytes \<Rightarrow> nat \<Rightarrow> nat \<Rightarrow> templateField list \<Rightarrow> (templateField list \<times> nat) option" where
  "fields_loop b 0 off flds = Some (flds, off)"
| "fields_loop b (Suc i) off flds =
     (if off + fieldSpecLen > length b then None
      else let id = be16 (drop off b); len = be16 (drop (off + 2) b);
               off = off + fieldSpecLen;
               (off, id) = (if id AND enterpriseBit \<noteq> 0 then (off + enterpriseLen, 0) else (off, id))
           in if len = 0 \<or> off > length b then None
              else fields_loop b i off (flds @ [\<lparr>tf_id = id, tf_length = len\<rparr>]))"

definition readFields :: "bytes \<Rightarrow> nat \<Rightarrow> (templateField list \<times> nat) option" where
  "readFields b count = (if count * fieldSpecLen > length b then None else fields_loop b count 0 [])"

definition lengthValid :: "templateField \<Rightarrow> bool" where
  "lengthValid f =
     (if tf_id f = ieSourceIPv4Address \<or> tf_id f = ieDestinationIPv4Address then tf_length f = 4
      else if tf_id f = ieOctetDeltaCount \<or> tf_id f = iePacketDeltaCount then tf_length f \<le> 8
      else if tf_id f = ieIngressInterface \<or> tf_id f = ieEgressInterface then tf_length f \<le> 4
      else True)"

definition newTemplate :: "templateField list \<Rightarrow> bool \<Rightarrow> ipfix_template option" where
  "newTemplate flds data =
     (if \<not> list_all lengthValid flds then None
      else let seen = tf_id ` set flds
           in Some \<lparr>tm_fields = flds,
                    tm_usable = (data \<and> ieSourceIPv4Address \<in> seen \<and> ieDestinationIPv4Address \<in> seen \<and>
                                 ieOctetDeltaCount \<in> seen)\<rparr>)"

definition reject_template :: "Result \<Rightarrow> Result" where
  "reject_template res = res\<lparr>res_RejectedTemplates := res_RejectedTemplates res + 1\<rparr>"

definition store ::
  "templateKey \<Rightarrow> templateField list \<Rightarrow> bool \<Rightarrow> Templates \<Rightarrow> Result \<Rightarrow> Templates \<times> Result" where
  "store key flds data t res =
     (if flds = [] then (t(key := None), res)
      else (case newTemplate flds data of
              None \<Rightarrow> (t(key := None), reject_template res)
            | Some tmpl \<Rightarrow>
                if t key = None \<and> card (dom t) \<ge> MaxTemplatesPerExporter then (t, reject_template res)
                else (t(key \<mapsto> tmpl), res)))"

function learnTemplates ::
  "u32 \<Rightarrow> bytes \<Rightarrow> bool \<Rightarrow> Templates \<Rightarrow> Result \<Rightarrow> Templates \<times> Result" where
  "learnTemplates domain body options t res =
     (let header = (if options then 6 else 4)
      in if length body \<ge> header then
           (let id = be16 body
            in if id < minDataSetID then (t, res)
               else (case readFields (drop header body) (unat (be16 (drop 2 body))) of
                       None \<Rightarrow> (t, reject_template res)
                     | Some (flds, used) \<Rightarrow>
                         (case store \<lparr>tk_domain = domain, tk_id = id\<rparr> flds (\<not> options) t res of
                            (t', res') \<Rightarrow>
                              learnTemplates domain (drop (header + used) body) options t' res')))
         else (t, res))"
  by pat_completeness auto
termination
  by (relation "measure (\<lambda>(domain, body, options, t, res). length body)") (auto split: if_splits)

declare learnTemplates.simps [simp del]

section \<open>Records\<close>

definition fieldLength :: "templateField \<Rightarrow> bytes \<Rightarrow> (nat \<times> nat) option" where
  "fieldLength field b =
     (if tf_length field \<noteq> variableLength then Some (unat (tf_length field), 0)
      else if length b < 1 then None
      else if b ! 0 < longVarLenMarker then Some (unat (b ! 0), 1)
      else if length b < 3 then None
      else Some (unat (be16 (drop 1 b)), 3))"

definition flow_set :: "u16 \<Rightarrow> bytes \<Rightarrow> Flow \<Rightarrow> Flow option" where
  "flow_set ie v f =
     (if ie = ieSourceIPv4Address then map_option (\<lambda>a. f\<lparr>fl_Src := a\<rparr>) (AddrFrom4 v)
      else if ie = ieDestinationIPv4Address then map_option (\<lambda>a. f\<lparr>fl_Dst := a\<rparr>) (AddrFrom4 v)
      else if ie = ieIngressInterface then Some (f\<lparr>fl_Ingress := ucast (beUint v)\<rparr>)
      else if ie = ieEgressInterface then Some (f\<lparr>fl_Egress := ucast (beUint v)\<rparr>)
      else if ie = ieOctetDeltaCount then Some (f\<lparr>fl_Bytes := beUint v\<rparr>)
      else if ie = iePacketDeltaCount then Some (f\<lparr>fl_Packets := beUint v\<rparr>)
      else Some f)"

text \<open>One record: \<open>None\<close> is a panic, \<open>Some None\<close> a record that does not fit, \<open>Some (Some (flow, used))\<close>
  the flow and the bytes it took.\<close>

fun record_loop :: "templateField list \<Rightarrow> bytes \<Rightarrow> nat \<Rightarrow> Flow \<Rightarrow> (Flow \<times> nat) option option" where
  "record_loop [] b off flow = Some (Some (flow, off))"
| "record_loop (field # flds) b off flow =
     (case fieldLength field (drop off b) of
        None \<Rightarrow> Some None
      | Some (n, header) \<Rightarrow>
          if off + header + n > length b then Some None
          else (case flow_set (tf_id field) (take n (drop (off + header) b)) flow of
                  None \<Rightarrow> None
                | Some flow' \<Rightarrow> record_loop flds b (off + header + n) flow'))"

definition decodeRecord :: "ipfix_template \<Rightarrow> bytes \<Rightarrow> (Flow \<times> nat) option option" where
  "decodeRecord tmpl b = record_loop (tm_fields tmpl) b 0 zero_flow"

text \<open>
  The loop of \<open>decodeRecords\<close>, with fuel: the code has none, and a template whose records take no
  bytes would make it run for ever (\<open>Timeout\<close>). \<open>decodeRecords_ends\<close> shows it cannot.
\<close>

datatype outcome = Flows "Flow list" | Panic | Timeout

fun records_loop :: "nat \<Rightarrow> ipfix_template \<Rightarrow> bytes \<Rightarrow> Flow list \<Rightarrow> outcome" where
  "records_loop fuel tmpl body flows =
     (if body = [] then Flows flows
      else (case fuel of
              0 \<Rightarrow> Timeout
            | Suc fuel' \<Rightarrow>
                (case decodeRecord tmpl body of
                   None \<Rightarrow> Panic
                 | Some None \<Rightarrow> Flows flows
                 | Some (Some (flow, used)) \<Rightarrow> records_loop fuel' tmpl (drop used body) (flows @ [flow]))))"

declare records_loop.simps [simp del]

definition decodeRecords :: "nat \<Rightarrow> ipfix_template \<Rightarrow> bytes \<Rightarrow> outcome" where
  "decodeRecords fuel tmpl body =
     (if \<not> tm_usable tmpl then Flows [] else records_loop fuel tmpl body [])"

section \<open>Messages\<close>

text \<open>The fuel a set's records get: one unit per byte of the set.\<close>

definition decodeData :: "templateKey \<Rightarrow> bytes \<Rightarrow> Templates \<Rightarrow> Result \<Rightarrow> Result option" where
  "decodeData key body t res =
     (case t key of
        None \<Rightarrow> Some (res\<lparr>res_MissingTemplate := res_MissingTemplate res + 1\<rparr>)
      | Some tmpl \<Rightarrow>
          (case decodeRecords (length body) tmpl body of
             Flows flows \<Rightarrow> Some (res\<lparr>res_Flows := res_Flows res @ flows\<rparr>)
           | _ \<Rightarrow> None))"

definition decodeSet ::
  "u32 \<Rightarrow> u16 \<Rightarrow> bytes \<Rightarrow> Templates \<times> Result \<Rightarrow> (Templates \<times> Result) option" where
  "decodeSet domain setID body s =
     (case s of (t, res) \<Rightarrow>
        if setID = templateSetID then Some (learnTemplates domain body False t res)
        else if setID = optionsSetID then Some (learnTemplates domain body True t res)
        else if setID \<ge> minDataSetID
             then map_option (Pair t) (decodeData \<lparr>tk_domain = domain, tk_id = setID\<rparr> body t res)
        else Some (t, res))"

function sets_loop ::
  "u32 \<Rightarrow> bytes \<Rightarrow> Templates \<times> Result \<Rightarrow> ((Templates \<times> Result) \<times> decode_error option) option" where
  "sets_loop domain rest s =
     (if rest = [] then Some (s, None)
      else if length rest < setHeaderLen then Some (s, Some ErrTruncated)
      else let setLen = unat (be16 (drop 2 rest))
           in if setLen < setHeaderLen \<or> setLen > length rest then Some (s, Some ErrTruncated)
              else (case decodeSet domain (be16 rest) (take (setLen - setHeaderLen) (drop setHeaderLen rest)) s of
                      None \<Rightarrow> None
                    | Some s' \<Rightarrow> sets_loop domain (drop setLen rest) s'))"
  by pat_completeness auto
termination
  by (relation "measure (\<lambda>(domain, rest, s). length rest)") (auto simp: setHeaderLen_def)

declare sets_loop.simps [simp del]

definition Decode ::
  "Templates \<Rightarrow> bytes \<Rightarrow> (Templates \<times> Result \<times> decode_error option) option" where
  "Decode t packet =
     (if length packet < messageHeaderLen \<or> be16 packet \<noteq> ipfixVersion then Some (t, zero_result, Some ErrNotIPFIX)
      else let len = unat (be16 (drop 2 packet))
           in if len < messageHeaderLen \<or> len > length packet then Some (t, zero_result, Some ErrTruncated)
              else map_option (\<lambda>((t', res), err). (t', res, err))
                     (sets_loop (be32 (drop 12 packet)) (drop messageHeaderLen (take len packet)) (t, zero_result)))"

section \<open>The invariant of the template table\<close>

definition template_ok :: "ipfix_template \<Rightarrow> bool" where
  "template_ok tmpl \<longleftrightarrow>
     list_all lengthValid (tm_fields tmpl) \<and> tm_fields tmpl \<noteq> [] \<and>
     (tm_usable tmpl \<longrightarrow> {ieSourceIPv4Address, ieDestinationIPv4Address, ieOctetDeltaCount} \<subseteq> tf_id ` set (tm_fields tmpl))"

definition table_ok :: "Templates \<Rightarrow> bool" where
  "table_ok t \<longleftrightarrow> finite (dom t) \<and> card (dom t) \<le> MaxTemplatesPerExporter \<and> (\<forall>tmpl \<in> ran t. template_ok tmpl)"

lemma table_ok_empty: "table_ok NewTemplates"
  by (simp add: table_ok_def NewTemplates_def)

lemma newTemplate_ok: "newTemplate flds data = Some tmpl \<Longrightarrow> flds \<noteq> [] \<Longrightarrow> template_ok tmpl"
  by (auto simp: newTemplate_def template_ok_def Let_def split: if_splits)

lemma table_ok_forget: "table_ok t \<Longrightarrow> table_ok (t(key := None))"
  by (auto simp: table_ok_def ran_def intro: order_trans [OF card_mono])

lemma table_ok_learn:
  assumes "table_ok t" "template_ok tmpl" "t key \<noteq> None \<or> card (dom t) < MaxTemplatesPerExporter"
  shows "table_ok (t(key \<mapsto> tmpl))"
proof -
  have "card (insert key (dom t)) \<le> MaxTemplatesPerExporter"
    using assms by (cases "key \<in> dom t") (auto simp: table_ok_def insert_absorb card_insert_if domIff)
  with assms show ?thesis by (auto simp: table_ok_def ran_def)
qed

lemma store_ok: "table_ok t \<Longrightarrow> store key flds data t res = (t', res') \<Longrightarrow> table_ok t'"
  by (auto simp: store_def not_le dest: newTemplate_ok intro: table_ok_forget table_ok_learn
      split: if_splits option.splits)

lemma learnTemplates_ok:
  "table_ok t \<Longrightarrow> learnTemplates domain body options t res = (t', res') \<Longrightarrow> table_ok t'"
proof (induction domain body options t res rule: learnTemplates.induct)
  case (1 domain body options t res)
  show ?case
  proof (cases "learnTemplates domain body options t res = (t, res) \<or>
      learnTemplates domain body options t res = (t, reject_template res)")
    case True
    with "1.prems" show ?thesis by auto
  next
    case False
    let ?header = "if options then 6 else (4::nat)"
    have h: "length body \<ge> ?header" and id: "\<not> be16 body < minDataSetID"
      using False by (auto simp: learnTemplates.simps [of domain body] Let_def split: if_splits)
    obtain flds used where rf: "readFields (drop ?header body) (unat (be16 (drop 2 body))) = Some (flds, used)"
      using False h id by (cases "readFields (drop ?header body) (unat (be16 (drop 2 body)))")
        (auto simp: learnTemplates.simps [of domain body] Let_def)
    obtain t1 res1 where st: "store \<lparr>tk_domain = domain, tk_id = be16 body\<rparr> flds (\<not> options) t res = (t1, res1)"
      by fastforce
    have eq: "learnTemplates domain body options t res = learnTemplates domain (drop (?header + used) body) options t1 res1"
      using h id rf st by (subst learnTemplates.simps) (simp add: Let_def)
    show ?thesis
      using "1.IH" [OF refl h refl id rf refl st [symmetric]] "1.prems" store_ok [OF _ st] eq by simp
  qed
qed

section \<open>Records make progress and never panic\<close>

lemma record_loop_cases:
  assumes "list_all lengthValid flds" "off \<le> length b"
  shows "record_loop flds b off flow = Some None \<or>
    (\<exists>flow' used. record_loop flds b off flow = Some (Some (flow', used)) \<and> used \<le> length b \<and>
       off + sum_list (map (\<lambda>f. if tf_length f = variableLength then 1 else unat (tf_length f)) flds) \<le> used)"
  using assms
proof (induction flds arbitrary: off flow)
  case (Cons f flds)
  show ?case
  proof (cases "fieldLength f (drop off b)")
    case (Some nh)
    obtain n h where nh: "nh = (n, h)" by fastforce
    show ?thesis
    proof (cases "off + h + n > length b")
      case False
      have "flow_set (tf_id f) (take n (drop (off + h) b)) flow \<noteq> None"
      proof -
        have "length (take n (drop (off + h) b)) = n" using False by simp
        moreover have "n = 4" if "tf_id f = ieSourceIPv4Address \<or> tf_id f = ieDestinationIPv4Address"
        proof -
          have "tf_length f = 4" using that Cons.prems(1) by (auto simp: lengthValid_def)
          then show ?thesis using Some by (simp add: nh fieldLength_def variableLength_def)
        qed
        ultimately show ?thesis by (auto simp: flow_set_def AddrFrom4_def)
      qed
      then obtain flow' where flow': "flow_set (tf_id f) (take n (drop (off + h) b)) flow = Some flow'" by blast
      have "(if tf_length f = variableLength then 1 else unat (tf_length f)) \<le> h + n"
        using Some by (auto simp: nh fieldLength_def split: if_splits)
      with Cons.IH [of "off + h + n" flow'] Cons.prems(1) False Some nh flow' show ?thesis by fastforce
    qed (use Some nh in simp)
  qed simp
qed simp

lemma decodeRecord_cases:
  assumes "template_ok tmpl"
  shows "decodeRecord tmpl b = Some None \<or>
    (\<exists>flow used. decodeRecord tmpl b = Some (Some (flow, used)) \<and> used \<le> length b \<and>
       sum_list (map (\<lambda>f. if tf_length f = variableLength then 1 else unat (tf_length f)) (tm_fields tmpl)) \<le> used)"
  using record_loop_cases [of "tm_fields tmpl" 0 b zero_flow] assms
  by (auto simp: decodeRecord_def template_ok_def)

lemma usable_min_length:
  assumes "template_ok tmpl" "tm_usable tmpl"
  shows "8 \<le> sum_list (map (\<lambda>f. if tf_length f = variableLength then 1 else unat (tf_length f)) (tm_fields tmpl))"
proof -
  let ?w = "\<lambda>f. if tf_length f = variableLength then 1 else unat (tf_length f)"
  obtain s d where s: "s \<in> set (tm_fields tmpl)" "tf_id s = ieSourceIPv4Address"
    and d: "d \<in> set (tm_fields tmpl)" "tf_id d = ieDestinationIPv4Address"
    using assms by (auto simp: template_ok_def)
  have "tf_length s = 4" "tf_length d = 4"
    using s d assms(1) by (auto simp: template_ok_def list_all_iff lengthValid_def)
  then have w: "?w s = 4" "?w d = 4" by (simp_all add: variableLength_def)
  have sd: "s \<noteq> d" using s d by (auto simp: ie_defs)
  have "?w s + ?w d = sum ?w {s, d}" using sd by simp
  also have "\<dots> \<le> sum ?w (set (tm_fields tmpl))" using s d by (intro sum_mono2) auto
  also have "\<dots> \<le> sum_list (map ?w (tm_fields tmpl))"
  proof -
    have "sum ?w (set xs) \<le> sum_list (map ?w xs)" for xs :: "templateField list"
      by (induction xs) (auto simp: sum.insert_if intro: le_add2 order_trans)
    then show ?thesis .
  qed
  finally show ?thesis using w by simp
qed

lemma records_loop_ends:
  assumes "template_ok tmpl" "tm_usable tmpl" "length body \<le> fuel"
  shows "\<exists>fs. records_loop fuel tmpl body flows = Flows (flows @ fs) \<and> 8 * length fs \<le> length body"
  using assms(3)
proof (induction fuel arbitrary: body flows)
  case (Suc fuel)
  show ?case
  proof (cases "body = []")
    case False
    from decodeRecord_cases [OF assms(1), of body] show ?thesis
    proof
      assume "decodeRecord tmpl body = Some None"
      with False show ?thesis by (simp add: records_loop.simps [of "Suc fuel"])
    next
      assume "\<exists>flow used. decodeRecord tmpl body = Some (Some (flow, used)) \<and> used \<le> length body \<and>
        sum_list (map (\<lambda>f. if tf_length f = variableLength then 1 else unat (tf_length f)) (tm_fields tmpl)) \<le> used"
      then obtain flow used where r: "decodeRecord tmpl body = Some (Some (flow, used))" "used \<le> length body" "8 \<le> used"
        using usable_min_length [OF assms(1,2)] by force
      from r Suc.prems have "length (drop used body) \<le> fuel" by simp
      from Suc.IH [OF this, of "flows @ [flow]"] obtain fs
        where fs: "records_loop fuel tmpl (drop used body) (flows @ [flow]) = Flows (flows @ [flow] @ fs)"
          "8 * length fs \<le> length (drop used body)" by auto
      then have "records_loop (Suc fuel) tmpl body flows = Flows (flows @ (flow # fs))"
        using False r by (simp add: records_loop.simps [of "Suc fuel"])
      moreover have "8 * length (flow # fs) \<le> length body" using fs r by simp
      ultimately show ?thesis by blast
    qed
  qed (simp add: records_loop.simps)
qed (simp add: records_loop.simps)


lemma decodeData_total:
  assumes "table_ok t"
  shows "\<exists>fs m. decodeData key body t res =
    Some (res\<lparr>res_Flows := res_Flows res @ fs, res_MissingTemplate := m\<rparr>) \<and> 8 * length fs \<le> length body"
proof (cases "t key")
  case None
  then have "decodeData key body t res =
      Some (res\<lparr>res_Flows := res_Flows res @ [], res_MissingTemplate := res_MissingTemplate res + 1\<rparr>)"
    by (simp add: decodeData_def)
  then show ?thesis by (intro exI) (rule conjI, assumption, simp)
next
  case (Some tmpl)
  with assms have ok: "template_ok tmpl" by (auto simp: table_ok_def ran_def)
  have "\<exists>fs. decodeRecords (length body) tmpl body = Flows fs \<and> 8 * length fs \<le> length body"
    using records_loop_ends [OF ok, of body "length body" "[]"] by (cases "tm_usable tmpl") (simp_all add: decodeRecords_def)
  then obtain fs where "decodeRecords (length body) tmpl body = Flows fs" "8 * length fs \<le> length body" by blast
  with Some have "decodeData key body t res =
      Some (res\<lparr>res_Flows := res_Flows res @ fs, res_MissingTemplate := res_MissingTemplate res\<rparr>)"
    by (simp add: decodeData_def)
  with \<open>8 * length fs \<le> length body\<close> show ?thesis by blast
qed

lemma store_flows: "store key flds data t res = (t', res') \<Longrightarrow> res_Flows res' = res_Flows res"
  by (auto simp: store_def reject_template_def split: if_splits option.splits)

lemma learnTemplates_flows:
  "learnTemplates domain body options t res = (t', res') \<Longrightarrow> res_Flows res' = res_Flows res"
proof (induction domain body options t res rule: learnTemplates.induct)
  case (1 domain body options t res)
  show ?case
    using "1.prems" "1.IH" store_flows
    by (subst (asm) learnTemplates.simps)
      (fastforce simp: Let_def reject_template_def split: if_splits option.splits prod.splits)
qed

lemma decodeSet_total:
  assumes "table_ok t"
  shows "\<exists>t' res'. decodeSet domain setID body (t, res) = Some (t', res') \<and> table_ok t' \<and>
    (\<exists>fs. res_Flows res' = res_Flows res @ fs \<and> 8 * length fs \<le> length body)"
proof -
  obtain t1 res1 where l1: "learnTemplates domain body False t res = (t1, res1)" by fastforce
  obtain t2 res2 where l2: "learnTemplates domain body True t res = (t2, res2)" by fastforce
  obtain fs m where d: "decodeData \<lparr>tk_domain = domain, tk_id = setID\<rparr> body t res =
      Some (res\<lparr>res_Flows := res_Flows res @ fs, res_MissingTemplate := m\<rparr>)" "8 * length fs \<le> length body"
    using decodeData_total [OF assms] by blast
  show ?thesis
    using learnTemplates_ok [OF assms l1] learnTemplates_ok [OF assms l2] learnTemplates_flows [OF l1]
      learnTemplates_flows [OF l2] assms d
    by (auto simp: decodeSet_def l1 l2)
qed

lemma sets_loop_total:
  assumes "table_ok (fst s)"
  shows "\<exists>t' res' err. sets_loop domain rest s = Some ((t', res'), err) \<and> table_ok t' \<and>
    (\<exists>fs. res_Flows res' = res_Flows (snd s) @ fs \<and> 8 * length fs \<le> length rest)"
  using assms
proof (induction domain rest s rule: sets_loop.induct)
  case (1 domain rest s)
  obtain t res where s: "s = (t, res)" by fastforce
  define setLen where "setLen = unat (be16 (drop 2 rest))"
  show ?case
  proof (cases "rest = [] \<or> length rest < setHeaderLen \<or> setLen < setHeaderLen \<or> setLen > length rest")
    case True
    then show ?thesis using "1.prems" unfolding s by (subst sets_loop.simps) (auto simp: Let_def setLen_def)
  next
    case False
    let ?body = "take (setLen - setHeaderLen) (drop setHeaderLen rest)"
    obtain t1 res1 fs where d: "decodeSet domain (be16 rest) ?body (t, res) = Some (t1, res1)" "table_ok t1"
      "res_Flows res1 = res_Flows res @ fs" "8 * length fs \<le> length ?body"
      using decodeSet_total [of t domain "be16 rest" ?body res] "1.prems" by (auto simp: s)
    have eq: "sets_loop domain rest s = sets_loop domain (drop setLen rest) (t1, res1)"
      using False d(1) by (subst sets_loop.simps) (simp add: s Let_def setLen_def)
    have IH: "\<exists>t' res' err. sets_loop domain (drop setLen rest) (t1, res1) = Some ((t', res'), err) \<and> table_ok t' \<and>
        (\<exists>fs. res_Flows res' = res_Flows (snd (t1, res1)) @ fs \<and> 8 * length fs \<le> length (drop setLen rest))"
      using "1.IH" [of setLen "(t1, res1)"] False d(1,2) by (simp add: s setLen_def)
    then obtain t' res' err fs' where r: "sets_loop domain (drop setLen rest) (t1, res1) = Some ((t', res'), err)"
      "table_ok t'" "res_Flows res' = res_Flows res1 @ fs'" "8 * length fs' \<le> length (drop setLen rest)" by auto
    have "8 * length (fs @ fs') \<le> length rest" using d(4) r(4) False by (simp add: setHeaderLen_def min_def split: if_splits)
    with r d(3) show ?thesis unfolding eq by (auto simp: s)
  qed
qed

section \<open>Properties\<close>



lemma records_loop_fuel:
  assumes "template_ok tmpl" "tm_usable tmpl" "length body \<le> fuel" "length body \<le> fuel'"
  shows "records_loop fuel tmpl body flows = records_loop fuel' tmpl body flows"
  using assms(3,4)
proof (induction fuel arbitrary: fuel' body flows)
  case 0
  then show ?case by (simp add: records_loop.simps [of _ tmpl "[]"])
next
  case (Suc fuel)
  show ?case
  proof (cases "body = []")
    case False
    with Suc.prems obtain fuel2 where f': "fuel' = Suc fuel2" by (cases fuel') auto
    show ?thesis
    proof (cases "\<exists>flow used. decodeRecord tmpl body = Some (Some (flow, used))")
      case True
      then obtain flow used where r: "decodeRecord tmpl body = Some (Some (flow, used))" by blast
      then have "used \<le> length body" "8 \<le> used"
        using decodeRecord_cases [OF assms(1), of body] usable_min_length [OF assms(1,2)] by auto
      then have "length (drop used body) \<le> fuel" "length (drop used body) \<le> fuel2"
        using Suc.prems by (simp_all add: f')
      from Suc.IH [OF this] r False show ?thesis
        by (simp add: f' records_loop.simps [of "Suc _" tmpl body])
    next
      case False
      then show ?thesis by (auto simp: f' records_loop.simps [of "Suc _" tmpl body] split: option.splits)
    qed
  qed (simp add: records_loop.simps)
qed

text \<open>Fuel plays no part in that: the records of a set under a learned template end after at most
  one round per byte of the set, and any larger amount of fuel gives the same flows.\<close>

theorem decode_records_terminate:
  assumes "template_ok tmpl" "length body \<le> fuel"
  shows "\<exists>fs. decodeRecords fuel tmpl body = Flows fs \<and> decodeRecords (length body) tmpl body = Flows fs"
proof (cases "tm_usable tmpl")
  case True
  from records_loop_ends [OF assms(1) True assms(2), of "[]"]
    records_loop_fuel [OF assms(1) True assms(2) order_refl, of "[]"] True
  show ?thesis by (auto simp: decodeRecords_def)
qed (simp add: decodeRecords_def)

abbreviation sample_fields :: "templateField list" where
  "sample_fields \<equiv> [\<lparr>tf_id = 8, tf_length = 4\<rparr>, \<lparr>tf_id = 0, tf_length = 0xFFFF\<rparr>, \<lparr>tf_id = 12, tf_length = 4\<rparr>,
     \<lparr>tf_id = 1, tf_length = 2\<rparr>]"

theorem decode_records_terminate_witness:
  "\<exists>fs. decodeRecords 100 \<lparr>tm_fields = sample_fields, tm_usable = True\<rparr> [1, 2, 3] = Flows fs"
proof -
  have "template_ok \<lparr>tm_fields = sample_fields, tm_usable = True\<rparr>"
    by (simp add: template_ok_def lengthValid_def ie_defs)
  from decode_records_terminate [OF this, of "[1, 2, 3]" 100] show ?thesis by auto
qed

text \<open>Announcing a template leaves under its key exactly that template's layout, or nothing: a
  withdrawal, a template with a bad length and one past the cap all leave no older layout that new data
  could be misread with. No other key changes, and a rejection is counted.\<close>

theorem store_replaces_or_forgets:
  "case store key flds data t res of (t', res') \<Rightarrow>
     t' = t(key := (if flds = [] \<or> newTemplate flds data = None \<or>
                      (t key = None \<and> card (dom t) \<ge> 256) then None else newTemplate flds data)) \<and>
     res' = res\<lparr>res_RejectedTemplates := res_RejectedTemplates res +
        (if flds \<noteq> [] \<and> (newTemplate flds data = None \<or> (t key = None \<and> card (dom t) \<ge> 256)) then 1 else 0)\<rparr>"
  by (cases "newTemplate flds data")
    (auto simp: store_def reject_template_def MaxTemplatesPerExporter_def fun_upd_idem)

text \<open>How an exporter writes a field (RFC 7011): fixed-length values as they are, variable-length ones
  behind one length byte, or behind 255 and two.\<close>

definition enc_field :: "templateField \<Rightarrow> bytes \<Rightarrow> bytes" where
  "enc_field f v =
     (if tf_length f \<noteq> variableLength then v
      else if length v < 255 then of_nat (length v) # v
      else [255, of_nat (length v div 256), of_nat (length v mod 256)] @ v)"

definition fits_field :: "templateField \<Rightarrow> bytes \<Rightarrow> bool" where
  "fits_field f v \<longleftrightarrow> (if tf_length f = variableLength then length v < 65536 else length v = unat (tf_length f))"

fun set_all :: "templateField list \<Rightarrow> bytes list \<Rightarrow> Flow \<Rightarrow> Flow option" where
  "set_all (f # fs) (v # vs) flow = Option.bind (flow_set (tf_id f) v flow) (set_all fs vs)"
| "set_all _ _ flow = Some flow"

lemma be16_bytes: "n < 65536 \<Longrightarrow> unat (be16 (of_nat (n div 256) # of_nat (n mod 256) # r)) = n"
proof -
  assume n: "n < 65536"
  have a: "unat (ucast (of_nat (n div 256) :: byte) :: u16) = n div 256"
    using n by (simp add: unsigned_ucast_eq unsigned_of_nat take_bit_nat_eq_self)
  have b: "unat (ucast (of_nat (n mod 256) :: byte) :: u16) = n mod 256"
    by (simp add: unsigned_ucast_eq unsigned_of_nat take_bit_nat_eq_self)
  have "unat (be16 (of_nat (n div 256) # of_nat (n mod 256) # r)) = push_bit 8 (n div 256) OR (n mod 256)"
  proof -
    have "unat (push_bit 8 (ucast (of_nat (n div 256) :: byte) :: u16)) = push_bit 8 (n div 256)"
      unfolding unsigned_push_bit_eq a using n by (simp add: push_bit_eq_mult take_bit_nat_eq_self)
    then show ?thesis by (simp add: be16_def unsigned_or_eq b)
  qed
  also have "\<dots> = push_bit 8 (n div 256) + n mod 256"
  proof (rule disjunctive_add_eq_or [symmetric])
    have "n mod 256 = take_bit 8 n" by (simp add: take_bit_eq_mod)
    then show "push_bit 8 (n div 256) AND n mod 256 = 0" by (auto intro!: bit_eqI simp: bit_simps)
  qed
  also have "\<dots> = n" by (simp add: push_bit_eq_mult)
  finally show ?thesis .
qed

lemma fieldLength_enc:
  assumes "fits_field f v"
  shows "\<exists>h. fieldLength f (enc_field f v @ rest) = Some (length v, h) \<and>
    length (enc_field f v) = h + length v \<and> drop h (enc_field f v) = v"
proof (cases "tf_length f = variableLength")
  case False
  with assms show ?thesis by (simp add: fits_field_def enc_field_def fieldLength_def)
next
  case var: True
  show ?thesis
  proof (cases "length v < 255")
    case True
    have "unat (of_nat (length v) :: byte) = length v" using True by (simp add: unsigned_of_nat take_bit_nat_eq_self)
    then have "(of_nat (length v) :: byte) < 255" "unat (of_nat (length v) :: byte) = length v"
      using True by (simp_all add: word_less_nat_alt)
    with var True show ?thesis by (simp add: enc_field_def fieldLength_def longVarLenMarker_def)
  next
    case False
    with var assms be16_bytes [of "length v"] show ?thesis
      by (simp add: enc_field_def fieldLength_def longVarLenMarker_def fits_field_def)
  qed
qed

lemma record_loop_enc:
  assumes "list_all2 fits_field flds vs" "off = length pre"
  shows "record_loop flds (pre @ concat (map2 enc_field flds vs) @ rest) off flow =
    map_option (\<lambda>f. Some (f, off + length (concat (map2 enc_field flds vs)))) (set_all flds vs flow)"
  using assms
proof (induction flds vs arbitrary: pre off flow rule: list_all2_induct)
  case (Cons f fs v vs)
  let ?tail = "concat (map2 enc_field fs vs) @ rest"
  obtain h where h: "fieldLength f (enc_field f v @ ?tail) = Some (length v, h)"
    "length (enc_field f v) = h + length v" "drop h (enc_field f v) = v"
    using fieldLength_enc [OF Cons.hyps(1)] by blast
  have slice: "take (length v) (drop (off + h) (pre @ enc_field f v @ ?tail)) = v"
    using h(2,3) Cons.prems by (simp add: drop_append)
  show ?case
  proof (cases "flow_set (tf_id f) v flow")
    case None
    then show ?thesis using h slice Cons.prems by (simp add: drop_append)
  next
    case (Some flow')
    with Cons.IH [of "off + h + length v" "pre @ enc_field f v" flow'] h slice Cons.prems
    show ?thesis by (simp add: drop_append add.assoc)
  qed
qed simp

text \<open>Decoding inverts exporting: for any template, any values that fit its fields and any bytes after
  them, the decoder reads exactly the record the values encode to, takes exactly its bytes, and sets the
  flow from the values in the template's order.\<close>

theorem decode_record_roundtrip:
  assumes "list_all2 fits_field (tm_fields tmpl) vs"
  shows "decodeRecord tmpl (concat (map2 enc_field (tm_fields tmpl) vs) @ rest) =
    map_option (\<lambda>f. Some (f, length (concat (map2 enc_field (tm_fields tmpl) vs)))) (set_all (tm_fields tmpl) vs zero_flow)"
  using record_loop_enc [OF assms, of 0 "[]" rest zero_flow] by (simp add: decodeRecord_def)

theorem decode_record_roundtrip_witness:
  "decodeRecord \<lparr>tm_fields = sample_fields, tm_usable = True\<rparr> ([10, 0, 0, 1, 3, 97, 98, 99, 8, 8, 8, 8, 1, 2] @ [7]) =
     Some (Some (zero_flow\<lparr>fl_Src := V4 0x0A000001, fl_Dst := V4 0x08080808, fl_Bytes := 258\<rparr>, 14))"
proof -
  have s: "set_all sample_fields [[10, 0, 0, 1], [97, 98, 99], [8, 8, 8, 8], [1, 2]] zero_flow =
      Some (zero_flow\<lparr>fl_Src := V4 0x0A000001, fl_Dst := V4 0x08080808, fl_Bytes := 258\<rparr>)" by code_simp
  have "list_all2 fits_field (tm_fields \<lparr>tm_fields = sample_fields, tm_usable = True\<rparr>)
      [[10, 0, 0, 1], [97, 98, 99], [8, 8, 8, 8], [1, 2]]"
    by (simp add: fits_field_def variableLength_def)
  from decode_record_roundtrip [OF this, of "[7]"] s show ?thesis
    by (simp add: enc_field_def variableLength_def del: set_all.simps)
qed

end
