(* ===== verification/Classify.thy ===== *)
theory Classify
  imports Ipfix
begin

text \<open>
  Placing a flow on a router's topology: the POP prefix table (\<open>netflow/prefixes.go\<close>), the
  scaling of sampled counts and the classification (\<open>netflow/classify.go\<close>). Counts are 64-bit words
  and are scaled by \<open>bits.Mul64\<close>.
\<close>

section \<open>The prefix table\<close>

record PrefixEntry =
  pe_Prefix :: prefix
  pe_InterfaceID :: uuid

record PrefixTable =
  pt_byLength :: "int \<Rightarrow> (prefix \<Rightarrow> uuid option) option"
  pt_lengths :: "int list"

definition prefix_entry_add :: "PrefixEntry \<Rightarrow> PrefixTable \<Rightarrow> PrefixTable" where
  "prefix_entry_add e t =
     (if \<not> Is4 (Addr (pe_Prefix e)) then t
      else let p = Masked (pe_Prefix e);
               (blocks, lengths) =
                 (case pt_byLength t (Bits p) of
                    Some blocks \<Rightarrow> (blocks, pt_lengths t)
                  | None \<Rightarrow> (\<lambda>_. None, pt_lengths t @ [Bits p]));
               blocks = (if blocks p = None then blocks(p \<mapsto> pe_InterfaceID e) else blocks)
           in \<lparr>pt_byLength = (pt_byLength t)(Bits p \<mapsto> blocks), pt_lengths = lengths\<rparr>)"

definition NewPrefixTable :: "PrefixEntry list \<Rightarrow> PrefixTable" where
  "NewPrefixTable entries =
     (let t = fold prefix_entry_add entries \<lparr>pt_byLength = (\<lambda>_. None), pt_lengths = []\<rparr>
      in t\<lparr>pt_lengths := rev (sort (pt_lengths t))\<rparr>)"

text \<open>\<open>Addr.Prefix\<close> with a signed length: a negative one is an error too.\<close>

definition addr_Prefix_int :: "addr \<Rightarrow> int \<Rightarrow> prefix option" where
  "addr_Prefix_int ip bits = (if bits < 0 then None else addr_Prefix ip (nat bits))"

fun lookup_lengths :: "PrefixTable \<Rightarrow> addr \<Rightarrow> int list \<Rightarrow> uuid option" where
  "lookup_lengths t ip [] = None"
| "lookup_lengths t ip (bits # ls) =
     (case addr_Prefix_int ip bits of
        None \<Rightarrow> lookup_lengths t ip ls
      | Some p \<Rightarrow>
          (case Option.bind (pt_byLength t bits) (\<lambda>blocks. blocks p) of
             Some i \<Rightarrow> Some i
           | None \<Rightarrow> lookup_lengths t ip ls))"

text \<open>\<open>None\<close> stands for \<open>(uuid.Nil, false)\<close>.\<close>

definition PrefixTable_Lookup :: "PrefixTable \<Rightarrow> addr \<Rightarrow> uuid option" where
  "PrefixTable_Lookup t ip = (if \<not> Is4 ip then None else lookup_lengths t ip (pt_lengths t))"

section \<open>Scaling and classifying\<close>

datatype direction = Download | Upload

definition MaxCount :: nat where "MaxCount = 2 ^ 52"
definition maxFlowPackets :: nat where "maxFlowPackets = MaxCount div 20"

record RouterMap =
  rm_RouterID :: uuid
  rm_Sampling :: u64
  rm_Upstreams :: "u32 \<Rightarrow> uuid option"
  rm_POPs :: PrefixTable
  rm_Own :: "prefix list"

record Classified =
  cl_POP :: uuid
  cl_Upstream :: uuid
  cl_Direction :: direction
  cl_Remote :: addr
  cl_OwnPrefix :: prefix
  cl_Bytes :: u64
  cl_Packets :: u64

definition Mul64 :: "u64 \<Rightarrow> u64 \<Rightarrow> u64 \<times> u64" where
  "Mul64 x y = (let p = (ucast x :: 128 word) * ucast y in (ucast (drop_bit 64 p), ucast p))"

definition scaled :: "u64 \<Rightarrow> u64 \<Rightarrow> u64 \<Rightarrow> u64 \<times> bool" where
  "scaled n sampling limit = (case Mul64 n sampling of (hi, lo) \<Rightarrow> (lo, hi = 0 \<and> lo \<le> limit))"

definition scale_flow :: "RouterMap \<Rightarrow> Flow \<Rightarrow> u64 \<times> u64 \<times> bool" where
  "scale_flow m f =
     (case scaled (fl_Bytes f) (rm_Sampling m) (of_nat MaxCount) of
        (bytes, bytesOK) \<Rightarrow>
          (case scaled (fl_Packets f) (rm_Sampling m) (of_nat maxFlowPackets) of
             (packets, packetsOK) \<Rightarrow> (bytes, packets, bytesOK \<and> packetsOK)))"

definition Plausible :: "RouterMap \<Rightarrow> Flow \<Rightarrow> bool" where
  "Plausible m f = (case scale_flow m f of (_, _, ok) \<Rightarrow> ok)"

definition mostSpecific :: "prefix list \<Rightarrow> addr \<Rightarrow> prefix" where
  "mostSpecific ps a =
     foldl (\<lambda>best p. if Contains p a \<and> (\<not> IsValid best \<or> Bits p > Bits best) then p else best) NoPrefix ps"

definition flow_Classify :: "RouterMap \<Rightarrow> Flow \<Rightarrow> Classified option" where
  "flow_Classify m f =
     (case scale_flow m f of
        (bytes, packets, ok) \<Rightarrow>
          if \<not> ok then None
          else (case (case rm_Upstreams m (fl_Ingress f) of
                        Some up \<Rightarrow> Some (up, Download, fl_Dst f, fl_Src f, fl_Egress f)
                      | None \<Rightarrow>
                          (case rm_Upstreams m (fl_Egress f) of
                             Some up \<Rightarrow> Some (up, Upload, fl_Src f, fl_Dst f, fl_Ingress f)
                           | None \<Rightarrow> None)) of
                  None \<Rightarrow> None
                | Some (up, dir, local, remote, otherSide) \<Rightarrow>
                    if otherSide = 0 then None
                    else Some \<lparr>cl_POP = (case PrefixTable_Lookup (rm_POPs m) local of None \<Rightarrow> uuid_nil | Some i \<Rightarrow> i),
                               cl_Upstream = up, cl_Direction = dir, cl_Remote = remote,
                               cl_OwnPrefix = mostSpecific (rm_Own m) local,
                               cl_Bytes = bytes, cl_Packets = packets\<rparr>))"

section \<open>The prefix table holds the first owner of each block\<close>

definition owner :: "PrefixEntry list \<Rightarrow> prefix \<Rightarrow> uuid option" where
  "owner es p = map_option pe_InterfaceID (find (\<lambda>e. Is4 (Addr (pe_Prefix e)) \<and> Masked (pe_Prefix e) = p) es)"

definition lengths_of :: "PrefixEntry list \<Rightarrow> int set" where
  "lengths_of es = {Bits (Masked (pe_Prefix e)) | e. e \<in> set es \<and> Is4 (Addr (pe_Prefix e))}"

definition table_of :: "PrefixEntry list \<Rightarrow> PrefixTable \<Rightarrow> bool" where
  "table_of es t \<longleftrightarrow>
     set (pt_lengths t) = lengths_of es \<and>
     (\<forall>b p. Bits p = b \<longrightarrow> Option.bind (pt_byLength t b) (\<lambda>blocks. blocks p) = owner es p) \<and>
     (\<forall>b. pt_byLength t b = None \<longleftrightarrow> b \<notin> lengths_of es)"

lemma owner_snoc:
  "owner (es @ [e]) p =
     (case owner es p of
        Some i \<Rightarrow> Some i
      | None \<Rightarrow> if Is4 (Addr (pe_Prefix e)) \<and> Masked (pe_Prefix e) = p then Some (pe_InterfaceID e) else None)"
  unfolding owner_def by (induction es) auto

lemma lengths_of_snoc:
  "lengths_of (es @ [e]) =
     (if Is4 (Addr (pe_Prefix e)) then insert (Bits (Masked (pe_Prefix e))) (lengths_of es) else lengths_of es)"
  by (auto simp: lengths_of_def)

lemma prefix_entry_add_get:
  assumes "Is4 (Addr (pe_Prefix e))"
  shows "Option.bind (pt_byLength (prefix_entry_add e t) (Bits q)) (\<lambda>blocks. blocks q) =
    (case Option.bind (pt_byLength t (Bits q)) (\<lambda>blocks. blocks q) of
       Some i \<Rightarrow> Some i
     | None \<Rightarrow> if Masked (pe_Prefix e) = q then Some (pe_InterfaceID e) else None)"
proof (cases "Bits q = Bits (Masked (pe_Prefix e))")
  case True
  with assms show ?thesis
    by (cases "pt_byLength t (Bits (Masked (pe_Prefix e)))")
      (auto simp: prefix_entry_add_def Let_def split: option.split)
next
  case False
  then have "Masked (pe_Prefix e) \<noteq> q" by auto
  with assms False show ?thesis
    by (auto simp: prefix_entry_add_def Let_def split: option.split)
qed

lemma prefix_entry_add_lengths:
  assumes "Is4 (Addr (pe_Prefix e))"
  shows "set (pt_lengths (prefix_entry_add e t)) =
      (if pt_byLength t (Bits (Masked (pe_Prefix e))) = None then insert (Bits (Masked (pe_Prefix e))) (set (pt_lengths t))
       else set (pt_lengths t))"
    "pt_byLength (prefix_entry_add e t) b = None \<longleftrightarrow> pt_byLength t b = None \<and> b \<noteq> Bits (Masked (pe_Prefix e))"
  using assms by (auto simp: prefix_entry_add_def Let_def split: option.splits)

lemma table_of_add: "table_of es t \<Longrightarrow> table_of (es @ [e]) (prefix_entry_add e t)"
proof (cases "Is4 (Addr (pe_Prefix e))")
  case False
  assume "table_of es t"
  moreover from False have "owner (es @ [e]) p = owner es p" for p by (simp add: owner_snoc split: option.split)
  ultimately show ?thesis using False by (simp add: table_of_def lengths_of_snoc prefix_entry_add_def)
next
  case True
  assume t: "table_of es t"
  have len: "pt_byLength t b = None \<longleftrightarrow> b \<notin> lengths_of es" for b using t by (simp add: table_of_def)
  have set: "set (pt_lengths t) = lengths_of es" using t by (simp add: table_of_def)
  have get: "Option.bind (pt_byLength t (Bits q)) (\<lambda>blocks. blocks q) = owner es q" for q
    using t by (simp add: table_of_def)
  show ?thesis unfolding table_of_def
    by (simp add: prefix_entry_add_get [OF True] prefix_entry_add_lengths [OF True] get set len
        owner_snoc lengths_of_snoc True insert_absorb) auto
qed

lemma table_of_fold: "table_of (es @ es') (fold prefix_entry_add es' t)" if "table_of es t"
  using that
proof (induction es' arbitrary: es t)
  case (Cons e es')
  from Cons.IH [OF table_of_add [OF Cons.prems, of e]] show ?case by simp
qed simp

lemma NewPrefixTable_of: "table_of es (NewPrefixTable es) \<and> sorted (rev (pt_lengths (NewPrefixTable es)))"
proof -
  have "table_of [] \<lparr>pt_byLength = (\<lambda>_. None), pt_lengths = []\<rparr>" by (simp add: table_of_def owner_def lengths_of_def)
  from table_of_fold [OF this, of es] show ?thesis
    by (simp add: table_of_def NewPrefixTable_def Let_def)
qed

lemma masked_eq_iff:
  "Is4 (Addr p) \<and> Masked p = Prefix (V4 (mask_to n a)) n \<longleftrightarrow> Contains p (V4 a) \<and> Bits p = int n"
proof (cases p)
  case (Prefix b k)
  then show ?thesis by (cases b) (auto simp: Contains_masked simp del: Contains.simps(1))
qed simp

lemma owner_mask:
  "owner es (Prefix (V4 (mask_to n a)) n) =
     map_option pe_InterfaceID (find (\<lambda>e. Contains (pe_Prefix e) (V4 a) \<and> Bits (pe_Prefix e) = int n) es)"
  by (simp only: owner_def masked_eq_iff)

lemma lookup_lengths_spec:
  assumes "table_of es t" "sorted (rev ls)" "set ls \<subseteq> set (pt_lengths t)"
  shows "(case lookup_lengths t (V4 a) ls of
      None \<Rightarrow> \<forall>n. int n \<in> set ls \<longrightarrow> n \<le> 32 \<longrightarrow> owner es (Prefix (V4 (mask_to n a)) n) = None
    | Some i \<Rightarrow> \<exists>n. int n \<in> set ls \<and> n \<le> 32 \<and> owner es (Prefix (V4 (mask_to n a)) n) = Some i \<and>
        (\<forall>m > n. int m \<in> set ls \<longrightarrow> m \<le> 32 \<longrightarrow> owner es (Prefix (V4 (mask_to m a)) m) = None))"
  using assms(2,3)
proof (induction ls)
  case (Cons b ls)
  then have le: "\<And>c. c \<in> set ls \<Longrightarrow> c \<le> b" by (simp add: sorted_append)
  have IH: "(case lookup_lengths t (V4 a) ls of
      None \<Rightarrow> \<forall>n. int n \<in> set ls \<longrightarrow> n \<le> 32 \<longrightarrow> owner es (Prefix (V4 (mask_to n a)) n) = None
    | Some i \<Rightarrow> \<exists>n. int n \<in> set ls \<and> n \<le> 32 \<and> owner es (Prefix (V4 (mask_to n a)) n) = Some i \<and>
        (\<forall>m > n. int m \<in> set ls \<longrightarrow> m \<le> 32 \<longrightarrow> owner es (Prefix (V4 (mask_to m a)) m) = None))"
    using Cons by (simp add: sorted_append)
  show ?case
  proof (cases "0 \<le> b \<and> b \<le> 32")
    case False
    then have "addr_Prefix_int (V4 a) b = None" by (auto simp: addr_Prefix_int_def)
    with IH False show ?thesis by (auto split: option.splits)
  next
    case True
    then obtain n where n: "b = int n" "n \<le> 32" by (metis nonneg_int_cases of_nat_le_iff of_nat_numeral)
    let ?p = "Prefix (V4 (mask_to n a)) n"
    have pf: "addr_Prefix_int (V4 a) b = Some ?p" using n by (simp add: addr_Prefix_int_def)
    have own: "Option.bind (pt_byLength t b) (\<lambda>blocks. blocks ?p) = owner es ?p"
    proof -
      have "\<forall>p. Option.bind (pt_byLength t (Bits p)) (\<lambda>blocks. blocks p) = owner es p"
        using assms(1) by (simp add: table_of_def)
      from spec [OF this, of ?p] show ?thesis by (simp add: n)
    qed
    show ?thesis
    proof (cases "owner es ?p")
      case None
      have "owner es (Prefix (V4 (mask_to m a)) m) = None" if "int m = b" for m
        using that None n by simp
      with IH None show ?thesis by (auto simp: pf own split: option.splits)
    next
      case (Some i)
      have "m \<le> n" if "int m \<in> set ls" for m using le [OF that] n by simp
      moreover have "lookup_lengths t (V4 a) (b # ls) = Some i" by (simp add: pf own Some)
      moreover have "\<forall>m > n. int m \<in> set (b # ls) \<longrightarrow> m \<le> 32 \<longrightarrow> owner es (Prefix (V4 (mask_to m a)) m) = None"
        using \<open>\<And>m. int m \<in> set ls \<Longrightarrow> m \<le> n\<close> n by fastforce
      ultimately show ?thesis using Some n by auto
    qed
  qed
qed simp

section \<open>Exact scaling\<close>

lemma Mul64_correct:
  "Mul64 x y = (of_nat (unat x * unat y div 2 ^ 64), of_nat (unat x * unat y))"
proof -
  let ?p = "(ucast x :: 128 word) * ucast y"
  have ux: "unat (ucast x :: 128 word) = unat x" for x :: u64
  proof -
    have "unat x < 2 ^ 64" using unsigned_less [of x] by simp
    then have "unat x < 2 ^ 128" by simp
    then show ?thesis by (simp only: unsigned_ucast_eq) (simp add: take_bit_nat_eq_self)
  qed
  have lt: "unat x * unat y < 2 ^ 128"
  proof -
    have "unat x * unat y < 2 ^ 64 * 2 ^ 64"
      using unsigned_less [of x] unsigned_less [of y] by (intro mult_strict_mono) simp_all
    then show ?thesis by simp
  qed
  have p: "unat ?p = unat x * unat y"
    using lt by (simp add: unat_word_ariths ux)
  have "(ucast (drop_bit 64 ?p) :: u64) = of_nat (unat (drop_bit 64 ?p))" by simp
  moreover have "unat (drop_bit 64 ?p) = unat x * unat y div 2 ^ 64" unfolding unat_drop_bit_eq p by (rule drop_bit_eq_div)
  moreover have "(ucast ?p :: u64) = of_nat (unat ?p)" by simp
  ultimately show ?thesis unfolding Mul64_def Let_def p by simp
qed

lemma scaled_correct:
  "scaled n sampling limit = (of_nat (unat n * unat sampling), unat n * unat sampling \<le> unat limit)"
proof -
  let ?m = "unat n * unat sampling"
  have lim: "unat limit < 2 ^ 64" using unsigned_less [of limit] by simp
  have hilt: "?m div 2 ^ 64 < 2 ^ 64"
  proof -
    have "?m < 2 ^ 64 * 2 ^ 64"
      using unsigned_less [of n] unsigned_less [of sampling] by (intro mult_strict_mono) simp_all
    then show ?thesis by (simp only: less_mult_imp_div_less)
  qed
  have hi: "(of_nat (?m div 2 ^ 64) :: u64) = 0 \<longleftrightarrow> ?m < 2 ^ 64"
  proof -
    have "(of_nat (?m div 2 ^ 64) :: u64) = 0 \<longleftrightarrow> ?m div 2 ^ 64 = 0"
      using hilt by (simp add: word_unat_eq_iff unsigned_of_nat take_bit_nat_eq_self)
    also have "\<dots> \<longleftrightarrow> ?m < 2 ^ 64" by (simp add: div_eq_0_iff)
    finally show ?thesis .
  qed
  have lo: "M < 2 ^ 64 \<Longrightarrow> ((of_nat M :: u64) \<le> limit \<longleftrightarrow> M \<le> unat limit)" for M
    by (simp add: word_le_nat_alt unsigned_of_nat take_bit_nat_eq_self)
  have "(of_nat (?m div 2 ^ 64) :: u64) = 0 \<and> (of_nat ?m :: u64) \<le> limit \<longleftrightarrow> ?m \<le> unat limit"
    using hi lo [of ?m] lim by (cases "?m < 2 ^ 64") auto
  then show ?thesis unfolding scaled_def Mul64_correct by simp
qed


lemma MaxCount_word: "unat (of_nat MaxCount :: u64) = MaxCount" "unat (of_nat maxFlowPackets :: u64) = maxFlowPackets"
  by (simp_all add: MaxCount_def maxFlowPackets_def unsigned_of_nat take_bit_nat_eq_self)

lemma scale_flow_eq:
  "scale_flow m f =
     (of_nat (unat (fl_Bytes f) * unat (rm_Sampling m)), of_nat (unat (fl_Packets f) * unat (rm_Sampling m)),
      unat (fl_Bytes f) * unat (rm_Sampling m) \<le> MaxCount \<and> unat (fl_Packets f) * unat (rm_Sampling m) \<le> maxFlowPackets)"
  by (simp add: scale_flow_def scaled_correct MaxCount_word)

lemma unat_of_nat_small: "n \<le> MaxCount \<Longrightarrow> unat (of_nat n :: u64) = n"
  by (simp add: MaxCount_def unsigned_of_nat take_bit_nat_eq_self)

lemma mostSpecific_snoc:
  "mostSpecific (ps @ [p]) a =
     (if Contains p a \<and> (\<not> IsValid (mostSpecific ps a) \<or> Bits p > Bits (mostSpecific ps a)) then p
      else mostSpecific ps a)"
  by (auto simp: mostSpecific_def)

lemma Contains_valid: "Contains p a \<Longrightarrow> IsValid p"
  by (cases "(p, a)" rule: Contains.cases) auto

lemma mostSpecific_spec:
  "(if \<exists>p \<in> set ps. Contains p a
    then mostSpecific ps a \<in> set ps \<and> Contains (mostSpecific ps a) a \<and>
         (\<forall>p \<in> set ps. Contains p a \<longrightarrow> Bits p \<le> Bits (mostSpecific ps a))
    else mostSpecific ps a = NoPrefix)"
proof (induction ps rule: rev_induct)
  case Nil
  then show ?case by (simp add: mostSpecific_def)
next
  case (snoc p ps)
  show ?case
  proof (cases "\<exists>p \<in> set ps. Contains p a")
    case True
    with snoc have IH: "mostSpecific ps a \<in> set ps" "Contains (mostSpecific ps a) a"
      "\<forall>p \<in> set ps. Contains p a \<longrightarrow> Bits p \<le> Bits (mostSpecific ps a)" by simp_all
    from IH(2) have "IsValid (mostSpecific ps a)" by (rule Contains_valid)
    with True IH show ?thesis by (force simp: mostSpecific_snoc)
  next
    case False
    with snoc have "mostSpecific ps a = NoPrefix" by simp
    with False show ?thesis by (auto simp: mostSpecific_snoc)
  qed
qed

section \<open>Properties\<close>

text \<open>The POP lookup is a longest-prefix match: it answers nothing exactly when no listed block holds
  the address, and otherwise the interface listed first for the longest block that does.\<close>

theorem pop_lookup_longest:
  "case PrefixTable_Lookup (NewPrefixTable es) (V4 a) of
     None \<Rightarrow> filter (\<lambda>e. Contains (pe_Prefix e) (V4 a)) es = []
   | Some i \<Rightarrow> \<exists>n. map_option pe_InterfaceID (find (\<lambda>e. Contains (pe_Prefix e) (V4 a) \<and> Bits (pe_Prefix e) = int n) es) = Some i \<and>
       filter (\<lambda>e. Contains (pe_Prefix e) (V4 a) \<and> Bits (pe_Prefix e) > int n) es = []"
proof -
  let ?t = "NewPrefixTable es"
  have tbl: "table_of es ?t" "sorted (rev (pt_lengths ?t))" using NewPrefixTable_of [of es] by blast+
  note spec = lookup_lengths_spec [OF tbl(1,2) order_refl, of a, unfolded owner_mask]
  have lookup: "PrefixTable_Lookup ?t (V4 a) = lookup_lengths ?t (V4 a) (pt_lengths ?t)"
    by (simp add: PrefixTable_Lookup_def)
  have len: "\<exists>n. Bits (pe_Prefix e) = int n \<and> n \<le> 32 \<and> int n \<in> set (pt_lengths ?t)"
    if e: "e \<in> set es" "Contains (pe_Prefix e) (V4 a)" for e
  proof -
    obtain p n where p: "pe_Prefix e = Prefix (V4 p) n" "n \<le> 32"
      using e(2) by (cases "(pe_Prefix e, V4 a)" rule: Contains.cases) auto
    then have "int n \<in> lengths_of es" using e(1) by (force simp: lengths_of_def)
    with p tbl(1) show ?thesis by (simp add: table_of_def)
  qed
  show ?thesis
  proof (cases "lookup_lengths ?t (V4 a) (pt_lengths ?t)")
    case None
    with spec have none: "\<And>n. int n \<in> set (pt_lengths ?t) \<Longrightarrow> n \<le> 32 \<Longrightarrow>
        find (\<lambda>e. Contains (pe_Prefix e) (V4 a) \<and> Bits (pe_Prefix e) = int n) es = None" by simp
    have "\<not> Contains (pe_Prefix e) (V4 a)" if "e \<in> set es" for e
      using len [OF that] none that by (fastforce simp: find_None_iff)
    with None show ?thesis by (simp add: lookup filter_empty_conv)
  next
    case (Some i)
    with spec obtain n where n: "n \<le> 32"
      "map_option pe_InterfaceID (find (\<lambda>e. Contains (pe_Prefix e) (V4 a) \<and> Bits (pe_Prefix e) = int n) es) = Some i"
      "\<And>m. n < m \<Longrightarrow> int m \<in> set (pt_lengths ?t) \<Longrightarrow> m \<le> 32 \<Longrightarrow>
         find (\<lambda>e. Contains (pe_Prefix e) (V4 a) \<and> Bits (pe_Prefix e) = int m) es = None" by auto
    have "\<not> (Contains (pe_Prefix e) (V4 a) \<and> Bits (pe_Prefix e) > int n)" if "e \<in> set es" for e
      using len [OF that] n(3) that by (fastforce simp: find_None_iff)
    with n(2) Some show ?thesis by (auto simp: lookup filter_empty_conv)
  qed
qed

text \<open>A classified flow carries exactly the sampled counts times the sampling rate, computed without
  wrapping and within \<open>MaxCount\<close>; a flow is refused exactly when the true product is over a bound, when
  neither of its interfaces is an upstream, or when its other side is the router itself. It is a download when it came
  in through an upstream and an upload when it only left through one.\<close>

theorem classify_exact:
  "case flow_Classify m f of
     None \<Rightarrow>
       unat (fl_Bytes f) * unat (rm_Sampling m) > 2 ^ 52 \<or>
       unat (fl_Packets f) * unat (rm_Sampling m) > 2 ^ 52 div 20 \<or>
       (rm_Upstreams m (fl_Ingress f) = None \<and> rm_Upstreams m (fl_Egress f) = None) \<or>
       (if rm_Upstreams m (fl_Ingress f) = None then fl_Ingress f = 0 else fl_Egress f = 0)
   | Some c \<Rightarrow>
       unat (cl_Bytes c) = unat (fl_Bytes f) * unat (rm_Sampling m) \<and> unat (cl_Bytes c) \<le> 2 ^ 52 \<and>
       unat (cl_Packets c) = unat (fl_Packets f) * unat (rm_Sampling m) \<and> unat (cl_Packets c) \<le> 2 ^ 52 div 20 \<and>
       (if cl_Direction c = Download
        then rm_Upstreams m (fl_Ingress f) = Some (cl_Upstream c) \<and> cl_Remote c = fl_Src f \<and> fl_Egress f \<noteq> 0
        else rm_Upstreams m (fl_Ingress f) = None \<and> rm_Upstreams m (fl_Egress f) = Some (cl_Upstream c) \<and>
             cl_Remote c = fl_Dst f \<and> fl_Ingress f \<noteq> 0)"
proof -
  have mp: "maxFlowPackets \<le> MaxCount" by (simp add: maxFlowPackets_def)
  show ?thesis
    using unat_of_nat_small [of "unat (fl_Bytes f) * unat (rm_Sampling m)"]
      unat_of_nat_small [of "unat (fl_Packets f) * unat (rm_Sampling m)"] mp
    by (cases "rm_Upstreams m (fl_Ingress f)"; cases "rm_Upstreams m (fl_Egress f)")
      (auto simp: flow_Classify_def scale_flow_eq MaxCount_def maxFlowPackets_def simp del: of_nat_mult)
qed

text \<open>The own prefix of a flow is the longest announced prefix that holds the local address, and none
  exactly when none does.\<close>

theorem most_specific_longest:
  "if filter (\<lambda>p. Contains p a) ps = [] then mostSpecific ps a = NoPrefix
   else Contains (mostSpecific ps a) a \<and>
        Bits (mostSpecific ps a) = Max (Bits ` {p \<in> set ps. Contains p a}) \<and> mostSpecific ps a \<in> set ps"
proof (cases "\<exists>p \<in> set ps. Contains p a")
  case True
  with mostSpecific_spec [of ps a] have s: "mostSpecific ps a \<in> set ps" "Contains (mostSpecific ps a) a"
    "\<forall>p \<in> set ps. Contains p a \<longrightarrow> Bits p \<le> Bits (mostSpecific ps a)" by simp_all
  then have "Max (Bits ` {p \<in> set ps. Contains p a}) = Bits (mostSpecific ps a)"
    by (intro Max_eqI) auto
  with True s show ?thesis by (auto simp: filter_empty_conv)
next
  case False
  with mostSpecific_spec [of ps a] show ?thesis by (simp add: filter_empty_conv)
qed

end
