(* ===== verification/Aggregate.thy ===== *)
theory Aggregate
  imports Classify "HOL-Library.Product_Lexorder"
begin

text \<open>
  The per-minute and per-window sums of \<open>netflow/aggregate.go\<close>. Go iterates a map in any order, so an
  operation that ranges over one takes the order as an argument (a list naming each key once), and
  the properties hold for every order. \<open>sort.Slice\<close> may order ties any way; a stable sort of an
  arbitrary order covers that too.
\<close>

definition MaxKeysPerRouter :: nat where "MaxKeysPerRouter = 50000"
definition MaxIPsPerPOP :: nat where "MaxIPsPerPOP = 100000"
definition TopASNs :: nat where "TopASNs = 20"
definition TopIPs :: nat where "TopIPs = 100"
definition OtherASN :: u32 where "OtherASN = 0"
definition TopIPWindow :: duration where "TopIPWindow = 5 * minute"

record MinuteKey =
  mk_RouterID :: uuid
  mk_POP :: uuid
  mk_Upstream :: uuid
  mk_Direction :: direction
  mk_ASN :: u32

record counter =
  ct_bytes :: u64
  ct_packets :: u64

record MinuteRow =
  mr_Time :: time
  mr_Key :: MinuteKey
  mr_Bytes :: u64
  mr_Packets :: u64

record groupKey =
  gk_RouterID :: uuid
  gk_POP :: uuid
  gk_Direction :: direction

record ipKey =
  ik_group :: groupKey
  ik_ip :: addr

record ipCounter =
  ic_asn :: u32
  ic_bytes :: u64
  ic_flows :: u64

record ownKey =
  ow_routerID :: uuid
  ow_prefix :: prefix
  ow_upstream :: uuid
  ow_direction :: direction

record TopIPRow =
  ti_Time :: time
  ti_RouterID :: uuid
  ti_POP :: uuid
  ti_Direction :: direction
  ti_IP :: addr
  ti_ASN :: u32
  ti_Bytes :: u64
  ti_Flows :: u64

record OwnPrefixRow =
  op_Time :: time
  op_RouterID :: uuid
  op_Prefix :: prefix
  op_Upstream :: uuid
  op_Direction :: direction
  op_Bytes :: u64

record Aggregator =
  ag_minute :: time
  ag_keys :: "MinuteKey \<Rightarrow> counter option"
  ag_keysPerRouter :: "uuid \<Rightarrow> nat"
  ag_foldedFlows :: "uuid \<Rightarrow> u64"
  ag_window :: time
  ag_ips :: "ipKey \<Rightarrow> ipCounter option"
  ag_ipsPerPOP :: "uuid \<times> uuid \<Rightarrow> nat"
  ag_own :: "ownKey \<Rightarrow> u64 option"

text \<open>\<open>time.Truncate\<close> of an instant (nanoseconds since Go's zero time).\<close>

definition Truncate :: "time \<Rightarrow> duration \<Rightarrow> time" where
  "Truncate t d = t - t mod d"

definition resetMinute :: "time \<Rightarrow> Aggregator \<Rightarrow> Aggregator" where
  "resetMinute now a = a\<lparr>ag_minute := Truncate now minute, ag_keys := (\<lambda>_. None),
     ag_keysPerRouter := (\<lambda>_. 0), ag_foldedFlows := (\<lambda>_. 0)\<rparr>"

definition resetWindow :: "time \<Rightarrow> Aggregator \<Rightarrow> Aggregator" where
  "resetWindow now a = a\<lparr>ag_window := Truncate now TopIPWindow, ag_ips := (\<lambda>_. None),
     ag_ipsPerPOP := (\<lambda>_. 0), ag_own := (\<lambda>_. None)\<rparr>"

definition NewAggregator :: "time \<Rightarrow> Aggregator" where
  "NewAggregator now = resetWindow now (resetMinute now
     \<lparr>ag_minute = 0, ag_keys = (\<lambda>_. None), ag_keysPerRouter = (\<lambda>_. 0), ag_foldedFlows = (\<lambda>_. 0),
      ag_window = 0, ag_ips = (\<lambda>_. None), ag_ipsPerPOP = (\<lambda>_. 0), ag_own = (\<lambda>_. None)\<rparr>)"

text \<open>\<open>bits.Add64\<close>: the sum and its carry.\<close>

definition Add64 :: "u64 \<Rightarrow> u64 \<Rightarrow> u64 \<times> bool" where
  "Add64 x y = (x + y, unat x + unat y \<ge> 2 ^ 64)"

definition addCount :: "u64 \<Rightarrow> u64 \<Rightarrow> u64" where
  "addCount s n =
     (case Add64 s n of (tot, carry) \<Rightarrow>
        if \<not> carry \<and> tot < of_nat MaxCount then tot else of_nat MaxCount)"

definition zero_counter :: counter where
  "zero_counter = \<lparr>ct_bytes = 0, ct_packets = 0\<rparr>"

definition addMinute :: "MinuteKey \<Rightarrow> Classified \<Rightarrow> Aggregator \<Rightarrow> Aggregator" where
  "addMinute key c a =
     (let r = mk_RouterID key;
          (a, key) =
            (if ag_keys a key = None \<and> mk_ASN key \<noteq> OtherASN \<and> ag_keysPerRouter a r \<ge> MaxKeysPerRouter
             then (a\<lparr>ag_foldedFlows := (ag_foldedFlows a)(r := ag_foldedFlows a r + 1)\<rparr>, key\<lparr>mk_ASN := OtherASN\<rparr>)
             else (a, key));
          (cnt, a) =
            (case ag_keys a key of
               Some cnt \<Rightarrow> (cnt, a)
             | None \<Rightarrow> (zero_counter, a\<lparr>ag_keysPerRouter := (ag_keysPerRouter a)(r := ag_keysPerRouter a r + 1)\<rparr>))
      in a\<lparr>ag_keys := (ag_keys a)(key \<mapsto> \<lparr>ct_bytes = addCount (ct_bytes cnt) (cl_Bytes c),
                                           ct_packets = addCount (ct_packets cnt) (cl_Packets c)\<rparr>)\<rparr>)"

definition addIP :: "groupKey \<Rightarrow> Classified \<Rightarrow> u32 \<Rightarrow> Aggregator \<Rightarrow> Aggregator" where
  "addIP g c asn a =
     (let key = \<lparr>ik_group = g, ik_ip = cl_Remote c\<rparr>;
          bump = (\<lambda>cnt. cnt\<lparr>ic_bytes := addCount (ic_bytes cnt) (cl_Bytes c), ic_flows := ic_flows cnt + 1\<rparr>);
          pk = (gk_RouterID g, gk_POP g)
      in case ag_ips a key of
           Some cnt \<Rightarrow> a\<lparr>ag_ips := (ag_ips a)(key \<mapsto> bump cnt)\<rparr>
         | None \<Rightarrow>
             if ag_ipsPerPOP a pk \<ge> MaxIPsPerPOP then a
             else a\<lparr>ag_ipsPerPOP := (ag_ipsPerPOP a)(pk := ag_ipsPerPOP a pk + 1),
                    ag_ips := (ag_ips a)(key \<mapsto> bump \<lparr>ic_asn = asn, ic_bytes = 0, ic_flows = 0\<rparr>)\<rparr>)"

definition agg_Add :: "uuid \<Rightarrow> Classified \<Rightarrow> u32 \<Rightarrow> Aggregator \<Rightarrow> Aggregator" where
  "agg_Add routerID c asn a =
     (let a = addMinute \<lparr>mk_RouterID = routerID, mk_POP = cl_POP c, mk_Upstream = cl_Upstream c,
                         mk_Direction = cl_Direction c, mk_ASN = asn\<rparr> c a;
          a = addIP \<lparr>gk_RouterID = routerID, gk_POP = cl_POP c, gk_Direction = cl_Direction c\<rparr> c asn a
      in if IsValid (cl_OwnPrefix c) then
           (let key = \<lparr>ow_routerID = routerID, ow_prefix = cl_OwnPrefix c, ow_upstream = cl_Upstream c,
                       ow_direction = cl_Direction c\<rparr>;
                old = (case ag_own a key of None \<Rightarrow> 0 | Some n \<Rightarrow> n)
            in a\<lparr>ag_own := (ag_own a)(key \<mapsto> addCount old (cl_Bytes c))\<rparr>)
         else a)"

section \<open>Closing a minute\<close>

definition iterates :: "'k list \<Rightarrow> ('k \<Rightarrow> 'v option) \<Rightarrow> bool" where
  "iterates ks m \<longleftrightarrow> distinct ks \<and> set ks = dom m"

definition group_of :: "MinuteKey \<Rightarrow> groupKey" where
  "group_of key = \<lparr>gk_RouterID = mk_RouterID key, gk_POP = mk_POP key, gk_Direction = mk_Direction key\<rparr>"

definition asn_totals :: "MinuteKey list \<Rightarrow> (MinuteKey \<Rightarrow> counter option) \<Rightarrow> groupKey \<Rightarrow> u32 \<Rightarrow> u64 option" where
  "asn_totals it keys =
     foldl (\<lambda>totals key.
              if mk_ASN key = OtherASN then totals
              else let g = group_of key; asn = mk_ASN key;
                       old = (case totals g asn of None \<Rightarrow> 0 | Some n \<Rightarrow> n)
                   in totals(g := (totals g)(asn \<mapsto> old + ct_bytes (the (keys key)))))
           (\<lambda>_ _. None) it"

text \<open>\<open>largestASNs\<close>: the comparison is total, so the order the map is listed in does not matter.\<close>

definition largestASNs :: "u32 list \<Rightarrow> (u32 \<Rightarrow> u64 option) \<Rightarrow> nat \<Rightarrow> u32 set" where
  "largestASNs asns byASN n =
     set (take n (sort_key (\<lambda>asn. (- uint (the (byASN asn)), uint asn)) asns))"

definition topASNs :: "MinuteKey list \<Rightarrow> (MinuteKey \<Rightarrow> counter option) \<Rightarrow> groupKey \<Rightarrow> u32 \<Rightarrow> bool" where
  "topASNs it keys g asn \<longleftrightarrow>
     asn \<in> largestASNs (remdups (map mk_ASN (filter (\<lambda>k. group_of k = g \<and> mk_ASN k \<noteq> OtherASN) it)))
            (asn_totals it keys g) TopASNs"

definition addCounter :: "MinuteKey \<Rightarrow> counter \<Rightarrow> (MinuteKey \<Rightarrow> counter option) \<Rightarrow> MinuteKey \<Rightarrow> counter option" where
  "addCounter key cnt into =
     (let sum = (case into key of None \<Rightarrow> zero_counter | Some s \<Rightarrow> s)
      in into(key \<mapsto> \<lparr>ct_bytes = addCount (ct_bytes sum) (ct_bytes cnt),
                       ct_packets = addCount (ct_packets sum) (ct_packets cnt)\<rparr>))"

definition merged_key :: "(groupKey \<Rightarrow> u32 \<Rightarrow> bool) \<Rightarrow> MinuteKey \<Rightarrow> MinuteKey" where
  "merged_key keep key = (if \<not> keep (group_of key) (mk_ASN key) then key\<lparr>mk_ASN := OtherASN\<rparr> else key)"

definition merge_minute ::
  "(groupKey \<Rightarrow> u32 \<Rightarrow> bool) \<Rightarrow> MinuteKey list \<Rightarrow> (MinuteKey \<Rightarrow> counter option) \<Rightarrow> MinuteKey \<Rightarrow> counter option" where
  "merge_minute keep it keys =
     foldl (\<lambda>merged key. addCounter (merged_key keep key) (the (keys key)) merged) (\<lambda>_. None) it"

definition minute_rows :: "time \<Rightarrow> (MinuteKey \<Rightarrow> counter option) \<Rightarrow> MinuteKey list \<Rightarrow> MinuteRow list" where
  "minute_rows t merged it =
     map (\<lambda>key. \<lparr>mr_Time = t, mr_Key = key, mr_Bytes = ct_bytes (the (merged key)),
                 mr_Packets = ct_packets (the (merged key))\<rparr>) it"

text \<open>\<open>it1\<close>, \<open>it2\<close> and \<open>it3\<close>: the orders \<open>topASNs\<close>, the merge and the rows range in.\<close>

definition CloseMinute ::
  "MinuteKey list \<Rightarrow> MinuteKey list \<Rightarrow> MinuteKey list \<Rightarrow> time \<Rightarrow> Aggregator
    \<Rightarrow> MinuteRow list \<times> (uuid \<Rightarrow> u64) \<times> Aggregator" where
  "CloseMinute it1 it2 it3 now a =
     (let merged = merge_minute (topASNs it1 (ag_keys a)) it2 (ag_keys a)
      in (minute_rows (ag_minute a) merged it3, ag_foldedFlows a, resetMinute now a))"

section \<open>Closing a window\<close>

definition WindowDue :: "time \<Rightarrow> Aggregator \<Rightarrow> bool" where
  "WindowDue now a \<longleftrightarrow> Truncate now TopIPWindow \<noteq> ag_window a"

definition ip_row :: "Aggregator \<Rightarrow> ipKey \<Rightarrow> TopIPRow" where
  "ip_row a key =
     (let cnt = the (ag_ips a key); g = ik_group key
      in \<lparr>ti_Time = ag_window a, ti_RouterID = gk_RouterID g, ti_POP = gk_POP g, ti_Direction = gk_Direction g,
          ti_IP = ik_ip key, ti_ASN = ic_asn cnt, ti_Bytes = ic_bytes cnt, ti_Flows = ic_flows cnt\<rparr>)"

definition top_group :: "ipKey list \<Rightarrow> Aggregator \<Rightarrow> groupKey \<Rightarrow> TopIPRow list" where
  "top_group it a g =
     take TopIPs (sort_key (\<lambda>row. - uint (ti_Bytes row)) (map (ip_row a) (filter (\<lambda>k. ik_group k = g) it)))"

definition CloseWindow ::
  "ipKey list \<Rightarrow> groupKey list \<Rightarrow> ownKey list \<Rightarrow> time \<Rightarrow> Aggregator
    \<Rightarrow> TopIPRow list \<times> OwnPrefixRow list \<times> Aggregator" where
  "CloseWindow it groups ito now a =
     (concat (map (top_group it a) groups),
      map (\<lambda>key. \<lparr>op_Time = ag_window a, op_RouterID = ow_routerID key, op_Prefix = ow_prefix key,
                  op_Upstream = ow_upstream key, op_Direction = ow_direction key,
                  op_Bytes = the (ag_own a key)\<rparr>) ito,
      resetWindow now a)"

section \<open>Saturating sums\<close>

lemma addCount_min: "unat (addCount s n) = min (unat s + unat n) MaxCount"
proof -
  have m: "unat (of_nat MaxCount :: u64) = MaxCount" "MaxCount < 2 ^ 64" by (rule MaxCount_word) (simp add: MaxCount_def)
  show ?thesis
  proof (cases "unat s + unat n < 2 ^ 64")
    case True
    then have "unat (s + n) = unat s + unat n" using unat_add_lem [of s n] by simp
    with True m show ?thesis by (simp add: addCount_def Add64_def word_less_nat_alt min_def)
  next
    case False
    with m show ?thesis by (simp add: addCount_def Add64_def min_def)
  qed
qed

lemma addCount_le: "unat (addCount s n) \<le> MaxCount"
  by (simp add: addCount_min)

section \<open>The invariant\<close>

definition keys_of :: "Aggregator \<Rightarrow> uuid \<Rightarrow> MinuteKey set" where
  "keys_of a r = {k \<in> dom (ag_keys a). mk_RouterID k = r}"

definition ips_of :: "Aggregator \<Rightarrow> uuid \<times> uuid \<Rightarrow> ipKey set" where
  "ips_of a pk = {k \<in> dom (ag_ips a). (gk_RouterID (ik_group k), gk_POP (ik_group k)) = pk}"

definition agg_ok :: "Aggregator \<Rightarrow> bool" where
  "agg_ok a \<longleftrightarrow>
     finite (dom (ag_keys a)) \<and> finite (dom (ag_ips a)) \<and>
     (\<forall>r. ag_keysPerRouter a r = card (keys_of a r)) \<and>
     (\<forall>r. card {k \<in> keys_of a r. mk_ASN k \<noteq> OtherASN} \<le> MaxKeysPerRouter) \<and>
     (\<forall>pk. ag_ipsPerPOP a pk = card (ips_of a pk) \<and> card (ips_of a pk) \<le> MaxIPsPerPOP) \<and>
     (\<forall>k cnt. ag_keys a k = Some cnt \<longrightarrow> unat (ct_bytes cnt) \<le> MaxCount \<and> unat (ct_packets cnt) \<le> MaxCount) \<and>
     (\<forall>k cnt. ag_ips a k = Some cnt \<longrightarrow> unat (ic_bytes cnt) \<le> MaxCount) \<and>
     (\<forall>k n. ag_own a k = Some n \<longrightarrow> unat n \<le> MaxCount)"

text \<open>The key a flow is counted under, and the counter it grows from.\<close>

definition minute_key :: "MinuteKey \<Rightarrow> Aggregator \<Rightarrow> MinuteKey" where
  "minute_key key a =
     (if ag_keys a key = None \<and> mk_ASN key \<noteq> OtherASN \<and> ag_keysPerRouter a (mk_RouterID key) \<ge> MaxKeysPerRouter
      then key\<lparr>mk_ASN := OtherASN\<rparr> else key)"

definition minute_counter :: "MinuteKey \<Rightarrow> Classified \<Rightarrow> Aggregator \<Rightarrow> counter" where
  "minute_counter k c a =
     (let cnt = (case ag_keys a k of None \<Rightarrow> zero_counter | Some cnt \<Rightarrow> cnt)
      in \<lparr>ct_bytes = addCount (ct_bytes cnt) (cl_Bytes c), ct_packets = addCount (ct_packets cnt) (cl_Packets c)\<rparr>)"

lemma addMinute_fields:
  "ag_keys (addMinute key c a) = (ag_keys a)(minute_key key a \<mapsto> minute_counter (minute_key key a) c a)"
  "ag_keysPerRouter (addMinute key c a) =
     (if ag_keys a (minute_key key a) = None
      then (ag_keysPerRouter a)(mk_RouterID key := ag_keysPerRouter a (mk_RouterID key) + 1) else ag_keysPerRouter a)"
  "ag_ips (addMinute key c a) = ag_ips a" "ag_ipsPerPOP (addMinute key c a) = ag_ipsPerPOP a"
  "ag_own (addMinute key c a) = ag_own a" "ag_window (addMinute key c a) = ag_window a"
  "ag_minute (addMinute key c a) = ag_minute a"
  by (auto simp: addMinute_def minute_key_def minute_counter_def Let_def split: option.splits)

lemma minute_key_router [simp]: "mk_RouterID (minute_key key a) = mk_RouterID key"
  by (simp add: minute_key_def)

lemma card_insert_one: "finite A \<Longrightarrow> card (insert x A) = (if x \<in> A then card A else card A + 1)"
  by (simp add: insert_absorb)

lemma addMinute_ok:
  assumes "agg_ok a"
  shows "agg_ok (addMinute key c a)"
proof -
  let ?k = "minute_key key a" and ?a = "addMinute key c a" and ?r = "mk_RouterID key"
  have fin: "finite (keys_of a r)" for r using assms by (simp add: agg_ok_def keys_of_def)
  have keys: "keys_of ?a r = (if r = ?r then insert ?k (keys_of a r) else keys_of a r)" for r
    by (auto simp: keys_of_def addMinute_fields)
  have new: "?k \<in> keys_of a ?r \<longleftrightarrow> ag_keys a ?k \<noteq> None" by (auto simp: keys_of_def)
  have cnt: "ag_keysPerRouter ?a r = card (keys_of ?a r)" for r
    using assms fin by (auto simp: agg_ok_def keys addMinute_fields(2) card_insert_one new)
  have cap: "card {k \<in> keys_of ?a r. mk_ASN k \<noteq> OtherASN} \<le> MaxKeysPerRouter" for r
  proof (cases "r = ?r \<and> ag_keys a ?k = None \<and> mk_ASN ?k \<noteq> OtherASN")
    case False
    then have "{k \<in> keys_of ?a r. mk_ASN k \<noteq> OtherASN} = {k \<in> keys_of a r. mk_ASN k \<noteq> OtherASN}"
      using new by (auto simp: keys insert_absorb)
    with assms show ?thesis by (simp add: agg_ok_def)
  next
    case True
    then have "ag_keysPerRouter a ?r < MaxKeysPerRouter" by (auto simp: minute_key_def not_le split: if_splits)
    then have "card (keys_of a ?r) < MaxKeysPerRouter" using assms by (simp add: agg_ok_def)
    then have "card (keys_of ?a r) \<le> MaxKeysPerRouter" using True fin by (simp add: keys card_insert_one)
    then show ?thesis by (rule order_trans [OF card_mono, rotated 2]) (auto simp: keys fin)
  qed
  have "unat (ct_bytes (minute_counter ?k c a)) \<le> MaxCount" "unat (ct_packets (minute_counter ?k c a)) \<le> MaxCount"
    by (simp_all add: minute_counter_def Let_def addCount_le)
  with assms cnt cap show ?thesis
    by (simp add: agg_ok_def addMinute_fields ips_of_def)
qed

lemma addIP_fields:
  "ag_keys (addIP g c asn a) = ag_keys a" "ag_keysPerRouter (addIP g c asn a) = ag_keysPerRouter a"
  "ag_own (addIP g c asn a) = ag_own a"
  by (auto simp: addIP_def Let_def split: option.splits)

lemma agg_ok_pop: "agg_ok a \<Longrightarrow> ag_ipsPerPOP a pk = card (ips_of a pk) \<and> card (ips_of a pk) \<le> MaxIPsPerPOP"
  unfolding agg_ok_def by blast

lemma addIP_ok:
  assumes "agg_ok a"
  shows "agg_ok (addIP g c asn a)"
proof -
  let ?key = "\<lparr>ik_group = g, ik_ip = cl_Remote c\<rparr>" and ?pk = "(gk_RouterID g, gk_POP g)" and ?a = "addIP g c asn a"
  have fin: "finite (ips_of a pk)" for pk using assms by (simp add: agg_ok_def ips_of_def)
  show ?thesis
  proof (cases "ag_ips a ?key")
    case (Some cnt)
    then have ips: "ips_of ?a pk = ips_of a pk" for pk by (auto simp: ips_of_def addIP_def Let_def)
    with assms Some show ?thesis
      by (simp add: agg_ok_def keys_of_def addIP_fields addCount_le)
        (auto simp: addIP_def Let_def addCount_le)
  next
    case None
    show ?thesis
    proof (cases "ag_ipsPerPOP a ?pk \<ge> MaxIPsPerPOP")
      case True
      with None assms show ?thesis by (simp add: addIP_def Let_def)
    next
      case False
      with None have ips: "ips_of ?a pk = (if pk = ?pk then insert ?key (ips_of a pk) else ips_of a pk)" for pk
        by (auto simp: ips_of_def addIP_def Let_def)
      have "?key \<notin> ips_of a ?pk" using None by (auto simp: ips_of_def)
      moreover have "card (ips_of a ?pk) < MaxIPsPerPOP" using assms False by (simp add: agg_ok_def)
      ultimately have "ag_ipsPerPOP ?a pk = card (ips_of ?a pk) \<and> card (ips_of ?a pk) \<le> MaxIPsPerPOP" for pk
      proof (cases "pk = ?pk")
        case True
        with agg_ok_pop [OF assms, of ?pk] False None \<open>?key \<notin> ips_of a ?pk\<close> \<open>card (ips_of a ?pk) < MaxIPsPerPOP\<close> fin
        show ?thesis by (simp add: ips) (simp add: addIP_def Let_def)
      next
        case neq: False
        with agg_ok_pop [OF assms, of pk] False None show ?thesis by (simp add: ips) (simp add: addIP_def Let_def)
      qed
      moreover have "finite (dom (ag_ips ?a))" "\<forall>k cnt. ag_ips ?a k = Some cnt \<longrightarrow> unat (ic_bytes cnt) \<le> MaxCount"
        using assms None False by (auto simp: agg_ok_def addIP_def Let_def addCount_le)
      ultimately show ?thesis using assms by (simp add: agg_ok_def keys_of_def addIP_fields)
    qed
  qed
qed

lemma agg_Add_ok:
  assumes "agg_ok a"
  shows "agg_ok (agg_Add r c asn a)"
proof -
  have own: "agg_ok (b\<lparr>ag_own := (ag_own b)(k \<mapsto> addCount x y)\<rparr>)" if "agg_ok b" for b k x y
    using that by (simp add: agg_ok_def keys_of_def ips_of_def addCount_le)
  show ?thesis unfolding agg_Add_def Let_def by (auto intro!: own addIP_ok addMinute_ok assms)
qed

lemma reset_ok: "agg_ok a \<Longrightarrow> agg_ok (resetMinute now a)" "agg_ok a \<Longrightarrow> agg_ok (resetWindow now a)"
  by (simp_all add: agg_ok_def resetMinute_def resetWindow_def keys_of_def ips_of_def)

lemma NewAggregator_ok: "agg_ok (NewAggregator now)"
  by (simp add: NewAggregator_def agg_ok_def resetMinute_def resetWindow_def keys_of_def ips_of_def)


section \<open>What a minute adds up to\<close>

definition base_of :: "MinuteKey \<Rightarrow> uuid \<times> uuid \<times> uuid \<times> direction" where
  "base_of k = (mk_RouterID k, mk_POP k, mk_Upstream k, mk_Direction k)"

text \<open>Bytes of the open minute per router, POP, upstream and direction.\<close>

definition minute_total :: "Aggregator \<Rightarrow> uuid \<times> uuid \<times> uuid \<times> direction \<Rightarrow> nat" where
  "minute_total a b = (\<Sum>k \<in> {k \<in> dom (ag_keys a). base_of k = b}. unat (ct_bytes (the (ag_keys a k))))"

lemma base_minute_key [simp]: "base_of (minute_key key a) = base_of key"
  by (simp add: minute_key_def base_of_def)

lemma addMinute_total:
  assumes ok: "agg_ok a" and small: "minute_total a (base_of key) + unat (cl_Bytes c) < MaxCount"
  shows "minute_total (addMinute key c a) b =
    minute_total a b + (if b = base_of key then unat (cl_Bytes c) else 0)"
proof -
  let ?k = "minute_key key a" and ?a = "addMinute key c a"
  let ?S = "\<lambda>b. {k \<in> dom (ag_keys a). base_of k = b}"
  let ?f = "\<lambda>k. unat (ct_bytes (the (ag_keys a k)))" and ?g = "\<lambda>k. unat (ct_bytes (the (ag_keys ?a k)))"
  have fin: "finite (?S b)" for b using ok by (simp add: agg_ok_def)
  have same: "(\<Sum>k \<in> A - {?k}. ?g k) = (\<Sum>k \<in> A - {?k}. ?f k)" for A
    by (rule sum.cong) (auto simp: addMinute_fields)
  show ?thesis
  proof (cases "b = base_of key")
    case False
    have "{k \<in> dom (ag_keys ?a). base_of k = b} = ?S b" "?k \<notin> ?S b"
      using False by (auto simp: addMinute_fields)
    then show ?thesis using False same [of "?S b"] by (simp add: minute_total_def)
  next
    case True
    let ?old = "if ?k \<in> ?S b then ?f ?k else 0"
    have dom: "{k \<in> dom (ag_keys ?a). base_of k = b} = insert ?k (?S b)"
      using True by (auto simp: addMinute_fields)
    have total: "minute_total a b = ?old + (\<Sum>k \<in> ?S b - {?k}. ?f k)"
      using sum.remove [OF fin, of ?k b ?f] by (simp add: minute_total_def)
    have "unat (ct_bytes (minute_counter ?k c a)) = ?old + unat (cl_Bytes c)"
    proof -
      have "?old + unat (cl_Bytes c) < MaxCount" using small total True by simp
      then show ?thesis using True
        by (cases "ag_keys a ?k") (simp_all add: minute_counter_def Let_def addCount_min zero_counter_def domIff)
    qed
    then have "?g ?k = ?old + unat (cl_Bytes c)" by (simp add: addMinute_fields)
    moreover have "minute_total ?a b = ?g ?k + (\<Sum>k \<in> ?S b - {?k}. ?g k)"
      unfolding minute_total_def dom using sum.insert_remove [OF fin, of ?g ?k b] by simp
    ultimately show ?thesis using total same [of "?S b"] True by simp
  qed
qed

section \<open>What closing a minute keeps\<close>

lemma min_add_min: "min (min x m + y) m = min (y + x) (m::nat)"
  by (simp add: min_def)

lemma merge_minute_spec:
  assumes "distinct it"
  shows "merge_minute keep it keys q = None \<longleftrightarrow> q \<notin> merged_key keep ` set it"
    "q \<in> merged_key keep ` set it \<Longrightarrow>
       unat (ct_bytes (the (merge_minute keep it keys q))) =
         min (\<Sum>k \<in> {k \<in> set it. merged_key keep k = q}. unat (ct_bytes (the (keys k)))) MaxCount \<and>
       unat (ct_packets (the (merge_minute keep it keys q))) =
         min (\<Sum>k \<in> {k \<in> set it. merged_key keep k = q}. unat (ct_packets (the (keys k)))) MaxCount"
proof -
  have "(merge_minute keep it keys q = None \<longleftrightarrow> q \<notin> merged_key keep ` set it) \<and>
    (q \<in> merged_key keep ` set it \<longrightarrow>
       unat (ct_bytes (the (merge_minute keep it keys q))) =
         min (\<Sum>k \<in> {k \<in> set it. merged_key keep k = q}. unat (ct_bytes (the (keys k)))) MaxCount \<and>
       unat (ct_packets (the (merge_minute keep it keys q))) =
         min (\<Sum>k \<in> {k \<in> set it. merged_key keep k = q}. unat (ct_packets (the (keys k)))) MaxCount)"
    using assms
  proof (induction it rule: rev_induct)
    case Nil
    then show ?case by (simp add: merge_minute_def)
  next
    case (snoc k it)
    let ?m = "merge_minute keep it keys" and ?S = "{k \<in> set it. merged_key keep k = q}"
    have step: "merge_minute keep (it @ [k]) keys = addCounter (merged_key keep k) (the (keys k)) ?m"
      by (simp add: merge_minute_def)
    show ?case
    proof (cases "merged_key keep k = q")
      case False
      then have "{j \<in> set (it @ [k]). merged_key keep j = q} = ?S" by auto
      with False snoc show ?thesis by (auto simp: step addCounter_def Let_def)
    next
      case True
      then have set: "{j \<in> set (it @ [k]). merged_key keep j = q} = insert k ?S" by auto
      have k: "k \<notin> ?S" "finite ?S" using snoc.prems by auto
      show ?thesis
      proof (cases "?m q")
        case None
        then have "?S = {}" using snoc by auto
        then have one: "insert k ?S = {k}" by (simp only:)
        show ?thesis unfolding set step one using True None
          by (simp add: addCounter_def Let_def addCount_min zero_counter_def)
      next
        case (Some s)
        have IH: "unat (ct_bytes s) = min (\<Sum>k \<in> ?S. unat (ct_bytes (the (keys k)))) MaxCount"
          "unat (ct_packets s) = min (\<Sum>k \<in> ?S. unat (ct_packets (the (keys k)))) MaxCount"
          using snoc Some by auto
        show ?thesis unfolding set step sum.insert [OF k(2,1)] using True Some
          by (simp add: addCounter_def Let_def addCount_min IH min_add_min)
      qed
    qed
  qed
  then show "merge_minute keep it keys q = None \<longleftrightarrow> q \<notin> merged_key keep ` set it"
    "q \<in> merged_key keep ` set it \<Longrightarrow>
       unat (ct_bytes (the (merge_minute keep it keys q))) =
         min (\<Sum>k \<in> {k \<in> set it. merged_key keep k = q}. unat (ct_bytes (the (keys k)))) MaxCount \<and>
       unat (ct_packets (the (merge_minute keep it keys q))) =
         min (\<Sum>k \<in> {k \<in> set it. merged_key keep k = q}. unat (ct_packets (the (keys k)))) MaxCount" by blast+
qed

section \<open>Ranking\<close>

text \<open>The first \<open>n\<close> of a sorted list: nothing left out ranks before something kept.\<close>

lemma take_sorted_best:
  assumes "x \<in> set (take n (sort_key f xs))" "y \<in> set xs" "y \<notin> set (take n (sort_key f xs))"
  shows "f x \<le> f y"
proof -
  have "y \<in> set (sort_key f xs)" using assms(2) by simp
  then have "y \<in> set (drop n (sort_key f xs))"
    using assms(3) by (metis UnE append_take_drop_id set_append)
  moreover have "sorted (map f (take n (sort_key f xs) @ drop n (sort_key f xs)))" by simp
  ultimately show ?thesis using assms(1) by (auto simp del: append_take_drop_id simp: sorted_append)
qed

lemma largestASNs_card: "card (largestASNs asns byASN n) \<le> n"
  unfolding largestASNs_def by (rule order_trans [OF card_length]) simp

lemma largestASNs_best:
  assumes "x \<in> largestASNs asns byASN n" "y \<in> set asns" "y \<notin> largestASNs asns byASN n"
  shows "uint (the (byASN y)) \<le> uint (the (byASN x))"
  using take_sorted_best [of x n "\<lambda>asn. (- uint (the (byASN asn)), uint asn)" asns y] assms
  by (auto simp: largestASNs_def less_eq_prod_def)

lemma asn_totals_sum:
  "asn_totals it keys g n =
     (if n \<noteq> OtherASN \<and> filter (\<lambda>k. group_of k = g \<and> mk_ASN k = n) it \<noteq> []
      then Some (sum_list (map (\<lambda>k. ct_bytes (the (keys k))) (filter (\<lambda>k. group_of k = g \<and> mk_ASN k = n) it)))
      else None)"
proof (induction it rule: rev_induct)
  case (snoc k it)
  have "asn_totals (it @ [k]) keys g n =
     (if mk_ASN k \<noteq> OtherASN \<and> group_of k = g \<and> mk_ASN k = n
      then Some ((case asn_totals it keys g n of None \<Rightarrow> 0 | Some m \<Rightarrow> m) + ct_bytes (the (keys k)))
      else asn_totals it keys g n)"
    by (auto simp: asn_totals_def Let_def)
  with snoc show ?case by (auto simp: filter_empty_conv)
qed (simp add: asn_totals_def)

section \<open>Properties\<close>

text \<open>A minute loses no byte: adding a flow raises the total of its router, POP, upstream and
  direction by exactly the flow's bytes and leaves every other total alone, also when the key cap
  folds the flow into the other ASNs, as long as that total stays within \<open>MaxCount\<close>.\<close>

theorem add_minute_conserves:
  assumes "agg_ok a"
    and "minute_total a (base_of key) + unat (cl_Bytes c) < MaxCount"
  shows "minute_total (addMinute key c a) b =
    minute_total a b + (if b = base_of key then unat (cl_Bytes c) else 0)"
  using assms by (rule addMinute_total)

abbreviation sample_flow :: Classified where
  "sample_flow \<equiv> \<lparr>cl_POP = 1, cl_Upstream = 2, cl_Direction = Download, cl_Remote = V4 7, cl_OwnPrefix = NoPrefix,
     cl_Bytes = 1500, cl_Packets = 1\<rparr>"

theorem add_minute_conserves_witness:
  "minute_total (addMinute \<lparr>mk_RouterID = 1, mk_POP = 1, mk_Upstream = 2, mk_Direction = Download, mk_ASN = 15169\<rparr>
     sample_flow (NewAggregator 0)) (1, 1, 2, Download) = 1500"
proof -
  have z: "minute_total (NewAggregator 0) b = 0" for b
    by (simp add: minute_total_def NewAggregator_def resetMinute_def resetWindow_def)
  show ?thesis
    by (subst add_minute_conserves [OF NewAggregator_ok]) (simp_all add: z MaxCount_def base_of_def)
qed

text \<open>No sender can grow the aggregator without limit: whatever flows arrive, a router holds at most
  50,000 keys other than the other-ASN ones, a POP at most 100,000 addresses, and no stored count passes
  \<open>MaxCount\<close>; the counts the caps are checked against are the true numbers of keys.\<close>

theorem aggregator_bounded:
  "case fold (\<lambda>(r, c, asn). agg_Add r c asn) flows (NewAggregator now) of a \<Rightarrow>
     card {k \<in> keys_of a router. mk_ASN k \<noteq> OtherASN} \<le> 50000 \<and>
     ag_keysPerRouter a router = card (keys_of a router) \<and>
     card (ips_of a pop) \<le> 100000 \<and> ag_ipsPerPOP a pop = card (ips_of a pop) \<and>
     (case ag_keys a k of None \<Rightarrow> True | Some cnt \<Rightarrow> unat (ct_bytes cnt) \<le> 2 ^ 52 \<and> unat (ct_packets cnt) \<le> 2 ^ 52)"
proof -
  have ok: "agg_ok (fold (\<lambda>(r, c, asn). agg_Add r c asn) flows a)" if "agg_ok a" for a
    using that by (induction flows arbitrary: a) (auto simp: agg_Add_ok)
  from ok [OF NewAggregator_ok [of now]] agg_ok_pop [OF ok [OF NewAggregator_ok [of now]], of pop]
  show ?thesis
    unfolding agg_ok_def by (auto simp: MaxKeysPerRouter_def MaxIPsPerPOP_def MaxCount_def split: option.split)
qed

text \<open>Closing a minute reports every key once, the ASNs outside the top folded into the other ASN, each
  row carrying the exact sums of the keys folded into it (held at \<open>MaxCount\<close>), in whatever orders the maps
  are ranged over; and it opens an empty minute without touching the window.\<close>

theorem close_minute_exact:
  assumes "iterates it2 (ag_keys a)"
    and "iterates it3 (merge_minute (topASNs it1 (ag_keys a)) it2 (ag_keys a))"
    and "CloseMinute it1 it2 it3 now a = (rows, folded, a')"
    and "keep = topASNs it1 (ag_keys a)"
  shows "distinct (map mr_Key rows) \<and> mr_Key ` set rows = merged_key keep ` dom (ag_keys a) \<and>
    (\<forall>row \<in> set rows. mr_Time row = ag_minute a \<and>
       unat (mr_Bytes row) = min (\<Sum>k \<in> {k \<in> dom (ag_keys a). merged_key keep k = mr_Key row}.
          unat (ct_bytes (the (ag_keys a k)))) MaxCount \<and>
       unat (mr_Packets row) = min (\<Sum>k \<in> {k \<in> dom (ag_keys a). merged_key keep k = mr_Key row}.
          unat (ct_packets (the (ag_keys a k)))) MaxCount) \<and>
    folded = ag_foldedFlows a \<and> a' = resetMinute now a \<and> ag_ips a' = ag_ips a"
proof -
  let ?m = "merge_minute keep it2 (ag_keys a)"
  have it2: "distinct it2" "set it2 = dom (ag_keys a)" using assms(1) by (simp_all add: iterates_def)
  note spec = merge_minute_spec [OF it2(1), where keep = keep and keys = "ag_keys a", unfolded it2(2)]
  have "x \<in> dom ?m \<longleftrightarrow> x \<in> merged_key keep ` dom (ag_keys a)" for x using spec(1) [of x] by (simp add: domIff)
  then have it3: "distinct it3" "set it3 = merged_key keep ` dom (ag_keys a)"
    using assms(2) by (simp_all add: iterates_def assms(4) [symmetric] set_eq_iff)
  have rows: "rows = minute_rows (ag_minute a) ?m it3" and rest: "folded = ag_foldedFlows a" "a' = resetMinute now a"
    using assms(3) by (simp_all add: CloseMinute_def Let_def assms(4))
  have keys: "map mr_Key rows = it3" by (simp add: rows minute_rows_def o_def)
  have "mr_Key ` set rows = set it3" unfolding keys [symmetric] by simp
  moreover have "mr_Time row = ag_minute a \<and> unat (mr_Bytes row) = min (\<Sum>k \<in> {k \<in> dom (ag_keys a). merged_key keep k = mr_Key row}.
          unat (ct_bytes (the (ag_keys a k)))) MaxCount \<and>
       unat (mr_Packets row) = min (\<Sum>k \<in> {k \<in> dom (ag_keys a). merged_key keep k = mr_Key row}.
          unat (ct_packets (the (ag_keys a k)))) MaxCount" if row: "row \<in> set rows" for row
  proof -
    obtain q where q: "q \<in> set it3" "row = \<lparr>mr_Time = ag_minute a, mr_Key = q, mr_Bytes = ct_bytes (the (?m q)),
        mr_Packets = ct_packets (the (?m q))\<rparr>" using row by (auto simp: rows minute_rows_def)
    with spec(2) [of q] show ?thesis by (simp add: it3(2))
  qed
  ultimately show ?thesis using it3 rest by (simp add: keys resetMinute_def)
qed

definition asn_key :: "u32 \<Rightarrow> MinuteKey" where
  "asn_key n = \<lparr>mk_RouterID = 1, mk_POP = 1, mk_Upstream = 2, mk_Direction = Download, mk_ASN = n\<rparr>"

theorem close_minute_exact_witness:
  "\<exists>row folded a'. CloseMinute [asn_key 1] [asn_key 1] [merged_key (topASNs [asn_key 1] [asn_key 1 \<mapsto> \<lparr>ct_bytes = 1500, ct_packets = 2\<rparr>]) (asn_key 1)] 60
       (NewAggregator 0\<lparr>ag_keys := [asn_key 1 \<mapsto> \<lparr>ct_bytes = 1500, ct_packets = 2\<rparr>]\<rparr>) = ([row], folded, a') \<and>
     unat (mr_Bytes row) = 1500"
proof -
  let ?k = "asn_key 1"
  let ?keys = "[?k \<mapsto> \<lparr>ct_bytes = 1500 :: u64, ct_packets = 2 :: u64\<rparr>]"
  let ?a = "NewAggregator 0\<lparr>ag_keys := ?keys\<rparr>" and ?keep = "topASNs [?k] ?keys"
  obtain rows folded a' where c: "CloseMinute [?k] [?k] [merged_key ?keep ?k] 60 ?a = (rows, folded, a')"
    by (cases "CloseMinute [?k] [?k] [merged_key ?keep ?k] 60 ?a")
  have it: "iterates [?k] (ag_keys ?a)" by (simp add: iterates_def)
  have it3: "iterates [merged_key ?keep ?k] (merge_minute (topASNs [?k] (ag_keys ?a)) [?k] (ag_keys ?a))"
    by (simp add: iterates_def merge_minute_def addCounter_def)
  note r = close_minute_exact [OF it it3 c, of ?keep]
  have len: "length rows = 1" using c by (auto simp: CloseMinute_def minute_rows_def Let_def)
  then obtain row where row: "rows = [row]" by (auto simp: length_Suc_conv)
  from r have "mr_Key row = merged_key ?keep ?k" by (simp add: row)
  with r have "unat (mr_Bytes row) = min (\<Sum>j \<in> {j \<in> dom ?keys. merged_key ?keep j = merged_key ?keep ?k}.
      unat (ct_bytes (the (?keys j)))) MaxCount" by (simp add: row)
  also have "{j \<in> dom ?keys. merged_key ?keep j = merged_key ?keep ?k} = {?k}" by auto
  finally have "unat (mr_Bytes row) = 1500" by (simp add: MaxCount_def)
  with c row show ?thesis by blast
qed

text \<open>At most twenty ASNs of a router, POP and direction keep rows of their own, none of them the other
  ASN, and an ASN that loses its row carried no more bytes (over all upstreams) than each one that keeps it.\<close>

theorem top_asns_rank:
  assumes "k \<in> set it" "group_of k = g" "mk_ASN k \<noteq> OtherASN"
    and "\<not> topASNs it keys g (mk_ASN k)" and "topASNs it keys g asn"
  shows "card {asn. topASNs it keys g asn} \<le> 20 \<and> asn \<noteq> OtherASN \<and>
    uint (sum_list (map (\<lambda>k. ct_bytes (the (keys k))) (filter (\<lambda>j. group_of j = g \<and> mk_ASN j = mk_ASN k) it)))
      \<le> uint (sum_list (map (\<lambda>k. ct_bytes (the (keys k))) (filter (\<lambda>j. group_of j = g \<and> mk_ASN j = asn) it)))"
proof -
  let ?asns = "remdups (map mk_ASN (filter (\<lambda>k. group_of k = g \<and> mk_ASN k \<noteq> OtherASN) it))"
  let ?L = "largestASNs ?asns (asn_totals it keys g) TopASNs"
  have top: "topASNs it keys g x \<longleftrightarrow> x \<in> ?L" for x by (simp only: topASNs_def)
  have "?L \<subseteq> set ?asns" unfolding largestASNs_def by (rule subset_trans [OF set_take_subset]) (simp only: set_sort)
  then have "asn \<in> set ?asns" using assms(5) unfolding top by blast
  then have asn: "asn \<noteq> OtherASN" "filter (\<lambda>j. group_of j = g \<and> mk_ASN j = asn) it \<noteq> []" by (auto simp: filter_empty_conv)
  have lost: "filter (\<lambda>j. group_of j = g \<and> mk_ASN j = mk_ASN k) it \<noteq> []" using assms(1,2) by (auto simp: filter_empty_conv)
  have "mk_ASN k \<in> set ?asns" using assms(1-3) by auto
  then have "uint (the (asn_totals it keys g (mk_ASN k))) \<le> uint (the (asn_totals it keys g asn))"
    using assms(4,5) unfolding top by (intro largestASNs_best)
  moreover have "card {x. topASNs it keys g x} \<le> 20"
    unfolding top using largestASNs_card [of ?asns "asn_totals it keys g" TopASNs] by (simp add: TopASNs_def)
  ultimately show ?thesis using asn lost assms(3) by (simp add: asn_totals_sum)
qed

definition many_keys :: "MinuteKey list" where
  "many_keys = map asn_key [1, 2, 3, 4, 5, 6, 7, 8, 9, 10, 11, 12, 13, 14, 15, 16, 17, 18, 19, 20, 21]"

theorem top_asns_rank_witness:
  "\<exists>k \<in> set many_keys. \<exists>asn. topASNs many_keys (\<lambda>_. Some zero_counter) (group_of (asn_key 1)) asn \<and>
     \<not> topASNs many_keys (\<lambda>_. Some zero_counter) (group_of (asn_key 1)) (mk_ASN k) \<and>
     card {asn. topASNs many_keys (\<lambda>_. Some zero_counter) (group_of (asn_key 1)) asn} \<le> 20"
proof -
  let ?g = "group_of (asn_key 1)"
  define asns where "asns = remdups (map mk_ASN (filter (\<lambda>k. group_of k = ?g \<and> mk_ASN k \<noteq> OtherASN) many_keys))"
  define srt where "srt = sort_key (\<lambda>asn. (- uint (the (asn_totals many_keys (\<lambda>_. Some zero_counter) ?g asn)), uint asn)) asns"
  have len: "length asns = 21" unfolding asns_def many_keys_def asn_key_def group_of_def OtherASN_def by simp
  have srt: "length srt = 21" "distinct srt" "set srt = set asns"
    using len by (simp_all add: srt_def) (simp add: asns_def)
  have top: "topASNs many_keys (\<lambda>_. Some zero_counter) ?g n \<longleftrightarrow> n \<in> set (take 20 srt)" for n
    by (simp add: topASNs_def largestASNs_def TopASNs_def srt_def asns_def)
  have "srt ! 0 \<in> set (take 20 srt)" using srt(1) by (simp add: in_set_conv_nth) (rule exI [of _ 0], simp)
  then have kept: "topASNs many_keys (\<lambda>_. Some zero_counter) ?g (srt ! 0)" by (simp add: top)
  have "srt ! 20 \<notin> set (take 20 srt)" using srt(1,2) by (auto simp: in_set_conv_nth nth_eq_iff_index_eq)
  then have lost: "\<not> topASNs many_keys (\<lambda>_. Some zero_counter) ?g (srt ! 20)" by (simp add: top)
  have "srt ! 20 \<in> set asns" using srt(1,3) nth_mem [of 20 srt] by simp
  then obtain k where k: "k \<in> set many_keys" "group_of k = ?g" "mk_ASN k \<noteq> OtherASN" "mk_ASN k = srt ! 20"
    by (auto simp: asns_def)
  from top_asns_rank [OF k(1-3) _ kept] lost have "card {asn. topASNs many_keys (\<lambda>_. Some zero_counter) ?g asn} \<le> 20" by (simp add: k(4))
  moreover have "\<not> topASNs many_keys (\<lambda>_. Some zero_counter) ?g (mk_ASN k)" using lost by (simp add: k(4))
  ultimately show ?thesis using k(1) kept by blast
qed

text \<open>Closing a window keeps for each router, POP and direction at most the hundred largest addresses,
  each with the bytes counted for it: no address left out has more bytes than one kept, whatever order the
  map is ranged over and ties are sorted in.\<close>

theorem close_window_top:
  assumes "iterates it (ag_ips a)" and "set gs = ik_group ` dom (ag_ips a)"
    and "CloseWindow it gs ito now a = (rows, own, a')"
  shows "rows = concat (map (top_group it a) gs) \<and>
    (\<forall>g \<in> set gs. length (top_group it a g) = min 100 (card {k \<in> dom (ag_ips a). ik_group k = g}) \<and>
       set (top_group it a g) \<subseteq> ip_row a ` {k \<in> dom (ag_ips a). ik_group k = g} \<and>
       (\<forall>row \<in> set (top_group it a g). \<forall>k \<in> dom (ag_ips a). ik_group k = g \<longrightarrow>
          ip_row a k \<notin> set (top_group it a g) \<longrightarrow> uint (ic_bytes (the (ag_ips a k))) \<le> uint (ti_Bytes row))) \<and>
    ag_ips a' = (\<lambda>_. None) \<and> ag_keys a' = ag_keys a"
proof -
  have it: "set it = dom (ag_ips a)" "distinct it" using assms(1) by (simp_all add: iterates_def)
  have "length (top_group it a g) = min 100 (card {k \<in> dom (ag_ips a). ik_group k = g}) \<and>
       set (top_group it a g) \<subseteq> ip_row a ` {k \<in> dom (ag_ips a). ik_group k = g} \<and>
       (\<forall>row \<in> set (top_group it a g). \<forall>k \<in> dom (ag_ips a). ik_group k = g \<longrightarrow>
          ip_row a k \<notin> set (top_group it a g) \<longrightarrow> uint (ic_bytes (the (ag_ips a k))) \<le> uint (ti_Bytes row))" for g
  proof -
    let ?ks = "filter (\<lambda>k. ik_group k = g) it" and ?f = "\<lambda>row. - uint (ti_Bytes row)"
    have tg: "top_group it a g = take TopIPs (sort_key ?f (map (ip_row a) ?ks))" by (simp only: top_group_def)
    have ks: "set ?ks = {k \<in> dom (ag_ips a). ik_group k = g}" using it by auto
    have "length ?ks = card {k \<in> dom (ag_ips a). ik_group k = g}"
      using it(2) by (simp only: ks [symmetric]) (rule distinct_card [symmetric], simp)
    then have "length (top_group it a g) = min 100 (card {k \<in> dom (ag_ips a). ik_group k = g})"
      by (simp add: tg TopIPs_def)
    moreover have "set (top_group it a g) \<subseteq> ip_row a ` {k \<in> dom (ag_ips a). ik_group k = g}"
      unfolding tg by (rule subset_trans [OF set_take_subset]) (simp add: ks [symmetric])
    moreover have "uint (ic_bytes (the (ag_ips a k))) \<le> uint (ti_Bytes row)"
      if "row \<in> set (top_group it a g)" "k \<in> dom (ag_ips a)" "ik_group k = g" "ip_row a k \<notin> set (top_group it a g)" for row k
    proof -
      have "ip_row a k \<in> set (map (ip_row a) ?ks)" using that(2,3) it(1) by auto
      then have "?f row \<le> ?f (ip_row a k)" using that(1,4) unfolding tg by (rule_tac take_sorted_best)
      then show ?thesis by (simp add: ip_row_def Let_def)
    qed
    ultimately show ?thesis by blast
  qed
  moreover have "rows = concat (map (top_group it a) gs)" "a' = resetWindow now a"
    using assms(3) by (simp_all add: CloseWindow_def)
  ultimately show ?thesis by (simp add: resetWindow_def)
qed

theorem close_window_top_witness:
  "\<exists>rows own a'. CloseWindow [\<lparr>ik_group = group_of (asn_key 1), ik_ip = V4 7\<rparr>] [group_of (asn_key 1)] [] 0 (NewAggregator 0\<lparr>ag_ips := [\<lparr>ik_group = group_of (asn_key 1), ik_ip = V4 7\<rparr> \<mapsto> \<lparr>ic_asn = 5, ic_bytes = 10, ic_flows = 1\<rparr>]\<rparr>) = (rows, own, a') \<and>
     length (top_group [\<lparr>ik_group = group_of (asn_key 1), ik_ip = V4 7\<rparr>] (NewAggregator 0\<lparr>ag_ips := [\<lparr>ik_group = group_of (asn_key 1), ik_ip = V4 7\<rparr> \<mapsto> \<lparr>ic_asn = 5, ic_bytes = 10, ic_flows = 1\<rparr>]\<rparr>) (group_of (asn_key 1))) = 1 \<and>
     ag_ips a' = (\<lambda>_. None)"
proof -
  let ?k = "\<lparr>ik_group = group_of (asn_key 1), ik_ip = V4 7\<rparr>" and ?cnt = "\<lparr>ic_asn = 5, ic_bytes = 10, ic_flows = 1\<rparr>"
  let ?a = "NewAggregator 0\<lparr>ag_ips := [?k \<mapsto> ?cnt]\<rparr>"
  obtain rows own a' where c: "CloseWindow [?k] [group_of (asn_key 1)] [] 0 ?a = (rows, own, a')"
    by (cases "CloseWindow [?k] [group_of (asn_key 1)] [] 0 ?a")
  have "iterates [?k] (ag_ips ?a)" "set [group_of (asn_key 1)] = ik_group ` dom (ag_ips ?a)" by (simp_all add: iterates_def)
  note r = close_window_top [OF this c]
  have "{j \<in> dom (ag_ips ?a). ik_group j = group_of (asn_key 1)} = {?k}" by auto
  with r have "length (top_group [?k] ?a (group_of (asn_key 1))) = 1" by (simp del: top_group_def)
  with r c show ?thesis by blast
qed

end
