(* ===== verification/Jobs.thy ===== *)
theory Jobs
  imports Prelude
begin

text \<open>
  Provisioning jobs: the two status machines of \<open>services/job_state_machine.go\<close> and the job
  service of \<open>services/job_service.go\<close> over the table \<open>provisioning_jobs\<close> with the partial unique index
  of \<open>migrations/09_create_provisioning_tables.sql\<close> (one running job per ONT). Statuses are the
  strings the code compares. A status update is a read, checks and a write that are not one
  transaction, so the check and the write are modelled apart and may see different tables.

  The locale \<open>status_machine\<close> is what both machines promise: a transition leads forward only.
\<close>

section \<open>Statuses\<close>

definition ProvisioningStatusPending :: string where "ProvisioningStatusPending = ''pending''"
definition ProvisioningStatusRunning :: string where "ProvisioningStatusRunning = ''running''"
definition ProvisioningStatusSuccess :: string where "ProvisioningStatusSuccess = ''success''"
definition ProvisioningStatusFailed :: string where "ProvisioningStatusFailed = ''failed''"
definition ProvisioningStatusRolledBack :: string where "ProvisioningStatusRolledBack = ''rolled_back''"

definition BatchStatusPending :: string where "BatchStatusPending = ''pending''"
definition BatchStatusRunning :: string where "BatchStatusRunning = ''running''"
definition BatchStatusSuccess :: string where "BatchStatusSuccess = ''success''"
definition BatchStatusFailed :: string where "BatchStatusFailed = ''failed''"
definition BatchStatusPartialRollback :: string where "BatchStatusPartialRollback = ''partial_rollback''"

lemmas status_defs =
  ProvisioningStatusPending_def ProvisioningStatusRunning_def ProvisioningStatusSuccess_def
  ProvisioningStatusFailed_def ProvisioningStatusRolledBack_def
  BatchStatusPending_def BatchStatusRunning_def BatchStatusSuccess_def BatchStatusFailed_def
  BatchStatusPartialRollback_def

definition isValidProvisioningStatus :: "string \<Rightarrow> bool" where
  "isValidProvisioningStatus status \<longleftrightarrow>
     status \<in> set [ProvisioningStatusPending, ProvisioningStatusRunning, ProvisioningStatusSuccess,
                   ProvisioningStatusFailed, ProvisioningStatusRolledBack]"

definition provisioning_allowed :: "(string \<times> string list) list" where
  "provisioning_allowed =
     [(ProvisioningStatusPending, [ProvisioningStatusRunning]),
      (ProvisioningStatusRunning, [ProvisioningStatusSuccess, ProvisioningStatusFailed]),
      (ProvisioningStatusFailed, [ProvisioningStatusRolledBack]),
      (ProvisioningStatusSuccess, []),
      (ProvisioningStatusRolledBack, [])]"

definition isValidProvisioningTransition :: "string \<Rightarrow> string \<Rightarrow> bool" where
  "isValidProvisioningTransition from to =
     (case map_of provisioning_allowed from of
        None \<Rightarrow> False
      | Some toStates \<Rightarrow> list_ex (\<lambda>candidate. candidate = to) toStates)"

definition isProvisioningTerminal :: "string \<Rightarrow> bool" where
  "isProvisioningTerminal status \<longleftrightarrow>
     status = ProvisioningStatusSuccess \<or> status = ProvisioningStatusFailed \<or> status = ProvisioningStatusRolledBack"

definition isValidBatchStatus :: "string \<Rightarrow> bool" where
  "isValidBatchStatus status \<longleftrightarrow>
     status \<in> set [BatchStatusPending, BatchStatusRunning, BatchStatusSuccess, BatchStatusFailed,
                   BatchStatusPartialRollback]"

definition batch_allowed :: "(string \<times> string list) list" where
  "batch_allowed =
     [(BatchStatusPending, [BatchStatusRunning]),
      (BatchStatusRunning, [BatchStatusSuccess, BatchStatusFailed, BatchStatusPartialRollback]),
      (BatchStatusSuccess, []), (BatchStatusFailed, []), (BatchStatusPartialRollback, [])]"

definition isValidBatchTransition :: "string \<Rightarrow> string \<Rightarrow> bool" where
  "isValidBatchTransition from to =
     (case map_of batch_allowed from of
        None \<Rightarrow> False
      | Some toStates \<Rightarrow> list_ex (\<lambda>candidate. candidate = to) toStates)"

definition isBatchTerminal :: "string \<Rightarrow> bool" where
  "isBatchTerminal status \<longleftrightarrow>
     status = BatchStatusSuccess \<or> status = BatchStatusFailed \<or> status = BatchStatusPartialRollback"

section \<open>The contract of a status machine\<close>

text \<open>\<open>path step xs\<close>: each status of \<open>xs\<close> follows from the one before by a step.\<close>

fun path :: "('s \<Rightarrow> 's \<Rightarrow> bool) \<Rightarrow> 's list \<Rightarrow> bool" where
  "path step (x # y # xs) = (step x y \<and> path step (y # xs))"
| "path step _ = True"

locale status_machine =
  fixes valid :: "'s \<Rightarrow> bool"
    and step :: "'s \<Rightarrow> 's \<Rightarrow> bool"
    and rank :: "'s \<Rightarrow> nat"
    and limit :: nat
  assumes step_valid: "step x y \<Longrightarrow> valid x \<and> valid y"
    and step_rank: "step x y \<Longrightarrow> rank x < rank y"
    and rank_limit: "valid x \<Longrightarrow> rank x \<le> limit"
begin

lemma path_ranks: "path step xs \<Longrightarrow> sorted_wrt (\<lambda>x y. rank x < rank y) xs"
proof (induction xs)
  case (Cons x xs)
  show ?case
  proof (cases xs)
    case (Cons y ys)
    with Cons.prems have xy: "rank x < rank y" and p: "path step xs" by (simp_all add: step_rank)
    from Cons.IH [OF p] have "\<forall>z \<in> set ys. rank y < rank z" by (simp add: Cons)
    with xy Cons.IH [OF p] show ?thesis by (auto simp: Cons)
  qed simp
qed simp

lemma path_valid: "path step (x # y # xs) \<Longrightarrow> \<forall>z \<in> set (x # y # xs). valid z"
proof (induction xs arbitrary: x y)
  case (Cons z xs)
  then show ?case using step_valid by fastforce
qed (use step_valid in auto)

text \<open>No status comes back, and a job changes status at most \<open>limit\<close> times.\<close>

lemma path_distinct: "path step xs \<Longrightarrow> distinct xs"
proof -
  assume "path step xs"
  then have "sorted_wrt (\<lambda>x y. rank x < rank y) xs" by (rule path_ranks)
  then show ?thesis by (induction xs) auto
qed

lemma path_bounded: "path step xs \<Longrightarrow> length xs \<le> limit + 1"
proof (cases "length xs \<le> 1")
  case False
  assume p: "path step xs"
  from two_elements [OF False] obtain x y ys where xs: "xs = x # y # ys" by blast
  have ranks: "distinct (map rank xs)"
    using path_ranks [OF p] by (induction xs) auto
  have "\<forall>z \<in> set xs. valid z" using path_valid p unfolding xs by blast
  then have "set (map rank xs) \<subseteq> {0..limit}" using rank_limit by auto
  then have "card (set (map rank xs)) \<le> limit + 1" by (metis card_atLeastAtMost card_mono finite_atLeastAtMost diff_zero Suc_eq_plus1)
  with ranks show ?thesis by (metis distinct_card length_map)
qed simp

end

definition provisioning_rank :: "string \<Rightarrow> nat" where
  "provisioning_rank s =
     (if s = ProvisioningStatusPending then 0 else if s = ProvisioningStatusRunning then 1
      else if s = ProvisioningStatusRolledBack then 3 else 2)"

definition batch_rank :: "string \<Rightarrow> nat" where
  "batch_rank s = (if s = BatchStatusPending then 0 else if s = BatchStatusRunning then 1 else 2)"

lemma statuses_differ [simp]:
  "ProvisioningStatusPending \<noteq> ProvisioningStatusRunning" "ProvisioningStatusPending \<noteq> ProvisioningStatusSuccess" "ProvisioningStatusPending \<noteq> ProvisioningStatusFailed" "ProvisioningStatusPending \<noteq> ProvisioningStatusRolledBack"
  "ProvisioningStatusRunning \<noteq> ProvisioningStatusPending" "ProvisioningStatusRunning \<noteq> ProvisioningStatusSuccess" "ProvisioningStatusRunning \<noteq> ProvisioningStatusFailed" "ProvisioningStatusRunning \<noteq> ProvisioningStatusRolledBack"
  "ProvisioningStatusSuccess \<noteq> ProvisioningStatusPending" "ProvisioningStatusSuccess \<noteq> ProvisioningStatusRunning" "ProvisioningStatusSuccess \<noteq> ProvisioningStatusFailed" "ProvisioningStatusSuccess \<noteq> ProvisioningStatusRolledBack"
  "ProvisioningStatusFailed \<noteq> ProvisioningStatusPending" "ProvisioningStatusFailed \<noteq> ProvisioningStatusRunning" "ProvisioningStatusFailed \<noteq> ProvisioningStatusSuccess" "ProvisioningStatusFailed \<noteq> ProvisioningStatusRolledBack"
  "ProvisioningStatusRolledBack \<noteq> ProvisioningStatusPending" "ProvisioningStatusRolledBack \<noteq> ProvisioningStatusRunning" "ProvisioningStatusRolledBack \<noteq> ProvisioningStatusSuccess" "ProvisioningStatusRolledBack \<noteq> ProvisioningStatusFailed"
  "BatchStatusPending \<noteq> BatchStatusRunning" "BatchStatusPending \<noteq> BatchStatusSuccess" "BatchStatusPending \<noteq> BatchStatusFailed" "BatchStatusPending \<noteq> BatchStatusPartialRollback"
  "BatchStatusRunning \<noteq> BatchStatusPending" "BatchStatusRunning \<noteq> BatchStatusSuccess" "BatchStatusRunning \<noteq> BatchStatusFailed" "BatchStatusRunning \<noteq> BatchStatusPartialRollback"
  "BatchStatusSuccess \<noteq> BatchStatusPending" "BatchStatusSuccess \<noteq> BatchStatusRunning" "BatchStatusSuccess \<noteq> BatchStatusFailed" "BatchStatusSuccess \<noteq> BatchStatusPartialRollback"
  "BatchStatusFailed \<noteq> BatchStatusPending" "BatchStatusFailed \<noteq> BatchStatusRunning" "BatchStatusFailed \<noteq> BatchStatusSuccess" "BatchStatusFailed \<noteq> BatchStatusPartialRollback"
  "BatchStatusPartialRollback \<noteq> BatchStatusPending" "BatchStatusPartialRollback \<noteq> BatchStatusRunning" "BatchStatusPartialRollback \<noteq> BatchStatusSuccess" "BatchStatusPartialRollback \<noteq> BatchStatusFailed"
  by (simp_all add: status_defs)

lemma provisioning_transition_iff:
  "isValidProvisioningTransition x y \<longleftrightarrow>
     x = ProvisioningStatusPending \<and> y = ProvisioningStatusRunning \<or>
     x = ProvisioningStatusRunning \<and> (y = ProvisioningStatusSuccess \<or> y = ProvisioningStatusFailed) \<or>
     x = ProvisioningStatusFailed \<and> y = ProvisioningStatusRolledBack"
  by (auto simp: isValidProvisioningTransition_def provisioning_allowed_def)

lemma batch_transition_iff:
  "isValidBatchTransition x y \<longleftrightarrow>
     x = BatchStatusPending \<and> y = BatchStatusRunning \<or>
     x = BatchStatusRunning \<and> (y = BatchStatusSuccess \<or> y = BatchStatusFailed \<or> y = BatchStatusPartialRollback)"
  by (auto simp: isValidBatchTransition_def batch_allowed_def)

interpretation provisioning: status_machine isValidProvisioningStatus isValidProvisioningTransition provisioning_rank 3
  by unfold_locales (auto simp: provisioning_transition_iff isValidProvisioningStatus_def provisioning_rank_def)

interpretation batch: status_machine isValidBatchStatus isValidBatchTransition batch_rank 2
  by unfold_locales (auto simp: batch_transition_iff isValidBatchStatus_def batch_rank_def)

section \<open>The job table\<close>

record prov_job =
  pv_id :: uuid
  pv_ont :: uuid
  pv_status :: string
  pv_error :: "string option"
  pv_completed_at :: "time option"
  pv_created_by :: uuid

datatype job_error =
    ErrInvalidStatus
  | ErrJobNotFound
  | ErrInvalidTransition string string
  | ErrAnotherJobRunning
  | ErrRunningIndex \<comment> \<open>\<open>uq_provisioning_jobs_running_ont\<close>\<close>
  | ErrDuplicateJob

definition find_job :: "uuid \<Rightarrow> prov_job list \<Rightarrow> prov_job option" where
  "find_job i tbl = List.find (\<lambda>j. pv_id j = i) tbl"

definition ensureNoRunningJob :: "uuid \<Rightarrow> prov_job list \<Rightarrow> bool" where
  "ensureNoRunningJob ont tbl \<longleftrightarrow>
     \<not> length (filter (\<lambda>j. pv_ont j = ont \<and> pv_status j = ProvisioningStatusRunning) tbl) > 0"

definition insert_job :: "prov_job \<Rightarrow> prov_job list \<Rightarrow> job_error + prov_job list" where
  "insert_job job tbl = (if pv_id job \<in> pv_id ` set tbl then Inl ErrDuplicateJob else Inr (tbl @ [job]))"

text \<open>\<open>i\<close> is the key \<open>uuid.New\<close> answered; \<open>tblR\<close> the table the check reads, \<open>tbl\<close> the one the insert meets.\<close>

definition CreateProvisioningJob ::
  "uuid \<Rightarrow> uuid \<Rightarrow> uuid \<Rightarrow> prov_job list \<Rightarrow> prov_job list \<Rightarrow> job_error + (prov_job \<times> prov_job list)" where
  "CreateProvisioningJob i ont user tblR tbl =
     (if \<not> ensureNoRunningJob ont tblR then Inl ErrAnotherJobRunning
      else let job = \<lparr>pv_id = i, pv_ont = ont, pv_status = ProvisioningStatusPending, pv_error = None,
                      pv_completed_at = None, pv_created_by = user\<rparr>
           in case insert_job job tbl of Inl e \<Rightarrow> Inl e | Inr tbl' \<Rightarrow> Inr (job, tbl'))"

definition GetProvisioningJob :: "uuid \<Rightarrow> prov_job list \<Rightarrow> job_error + prov_job" where
  "GetProvisioningJob i tbl = (case find_job i tbl of None \<Rightarrow> Inl ErrJobNotFound | Some j \<Rightarrow> Inr j)"

definition update_check :: "uuid \<Rightarrow> string \<Rightarrow> prov_job list \<Rightarrow> job_error option" where
  "update_check i newStatus tbl =
     (if \<not> isValidProvisioningStatus newStatus then Some ErrInvalidStatus
      else (case GetProvisioningJob i tbl of
              Inl e \<Rightarrow> Some e
            | Inr current \<Rightarrow>
                if \<not> isValidProvisioningTransition (pv_status current) newStatus
                then Some (ErrInvalidTransition (pv_status current) newStatus)
                else if newStatus = ProvisioningStatusRunning \<and> \<not> ensureNoRunningJob (pv_ont current) tbl
                then Some ErrAnotherJobRunning
                else None))"

text \<open>\<open>UPDATE ... WHERE id = ?\<close>: no row is no error; the index refuses a second running job of an ONT.\<close>

definition update_write ::
  "uuid \<Rightarrow> string \<Rightarrow> string option \<Rightarrow> time \<Rightarrow> prov_job list \<Rightarrow> job_error + prov_job list" where
  "update_write i newStatus err now tbl =
     (case find_job i tbl of
        None \<Rightarrow> Inr tbl
      | Some job \<Rightarrow>
          if newStatus = ProvisioningStatusRunning \<and>
             list_ex (\<lambda>j. pv_id j \<noteq> i \<and> pv_ont j = pv_ont job \<and> pv_status j = ProvisioningStatusRunning) tbl
          then Inl ErrRunningIndex
          else Inr (update_where (\<lambda>j. pv_id j = i)
            (\<lambda>j. j\<lparr>pv_status := newStatus,
                   pv_completed_at := (if isProvisioningTerminal newStatus then Some now else pv_completed_at j),
                   pv_error := (case err of Some m \<Rightarrow> Some m | None \<Rightarrow> pv_error j)\<rparr>) tbl))"

definition UpdateStatusProvisioning ::
  "uuid \<Rightarrow> string \<Rightarrow> string option \<Rightarrow> time \<Rightarrow> prov_job list \<Rightarrow> prov_job list \<Rightarrow> job_error + prov_job list" where
  "UpdateStatusProvisioning i newStatus err now tblR tbl =
     (case update_check i newStatus tblR of
        Some e \<Rightarrow> Inl e
      | None \<Rightarrow> update_write i newStatus err now tbl)"

section \<open>The invariant of the table\<close>

definition one_running :: "prov_job list \<Rightarrow> bool" where
  "one_running tbl \<longleftrightarrow>
     (\<forall>j \<in> set tbl. \<forall>k \<in> set tbl. pv_ont j = pv_ont k \<longrightarrow> pv_status j = ProvisioningStatusRunning \<longrightarrow>
        pv_status k = ProvisioningStatusRunning \<longrightarrow> pv_id j = pv_id k)"

definition jobs_ok :: "prov_job list \<Rightarrow> bool" where
  "jobs_ok tbl \<longleftrightarrow> distinct (map pv_id tbl) \<and> one_running tbl"

lemma one_runningD:
  "one_running tbl \<Longrightarrow> j \<in> set tbl \<Longrightarrow> k \<in> set tbl \<Longrightarrow> pv_ont j = pv_ont k \<Longrightarrow>
     pv_status j = ProvisioningStatusRunning \<Longrightarrow> pv_status k = ProvisioningStatusRunning \<Longrightarrow> pv_id j = pv_id k"
  unfolding one_running_def by blast

lemma one_runningI:
  "(\<And>j k. j \<in> set tbl \<Longrightarrow> k \<in> set tbl \<Longrightarrow> pv_ont j = pv_ont k \<Longrightarrow> pv_status j = ProvisioningStatusRunning \<Longrightarrow>
      pv_status k = ProvisioningStatusRunning \<Longrightarrow> pv_id j = pv_id k) \<Longrightarrow> one_running tbl"
  unfolding one_running_def by blast

lemma one_running_sub:
  "one_running tbl \<Longrightarrow> (\<And>j. j \<in> set tbl' \<Longrightarrow> pv_status j = ProvisioningStatusRunning \<Longrightarrow> j \<in> set tbl) \<Longrightarrow> one_running tbl'"
  unfolding one_running_def by blast

lemma insert_pending_ok:
  assumes "jobs_ok tbl" "pv_status job = ProvisioningStatusPending" "insert_job job tbl = Inr tbl'"
  shows "jobs_ok tbl'"
proof -
  from assms(3) have t: "pv_id job \<notin> pv_id ` set tbl" "tbl' = tbl @ [job]"
    by (cases "pv_id job \<in> pv_id ` set tbl"; simp add: insert_job_def)+
  have "one_running tbl'" using assms(1,2) by (rule_tac one_running_sub [of tbl]) (auto simp: t jobs_ok_def)
  with assms(1) t show ?thesis by (auto simp: jobs_ok_def)
qed

lemma CreateProvisioningJob_ok:
  assumes "jobs_ok tbl" "CreateProvisioningJob i ont user tblR tbl = Inr (job, tbl')"
  shows "jobs_ok tbl'"
proof -
  have "insert_job job tbl = Inr tbl'" "pv_status job = ProvisioningStatusPending"
    using assms(2) by (auto simp: CreateProvisioningJob_def Let_def split: if_splits sum.splits)
  with assms(1) show ?thesis by (blast intro: insert_pending_ok)
qed

lemma update_write_ok:
  assumes ok: "jobs_ok tbl" and w: "update_write i newStatus err now tbl = Inr tbl'"
  shows "jobs_ok tbl'"
proof (cases "find_job i tbl")
  case None
  with w ok show ?thesis by (simp add: update_write_def)
next
  case (Some job)
  let ?f = "\<lambda>j. j\<lparr>pv_status := newStatus,
      pv_completed_at := (if isProvisioningTerminal newStatus then Some now else pv_completed_at j),
      pv_error := (case err of Some m \<Rightarrow> Some m | None \<Rightarrow> pv_error j)\<rparr>"
  from Some have job: "job \<in> set tbl" "pv_id job = i" by (auto simp: find_job_def find_Some_iff)
  have tbl': "tbl' = update_where (\<lambda>j. pv_id j = i) ?f tbl"
    and idx: "newStatus = ProvisioningStatusRunning \<Longrightarrow> j \<in> set tbl \<Longrightarrow> pv_id j \<noteq> i \<Longrightarrow> pv_ont j = pv_ont job
       \<Longrightarrow> pv_status j \<noteq> ProvisioningStatusRunning" for j
    using w Some by (auto simp: update_write_def list_ex_iff split: if_splits)
  have key: "j \<in> set tbl \<Longrightarrow> pv_id j = i \<Longrightarrow> j = job" for j
    using ok job by (auto simp: jobs_ok_def intro: distinct_key_unique)
  have "distinct (map pv_id tbl')" unfolding tbl' using ok by (simp add: map_update_where jobs_ok_def)
  moreover have "one_running tbl'"
  proof (rule one_runningI)
    fix j k
    assume j: "j \<in> set tbl'" and k: "k \<in> set tbl'" and same: "pv_ont j = pv_ont k"
      and run: "pv_status j = ProvisioningStatusRunning" "pv_status k = ProvisioningStatusRunning"
    have one: "one_running tbl" using ok by (simp add: jobs_ok_def)
    have split: "x \<in> set tbl \<and> pv_id x \<noteq> i \<or> x = ?f job" if "x \<in> set tbl'" for x
      using that key unfolding tbl' by (elim update_where_mem_cases) auto
    have kept: "pv_ont x \<noteq> pv_ont job"
      if "newStatus = ProvisioningStatusRunning" "x \<in> set tbl" "pv_id x \<noteq> i" "pv_status x = ProvisioningStatusRunning" for x
      using idx that by blast
    show "pv_id j = pv_id k"
      using split [OF j] split [OF k]
    proof (elim disjE conjE)
      assume "j \<in> set tbl" "k \<in> set tbl"
      with one same run show ?thesis by (rule_tac one_runningD)
    next
      assume a: "j \<in> set tbl" "pv_id j \<noteq> i" "k = ?f job"
      then have "newStatus = ProvisioningStatusRunning" "pv_ont j = pv_ont job" using run same by simp_all
      with kept a run show ?thesis by blast
    next
      assume a: "j = ?f job" "k \<in> set tbl" "pv_id k \<noteq> i"
      then have "newStatus = ProvisioningStatusRunning" "pv_ont k = pv_ont job" using run same by simp_all
      with kept a run show ?thesis by blast
    qed simp
  qed
  ultimately show ?thesis by (simp add: jobs_ok_def)
qed

section \<open>Interleaved operations\<close>

text \<open>What any number of workers do to the table: each step reads one table and writes another, any
  number of other steps having happened between the two.\<close>

datatype job_op =
    JCreate uuid uuid uuid "prov_job list"
  | JUpdate uuid string "string option" time "prov_job list"
  | JDeleteONT uuid

fun job_step :: "prov_job list \<Rightarrow> job_op \<Rightarrow> prov_job list" where
  "job_step tbl (JCreate i ont user tblR) =
     (case CreateProvisioningJob i ont user tblR tbl of Inl _ \<Rightarrow> tbl | Inr (_, tbl') \<Rightarrow> tbl')"
| "job_step tbl (JUpdate i status err now tblR) =
     (case UpdateStatusProvisioning i status err now tblR tbl of Inl _ \<Rightarrow> tbl | Inr tbl' \<Rightarrow> tbl')"
| "job_step tbl (JDeleteONT ont) = filter (\<lambda>j. pv_ont j \<noteq> ont) tbl"

lemma distinct_map_filter_key: "distinct (map f xs) \<Longrightarrow> distinct (map f (filter P xs))"
  by (induction xs) auto

lemma job_step_ok: "jobs_ok tbl \<Longrightarrow> jobs_ok (job_step tbl op)"
proof (cases op)
  case (JDeleteONT ont)
  assume "jobs_ok tbl"
  with JDeleteONT show ?thesis by (auto simp: jobs_ok_def distinct_map_filter_key intro: one_running_sub)
qed (auto simp: UpdateStatusProvisioning_def split: sum.splits option.splits
    dest: CreateProvisioningJob_ok update_write_ok)

section \<open>Properties\<close>


text \<open>A status update that succeeds on the table it checked moved the job along the documented machine,
  stamped the completion time exactly on success, failure and rollback, kept any earlier error message unless
  it was given one, and touched no other row; every refusal names its reason.\<close>

theorem update_status_exact:
  "case UpdateStatusProvisioning i new err now tbl tbl of
     Inr tbl' \<Rightarrow> \<exists>job. find_job i tbl = Some job \<and> isValidProvisioningTransition (pv_status job) new \<and>
       tbl' = map (\<lambda>j. if pv_id j = i then
           j\<lparr>pv_status := new,
             pv_completed_at := (if new \<in> {ProvisioningStatusSuccess, ProvisioningStatusFailed, ProvisioningStatusRolledBack}
                                 then Some now else pv_completed_at j),
             pv_error := (if err = None then pv_error j else err)\<rparr> else j) tbl
   | Inl e \<Rightarrow>
       (case find_job i tbl of
          None \<Rightarrow> e = (if isValidProvisioningStatus new then ErrJobNotFound else ErrInvalidStatus)
        | Some job \<Rightarrow>
            (if isValidProvisioningTransition (pv_status job) new
             then e = ErrAnotherJobRunning \<and> new = ProvisioningStatusRunning \<and> \<not> ensureNoRunningJob (pv_ont job) tbl
             else e = (if isValidProvisioningStatus new then ErrInvalidTransition (pv_status job) new else ErrInvalidStatus)))"
proof (cases "update_check i new tbl")
  case (Some e)
  then have "UpdateStatusProvisioning i new err now tbl tbl = Inl e" by (simp add: UpdateStatusProvisioning_def)
  with Some provisioning.step_valid show ?thesis
    by (auto simp: update_check_def GetProvisioningJob_def split: if_splits option.splits)
next
  case None
  then obtain job where job: "find_job i tbl = Some job" "isValidProvisioningTransition (pv_status job) new"
    "new = ProvisioningStatusRunning \<Longrightarrow> ensureNoRunningJob (pv_ont job) tbl"
    by (auto simp: update_check_def GetProvisioningJob_def split: if_splits option.splits sum.splits)
  have idx: "\<not> (new = ProvisioningStatusRunning \<and>
      list_ex (\<lambda>j. pv_id j \<noteq> i \<and> pv_ont j = pv_ont job \<and> pv_status j = ProvisioningStatusRunning) tbl)"
    using job(3) by (auto simp: ensureNoRunningJob_def filter_empty_conv list_ex_iff)
  have fin: "isProvisioningTerminal new \<longleftrightarrow> new \<in> {ProvisioningStatusSuccess, ProvisioningStatusFailed, ProvisioningStatusRolledBack}"
    by (simp add: isProvisioningTerminal_def)
  have upd: "UpdateStatusProvisioning i new err now tbl tbl = update_write i new err now tbl"
    using None by (simp add: UpdateStatusProvisioning_def)
  have "update_write i new err now tbl = Inr (update_where (\<lambda>j. pv_id j = i)
            (\<lambda>j. j\<lparr>pv_status := new, pv_completed_at := (if isProvisioningTerminal new then Some now else pv_completed_at j),
                   pv_error := (case err of Some m \<Rightarrow> Some m | None \<Rightarrow> pv_error j)\<rparr>) tbl)"
    using idx by (simp add: update_write_def job(1))
  with job(1,2) show ?thesis unfolding upd fin update_where_def by (cases err) simp_all
qed

text \<open>No job runs in circles: the statuses a job or a batch goes through never repeat, a provisioning job
  changes status at most three times and a batch at most twice.\<close>

theorem statuses_progress:
  "(path isValidProvisioningTransition ps \<longrightarrow> distinct ps \<and> length ps \<le> 4) \<and>
   (path isValidBatchTransition bs \<longrightarrow> distinct bs \<and> length bs \<le> 3)"
  using provisioning.path_distinct provisioning.path_bounded batch.path_distinct batch.path_bounded
  by fastforce

theorem statuses_progress_witness:
  "distinct [''pending'', ''running'', ''failed'', ''rolled_back'']"
  using statuses_progress [of "[''pending'', ''running'', ''failed'', ''rolled_back'']" "[]"]
  by (simp add: provisioning_transition_iff)

end
