(* ===== verification/ZteProvision.thy ===== *)
theory ZteProvision
  imports Jobs GoText
begin

text \<open>
  Registering and configuring a ZTE ONU: the request checks (\<open>services/zte_provision_validator.go\<close>),
  the command builder (\<open>zte_command_builder.go\<close>), the ONU id allocator (\<open>zte_gpon_onu_id.go\<close>), the
  Telnet command batch (\<open>connectivity/command_executor.go\<close>, \<open>command_result.go\<close>) and the job that
  carries a registration out (\<open>zte_gpon_register_service.go\<close>, \<open>zte_gpon_register_execute.go\<close>, \<open>rollback_engine.go\<close>).

  The OLT is a parameter: a function from its state and a line to its new state and its reply.
\<close>

section \<open>The request\<close>

record ZTEGPONRegisterRequest =
  rq_OLTID :: uuid
  rq_Card :: int
  rq_PON :: int
  rq_ONUIDMode :: str
  rq_ONUID :: int
  rq_SerialNumber :: str
  rq_ONUType :: str
  rq_UseVEIP :: bool
  rq_Name :: str
  rq_Description :: str
  rq_ServiceEnabled :: bool
  rq_VLANMode :: str
  rq_ServiceType :: str
  rq_VLANID :: int
  rq_DownloadProfile :: str
  rq_UploadProfile :: str
  rq_WANMode :: str
  rq_WANIPMode :: str
  rq_VLANProfile :: str
  rq_PPPoEUsername :: str
  rq_PPPoEPassword :: str

definition ZTEONUIDAuto :: str where "ZTEONUIDAuto = lit ''auto''"
definition ZTEONUIDCustom :: str where "ZTEONUIDCustom = lit ''custom''"
definition ZTEVLANModeTag :: str where "ZTEVLANModeTag = lit ''tag''"
definition ZTEVLANModeUntag :: str where "ZTEVLANModeUntag = lit ''untag''"
definition ZTEServiceInternet :: str where "ZTEServiceInternet = lit ''internet''"
definition ZTEServiceBridge :: str where "ZTEServiceBridge = lit ''bridge''"
definition ZTEWANModeWANIP :: str where "ZTEWANModeWANIP = lit ''wan_ip''"
definition ZTEWANModeSetupViaONT :: str where "ZTEWANModeSetupViaONT = lit ''setup_via_ont''"
definition ZTEWANIPModePPPoE :: str where "ZTEWANIPModePPPoE = lit ''pppoe''"
definition ZTEWANIPModeDHCP :: str where "ZTEWANIPModeDHCP = lit ''dhcp''"
definition ZTEWANIPModeStatic :: str where "ZTEWANIPModeStatic = lit ''static''"

definition minZTEONUID :: int where "minZTEONUID = 1"
definition maxZTEONUID :: int where "maxZTEONUID = 127"
definition maxZTEONUTypeLength :: nat where "maxZTEONUTypeLength = 64"
definition minVLANID :: int where "minVLANID = 1"
definition maxVLANID :: int where "maxVLANID = 4094"
definition MaxBoardID :: int where "MaxBoardID = 30"
definition MaxPonID :: int where "MaxPonID = 16"

lemmas mode_defs =
  ZTEVLANModeTag_def ZTEVLANModeUntag_def ZTEServiceInternet_def ZTEServiceBridge_def
  ZTEWANModeWANIP_def ZTEWANModeSetupViaONT_def ZTEWANIPModePPPoE_def ZTEWANIPModeDHCP_def ZTEWANIPModeStatic_def

section \<open>Character checks\<close>

definition ascii_alnum :: "nat \<Rightarrow> bool" where
  "ascii_alnum r \<longleftrightarrow> 97 \<le> r \<and> r \<le> 122 \<or> 65 \<le> r \<and> r \<le> 90 \<or> 48 \<le> r \<and> r \<le> 57"

definition isZTECommandToken :: "str \<Rightarrow> bool" where
  "isZTECommandToken v \<longleftrightarrow>
     v \<noteq> [] \<and> list_all (\<lambda>r. ascii_alnum r \<or> r = of_char (CHR ''-'') \<or> r = of_char (CHR ''_'') \<or> r = of_char (CHR ''.'')) v"

definition isZTEName :: "unicode \<Rightarrow> str \<Rightarrow> bool" where
  "isZTEName u v \<longleftrightarrow>
     trim_space v = v \<and> v \<noteq> [] \<and>
     list_all (\<lambda>r. uc_letter u r \<or> uc_digit u r \<or> r = of_char (CHR ''-'') \<or> r = of_char (CHR ''_'') \<or>
                   r = of_char (CHR ''.'') \<or> r = of_char (CHR '' '')) v"

text \<open>The characters a credential may not hold: semicolon, both quotes, bar, backquote, dollar, backslash.\<close>

definition credential_refused :: "nat set" where
  "credential_refused = {0x3B, 0x27, 0x7C, 0x60, 0x24, 0x5C, 0x22}"

definition isZTECredential :: "str \<Rightarrow> bool" where
  "isZTECredential v \<longleftrightarrow>
     v \<noteq> [] \<and> list_all (\<lambda>r. \<not> is_space r) v \<and>
     list_all (\<lambda>r. \<not> (is_control r \<or> r \<in> credential_refused)) v"

definition to_upper :: "unicode \<Rightarrow> str \<Rightarrow> str" where
  "to_upper u s = map (uc_upper u) s"

definition canonicalZTESerial :: "unicode \<Rightarrow> str \<Rightarrow> str" where
  "canonicalZTESerial u v = to_upper u (trim_space v)"

text \<open>\<open>^[A-Z0-9]{12}$\<close>.\<close>

definition zteSerialPattern :: "str \<Rightarrow> bool" where
  "zteSerialPattern s \<longleftrightarrow> length s = 12 \<and> list_all (\<lambda>r. 65 \<le> r \<and> r \<le> 90 \<or> 48 \<le> r \<and> r \<le> 57) s"

section \<open>The request validator\<close>

datatype zte_error =
    ErrOLTModel | ErrCard | ErrPON | ErrONUID | ErrONUIDMode | ErrSerial | ErrONUTypeMissing | ErrONUTypeLength
  | ErrCharacters | ErrVLANMode | ErrProfilesDiffer | ErrServiceDisabled | ErrVLANID | ErrServiceType
  | ErrWANMode | ErrBridgeWAN | ErrUntagWAN | ErrWANDetails | ErrWANIPMode | ErrCredentialsApply
  | ErrUsername | ErrPassword

definition validateZTEPosition :: "ZTEGPONRegisterRequest \<Rightarrow> zte_error option" where
  "validateZTEPosition req =
     (if rq_Card req < 1 \<or> rq_Card req > MaxBoardID then Some ErrCard
      else if rq_PON req < 1 \<or> rq_PON req > MaxPonID then Some ErrPON
      else if rq_ONUIDMode req = ZTEONUIDAuto then (if rq_ONUID req \<noteq> 0 then Some ErrONUID else None)
      else if rq_ONUIDMode req = ZTEONUIDCustom then
        (if rq_ONUID req < minZTEONUID \<or> rq_ONUID req > maxZTEONUID then Some ErrONUID else None)
      else Some ErrONUIDMode)"

definition validateZTEIdentity :: "unicode \<Rightarrow> ZTEGPONRegisterRequest \<Rightarrow> zte_error option" where
  "validateZTEIdentity u req =
     (if \<not> zteSerialPattern (to_upper u (trim_space (rq_SerialNumber req))) then Some ErrSerial
      else if trim_space (rq_ONUType req) = [] then Some ErrONUTypeMissing
      else if length (rq_ONUType req) > maxZTEONUTypeLength then Some ErrONUTypeLength
      else if \<not> isZTECommandToken (rq_ONUType req) then Some ErrCharacters
      else if trim_space (rq_Name req) \<noteq> [] \<and> \<not> isZTEName u (rq_Name req) then Some ErrCharacters
      else if trim_space (rq_Description req) \<noteq> [] \<and> \<not> isZTEName u (rq_Description req) then Some ErrCharacters
      else None)"

definition validateZTEService :: "ZTEGPONRegisterRequest \<Rightarrow> zte_error option" where
  "validateZTEService req =
     (if rq_VLANMode req \<noteq> ZTEVLANModeTag \<and> rq_VLANMode req \<noteq> ZTEVLANModeUntag then Some ErrVLANMode
      else if \<not> isZTECommandToken (rq_DownloadProfile req) \<or> \<not> isZTECommandToken (rq_UploadProfile req)
        then Some ErrCharacters
      else if rq_DownloadProfile req \<noteq> rq_UploadProfile req then Some ErrProfilesDiffer
      else if \<not> rq_ServiceEnabled req then Some ErrServiceDisabled
      else if rq_VLANID req < minVLANID \<or> rq_VLANID req > maxVLANID then Some ErrVLANID
      else if rq_ServiceType req \<noteq> ZTEServiceInternet \<and> rq_ServiceType req \<noteq> ZTEServiceBridge then Some ErrServiceType
      else None)"

definition validateZTEPPPoECredentials :: "ZTEGPONRegisterRequest \<Rightarrow> zte_error option" where
  "validateZTEPPPoECredentials req =
     (if rq_PPPoEUsername req = [] then Some ErrUsername
      else if \<not> isZTECredential (rq_PPPoEUsername req) then Some ErrUsername
      else if list_ex is_space (rq_PPPoEUsername req) then Some ErrUsername
      else if rq_PPPoEPassword req = [] then Some ErrPassword
      else if \<not> isZTECredential (rq_PPPoEPassword req) then Some ErrPassword
      else if list_ex is_space (rq_PPPoEPassword req) then Some ErrPassword
      else None)"

definition wan_ip_mode :: "str \<Rightarrow> bool" where
  "wan_ip_mode m \<longleftrightarrow> m = ZTEWANIPModePPPoE \<or> m = ZTEWANIPModeDHCP \<or> m = ZTEWANIPModeStatic"

definition validateZTEWAN :: "ZTEGPONRegisterRequest \<Rightarrow> zte_error option" where
  "validateZTEWAN req =
     (if rq_WANMode req \<noteq> ZTEWANModeWANIP \<and> rq_WANMode req \<noteq> ZTEWANModeSetupViaONT then Some ErrWANMode
      else if rq_ServiceType req = ZTEServiceBridge \<and> rq_WANMode req \<noteq> ZTEWANModeSetupViaONT then Some ErrBridgeWAN
      else if rq_VLANMode req = ZTEVLANModeUntag \<and> rq_WANMode req \<noteq> ZTEWANModeSetupViaONT then Some ErrUntagWAN
      else if rq_WANMode req = ZTEWANModeSetupViaONT then
        (if rq_WANIPMode req \<noteq> [] \<or> rq_VLANProfile req \<noteq> [] \<or> rq_PPPoEUsername req \<noteq> [] \<or> rq_PPPoEPassword req \<noteq> []
         then Some ErrWANDetails else None)
      else if \<not> wan_ip_mode (rq_WANIPMode req) then Some ErrWANIPMode
      else if \<not> isZTECommandToken (rq_VLANProfile req) then Some ErrCharacters
      else if rq_WANIPMode req \<noteq> ZTEWANIPModePPPoE then
        (if rq_PPPoEUsername req \<noteq> [] \<or> rq_PPPoEPassword req \<noteq> [] then Some ErrCredentialsApply else None)
      else validateZTEPPPoECredentials req)"

datatype olt_model = ZTEC300 | ZTEC320 | OtherOLT

definition ValidateZTEGPONRegister ::
  "unicode \<Rightarrow> ZTEGPONRegisterRequest \<Rightarrow> olt_model option \<Rightarrow> zte_error option" where
  "ValidateZTEGPONRegister u req olt =
     (if olt = None \<or> (olt \<noteq> Some ZTEC300 \<and> olt \<noteq> Some ZTEC320) then Some ErrOLTModel
      else (case validateZTEPosition req of Some e \<Rightarrow> Some e
      | None \<Rightarrow> (case validateZTEIdentity u req of Some e \<Rightarrow> Some e
      | None \<Rightarrow> (case validateZTEService req of Some e \<Rightarrow> Some e
      | None \<Rightarrow> validateZTEWAN req))))"

section \<open>The command builder\<close>

definition validateZTECommandWAN :: "ZTEGPONRegisterRequest \<Rightarrow> zte_error option" where
  "validateZTECommandWAN req =
     (if rq_WANMode req \<noteq> ZTEWANModeWANIP \<and> rq_WANMode req \<noteq> ZTEWANModeSetupViaONT then Some ErrWANMode
      else if rq_WANMode req \<noteq> ZTEWANModeWANIP then None
      else if \<not> wan_ip_mode (rq_WANIPMode req) then Some ErrWANIPMode
      else if \<not> isZTECommandToken (rq_VLANProfile req) then Some ErrCharacters
      else if rq_WANIPMode req = ZTEWANIPModePPPoE \<and>
           (\<not> isZTECredential (rq_PPPoEUsername req) \<or> \<not> isZTECredential (rq_PPPoEPassword req)) then Some ErrCharacters
      else None)"

definition validateZTECommandRequest :: "unicode \<Rightarrow> ZTEGPONRegisterRequest \<Rightarrow> int \<Rightarrow> zte_error option" where
  "validateZTECommandRequest u req onuID =
     (if rq_Card req \<le> 0 \<or> rq_PON req \<le> 0 then Some ErrCard
      else if onuID < minZTEONUID \<or> onuID > maxZTEONUID then Some ErrONUID
      else if \<not> zteSerialPattern (to_upper u (trim_space (rq_SerialNumber req))) then Some ErrSerial
      else if trim_space (rq_ONUType req) = [] then Some ErrONUTypeMissing
      else if (trim_space (rq_Name req) \<noteq> [] \<and> \<not> isZTEName u (rq_Name req)) \<or>
              (trim_space (rq_Description req) \<noteq> [] \<and> \<not> isZTEName u (rq_Description req)) \<or>
              \<not> isZTECommandToken (rq_ONUType req) \<or> \<not> isZTECommandToken (rq_DownloadProfile req) \<or>
              \<not> isZTECommandToken (rq_UploadProfile req) then Some ErrCharacters
      else if rq_DownloadProfile req \<noteq> rq_UploadProfile req then Some ErrProfilesDiffer
      else if rq_VLANMode req \<noteq> ZTEVLANModeTag \<and> rq_VLANMode req \<noteq> ZTEVLANModeUntag then Some ErrVLANMode
      else if rq_ServiceType req \<noteq> ZTEServiceInternet \<and> rq_ServiceType req \<noteq> ZTEServiceBridge then Some ErrServiceType
      else (case validateZTECommandWAN req of
              Some e \<Rightarrow> Some e
            | None \<Rightarrow>
                if \<not> rq_ServiceEnabled req then Some ErrServiceDisabled
                else if rq_VLANID req < minVLANID \<or> rq_VLANID req > maxVLANID then Some ErrVLANID
                else None))"

definition zteServiceLabel :: "ZTEGPONRegisterRequest \<Rightarrow> str" where
  "zteServiceLabel req = (if rq_ServiceType req = ZTEServiceBridge then lit ''bridge'' else lit ''internet'')"

definition onu_path :: "ZTEGPONRegisterRequest \<Rightarrow> int \<Rightarrow> str" where
  "onu_path req onuID = fmt_int (rq_Card req) @ lit ''/'' @ fmt_int (rq_PON req) @ lit '':'' @ fmt_int onuID"

definition buildZTEServicePort :: "ZTEGPONRegisterRequest \<Rightarrow> str" where
  "buildZTEServicePort req =
     (if rq_VLANMode req = ZTEVLANModeUntag
      then lit ''service-port 1 vport 1 user-vlan untagged vlan '' @ fmt_int (rq_VLANID req)
      else lit ''service-port 1 vport 1 user-vlan '' @ fmt_int (rq_VLANID req) @ lit '' vlan '' @ fmt_int (rq_VLANID req))"

definition buildZTEInterfaceSection :: "ZTEGPONRegisterRequest \<Rightarrow> int \<Rightarrow> str list" where
  "buildZTEInterfaceSection req onuID =
     [lit ''interface gpon-onu_1/'' @ onu_path req onuID] @
     (if trim_space (rq_Name req) \<noteq> [] then [lit ''name '' @ trim_space (rq_Name req)] else []) @
     (if trim_space (rq_Description req) \<noteq> [] then [lit ''description '' @ trim_space (rq_Description req)] else []) @
     [lit ''tcont 1 name '' @ zteServiceLabel req @ lit '' profile '' @ rq_DownloadProfile req,
      lit ''gemport 1 name '' @ zteServiceLabel req @ lit '' tcont 1'',
      buildZTEServicePort req,
      lit ''exit'']"

definition buildZTEONUService :: "ZTEGPONRegisterRequest \<Rightarrow> str" where
  "buildZTEONUService req =
     (if rq_VLANMode req = ZTEVLANModeUntag then lit ''service '' @ zteServiceLabel req @ lit '' gemport 1 untag''
      else lit ''service '' @ zteServiceLabel req @ lit '' gemport 1 vlan '' @ fmt_int (rq_VLANID req))"

definition wan_ip_line :: "ZTEGPONRegisterRequest \<Rightarrow> bool \<Rightarrow> str" where
  "wan_ip_line req includePassword =
     (if rq_WANIPMode req = ZTEWANIPModePPPoE then
        (let password = (if includePassword then rq_PPPoEPassword req else lit ''<redacted>'')
         in lit ''wan-ip 1 mode pppoe username '' @ rq_PPPoEUsername req @ lit '' password '' @ password @
            lit '' vlan-profile '' @ rq_VLANProfile req @ lit '' host 1'')
      else lit ''wan-ip 1 mode '' @ rq_WANIPMode req @ lit '' vlan-profile '' @ rq_VLANProfile req @ lit '' host 1'')"

definition buildZTEManagementSection :: "ZTEGPONRegisterRequest \<Rightarrow> int \<Rightarrow> bool \<Rightarrow> str list" where
  "buildZTEManagementSection req onuID includePassword =
     [lit ''pon-onu-mng gpon-onu_1/'' @ onu_path req onuID, buildZTEONUService req] @
     (if rq_UseVEIP req then [lit ''vlan port veip_1 mode tag vlan '' @ fmt_int (rq_VLANID req)] else []) @
     (if rq_ServiceType req = ZTEServiceBridge \<or> rq_WANMode req \<noteq> ZTEWANModeWANIP then [lit ''exit'']
      else [wan_ip_line req includePassword, lit ''wan 1 service internet host 1'', lit ''exit''])"

definition buildZTEGPONServiceCommands ::
  "unicode \<Rightarrow> ZTEGPONRegisterRequest \<Rightarrow> int \<Rightarrow> bool \<Rightarrow> zte_error + str list" where
  "buildZTEGPONServiceCommands u req onuID includePassword =
     (case validateZTECommandRequest u req onuID of
        Some e \<Rightarrow> Inl e
      | None \<Rightarrow> Inr ([lit ''configure terminal''] @ buildZTEInterfaceSection req onuID @
                     buildZTEManagementSection req onuID includePassword))"

definition buildZTEGPONRegisterCommands ::
  "unicode \<Rightarrow> ZTEGPONRegisterRequest \<Rightarrow> int \<Rightarrow> bool \<Rightarrow> zte_error + str list" where
  "buildZTEGPONRegisterCommands u req onuID includePassword =
     (case validateZTECommandRequest u req onuID of
        Some e \<Rightarrow> Inl e
      | None \<Rightarrow>
          (case buildZTEGPONServiceCommands u req onuID includePassword of
             Inl e \<Rightarrow> Inl e
           | Inr service \<Rightarrow>
               Inr ([lit ''configure terminal'',
                     lit ''interface gpon-olt_1/'' @ fmt_int (rq_Card req) @ lit ''/'' @ fmt_int (rq_PON req),
                     lit ''onu '' @ fmt_int onuID @ lit '' type '' @ rq_ONUType req @ lit '' sn '' @
                       to_upper u (trim_space (rq_SerialNumber req)),
                     lit ''exit''] @ tl service)))"

definition BuildZTEGPONRegisterCommands where
  "BuildZTEGPONRegisterCommands u req onuID = buildZTEGPONRegisterCommands u req onuID False"

definition BuildZTEGPONRegisterExecutionCommands where
  "BuildZTEGPONRegisterExecutionCommands u req onuID = buildZTEGPONRegisterCommands u req onuID True"

definition BuildZTEGPONServiceCommands where
  "BuildZTEGPONServiceCommands u req onuID = buildZTEGPONServiceCommands u req onuID False"

definition BuildZTEGPONServiceExecutionCommands where
  "BuildZTEGPONServiceExecutionCommands u req onuID = buildZTEGPONServiceCommands u req onuID True"

section \<open>Reserving an ONU id\<close>

fun first_free :: "int set \<Rightarrow> int list \<Rightarrow> int option" where
  "first_free used [] = None"
| "first_free used (i # is) = (if i \<notin> used then Some i else first_free used is)"

datatype onu_id_error = ErrIDUsed | ErrNoFreeID | ErrIDRange

definition resolveZTEONUIDLocked :: "int set \<Rightarrow> int \<Rightarrow> onu_id_error + int" where
  "resolveZTEONUIDLocked used requested =
     (if requested > 0 then (if requested \<in> used then Inl ErrIDUsed else Inr requested)
      else (case first_free used [minZTEONUID..maxZTEONUID] of None \<Rightarrow> Inl ErrNoFreeID | Some i \<Rightarrow> Inr i))"

definition ResolveZTEONUID :: "int \<Rightarrow> int \<Rightarrow> int set \<Rightarrow> int \<Rightarrow> onu_id_error + int" where
  "ResolveZTEONUID slot port used requested =
     (if slot < 1 \<or> slot > MaxBoardID \<or> port < 1 \<or> port > MaxPonID then Inl ErrIDRange
      else if requested < 0 \<or> requested > maxZTEONUID then Inl ErrIDRange
      else if requested \<noteq> 0 then (if requested \<in> used then Inl ErrIDUsed else Inr requested)
      else (case first_free used [minZTEONUID..maxZTEONUID] of None \<Rightarrow> Inl ErrNoFreeID | Some i \<Rightarrow> Inr i))"


section \<open>Talking to the OLT\<close>

datatype reply = Reply str | NoReply str

record cmd_result =
  cr_Success :: bool
  cr_Error :: str

definition commandFailureMarkers :: "string list" where
  "commandFailureMarkers =
     [''error'', ''failed'', ''failure'', ''invalid'', ''unknown command'', ''denied'', ''rejected'', ''incomplete'']"

definition commandOutputError :: "unicode \<Rightarrow> str \<Rightarrow> str" where
  "commandOutputError u output =
     (if list_ex (\<lambda>m. sublist (lit m) (map (uc_lower u) output)) commandFailureMarkers then trim_space output else [])"

type_synonym 'd device = "'d \<Rightarrow> str \<Rightarrow> 'd \<times> reply"

definition ExecuteCommand :: "unicode \<Rightarrow> 'd device \<Rightarrow> 'd \<Rightarrow> str \<Rightarrow> 'd \<times> cmd_result" where
  "ExecuteCommand u dev d cmd =
     (case dev d cmd of
        (d', Reply output) \<Rightarrow>
          (d', \<lparr>cr_Success = (commandOutputError u output = []), cr_Error = commandOutputError u output\<rparr>)
      | (d', NoReply err) \<Rightarrow> (d', \<lparr>cr_Success = False, cr_Error = err\<rparr>))"

fun BatchExecute :: "unicode \<Rightarrow> 'd device \<Rightarrow> 'd \<Rightarrow> str list \<Rightarrow> 'd \<times> cmd_result list" where
  "BatchExecute u dev d [] = (d, [])"
| "BatchExecute u dev d (cmd # cmds) =
     (case ExecuteCommand u dev d cmd of
        (d', r) \<Rightarrow>
          if \<not> cr_Success r then (d', [r])
          else (case BatchExecute u dev d' cmds of (d'', rs) \<Rightarrow> (d'', r # rs)))"

definition drop_prefix :: "str \<Rightarrow> str \<Rightarrow> str option" where
  "drop_prefix p s = (if take (length p) s = p then Some (drop (length p) s) else None)"

definition re_space :: "nat \<Rightarrow> bool" where
  "re_space r \<longleftrightarrow> r \<in> {9, 10, 12, 13, 32}"

definition re_digit :: "nat \<Rightarrow> bool" where
  "re_digit r \<longleftrightarrow> 48 \<le> r \<and> r \<le> 57"

text \<open>\<open>^onu \d+ type (\S+) sn \S+\<close>: the groups cannot hold the space that follows them, so the longest
  match is the only one.\<close>

definition zteRegistrationLine :: "str \<Rightarrow> bool" where
  "zteRegistrationLine s =
     (case drop_prefix (lit ''onu '') s of
        None \<Rightarrow> False
      | Some a \<Rightarrow>
          takeWhile re_digit a \<noteq> [] \<and>
          (case drop_prefix (lit '' type '') (dropWhile re_digit a) of
             None \<Rightarrow> False
           | Some b \<Rightarrow>
               takeWhile (\<lambda>r. \<not> re_space r) b \<noteq> [] \<and>
               (case drop_prefix (lit '' sn '') (dropWhile (\<lambda>r. \<not> re_space r) b) of
                  None \<Rightarrow> False
                | Some c \<Rightarrow> c \<noteq> [] \<and> \<not> re_space (hd c))))"

fun zteRegistrationIndex :: "str list \<Rightarrow> int" where
  "zteRegistrationIndex [] = - 1"
| "zteRegistrationIndex (c # cs) =
     (if zteRegistrationLine (trim_space c) then 0
      else let i = zteRegistrationIndex cs in if i < 0 then - 1 else i + 1)"

section \<open>Carrying out a job\<close>

datatype run_error = ErrCommander | ErrBuild zte_error | ErrCommand nat | ErrVerify

text \<open>\<open>runRegistration\<close>: whether this job put the ONU on the chassis, the error, the OLT afterwards.
  \<open>connect\<close> says whether a session opens.\<close>

definition runRegistration ::
  "unicode \<Rightarrow> bool \<Rightarrow> 'd device \<Rightarrow> ZTEGPONRegisterRequest \<Rightarrow> int \<Rightarrow> bool \<Rightarrow> 'd \<Rightarrow> (bool \<times> run_error option) \<times> 'd" where
  "runRegistration u connect dev req onuID register d =
     (if \<not> connect then ((False, Some ErrCommander), d)
      else (case (if register then BuildZTEGPONRegisterExecutionCommands u req onuID
                  else BuildZTEGPONServiceExecutionCommands u req onuID) of
              Inl e \<Rightarrow> ((False, Some (ErrBuild e)), d)
            | Inr commands \<Rightarrow>
                (case BatchExecute u dev d commands of
                   (d', results) \<Rightarrow>
                     (case find (\<lambda>i. \<not> cr_Success (results ! i)) [0..<length results] of
                        Some i \<Rightarrow> ((register \<and> int i > zteRegistrationIndex commands, Some (ErrCommand i)), d')
                      | None \<Rightarrow> ((True, None), d')))))"

record ont_row =
  on_id :: uuid
  on_olt :: uuid
  on_slot :: "int option"
  on_port :: int
  on_onu :: int
  on_serial :: str

record zte_snapshot =
  zs_SerialNumber :: str
  zs_ServiceMode :: str
  zs_Bandwidth :: "str option"
  zs_VLAN :: "str option"

record 'd world =
  w_jobs :: "prov_job list"
  w_onts :: "ont_row list"
  w_dev :: 'd

definition intSlotOrDefault :: "int option \<Rightarrow> int" where
  "intSlotOrDefault slot = (case slot of Some s \<Rightarrow> s | None \<Rightarrow> 0)"

definition buildZTERollbackCommands :: "ont_row \<Rightarrow> zte_snapshot \<Rightarrow> str list" where
  "buildZTERollbackCommands ont snap =
     (if zs_ServiceMode snap = lit ''gpon-register'' then
        [lit ''configure terminal'',
         lit ''interface gpon-olt_1/'' @ fmt_int (intSlotOrDefault (on_slot ont)) @ lit ''/'' @ fmt_int (on_port ont),
         lit ''no onu '' @ fmt_int (on_onu ont),
         lit ''exit'']
      else
        [lit ''config'',
         lit ''interface gpon 0/'' @ fmt_int (on_port ont),
         lit ''ont ontid '' @ fmt_int (on_onu ont) @ lit '' profile default''] @
        (case zs_Bandwidth snap of
           Some b \<Rightarrow> if b \<noteq> [] then [lit ''ont traffic band-width '' @ b @ lit '' '' @ fmt_int (on_onu ont)] else []
         | None \<Rightarrow> []) @
        (case zs_VLAN snap of
           Some v \<Rightarrow> if v \<noteq> [] then [lit ''ont service vlan restore '' @ v @ lit '' '' @ fmt_int (on_onu ont)] else []
         | None \<Rightarrow> []) @
        [lit ''commit''])"

definition executeRollback :: "unicode \<Rightarrow> 'd device \<Rightarrow> str list \<Rightarrow> 'd \<Rightarrow> bool \<times> 'd" where
  "executeRollback u dev cmds d =
     (case BatchExecute u dev d cmds of (d', results) \<Rightarrow> (list_all cr_Success results, d'))"

definition update_status :: "uuid \<Rightarrow> string \<Rightarrow> string option \<Rightarrow> time \<Rightarrow> 'd world \<Rightarrow> job_error option \<times> 'd world" where
  "update_status i status err now w =
     (case UpdateStatusProvisioning i status err now (w_jobs w) (w_jobs w) of
        Inl e \<Rightarrow> (Some e, w)
      | Inr tbl \<Rightarrow> (None, w\<lparr>w_jobs := tbl\<rparr>))"

definition delete_ont :: "uuid \<Rightarrow> 'd world \<Rightarrow> 'd world" where
  "delete_ont i w = w\<lparr>w_onts := filter (\<lambda>x. on_id x \<noteq> i) (w_onts w)\<rparr>"

text \<open>\<open>reconnect\<close>: whether the rollback's own session to the OLT opens.\<close>

definition failJob ::
  "unicode \<Rightarrow> 'd device \<Rightarrow> bool \<Rightarrow> prov_job \<Rightarrow> ont_row \<Rightarrow> zte_snapshot \<Rightarrow> bool \<Rightarrow> string \<Rightarrow> time
    \<Rightarrow> 'd world \<Rightarrow> 'd world" where
  "failJob u dev reconnect job ont before createdONU message now w =
     (let w = snd (update_status (pv_id job) ProvisioningStatusFailed (Some message) now w);
          w = (if zs_ServiceMode before = lit ''gpon-register'' then delete_ont (on_id ont) w else w)
      in if createdONU \<and> reconnect then
           (case executeRollback u dev (buildZTERollbackCommands ont before) (w_dev w) of
              (ok, d') \<Rightarrow>
                (let w = w\<lparr>w_dev := d'\<rparr>
                 in if ok then snd (update_status (pv_id job) ProvisioningStatusRolledBack
                                      (Some ''rollback completed after provisioning failure'') now w)
                    else w))
         else w)"

datatype readback = ReadFails | ReadNothing | ReadBack str "(int \<times> int \<times> int) option"

definition verify :: "unicode \<Rightarrow> ZTEGPONRegisterRequest \<Rightarrow> ont_row \<Rightarrow> readback \<Rightarrow> bool" where
  "verify u req ont after =
     (case after of
        ReadBack serial position \<Rightarrow>
          serial = to_upper u (trim_space (rq_SerialNumber req)) \<and>
          (case position of
             None \<Rightarrow> True
           | Some (slot, port, ontID) \<Rightarrow>
               \<not> (slot \<noteq> intSlotOrDefault (on_slot ont) \<or> port \<noteq> on_port ont \<or> ontID \<noteq> on_onu ont))
      | _ \<Rightarrow> False)"

datatype exec_error = JobError job_error | RunError run_error

text \<open>
  \<open>executeJob\<close>. \<open>others\<close> is what other requests do to the tables between the job's creation and its
  move to running, which are two transactions; \<open>readback\<close> what the OLT answers to the verifying read.
\<close>

type_synonym others = "prov_job list \<times> ont_row list \<Rightarrow> prov_job list \<times> ont_row list"

definition meanwhile :: "others \<Rightarrow> 'd world \<Rightarrow> 'd world" where
  "meanwhile oth w = (case oth (w_jobs w, w_onts w) of (js, ots) \<Rightarrow> w\<lparr>w_jobs := js, w_onts := ots\<rparr>)"

definition executeJob ::
  "unicode \<Rightarrow> 'd device \<Rightarrow> others \<Rightarrow> bool \<Rightarrow> bool \<Rightarrow> ('d \<Rightarrow> readback) \<Rightarrow> uuid \<Rightarrow> time
    \<Rightarrow> ZTEGPONRegisterRequest \<Rightarrow> ont_row \<Rightarrow> zte_snapshot \<Rightarrow> uuid \<Rightarrow> bool \<Rightarrow> 'd world \<Rightarrow> (exec_error + uuid) \<times> 'd world" where
  "executeJob u dev others connect reconnect after i now req ont before user register w =
     (case CreateProvisioningJob i (on_id ont) user (w_jobs w) (w_jobs w) of
        Inl e \<Rightarrow> (Inl (JobError e), w)
      | Inr (job, tbl) \<Rightarrow>
          (case update_status i ProvisioningStatusRunning None now (meanwhile others (w\<lparr>w_jobs := tbl\<rparr>)) of
             (Some e, w1) \<Rightarrow> (Inl (JobError e), delete_ont (on_id ont) w1)
           | (None, w1) \<Rightarrow>
               (case runRegistration u connect dev req (on_onu ont) register (w_dev w1) of
                  ((created, err), d') \<Rightarrow>
                    (let w2 = w1\<lparr>w_dev := d'\<rparr>
                     in case err of
                          Some e \<Rightarrow> (Inl (RunError e), failJob u dev reconnect job ont before created ''execute'' now w2)
                        | None \<Rightarrow>
                            if \<not> verify u req ont (after d') then
                              (Inl (RunError ErrVerify), failJob u dev reconnect job ont before created ''verify'' now w2)
                            else (case update_status i ProvisioningStatusSuccess None now w2 of
                                    (Some e, w3) \<Rightarrow> (Inl (JobError e), w3)
                                  | (None, w3) \<Rightarrow> (Inr i, w3))))))"

datatype request_error =
    ErrLoadOLT | ErrRequest zte_error | ErrODP | ErrReserve onu_id_error | ErrDuplicateONT | ErrExec exec_error
  | ErrLoadONT | ErrOwner | ErrPosition | ErrONUIDMismatch | ErrSnapshot

definition used_ids :: "uuid \<Rightarrow> int \<Rightarrow> int \<Rightarrow> ont_row list \<Rightarrow> int set" where
  "used_ids olt slot port onts = on_onu ` set (filter (\<lambda>x. on_olt x = olt \<and> on_slot x = Some slot \<and> on_port x = port) onts)"

text \<open>The ONT table's unique indexes: the position, and a serial that is not empty.\<close>

definition ont_conflict :: "ont_row \<Rightarrow> ont_row list \<Rightarrow> bool" where
  "ont_conflict o1 onts \<longleftrightarrow>
     list_ex (\<lambda>o2. on_id o2 = on_id o1 \<or>
       (on_olt o2 = on_olt o1 \<and> on_slot o2 = on_slot o1 \<and> on_slot o1 \<noteq> None \<and> on_port o2 = on_port o1 \<and> on_onu o2 = on_onu o1) \<or>
       (on_serial o2 = on_serial o1 \<and> on_serial o1 \<noteq> [])) onts"

definition RegisterAndConfigure ::
  "unicode \<Rightarrow> 'd device \<Rightarrow> others \<Rightarrow> bool \<Rightarrow> bool \<Rightarrow> ('d \<Rightarrow> readback) \<Rightarrow> uuid \<Rightarrow> uuid \<Rightarrow> time
    \<Rightarrow> ZTEGPONRegisterRequest \<Rightarrow> olt_model option \<Rightarrow> bool \<Rightarrow> uuid \<Rightarrow> 'd world \<Rightarrow> (request_error + uuid) \<times> 'd world" where
  "RegisterAndConfigure u dev others connect reconnect after ontID jobID now req olt odp_ok user w =
     (if olt = None then (Inl ErrLoadOLT, w)
      else (case ValidateZTEGPONRegister u req olt of
        Some e \<Rightarrow> (Inl (ErrRequest e), w)
      | None \<Rightarrow>
          if \<not> odp_ok then (Inl ErrODP, w)
          else (let req = req\<lparr>rq_SerialNumber := canonicalZTESerial u (rq_SerialNumber req)\<rparr>
                in case resolveZTEONUIDLocked (used_ids (rq_OLTID req) (rq_Card req) (rq_PON req) (w_onts w)) (rq_ONUID req) of
                     Inl e \<Rightarrow> (Inl (ErrReserve e), w)
                   | Inr onuID \<Rightarrow>
                       (let ont = \<lparr>on_id = ontID, on_olt = rq_OLTID req, on_slot = Some (rq_Card req), on_port = rq_PON req,
                                   on_onu = onuID, on_serial = rq_SerialNumber req\<rparr>
                        in if ont_conflict ont (w_onts w) then (Inl ErrDuplicateONT, w)
                           else (case executeJob u dev others connect reconnect after jobID now req ont
                                    \<lparr>zs_SerialNumber = on_serial ont, zs_ServiceMode = lit ''gpon-register'',
                                     zs_Bandwidth = None, zs_VLAN = None\<rparr> user True (w\<lparr>w_onts := w_onts w @ [ont]\<rparr>) of
                                   (Inl e, w') \<Rightarrow> (Inl (ErrExec e), w')
                                 | (Inr j, w') \<Rightarrow> (Inr j, w'))))))"

definition ConfigureExisting ::
  "unicode \<Rightarrow> 'd device \<Rightarrow> others \<Rightarrow> bool \<Rightarrow> bool \<Rightarrow> ('d \<Rightarrow> readback) \<Rightarrow> uuid \<Rightarrow> uuid \<Rightarrow> time
    \<Rightarrow> ZTEGPONRegisterRequest \<Rightarrow> olt_model option \<Rightarrow> zte_snapshot option \<Rightarrow> uuid \<Rightarrow> 'd world \<Rightarrow> (request_error + uuid) \<times> 'd world" where
  "ConfigureExisting u dev others connect reconnect after ontID jobID now req olt before user w =
     (case List.find (\<lambda>x. on_id x = ontID) (w_onts w) of
        None \<Rightarrow> (Inl ErrLoadONT, w)
      | Some ont \<Rightarrow>
          if rq_OLTID req \<noteq> on_olt ont then (Inl ErrOwner, w)
          else (let req = req\<lparr>rq_SerialNumber := canonicalZTESerial u (rq_SerialNumber req)\<rparr>
                in if olt = None then (Inl ErrLoadOLT, w)
                   else (case ValidateZTEGPONRegister u req olt of
                           Some e \<Rightarrow> (Inl (ErrRequest e), w)
                         | None \<Rightarrow>
                             if on_slot ont = None \<or> on_slot ont \<noteq> Some (rq_Card req) \<or> on_port ont \<noteq> rq_PON req
                             then (Inl ErrPosition, w)
                             else if rq_ONUIDMode req = ZTEONUIDCustom \<and> rq_ONUID req \<noteq> on_onu ont
                             then (Inl ErrONUIDMismatch, w)
                             else (case before of
                                     None \<Rightarrow> (Inl ErrSnapshot, w)
                                   | Some snap \<Rightarrow>
                                       (case executeJob u dev others connect reconnect after jobID now req ont snap user False w of
                                          (Inl e, w') \<Rightarrow> (Inl (ErrExec e), w')
                                        | (Inr j, w') \<Rightarrow> (Inr j, w'))))))"

section \<open>Removing an ONU\<close>

definition BuildZTEONURemovalCommands :: "int \<Rightarrow> int \<Rightarrow> int \<Rightarrow> str list" where
  "BuildZTEONURemovalCommands cardID pon onuID =
     [lit ''configure terminal'', lit ''interface gpon-olt_1/'' @ fmt_int cardID @ lit ''/'' @ fmt_int pon,
      lit ''no onu '' @ fmt_int onuID, lit ''exit'']"

datatype removal_error = ErrNoONT | ErrNoCard | ErrNoOLT | ErrUnsupportedOLT | ErrSession | ErrRefused nat

definition RemoveFromOLT ::
  "unicode \<Rightarrow> 'd device \<Rightarrow> bool \<Rightarrow> ont_row option \<Rightarrow> olt_model option \<Rightarrow> 'd \<Rightarrow> removal_error option \<times> 'd" where
  "RemoveFromOLT u dev connect ont olt d =
     (case ont of
        None \<Rightarrow> (Some ErrNoONT, d)
      | Some o1 \<Rightarrow>
          (case on_slot o1 of
             None \<Rightarrow> (Some ErrNoCard, d)
           | Some slot \<Rightarrow>
               (case olt of
                  None \<Rightarrow> (Some ErrNoOLT, d)
                | Some m \<Rightarrow>
                    if m \<noteq> ZTEC300 \<and> m \<noteq> ZTEC320 then (Some ErrUnsupportedOLT, d)
                    else if \<not> connect then (Some ErrSession, d)
                    else (let commands = BuildZTEONURemovalCommands slot (on_port o1) (on_onu o1)
                          in case BatchExecute u dev d commands of
                               (d', results) \<Rightarrow>
                                 (case find (\<lambda>i. \<not> cr_Success (results ! i)) [0..<length results] of
                                    Some i \<Rightarrow> (Some (ErrRefused i), d')
                                  | None \<Rightarrow>
                                      if length results \<noteq> length commands then (Some (ErrRefused (length results)), d')
                                      else (None, d'))))))"

section \<open>Texts without control characters\<close>

definition plain :: "str \<Rightarrow> bool" where
  "plain s \<longleftrightarrow> list_all (\<lambda>r. \<not> is_control r) s"

lemma plain_append [simp]: "plain (s @ t) \<longleftrightarrow> plain s \<and> plain t"
  by (simp add: plain_def)

lemma plain_lit [simp]:
  "plain (lit s) \<longleftrightarrow> list_all (\<lambda>c. \<not> is_control (of_char c)) s"
  by (simp add: plain_def lit_def list.pred_map comp_def)

lemma digit_plain: "is_digit c \<Longrightarrow> \<not> is_control (of_char c)"
  by (simp add: is_control_def is_digit_iff)

lemma plain_dec [simp]: "list_all (\<lambda>c. \<not> is_control (of_char c)) (dec n)"
  by (auto simp: list_all_iff dest!: dec_digits digit_plain)

lemma plain_fmt_int [simp]: "plain (fmt_int i)"
proof -
  have "\<not> is_control (of_char (CHR ''-''))" by (simp add: is_control_def)
  then show ?thesis by (simp add: fmt_int_def)
qed

lemma trim_space_mem: "r \<in> set (trim_space s) \<Longrightarrow> r \<in> set s"
  by (auto simp: trim_space_def dest!: set_dropWhileD)

lemma plain_trim: "plain s \<Longrightarrow> plain (trim_space s)"
  by (auto simp: plain_def list_all_iff dest: trim_space_mem)

lemma token_plain: "isZTECommandToken v \<Longrightarrow> plain v"
  by (auto simp: isZTECommandToken_def plain_def list_all_iff is_control_def ascii_alnum_def)

lemma credential_plain: "isZTECredential v \<Longrightarrow> plain v"
  by (auto simp: isZTECredential_def plain_def list_all_iff)

lemma name_plain: "unicode_sane u \<Longrightarrow> isZTEName u v \<Longrightarrow> plain v"
  unfolding isZTEName_def plain_def list_all_iff unicode_sane_def by (auto simp: is_control_def)

lemma serial_plain: "zteSerialPattern v \<Longrightarrow> plain v"
  by (auto simp: zteSerialPattern_def plain_def list_all_iff is_control_def)

section \<open>What a validated request gives the builder\<close>

lemma command_request_D:
  assumes "validateZTECommandRequest u req n = None"
  shows "zteSerialPattern (to_upper u (trim_space (rq_SerialNumber req)))" and "isZTECommandToken (rq_ONUType req)"
    and "isZTECommandToken (rq_DownloadProfile req)"
    and "trim_space (rq_Name req) \<noteq> [] \<Longrightarrow> isZTEName u (rq_Name req)"
    and "trim_space (rq_Description req) \<noteq> [] \<Longrightarrow> isZTEName u (rq_Description req)"
    and "minZTEONUID \<le> n" and "n \<le> maxZTEONUID" and "validateZTECommandWAN req = None"
  using assms by (auto simp: validateZTECommandRequest_def split: if_splits option.splits)

lemma command_wan_D:
  assumes "validateZTECommandWAN req = None" "rq_WANMode req = ZTEWANModeWANIP"
  shows "wan_ip_mode (rq_WANIPMode req)" and "isZTECommandToken (rq_VLANProfile req)"
    and "rq_WANIPMode req = ZTEWANIPModePPPoE \<Longrightarrow> isZTECredential (rq_PPPoEUsername req)"
    and "rq_WANIPMode req = ZTEWANIPModePPPoE \<Longrightarrow> isZTECredential (rq_PPPoEPassword req)"
  using assms by (auto simp: validateZTECommandWAN_def split: if_splits)

lemma wan_ip_mode_plain: "wan_ip_mode m \<Longrightarrow> plain m"
  by (auto simp: wan_ip_mode_def mode_defs is_control_def)

lemma service_label_plain: "plain (zteServiceLabel req)"
  by (simp add: zteServiceLabel_def is_control_def)

lemma wan_line_plain:
  assumes "validateZTECommandWAN req = None" "rq_WANMode req = ZTEWANModeWANIP"
  shows "plain (wan_ip_line req includePassword)"
proof (cases "rq_WANIPMode req = ZTEWANIPModePPPoE")
  case True
  then have "plain (rq_PPPoEUsername req)" "plain (rq_PPPoEPassword req)" "plain (rq_VLANProfile req)"
    using command_wan_D [OF assms] credential_plain token_plain by blast+
  then show ?thesis by (simp add: wan_ip_line_def Let_def True is_control_def)
next
  case False
  then show ?thesis
    using command_wan_D(1,2) [OF assms] wan_ip_mode_plain token_plain by (simp add: wan_ip_line_def is_control_def)
qed

lemma interface_section_plain:
  assumes "unicode_sane u" "validateZTECommandRequest u req n = None"
  shows "list_all plain (buildZTEInterfaceSection req n)"
proof -
  have "trim_space (rq_Name req) \<noteq> [] \<Longrightarrow> plain (trim_space (rq_Name req))"
    "trim_space (rq_Description req) \<noteq> [] \<Longrightarrow> plain (trim_space (rq_Description req))"
    "plain (rq_DownloadProfile req)"
    using command_request_D [OF assms(2)] assms(1) name_plain plain_trim token_plain by blast+
  then show ?thesis
    by (simp add: buildZTEInterfaceSection_def onu_path_def buildZTEServicePort_def service_label_plain is_control_def)
qed

lemma management_section_plain:
  assumes "validateZTECommandRequest u req n = None"
  shows "list_all plain (buildZTEManagementSection req n includePassword)"
  using wan_line_plain [OF command_request_D(8) [OF assms]]
  by (simp add: buildZTEManagementSection_def onu_path_def buildZTEONUService_def service_label_plain is_control_def)

lemma service_commands_plain:
  "unicode_sane u \<Longrightarrow> buildZTEGPONServiceCommands u req n p = Inr cmds \<Longrightarrow> list_all plain cmds"
  using interface_section_plain management_section_plain
  by (auto simp: buildZTEGPONServiceCommands_def is_control_def split: option.splits)

lemma register_commands_plain:
  assumes "unicode_sane u" "buildZTEGPONRegisterCommands u req n p = Inr cmds"
  shows "list_all plain cmds"
proof -
  from assms(2) obtain service where v: "validateZTECommandRequest u req n = None"
    and s: "buildZTEGPONServiceCommands u req n p = Inr service"
    and c: "cmds = [lit ''configure terminal'',
         lit ''interface gpon-olt_1/'' @ fmt_int (rq_Card req) @ lit ''/'' @ fmt_int (rq_PON req),
         lit ''onu '' @ fmt_int n @ lit '' type '' @ rq_ONUType req @ lit '' sn '' @
           to_upper u (trim_space (rq_SerialNumber req)), lit ''exit''] @ tl service"
    by (auto simp: buildZTEGPONRegisterCommands_def split: option.splits sum.splits)
  have "list_all plain (tl service)"
    using service_commands_plain [OF assms(1) s] by (cases service) auto
  then show ?thesis
    using command_request_D(1,2) [OF v] serial_plain token_plain by (simp add: c is_control_def)
qed

lemma trim_space_id: "s \<noteq> [] \<Longrightarrow> \<not> is_space (hd s) \<Longrightarrow> \<not> is_space (last s) \<Longrightarrow> trim_space s = s"
proof -
  assume s: "s \<noteq> []" "\<not> is_space (hd s)" "\<not> is_space (last s)"
  then have "dropWhile is_space s = s" "dropWhile is_space (rev s) = rev s"
    by (simp_all add: dropWhile_eq_self_iff hd_rev)
  then show ?thesis by (simp add: trim_space_def)
qed

lemma serial_char: "zteSerialPattern s \<Longrightarrow> r \<in> set s \<Longrightarrow> 65 \<le> r \<and> r \<le> 90 \<or> 48 \<le> r \<and> r \<le> 57"
  by (auto simp: zteSerialPattern_def list_all_iff)

lemma serial_not_space: "zteSerialPattern s \<Longrightarrow> r \<in> set s \<Longrightarrow> \<not> is_space r \<and> \<not> re_space r"
  using serial_char [of s r] by (auto simp: is_space_def re_space_def)

lemma serial_not_Nil: "zteSerialPattern s \<Longrightarrow> s \<noteq> []"
  by (auto simp: zteSerialPattern_def)

lemma serial_stable:
  assumes "unicode_sane u" "zteSerialPattern s"
  shows "to_upper u (trim_space s) = s"
proof -
  have "trim_space s = s"
    using serial_not_Nil serial_not_space assms(2) by (intro trim_space_id) auto
  moreover have "map (uc_upper u) s = map (\<lambda>r. r) s"
    using serial_char [OF assms(2)] assms(1) unfolding unicode_sane_def by (intro map_cong) blast+
  ultimately show ?thesis by (simp add: to_upper_def)
qed

lemma command_wan_serial [simp]: "validateZTECommandWAN (req\<lparr>rq_SerialNumber := s\<rparr>) = validateZTECommandWAN req"
  unfolding validateZTECommandWAN_def by simp

lemma wan_modes_differ [simp]:
  "ZTEWANModeSetupViaONT \<noteq> ZTEWANModeWANIP" "ZTEWANModeWANIP \<noteq> ZTEWANModeSetupViaONT"
  by code_simp+

text \<open>A validated request, with its serial in canonical form, is one the builder accepts.\<close>

lemma validated_command_request:
  assumes sane: "unicode_sane u" and ok: "ValidateZTEGPONRegister u req olt = None"
    and n: "minZTEONUID \<le> n" "n \<le> maxZTEONUID"
  shows "validateZTECommandRequest u (req\<lparr>rq_SerialNumber := canonicalZTESerial u (rq_SerialNumber req)\<rparr>) n = None"
proof -
  let ?r = "req\<lparr>rq_SerialNumber := canonicalZTESerial u (rq_SerialNumber req)\<rparr>"
  have parts: "validateZTEPosition req = None" "validateZTEIdentity u req = None" "validateZTEService req = None"
    "validateZTEWAN req = None"
    using ok by (auto simp: ValidateZTEGPONRegister_def split: if_splits option.splits)
  have pos: "\<not> (rq_Card req \<le> 0 \<or> rq_PON req \<le> 0)"
    using parts(1) by (auto simp: validateZTEPosition_def split: if_splits)
  have serial: "zteSerialPattern (to_upper u (trim_space (rq_SerialNumber ?r)))"
    using parts(2) serial_stable [OF sane]
    by (auto simp: validateZTEIdentity_def canonicalZTESerial_def split: if_splits)
  have ident: "trim_space (rq_ONUType req) \<noteq> []" "isZTECommandToken (rq_ONUType req)"
    "trim_space (rq_Name req) \<noteq> [] \<longrightarrow> isZTEName u (rq_Name req)"
    "trim_space (rq_Description req) \<noteq> [] \<longrightarrow> isZTEName u (rq_Description req)"
    using parts(2) by (auto simp: validateZTEIdentity_def split: if_splits)
  have service: "isZTECommandToken (rq_DownloadProfile req)" "isZTECommandToken (rq_UploadProfile req)"
    "rq_DownloadProfile req = rq_UploadProfile req" "rq_ServiceEnabled req"
    "\<not> (rq_VLANID req < minVLANID \<or> rq_VLANID req > maxVLANID)"
    "\<not> (rq_VLANMode req \<noteq> ZTEVLANModeTag \<and> rq_VLANMode req \<noteq> ZTEVLANModeUntag)"
    "\<not> (rq_ServiceType req \<noteq> ZTEServiceInternet \<and> rq_ServiceType req \<noteq> ZTEServiceBridge)"
    using parts(3) by (auto simp: validateZTEService_def split: if_splits)
  have "validateZTECommandWAN req = None"
    using parts(4)
    by (auto simp: validateZTECommandWAN_def validateZTEWAN_def validateZTEPPPoECredentials_def split: if_splits)
  then show ?thesis
    using pos serial ident service n unfolding validateZTECommandRequest_def by auto
qed

lemma builders_accept:
  assumes "validateZTECommandRequest u req n = None"
  shows "\<exists>cmds. buildZTEGPONRegisterCommands u req n p = Inr cmds" and "\<exists>cmds. buildZTEGPONServiceCommands u req n p = Inr cmds"
  using assms by (simp_all add: buildZTEGPONRegisterCommands_def buildZTEGPONServiceCommands_def)

section \<open>Free ONU ids\<close>

lemma first_free_Some:
  "first_free used xs = Some i \<Longrightarrow> i \<in> set xs \<and> i \<notin> used"
  by (induction xs) (auto split: if_splits)

lemma first_free_least:
  "first_free used xs = Some i \<Longrightarrow> sorted_wrt (<) xs \<Longrightarrow> j \<in> set xs \<Longrightarrow> j < i \<Longrightarrow> j \<in> used"
  by (induction xs) (auto split: if_splits)

lemma first_free_None: "first_free used xs = None \<longleftrightarrow> set xs \<subseteq> used"
  by (induction xs) auto

lemma id_range: "set [minZTEONUID..maxZTEONUID] = {1..127}" "sorted_wrt (<) [minZTEONUID..maxZTEONUID]"
  by (simp_all add: minZTEONUID_def maxZTEONUID_def)

text \<open>The ONU id given to a new registration is never one the port already holds: a requested id is
  kept or refused, an automatic one is the lowest free id of 1 to 127, and automatic allocation fails
  exactly when all 127 are taken.\<close>

theorem onu_id_allocation:
  "case resolveZTEONUIDLocked used requested of
     Inr i \<Rightarrow> i \<notin> used \<and> (if requested > 0 then i = requested else i \<in> {1..127} \<and> {1..<i} \<subseteq> used)
   | Inl e \<Rightarrow> if requested > 0 then e = ErrIDUsed \<and> requested \<in> used else e = ErrNoFreeID \<and> {1..127} \<subseteq> used"
proof (cases "requested > 0")
  case True
  then show ?thesis by (simp add: resolveZTEONUIDLocked_def)
next
  case False
  show ?thesis
  proof (cases "first_free used [minZTEONUID..maxZTEONUID]")
    case None
    then have "{1..127} \<subseteq> used" using id_range(1) by (simp only: first_free_None)
    then show ?thesis using False None by (simp add: resolveZTEONUIDLocked_def)
  next
    case (Some i)
    have "{1..<i} \<subseteq> used"
      using first_free_least [OF Some id_range(2)] first_free_Some [OF Some] id_range(1) by auto
    then show ?thesis
      using False Some first_free_Some [OF Some] id_range(1) by (simp add: resolveZTEONUIDLocked_def)
  qed
qed

section \<open>Where the registration line stands\<close>

lemma takeWhile_lit_dec: "takeWhile re_digit (lit (dec n) @ 32 # s) = lit (dec n)"
  and dropWhile_lit_dec: "dropWhile re_digit (lit (dec n) @ 32 # s) = 32 # s"
proof -
  have "\<forall>r \<in> set (lit (dec n)). re_digit r"
    by (auto simp: lit_def re_digit_def dest!: dec_digits simp: is_digit_iff)
  then show "takeWhile re_digit (lit (dec n) @ 32 # s) = lit (dec n)"
    and "dropWhile re_digit (lit (dec n) @ 32 # s) = 32 # s"
    by (simp_all add: takeWhile_append2 dropWhile_append2 re_digit_def)
qed

lemma token_not_space: "isZTECommandToken v \<Longrightarrow> r \<in> set v \<Longrightarrow> \<not> re_space r"
  by (auto simp: isZTECommandToken_def list_all_iff ascii_alnum_def re_space_def)

lemma drop_prefix_append [simp]: "drop_prefix p (p @ s) = Some s"
  by (simp add: drop_prefix_def)

lemma drop_prefix_mismatch: "x \<noteq> y \<Longrightarrow> drop_prefix (x # p) (y # s) = None"
  by (simp add: drop_prefix_def)

lemma registration_line_ends:
  assumes "s \<noteq> []" "\<not> is_space (last s)"
  shows "trim_space (lit ''onu '' @ x @ s) = lit ''onu '' @ x @ s"
proof (rule trim_space_id)
  have first: "lit ''onu '' = 111 # lit ''nu ''" by (simp add: lit_def)
  have "hd (lit ''onu '' @ x @ s) = 111" unfolding first by simp
  moreover have "\<not> is_space 111" by (simp add: is_space_def)
  ultimately show "\<not> is_space (hd (lit ''onu '' @ x @ s))" by metis
qed (use assms in simp_all)

lemma registration_line_matches:
  assumes "1 \<le> n" "isZTECommandToken t" "zteSerialPattern s"
  shows "zteRegistrationLine (trim_space (lit ''onu '' @ fmt_int n @ lit '' type '' @ t @ lit '' sn '' @ s))"
proof -
  let ?l = "lit ''onu '' @ fmt_int n @ lit '' type '' @ t @ lit '' sn '' @ s"
  have "\<not> is_space (last s)" and s: "s \<noteq> []" "\<not> re_space (hd s)"
    using serial_not_space [OF assms(3)] serial_not_Nil [OF assms(3)] by simp_all
  then have trim: "trim_space ?l = ?l"
    using registration_line_ends [of s "fmt_int n @ lit '' type '' @ t @ lit '' sn ''"] by simp
  have n: "fmt_int n = lit (dec (nat n))" using assms(1) by (simp add: fmt_int_def)
  have ty: "lit '' type '' = 32 # lit ''type ''" "lit '' sn '' = 32 # lit ''sn ''"
    by (simp_all add: lit_def)
  have t: "takeWhile (\<lambda>r. \<not> re_space r) (t @ 32 # x) = t" "dropWhile (\<lambda>r. \<not> re_space r) (t @ 32 # x) = 32 # x" for x
    using token_not_space [OF assms(2)]
    by (simp_all add: takeWhile_append2 dropWhile_append2 re_space_def)
  have "t \<noteq> []" using assms(2) by (simp add: isZTECommandToken_def)
  have d: "lit (dec (nat n)) \<noteq> []" by (simp add: lit_def)
  have l: "?l = lit ''onu '' @ lit (dec (nat n)) @ 32 # (lit ''type '' @ t @ 32 # (lit ''sn '' @ s))"
    unfolding n ty by simp
  have pre: "drop_prefix (lit '' type '') (32 # (lit ''type '' @ x)) = Some x"
    "drop_prefix (lit '' sn '') (32 # (lit ''sn '' @ x)) = Some x" for x
    unfolding ty using drop_prefix_append [of "32 # lit ''type ''" x] drop_prefix_append [of "32 # lit ''sn ''" x] by simp_all
  show ?thesis
    unfolding trim unfolding l zteRegistrationLine_def drop_prefix_append option.case takeWhile_lit_dec dropWhile_lit_dec pre t
    using \<open>t \<noteq> []\<close> d s by simp
qed

lemma other_line:
  assumes "\<not> is_space c" "c \<noteq> 111"
  shows "\<not> zteRegistrationLine (trim_space (c # s))"
proof -
  have "dropWhile is_space (rev s @ [c]) = dropWhile is_space (rev s) @ [c]"
    using assms(1) by (simp add: dropWhile_append)
  then have "trim_space (c # s) = c # rev (dropWhile is_space (rev s))"
    using assms(1) by (simp add: trim_space_def)
  moreover have "lit ''onu '' = 111 # lit ''nu ''" by (simp add: lit_def)
  ultimately show ?thesis using assms(2) by (simp add: zteRegistrationLine_def drop_prefix_mismatch)
qed

text \<open>The commands of a registration: the third binds the ONU id, and none removes an ONU.\<close>

definition is_removal :: "str \<Rightarrow> bool" where
  "is_removal c \<longleftrightarrow> take 7 c = lit ''no onu ''"

definition binds :: "int \<Rightarrow> str \<Rightarrow> bool" where
  "binds n c \<longleftrightarrow> (\<exists>t s. c = lit ''onu '' @ fmt_int n @ lit '' type '' @ t @ lit '' sn '' @ s)"

lemma not_removal_lit:
  assumes "take 2 s \<noteq> ''no''" "2 \<le> length s"
  shows "\<not> is_removal (lit s @ x)"
proof
  assume "is_removal (lit s @ x)"
  then have "take 2 (take 7 (lit s @ x)) = take 2 (lit ''no onu '')" unfolding is_removal_def by (rule arg_cong)
  moreover have "take 2 (take 7 y) = take 2 y" for y :: str by simp
  ultimately have "take 2 (lit s @ x) = take 2 (lit ''no onu '')" by (simp only:)
  moreover have "take 2 (lit s @ x) = map of_char (take 2 s)" using assms(2) by (simp add: lit_def take_map)
  moreover have "take 2 (lit ''no onu '') = map (of_char :: char \<Rightarrow> nat) ''no''" by (simp add: lit_def)
  ultimately have "map of_char (take 2 s) = map (of_char :: char \<Rightarrow> nat) ''no''" by (simp only:)
  then have "take 2 s = ''no''" by (rule map_injective) (simp add: inj_def)
  with assms(1) show False ..
qed

lemmas not_removal = not_removal_lit not_removal_lit [where x = "[]", unfolded append_Nil2]

lemma wan_line_keeps: "\<not> is_removal (wan_ip_line req p)"
  unfolding wan_ip_line_def Let_def by (cases "rq_WANIPMode req = ZTEWANIPModePPPoE") (simp_all add: not_removal)

lemma interface_section_keeps: "list_all (\<lambda>c. \<not> is_removal c) (buildZTEInterfaceSection req n)"
  unfolding buildZTEInterfaceSection_def buildZTEServicePort_def by (simp add: not_removal)

lemma management_section_keeps: "list_all (\<lambda>c. \<not> is_removal c) (buildZTEManagementSection req n p)"
  unfolding buildZTEManagementSection_def buildZTEONUService_def by (simp add: not_removal wan_line_keeps)

lemma register_commands_shape:
  assumes "buildZTEGPONRegisterCommands u req n p = Inr cmds"
  shows "zteRegistrationIndex cmds = 2" and "list_all (\<lambda>c. \<not> is_removal c) cmds"
    and "3 < length cmds" and "binds n (cmds ! 2)"
proof -
  let ?sn = "to_upper u (trim_space (rq_SerialNumber req))"
  from assms have v: "validateZTECommandRequest u req n = None"
    by (auto simp: buildZTEGPONRegisterCommands_def split: option.splits)
  define rest where "rest = buildZTEInterfaceSection req n @ buildZTEManagementSection req n p"
  have c: "cmds = lit ''configure terminal'' #
       (lit ''interface gpon-olt_1/'' @ fmt_int (rq_Card req) @ lit ''/'' @ fmt_int (rq_PON req)) #
       (lit ''onu '' @ fmt_int n @ lit '' type '' @ rq_ONUType req @ lit '' sn '' @ ?sn) # lit ''exit'' # rest"
    using assms v by (simp add: buildZTEGPONRegisterCommands_def buildZTEGPONServiceCommands_def rest_def)
  have "zteRegistrationLine (trim_space (lit ''onu '' @ fmt_int n @ lit '' type '' @ rq_ONUType req @ lit '' sn '' @ ?sn))"
    using command_request_D(6) [OF v] command_request_D(1,2) [OF v]
    by (intro registration_line_matches) (simp_all add: minZTEONUID_def)
  moreover have "\<not> zteRegistrationLine (trim_space (lit ''configure terminal''))"
    using other_line [of 99 "lit ''onfigure terminal''"] by (simp add: lit_def is_space_def)
  moreover have "lit ''interface gpon-olt_1/'' @ x = 105 # (lit ''nterface gpon-olt_1/'' @ x)" for x
    by (simp add: lit_def)
  then have "\<not> zteRegistrationLine (trim_space (lit ''interface gpon-olt_1/'' @ x))" for x
    using other_line [of 105] by (simp add: is_space_def)
  ultimately show "zteRegistrationIndex cmds = 2" unfolding c by (simp add: Let_def)
  show "list_all (\<lambda>c. \<not> is_removal c) cmds"
    using interface_section_keeps management_section_keeps unfolding c rest_def by (simp add: not_removal)
  show "3 < length cmds" "binds n (cmds ! 2)"
    by (auto simp: c rest_def buildZTEInterfaceSection_def binds_def)
qed

section \<open>A device that records what it is sent\<close>

definition recorder :: "'d device \<Rightarrow> ('d \<times> (str \<times> reply) list) device" where
  "recorder dev = (\<lambda>(d, log) cmd. case dev d cmd of (d', r) \<Rightarrow> ((d', log @ [(cmd, r)]), r))"

definition accepted :: "unicode \<Rightarrow> reply \<Rightarrow> bool" where
  "accepted u r = (case r of Reply output \<Rightarrow> commandOutputError u output = [] | NoReply _ \<Rightarrow> False)"

lemma execute_recorder:
  assumes "ExecuteCommand u (recorder dev) (d, log) cmd = (s', r)"
  shows "\<exists>d' q. s' = (d', log @ [(cmd, q)]) \<and> cr_Success r = accepted u q"
proof -
  obtain d' q where q: "dev d cmd = (d', q)" by fastforce
  show ?thesis
    using assms q by (intro exI [of _ d'] exI [of _ q]) (cases q; auto simp: ExecuteCommand_def recorder_def accepted_def)
qed

text \<open>A batch sends a prefix of its commands, and all but the last of the prefix were accepted.\<close>

lemma batch_recorder:
  "BatchExecute u (recorder dev) (d, log) cmds = (s', rs) \<Longrightarrow>
     \<exists>es. snd s' = log @ es \<and> map fst es = take (length rs) cmds \<and> length rs \<le> length cmds \<and>
          map cr_Success rs = map (accepted u \<circ> snd) es \<and>
          (\<forall>i. i + 1 < length rs \<longrightarrow> cr_Success (rs ! i)) \<and>
          (length rs < length cmds \<longrightarrow> rs \<noteq> [] \<and> \<not> cr_Success (last rs))"
proof (induction cmds arbitrary: d log s' rs)
  case Nil
  then show ?case by auto
next
  case (Cons cmd cmds)
  obtain s1 r where e: "ExecuteCommand u (recorder dev) (d, log) cmd = (s1, r)" by fastforce
  from execute_recorder [OF e] obtain d1 q where s1: "s1 = (d1, log @ [(cmd, q)])"
    and r: "cr_Success r = accepted u q" by blast
  show ?case
  proof (cases "cr_Success r")
    case False
    then have "s' = s1" "rs = [r]" using Cons.prems e by simp_all
    then show ?thesis using False s1 r by (intro exI [of _ "[(cmd, q)]"]) simp
  next
    case True
    then obtain rs1 where b: "BatchExecute u (recorder dev) (d1, log @ [(cmd, q)]) cmds = (s', rs1)" and rs: "rs = r # rs1"
      using Cons.prems e s1 by (auto split: prod.splits)
    from Cons.IH [OF b] obtain es where es: "snd s' = log @ (cmd, q) # es" "map fst es = take (length rs1) cmds"
      "length rs1 \<le> length cmds" "map cr_Success rs1 = map (accepted u \<circ> snd) es"
      and all: "\<forall>i. i + 1 < length rs1 \<longrightarrow> cr_Success (rs1 ! i)"
      and stop: "length rs1 < length cmds \<longrightarrow> rs1 \<noteq> [] \<and> \<not> cr_Success (last rs1)"
      by auto
    have "\<forall>i. i + 1 < length rs \<longrightarrow> cr_Success (rs ! i)"
    proof (intro allI impI)
      fix i assume "i + 1 < length rs"
      then show "cr_Success (rs ! i)" using all True by (cases i) (auto simp: rs)
    qed
    then show ?thesis using es stop True r by (intro exI [of _ "(cmd, q) # es"]) (auto simp: rs)
  qed
qed

text \<open>What a job may do to the chassis: an ONU is removed only after the same session log shows the OLT
  accepting the line that put it there.\<close>

definition own_removals :: "unicode \<Rightarrow> (str \<times> reply) list \<Rightarrow> bool" where
  "own_removals u log \<longleftrightarrow>
     (\<forall>j < length log. is_removal (fst (log ! j)) \<longrightarrow>
        (\<exists>n. \<exists>i < j. fst (log ! j) = lit ''no onu '' @ fmt_int n \<and>
           binds n (fst (log ! i)) \<and> accepted u (snd (log ! i))))"

definition registered :: "unicode \<Rightarrow> int \<Rightarrow> (str \<times> reply) list \<Rightarrow> bool" where
  "registered u n log \<longleftrightarrow> (\<exists>i < length log. binds n (fst (log ! i)) \<and> accepted u (snd (log ! i)))"

lemma own_removals_none: "list_all (\<lambda>e. \<not> is_removal (fst e)) log \<Longrightarrow> own_removals u log"
  by (simp add: own_removals_def list_all_length)

lemma own_removals_Nil [simp]: "own_removals u []"
  by (simp add: own_removals_def)

lemma own_removals_append:
  assumes none: "list_all (\<lambda>e. \<not> is_removal (fst e)) log" and reg: "registered u n log"
    and es: "list_all (\<lambda>e. is_removal (fst e) \<longrightarrow> fst e = lit ''no onu '' @ fmt_int n) es"
  shows "own_removals u (log @ es)"
  unfolding own_removals_def
proof (intro allI impI)
  fix j assume j: "j < length (log @ es)" "is_removal (fst ((log @ es) ! j))"
  then have "length log \<le> j" using none by (cases "j < length log") (simp_all add: list_all_length nth_append)
  then obtain k where k: "j = length log + k" by (metis le_Suc_ex)
  then have line: "fst ((log @ es) ! j) = lit ''no onu '' @ fmt_int n"
    using es j by (simp add: list_all_length)
  obtain i where "i < length log" "binds n (fst (log ! i))" "accepted u (snd (log ! i))"
    using reg by (auto simp: registered_def)
  then show "\<exists>n. \<exists>i < j. fst ((log @ es) ! j) = lit ''no onu '' @ fmt_int n \<and>
      binds n (fst ((log @ es) ! i)) \<and> accepted u (snd ((log @ es) ! i))"
    using line k by (intro exI [of _ n] exI [of _ i]) (simp add: nth_append)
qed

lemma find_index_Some:
  "find (\<lambda>i. \<not> cr_Success (rs ! i)) [0..<length rs] = Some i \<Longrightarrow> i < length rs \<and> \<not> cr_Success (rs ! i)"
  by (auto simp: find_Some_iff)

lemma find_index_None:
  "find (\<lambda>i. \<not> cr_Success (rs ! i)) [0..<length rs] = None \<Longrightarrow> i < length rs \<Longrightarrow> cr_Success (rs ! i)"
  by (auto simp: find_None_iff)

lemma list_all_take_map:
  "list_all P cmds \<Longrightarrow> map fst es = take k cmds \<Longrightarrow> list_all (\<lambda>e. P (fst e)) es"
  by (metis (no_types, lifting) image_eqI in_set_takeD list.set_map list_all_iff)

lemma run_registration_log:
  assumes run: "runRegistration u connect (recorder dev) req n True (d, []) = ((created, err), s')"
  shows "list_all (\<lambda>e. \<not> is_removal (fst e)) (snd s')" and "created \<Longrightarrow> registered u n (snd s')"
proof -
  have "list_all (\<lambda>e. \<not> is_removal (fst e)) (snd s') \<and> (created \<longrightarrow> registered u n (snd s'))"
  proof (cases "connect \<and> (\<exists>cmds. buildZTEGPONRegisterCommands u req n True = Inr cmds)")
    case False
    then show ?thesis
      using run by (cases "buildZTEGPONRegisterCommands u req n True")
        (auto simp: runRegistration_def BuildZTEGPONRegisterExecutionCommands_def split: if_splits)
  next
    case True
    then obtain cmds where cmds: "buildZTEGPONRegisterCommands u req n True = Inr cmds" by blast
    note shape = register_commands_shape [OF cmds]
    obtain s2 rs where b: "BatchExecute u (recorder dev) (d, []) cmds = (s2, rs)" by fastforce
    from batch_recorder [OF b] obtain es where es: "snd s2 = es" "map fst es = take (length rs) cmds"
      "length rs \<le> length cmds" "map cr_Success rs = map (accepted u \<circ> snd) es"
      and inner: "\<And>i. i + 1 < length rs \<Longrightarrow> cr_Success (rs ! i)"
      and stop: "length rs < length cmds \<longrightarrow> rs \<noteq> [] \<and> \<not> cr_Success (last rs)"
      by auto
    have reg: "registered u n es" if "2 < length rs" "cr_Success (rs ! 2)"
    proof -
      have len: "length es = length rs" using es(4) map_eq_imp_length_eq by metis
      have "fst (es ! 2) = map fst es ! 2" using that(1) len by simp
      then have "fst (es ! 2) = cmds ! 2" using es(2,3) that(1) by simp
      moreover have "accepted u (snd (es ! 2))"
        using arg_cong [OF es(4), of "\<lambda>l. l ! 2"] that len by simp
      ultimately show ?thesis
        using that(1) len shape(4) unfolding registered_def by (intro exI [of _ 2]) simp
    qed
    have clean: "list_all (\<lambda>e. \<not> is_removal (fst e)) es" using shape(2) es(2) list_all_take_map by blast
    show ?thesis
    proof (cases "find (\<lambda>i. \<not> cr_Success (rs ! i)) [0..<length rs]")
      case None
      note all = find_index_None [OF None]
      have "length rs = length cmds"
      proof (rule ccontr)
        assume "length rs \<noteq> length cmds"
        then have "rs \<noteq> []" "\<not> cr_Success (last rs)" using stop es(3) by simp_all
        then show False using all [of "length rs - 1"] by (simp add: last_conv_nth)
      qed
      then have "registered u n es" using reg all shape(3) by simp
      moreover have "s' = s2" using run True cmds b None
        by (auto simp: runRegistration_def BuildZTEGPONRegisterExecutionCommands_def)
      ultimately show ?thesis using clean es(1) by simp
    next
      case (Some i)
      have "s' = s2" "created \<longleftrightarrow> int i > 2" using run True cmds b Some shape(1)
        by (auto simp: runRegistration_def BuildZTEGPONRegisterExecutionCommands_def)
      moreover have "registered u n es" if "int i > 2"
        using reg inner [of 2] find_index_Some [OF Some] that by simp
      ultimately show ?thesis using clean es(1) by simp
    qed
  qed
  then show "list_all (\<lambda>e. \<not> is_removal (fst e)) (snd s')" and "created \<Longrightarrow> registered u n (snd s')" by simp_all
qed

lemma rollback_only_removes_it:
  assumes "zs_ServiceMode snap = lit ''gpon-register''"
  shows "list_all (\<lambda>c. is_removal c \<longrightarrow> c = lit ''no onu '' @ fmt_int (on_onu ont)) (buildZTERollbackCommands ont snap)"
  using assms by (simp add: buildZTERollbackCommands_def not_removal)

lemma update_status_dev [simp]: "w_dev (snd (update_status i status err now w)) = w_dev w"
  by (simp add: update_status_def split: sum.splits)

lemma delete_ont_dev [simp]: "w_dev (delete_ont i w) = w_dev w"
  by (simp add: delete_ont_def)

lemma meanwhile_dev [simp]: "w_dev (meanwhile oth w) = w_dev w"
  by (simp add: meanwhile_def split: prod.splits)

lemma failJob_dev:
  "w_dev (failJob u dev reconnect job ont before createdONU message now w) =
     (if createdONU \<and> reconnect then snd (executeRollback u dev (buildZTERollbackCommands ont before) (w_dev w)) else w_dev w)"
  by (simp add: failJob_def Let_def split: prod.splits)

lemma rollback_log:
  assumes "zs_ServiceMode snap = lit ''gpon-register''"
    and clean: "list_all (\<lambda>e. \<not> is_removal (fst e)) (snd s)" and reg: "registered u (on_onu ont) (snd s)"
  shows "own_removals u (snd (snd (executeRollback u (recorder dev) (buildZTERollbackCommands ont snap) s)))"
proof -
  obtain d log where s: "s = (d, log)" by fastforce
  obtain s2 rs where b: "BatchExecute u (recorder dev) (d, log) (buildZTERollbackCommands ont snap) = (s2, rs)" by fastforce
  from batch_recorder [OF b] obtain es where es: "snd s2 = log @ es" "map fst es = take (length rs) (buildZTERollbackCommands ont snap)"
    by auto
  have "list_all (\<lambda>e. is_removal (fst e) \<longrightarrow> fst e = lit ''no onu '' @ fmt_int (on_onu ont)) es"
    using list_all_take_map [OF rollback_only_removes_it [OF assms(1)] es(2)] .
  then have "own_removals u (log @ es)" using clean reg by (intro own_removals_append) (simp_all add: s)
  then show ?thesis using b es(1) by (simp add: executeRollback_def s)
qed

lemma executeJob_removals:
  assumes "zs_ServiceMode before = lit ''gpon-register''" "snd (w_dev w) = []"
  shows "own_removals u (snd (w_dev (snd (executeJob u (recorder dev) oth connect reconnect rb i now req ont before user True w))))"
proof -
  obtain d where d: "w_dev w = (d, [])" using assms(2) by (metis prod.collapse)
  obtain created err s' where run: "runRegistration u connect (recorder dev) req (on_onu ont) True (d, []) = ((created, err), s')"
    by (metis prod.collapse)
  note log = run_registration_log [OF run]
  have keep: "own_removals u (snd s')" using log(1) by (rule own_removals_none)
  have fail: "own_removals u (snd (w_dev (failJob u (recorder dev) reconnect job ont before created m now w2)))"
    if "w_dev w2 = s'" for job m w2
    using keep rollback_log [OF assms(1) log(1) log(2)] that by (simp add: failJob_dev)
  show ?thesis
  proof (cases "CreateProvisioningJob i (on_id ont) user (w_jobs w) (w_jobs w)")
    case (Inl e)
    then show ?thesis by (simp add: executeJob_def d)
  next
    case (Inr jt)
    obtain job tbl where jt: "jt = (job, tbl)" by fastforce
    let ?u = "update_status i ProvisioningStatusRunning None now (meanwhile oth (w\<lparr>w_jobs := tbl\<rparr>))"
    obtain e1 w1 where u: "?u = (e1, w1)" by fastforce
    have w1: "w_dev w1 = (d, [])" using arg_cong [OF u, of "\<lambda>x. w_dev (snd x)"] d by simp
    show ?thesis
    proof (cases e1)
      case (Some e)
      then show ?thesis using w1 Inr jt u by (simp add: executeJob_def)
    next
      case None
      let ?w2 = "w1\<lparr>w_dev := s'\<rparr>"
      let ?s = "update_status i ProvisioningStatusSuccess None now ?w2"
      have "w_dev ?w2 = s'" by simp
      note fails = fail [OF this]
      obtain e3 w3 where s3: "?s = (e3, w3)" by fastforce
      have "w_dev w3 = s'" using arg_cong [OF s3, of "\<lambda>x. w_dev (snd x)"] by simp
      then have ok: "own_removals u (snd (w_dev w3))" using keep by simp
      show ?thesis
        using None Inr jt u w1 run s3 fails ok
        by (cases err; cases e3; cases "verify u req ont (rb s')") (simp_all add: executeJob_def Let_def)
    qed
  qed
qed

section \<open>Properties of a registration\<close>

definition sample_request :: ZTEGPONRegisterRequest where
  "sample_request = \<lparr>rq_OLTID = 1, rq_Card = 2, rq_PON = 3, rq_ONUIDMode = ZTEONUIDAuto, rq_ONUID = 0,
     rq_SerialNumber = lit '' zteg12345678'', rq_ONUType = lit ''ALL'', rq_UseVEIP = False, rq_Name = lit ''home 1'',
     rq_Description = [], rq_ServiceEnabled = True, rq_VLANMode = ZTEVLANModeTag, rq_ServiceType = ZTEServiceInternet,
     rq_VLANID = 100, rq_DownloadProfile = lit ''UP-10M'', rq_UploadProfile = lit ''UP-10M'',
     rq_WANMode = ZTEWANModeWANIP, rq_WANIPMode = ZTEWANIPModePPPoE, rq_VLANProfile = lit ''inet'',
     rq_PPPoEUsername = lit ''u1'', rq_PPPoEPassword = lit ''secret''\<rparr>"

lemma ascii_sane: "unicode_sane ascii_unicode"
  by (auto simp: unicode_sane_def ascii_unicode_def is_control_def)

text \<open>C19. Registering a new ONU removes an ONU from the chassis only when, in the same sessions, the OLT
  accepted the very line that binds that ONU id: a refused registration never answers with a
  \<open>no onu\<close> for somebody else's ONU, whatever the OLT replies and wherever the job fails.\<close>

theorem register_removes_only_its_own:
  "own_removals u (snd (w_dev (snd (RegisterAndConfigure u (recorder dev) oth connect reconnect rb ontID jobID now
     req olt odp_ok user (w\<lparr>w_dev := (d, [])\<rparr>)))))"
proof -
  have job: "own_removals u (snd (w_dev w'))"
    if "executeJob u (recorder dev) oth connect reconnect rb jobID now r ont
          \<lparr>zs_SerialNumber = sn, zs_ServiceMode = lit ''gpon-register'', zs_Bandwidth = None, zs_VLAN = None\<rparr>
          user True w0 = (res, w')" "w_dev w0 = (d, [])" for r ont sn w0 res w'
    using executeJob_removals [of "\<lparr>zs_SerialNumber = sn, zs_ServiceMode = lit ''gpon-register'', zs_Bandwidth = None, zs_VLAN = None\<rparr>"
        w0 u dev oth connect reconnect rb jobID now r ont user] that by simp
  show ?thesis
    unfolding RegisterAndConfigure_def Let_def
    by (auto split: option.splits sum.splits prod.splits dest!: job)
qed

text \<open>A validated request is one the command builder accepts: for any id from 1 to 127, both the
  registration and the service builder answer with commands once the serial is in canonical form.\<close>

theorem validated_request_builds:
  assumes "unicode_sane u" and "ValidateZTEGPONRegister u req olt = None" and "1 \<le> n" and "n \<le> 127"
  shows "(\<exists>cmds. BuildZTEGPONRegisterExecutionCommands u
            (req\<lparr>rq_SerialNumber := canonicalZTESerial u (rq_SerialNumber req)\<rparr>) n = Inr cmds) \<and>
         (\<exists>cmds. BuildZTEGPONServiceExecutionCommands u
            (req\<lparr>rq_SerialNumber := canonicalZTESerial u (rq_SerialNumber req)\<rparr>) n = Inr cmds)"
  using builders_accept [OF validated_command_request [OF assms(1,2)]] assms(3,4)
  by (simp add: BuildZTEGPONRegisterExecutionCommands_def BuildZTEGPONServiceExecutionCommands_def
      minZTEONUID_def maxZTEONUID_def)

theorem validated_request_builds_witness:
  "\<exists>cmds. BuildZTEGPONRegisterExecutionCommands ascii_unicode
     (sample_request\<lparr>rq_SerialNumber := canonicalZTESerial ascii_unicode (rq_SerialNumber sample_request)\<rparr>) 5 = Inr cmds"
proof -
  have "ValidateZTEGPONRegister ascii_unicode sample_request (Some ZTEC320) = None" by code_simp
  from validated_request_builds [OF ascii_sane this, of 5] show ?thesis by simp
qed

text \<open>C20. No command the builder hands to the session holds a control character, so a request can never
  smuggle a second command line into the OLT's CLI.\<close>

theorem commands_are_single_lines:
  assumes "unicode_sane u"
    and "BuildZTEGPONRegisterExecutionCommands u req n = Inr cmds \<or> BuildZTEGPONServiceExecutionCommands u req n = Inr cmds"
  shows "list_all (list_all (\<lambda>r. \<not> is_control r)) cmds"
  using assms register_commands_plain [OF assms(1)] service_commands_plain [OF assms(1)]
  unfolding plain_def [abs_def] BuildZTEGPONRegisterExecutionCommands_def BuildZTEGPONServiceExecutionCommands_def
  by blast

theorem commands_are_single_lines_witness:
  "list_all (list_all (\<lambda>r. \<not> is_control r))
     (projr (BuildZTEGPONRegisterExecutionCommands ascii_unicode sample_request 5))"
proof -
  have "isl (BuildZTEGPONRegisterExecutionCommands ascii_unicode sample_request 5) = False" by code_simp
  then have "BuildZTEGPONRegisterExecutionCommands ascii_unicode sample_request 5 =
      Inr (projr (BuildZTEGPONRegisterExecutionCommands ascii_unicode sample_request 5))" by simp
  then show ?thesis using commands_are_single_lines [OF ascii_sane] by blast
qed

text \<open>C26. The preview an operator approves is what runs, with the password hidden: it is exactly the
  command list the executing builder makes of the same request with \<open><redacted>\<close> for its password.\<close>

theorem preview_is_redacted_execution:
  assumes "BuildZTEGPONRegisterCommands u req n = Inr cmds"
  shows "BuildZTEGPONRegisterExecutionCommands u (req\<lparr>rq_PPPoEPassword := lit ''<redacted>''\<rparr>) n = Inr cmds"
proof -
  let ?r = "req\<lparr>rq_PPPoEPassword := lit ''<redacted>''\<rparr>"
  have v: "validateZTECommandRequest u req n = None"
    using assms by (auto simp: BuildZTEGPONRegisterCommands_def buildZTEGPONRegisterCommands_def split: option.splits)
  have "isZTECredential (lit ''<redacted>'')" by code_simp
  then have wan: "validateZTECommandWAN req = None \<Longrightarrow> validateZTECommandWAN ?r = None"
    unfolding validateZTECommandWAN_def by (simp split: if_splits)
  then have vr: "validateZTECommandRequest u ?r n = None"
    using v unfolding validateZTECommandRequest_def by (auto split: if_splits option.splits)
  have "buildZTEInterfaceSection ?r n = buildZTEInterfaceSection req n"
    by (simp add: buildZTEInterfaceSection_def onu_path_def zteServiceLabel_def buildZTEServicePort_def)
  moreover have "buildZTEManagementSection ?r n True = buildZTEManagementSection req n False"
    by (simp add: buildZTEManagementSection_def onu_path_def buildZTEONUService_def zteServiceLabel_def wan_ip_line_def)
  ultimately show ?thesis
    using assms v vr
    by (simp add: BuildZTEGPONRegisterCommands_def BuildZTEGPONRegisterExecutionCommands_def
        buildZTEGPONRegisterCommands_def buildZTEGPONServiceCommands_def)
qed

theorem preview_is_redacted_execution_witness:
  "BuildZTEGPONRegisterExecutionCommands ascii_unicode (sample_request\<lparr>rq_PPPoEPassword := lit ''<redacted>''\<rparr>) 5 =
     Inr (projr (BuildZTEGPONRegisterCommands ascii_unicode sample_request 5))"
proof -
  have "isl (BuildZTEGPONRegisterCommands ascii_unicode sample_request 5) = False" by code_simp
  then have "BuildZTEGPONRegisterCommands ascii_unicode sample_request 5 =
      Inr (projr (BuildZTEGPONRegisterCommands ascii_unicode sample_request 5))" by simp
  then show ?thesis by (rule preview_is_redacted_execution)
qed

text \<open>The interleaving of two configurations of one ONT: both create their pending job, the other moves
  to running first.\<close>

definition sample_ont :: ont_row where
  "sample_ont = \<lparr>on_id = 7, on_olt = 1, on_slot = Some 2, on_port = 3, on_onu = 5, on_serial = lit ''ZTEG12345678''\<rparr>"

definition other_running :: prov_job where
  "other_running = \<lparr>pv_id = 100, pv_ont = 7, pv_status = ProvisioningStatusRunning, pv_error = None,
     pv_completed_at = None, pv_created_by = 9\<rparr>"

text \<open>Configuring an ONT that already exists can delete it: when another job of the ONT starts between
  this job's creation and its move to running, the request is refused and the ONT's row is gone, although
  this request had not created it and nothing was sent to the OLT.\<close>

theorem configure_existing_can_delete_the_ont:
  "ConfigureExisting ascii_unicode (recorder (\<lambda>d cmd. (d, Reply [])))
     (\<lambda>(js, ots). (other_running # js, ots)) True True (\<lambda>_. ReadFails) 7 101 0 sample_request (Some ZTEC320)
     (Some \<lparr>zs_SerialNumber = on_serial sample_ont, zs_ServiceMode = [], zs_Bandwidth = None, zs_VLAN = None\<rparr>) 9
     \<lparr>w_jobs = [], w_onts = [sample_ont], w_dev = ((), [])\<rparr> =
   (Inl (ErrExec (JobError ErrAnotherJobRunning)),
    \<lparr>w_jobs = [other_running, \<lparr>pv_id = 101, pv_ont = 7, pv_status = ProvisioningStatusPending, pv_error = None,
       pv_completed_at = None, pv_created_by = 9\<rparr>], w_onts = [], w_dev = ((), [])\<rparr>)"
  by code_simp

end
