(* ===== verification/OntProvision.thy ===== *)
theory OntProvision
  imports ZteProvision "HOL-Library.AList"
begin

text \<open>
  The generic provisioning of one ONT: what a manual configuration may hold and what of it is
  kept secret (\<open>services/manual_config_security.go\<close>), the commands (\<open>services/ont_provisioning_commands.go\<close>),
  the snapshots around a run (\<open>services/snapshot_service.go\<close>), the run itself (\<open>services/ont_provisioning_service.go\<close>)
  and the rollback (\<open>services/rollback_engine.go\<close>).

  A decoded JSON document is a \<open>cfg\<close>; a Go map is an association list with distinct keys. Floats are
  a parameter: how they print, whether they are whole, and the integer they convert to. The OLT, the session to it, and
  what its SNMP driver answers are parameters too. A snapshot's time and raw readings are left out, as nothing reads them.
\<close>

section \<open>A configuration\<close>

datatype 'f cfg =
    CNull
  | CBool bool
  | CFloat 'f
  | CNumber str \<comment> \<open>\<open>json.Number\<close>\<close>
  | CInt int \<comment> \<open>any signed width\<close>
  | CUint u64 \<comment> \<open>any unsigned width\<close>
  | CStr str
  | CList "'f cfg list"
  | CMap "(str \<times> 'f cfg) list"

record 'f floats =
  fl_format :: "'f \<Rightarrow> str"
  fl_whole :: "'f \<Rightarrow> bool"
  fl_int :: "'f \<Rightarrow> int"
  fl_parses :: "str \<Rightarrow> bool"

text \<open>\<open>^[A-Za-z0-9_.-]+$\<close> and \<open>^[0-9]+$\<close>.\<close>

definition safeConfigToken :: "str \<Rightarrow> bool" where
  "safeConfigToken v \<longleftrightarrow>
     v \<noteq> [] \<and> list_all (\<lambda>r. ascii_alnum r \<or> r = of_char (CHR ''_'') \<or> r = of_char (CHR ''.'') \<or> r = of_char (CHR ''-'')) v"

definition all_digits :: "str \<Rightarrow> bool" where
  "all_digits v \<longleftrightarrow> v \<noteq> [] \<and> list_all re_digit v"

definition digits_val :: "str \<Rightarrow> int" where
  "digits_val v = foldl (\<lambda>n r. 10 * n + (int r - 48)) 0 v"

definition validateManualToken :: "'f floats \<Rightarrow> 'f cfg \<Rightarrow> bool" where
  "validateManualToken F v =
     (case v of
        CStr s \<Rightarrow> safeConfigToken s
      | CNumber s \<Rightarrow> fl_parses F s
      | CFloat _ \<Rightarrow> True | CInt _ \<Rightarrow> True | CUint _ \<Rightarrow> True
      | _ \<Rightarrow> False)"

text \<open>\<open>strconv.Atoi\<close> of digits fails beyond 64 bits. \<open>None\<close> is an error.\<close>

definition manualInteger :: "'f floats \<Rightarrow> 'f cfg \<Rightarrow> int option" where
  "manualInteger F v =
     (case v of
        CStr s \<Rightarrow> if \<not> all_digits s then None else if digits_val s \<ge> 2 ^ 63 then None else Some (digits_val s)
      | CFloat f \<Rightarrow> if \<not> fl_whole F f then None else Some (fl_int F f)
      | CInt i \<Rightarrow> Some i
      | CUint w \<Rightarrow> Some (sint w)
      | _ \<Rightarrow> None)"

definition manual_entry :: "'f floats \<Rightarrow> str \<times> 'f cfg \<Rightarrow> bool" where
  "manual_entry F e =
     (case e of (key, value) \<Rightarrow>
        if key = lit ''bandwidth'' then validateManualToken F value
        else if key = lit ''vlan'' then
          (case manualInteger F value of None \<Rightarrow> False | Some vlan \<Rightarrow> \<not> (vlan < 1 \<or> vlan > 4094))
        else False)"

definition validateManualConfig :: "'f floats \<Rightarrow> (str \<times> 'f cfg) list \<Rightarrow> bool" where
  "validateManualConfig F config = list_all (manual_entry F) config"

definition manualTokenString :: "'f floats \<Rightarrow> 'f cfg \<Rightarrow> str" where
  "manualTokenString F v =
     (case v of
        CStr s \<Rightarrow> s
      | CFloat f \<Rightarrow> fl_format F f
      | CInt i \<Rightarrow> fmt_int i
      | CUint w \<Rightarrow> fmt_int (uint w)
      | _ \<Rightarrow> [])"

section \<open>Keeping secrets out of records\<close>

definition redactedValue :: str where "redactedValue = lit ''<redacted>''"

text \<open>Case folding as \<open>(?i)\<close> has it: the Kelvin sign and the long s fold into ASCII.\<close>

definition fold_rune :: "nat \<Rightarrow> nat" where
  "fold_rune r = (if 65 \<le> r \<and> r \<le> 90 then r + 32 else if r = 0x212A then 0x6B else if r = 0x17F then 0x73 else r)"

definition secret_words :: "str list" where
  "secret_words = map lit [''password'', ''passwd'', ''secret'', ''token'', ''apikey'', ''api_key'', ''api-key'',
     ''community'', ''credential'']"

definition sensitiveConfigKey :: "str \<Rightarrow> bool" where
  "sensitiveConfigKey key = list_ex (\<lambda>w. sublist w (map fold_rune key)) secret_words"

fun redactValue :: "'f cfg \<Rightarrow> 'f cfg" where
  "redactValue (CMap kvs) =
     CMap (map (\<lambda>(k, v). if sensitiveConfigKey k then (k, CStr redactedValue) else (k, redactValue v)) kvs)"
| "redactValue (CList vs) = CList (map redactValue vs)"
| "redactValue v = v"

definition redactMap :: "(str \<times> 'f cfg) list \<Rightarrow> (str \<times> 'f cfg) list" where
  "redactMap kvs = map (\<lambda>(k, v). if sensitiveConfigKey k then (k, CStr redactedValue) else (k, redactValue v)) kvs"

definition redactManualConfig :: "(str \<times> 'f cfg) list \<Rightarrow> (str \<times> 'f cfg) list" where
  "redactManualConfig config = redactMap config"

text \<open>The strings found under a sensitive key, in maps within maps.\<close>

fun sensitive_values_of :: "'f cfg \<Rightarrow> (str \<times> str) list" where
  "sensitive_values_of (CMap kvs) =
     concat (map (\<lambda>(k, v). if sensitiveConfigKey k then (case v of CStr s \<Rightarrow> [(k, s)] | _ \<Rightarrow> [])
                           else sensitive_values_of v) kvs)"
| "sensitive_values_of v = []"

definition sensitiveValues :: "(str \<times> 'f cfg) list \<Rightarrow> (str \<times> str) list" where
  "sensitiveValues input = sensitive_values_of (CMap input)"

section \<open>The commands\<close>

definition VendorZTE :: str where "VendorZTE = lit ''zte''"
definition VendorHSGQ :: str where "VendorHSGQ = lit ''hsgq''"
definition OLTModelZTEC300 :: string where "OLTModelZTEC300 = ''zte_c300''"
definition OLTModelZTEC320 :: string where "OLTModelZTEC320 = ''zte_c320''"
definition OLTModelHSGQ :: string where "OLTModelHSGQ = ''hsgq''"
definition OLTProtocolTelnet :: string where "OLTProtocolTelnet = ''telnet''"
definition OLTProtocolSSH :: string where "OLTProtocolSSH = ''ssh''"

record olt_row =
  ol_id :: uuid
  ol_model :: string
  ol_host :: string
  ol_protocol :: string
  ol_telnet_port :: int
  ol_ssh_port :: int

definition zte_model :: "string \<Rightarrow> bool" where
  "zte_model m \<longleftrightarrow> m = OLTModelZTEC300 \<or> m = OLTModelZTEC320"

definition templateVendorMatchesOLT :: "str \<Rightarrow> string \<Rightarrow> bool" where
  "templateVendorMatchesOLT vendor m =
     (if zte_model m then vendor = VendorZTE else if m = OLTModelHSGQ then vendor = VendorHSGQ else False)"

record 'f ProvisionConfig =
  pc_TemplateID :: "uuid option"
  pc_ManualConfig :: "(str \<times> 'f cfg) list"

text \<open>A template is its vendor and its fields, which may fail to decode.\<close>

type_synonym 'f templates = "uuid \<Rightarrow> (str \<times> (str \<times> 'f cfg) list option) option"

definition put_all :: "(str \<times> 'f cfg) list \<Rightarrow> (str \<times> 'f cfg) list \<Rightarrow> (str \<times> 'f cfg) list" where
  "put_all kvs m = foldl (\<lambda>m (k, v). AList.update k v m) m kvs"

definition implicit_fields :: "ont_row \<Rightarrow> olt_row \<Rightarrow> (str \<times> 'f cfg) list" where
  "implicit_fields ont olt =
     [(lit ''ont_id'', CInt (int (on_id ont))), (lit ''olt_id'', CInt (int (ol_id olt))),
      (lit ''slot'', case on_slot ont of None \<Rightarrow> CNull | Some s \<Rightarrow> CInt s),
      (lit ''port'', CInt (on_port ont)), (lit ''ontid'', CInt (on_onu ont))]"

definition buildProvisionConfig ::
  "'f floats \<Rightarrow> 'f templates option \<Rightarrow> 'f ProvisionConfig \<Rightarrow> ont_row \<Rightarrow> olt_row \<Rightarrow> (str \<times> 'f cfg) list option" where
  "buildProvisionConfig F templates config ont olt =
     (case (case pc_TemplateID config of
              None \<Rightarrow> Some []
            | Some i \<Rightarrow>
                (case templates of
                   None \<Rightarrow> None
                 | Some get \<Rightarrow>
                     (case get i of
                        None \<Rightarrow> None
                      | Some (vendor, decoded) \<Rightarrow>
                          if \<not> templateVendorMatchesOLT vendor (ol_model olt) then None
                          else map_option (\<lambda>fs. put_all fs []) decoded))) of
        None \<Rightarrow> None
      | Some result \<Rightarrow>
          (let result = put_all (pc_ManualConfig config) result
           in if \<not> validateManualConfig F result then None
              else Some (put_all (implicit_fields ont olt) result)))"

definition buildZTECommands :: "'f floats \<Rightarrow> ont_row \<Rightarrow> (str \<times> 'f cfg) list \<Rightarrow> str list" where
  "buildZTECommands F ont config =
     [lit ''configure terminal'',
      lit ''interface gpon-onu '' @ fmt_int (on_port ont) @ lit '':'' @ fmt_int (on_onu ont)] @
     (case map_of config (lit ''bandwidth'') of
        Some bw \<Rightarrow> [lit ''ont traffic band-width '' @ manualTokenString F bw @ lit '' '' @ fmt_int (on_onu ont)]
      | None \<Rightarrow> []) @
     (case map_of config (lit ''vlan'') of
        Some vlan \<Rightarrow> [lit ''ont service vlan add '' @ manualTokenString F vlan @ lit '' '' @ fmt_int (on_onu ont)]
      | None \<Rightarrow> []) @
     [lit ''commit'']"

definition buildHSGQCommands :: "ont_row \<Rightarrow> str list" where
  "buildHSGQCommands ont =
     [lit ''configure terminal'',
      lit ''interface gpon-onu-port/'' @ fmt_int (on_port ont) @ lit ''/'' @ fmt_int (on_onu ont),
      lit ''commit'']"

definition provision_commands :: "'f floats \<Rightarrow> olt_row \<Rightarrow> ont_row \<Rightarrow> (str \<times> 'f cfg) list \<Rightarrow> str list" where
  "provision_commands F olt ont config =
     (if zte_model (ol_model olt) then buildZTECommands F ont config else buildHSGQCommands ont)"

section \<open>A session to the OLT\<close>

text \<open>The protocol and port a session is opened with; \<open>None\<close> when it is refused before dialling.\<close>

definition ForOLTWithProtocol :: "string \<Rightarrow> string \<Rightarrow> int \<Rightarrow> (string \<times> string \<times> int) option" where
  "ForOLTWithProtocol host protocol port =
     (if host = '''' then None
      else let port = (if port \<le> 0 then (if protocol = OLTProtocolSSH then 22 else 23) else port)
           in if protocol = OLTProtocolSSH \<or> protocol = OLTProtocolTelnet then Some (protocol, host, port) else None)"

definition createCommanderForOLT :: "olt_row \<Rightarrow> (string \<times> string \<times> int) option" where
  "createCommanderForOLT olt =
     (let protocol = (if ol_protocol olt = '''' then OLTProtocolTelnet else ol_protocol olt);
          port = (if protocol = OLTProtocolSSH then ol_ssh_port olt else ol_telnet_port olt)
      in ForOLTWithProtocol (ol_host olt) protocol port)"

type_synonym dial = "string \<times> string \<times> int \<Rightarrow> bool"

definition session_opens :: "dial \<Rightarrow> olt_row \<Rightarrow> bool" where
  "session_opens dial olt = (case createCommanderForOLT olt of None \<Rightarrow> False | Some t \<Rightarrow> dial t)"

definition executeProvision ::
  "unicode \<Rightarrow> 'd device \<Rightarrow> bool \<Rightarrow> 'f floats \<Rightarrow> olt_row \<Rightarrow> ont_row \<Rightarrow> (str \<times> 'f cfg) list \<Rightarrow> 'd \<Rightarrow> bool \<times> 'd" where
  "executeProvision u dev connects F olt ont config d =
     (if \<not> connects then (False, d)
      else (case BatchExecute u dev d (provision_commands F olt ont config) of
              (d', results) \<Rightarrow> (list_all cr_Success results, d')))"

section \<open>Snapshots\<close>

record ZTESnapshot = zte_snapshot +
  zs_Name :: str
  zs_DeviceType :: str
  zs_HardwareVersion :: str
  zs_IPAddr :: str

record HSGQSnapshot =
  hs_SerialNumber :: str
  hs_PortConfig :: str
  hs_VLANID :: "int option"
  hs_ProfileID :: int

record ConfigSnapshot =
  sn_OntID :: uuid
  sn_ZTE :: "ZTESnapshot option"
  sn_HSGQ :: "HSGQSnapshot option"

record ONTLocation =
  lo_Slot :: int
  lo_Port :: int
  lo_ONTID :: int

record ONTInventory =
  iv_SerialNumber :: str
  iv_Name :: str
  iv_DeviceType :: str
  iv_HardwareVersion :: str
  iv_IPAddress :: str

text \<open>What a driver answers: the inventory of the locations asked for, and one ONU's metrics (here the
  software version alone). A metrics table the driver does not have is not a failure.\<close>

datatype metrics_answer = MetricsFailed | MetricsUnsupported | Metrics str

record 'd driver =
  dr_Inventory :: "'d \<Rightarrow> ONTLocation list \<Rightarrow> (ONTLocation \<rightharpoonup> ONTInventory) option"
  dr_Metrics :: "'d \<Rightarrow> ONTLocation \<Rightarrow> metrics_answer"

definition needPtrCompare :: "'a option \<Rightarrow> 'a option \<Rightarrow> bool" where
  "needPtrCompare a b = (case (a, b) of (Some x, Some y) \<Rightarrow> x \<noteq> y | _ \<Rightarrow> False)"

definition applyVendorSnapshot ::
  "string \<Rightarrow> ont_row \<Rightarrow> ONTInventory \<Rightarrow> str option \<Rightarrow> ConfigSnapshot \<Rightarrow> ConfigSnapshot" where
  "applyVendorSnapshot m ont stock version snap =
     (if zte_model m then
        snap\<lparr>sn_ZTE := Some
          \<lparr>zs_SerialNumber = iv_SerialNumber stock,
           zs_ServiceMode = (case version of Some v \<Rightarrow> if v \<noteq> [] then v else lit ''bridge'' | None \<Rightarrow> lit ''bridge''),
           zs_Bandwidth = None, zs_VLAN = None, zs_Name = iv_Name stock, zs_DeviceType = iv_DeviceType stock,
           zs_HardwareVersion = iv_HardwareVersion stock, zs_IPAddr = iv_IPAddress stock\<rparr>\<rparr>
      else
        snap\<lparr>sn_HSGQ := Some
          \<lparr>hs_SerialNumber = iv_SerialNumber stock,
           hs_PortConfig = lit ''gpon-onu-port/'' @ fmt_int (on_port ont) @ lit ''/'' @ fmt_int (on_onu ont),
           hs_VLANID = None, hs_ProfileID = 0\<rparr>\<rparr>)"

definition CaptureBeforeSnapshot ::
  "(string \<Rightarrow> 'd driver option) \<Rightarrow> olt_row list \<Rightarrow> ont_row \<Rightarrow> 'd \<Rightarrow> ConfigSnapshot option" where
  "CaptureBeforeSnapshot resolver olts ont d =
     (let loc = \<lparr>lo_Slot = intSlotOrDefault (on_slot ont), lo_Port = on_port ont, lo_ONTID = on_onu ont\<rparr>
      in (case find (\<lambda>x. ol_id x = on_olt ont) olts of
            None \<Rightarrow> None
          | Some olt \<Rightarrow>
              (case resolver (ol_model olt) of
                 None \<Rightarrow> None
               | Some drv \<Rightarrow>
                   (case dr_Inventory drv d [loc] of
                      None \<Rightarrow> None
                    | Some found \<Rightarrow>
                        (case found loc of
                           None \<Rightarrow> None
                         | Some stock \<Rightarrow>
                             (case dr_Metrics drv d loc of
                                MetricsFailed \<Rightarrow> None
                              | MetricsUnsupported \<Rightarrow>
                                  Some (applyVendorSnapshot (ol_model olt) ont stock None
                                          \<lparr>sn_OntID = on_id ont, sn_ZTE = None, sn_HSGQ = None\<rparr>)
                              | Metrics v \<Rightarrow>
                                  Some (applyVendorSnapshot (ol_model olt) ont stock (Some v)
                                          \<lparr>sn_OntID = on_id ont, sn_ZTE = None, sn_HSGQ = None\<rparr>)))))))"

definition changed :: "string \<Rightarrow> bool \<Rightarrow> string list" where
  "changed name differs = (if differs then [name] else [])"

definition compareZTE :: "ZTESnapshot option \<Rightarrow> ZTESnapshot option \<Rightarrow> string list" where
  "compareZTE before after =
     (case (before, after) of
        (None, None) \<Rightarrow> []
      | (Some b, Some a) \<Rightarrow>
          changed ''zte.serial_number'' (zs_SerialNumber b \<noteq> zs_SerialNumber a) @
          changed ''zte.name'' (zs_Name b \<noteq> zs_Name a) @
          changed ''zte.device_type'' (zs_DeviceType b \<noteq> zs_DeviceType a) @
          changed ''zte.hardware_version'' (zs_HardwareVersion b \<noteq> zs_HardwareVersion a) @
          changed ''zte.service_mode'' (zs_ServiceMode b \<noteq> zs_ServiceMode a) @
          changed ''zte.ip_addr'' (zs_IPAddr b \<noteq> zs_IPAddr a) @
          changed ''zte.bandwidth'' (needPtrCompare (zs_Bandwidth b) (zs_Bandwidth a)) @
          changed ''zte.vlan'' (needPtrCompare (zs_VLAN b) (zs_VLAN a))
      | _ \<Rightarrow> [''zte structure''])"

definition compareHSGQ :: "HSGQSnapshot option \<Rightarrow> HSGQSnapshot option \<Rightarrow> string list" where
  "compareHSGQ before after =
     (case (before, after) of
        (None, None) \<Rightarrow> []
      | (Some b, Some a) \<Rightarrow>
          changed ''hsgq.serial_number'' (hs_SerialNumber b \<noteq> hs_SerialNumber a) @
          changed ''hsgq.port_config'' (hs_PortConfig b \<noteq> hs_PortConfig a) @
          changed ''hsgq.vlan_id'' (needPtrCompare (hs_VLANID b) (hs_VLANID a)) @
          changed ''hsgq.profile_id'' (hs_ProfileID b \<noteq> hs_ProfileID a)
      | _ \<Rightarrow> [''hsgq structure''])"

definition Compare :: "ConfigSnapshot option \<Rightarrow> ConfigSnapshot option \<Rightarrow> string list" where
  "Compare before after =
     (case (before, after) of
        (None, None) \<Rightarrow> []
      | (Some b, Some a) \<Rightarrow> compareZTE (sn_ZTE b) (sn_ZTE a) @ compareHSGQ (sn_HSGQ b) (sn_HSGQ a)
      | _ \<Rightarrow> [''one snapshot is nil''])"

section \<open>Rolling back\<close>

definition buildHSGQRollbackCommands :: "ont_row \<Rightarrow> str list" where
  "buildHSGQRollbackCommands ont =
     [lit ''configure terminal'',
      lit ''interface gpon-oltport 0/'' @ fmt_int (on_port ont),
      lit ''ont delete '' @ fmt_int (on_onu ont),
      lit ''commit'']"

text \<open>The commands that restore a snapshot; \<open>None\<close> when it holds nothing to restore.\<close>

definition rollback_commands :: "ont_row \<Rightarrow> ConfigSnapshot \<Rightarrow> str list option" where
  "rollback_commands ont snap =
     (case sn_ZTE snap of
        Some z \<Rightarrow> Some (buildZTERollbackCommands ont (zte_snapshot.truncate z))
      | None \<Rightarrow>
          (case sn_HSGQ snap of
             Some _ \<Rightarrow> Some (buildHSGQRollbackCommands ont)
           | None \<Rightarrow> None))"

definition RollbackToSnapshot ::
  "unicode \<Rightarrow> 'd device \<Rightarrow> ont_row \<Rightarrow> ConfigSnapshot option \<Rightarrow> 'd \<Rightarrow> bool \<times> 'd" where
  "RollbackToSnapshot u dev ont snapshot d =
     (case snapshot of
        None \<Rightarrow> (False, d)
      | Some snap \<Rightarrow>
          (case rollback_commands ont snap of
             None \<Rightarrow> (False, d)
           | Some cmds \<Rightarrow> executeRollback u dev cmds d))"

definition RollbackToSnapshotForOLT ::
  "unicode \<Rightarrow> 'd device \<Rightarrow> dial \<Rightarrow> olt_row \<Rightarrow> ont_row \<Rightarrow> ConfigSnapshot option \<Rightarrow> 'd \<Rightarrow> bool \<times> 'd" where
  "RollbackToSnapshotForOLT u dev dial olt ont snapshot d =
     (if \<not> session_opens dial olt then (False, d) else RollbackToSnapshot u dev ont snapshot d)"

section \<open>A run\<close>

record ('d, 'f) prov_world =
  pw_onts :: "ont_row list"
  pw_olts :: "olt_row list"
  pw_jobs :: "prov_job list"
  pw_before :: "uuid \<rightharpoonup> ConfigSnapshot" \<comment> \<open>\<open>before_snapshot\<close> of the jobs\<close>
  pw_config :: "uuid \<rightharpoonup> (str \<times> 'f cfg) list" \<comment> \<open>\<open>config_snapshot\<close> of the jobs\<close>
  pw_dev :: 'd

text \<open>What a run is given from outside: the tables of text and floats, the templates (or no template
  service), the drivers, whether a session opens, the rollback engine, and the OLT.\<close>

record ('d, 'f) prov_env =
  pe_unicode :: unicode
  pe_floats :: "'f floats"
  pe_templates :: "'f templates option"
  pe_resolver :: "string \<Rightarrow> 'd driver option"
  pe_dial :: dial
  pe_rollback :: bool
  pe_device :: "'d device"

datatype prov_error =
    ErrLoadONT | ErrLoadOLT | ErrConfig | ErrManualConfig | ErrBeforeSnapshot
  | ErrCreateJob job_error | ErrStartJob job_error | ErrExecution
  | ErrAfterSnapshot | ErrDrift "string list" | ErrFinishJob job_error | ErrReloadJob job_error

definition set_status ::
  "uuid \<Rightarrow> string \<Rightarrow> string option \<Rightarrow> time \<Rightarrow> ('d, 'f) prov_world \<Rightarrow> job_error option \<times> ('d, 'f) prov_world" where
  "set_status i status err now w =
     (case UpdateStatusProvisioning i status err now (pw_jobs w) (pw_jobs w) of
        Inl e \<Rightarrow> (Some e, w)
      | Inr tbl \<Rightarrow> (None, w\<lparr>pw_jobs := tbl\<rparr>))"

definition startJob ::
  "uuid \<Rightarrow> uuid \<Rightarrow> uuid \<Rightarrow> (str \<times> 'f cfg) list \<Rightarrow> ConfigSnapshot \<Rightarrow> time \<Rightarrow> ('d, 'f) prov_world
    \<Rightarrow> (prov_error + prov_job) \<times> ('d, 'f) prov_world" where
  "startJob newid ontID userID config before now w =
     (case CreateProvisioningJob newid ontID userID (pw_jobs w) (pw_jobs w) of
        Inl e \<Rightarrow> (Inl (ErrCreateJob e), w)
      | Inr (job, tbl) \<Rightarrow>
          (let w = w\<lparr>pw_jobs := tbl, pw_before := (pw_before w)(newid \<mapsto> before),
                     pw_config := (pw_config w)(newid \<mapsto> redactManualConfig config)\<rparr>
           in (case set_status newid ProvisioningStatusRunning None now w of
                 (Some e, w) \<Rightarrow> (Inl (ErrStartJob e), w)
               | (None, w) \<Rightarrow> (Inr job, w))))"

definition rollbackOnt ::
  "('d, 'f) prov_env \<Rightarrow> ont_row \<Rightarrow> olt_row \<Rightarrow> ConfigSnapshot option \<Rightarrow> ('d, 'f) prov_world \<Rightarrow> bool \<times> ('d, 'f) prov_world" where
  "rollbackOnt env ont olt snap w =
     (if \<not> pe_rollback env then (False, w)
      else (case RollbackToSnapshotForOLT (pe_unicode env) (pe_device env) (pe_dial env) olt ont snap (pw_dev w) of
              (ok, d) \<Rightarrow> (ok, w\<lparr>pw_dev := d\<rparr>)))"

definition abandonJob ::
  "('d, 'f) prov_env \<Rightarrow> prov_job \<Rightarrow> ont_row \<Rightarrow> olt_row \<Rightarrow> ConfigSnapshot option \<Rightarrow> string \<Rightarrow> time
    \<Rightarrow> ('d, 'f) prov_world \<Rightarrow> ('d, 'f) prov_world" where
  "abandonJob env job ont olt before reason now w =
     snd (rollbackOnt env ont olt before (snd (set_status (pv_id job) ProvisioningStatusFailed (Some reason) now w)))"

definition verifyAgainstSnapshot ::
  "('d, 'f) prov_env \<Rightarrow> prov_job \<Rightarrow> ont_row \<Rightarrow> olt_row \<Rightarrow> ConfigSnapshot option \<Rightarrow> time \<Rightarrow> ('d, 'f) prov_world
    \<Rightarrow> prov_error option \<times> ('d, 'f) prov_world" where
  "verifyAgainstSnapshot env job ont olt before now w =
     (case CaptureBeforeSnapshot (pe_resolver env) (pw_olts w) ont (pw_dev w) of
        None \<Rightarrow> (Some ErrAfterSnapshot, abandonJob env job ont olt before ''after snapshot failed'' now w)
      | Some after \<Rightarrow>
          if before = None then (None, w)
          else (let diffs = Compare before (Some after)
                in if diffs = [] then (None, w)
                   else (Some (ErrDrift diffs), abandonJob env job ont olt before ''config drift detected'' now w)))"

definition completeJob ::
  "prov_job \<Rightarrow> time \<Rightarrow> ('d, 'f) prov_world \<Rightarrow> (prov_error + prov_job) \<times> ('d, 'f) prov_world" where
  "completeJob job now w =
     (case set_status (pv_id job) ProvisioningStatusSuccess None now w of
        (Some e, w) \<Rightarrow> (Inl (ErrFinishJob e), w)
      | (None, w) \<Rightarrow>
          (case GetProvisioningJob (pv_id job) (pw_jobs w) of
             Inl e \<Rightarrow> (Inl (ErrReloadJob e), w)
           | Inr latest \<Rightarrow> (Inr latest, w)))"

text \<open>\<open>newid\<close> is the key \<open>uuid.New\<close> answers for the job.\<close>

definition ProvisionOnt ::
  "('d, 'f) prov_env \<Rightarrow> uuid \<Rightarrow> uuid \<Rightarrow> uuid \<Rightarrow> 'f ProvisionConfig \<Rightarrow> time \<Rightarrow> ('d, 'f) prov_world
    \<Rightarrow> (prov_error + prov_job) \<times> ('d, 'f) prov_world" where
  "ProvisionOnt env newid ontID userID config now w =
     (case find (\<lambda>x. on_id x = ontID) (pw_onts w) of
        None \<Rightarrow> (Inl ErrLoadONT, w)
      | Some ont \<Rightarrow>
      (case find (\<lambda>x. ol_id x = on_olt ont) (pw_olts w) of
        None \<Rightarrow> (Inl ErrLoadOLT, w)
      | Some olt \<Rightarrow>
      (case buildProvisionConfig (pe_floats env) (pe_templates env) config ont olt of
        None \<Rightarrow> (Inl ErrConfig, w)
      | Some provisionConfig \<Rightarrow>
      if \<not> validateManualConfig (pe_floats env) (pc_ManualConfig config) then (Inl ErrManualConfig, w) else
      (case CaptureBeforeSnapshot (pe_resolver env) (pw_olts w) ont (pw_dev w) of
        None \<Rightarrow> (Inl ErrBeforeSnapshot, w)
      | Some before \<Rightarrow>
      (case startJob newid ontID userID provisionConfig before now w of
        (Inl e, w) \<Rightarrow> (Inl e, w)
      | (Inr job, w) \<Rightarrow>
      (case executeProvision (pe_unicode env) (pe_device env) (session_opens (pe_dial env) olt) (pe_floats env)
              olt ont provisionConfig (pw_dev w) of
        (False, d) \<Rightarrow> (Inl ErrExecution, abandonJob env job ont olt (Some before) ''execution failed'' now (w\<lparr>pw_dev := d\<rparr>))
      | (True, d) \<Rightarrow>
      (case verifyAgainstSnapshot env job ont olt (Some before) now (w\<lparr>pw_dev := d\<rparr>) of
        (Some e, w) \<Rightarrow> (Inl e, w)
      | (None, w) \<Rightarrow> completeJob job now w)))))))"

datatype rollback_error = ErrNoJob | ErrNoSnapshot | ErrRollbackONT | ErrRollbackOLT | ErrRollback | ErrRollbackStatus job_error

text \<open>\<open>RollbackOnt\<close> by request, through \<open>SnapshotService.RollbackTo\<close>, which looks the OLT up itself.\<close>

definition RollbackOnt ::
  "('d, 'f) prov_env \<Rightarrow> uuid \<Rightarrow> uuid \<Rightarrow> time \<Rightarrow> ('d, 'f) prov_world \<Rightarrow> rollback_error option \<times> ('d, 'f) prov_world" where
  "RollbackOnt env ontID jobID now w =
     (case GetProvisioningJob jobID (pw_jobs w) of
        Inl e \<Rightarrow> (Some ErrNoJob, w)
      | Inr job \<Rightarrow>
          (case pw_before w jobID of
             None \<Rightarrow> (Some ErrNoSnapshot, w)
           | Some snap \<Rightarrow>
               (case find (\<lambda>x. on_id x = ontID) (pw_onts w) of
                  None \<Rightarrow> (Some ErrRollbackONT, w)
                | Some ont \<Rightarrow>
                    (case find (\<lambda>x. ol_id x = on_olt ont) (pw_olts w) of
                       None \<Rightarrow> (Some ErrRollbackOLT, w)
                     | Some olt \<Rightarrow>
                         (case RollbackToSnapshotForOLT (pe_unicode env) (pe_device env) (pe_dial env) olt ont (Some snap) (pw_dev w) of
                            (False, d) \<Rightarrow> (Some ErrRollback, w\<lparr>pw_dev := d\<rparr>)
                          | (True, d) \<Rightarrow>
                              (case set_status (pv_id job) ProvisioningStatusRolledBack
                                      (Some ''rollback completed after provisioning failure'') now (w\<lparr>pw_dev := d\<rparr>) of
                                 (Some e, w) \<Rightarrow> (Some (ErrRollbackStatus e), w)
                               | (None, w) \<Rightarrow> (None, w)))))))"

section \<open>What a configuration can put on the command line\<close>

text \<open>The characters of the commands: letters, digits, and \<open>space - . / : _\<close>.\<close>

definition cli_char :: "nat \<Rightarrow> bool" where
  "cli_char r \<longleftrightarrow> ascii_alnum r \<or> r \<in> {0x20, 0x2D, 0x2E, 0x2F, 0x3A, 0x5F}"

definition cli_text :: "str \<Rightarrow> bool" where
  "cli_text s \<longleftrightarrow> list_all cli_char s"

text \<open>What a float prints as: \<open>strconv.FormatFloat\<close> with format \<open>f\<close> writes digits, a sign and a point, or NaN or Inf.\<close>

definition floats_sane :: "'f floats \<Rightarrow> bool" where
  "floats_sane F \<longleftrightarrow> (\<forall>f. cli_text (fl_format F f))"

lemma cli_text_append [simp]: "cli_text (s @ t) \<longleftrightarrow> cli_text s \<and> cli_text t"
  by (simp add: cli_text_def)

lemma cli_text_Nil [simp]: "cli_text []"
  by (simp add: cli_text_def)

lemma cli_text_lit [simp]: "cli_text (lit s) \<longleftrightarrow> list_all (\<lambda>c. cli_char (of_char c)) s"
  by (simp add: cli_text_def lit_def list.pred_map comp_def)

lemma cli_text_dec [simp]: "list_all (\<lambda>c. cli_char (of_char c)) (dec n)"
proof -
  have "cli_char (of_char c)" if "is_digit c" for c
    using that by (simp add: cli_char_def ascii_alnum_def is_digit_iff)
  then show ?thesis by (auto simp: list_all_iff dest!: dec_digits)
qed

lemma cli_text_int [simp]: "cli_text (fmt_int i)"
proof -
  have "cli_char (of_char (CHR ''-''))" by (simp add: cli_char_def)
  then show ?thesis by (simp add: fmt_int_def)
qed

lemma cli_token: "safeConfigToken s \<Longrightarrow> cli_text s"
  by (auto simp: safeConfigToken_def cli_text_def cli_char_def list_all_iff)

lemma cli_digits: "all_digits s \<Longrightarrow> cli_text s"
  by (auto simp: all_digits_def cli_text_def cli_char_def ascii_alnum_def re_digit_def list_all_iff)

lemma cli_bandwidth: "floats_sane F \<Longrightarrow> validateManualToken F v \<Longrightarrow> cli_text (manualTokenString F v)"
  by (cases v) (auto simp: validateManualToken_def manualTokenString_def floats_sane_def cli_token)

lemma cli_vlan: "floats_sane F \<Longrightarrow> manualInteger F v = Some n \<Longrightarrow> cli_text (manualTokenString F v)"
  by (cases v) (auto simp: manualInteger_def manualTokenString_def floats_sane_def cli_digits split: if_splits)

lemma map_of_put_all: "map_of (put_all kvs m) = map_of m ++ map_of (rev kvs)"
proof (induction kvs arbitrary: m)
  case (Cons e kvs)
  obtain k v where e: "e = (k, v)" by fastforce
  have "put_all (e # kvs) m = put_all kvs (AList.update k v m)" by (simp add: put_all_def e)
  then show ?case by (simp add: Cons.IH update_conv' e map_add_upd_left dom_def fun_eq_iff map_add_def split: option.splits)
qed (simp add: put_all_def)

lemma lit_eq: "lit s = lit t \<longleftrightarrow> s = t"
  by (simp add: lit_def inj_map_eq_map inj_on_def)

lemma implicit_other:
  "map_of (rev (implicit_fields ont olt)) (lit ''bandwidth'') = None"
  "map_of (rev (implicit_fields ont olt)) (lit ''vlan'') = None"
  by (simp_all add: implicit_fields_def lit_eq)

text \<open>What the runtime configuration holds of the operator's fields has passed the check.\<close>

lemma built_config_checked:
  assumes "buildProvisionConfig F templates config ont olt = Some cfg"
  shows "map_of cfg (lit ''bandwidth'') = Some v \<Longrightarrow> validateManualToken F v"
    and "map_of cfg (lit ''vlan'') = Some v \<Longrightarrow> \<exists>n. manualInteger F v = Some n \<and> 1 \<le> n \<and> n \<le> 4094"
proof -
  obtain result where r: "validateManualConfig F result" "cfg = put_all (implicit_fields ont olt) result"
    using assms by (auto simp: buildProvisionConfig_def Let_def split: option.splits if_splits prod.splits)
  have same: "map_of cfg (lit ''bandwidth'') = map_of result (lit ''bandwidth'')" "map_of cfg (lit ''vlan'') = map_of result (lit ''vlan'')"
    by (simp_all add: r(2) map_of_put_all map_add_def implicit_other)
  have entry: "manual_entry F (k, v)" if "map_of result k = Some v" for k v
    using r(1) map_of_SomeD [OF that] by (simp add: validateManualConfig_def list_all_iff)
  show "map_of cfg (lit ''bandwidth'') = Some v \<Longrightarrow> validateManualToken F v"
    using same(1) entry [of "lit ''bandwidth''" v] by (simp add: manual_entry_def)
  show "map_of cfg (lit ''vlan'') = Some v \<Longrightarrow> \<exists>n. manualInteger F v = Some n \<and> 1 \<le> n \<and> n \<le> 4094"
    using same(2) entry [of "lit ''vlan''" v]
    by (auto simp: manual_entry_def lit_eq split: option.splits)
qed

lemma built_commands_cli:
  assumes "floats_sane F" "buildProvisionConfig F templates config ont olt = Some cfg"
  shows "\<forall>cmd \<in> set (provision_commands F olt ont cfg). cli_text cmd"
proof -
  have "cli_text (manualTokenString F v)" if "map_of cfg (lit ''bandwidth'') = Some v" for v
    by (rule cli_bandwidth [OF assms(1) built_config_checked(1) [OF assms(2) that]])
  moreover have "cli_text (manualTokenString F v)" if "map_of cfg (lit ''vlan'') = Some v" for v
    using built_config_checked(2) [OF assms(2) that] cli_vlan [OF assms(1)] by blast
  moreover have "cli_text (lit s)" if "s \<in> {''configure terminal'', ''interface gpon-onu '', '':'', ''ont traffic band-width '', '' '',
      ''ont service vlan add '', ''commit'', ''interface gpon-onu-port/'', ''/''}" for s
    using that by (auto simp: cli_char_def ascii_alnum_def)
  ultimately show ?thesis
    by (auto simp del: cli_text_lit simp: provision_commands_def buildZTECommands_def buildHSGQCommands_def split: option.splits)
qed

section \<open>How a run ends\<close>

lemma find_job_last: "i \<notin> pv_id ` set tbl \<Longrightarrow> pv_id j = i \<Longrightarrow> find_job i (tbl @ [j]) = Some j"
  by (induction tbl) (auto simp: find_job_def)

lemma update_where_last:
  "i \<notin> pv_id ` set tbl \<Longrightarrow> pv_id j = i \<Longrightarrow> update_where (\<lambda>j. pv_id j = i) f (tbl @ [j]) = tbl @ [f j]"
  by (induction tbl) auto

lemma set_status_last:
  assumes "i \<notin> pv_id ` set tbl" "pw_jobs w = tbl @ [j]" "pv_id j = i"
    and "isValidProvisioningTransition (pv_status j) new"
    and "new = ProvisioningStatusRunning \<Longrightarrow> ensureNoRunningJob (pv_ont j) (tbl @ [j])"
  shows "set_status i new err now w =
    (None, w\<lparr>pw_jobs := tbl @ [j\<lparr>pv_status := new,
       pv_completed_at := (if isProvisioningTerminal new then Some now else pv_completed_at j),
       pv_error := (case err of Some m \<Rightarrow> Some m | None \<Rightarrow> pv_error j)\<rparr>]\<rparr>)"
proof -
  have "\<not> (new = ProvisioningStatusRunning \<and>
      list_ex (\<lambda>k. pv_id k \<noteq> i \<and> pv_ont k = pv_ont j \<and> pv_status k = ProvisioningStatusRunning) (tbl @ [j]))"
    using assms(5) by (auto simp: ensureNoRunningJob_def filter_empty_conv list_ex_iff)
  moreover have "isValidProvisioningStatus new"
    using assms(4) by (auto simp: isValidProvisioningStatus_def provisioning_transition_iff)
  ultimately show ?thesis
    using assms by (simp add: set_status_def UpdateStatusProvisioning_def update_check_def GetProvisioningJob_def
        update_write_def find_job_last update_where_last split: option.splits)
qed

definition run_job :: "uuid \<Rightarrow> uuid \<Rightarrow> uuid \<Rightarrow> string \<Rightarrow> string option \<Rightarrow> time option \<Rightarrow> prov_job" where
  "run_job newid ontID userID status err done =
     \<lparr>pv_id = newid, pv_ont = ontID, pv_status = status, pv_error = err, pv_completed_at = done, pv_created_by = userID\<rparr>"

lemma startJob_free:
  assumes "newid \<notin> pv_id ` set (pw_jobs w)" "ensureNoRunningJob ontID (pw_jobs w)"
  shows "startJob newid ontID userID config before now w =
     (Inr (run_job newid ontID userID ProvisioningStatusPending None None),
      w\<lparr>pw_before := (pw_before w)(newid \<mapsto> before), pw_config := (pw_config w)(newid \<mapsto> redactManualConfig config),
        pw_jobs := pw_jobs w @ [run_job newid ontID userID ProvisioningStatusRunning None None]\<rparr>)"
proof -
  let ?j = "run_job newid ontID userID ProvisioningStatusPending None None"
  let ?w = "w\<lparr>pw_jobs := pw_jobs w @ [?j], pw_before := (pw_before w)(newid \<mapsto> before),
              pw_config := (pw_config w)(newid \<mapsto> redactManualConfig config)\<rparr>"
  have c: "CreateProvisioningJob newid ontID userID (pw_jobs w) (pw_jobs w) = Inr (?j, pw_jobs w @ [?j])"
    using assms by (simp add: CreateProvisioningJob_def insert_job_def run_job_def Let_def)
  have "ensureNoRunningJob (pv_ont ?j) (pw_jobs w @ [?j])" using assms(2) by (simp add: ensureNoRunningJob_def run_job_def)
  then have "set_status newid ProvisioningStatusRunning None now ?w =
      (None, ?w\<lparr>pw_jobs := pw_jobs w @ [?j\<lparr>pv_status := ProvisioningStatusRunning, pv_completed_at := None, pv_error := None\<rparr>]\<rparr>)"
    using set_status_last [OF assms(1), of ?w ?j ProvisioningStatusRunning None now]
    by (simp add: provisioning_transition_iff isProvisioningTerminal_def run_job_def)
  then show ?thesis by (simp add: startJob_def c Let_def run_job_def)
qed

lemma startJob_cases:
  assumes "newid \<notin> pv_id ` set (pw_jobs w)" "startJob newid ontID userID config before now w = (res, w')"
  shows "(res = Inl (ErrCreateJob ErrAnotherJobRunning) \<and> w' = w) \<or>
     (res = Inr (run_job newid ontID userID ProvisioningStatusPending None None) \<and>
      w' = w\<lparr>pw_before := (pw_before w)(newid \<mapsto> before), pw_config := (pw_config w)(newid \<mapsto> redactManualConfig config),
             pw_jobs := pw_jobs w @ [run_job newid ontID userID ProvisioningStatusRunning None None]\<rparr>)"
proof (cases "ensureNoRunningJob ontID (pw_jobs w)")
  case False
  then show ?thesis using assms(2) by (simp add: startJob_def CreateProvisioningJob_def)
next
  case True
  then show ?thesis using assms by (simp add: startJob_free)
qed

lemma abandonJob_jobs:
  assumes "newid \<notin> pv_id ` set tbl" "pw_jobs w = tbl @ [run_job newid ontID userID ProvisioningStatusRunning None None]"
    and "pv_id job = newid"
  shows "pw_jobs (abandonJob env job ont olt before reason now w) =
           tbl @ [run_job newid ontID userID ProvisioningStatusFailed (Some reason) (Some now)]
    \<and> pw_onts (abandonJob env job ont olt before reason now w) = pw_onts w
    \<and> pw_olts (abandonJob env job ont olt before reason now w) = pw_olts w
    \<and> pw_before (abandonJob env job ont olt before reason now w) = pw_before w
    \<and> pw_config (abandonJob env job ont olt before reason now w) = pw_config w"
proof -
  have "set_status newid ProvisioningStatusFailed (Some reason) now w =
      (None, w\<lparr>pw_jobs := tbl @ [run_job newid ontID userID ProvisioningStatusFailed (Some reason) (Some now)]\<rparr>)"
    using set_status_last [OF assms(1,2), of ProvisioningStatusFailed "Some reason" now]
    by (simp add: provisioning_transition_iff isProvisioningTerminal_def run_job_def)
  then show ?thesis using assms(3) by (simp add: abandonJob_def rollbackOnt_def split: prod.splits)
qed

lemma completeJob_done:
  assumes "newid \<notin> pv_id ` set tbl" "pw_jobs w = tbl @ [run_job newid ontID userID ProvisioningStatusRunning None None]"
    and "pv_id job = newid"
  shows "completeJob job now w =
     (Inr (run_job newid ontID userID ProvisioningStatusSuccess None (Some now)),
      w\<lparr>pw_jobs := tbl @ [run_job newid ontID userID ProvisioningStatusSuccess None (Some now)]\<rparr>)"
proof -
  have "set_status newid ProvisioningStatusSuccess None now w =
      (None, w\<lparr>pw_jobs := tbl @ [run_job newid ontID userID ProvisioningStatusSuccess None (Some now)]\<rparr>)"
    using set_status_last [OF assms(1,2), of ProvisioningStatusSuccess None now]
    by (simp add: provisioning_transition_iff isProvisioningTerminal_def run_job_def)
  then show ?thesis
    using assms(1,3) find_job_last [OF assms(1)] by (simp add: completeJob_def GetProvisioningJob_def run_job_def)
qed

text \<open>The ends of a run, as a relation between what it is asked and what it leaves.\<close>

lemma ProvisionOnt_cases:
  assumes fresh: "newid \<notin> pv_id ` set (pw_jobs w)" and run: "ProvisionOnt env newid ontID userID config now w = (res, w')"
  obtains (refused) e where "res = Inl e" "w' = w"
      "e \<in> {ErrLoadONT, ErrLoadOLT, ErrConfig, ErrManualConfig, ErrBeforeSnapshot, ErrCreateJob ErrAnotherJobRunning}"
  | (ran) ont olt cfg before ok d w1 where
      "find (\<lambda>x. on_id x = ontID) (pw_onts w) = Some ont" "find (\<lambda>x. ol_id x = on_olt ont) (pw_olts w) = Some olt"
      "buildProvisionConfig (pe_floats env) (pe_templates env) config ont olt = Some cfg"
      "CaptureBeforeSnapshot (pe_resolver env) (pw_olts w) ont (pw_dev w) = Some before"
      "executeProvision (pe_unicode env) (pe_device env) (session_opens (pe_dial env) olt) (pe_floats env) olt ont cfg (pw_dev w) = (ok, d)"
      "w1 = w\<lparr>pw_before := (pw_before w)(newid \<mapsto> before), pw_config := (pw_config w)(newid \<mapsto> redactManualConfig cfg),
             pw_jobs := pw_jobs w @ [run_job newid ontID userID ProvisioningStatusRunning None None], pw_dev := d\<rparr>"
      "ok \<and> (\<exists>after. CaptureBeforeSnapshot (pe_resolver env) (pw_olts w) ont d = Some after \<and> Compare (Some before) (Some after) = []) \<and>
         res = Inr (run_job newid ontID userID ProvisioningStatusSuccess None (Some now)) \<and>
         w' = w1\<lparr>pw_jobs := pw_jobs w @ [run_job newid ontID userID ProvisioningStatusSuccess None (Some now)]\<rparr>
       \<or> (\<exists>e reason. (e, reason) \<in> {(ErrExecution, ''execution failed''), (ErrAfterSnapshot, ''after snapshot failed'')} \<union>
              range (\<lambda>ds. (ErrDrift ds, ''config drift detected'')) \<and> (e = ErrExecution \<longleftrightarrow> \<not> ok) \<and> res = Inl e \<and>
            w' = abandonJob env (run_job newid ontID userID ProvisioningStatusPending None None) ont olt (Some before) reason now w1)"
proof -
  show thesis
  proof (cases "\<exists>e. res = Inl e \<and> w' = w \<and>
      e \<in> {ErrLoadONT, ErrLoadOLT, ErrConfig, ErrManualConfig, ErrBeforeSnapshot, ErrCreateJob ErrAnotherJobRunning}")
    case True
    then show thesis using refused by blast
  next
    case False
    obtain ont olt cfg before where a: "find (\<lambda>x. on_id x = ontID) (pw_onts w) = Some ont"
      "find (\<lambda>x. ol_id x = on_olt ont) (pw_olts w) = Some olt"
      "buildProvisionConfig (pe_floats env) (pe_templates env) config ont olt = Some cfg"
      "CaptureBeforeSnapshot (pe_resolver env) (pw_olts w) ont (pw_dev w) = Some before"
      and v: "validateManualConfig (pe_floats env) (pc_ManualConfig config)"
      using run False by (auto simp: ProvisionOnt_def split: option.splits if_splits)
    obtain r w0 where s: "startJob newid ontID userID cfg before now w = (r, w0)" by fastforce
    have r: "r = Inr (run_job newid ontID userID ProvisioningStatusPending None None)"
      and w0: "w0 = w\<lparr>pw_before := (pw_before w)(newid \<mapsto> before), pw_config := (pw_config w)(newid \<mapsto> redactManualConfig cfg),
             pw_jobs := pw_jobs w @ [run_job newid ontID userID ProvisioningStatusRunning None None]\<rparr>"
      using startJob_cases [OF fresh s] run False by (auto simp: ProvisionOnt_def a v s)
    obtain ok d where x: "executeProvision (pe_unicode env) (pe_device env) (session_opens (pe_dial env) olt) (pe_floats env)
        olt ont cfg (pw_dev w) = (ok, d)" by fastforce
    have x0: "executeProvision (pe_unicode env) (pe_device env) (session_opens (pe_dial env) olt) (pe_floats env)
        olt ont cfg (pw_dev w0) = (ok, d)" using x by (simp add: w0)
    show thesis
    proof (rule ran [OF a x refl], goal_cases)
      case 1
      let ?job = "run_job newid ontID userID ProvisioningStatusPending None None"
      let ?w = "w0\<lparr>pw_dev := d\<rparr>"
      have jobs: "pw_jobs ?w = pw_jobs w @ [run_job newid ontID userID ProvisioningStatusRunning None None]" by (simp add: w0)
      have id: "pv_id ?job = newid" by (simp add: run_job_def)
      have w1: "w\<lparr>pw_before := (pw_before w)(newid \<mapsto> before), pw_config := (pw_config w)(newid \<mapsto> redactManualConfig cfg),
          pw_jobs := pw_jobs w @ [run_job newid ontID userID ProvisioningStatusRunning None None], pw_dev := d\<rparr> = ?w"
        by (simp add: w0)
      have olts: "pw_olts ?w = pw_olts w" "pw_dev ?w = d" by (simp_all add: w0)
      have outcome: "(res, w') = (if \<not> ok then (Inl ErrExecution, abandonJob env ?job ont olt (Some before) ''execution failed'' now ?w)
          else (case verifyAgainstSnapshot env ?job ont olt (Some before) now ?w of
                  (Some e, w) \<Rightarrow> (Inl e, w) | (None, w) \<Rightarrow> completeJob ?job now w))"
        using run by (simp add: ProvisionOnt_def a v s r x0 split: bool.splits)
      show ?case
        unfolding w1 using outcome completeJob_done [OF fresh jobs id, of now]
        by (auto simp: verifyAgainstSnapshot_def Let_def olts split: if_splits option.splits)
    qed
  qed
qed


definition int_floats :: "int floats" where
  "int_floats = \<lparr>fl_format = fmt_int, fl_whole = (\<lambda>_. True), fl_int = (\<lambda>i. i), fl_parses = (\<lambda>_. False)\<rparr>"

definition sample_olt :: "string \<Rightarrow> olt_row" where
  "sample_olt m = \<lparr>ol_id = 2, ol_model = m, ol_host = ''olt'', ol_protocol = '''', ol_telnet_port = 23, ol_ssh_port = 22\<rparr>"

definition known_ont :: ont_row where
  "known_ont = \<lparr>on_id = 6, on_olt = 2, on_slot = Some 3, on_port = 4, on_onu = 7, on_serial = lit ''ZTEGC1234567''\<rparr>"

lemma int_floats_sane: "floats_sane int_floats"
  by (simp add: floats_sane_def int_floats_def)



section \<open>What a run sends\<close>

lemma execute_sends:
  assumes "executeProvision u (recorder dev) connects F olt ont cfg (d0, log) = (ok, d)"
  shows "\<exists>es. snd d = log @ es \<and> map fst es = take (length es) (provision_commands F olt ont cfg) \<and>
     (ok \<longrightarrow> length es = length (provision_commands F olt ont cfg) \<and> list_all (\<lambda>e. accepted u (snd e)) es)"
proof (cases connects)
  case True
  obtain s rs where b: "BatchExecute u (recorder dev) (d0, log) (provision_commands F olt ont cfg) = (s, rs)" by fastforce
  have r: "ok = list_all cr_Success rs" "d = s" using assms True b by (auto simp: executeProvision_def)
  from batch_recorder [OF b] obtain es where es: "snd s = log @ es" "map fst es = take (length rs) (provision_commands F olt ont cfg)"
    "length rs \<le> length (provision_commands F olt ont cfg)" "map cr_Success rs = map (accepted u \<circ> snd) es"
    "length rs < length (provision_commands F olt ont cfg) \<longrightarrow> rs \<noteq> [] \<and> \<not> cr_Success (last rs)" by auto
  have len: "length es = length rs" using arg_cong [OF es(4), of length] by simp
  have "length rs = length (provision_commands F olt ont cfg)" if ok using that es(3,5) r(1) last_in_set [of rs]
    by (auto simp: list_all_iff order.order_iff_strict)
  moreover have "list_all (\<lambda>e. accepted u (snd e)) es" if ok
  proof -
    have "list_all id (map cr_Success rs)" using that r(1) by (simp add: list.pred_map comp_def)
    then show ?thesis unfolding es(4) by (simp add: list.pred_map comp_def)
  qed
  ultimately show ?thesis using es(1,2) len r(2) by auto
next
  case False
  then show ?thesis using assms by (intro exI [of _ "[]"]) (auto simp: executeProvision_def)
qed

lemma abandon_sends:
  assumes "pe_device env = recorder dev" "pw_dev w = (d0, log)" "rollback_commands ont before = Some cmds"
  shows "\<exists>rs. snd (pw_dev (abandonJob env job ont olt (Some before) reason now w)) = log @ rs \<and> map fst rs = take (length rs) cmds \<and>
     (rs = [] \<longleftrightarrow> \<not> (pe_rollback env \<and> session_opens (pe_dial env) olt) \<or> cmds = [])"
proof (cases "pe_rollback env \<and> session_opens (pe_dial env) olt")
  case True
  obtain s rs where b: "BatchExecute (pe_unicode env) (recorder dev) (d0, log) cmds = (s, rs)" by fastforce
  from batch_recorder [OF b] obtain es where es: "snd s = log @ es" "map fst es = take (length rs) cmds"
    "map cr_Success rs = map (accepted (pe_unicode env) \<circ> snd) es"
    "length rs < length cmds \<longrightarrow> rs \<noteq> []" by auto
  have len: "length es = length rs" using arg_cong [OF es(3), of length] by simp
  have dev: "pw_dev (snd (set_status i status err now w)) = pw_dev w" for i status err
    by (simp add: set_status_def split: sum.splits)
  have "pw_dev (abandonJob env job ont olt (Some before) reason now w) = s"
    using True assms b by (simp add: abandonJob_def rollbackOnt_def dev RollbackToSnapshotForOLT_def RollbackToSnapshot_def
        executeRollback_def split: prod.splits)
  then show ?thesis using es len True by (intro exI [of _ es]) auto
next
  case False
  have "pw_dev (abandonJob env job ont olt (Some before) reason now w) = pw_dev w"
    using False by (auto simp: abandonJob_def rollbackOnt_def RollbackToSnapshotForOLT_def set_status_def split: sum.splits)
  then show ?thesis using False assms(2) by auto
qed

lemma captured_restores:
  assumes "CaptureBeforeSnapshot resolver olts ont d = Some snap" "find (\<lambda>x. ol_id x = on_olt ont) olts = Some olt"
  shows "rollback_commands ont snap =
     (if zte_model (ol_model olt) then Some (buildZTERollbackCommands ont (zte_snapshot.truncate (the (sn_ZTE snap))))
      else Some (buildHSGQRollbackCommands ont))"
  using assms by (cases "zte_model (ol_model olt)") (auto simp: CaptureBeforeSnapshot_def Let_def applyVendorSnapshot_def
      rollback_commands_def split: option.splits metrics_answer.splits)


section \<open>An HSGQ run that fails deletes the ONT\<close>

definition sample_driver :: "(nat \<times> (str \<times> reply) list) driver" where
  "sample_driver =
     \<lparr>dr_Inventory = (\<lambda>d locs. if snd d = []
        then Some (\<lambda>_. Some \<lparr>iv_SerialNumber = lit ''X'', iv_Name = [], iv_DeviceType = [], iv_HardwareVersion = [], iv_IPAddress = []\<rparr>)
        else None),
      dr_Metrics = (\<lambda>_ _. MetricsUnsupported)\<rparr>"

text \<open>An OLT that accepts every line, and whose inventory cannot be read again once commands were sent.\<close>

definition sample_env :: "(nat \<times> (str \<times> reply) list, int) prov_env" where
  "sample_env =
     \<lparr>pe_unicode = ascii_unicode, pe_floats = int_floats, pe_templates = None, pe_resolver = (\<lambda>_. Some sample_driver),
      pe_dial = (\<lambda>_. True), pe_rollback = True, pe_device = recorder (\<lambda>d cmd. (d, Reply []))\<rparr>"

definition sample_world :: "string \<Rightarrow> (nat \<times> (str \<times> reply) list, int) prov_world" where
  "sample_world m =
     \<lparr>pw_onts = [known_ont], pw_olts = [sample_olt m], pw_jobs = [], pw_before = Map.empty, pw_config = Map.empty, pw_dev = (0, [])\<rparr>"

definition sample_run where
  "sample_run m = ProvisionOnt sample_env 9 6 5 \<lparr>pc_TemplateID = None, pc_ManualConfig = []\<rparr> 0 (sample_world m)"

lemma silent_accepted: "commandOutputError u [] = []"
  by (simp add: commandOutputError_def trim_space_def)

lemma silent_execute:
  "ExecuteCommand u (recorder (\<lambda>d cmd. (d, Reply []))) (d, log) cmd = ((d, log @ [(cmd, Reply [])]), \<lparr>cr_Success = True, cr_Error = []\<rparr>)"
  by (simp add: ExecuteCommand_def recorder_def silent_accepted)

lemma silent_batch:
  "BatchExecute u (recorder (\<lambda>d cmd. (d, Reply []))) (d, log) cmds =
     ((d, log @ map (\<lambda>c. (c, Reply [])) cmds), replicate (length cmds) \<lparr>cr_Success = True, cr_Error = []\<rparr>)"
  by (induction cmds arbitrary: log) (simp_all add: silent_execute)

lemmas sample_defs = sample_env_def sample_world_def sample_olt_def known_ont_def sample_driver_def

text \<open>The run fails on the read-back, and its rollback, meant to restore an ONT that was there before, removes it.\<close>

lemma hsgq_failed_run_deletes_the_ont:
  "fst (sample_run OLTModelHSGQ) = Inl ErrAfterSnapshot \<and>
   (lit ''ont delete '' @ fmt_int 7, Reply []) \<in> set (snd (pw_dev (snd (sample_run OLTModelHSGQ))))"
proof -
  have cfg: "buildProvisionConfig int_floats None \<lparr>pc_TemplateID = None, pc_ManualConfig = []\<rparr> known_ont (sample_olt OLTModelHSGQ) =
      Some (put_all (implicit_fields known_ont (sample_olt OLTModelHSGQ)) [])"
    by (simp add: buildProvisionConfig_def validateManualConfig_def put_all_def)
  have "\<not> zte_model OLTModelHSGQ" by (simp add: zte_model_def OLTModelHSGQ_def OLTModelZTEC300_def OLTModelZTEC320_def)
  moreover have "session_opens (\<lambda>_. True) (sample_olt OLTModelHSGQ)"
    by (simp add: session_opens_def createCommanderForOLT_def ForOLTWithProtocol_def sample_olt_def OLTProtocolTelnet_def OLTProtocolSSH_def)
  ultimately have env: "\<not> zte_model (ol_model (sample_olt OLTModelHSGQ))" "session_opens (pe_dial sample_env) (sample_olt OLTModelHSGQ)"
    "pe_floats sample_env = int_floats" "pe_templates sample_env = None" "pe_rollback sample_env"
    "pe_device sample_env = recorder (\<lambda>d cmd. (d, Reply []))" "pe_resolver sample_env = (\<lambda>_. Some sample_driver)"
    by (simp_all add: sample_env_def sample_olt_def)
  have world: "find (\<lambda>x. on_id x = 6) (pw_onts (sample_world m)) = Some known_ont"
    "pw_olts (sample_world m) = [sample_olt m]" "ol_id (sample_olt m) = 2" "on_olt known_ont = 2" "on_onu known_ont = 7"
    "pw_jobs (sample_world m) = []" "pw_dev (sample_world m) = (0, [])" for m
    by (simp_all add: sample_world_def known_ont_def sample_olt_def)
  obtain snap where cap: "CaptureBeforeSnapshot (\<lambda>_. Some sample_driver) [sample_olt OLTModelHSGQ] known_ont (0, []) = Some snap"
    by (simp add: CaptureBeforeSnapshot_def sample_driver_def world)
  have uncap: "CaptureBeforeSnapshot (\<lambda>_. Some sample_driver) [sample_olt OLTModelHSGQ] known_ont (d, e # es) = None" for d e es
    by (simp add: CaptureBeforeSnapshot_def sample_driver_def world)
  have rb: "rollback_commands known_ont snap = Some (buildHSGQRollbackCommands known_ont)"
    using captured_restores [OF cap] env(1) by (simp add: world)
  have v: "validateManualConfig int_floats []" by (simp add: validateManualConfig_def)
  have "ensureNoRunningJob 6 []" by (simp add: ensureNoRunningJob_def)
  then show ?thesis using env
    by (simp del: BatchExecute.simps add: sample_run_def ProvisionOnt_def world cfg cap uncap v startJob_free executeProvision_def provision_commands_def
        buildHSGQCommands_def silent_batch verifyAgainstSnapshot_def abandonJob_def rollbackOnt_def set_status_def
        RollbackToSnapshotForOLT_def RollbackToSnapshot_def rb executeRollback_def buildHSGQRollbackCommands_def
        split: sum.splits)
qed

lemma sample_world_simps:
  "pw_jobs (sample_world m) = []" "pw_dev (sample_world m) = (0, [])" "pe_rollback sample_env"
  "pe_device sample_env = recorder (\<lambda>d cmd. (d, Reply []))" "pe_dial sample_env = (\<lambda>_. True)"
  by (simp_all add: sample_world_def sample_env_def)



text \<open>The verification after a run compares with the snapshot taken before it: two readings pass exactly when they
  are of the same kind, agree in every field a driver always fills, and in bandwidth, VLAN and VLAN id wherever both name one.\<close>

theorem compare_exact:
  "Compare (Some b) (Some a) = [] \<longleftrightarrow>
     rel_option (\<lambda>x y. zs_SerialNumber x = zs_SerialNumber y \<and> zs_Name x = zs_Name y \<and> zs_DeviceType x = zs_DeviceType y \<and>
         zs_HardwareVersion x = zs_HardwareVersion y \<and> zs_ServiceMode x = zs_ServiceMode y \<and> zs_IPAddr x = zs_IPAddr y \<and>
         \<not> needPtrCompare (zs_Bandwidth x) (zs_Bandwidth y) \<and> \<not> needPtrCompare (zs_VLAN x) (zs_VLAN y)) (sn_ZTE b) (sn_ZTE a) \<and>
     rel_option (\<lambda>x y. hs_SerialNumber x = hs_SerialNumber y \<and> hs_PortConfig x = hs_PortConfig y \<and>
         \<not> needPtrCompare (hs_VLANID x) (hs_VLANID y) \<and> hs_ProfileID x = hs_ProfileID y) (sn_HSGQ b) (sn_HSGQ a)"
proof -
  have [simp]: "changed s p = [] \<longleftrightarrow> \<not> p" for s p by (simp add: changed_def)
  show ?thesis
    by (cases "sn_ZTE b"; cases "sn_ZTE a"; cases "sn_HSGQ b"; cases "sn_HSGQ a") (simp_all add: Compare_def compareZTE_def compareHSGQ_def)
qed

end
