(* ===== verification/Telnet.thy ===== *)
theory Telnet
  imports GoStrings
begin

text \<open>
  The Telnet session a command batch runs on: option negotiation
  (\<open>connectivity/telnet_negotiation.go\<close>), recognising the prompt (\<open>connectivity/telnet_prompt.go\<close>), and the
  reading loops, the login and the commands (\<open>connectivity/command_executor.go\<close>).

  What \<open>ReadByte\<close> answers until a wait's deadline passes is an argument, a list of \<open>read\<close>: the wait ends when the list
  does. What the client writes is returned in order. \<open>strings.ToLower\<close> is the parameter \<open>lower\<close>.
\<close>

section \<open>Negotiation\<close>

definition telnetIAC :: char where "telnetIAC = CHR 0xFF"
definition telnetSE :: char where "telnetSE = CHR 0xF0"
definition telnetSB :: char where "telnetSB = CHR 0xFA"
definition telnetWILL :: char where "telnetWILL = CHR 0xFB"
definition telnetWONT :: char where "telnetWONT = CHR 0xFC"
definition telnetDO :: char where "telnetDO = CHR 0xFD"
definition telnetDONT :: char where "telnetDONT = CHR 0xFE"
definition telnetOptionEcho :: char where "telnetOptionEcho = CHR 0x01"
definition telnetOptionSuppressGoAhead :: char where "telnetOptionSuppressGoAhead = CHR 0x03"

lemmas telnet_bytes = telnetIAC_def telnetSE_def telnetSB_def telnetWILL_def telnetWONT_def telnetDO_def telnetDONT_def
  telnetOptionEcho_def telnetOptionSuppressGoAhead_def

datatype read = Byte char | Timeout | EOF | Broken

definition telnetReply :: "char \<Rightarrow> char \<Rightarrow> string" where
  "telnetReply command option =
     (if command = telnetWILL then
        (if option = telnetOptionEcho \<or> option = telnetOptionSuppressGoAhead
         then [telnetIAC, telnetDO, option] else [telnetIAC, telnetDONT, option])
      else if command = telnetDO then
        (if option = telnetOptionSuppressGoAhead then [telnetIAC, telnetWILL, option] else [telnetIAC, telnetWONT, option])
      else if command = telnetWONT then [telnetIAC, telnetDONT, option]
      else [telnetIAC, telnetWONT, option])"

text \<open>A read that fails is the error; at the deadline the last read times out.\<close>

fun skipTelnetSubnegotiation :: "read list \<Rightarrow> read option \<times> read list" where
  "skipTelnetSubnegotiation [] = (Some Timeout, [])"
| "skipTelnetSubnegotiation (Byte b # rs) =
     (if b \<noteq> telnetIAC then skipTelnetSubnegotiation rs
      else (case rs of
              [] \<Rightarrow> (Some Timeout, [])
            | Byte c # rs' \<Rightarrow> if c = telnetSE then (None, rs') else skipTelnetSubnegotiation rs'
            | e # rs' \<Rightarrow> (Some e, rs')))"
| "skipTelnetSubnegotiation (e # rs) = (Some e, rs)"

text \<open>A data byte to keep (or none), what was written, and the error, if any.\<close>

definition negotiateTelnetOption :: "read list \<Rightarrow> (char option \<times> string \<times> read option) \<times> read list" where
  "negotiateTelnetOption rs =
     (case rs of
        [] \<Rightarrow> ((None, [], Some Timeout), [])
      | Byte command # rs \<Rightarrow>
          if command = telnetIAC then ((Some telnetIAC, [], None), rs)
          else if command = telnetSB then (case skipTelnetSubnegotiation rs of (e, rs) \<Rightarrow> ((None, [], e), rs))
          else if command \<in> {telnetWILL, telnetWONT, telnetDO, telnetDONT} then
            (case rs of
               [] \<Rightarrow> ((None, [], Some Timeout), [])
             | Byte option # rs \<Rightarrow> ((None, telnetReply command option, None), rs)
             | e # rs \<Rightarrow> ((None, [], Some e), rs))
          else ((None, [], None), rs)
      | e # rs \<Rightarrow> ((None, [], Some e), rs))"

lemma skip_shorter: "length (snd (skipTelnetSubnegotiation rs)) \<le> length rs"
proof (induction rs rule: skipTelnetSubnegotiation.induct)
  case (2 b rs)
  show ?case
  proof (cases rs)
    case (Cons r rs')
    then show ?thesis using 2 by (cases r) (auto simp: le_SucI)
  qed (use 2 in auto)
qed auto

lemma negotiate_shorter: "length (snd (negotiateTelnetOption rs)) \<le> length rs"
proof (cases rs)
  case (Cons r rs')
  show ?thesis
  proof (cases r)
    case (Byte c)
    have "length (snd (skipTelnetSubnegotiation rs')) \<le> Suc (length rs')" using skip_shorter [of rs'] by simp
    then show ?thesis using Cons Byte
      by (cases rs'; cases "hd rs'") (auto simp: negotiateTelnetOption_def split: prod.splits)
  qed (simp_all add: negotiateTelnetOption_def Cons)
qed (simp add: negotiateTelnetOption_def)

section \<open>Reading until enough has arrived\<close>

text \<open>The buffer, the error, what was written, and what is left to read.\<close>

function readUntil :: "(string \<Rightarrow> bool) \<Rightarrow> string \<Rightarrow> string \<Rightarrow> read list \<Rightarrow> (string \<times> read option) \<times> string \<times> read list" where
  "readUntil fin buffer sent [] = ((buffer, None), sent, [])"
| "readUntil fin buffer sent (Timeout # rs) = readUntil fin buffer sent rs"
| "readUntil fin buffer sent (EOF # rs) = ((buffer, None), sent, rs)"
| "readUntil fin buffer sent (Broken # rs) = ((buffer, Some Broken), sent, rs)"
| "readUntil fin buffer sent (Byte b # rs) =
     (if b = telnetIAC then
        (case negotiateTelnetOption rs of
           ((keep, reply, err), rs') \<Rightarrow>
             (case err of
                Some Timeout \<Rightarrow> readUntil fin buffer (sent @ reply) rs'
              | Some e \<Rightarrow> ((buffer, Some e), sent @ reply, rs')
              | None \<Rightarrow>
                  (case keep of
                     None \<Rightarrow> readUntil fin buffer (sent @ reply) rs'
                   | Some c \<Rightarrow>
                       if fin (buffer @ [c]) then ((buffer @ [c], None), sent @ reply, rs')
                       else readUntil fin (buffer @ [c]) (sent @ reply) rs')))
      else if fin (buffer @ [b]) then ((buffer @ [b], None), sent, rs)
      else readUntil fin (buffer @ [b]) sent rs)"
  by pat_completeness auto
termination
  by (relation "measure (\<lambda>(_, _, _, rs). length rs)") (auto simp: less_Suc_eq_le, (metis negotiate_shorter snd_conv)+)

definition contains_any :: "(string \<Rightarrow> string) \<Rightarrow> string \<Rightarrow> string list \<Rightarrow> bool" where
  "contains_any lower s substrings = list_ex (\<lambda>p. sublist (lower p) (lower s)) substrings"

definition readUntilPatterns ::
  "(string \<Rightarrow> string) \<Rightarrow> string list \<Rightarrow> read list \<Rightarrow> (string \<times> read option) \<times> string \<times> read list" where
  "readUntilPatterns lower patterns rs = readUntil (\<lambda>buffer. contains_any lower buffer patterns) [] [] rs"

section \<open>The prompt\<close>

definition promptTerminators :: string where "promptTerminators = ''#>''"

definition blank :: "char \<Rightarrow> bool" where
  "blank c \<longleftrightarrow> c = CHR '' '' \<or> c = CHR 0x09"

text \<open>\<open>strings.TrimRight\<close> by a test of bytes, and the parts of a line the code takes.\<close>

definition trim_right :: "(char \<Rightarrow> bool) \<Rightarrow> string \<Rightarrow> string" where
  "trim_right p s = rev (dropWhile p (rev s))"

definition lastLine :: "string \<Rightarrow> string" where
  "lastLine s = rev (takeWhile (\<lambda>c. c \<noteq> CHR 0x0A) (rev s))"

definition lastNonEmptyLine :: "string \<Rightarrow> string" where
  "lastNonEmptyLine s =
     (case find (\<lambda>l. l \<noteq> []) (rev (map TrimSpace (Split (filter (\<lambda>c. c \<noteq> CHR 0x0D) s) (CHR 0x0A)))) of
        None \<Rightarrow> [] | Some l \<Rightarrow> l)"

definition deviceHostname :: "string \<Rightarrow> string" where
  "deviceHostname loginResponse =
     (let line = lastNonEmptyLine loginResponse
      in if line = [] then []
         else (let name = takeWhile (\<lambda>c. c \<noteq> CHR ''('') (trim_right (\<lambda>c. blank c \<or> c \<in> set promptTerminators) line);
                   name = TrimSpace name
               in if list_ex blank name then [] else name))"

definition endsWithDevicePrompt :: "string \<Rightarrow> string \<Rightarrow> bool" where
  "endsWithDevicePrompt output hostname =
     (let line = trim_right blank (lastLine output)
      in if line = [] \<or> last line \<notin> set promptTerminators then False
         else if hostname \<noteq> [] then HasPrefix line hostname
         else \<not> list_ex blank line)"

section \<open>The session\<close>

definition crlf :: string where "crlf = [CHR 0x0D, CHR 0x0A]"

datatype login_error = ErrBanner | ErrNoUsernamePrompt | ErrPasswordPrompt | ErrVerifyLogin | ErrAuthentication

definition username_prompts :: "string list" where
  "username_prompts = [''username:'', ''login:'', ''user:'']"

text \<open>The login: what the OLT answers in each of the three waits; what was written, in order, and the hostname learned.
  Writes of the client that fail are left out.\<close>

definition telnet_connect ::
  "(string \<Rightarrow> string) \<Rightarrow> string \<Rightarrow> string \<Rightarrow> read list \<Rightarrow> read list \<Rightarrow> read list \<Rightarrow> (login_error + string) \<times> string list" where
  "telnet_connect lower username password r1 r2 r3 =
     (case readUntilPatterns lower username_prompts r1 of
        ((banner, err), sent1, _) \<Rightarrow>
          if err \<noteq> None then (Inl ErrBanner, [sent1])
          else if \<not> contains_any lower banner username_prompts then (Inl ErrNoUsernamePrompt, [sent1])
          else (case readUntilPatterns lower [''password:''] r2 of
                  ((pwPrompt, err), sent2, _) \<Rightarrow>
                    if err \<noteq> None \<or> \<not> sublist ''password'' (lower pwPrompt)
                    then (Inl ErrPasswordPrompt, [sent1, username @ crlf, sent2])
                    else (case readUntilPatterns lower [''>'', ''#'', ''$''] r3 of
                            ((response, err), sent3, _) \<Rightarrow>
                              (if err \<noteq> None then Inl ErrVerifyLogin
                               else if list_ex (\<lambda>i. sublist i (lower response)) [''error'', ''incorrect'', ''denied'', ''invalid'']
                               then Inl ErrAuthentication
                               else Inr (deviceHostname response),
                               [sent1, username @ crlf, sent2, password @ crlf, sent3]))))"

definition waitForPrompt :: "string \<Rightarrow> read list \<Rightarrow> (read option + string) \<times> string \<times> read list" where
  "waitForPrompt hostname rs =
     (case readUntil (\<lambda>buffer. endsWithDevicePrompt buffer hostname) [] [] rs of
        ((output, err), sent, rs') \<Rightarrow>
          (case err of
             Some e \<Rightarrow> (Inl (Some e), sent, rs')
           | None \<Rightarrow> if \<not> endsWithDevicePrompt output hostname then (Inl None, sent, rs') else (Inr output, sent, rs')))"

text \<open>What is already waiting to be read is thrown away before a command goes out.\<close>

fun discardPending :: "read list \<Rightarrow> read list" where
  "discardPending (Byte b # rs) = discardPending rs"
| "discardPending (e # rs) = rs"
| "discardPending [] = []"

section \<open>The HSGQ prompt\<close>

definition hsgq_prompt :: "string \<Rightarrow> bool" where
  "hsgq_prompt str \<longleftrightarrow> suffix ''> '' (TrimSpace str) \<or> suffix ''# '' (TrimSpace str)"

fun hsgq_waitForPrompt :: "string \<Rightarrow> read list \<Rightarrow> string \<times> read option" where
  "hsgq_waitForPrompt buffer [] = (buffer, None)"
| "hsgq_waitForPrompt buffer (EOF # rs) = (buffer, None)"
| "hsgq_waitForPrompt buffer (Timeout # rs) = hsgq_waitForPrompt buffer rs"
| "hsgq_waitForPrompt buffer (Broken # rs) = (buffer, Some Broken)"
| "hsgq_waitForPrompt buffer (Byte b # rs) =
     (if hsgq_prompt (buffer @ [b]) then (buffer @ [b], None) else hsgq_waitForPrompt (buffer @ [b]) rs)"

section \<open>A wait ends at the first text that is enough\<close>

lemma readUntil_first:
  "readUntil fin buffer sent rs = ((buf, err), sent', rs') \<Longrightarrow>
     \<exists>d. buf = buffer @ d \<and> (\<forall>n. 0 < n \<longrightarrow> n < length d \<longrightarrow> \<not> fin (buffer @ take n d))"
proof (induction fin buffer sent rs arbitrary: buf err sent' rs' rule: readUntil.induct)
  case (5 fin buffer sent b rs)
  have step: "\<exists>d. buf = buffer @ d \<and> (\<forall>n. 0 < n \<longrightarrow> n < length d \<longrightarrow> \<not> fin (buffer @ take n d))"
    if "\<exists>d. buf = (buffer @ [c]) @ d \<and> (\<forall>n. 0 < n \<longrightarrow> n < length d \<longrightarrow> \<not> fin ((buffer @ [c]) @ take n d))" "\<not> fin (buffer @ [c])" for c
  proof -
    from that(1) obtain d where d: "buf = buffer @ c # d" "\<forall>n. 0 < n \<longrightarrow> n < length d \<longrightarrow> \<not> fin (buffer @ c # take n d)" by auto
    have "\<not> fin (buffer @ take n (c # d))" if "0 < n" "n < length (c # d)" for n
      using that d(2) \<open>\<not> fin (buffer @ [c])\<close> by (cases n; cases "n - 1 = 0") auto
    then show ?thesis using d(1) by blast
  qed
  obtain keep reply e rest where n: "negotiateTelnetOption rs = ((keep, reply, e), rest)" by (metis surj_pair)
  have stop: "\<exists>d. buffer @ [c] = buffer @ d \<and> (\<forall>n. 0 < n \<longrightarrow> n < length d \<longrightarrow> \<not> fin (buffer @ take n d))" for c by auto
  show ?case
  proof (cases "b = telnetIAC")
    case False
    then show ?thesis using "5.prems" "5.IH"(4) step stop by (cases "fin (buffer @ [b])") auto
  next
    case True
    show ?thesis
    proof (cases e)
      case (Some r)
      then show ?thesis using "5.prems" "5.IH"(1-3) [OF True n [symmetric] refl refl] True n by (cases r) auto
    next
      case None
      show ?thesis
      proof (cases keep)
        case (Some c)
        then show ?thesis using "5.prems" "5.IH"(2) [OF True n [symmetric] refl refl None Some] True n None step [of c] stop
          by (cases "fin (buffer @ [c])") auto
      next
        case N: None
        then show ?thesis using "5.prems" "5.IH"(1) [OF True n [symmetric] refl refl] True n None by auto
      qed
    qed
  qed
qed auto

text \<open>What a command is answered with ends at the first prompt.\<close>

lemma waitForPrompt_first:
  assumes "waitForPrompt hostname rs = (Inr output, sent, rs')"
  shows "endsWithDevicePrompt output hostname"
    and "0 < n \<Longrightarrow> n < length output \<Longrightarrow> \<not> endsWithDevicePrompt (take n output) hostname"
  using assms readUntil_first [of "\<lambda>b. endsWithDevicePrompt b hostname" "[]" "[]" rs]
  by (fastforce simp: waitForPrompt_def split: prod.splits option.splits if_splits)+

section \<open>The stream of a Telnet peer\<close>

text \<open>What a peer sends: data, an option, a subnegotiation, another two-byte command, or nothing for a while.\<close>

datatype item = Data char | Opt char char | Sub string | Command char | Silence

definition doubled :: "string \<Rightarrow> string" where
  "doubled s = concat (map (\<lambda>c. if c = telnetIAC then [c, c] else [c]) s)"

fun encode :: "item \<Rightarrow> read list" where
  "encode (Data c) = map Byte (if c = telnetIAC then [c, c] else [c])"
| "encode (Opt command option) = map Byte [telnetIAC, command, option]"
| "encode (Sub payload) = map Byte (telnetIAC # telnetSB # doubled payload @ [telnetIAC, telnetSE])"
| "encode (Command c) = map Byte [telnetIAC, c]"
| "encode Silence = [Timeout]"

fun well_formed :: "item \<Rightarrow> bool" where
  "well_formed (Opt command option) \<longleftrightarrow> command \<in> {telnetWILL, telnetWONT, telnetDO, telnetDONT}"
| "well_formed (Command c) \<longleftrightarrow> c \<notin> {telnetIAC, telnetSB, telnetWILL, telnetWONT, telnetDO, telnetDONT}"
| "well_formed _ \<longleftrightarrow> True"

fun data_of :: "item \<Rightarrow> string" where
  "data_of (Data c) = [c]"
| "data_of _ = []"

fun answer_to :: "item \<Rightarrow> string" where
  "answer_to (Opt command option) = telnetReply command option"
| "answer_to _ = []"

lemma skip_doubled:
  "skipTelnetSubnegotiation (map Byte (doubled s @ [telnetIAC, telnetSE]) @ rs) = (None, rs)"
  by (induction s) (auto simp: doubled_def telnet_bytes)

lemma read_item:
  assumes "well_formed it" "\<And>c. it \<noteq> Data c"
  shows "readUntil fin buffer sent (encode it @ rs) = readUntil fin buffer (sent @ answer_to it) rs"
proof (cases it)
  case (Sub p)
  have "negotiateTelnetOption (map Byte (telnetSB # doubled p @ [telnetIAC, telnetSE]) @ rs) = ((None, [], None), rs)"
    using skip_doubled [of p rs] by (simp add: negotiateTelnetOption_def telnet_bytes)
  then show ?thesis by (simp add: Sub)
next
  case (Opt c option)
  then show ?thesis using assms(1) by (auto simp: negotiateTelnetOption_def telnet_bytes)
next
  case (Command c)
  then show ?thesis using assms(1) by (auto simp: negotiateTelnetOption_def)
qed (use assms in auto)

lemma read_data:
  "readUntil fin buffer sent (encode (Data c) @ rs) =
     (if fin (buffer @ [c]) then ((buffer @ [c], None), sent, rs) else readUntil fin (buffer @ [c]) sent rs)"
  by (simp add: negotiateTelnetOption_def)

lemma read_items:
  assumes "list_all well_formed items"
    and "\<forall>n. 0 < n \<longrightarrow> n \<le> length (concat (map data_of items)) \<longrightarrow> \<not> fin (buffer @ take n (concat (map data_of items)))"
  shows "readUntil fin buffer sent (concat (map encode items) @ rs) =
         readUntil fin (buffer @ concat (map data_of items)) (sent @ concat (map answer_to items)) rs"
  using assms
proof (induction items arbitrary: buffer sent)
  case (Cons it items)
  show ?case
  proof (cases "\<exists>c. it = Data c")
    case True
    then obtain c where it: "it = Data c" by blast
    let ?d = "concat (map data_of items)"
    have "\<not> fin (buffer @ [c])" using Cons.prems(2) [rule_format, of 1] by (simp add: it)
    moreover have "\<not> fin ((buffer @ [c]) @ take n ?d)" if "0 < n" "n \<le> length ?d" for n
      using Cons.prems(2) [rule_format, of "Suc n"] that by (simp add: it)
    ultimately show ?thesis
      using Cons.IH [of "buffer @ [c]" sent] Cons.prems(1) read_data [of fin buffer sent c "concat (map encode items) @ rs"]
      by (simp add: it del: readUntil.simps encode.simps)
  next
    case False
    then have "data_of it = []" by (cases it) auto
    then show ?thesis
      using False Cons.IH [of buffer "sent @ answer_to it"] Cons.prems read_item [of it fin buffer sent "concat (map encode items) @ rs"]
      by (simp del: readUntil.simps)
  qed
qed simp

text \<open>C30. The client reads a Telnet stream the way its peer wrote it. Whatever a peer sends, data with
  escaped bytes, option requests, subnegotiations, other commands and pauses between them, in any order, the
  client has exactly the data, in order, and has written exactly one answer to each option request; and it stops
  at the first byte that completes what it waits for.\<close>

theorem telnet_stream_decoded:
  assumes "list_all well_formed items"
    and "\<forall>n. 0 < n \<longrightarrow> n \<le> length (concat (map data_of items)) \<longrightarrow> \<not> fin (take n (concat (map data_of items)))"
  shows "readUntil fin [] [] (concat (map encode items)) =
           ((concat (map data_of items), None), concat (map answer_to items), []) \<and>
         (fin (concat (map data_of items) @ [c]) \<longrightarrow>
           readUntil fin [] [] (concat (map encode items) @ encode (Data c) @ rs) =
             ((concat (map data_of items) @ [c], None), concat (map answer_to items), rs))"
  using read_items [of items fin "[]" "[]" "[]"] read_items [of items fin "[]" "[]" "encode (Data c) @ rs"] assms
    read_data [of fin "concat (map data_of items)" "concat (map answer_to items)" c rs]
  by (simp del: encode.simps)

theorem telnet_stream_decoded_witness:
  "readUntil (\<lambda>b. b = ''OK#'') [] []
     (map Byte [telnetIAC, telnetWILL, telnetOptionEcho, CHR ''O'', CHR ''K''] @ map Byte [CHR ''#''] @ []) =
   ((''OK#'', None), [telnetIAC, telnetDO, telnetOptionEcho], [])"
proof -
  let ?items = "[Opt telnetWILL telnetOptionEcho, Data (CHR ''O''), Data (CHR ''K'')]"
  have few: "\<not> take n ''OK'' = ''OK#''" for n by (auto dest!: arg_cong [where f = length])
  show ?thesis
    using telnet_stream_decoded [of ?items "\<lambda>b. b = ''OK#''" "CHR ''#''" "[]"] few
    by (simp add: telnet_bytes telnetReply_def)
qed

section \<open>What the client ever answers\<close>

definition refusal :: "string \<Rightarrow> bool" where
  "refusal r \<longleftrightarrow> (\<exists>option. r = [telnetIAC, telnetDONT, option] \<or> r = [telnetIAC, telnetWONT, option])"

definition agreement :: "string \<Rightarrow> bool" where
  "agreement r \<longleftrightarrow> r \<in> {[telnetIAC, telnetDO, telnetOptionEcho], [telnetIAC, telnetDO, telnetOptionSuppressGoAhead],
                       [telnetIAC, telnetWILL, telnetOptionSuppressGoAhead]}"

lemma telnetReply_allowed: "refusal (telnetReply command option) \<or> agreement (telnetReply command option)"
  by (auto simp: telnetReply_def refusal_def agreement_def)

lemma negotiate_answers: "negotiateTelnetOption rs = ((keep, reply, e), rest) \<Longrightarrow> reply = [] \<or> (\<exists>c p. reply = telnetReply c p)"
proof (cases rs)
  case (Cons r rs')
  assume n: "negotiateTelnetOption rs = ((keep, reply, e), rest)"
  show ?thesis
  proof (cases r)
    case (Byte c)
    then show ?thesis using n Cons
      by (cases rs'; cases "hd rs'") (auto simp: negotiateTelnetOption_def split: if_splits prod.splits)
  qed (use n Cons in \<open>auto simp: negotiateTelnetOption_def\<close>)
qed (auto simp: negotiateTelnetOption_def)

lemma readUntil_answers:
  "\<exists>answers. fst (snd (readUntil fin buffer sent rs)) = sent @ concat answers \<and>
     (\<forall>a \<in> set answers. refusal a \<or> agreement a)"
proof (induction fin buffer sent rs rule: readUntil.induct)
  case (5 fin buffer sent b rs)
  obtain keep reply e rest where n: "negotiateTelnetOption rs = ((keep, reply, e), rest)" by (metis surj_pair)
  obtain as where as: "reply = concat as" "\<forall>a \<in> set as. refusal a \<or> agreement a"
    using negotiate_answers [OF n] telnetReply_allowed that [of "[]"] that [of "[reply]"] by auto
  have more: "\<exists>answers. s = sent @ concat answers \<and> (\<forall>a \<in> set answers. refusal a \<or> agreement a)"
    if "\<exists>answers. s = (sent @ reply) @ concat answers \<and> (\<forall>a \<in> set answers. refusal a \<or> agreement a)" for s
  proof -
    from that obtain bs where "s = (sent @ reply) @ concat bs" "\<forall>a \<in> set bs. refusal a \<or> agreement a" by blast
    then show ?thesis using as by (intro exI [of _ "as @ bs"]) auto
  qed
  have own: "\<exists>answers. sent @ reply = sent @ concat answers \<and> (\<forall>a \<in> set answers. refusal a \<or> agreement a)" using as by auto
  have none: "\<exists>answers. sent = sent @ concat answers \<and> (\<forall>a \<in> set answers. refusal a \<or> agreement a)"
    by (intro exI [of _ "[]"]) simp
  show ?case
  proof (cases "b = telnetIAC")
    case False
    then show ?thesis using "5.IH"(4) none by (cases "fin (buffer @ [b])") auto
  next
    case True
    show ?thesis
    proof (cases e)
      case (Some r)
      show ?thesis
      proof (cases "r = Timeout")
        case t: True
        show ?thesis using more [OF "5.IH"(3) [OF True n [symmetric] refl refl Some t]] True Some t by (simp add: n)
      next
        case False
        then show ?thesis using own True Some by (cases r) (simp_all add: n)
      qed
    next
      case None
      show ?thesis
      proof (cases keep)
        case (Some c)
        show ?thesis using more [OF "5.IH"(2) [OF True n [symmetric] refl refl None Some]] own True None Some
          by (cases "fin (buffer @ [c])") (simp_all add: n)
      next
        case N: None
        show ?thesis using more [OF "5.IH"(1) [OF True n [symmetric] refl refl None N]] True None N by (simp add: n)
      qed
    qed
  qed
qed (auto intro: exI [of _ "[]"])

text \<open>A negotiation that the 100 ms read timeout cuts in two is not answered, and its tail is taken for data.\<close>

lemma split_negotiation_leaks:
  "readUntil (\<lambda>_. False) [] [] (map Byte ''a'' @ [Byte telnetIAC, Byte telnetDO, Timeout, Byte (CHR ''x''), Byte (CHR ''b'')]) =
     ((''axb'', None), [], [])"
  by (simp add: negotiateTelnetOption_def telnet_bytes)

text \<open>The client agrees to nothing but the two options it can live with. Whatever bytes arrive, in whatever
  pieces, everything it writes while reading is refusals, and agreements to the OLT echoing and to suppressing go-ahead.\<close>

theorem telnet_agrees_to_little:
  "\<exists>answers. fst (snd (readUntil fin [] [] rs)) = concat answers \<and> (\<forall>a \<in> set answers. refusal a \<or> agreement a)"
  using readUntil_answers [of fin "[]" "[]" rs] by simp

section \<open>Learning and recognising the prompt\<close>

text \<open>A name as a C300 has it: printable ASCII without blanks, brackets or prompt characters.\<close>

definition host_char :: "char \<Rightarrow> bool" where
  "host_char c \<longleftrightarrow> 33 \<le> (of_char c :: nat) \<and> (of_char c :: nat) \<le> 126 \<and> c \<notin> {CHR ''('', CHR ''#'', CHR ''>''}"

lemma printable_not_space:
  assumes "33 \<le> (of_char c :: nat)" "(of_char c :: nat) \<le> 126"
  shows "space_len (c # s) = 0" "space_len_rev (c # s) = 0" "\<not> blank c" "c \<noteq> CHR 0x0A" "c \<noteq> CHR 0x0D"
proof -
  have a: "\<not> ascii_space c" "c \<notin> {CHR 0x85, CHR 0xA0, CHR 0xA8, CHR 0xA9, CHR 0xAF, CHR 0x9F, CHR 0x80, CHR 0xC2, CHR 0xE1, CHR 0xE2, CHR 0xE3}"
    using assms by (auto simp: ascii_space_def)
  then show "space_len (c # s) = 0" "space_len_rev (c # s) = 0"
    using assms by (auto simp: space_len_def space_len_rev_def wide_space_def split: list.splits)
  show "\<not> blank c" "c \<noteq> CHR 0x0A" "c \<noteq> CHR 0x0D" using assms by (auto simp: blank_def)
qed

lemma trim_printable:
  assumes "s \<noteq> []" "33 \<le> (of_char (hd s) :: nat)" "(of_char (hd s) :: nat) \<le> 126" "33 \<le> (of_char (last s) :: nat)" "(of_char (last s) :: nat) \<le> 126"
  shows "TrimSpace s = s"
proof (rule TrimSpace_id)
  show "space_len s = 0" using assms(1-3) printable_not_space(1) [of "hd s" "tl s"] by simp
  obtain t x where "s = t @ [x]" using assms(1) by (cases s rule: rev_cases) auto
  then show "space_len_rev (rev s) = 0" using assms(4,5) printable_not_space(2) by simp
qed

lemma lastLine_after: "CHR 0x0A \<notin> set l \<Longrightarrow> lastLine (s @ CHR 0x0A # l) = l"
  unfolding lastLine_def by (simp, subst takeWhile_append2) auto

lemma lastNonEmptyLine_after:
  assumes "CHR 0x0A \<notin> set l" "CHR 0x0D \<notin> set l" "TrimSpace l = l" "l \<noteq> []"
  shows "lastNonEmptyLine (s @ CHR 0x0A # l) = l"
proof -
  have "filter (\<lambda>c. c \<noteq> CHR 0x0D) l = l" using assms(2) by (auto simp: filter_id_conv)
  moreover obtain ws where "Split (filter (\<lambda>c. c \<noteq> CHR 0x0D) s @ CHR 0x0A # l) (CHR 0x0A) = ws @ [l]"
    using Split_last [OF assms(1)] by blast
  ultimately show ?thesis using assms(3,4) by (simp add: lastNonEmptyLine_def)
qed

text \<open>The prompt learned at login is the prompt recognised afterwards. When the login response ends in a
  line that is the name of the OLT and \<open>#\<close> or \<open>>\<close>, that name is learned; from then on a text ends at the prompt exactly when its
  last line, but for trailing blanks, begins with the name and ends in \<open>#\<close> or \<open>>\<close>, in whatever context in between.\<close>

theorem prompt_learned_and_recognised:
  assumes "host \<noteq> []" "list_all host_char host" "t \<in> set promptTerminators" "CHR 0x0A \<notin> set line"
  shows "deviceHostname (banner @ CHR 0x0A # host @ [t]) = host \<and>
         (endsWithDevicePrompt (output @ CHR 0x0A # line) host \<longleftrightarrow>
            (\<exists>context e. trim_right blank line = host @ context @ [e] \<and> e \<in> set promptTerminators))"
proof
  have t: "33 \<le> (of_char t :: nat)" "(of_char t :: nat) \<le> 126" "\<not> host_char t"
    using assms(3) by (auto simp: promptTerminators_def host_char_def)
  have c: "33 \<le> (of_char c :: nat)" "(of_char c :: nat) \<le> 126" "c \<notin> set promptTerminators" "c \<noteq> CHR ''(''" if "c \<in> set host" for c
    using that assms(2) by (auto simp: list_all_iff host_char_def promptTerminators_def)
  have l: "lastNonEmptyLine (banner @ CHR 0x0A # host @ [t]) = host @ [t]"
  proof (rule lastNonEmptyLine_after)
    show "CHR 0x0A \<notin> set (host @ [t])" "CHR 0x0D \<notin> set (host @ [t])" using c t printable_not_space(4,5) by fastforce+
    show "TrimSpace (host @ [t]) = host @ [t]"
      using assms(1) c t by (intro trim_printable) (auto simp: hd_append)
  qed simp
  have "trim_right (\<lambda>c. blank c \<or> c \<in> set promptTerminators) (host @ [t]) = host"
  proof -
    obtain u x where u: "host = u @ [x]" using assms(1) by (cases host rule: rev_cases) auto
    then have "\<not> (blank x \<or> x \<in> set promptTerminators)" using c [of x] printable_not_space(3) [of x] by simp
    then show ?thesis using assms(3) by (simp add: trim_right_def u)
  qed
  moreover have "takeWhile (\<lambda>c. c \<noteq> CHR ''('') host = host" using c(4) by (simp add: takeWhile_eq_all_conv)
  moreover have "TrimSpace host = host" using assms(1) c by (intro trim_printable) auto
  moreover have "\<not> list_ex blank host" using c(1,2) printable_not_space(3) by (auto simp: list_ex_iff)
  ultimately show "deviceHostname (banner @ CHR 0x0A # host @ [t]) = host" by (simp add: deviceHostname_def l Let_def del: takeWhile_eq_all_conv)
next
  let ?l = "trim_right blank line"
  have l: "lastLine (output @ CHR 0x0A # line) = line" using assms(4) by (rule lastLine_after)
  show "endsWithDevicePrompt (output @ CHR 0x0A # line) host \<longleftrightarrow>
      (\<exists>context e. ?l = host @ context @ [e] \<and> e \<in> set promptTerminators)"
  proof
    assume "endsWithDevicePrompt (output @ CHR 0x0A # line) host"
    then have p: "?l \<noteq> []" "last ?l \<in> set promptTerminators" "prefix host ?l"
      using assms(1) by (auto simp: endsWithDevicePrompt_def l Let_def HasPrefix_def split: if_splits)
    from p(3) obtain r where r: "?l = host @ r" by (auto simp: prefix_def)
    have "r \<noteq> []"
    proof
      assume "r = []"
      then have "last host \<in> set promptTerminators" using p r by simp
      then show False using assms(1,2) last_in_set [of host] by (auto simp: list_all_iff host_char_def promptTerminators_def)
    qed
    then have "?l = host @ butlast r @ [last r]" "last r = last ?l" using r by simp_all
    then show "\<exists>context e. ?l = host @ context @ [e] \<and> e \<in> set promptTerminators" using p(2) by metis
  next
    assume "\<exists>context e. ?l = host @ context @ [e] \<and> e \<in> set promptTerminators"
    then show "endsWithDevicePrompt (output @ CHR 0x0A # line) host"
      using assms(1) by (auto simp: endsWithDevicePrompt_def l Let_def HasPrefix_def)
  qed
qed

theorem prompt_learned_and_recognised_witness:
  "deviceHostname (''Welcome'' @ CHR 0x0A # ''OLT'' @ ''#'') = ''OLT'' \<and>
   endsWithDevicePrompt (''name x'' @ CHR 0x0A # ''OLT(config)# '') ''OLT''"
proof -
  have h: "list_all host_char ''OLT''" by (simp add: host_char_def)
  have r: "trim_right blank ''OLT(config)# '' = ''OLT'' @ ''(config)'' @ ''#''" by (simp add: trim_right_def blank_def)
  have "deviceHostname (''Welcome'' @ CHR 0x0A # ''OLT'' @ [CHR ''#'']) = ''OLT'' \<and>
      (endsWithDevicePrompt (''name x'' @ CHR 0x0A # ''OLT(config)# '') ''OLT'' \<longleftrightarrow>
         (\<exists>context e. trim_right blank ''OLT(config)# '' = ''OLT'' @ context @ [e] \<and> e \<in> set promptTerminators))"
    by (rule prompt_learned_and_recognised) (use h in \<open>simp_all add: promptTerminators_def\<close>)
  moreover have "\<exists>context e. trim_right blank ''OLT(config)# '' = ''OLT'' @ context @ [e] \<and> e \<in> set promptTerminators"
    unfolding r by (intro exI [of _ "''(config)''"] exI [of _ "CHR ''#''"]) (simp add: promptTerminators_def)
  ultimately show ?thesis by simp
qed

section \<open>The HSGQ prompt is never recognised\<close>

lemma trim_by_stops: "trim_by len s = [] \<or> len (trim_by len s) = 0"
proof (induction len s rule: trim_by.induct)
  case (1 len s)
  then show ?case by (cases "s \<noteq> [] \<and> len s \<noteq> 0") (simp_all add: trim_by.simps [of len s])
qed

lemma TrimSpace_no_trailing_space: "\<not> suffix (s @ '' '') (TrimSpace t)"
proof
  assume "suffix (s @ '' '') (TrimSpace t)"
  then obtain u where "TrimSpace t = u @ s @ '' ''" by (auto simp: suffix_def)
  then have "trim_by space_len_rev (rev (trim_by space_len t)) = CHR '' '' # rev s @ rev u"
    by (simp add: TrimSpace_def rev_eq_append_conv)
  then show False using trim_by_stops [of space_len_rev "rev (trim_by space_len t)"]
    by (simp add: space_len_rev_def ascii_space_def)
qed

lemma hsgq_prompt_never: "\<not> hsgq_prompt str"
  using TrimSpace_no_trailing_space [of "''>''" str] TrimSpace_no_trailing_space [of "''#''" str] by (simp add: hsgq_prompt_def)

text \<open>So a command always waits out its five seconds: the wait ends only with the reads.\<close>

lemma hsgq_waits_out: "hsgq_waitForPrompt buffer (map Byte s) = (buffer @ s, None)"
  by (induction s arbitrary: buffer) (simp_all add: hsgq_prompt_never)

end
