(* ===== verification/ApiWire.thy ===== *)
theory ApiWire
  imports GoStrings
begin

unbundle bit_operations_syntax

text \<open>
  The RouterOS API wire (\<open>mikrotik/apiwire.go\<close>, \<open>api.go\<close>): word lengths, sentences, replies and the
  loop that collects a command's rows; and the duration texts routers print (\<open>mikrotik/parse.go\<close>).

  A word is its bytes. A reader is the bytes the peer will still send; reading past them is an error,
  as it is when the deadline ends the connection.
\<close>

section \<open>Word lengths\<close>

definition maxWordLength :: nat where "maxWordLength = 2 ^ 20"

datatype wire_error = ErrEOF | ErrBadReply | ErrTrap bytes | ErrFatal

definition encodeLength :: "u64 \<Rightarrow> bytes" where
  "encodeLength n =
     (if n < 0x80 then [ucast n]
      else if n < 0x4000 then (let v = n OR 0x8000 in [ucast (drop_bit 8 v), ucast v])
      else if n < 0x200000 then
        (let v = n OR 0xC00000 in [ucast (drop_bit 16 v), ucast (drop_bit 8 v), ucast v])
      else if n < 0x10000000 then
        (let v = (ucast n :: u32) OR 0xE0000000
         in [ucast (drop_bit 24 v), ucast (drop_bit 16 v), ucast (drop_bit 8 v), ucast v])
      else [0xF0, ucast (drop_bit 24 n), ucast (drop_bit 16 n), ucast (drop_bit 8 n), ucast n])"

definition shift_in :: "u64 \<Rightarrow> byte \<Rightarrow> u64" where
  "shift_in n b = push_bit 8 n OR ucast b"

fun read_extra :: "nat \<Rightarrow> u64 \<Rightarrow> bytes \<Rightarrow> wire_error + u64 \<times> bytes" where
  "read_extra 0 n r = Inr (n, r)"
| "read_extra (Suc k) n [] = Inl ErrEOF"
| "read_extra (Suc k) n (b # r) = read_extra k (shift_in n b) r"

fun readLength :: "bytes \<Rightarrow> wire_error + u64 \<times> bytes" where
  "readLength [] = Inl ErrEOF"
| "readLength (first # r) =
     (if first AND 0x80 = 0 then Inr (ucast first, r)
      else if first AND 0xC0 = 0x80 then read_extra 1 (ucast (first AND 0x3F)) r
      else if first AND 0xE0 = 0xC0 then read_extra 2 (ucast (first AND 0x1F)) r
      else if first AND 0xF0 = 0xE0 then read_extra 3 (ucast (first AND 0x0F)) r
      else if first = 0xF0 then read_extra 4 0 r
      else Inl ErrBadReply)"

lemma bit_less:
  assumes "n < (2 ^ k :: 'a::len word)" "k \<le> i" "k < LENGTH('a)"
  shows "\<not> bit n i"
proof -
  have "unat (of_nat (2 ^ k) :: 'a word) = 2 ^ k" using assms(3) by (simp only: unat_of_nat) simp
  then have "unat (2 ^ k :: 'a word) = 2 ^ k" by simp
  then have "unat n < 2 ^ k" using assms(1) by (simp add: word_less_nat_alt)
  then have "take_bit k (unat n) = unat n" by (simp add: take_bit_nat_eq_self_iff)
  then have "unat (take_bit k n) = unat n" by (simp add: unsigned_take_bit_eq)
  then have "take_bit k n = n" by (rule word_unat_eq_iff [THEN iffD2])
  then have "bit n i = bit (take_bit k n) i" by simp
  then show ?thesis using assms(2) by (simp add: bit_take_bit_iff)
qed

lemma nat_cases_8: "(i::nat) < 8 \<Longrightarrow> i = 0 \<or> i = 1 \<or> i = 2 \<or> i = 3 \<or> i = 4 \<or> i = 5 \<or> i = 6 \<or> i = 7"
  by arith

lemma word8_eqI:
  "(bit a 0 \<longleftrightarrow> bit b 0) \<Longrightarrow> (bit a 1 \<longleftrightarrow> bit b 1) \<Longrightarrow> (bit a 2 \<longleftrightarrow> bit b 2) \<Longrightarrow> (bit a 3 \<longleftrightarrow> bit b 3) \<Longrightarrow>
   (bit a 4 \<longleftrightarrow> bit b 4) \<Longrightarrow> (bit a 5 \<longleftrightarrow> bit b 5) \<Longrightarrow> (bit a 6 \<longleftrightarrow> bit b 6) \<Longrightarrow> (bit a 7 \<longleftrightarrow> bit b 7) \<Longrightarrow> a = (b :: byte)"
  by (rule bit_word_eqI) (auto dest!: nat_cases_8)

lemma bit_lessD: "bit n i \<Longrightarrow> n < (2 ^ k :: 'a::len word) \<Longrightarrow> k < LENGTH('a) \<Longrightarrow> i < k"
  using bit_less [of n k i] by (meson not_le)

lemma mark_bits:
  "bit (0x8000::u64) i \<longleftrightarrow> i = 15" "bit (0xC00000::u64) i \<longleftrightarrow> i = 23 \<or> i = 22"
  "bit (0xE0000000::u32) i \<longleftrightarrow> i = 31 \<or> i = 30 \<or> i = 29"
proof -
  have "(0x8000::u64) = 2 ^ 15" "(0xC00000::u64) = 2 ^ 23 OR 2 ^ 22" "(0xE0000000::u32) = 2 ^ 31 OR 2 ^ 30 OR 2 ^ 29" by simp_all
  then show "bit (0x8000::u64) i \<longleftrightarrow> i = 15" "bit (0xC00000::u64) i \<longleftrightarrow> i = 23 \<or> i = 22"
    "bit (0xE0000000::u32) i \<longleftrightarrow> i = 31 \<or> i = 30 \<or> i = 29"
    by (simp_all only: bit_or_iff bit_exp_iff) auto
qed

lemma low_masks: "bit (0x3F::byte) i \<longleftrightarrow> i < 6" "bit (0x1F::byte) i \<longleftrightarrow> i < 5" "bit (0x0F::byte) i \<longleftrightarrow> i < 4"
proof -
  have "(0x3F::byte) = mask 6" "(0x1F::byte) = mask 5" "(0x0F::byte) = mask 4" by (simp_all add: mask_eq_exp_minus_1)
  then show "bit (0x3F::byte) i \<longleftrightarrow> i < 6" "bit (0x1F::byte) i \<longleftrightarrow> i < 5" "bit (0x0F::byte) i \<longleftrightarrow> i < 4"
    by (simp_all only: bit_mask_iff) auto
qed

lemma join_bits:
  "bit (shift_in a b) i \<longleftrightarrow> (if i < 8 then bit b i else i < 64 \<and> bit a (i - 8))"
  by (auto simp: shift_in_def bit_simps dest: bit_imp_le_length)

lemma byte_bits: "bit (ucast (drop_bit k w) :: byte) i \<longleftrightarrow> i < 8 \<and> bit (w::'a::len word) (k + i)"
  "bit (ucast w :: byte) i \<longleftrightarrow> i < 8 \<and> bit (w::'a::len word) i"
  by (auto simp: bit_simps)

lemma head_bits: "bit (ucast (f AND m) :: u64) i \<longleftrightarrow> bit (f::byte) i \<and> bit m i"
  by (auto simp: bit_simps dest: bit_imp_le_length)

lemma byte_split:
  obtains "i < (8::nat)" | j where "i = 8 + j" "j < 8" | j where "i = 16 + j" "j < 8" | j where "i = 24 + j" "j < 8"
    | j where "i = 32 + j"
proof -
  have "i < 8 \<or> (\<exists>j. i = 8 + j \<and> j < 8) \<or> (\<exists>j. i = 16 + j \<and> j < 8) \<or> (\<exists>j. i = 24 + j \<and> j < 8) \<or> (\<exists>j. i = 32 + j)"
    by presburger
  with that show ?thesis by blast
qed

text \<open>The first byte says how long the length is, and its low bits are the length's high ones.\<close>

lemma two_bytes:
  assumes n: "n < (0x4000::u64)" and v: "\<And>i. bit v i \<longleftrightarrow> bit n i \<or> i = 15"
  defines "f \<equiv> ucast (drop_bit 8 (v::u64)) :: byte"
  shows "f AND 0x80 \<noteq> 0" "f AND 0xC0 = 0x80" "shift_in (ucast (f AND 0x3F)) (ucast v) = n"
proof -
  have b: "\<And>i. bit n i \<Longrightarrow> i < 14" using n by (auto intro: bit_lessD)
  then have nb: "\<And>i. 14 \<le> i \<Longrightarrow> \<not> bit n i" by (meson not_le)
  show "f AND 0xC0 = 0x80" unfolding f_def by (rule word8_eqI) (simp_all add: bit_simps v nb)
  have "bit (f AND 0x80) 7" unfolding f_def by (simp add: bit_simps v)
  then show "f AND 0x80 \<noteq> 0" by auto
  define h where "h = (ucast (f AND 0x3F) :: u64)"
  have h: "bit h i \<longleftrightarrow> i < 6 \<and> bit n (8 + i)" for i
    by (simp only: h_def head_bits low_masks f_def byte_bits v) (auto simp: bit_drop_bit_eq v)
  show "shift_in (ucast (f AND 0x3F)) (ucast v) = n" unfolding h_def [symmetric]
    by (rule bit_word_eqI, rule_tac i = na in byte_split) (auto simp: join_bits byte_bits bit_drop_bit_eq h v dest: b)
qed

lemma three_bytes:
  assumes n: "n < (0x200000::u64)" and v: "\<And>i. bit v i \<longleftrightarrow> bit n i \<or> i = 23 \<or> i = 22"
  defines "f \<equiv> ucast (drop_bit 16 (v::u64)) :: byte"
  shows "f AND 0x80 \<noteq> 0" "f AND 0xC0 \<noteq> 0x80" "f AND 0xE0 = 0xC0"
    "shift_in (shift_in (ucast (f AND 0x1F)) (ucast (drop_bit 8 v))) (ucast v) = n"
proof -
  have b: "\<And>i. bit n i \<Longrightarrow> i < 21" using n by (auto intro: bit_lessD)
  then have nb: "\<And>i. 21 \<le> i \<Longrightarrow> \<not> bit n i" by (meson not_le)
  show "f AND 0xE0 = 0xC0" unfolding f_def by (rule word8_eqI) (simp_all add: bit_simps v nb)
  have "bit (f AND 0x80) 7" "bit (f AND 0xC0) 6" unfolding f_def by (simp_all add: bit_simps v)
  moreover have "\<not> bit (0x80::byte) 6" by simp
  ultimately show "f AND 0x80 \<noteq> 0" "f AND 0xC0 \<noteq> 0x80" by auto
  define h where "h = (ucast (f AND 0x1F) :: u64)"
  have h: "bit h i \<longleftrightarrow> i < 5 \<and> bit n (16 + i)" for i
    by (simp only: h_def head_bits low_masks f_def byte_bits v) (auto simp: bit_drop_bit_eq v)
  show "shift_in (shift_in (ucast (f AND 0x1F)) (ucast (drop_bit 8 v))) (ucast v) = n" unfolding h_def [symmetric]
    by (rule bit_word_eqI, rule_tac i = na in byte_split) (auto simp: join_bits byte_bits bit_drop_bit_eq h v dest: b)
qed

lemma four_bytes:
  assumes n: "n < (0x10000000::u64)" and v: "\<And>i. bit v i \<longleftrightarrow> bit n i \<or> i = 31 \<or> i = 30 \<or> i = 29"
  defines "f \<equiv> ucast (drop_bit 24 (v::u32)) :: byte"
  shows "f AND 0x80 \<noteq> 0" "f AND 0xC0 \<noteq> 0x80" "f AND 0xE0 \<noteq> 0xC0" "f AND 0xF0 = 0xE0"
    "shift_in (shift_in (shift_in (ucast (f AND 0x0F)) (ucast (drop_bit 16 v))) (ucast (drop_bit 8 v))) (ucast v) = n"
proof -
  have b: "\<And>i. bit n i \<Longrightarrow> i < 28" using n by (auto intro: bit_lessD)
  then have nb: "\<And>i. 28 \<le> i \<Longrightarrow> \<not> bit n i" by (meson not_le)
  show "f AND 0xF0 = 0xE0" unfolding f_def by (rule word8_eqI) (simp_all add: bit_simps v nb)
  have "bit (f AND 0x80) 7" "bit (f AND 0xC0) 6" "bit (f AND 0xE0) 5" unfolding f_def by (simp_all add: bit_simps v)
  moreover have "\<not> bit (0x80::byte) 6" "\<not> bit (0xC0::byte) 5" by simp_all
  ultimately show "f AND 0x80 \<noteq> 0" "f AND 0xC0 \<noteq> 0x80" "f AND 0xE0 \<noteq> 0xC0" by auto
  define h where "h = (ucast (f AND 0x0F) :: u64)"
  have h: "bit h i \<longleftrightarrow> i < 4 \<and> bit n (24 + i)" for i
    by (simp only: h_def head_bits low_masks f_def byte_bits v) (auto simp: bit_drop_bit_eq v)
  show "shift_in (shift_in (shift_in (ucast (f AND 0x0F)) (ucast (drop_bit 16 v))) (ucast (drop_bit 8 v))) (ucast v) = n"
    unfolding h_def [symmetric]
    by (rule bit_word_eqI, rule_tac i = na in byte_split) (auto simp: join_bits byte_bits bit_drop_bit_eq h v dest: b)
qed

lemma five_bytes:
  assumes n: "n < (0x100000000::u64)"
  shows "shift_in (shift_in (shift_in (shift_in 0 (ucast (drop_bit 24 n))) (ucast (drop_bit 16 n))) (ucast (drop_bit 8 n)))
    (ucast n) = n"
proof -
  have b: "\<And>i. bit n i \<Longrightarrow> i < 32" using n by (auto intro: bit_lessD)
  show ?thesis
    by (rule bit_word_eqI, rule_tac i = na in byte_split) (auto simp: join_bits byte_bits bit_drop_bit_eq dest: b)
qed

lemma read_extra_steps:
  "read_extra 1 n (a # r) = Inr (shift_in n a, r)"
  "read_extra 2 n (a # b # r) = Inr (shift_in (shift_in n a) b, r)"
  "read_extra 3 n (a # b # c # r) = Inr (shift_in (shift_in (shift_in n a) b) c, r)"
  "read_extra 4 n (a # b # c # d # r) = Inr (shift_in (shift_in (shift_in (shift_in n a) b) c) d, r)"
  by (simp_all add: numeral_eq_Suc)

text \<open>What \<open>encodeLength\<close> writes, \<open>readLength\<close> reads back, whatever bytes follow it.\<close>

lemma length_roundtrip [codec]:
  assumes "n < 0x100000000"
  shows "readLength (encodeLength n @ rest) = Inr (n, rest)"
proof -
  consider "n < 0x80" | "\<not> n < 0x80" "n < 0x4000" | "\<not> n < 0x80" "\<not> n < 0x4000" "n < 0x200000"
    | "\<not> n < 0x80" "\<not> n < 0x4000" "\<not> n < 0x200000" "n < 0x10000000"
    | "\<not> n < 0x80" "\<not> n < 0x4000" "\<not> n < 0x200000" "\<not> n < 0x10000000" by blast
  then show ?thesis
  proof cases
    case 1
    then have b: "\<And>i. bit n i \<Longrightarrow> i < 7" by (auto intro: bit_lessD)
    have "ucast (ucast n :: byte) = n"
      by (rule bit_word_eqI) (auto simp: bit_simps dest: b)
    moreover have "\<not> bit n 7" using b by blast
    then have "(ucast n :: byte) AND 0x80 = 0" by (intro word8_eqI) (simp_all add: bit_simps)
    ultimately show ?thesis using 1 by (simp add: encodeLength_def)
  next
    case 2
    let ?v = "n OR 0x8000"
    have "\<And>i. bit ?v i \<longleftrightarrow> bit n i \<or> i = 15" by (simp only: bit_or_iff mark_bits)
    note t = two_bytes [OF 2(2) this]
    show ?thesis using 2 t by (simp add: encodeLength_def Let_def numeral_eq_Suc del: unsigned_or_eq)
  next
    case 3
    let ?v = "n OR 0xC00000"
    have "\<And>i. bit ?v i \<longleftrightarrow> bit n i \<or> i = 23 \<or> i = 22" by (simp only: bit_or_iff mark_bits)
    note t = three_bytes [OF 3(3) this]
    have "encodeLength n = [ucast (drop_bit 16 ?v), ucast (drop_bit 8 ?v), ucast ?v]"
      using 3 by (simp only: encodeLength_def if_False if_True Let_def)
    then show ?thesis by (simp only: append.simps readLength.simps t if_False if_True read_extra_steps refl)
  next
    case 4
    let ?v = "(ucast n :: u32) OR 0xE0000000"
    have b: "\<And>i. bit n i \<Longrightarrow> i < 28" using 4(4) by (auto intro: bit_lessD)
    have "bit ?v i \<longleftrightarrow> bit n i \<or> i = 31 \<or> i = 30 \<or> i = 29" for i
      using b [of i] by (simp only: bit_or_iff mark_bits bit_unsigned_iff) auto
    note t = four_bytes [OF 4(4) this]
    have "encodeLength n = [ucast (drop_bit 24 ?v), ucast (drop_bit 16 ?v), ucast (drop_bit 8 ?v), ucast ?v]"
      using 4 by (simp only: encodeLength_def if_False if_True Let_def)
    then show ?thesis by (simp only: append.simps readLength.simps t if_False if_True read_extra_steps refl)
  next
    case 5
    have "encodeLength n = [0xF0, ucast (drop_bit 24 n), ucast (drop_bit 16 n), ucast (drop_bit 8 n), ucast n]"
      using 5 by (simp only: encodeLength_def if_False if_True)
    then show ?thesis using five_bytes [OF assms] by (simp add: read_extra_steps)
  qed
qed

section \<open>Sentences\<close>

definition writeSentence :: "bytes list \<Rightarrow> bytes" where
  "writeSentence ws = concat (map (\<lambda>w. encodeLength (of_nat (length w)) @ w) ws) @ [0]"

lemma read_extra_consumes: "read_extra k n r = Inr (m, r') \<Longrightarrow> length r' \<le> length r"
  by (induction k n r rule: read_extra.induct) auto

lemma readLength_consumes: "readLength r = Inr (n, r') \<Longrightarrow> length r' < length r"
  by (cases r) (auto split: if_splits dest: read_extra_consumes)

function read_words :: "bytes list \<Rightarrow> nat \<Rightarrow> bytes \<Rightarrow> wire_error + bytes list \<times> bytes" where
  "read_words ws n r =
     (case readLength r of
        Inl e \<Rightarrow> Inl e
      | Inr (k, r1) \<Rightarrow>
          if k = 0 then Inr (ws, r1)
          else if int (unat k) > int maxWordLength - int n then Inl ErrBadReply
          else if length r1 < unat k then Inl ErrEOF
          else read_words (ws @ [take (unat k) r1]) (n + unat k) (drop (unat k) r1))"
  by pat_completeness auto
termination by (relation "measure (\<lambda>(ws, n, r). length r)") (auto dest!: readLength_consumes)

declare read_words.simps [simp del]

definition readSentence :: "bytes \<Rightarrow> wire_error + bytes list \<times> bytes" where
  "readSentence r = read_words [] 0 r"

lemma read_words_consumes: "read_words ws n r = Inr (ss, r') \<Longrightarrow> length r' < length r"
proof (induction ws n r rule: read_words.induct)
  case (1 ws n r)
  show ?case
  proof (cases "readLength r")
    case (Inl e)
    then show ?thesis using "1.prems" by (simp add: read_words.simps [of ws n r])
  next
    case (Inr kr)
    obtain k r1 where kr: "kr = (k, r1)" by fastforce
    then have "length r1 < length r" using Inr readLength_consumes by simp
    then show ?thesis
      using "1.prems" "1.IH" [OF Inr kr [symmetric]] Inr kr
      by (fastforce simp: read_words.simps [of ws n r] split: if_splits)
  qed
qed

lemma readSentence_consumes: "readSentence r = Inr (ss, r') \<Longrightarrow> length r' < length r"
  unfolding readSentence_def by (rule read_words_consumes)

lemma read_words_writes:
  assumes "\<forall>w \<in> set ss. w \<noteq> []" "n + length (concat ss) \<le> maxWordLength"
  shows "read_words ws n (writeSentence ss @ rest) = Inr (ws @ ss, rest)"
  using assms
proof (induction ss arbitrary: ws n)
  case Nil
  then show ?case by (simp add: writeSentence_def read_words.simps)
next
  case (Cons w ss)
  let ?k = "of_nat (length w) :: u64"
  have len: "length w \<le> 2 ^ 20" using Cons.prems(2) by (simp add: maxWordLength_def)
  then have k: "unat ?k = length w" by (simp add: unsigned_of_nat take_bit_nat_eq_self)
  then have "?k < 0x100000000" using len by (simp add: word_less_nat_alt)
  then have read: "readLength (writeSentence (w # ss) @ rest) = Inr (?k, w @ writeSentence ss @ rest)"
    using length_roundtrip by (simp add: writeSentence_def)
  have "w \<noteq> []" using Cons.prems(1) by simp
  then have "?k \<noteq> 0" using k by (metis length_0_conv unsigned_0)
  moreover have "\<not> int (length w) > int maxWordLength - int n" using Cons.prems(2) by simp
  ultimately show ?case
    using Cons.IH [of "n + length w" "ws @ [w]"] Cons.prems read k by (simp add: read_words.simps [of ws n])
qed

text \<open>C23. A sentence survives the wire: what \<open>writeSentence\<close> sends, \<open>readSentence\<close> reads back word for word,
  leaving the bytes that follow, for every list of non-empty words of at most a mebibyte in all.\<close>

theorem sentence_roundtrip:
  assumes "\<forall>w \<in> set ss. w \<noteq> []" and "length (concat ss) \<le> maxWordLength"
  shows "readSentence (writeSentence ss @ rest) = Inr (ss, rest)"
  using read_words_writes [of ss 0 "[]"] assms by (simp add: readSentence_def)

theorem sentence_roundtrip_witness:
  "readSentence (writeSentence [[47, 108], replicate 200 65] @ [1]) = Inr ([[47, 108], replicate 200 65], [1])"
  by (rule sentence_roundtrip) (simp_all add: maxWordLength_def)

section \<open>Replies\<close>

definition word_of :: "string \<Rightarrow> bytes" where
  "word_of s = map of_char s"

record reply =
  re_kind :: bytes
  re_attrs :: "bytes \<Rightarrow> bytes option"

text \<open>\<open>strings.Cut(word, "=")\<close>: up to the first sign, and after it.\<close>

definition eq_sign :: byte where "eq_sign = 61"

definition cut_attr :: "bytes \<Rightarrow> bytes \<times> bytes" where
  "cut_attr w = (takeWhile (\<lambda>b. b \<noteq> eq_sign) w, drop 1 (dropWhile (\<lambda>b. b \<noteq> eq_sign) w))"

fun add_attr :: "bytes \<Rightarrow> (bytes \<Rightarrow> bytes option) \<Rightarrow> bytes \<Rightarrow> bytes option" where
  "add_attr [] m = m"
| "add_attr (b # w) m = (if b = eq_sign then (case cut_attr w of (k, v) \<Rightarrow> m(k \<mapsto> v)) else m)"

definition parseSentence :: "bytes list \<Rightarrow> wire_error + reply" where
  "parseSentence ws =
     (case ws of
        [] \<Rightarrow> Inl ErrBadReply
      | kind # attrs \<Rightarrow> Inr \<lparr>re_kind = kind, re_attrs = fold add_attr attrs (\<lambda>_. None)\<rparr>)"

section \<open>One command\<close>

definition maxReplyBytes :: int where "maxReplyBytes = 16 * 2 ^ 20"
definition maxReplyRows :: nat where "maxReplyRows = 100000"
definition sentenceOverhead :: int where "sentenceOverhead = 64"

definition sentenceBytes :: "bytes list \<Rightarrow> nat" where
  "sentenceBytes ws = sum_list (map length ws)"

definition sentence_cost :: "bytes list \<Rightarrow> int" where
  "sentence_cost ws = int (sentenceBytes ws) + sentenceOverhead * (int (length ws) + 1)"

type_synonym attr_row = "bytes \<Rightarrow> bytes option"

text \<open>The loop of \<open>run\<close> after the command is sent: the rows so far, the refusal remembered, the bytes counted.\<close>

function reply_loop ::
  "attr_row list \<Rightarrow> bytes option \<Rightarrow> int \<Rightarrow> bytes \<Rightarrow> wire_error + attr_row list" where
  "reply_loop rows trap received r =
     (case readSentence r of
        Inl e \<Rightarrow> Inl e
      | Inr (sentence, r') \<Rightarrow>
          (let received = received + sentence_cost sentence
           in if received > maxReplyBytes then Inl ErrBadReply
              else (case parseSentence sentence of
                      Inl e \<Rightarrow> Inl e
                    | Inr p \<Rightarrow>
                        if re_kind p = word_of ''!re'' then
                          (if length rows \<ge> maxReplyRows then Inl ErrBadReply
                           else reply_loop (rows @ [re_attrs p]) trap received r')
                        else if re_kind p = word_of ''!trap'' then
                          reply_loop rows (Some (case re_attrs p (word_of ''message'') of Some m \<Rightarrow> m | None \<Rightarrow> [])) received r'
                        else if re_kind p = word_of ''!fatal'' then Inl ErrFatal
                        else if re_kind p = word_of ''!done'' then
                          (case trap of Some m \<Rightarrow> Inl (ErrTrap m) | None \<Rightarrow> Inr rows)
                        else reply_loop rows trap received r')))"
  by pat_completeness auto
termination by (relation "measure (\<lambda>(rows, trap, n, r). length r)") (auto dest: readSentence_consumes)

declare reply_loop.simps [simp del]

definition api_run :: "bytes \<Rightarrow> wire_error + attr_row list" where
  "api_run r = reply_loop [] None 0 r"

text \<open>The rows an answer may hold: bounded by their number, and by the byte budget, each row having cost the
  overhead of its sentence and of its first word.\<close>

lemma sentence_cost_min: "parseSentence ws = Inr p \<Longrightarrow> 2 * sentenceOverhead \<le> sentence_cost ws"
  by (cases ws) (simp_all add: parseSentence_def sentence_cost_def sentenceOverhead_def)

lemma sentence_cost_pos: "0 \<le> sentence_cost ws"
  by (simp add: sentence_cost_def sentenceOverhead_def)

lemma reply_loop_bounded:
  "reply_loop rows trap received r = Inr res \<Longrightarrow> length rows \<le> maxReplyRows \<Longrightarrow> 128 * int (length rows) \<le> received \<Longrightarrow>
     length res \<le> maxReplyRows \<and> 128 * int (length res) \<le> maxReplyBytes \<and> trap = None"
proof (induction rows trap received r rule: reply_loop.induct)
  case (1 rows trap received r)
  from "1.prems"(1) obtain ss r' p where s: "readSentence r = Inr (ss, r')"
    and within: "\<not> received + sentence_cost ss > maxReplyBytes" and p: "parseSentence ss = Inr p"
    by (auto simp: reply_loop.simps [of rows trap received r] Let_def split: sum.splits prod.splits if_splits)
  have cost: "128 \<le> sentence_cost ss" using sentence_cost_min [OF p] by (simp add: sentenceOverhead_def)
  note ih = "1.IH" [OF s refl refl within p]
  note eq = "1.prems"(1) [unfolded reply_loop.simps [of rows trap received r] s Let_def p sum.case prod.case if_not_P [OF within]]
  show ?case
  proof (cases "re_kind p = word_of ''!re''")
    case True
    then show ?thesis using eq ih(1) [OF True] "1.prems"(2,3) cost by (simp split: if_splits)
  next
    case re: False
    show ?thesis
    proof (cases "re_kind p = word_of ''!trap''")
      case True
      then show ?thesis using eq re ih(2) [OF re True] "1.prems"(2,3) cost by (simp split: if_splits)
    next
      case tr: False
      show ?thesis
      proof (cases "re_kind p = word_of ''!fatal'' \<or> re_kind p = word_of ''!done''")
        case True
        then show ?thesis using eq re tr "1.prems"(2,3) within cost
          by (auto split: if_splits option.splits)
      next
        case False
        then show ?thesis using eq re tr ih(3) [OF re tr] "1.prems"(2,3) cost by (simp split: if_splits)
      qed
    qed
  qed
qed

text \<open>Whatever a peer streams, a command's answer is bounded: it ends (the loop consumes the stream), holds
  at most a hundred thousand rows, and a reply that carried a refusal is never an answer.\<close>

theorem reply_bounded:
  assumes "reply_loop rows trap received r = Inr answer" and "length rows \<le> maxReplyRows"
    and "128 * int (length rows) \<le> received"
  shows "length answer \<le> maxReplyRows \<and> 128 * int (length answer) \<le> maxReplyBytes \<and> trap = None"
  using reply_loop_bounded [OF assms] .

definition re_sentence :: "(bytes \<times> bytes) list \<Rightarrow> bytes list" where
  "re_sentence row = word_of ''!re'' # map (\<lambda>(k, v). eq_sign # k @ eq_sign # v) row"

definition row_map :: "(bytes \<times> bytes) list \<Rightarrow> attr_row" where
  "row_map row = fold (\<lambda>(k, v) m. m(k \<mapsto> v)) row (\<lambda>_. None)"

lemma cut_attr_append: "eq_sign \<notin> set k \<Longrightarrow> cut_attr (k @ eq_sign # v) = (k, v)"
proof -
  assume "eq_sign \<notin> set k"
  then have "\<forall>b \<in> set k. b \<noteq> eq_sign" by auto
  then show ?thesis by (simp add: cut_attr_def takeWhile_append2 dropWhile_append2)
qed

lemma parse_re_sentence:
  assumes "list_all (\<lambda>(k, v). eq_sign \<notin> set k) row"
  shows "parseSentence (re_sentence row) = Inr \<lparr>re_kind = word_of ''!re'', re_attrs = row_map row\<rparr>"
proof -
  have "fold add_attr (map (\<lambda>(k, v). eq_sign # k @ eq_sign # v) row) m = fold (\<lambda>(k, v) m. m(k \<mapsto> v)) row m" for m
    using assms by (induction row arbitrary: m) (auto simp: cut_attr_append)
  then show ?thesis by (simp add: parseSentence_def re_sentence_def row_map_def)
qed

lemma kinds_differ [simp]:
  "word_of ''!done'' \<noteq> word_of ''!re''" "word_of ''!done'' \<noteq> word_of ''!trap''" "word_of ''!done'' \<noteq> word_of ''!fatal''"
  "word_of ''!re'' \<noteq> []" "word_of ''!done'' \<noteq> []"
  by code_simp+

definition sendable :: "(bytes \<times> bytes) list \<Rightarrow> bool" where
  "sendable row \<longleftrightarrow> list_all (\<lambda>(k, v). eq_sign \<notin> set k) row \<and> length (concat (re_sentence row)) \<le> maxWordLength"

lemma read_re_sentence: "sendable row \<Longrightarrow> readSentence (writeSentence (re_sentence row) @ r) = Inr (re_sentence row, r)"
proof -
  assume s: "sendable row"
  have "\<forall>w \<in> set (re_sentence row). w \<noteq> []" by (auto simp: re_sentence_def)
  then show ?thesis
    using read_words_writes [of "re_sentence row" 0 "[]" r] s by (simp add: sendable_def readSentence_def)
qed

lemma read_done: "readSentence (writeSentence [word_of ''!done''] @ r) = Inr ([word_of ''!done''], r)"
  using read_words_writes [of "[word_of ''!done'']" 0 "[]" r]
  by (simp add: readSentence_def word_of_def maxWordLength_def)

lemma reply_loop_collects:
  assumes "\<forall>row \<in> set rows. sendable row" and "length got + length rows \<le> maxReplyRows"
    and "received + sum_list (map (\<lambda>row. sentence_cost (re_sentence row)) rows) + sentence_cost [word_of ''!done''] \<le> maxReplyBytes"
  shows "reply_loop got None received
     (concat (map (\<lambda>row. writeSentence (re_sentence row)) rows) @ writeSentence [word_of ''!done''] @ rest) =
     Inr (got @ map row_map rows)"
  using assms
proof (induction rows arbitrary: got received)
  case Nil
  then show ?case
    by (simp add: reply_loop.simps [of got None received] read_done Let_def parseSentence_def)
next
  case (Cons row rows)
  let ?r = "concat (map (\<lambda>row. writeSentence (re_sentence row)) rows) @ writeSentence [word_of ''!done''] @ rest"
  have s: "sendable row" using Cons.prems(1) by simp
  have p: "parseSentence (re_sentence row) = Inr \<lparr>re_kind = word_of ''!re'', re_attrs = row_map row\<rparr>"
    using parse_re_sentence s by (simp add: sendable_def)
  have "0 \<le> sum_list (map (\<lambda>row. sentence_cost (re_sentence row)) rows)"
    by (intro sum_list_nonneg) (auto simp: sentence_cost_pos)
  then have within: "\<not> received + sentence_cost (re_sentence row) > maxReplyBytes"
    using Cons.prems(3) sentence_cost_pos [of "[word_of ''!done'']"] by simp
  have "reply_loop got None received (writeSentence (re_sentence row) @ ?r) =
      reply_loop (got @ [row_map row]) None (received + sentence_cost (re_sentence row)) ?r"
    using within Cons.prems(2)
    by (simp add: reply_loop.simps [of got None received] read_re_sentence [OF s] Let_def p)
  then show ?case
    using Cons.IH [of "got @ [row_map row]" "received + sentence_cost (re_sentence row)"] Cons.prems by simp
qed

text \<open>A router's rows arrive as they were sent: for rows within the limits, the answer to a command is
  exactly the list of their attribute maps, in order, whatever the peer sends after \<open>!done\<close>; values may
  hold the equals sign, keys may not.\<close>

theorem run_collects_rows:
  assumes "\<forall>row \<in> set rows. sendable row" and "length rows \<le> maxReplyRows"
    and "sum_list (map (\<lambda>row. sentence_cost (re_sentence row)) rows) + sentence_cost [word_of ''!done''] \<le> maxReplyBytes"
  shows "api_run (concat (map (\<lambda>row. writeSentence (re_sentence row)) rows) @ writeSentence [word_of ''!done''] @ rest) =
     Inr (map row_map rows)"
  using reply_loop_collects [of rows "[]" 0] assms by (simp add: api_run_def)

theorem run_collects_rows_witness:
  "api_run (writeSentence (re_sentence [(word_of ''comment'', word_of ''a=b'')]) @ writeSentence [word_of ''!done''] @ [1, 2]) =
     Inr [row_map [(word_of ''comment'', word_of ''a=b'')]]"
proof -
  have "sendable [(word_of ''comment'', word_of ''a=b'')]" by code_simp
  moreover have "sentence_cost (re_sentence [(word_of ''comment'', word_of ''a=b'')]) + sentence_cost [word_of ''!done''] \<le> maxReplyBytes"
    by code_simp
  moreover have "(1::nat) \<le> maxReplyRows" by (simp add: maxReplyRows_def)
  ultimately show ?thesis
    using run_collects_rows [of "[[(word_of ''comment'', word_of ''a=b'')]]" "[1, 2]"] by simp
qed

theorem reply_bounded_witness:
  "length [row_map [(word_of ''mtu'', word_of ''1500'')]] \<le> maxReplyRows \<and>
   128 * int (length [row_map [(word_of ''mtu'', word_of ''1500'')]]) \<le> maxReplyBytes \<and> None = (None :: bytes option)"
proof -
  have "sendable [(word_of ''mtu'', word_of ''1500'')]" by code_simp
  moreover have "0 + sum_list (map (\<lambda>row. sentence_cost (re_sentence row)) [[(word_of ''mtu'', word_of ''1500'')]]) +
      sentence_cost [word_of ''!done''] \<le> maxReplyBytes"
    by code_simp
  ultimately have "reply_loop [] None 0 (concat (map (\<lambda>row. writeSentence (re_sentence row)) [[(word_of ''mtu'', word_of ''1500'')]]) @
      writeSentence [word_of ''!done''] @ []) = Inr ([] @ map row_map [[(word_of ''mtu'', word_of ''1500'')]])"
    by (intro reply_loop_collects) (simp_all add: maxReplyRows_def)
  from reply_bounded [OF this] show ?thesis by (simp only: list.map append.simps list.size)
qed

section \<open>Filters\<close>

text \<open>\<open>splitFilter\<close>: the key must look like a RouterOS property name, the value must hold no line break
  and no NUL, so a filter is always one query word.\<close>

definition filterKey :: "bytes \<Rightarrow> bool" where
  "filterKey k \<longleftrightarrow> k \<noteq> [] \<and> 97 \<le> hd k \<and> hd k \<le> 122 \<and>
     list_all (\<lambda>b. (97 \<le> b \<and> b \<le> 122) \<or> (48 \<le> b \<and> b \<le> 57) \<or> b = 45) (tl k)"

definition splitFilter :: "bytes \<Rightarrow> (bytes \<times> bytes) option" where
  "splitFilter w =
     (if eq_sign \<notin> set w then None
      else (case cut_attr w of
              (key, val) \<Rightarrow>
                if \<not> filterKey key \<or> list_ex (\<lambda>b. b = 13 \<or> b = 10 \<or> b = 0) val then None else Some (key, val)))"

definition list_words :: "bytes \<Rightarrow> bytes list \<Rightarrow> bytes list option" where
  "list_words path wheres =
     (if list_ex (\<lambda>w. splitFilter w = None) wheres then None
      else Some ((path @ word_of ''/print'') # map (\<lambda>w. 63 # w) wheres))"

section \<open>Durations\<close>

text \<open>\<open>ParseDuration\<close> of \<open>mikrotik/parse.go\<close>. Durations are Go's signed 64-bit nanoseconds, so the product and
  the sum wrap. \<open>strings.IndexFunc\<close> looks at runes, but a byte outside ASCII is no digit either way.\<close>

definition durationUnits :: "string \<Rightarrow> int option" where
  "durationUnits unit =
     map_of [(''w'', 7 * 24 * hour), (''d'', 24 * hour), (''h'', hour), (''m'', minute), (''s'', second),
             (''ms'', millisecond), (''us'', microsecond)] unit"

definition wrap64 :: "int \<Rightarrow> int" where
  "wrap64 i = sint (word_of_int i :: 64 word)"

datatype duration_error = ErrEmptyDuration | ErrNumber | ErrNumberRange | ErrUnit

function duration_loop :: "int \<Rightarrow> string \<Rightarrow> duration_error + int" where
  "duration_loop total_ns rest =
     (if rest = [] then Inr total_ns
      else (let digits = takeWhile is_digit rest; rest1 = dropWhile is_digit rest
            in if digits = [] \<or> rest1 = [] then Inl ErrNumber
               else (case ParseInt64 digits of
                       None \<Rightarrow> Inl ErrNumberRange
                     | Some n \<Rightarrow>
                         (let unit = takeWhile (\<lambda>c. \<not> is_digit c) rest1
                          in case durationUnits unit of
                               None \<Rightarrow> Inl ErrUnit
                             | Some u \<Rightarrow>
                                 duration_loop (wrap64 (total_ns + wrap64 (n * u))) (dropWhile (\<lambda>c. \<not> is_digit c) rest1)))))"
  by pat_completeness auto
termination
proof (relation "measure (\<lambda>(t, s). length s)", goal_cases)
  case 1
  then show ?case by simp
next
  case (2 t rest digits rest1 n unit u)
  have "length (dropWhile (\<lambda>c. \<not> is_digit c) rest1) \<le> length rest1" by (rule length_dropWhile_le)
  moreover have "length rest1 + length digits = length rest"
    using 2 by (metis add.commute length_append takeWhile_dropWhile_id)
  moreover have "0 < length digits" using 2 by simp
  ultimately have "length (dropWhile (\<lambda>c. \<not> is_digit c) rest1) < length rest" by linarith
  then show ?case by simp
qed

declare duration_loop.simps [simp del]

definition ParseDuration :: "string \<Rightarrow> duration_error + int" where
  "ParseDuration s = (if s = [] then Inl ErrEmptyDuration else duration_loop 0 s)"

definition print_duration :: "(nat \<times> string) list \<Rightarrow> string" where
  "print_duration parts = concat (map (\<lambda>(n, unit). dec n @ unit) parts)"

definition duration_parts :: "(nat \<times> string) list \<Rightarrow> bool" where
  "duration_parts parts \<longleftrightarrow> list_all (\<lambda>(n, unit). n < 2 ^ 63 \<and> durationUnits unit \<noteq> None) parts"

definition parts_ns :: "(nat \<times> string) list \<Rightarrow> int" where
  "parts_ns parts = sum_list (map (\<lambda>(n, unit). int n * the (durationUnits unit)) parts)"

lemma wrap64_add [simp]: "wrap64 (wrap64 a + b) = wrap64 (a + b)" "wrap64 (a + wrap64 b) = wrap64 (a + b)"
  by (simp_all add: wrap64_def)

lemma unit_shape:
  assumes "durationUnits unit \<noteq> None"
  shows "unit \<noteq> []" and "c \<in> set unit \<Longrightarrow> \<not> is_digit c"
proof -
  have "unit \<in> {''w'', ''d'', ''h'', ''m'', ''s'', ''ms'', ''us''}"
    using assms unfolding durationUnits_def by (auto split: if_splits)
  then show "unit \<noteq> []" and "c \<in> set unit \<Longrightarrow> \<not> is_digit c" by (auto simp: is_digit_iff)
qed

lemma digits_first: "print_duration parts = [] \<or> is_digit (hd (print_duration parts))"
proof (cases parts)
  case Nil
  then show ?thesis by (simp add: print_duration_def)
next
  case (Cons p ps)
  obtain n unit where p: "p = (n, unit)" by fastforce
  have "is_digit (hd (dec n))" using dec_digits [OF hd_in_set [OF dec_not_Nil]] .
  then show ?thesis by (simp add: Cons p print_duration_def)
qed

lemma duration_loop_print:
  "duration_parts parts \<Longrightarrow> duration_loop t (print_duration parts) = Inr (if parts = [] then t else wrap64 (t + parts_ns parts))"
proof (induction parts arbitrary: t)
  case Nil
  then show ?case by (simp add: print_duration_def duration_loop.simps)
next
  case (Cons p parts)
  obtain n unit where p: "p = (n, unit)" by fastforce
  obtain u where u: "durationUnits unit = Some u" and n: "n < 2 ^ 63"
    using Cons.prems by (auto simp: duration_parts_def p)
  note shape = unit_shape [of unit]
  have print: "print_duration (p # parts) = dec n @ unit @ print_duration parts" by (simp add: print_duration_def p)
  have hd: "\<not> is_digit (hd unit)" "unit \<noteq> []" using shape u by simp_all
  have d: "takeWhile is_digit (dec n @ unit @ x) = dec n" "dropWhile is_digit (dec n @ unit @ x) = unit @ x" for x
    using hd dec_digits by (cases unit; simp add: takeWhile_append2 dropWhile_append2)+
  have e: "takeWhile (\<lambda>c. \<not> is_digit c) (unit @ print_duration parts) = unit"
    "dropWhile (\<lambda>c. \<not> is_digit c) (unit @ print_duration parts) = print_duration parts"
    using shape(2) u digits_first [of parts]
    by (cases "print_duration parts"; simp add: takeWhile_append2 dropWhile_append2)+
  have step: "duration_loop t (print_duration (p # parts)) = duration_loop (wrap64 (t + wrap64 (int n * u))) (print_duration parts)"
    by (simp add: duration_loop.simps [of t] print d e u hd ParseInt64_dec [OF n] Let_def)
  have "duration_parts parts" using Cons.prems by (simp add: duration_parts_def)
  note ih = Cons.IH [OF this]
  show ?case unfolding step ih by (auto simp: parts_ns_def p u add.assoc [symmetric])
qed

text \<open>A duration reads back as the sum of its parts, as long as the sum fits 63 bits: every sequence of
  numbers and known units, printed without separators as RouterOS prints it, parses to its nanoseconds.\<close>

theorem parse_duration_roundtrip:
  assumes "duration_parts parts" and "parts \<noteq> []" and "parts_ns parts < 2 ^ 63"
  shows "ParseDuration (print_duration parts) = Inr (parts_ns parts)"
proof -
  have "print_duration parts \<noteq> []"
    using assms(2) by (cases parts) (auto simp: print_duration_def)
  moreover have "0 \<le> parts_ns parts"
  proof -
    have "0 \<le> the (durationUnits unit)" if "durationUnits unit \<noteq> None" for unit
      using that unfolding durationUnits_def by (auto split: if_splits)
    then show ?thesis
      using assms(1) unfolding parts_ns_def duration_parts_def by (intro sum_list_nonneg) (fastforce simp: list_all_iff)
  qed
  then have "wrap64 (parts_ns parts) = parts_ns parts"
    using assms(3) unfolding wrap64_def by (simp add: signed_of_int signed_take_bit_int_eq_self)
  ultimately show ?thesis
    using duration_loop_print [OF assms(1), of 0] assms(2) by (simp add: ParseDuration_def)
qed

theorem parse_duration_roundtrip_witness:
  "ParseDuration (print_duration [(4, ''w''), (6, ''d''), (44, ''m''), (990, ''ms'')]) =
     Inr (parts_ns [(4, ''w''), (6, ''d''), (44, ''m''), (990, ''ms'')])"
  by (rule parse_duration_roundtrip) code_simp+

end
