(* ===== verification/WireGuard.thy ===== *)
theory WireGuard
  imports NetIP GoText
begin

text \<open>
  The VPN tunnels: address allocation (\<open>services/wireguard_alloc.go\<close>), the checks on subnets, addresses and
  labels (\<open>wireguard_validate.go\<close>), the configurations handed to a site (\<open>wireguard_render.go\<close>), and the
  service that keeps the tunnel device in step with the database (\<open>wireguard_service.go\<close>, \<open>wireguard_peers.go\<close>).

  The kernel device and the encryption are parameters (\<open>wg_env\<close>).
\<close>

datatype wg_error =
    NoSubnets | BadSubnet | DefaultRoute | OverlapsTunnel | OverlapsReserved | OverlapsSite | NoFreeAddress
  | BadAddress | OutsideTunnel | ServersAddress | AddressTaken | BadKeepalive | BadHost | BadLabel
  | ErrServerNotConfigured | ErrPeerNotFound | NoSuchSite | KeyFailure | DecryptFailure | DuplicateRow | ApplyRefused

section \<open>Allocating a tunnel address\<close>

fun nextIP :: "ip \<Rightarrow> ip" where
  "nextIP (IP4 a) = IP4 (a + 1)"
| "nextIP (IP16 w) = IP16 (w + 1)"

fun broadcast :: "ipnet \<Rightarrow> ip" where
  "broadcast (Net4 a k) = IP4 (a OR Bit_Operations.mask (32 - k))"
| "broadcast (Net6 w k) = IP16 (w OR Bit_Operations.mask (128 - k))"

definition isBroadcast :: "ip \<Rightarrow> ipnet \<Rightarrow> bool" where
  "isBroadcast x n = ip_Equal x (broadcast n)"

definition parseCIDR :: "string \<Rightarrow> wg_error + ipnet" where
  "parseCIDR s = (case net_ParseCIDR s of None \<Rightarrow> Inl BadSubnet | Some n \<Rightarrow> Inr n)"

text \<open>The candidates from one address on. A network of \<open>k\<close> ones has \<open>2 ^ (bits - k)\<close> addresses, so that many
  rounds see them all.\<close>

fun alloc_loop :: "nat \<Rightarrow> ipnet \<Rightarrow> string set \<Rightarrow> ip \<Rightarrow> wg_error + string" where
  "alloc_loop 0 n used candidate = Inl NoFreeAddress"
| "alloc_loop (Suc k) n used candidate =
     (if \<not> net_Contains n candidate \<or> isBroadcast candidate n then Inl NoFreeAddress
      else if IPString candidate \<notin> used then Inr (IPString candidate)
      else alloc_loop k n used (nextIP candidate))"

definition net_rounds :: "ipnet \<Rightarrow> nat" where
  "net_rounds n = (case mask_size n of (ones, bits) \<Rightarrow> 2 ^ (bits - ones))"

definition AllocateTunnelAddress :: "string \<Rightarrow> string \<Rightarrow> string list \<Rightarrow> wg_error + string" where
  "AllocateTunnelAddress tunnelSubnet serverAddress taken =
     (case parseCIDR tunnelSubnet of
        Inl e \<Rightarrow> Inl e
      | Inr network \<Rightarrow>
          alloc_loop (net_rounds network) network (insert serverAddress (set taken)) (nextIP (net_ip network)))"

definition SuggestAllowedIPs :: "string list \<Rightarrow> string list" where
  "SuggestAllowedIPs oltAddresses =
     sort (remdups (map (\<lambda>a. AddrString4 (mask_to 24 a) @ ''/24'')
       (List.map_filter (\<lambda>s. case ParseIP s of None \<Rightarrow> None | Some x \<Rightarrow> To4 x) oltAddresses)))"

section \<open>The checks\<close>

record PeerNetwork =
  pn_PeerID :: uuid
  pn_AllowedIPs :: "string list"

definition networksOverlap :: "ipnet \<Rightarrow> ipnet \<Rightarrow> bool" where
  "networksOverlap a b \<longleftrightarrow> net_Contains a (net_ip b) \<or> net_Contains b (net_ip a)"

fun parse_candidates :: "string list \<Rightarrow> wg_error + ipnet list" where
  "parse_candidates [] = Inr []"
| "parse_candidates (entry # es) =
     (case parseCIDR entry of
        Inl e \<Rightarrow> Inl e
      | Inr n \<Rightarrow>
          if fst (mask_size n) = 0 \<and> snd (mask_size n) > 0 then Inl DefaultRoute
          else (case parse_candidates es of Inl e \<Rightarrow> Inl e | Inr ns \<Rightarrow> Inr (n # ns)))"

fun rejectOverlapWith :: "ipnet list \<Rightarrow> string list \<Rightarrow> wg_error \<Rightarrow> wg_error option" where
  "rejectOverlapWith candidate [] label = None"
| "rejectOverlapWith candidate (subnet # subnets) label =
     (case parseCIDR subnet of
        Inl e \<Rightarrow> Some e
      | Inr network \<Rightarrow>
          if list_ex (\<lambda>entry. networksOverlap entry network) candidate then Some label
          else rejectOverlapWith candidate subnets label)"

fun rejectOverlapWithPeer :: "ipnet list \<Rightarrow> string list \<Rightarrow> wg_error option" where
  "rejectOverlapWithPeer candidate [] = None"
| "rejectOverlapWithPeer candidate (entry # es) =
     (case parseCIDR entry of
        Inl _ \<Rightarrow> rejectOverlapWithPeer candidate es
      | Inr network \<Rightarrow>
          if list_ex (\<lambda>own. networksOverlap own network) candidate then Some OverlapsSite
          else rejectOverlapWithPeer candidate es)"

fun rejectOverlapWithPeers :: "ipnet list \<Rightarrow> PeerNetwork list \<Rightarrow> wg_error option" where
  "rejectOverlapWithPeers candidate [] = None"
| "rejectOverlapWithPeers candidate (p # ps) =
     (case rejectOverlapWithPeer candidate (pn_AllowedIPs p) of
        Some e \<Rightarrow> Some e
      | None \<Rightarrow> rejectOverlapWithPeers candidate ps)"

definition ValidateAllowedIPs :: "string list \<Rightarrow> PeerNetwork list \<Rightarrow> string \<Rightarrow> string list \<Rightarrow> wg_error option" where
  "ValidateAllowedIPs candidate others tunnelSubnet reserved =
     (if candidate = [] then Some NoSubnets
      else (case parse_candidates candidate of
              Inl e \<Rightarrow> Some e
            | Inr parsed \<Rightarrow>
                (case rejectOverlapWith parsed [tunnelSubnet] OverlapsTunnel of
                   Some e \<Rightarrow> Some e
                 | None \<Rightarrow>
                     (case rejectOverlapWith parsed reserved OverlapsReserved of
                        Some e \<Rightarrow> Some e
                      | None \<Rightarrow> rejectOverlapWithPeers parsed others))))"

definition ValidateTunnelAddress :: "string \<Rightarrow> string \<Rightarrow> string \<Rightarrow> string list \<Rightarrow> wg_error option" where
  "ValidateTunnelAddress address tunnelSubnet serverAddress taken =
     (case ParseIP address of
        None \<Rightarrow> Some BadAddress
      | Some x \<Rightarrow>
          (case parseCIDR tunnelSubnet of
             Inl e \<Rightarrow> Some e
           | Inr network \<Rightarrow>
               if \<not> net_Contains network x then Some OutsideTunnel
               else if address = serverAddress then Some ServersAddress
               else if list_ex (\<lambda>used. used = address) taken then Some AddressTaken
               else None))"

definition minKeepaliveSeconds :: int where "minKeepaliveSeconds = 10"
definition maxKeepaliveSeconds :: int where "maxKeepaliveSeconds = 120"

definition ValidateKeepalive :: "int \<Rightarrow> wg_error option" where
  "ValidateKeepalive seconds =
     (if seconds < minKeepaliveSeconds \<or> seconds > maxKeepaliveSeconds then Some BadKeepalive else None)"

definition is_alnum :: "char \<Rightarrow> bool" where
  "is_alnum c = (let n = of_char c in
     97 \<le> n \<and> n \<le> (122::nat) \<or> 65 \<le> n \<and> n \<le> 90 \<or> 48 \<le> n \<and> n \<le> 57)"

definition host_label :: "string \<Rightarrow> bool" where
  "host_label l \<longleftrightarrow>
     \<not> (length l = 0 \<or> length l > 63) \<and>
     list_all (\<lambda>i. is_alnum (l ! i) \<or> (l ! i = CHR ''-'' \<and> i > 0 \<and> i < length l - 1)) [0..<length l]"

definition trim_dot :: "string \<Rightarrow> string" where
  "trim_dot h = (if h \<noteq> [] \<and> last h = CHR ''.'' then butlast h else h)"

definition ValidateEndpointHost :: "string \<Rightarrow> wg_error option" where
  "ValidateEndpointHost host =
     (if ParseIP host \<noteq> None then None
      else if length host = 0 \<or> length host > 253 then Some BadHost
      else if list_all host_label (Split (trim_dot host) (CHR ''.'')) then None
      else Some BadHost)"

definition ValidateSiteLabel :: "str \<Rightarrow> wg_error option" where
  "ValidateSiteLabel name =
     (if list_ex (\<lambda>r. r = 10 \<or> r = 13 \<or> r < 0x20 \<or> r = 0x7F) name then Some BadLabel else None)"

section \<open>What a site is handed\<close>

definition MikroTikInterfaceName :: str where "MikroTikInterfaceName = lit ''wg-tikman''"
definition mikroTikListenPort :: int where "mikroTikListenPort = 13231"
definition mikroTikNATComment :: str where "mikroTikNATComment = lit ''TikMan VPN''"

record PeerConfigInput =
  ci_SiteName :: str
  ci_PeerPrivateKey :: str
  ci_PeerAddress :: str
  ci_ServerPublicKey :: str
  ci_EndpointHost :: str
  ci_TunnelSubnet :: str
  ci_ListenPort :: int
  ci_Keepalive :: int
  ci_AllowedIPs :: "str list"

definition sanitizeConfigValue :: "str \<Rightarrow> str" where
  "sanitizeConfigValue v = filter (\<lambda>r. \<not> (r = 10 \<or> r = 13 \<or> r < 0x20 \<or> r = 0x7F)) v"

definition configLabel :: "str \<Rightarrow> str" where
  "configLabel siteName =
     (if sanitizeConfigValue siteName = [] then mikroTikNATComment
      else mikroTikNATComment @ lit '' - '' @ sanitizeConfigValue siteName)"

text \<open>A backslash before a quote, a backslash and a dollar sign.\<close>

definition quote_special :: "nat \<Rightarrow> bool" where
  "quote_special r \<longleftrightarrow> r = 0x22 \<or> r = 0x5C \<or> r = 0x24"

definition mikrotikQuote :: "str \<Rightarrow> str" where
  "mikrotikQuote v =
     [0x22] @ concat (map (\<lambda>r. if quote_special r then [0x5C, r] else [r]) (sanitizeConfigValue v)) @ [0x22]"

text \<open>\<open>strings.SplitN(subnet, "/", 2)\<close>.\<close>

definition addressWithSubnetPrefix :: "str \<Rightarrow> str \<Rightarrow> str" where
  "addressWithSubnetPrefix address subnet =
     (if 0x2F \<notin> set subnet then address
      else address @ lit ''/'' @ drop 1 (dropWhile (\<lambda>r. r \<noteq> 0x2F) subnet))"

definition line :: "str \<Rightarrow> str" where
  "line s = s @ [10]"

definition RenderWGQuickConfig :: "PeerConfigInput \<Rightarrow> str" where
  "RenderWGQuickConfig i =
     line (lit ''# '' @ configLabel (ci_SiteName i)) @
     line (lit ''[Interface]'') @
     line (lit ''PrivateKey = '' @ ci_PeerPrivateKey i) @
     line (lit ''Address = '' @ addressWithSubnetPrefix (ci_PeerAddress i) (ci_TunnelSubnet i)) @
     line (lit ''PostUp = sysctl -w net.ipv4.ip_forward=1'') @
     line (lit ''PostUp = iptables -A FORWARD -i %i -j ACCEPT'') @
     line (lit ''PostUp = iptables -A FORWARD -o %i -m conntrack --ctstate ESTABLISHED,RELATED -j ACCEPT'') @
     concat (map (\<lambda>subnet. line (lit ''PostUp = iptables -t nat -A POSTROUTING -s '' @ ci_TunnelSubnet i @ lit '' -d '' @
       subnet @ lit '' -j MASQUERADE'')) (ci_AllowedIPs i)) @
     concat (map (\<lambda>subnet. line (lit ''PostDown = iptables -t nat -D POSTROUTING -s '' @ ci_TunnelSubnet i @ lit '' -d '' @
       subnet @ lit '' -j MASQUERADE'')) (ci_AllowedIPs i)) @
     line (lit ''PostDown = iptables -D FORWARD -i %i -j ACCEPT'') @
     line (lit ''PostDown = iptables -D FORWARD -o %i -m conntrack --ctstate ESTABLISHED,RELATED -j ACCEPT'') @
     line [] @
     line (lit ''[Peer]'') @
     line (lit ''PublicKey = '' @ ci_ServerPublicKey i) @
     line (lit ''Endpoint = '' @ sanitizeConfigValue (ci_EndpointHost i) @ lit '':'' @ fmt_int (ci_ListenPort i)) @
     line (lit ''AllowedIPs = '' @ ci_TunnelSubnet i) @
     line (lit ''PersistentKeepalive = '' @ fmt_int (ci_Keepalive i))"

definition RenderMikroTikConfig :: "PeerConfigInput \<Rightarrow> str" where
  "RenderMikroTikConfig i =
     (let label = configLabel (ci_SiteName i) in
     line (lit ''/ip/firewall/nat/remove [find comment~'' @ mikrotikQuote mikroTikNATComment @ lit '']'') @
     line (lit ''/interface/wireguard/peers/remove [find interface='' @ mikrotikQuote MikroTikInterfaceName @ lit '']'') @
     line (lit ''/ip/address/remove [find interface='' @ mikrotikQuote MikroTikInterfaceName @ lit '']'') @
     line (lit ''/interface/wireguard/remove [find name='' @ mikrotikQuote MikroTikInterfaceName @ lit '']'') @
     line [] @
     line (lit ''/interface/wireguard/add name='' @ MikroTikInterfaceName @ lit '' private-key='' @
       mikrotikQuote (ci_PeerPrivateKey i) @ lit '' listen-port='' @ fmt_int mikroTikListenPort @ lit '' comment='' @ mikrotikQuote label) @
     line (lit ''/ip/address/add address='' @ addressWithSubnetPrefix (ci_PeerAddress i) (ci_TunnelSubnet i) @
       lit '' interface='' @ MikroTikInterfaceName @ lit '' comment='' @ mikrotikQuote label) @
     line (lit ''/interface/wireguard/peers/add interface='' @ MikroTikInterfaceName @ lit '' public-key='' @
       mikrotikQuote (ci_ServerPublicKey i) @ lit '' endpoint-address='' @ mikrotikQuote (ci_EndpointHost i) @
       lit '' endpoint-port='' @ fmt_int (ci_ListenPort i) @ lit '' allowed-address='' @ ci_TunnelSubnet i @
       lit '' persistent-keepalive='' @ fmt_int (ci_Keepalive i) @ lit ''s comment='' @ mikrotikQuote label) @
     concat (map (\<lambda>subnet. line (lit ''/ip/firewall/nat/add chain=srcnat src-address='' @ ci_TunnelSubnet i @
       lit '' dst-address='' @ subnet @ lit '' action=masquerade comment='' @ mikrotikQuote label)) (ci_AllowedIPs i)))"

section \<open>The service\<close>

record server =
  ws_InterfaceName :: string
  ws_ListenPort :: int
  ws_PrivateKey :: string
  ws_PublicKey :: string
  ws_EndpointHost :: str
  ws_TunnelSubnet :: string
  ws_Address :: string

record peer =
  wp_ID :: uuid
  wp_SiteID :: uuid
  wp_Name :: str
  wp_PublicKey :: string
  wp_PrivateKey :: string
  wp_TunnelAddress :: string
  wp_AllowedIPs :: "string list"
  wp_Keepalive :: int
  wp_Enabled :: bool
  wp_LastHandshake :: "time option"
  wp_Rx :: int
  wp_Tx :: int

record TunnelPeerConfig =
  tp_PublicKey :: string
  tp_AllowedIPs :: "string list"
  tp_Keepalive :: duration

record TunnelConfig =
  tc_InterfaceName :: string
  tc_PrivateKey :: string
  tc_Address :: str
  tc_ListenPort :: int
  tc_Peers :: "TunnelPeerConfig list"

text \<open>The kernel's interface (\<open>connectivity.TunnelDevice\<close>), the encryption at rest, the networks this host
  already reaches and the database's collation.\<close>

record 'd wg_env =
  env_apply :: "TunnelConfig \<Rightarrow> 'd \<Rightarrow> bool \<times> 'd"
  env_encrypt :: "string \<Rightarrow> string"
  env_decrypt :: "string \<Rightarrow> string option"
  env_local_subnets :: "string \<Rightarrow> string list"
  env_rank :: "str \<Rightarrow> nat"

record 'd wg =
  wg_server :: "server option"
  wg_peers :: "peer list"
  wg_device :: 'd
  wg_pending :: bool

definition defaultKeepalive :: int where "defaultKeepalive = 25"

definition ListPeers :: "'d wg_env \<Rightarrow> 'd wg \<Rightarrow> peer list" where
  "ListPeers env w = sort_key (\<lambda>p. env_rank env (wp_Name p)) (wg_peers w)"

definition peer_config :: "peer \<Rightarrow> TunnelPeerConfig" where
  "peer_config p = \<lparr>tp_PublicKey = wp_PublicKey p, tp_AllowedIPs = wp_AllowedIPs p, tp_Keepalive = wp_Keepalive p * second\<rparr>"

definition tunnel_config :: "server \<Rightarrow> string \<Rightarrow> peer list \<Rightarrow> TunnelConfig" where
  "tunnel_config s key ps =
     \<lparr>tc_InterfaceName = ws_InterfaceName s, tc_PrivateKey = key,
      tc_Address = addressWithSubnetPrefix (lit (ws_Address s)) (lit (ws_TunnelSubnet s)), tc_ListenPort = ws_ListenPort s,
      tc_Peers = map peer_config (filter wp_Enabled ps)\<rparr>"

definition reconcileLocked :: "'d wg_env \<Rightarrow> 'd wg \<Rightarrow> wg_error option \<times> 'd wg" where
  "reconcileLocked env w =
     (case wg_server w of
        None \<Rightarrow> (None, w)
      | Some s \<Rightarrow>
          (case env_decrypt env (ws_PrivateKey s) of
             None \<Rightarrow> (Some DecryptFailure, w)
           | Some key \<Rightarrow>
               (case env_apply env (tunnel_config s key (ListPeers env w)) (wg_device w) of
                  (ok, d) \<Rightarrow>
                    if \<not> ok then (Some ApplyRefused, w\<lparr>wg_device := d, wg_pending := True\<rparr>)
                    else (None, w\<lparr>wg_device := d, wg_pending := False\<rparr>))))"

definition ReconcileIfPending :: "'d wg_env \<Rightarrow> 'd wg \<Rightarrow> wg_error option \<times> 'd wg" where
  "ReconcileIfPending env w = (if \<not> wg_pending w then (None, w) else reconcileLocked env w)"

text \<open>\<open>reconcileAfterRollback\<close>: the refusal stays the cause.\<close>

definition reconcileAfterRollback :: "'d wg_env \<Rightarrow> wg_error \<Rightarrow> 'd wg \<Rightarrow> wg_error \<times> 'd wg" where
  "reconcileAfterRollback env cause w = (cause, snd (reconcileLocked env w))"

text \<open>\<open>keypair\<close>: the generated public key and private key, or nothing when no key could be made.\<close>

definition EnsureServer :: "'d wg_env \<Rightarrow> str \<Rightarrow> (string \<times> string) option \<Rightarrow> 'd wg \<Rightarrow> (wg_error + server) \<times> 'd wg" where
  "EnsureServer env endpointHost keypair w =
     (case wg_server w of
        Some s \<Rightarrow> (Inr s, w)
      | None \<Rightarrow>
          (case keypair of
             None \<Rightarrow> (Inl KeyFailure, w)
           | Some (pub, priv) \<Rightarrow>
               (let s = \<lparr>ws_InterfaceName = ''wg0'', ws_ListenPort = 51820, ws_PrivateKey = env_encrypt env priv,
                        ws_PublicKey = pub, ws_EndpointHost = endpointHost, ws_TunnelSubnet = ''10.88.0.0/24'',
                        ws_Address = ''10.88.0.1''\<rparr>
                in case reconcileLocked env (w\<lparr>wg_server := Some s\<rparr>) of
                     (Some e, w') \<Rightarrow> (Inl e, w')
                   | (None, w') \<Rightarrow> (Inr s, w'))))"

definition UpdateServer :: "'d wg_env \<Rightarrow> string \<Rightarrow> int \<Rightarrow> 'd wg \<Rightarrow> (wg_error + server) \<times> 'd wg" where
  "UpdateServer env endpointHost listenPort w =
     (case wg_server w of
        None \<Rightarrow> (Inl ErrServerNotConfigured, w)
      | Some original \<Rightarrow>
          (case ValidateEndpointHost endpointHost of
             Some e \<Rightarrow> (Inl e, w)
           | None \<Rightarrow>
               (let s = original\<lparr>ws_EndpointHost := lit endpointHost, ws_ListenPort := listenPort\<rparr>
                in case reconcileLocked env (w\<lparr>wg_server := Some s\<rparr>) of
                     (None, w') \<Rightarrow> (Inr s, w')
                   | (Some e, w') \<Rightarrow>
                       (case reconcileAfterRollback env e (w'\<lparr>wg_server := Some original\<rparr>) of
                          (cause, w'') \<Rightarrow> (Inl cause, w'')))))"

definition peerNetworks :: "peer list \<Rightarrow> uuid \<Rightarrow> PeerNetwork list" where
  "peerNetworks peers exclude =
     map (\<lambda>p. \<lparr>pn_PeerID = wp_ID p, pn_AllowedIPs = wp_AllowedIPs p\<rparr>) (filter (\<lambda>p. wp_ID p \<noteq> exclude) peers)"

definition takenAddresses :: "peer list \<Rightarrow> string list" where
  "takenAddresses peers = map wp_TunnelAddress peers"

definition resolveNewPeerNetwork ::
  "'d wg_env \<Rightarrow> server \<Rightarrow> peer list \<Rightarrow> string list \<Rightarrow> string \<Rightarrow> wg_error + string" where
  "resolveNewPeerNetwork env s peers allowedIPs tunnelAddress =
     (case ValidateAllowedIPs allowedIPs (peerNetworks peers uuid_nil) (ws_TunnelSubnet s)
             (env_local_subnets env (ws_InterfaceName s)) of
        Some e \<Rightarrow> Inl e
      | None \<Rightarrow>
          (case (if tunnelAddress = [] then AllocateTunnelAddress (ws_TunnelSubnet s) (ws_Address s) (takenAddresses peers)
                 else Inr tunnelAddress) of
             Inl e \<Rightarrow> Inl e
           | Inr address \<Rightarrow>
               (case ValidateTunnelAddress address (ws_TunnelSubnet s) (ws_Address s) (takenAddresses peers) of
                  Some e \<Rightarrow> Inl e
                | None \<Rightarrow> Inr address)))"

definition newPeerRow ::
  "'d wg_env \<Rightarrow> uuid \<Rightarrow> uuid \<Rightarrow> str \<Rightarrow> string list \<Rightarrow> string \<Rightarrow> string \<times> string \<Rightarrow> peer" where
  "newPeerRow env i siteID name allowedIPs tunnelAddress keys =
     \<lparr>wp_ID = i, wp_SiteID = siteID, wp_Name = name, wp_PublicKey = fst keys, wp_PrivateKey = env_encrypt env (snd keys),
      wp_TunnelAddress = tunnelAddress, wp_AllowedIPs = allowedIPs, wp_Keepalive = defaultKeepalive, wp_Enabled = True,
      wp_LastHandshake = None, wp_Rx = 0, wp_Tx = 0\<rparr>"

text \<open>The table's primary key and its unique index on the address.\<close>

definition insert_peer :: "peer \<Rightarrow> 'd wg \<Rightarrow> wg_error + 'd wg" where
  "insert_peer p w =
     (if list_ex (\<lambda>q. wp_ID q = wp_ID p \<or> wp_TunnelAddress q = wp_TunnelAddress p) (wg_peers w) then Inl DuplicateRow
      else Inr (w\<lparr>wg_peers := wg_peers w @ [p]\<rparr>))"

definition delete_peer :: "uuid \<Rightarrow> 'd wg \<Rightarrow> 'd wg" where
  "delete_peer i w = w\<lparr>wg_peers := filter (\<lambda>p. wp_ID p \<noteq> i) (wg_peers w)\<rparr>"

definition save_peer :: "peer \<Rightarrow> 'd wg \<Rightarrow> 'd wg" where
  "save_peer p w = w\<lparr>wg_peers := map (\<lambda>q. if wp_ID q = wp_ID p then p else q) (wg_peers w)\<rparr>"

definition rollbackRejectedPeer :: "'d wg_env \<Rightarrow> uuid \<Rightarrow> wg_error \<Rightarrow> 'd wg \<Rightarrow> wg_error \<times> 'd wg" where
  "rollbackRejectedPeer env i cause w = reconcileAfterRollback env cause (delete_peer i w)"

text \<open>\<open>listed\<close> is the peer list this request read: another request may have added a peer since, for the mutex
  covers the reconciliation only.\<close>

definition CreatePeer ::
  "'d wg_env \<Rightarrow> uuid set \<Rightarrow> uuid \<Rightarrow> uuid \<Rightarrow> str \<Rightarrow> string list \<Rightarrow> string \<Rightarrow> (string \<times> string) option \<Rightarrow> peer list
    \<Rightarrow> 'd wg \<Rightarrow> (wg_error + peer) \<times> 'd wg" where
  "CreatePeer env sites i siteID name allowedIPs tunnelAddress keypair listed w =
     (case wg_server w of
        None \<Rightarrow> (Inl ErrServerNotConfigured, w)
      | Some s \<Rightarrow>
          if siteID \<notin> sites then (Inl NoSuchSite, w)
          else (case ValidateSiteLabel name of
            Some e \<Rightarrow> (Inl e, w)
          | None \<Rightarrow>
              (case resolveNewPeerNetwork env s listed allowedIPs tunnelAddress of
                 Inl e \<Rightarrow> (Inl e, w)
               | Inr address \<Rightarrow>
                   (case keypair of
                      None \<Rightarrow> (Inl KeyFailure, w)
                    | Some keys \<Rightarrow>
                        (let p = newPeerRow env i siteID name allowedIPs address keys
                         in case insert_peer p w of
                              Inl e \<Rightarrow> (Inl e, w)
                            | Inr w1 \<Rightarrow>
                                (case reconcileLocked env w1 of
                                   (None, w2) \<Rightarrow> (Inr p, w2)
                                 | (Some e, w2) \<Rightarrow>
                                     (case rollbackRejectedPeer env i e w2 of (cause, w3) \<Rightarrow> (Inl cause, w3))))))))"

definition restorePeer :: "'d wg_env \<Rightarrow> peer \<Rightarrow> wg_error \<Rightarrow> 'd wg \<Rightarrow> wg_error \<times> 'd wg" where
  "restorePeer env original cause w = reconcileAfterRollback env cause (save_peer original w)"

definition UpdatePeer ::
  "'d wg_env \<Rightarrow> uuid \<Rightarrow> str option \<Rightarrow> string list option \<Rightarrow> bool option \<Rightarrow> 'd wg \<Rightarrow> (wg_error + peer) \<times> 'd wg" where
  "UpdatePeer env i name allowedIPs enabled w =
     (case wg_server w of
        None \<Rightarrow> (Inl ErrServerNotConfigured, w)
      | Some s \<Rightarrow>
          (case List.find (\<lambda>p. wp_ID p = i) (wg_peers w) of
             None \<Rightarrow> (Inl ErrPeerNotFound, w)
           | Some original \<Rightarrow>
               (case (case allowedIPs of
                        None \<Rightarrow> None
                      | Some ips \<Rightarrow> ValidateAllowedIPs ips (peerNetworks (ListPeers env w) i) (ws_TunnelSubnet s)
                                     (env_local_subnets env (ws_InterfaceName s))) of
                  Some e \<Rightarrow> (Inl e, w)
                | None \<Rightarrow>
                    (case (case name of None \<Rightarrow> None | Some n \<Rightarrow> ValidateSiteLabel n) of
                       Some e \<Rightarrow> (Inl e, w)
                     | None \<Rightarrow>
                         (let p = original\<lparr>wp_AllowedIPs := (case allowedIPs of None \<Rightarrow> wp_AllowedIPs original | Some ips \<Rightarrow> ips),
                                           wp_Name := (case name of None \<Rightarrow> wp_Name original | Some n \<Rightarrow> n),
                                           wp_Enabled := (case enabled of None \<Rightarrow> wp_Enabled original | Some b \<Rightarrow> b)\<rparr>
                          in case reconcileLocked env (save_peer p w) of
                               (None, w') \<Rightarrow> (Inr p, w')
                             | (Some e, w') \<Rightarrow>
                                 (case restorePeer env original e w' of (cause, w'') \<Rightarrow> (Inl cause, w'')))))))"

definition DeletePeer :: "'d wg_env \<Rightarrow> uuid \<Rightarrow> 'd wg \<Rightarrow> wg_error option \<times> 'd wg" where
  "DeletePeer env i w = reconcileLocked env (delete_peer i w)"

record TunnelPeerStatus =
  st_PublicKey :: string
  st_LastHandshake :: "time option"
  st_Rx :: int
  st_Tx :: int

definition store_status :: "TunnelPeerStatus \<Rightarrow> peer \<Rightarrow> peer" where
  "store_status st p =
     (if wp_PublicKey p = st_PublicKey st
      then p\<lparr>wp_LastHandshake := st_LastHandshake st, wp_Rx := st_Rx st, wp_Tx := st_Tx st\<rparr> else p)"

text \<open>\<open>statuses\<close>: what the device reports, or nothing when it cannot be read.\<close>

definition RefreshStatus :: "TunnelPeerStatus list option \<Rightarrow> 'd wg \<Rightarrow> bool \<times> 'd wg" where
  "RefreshStatus statuses w =
     (if wg_server w = None then (True, w)
      else (case statuses of
              None \<Rightarrow> (False, w)
            | Some sts \<Rightarrow> (True, w\<lparr>wg_peers := fold (\<lambda>st. map (store_status st)) sts (wg_peers w)\<rparr>)))"

text \<open>\<open>PeerConfig\<close>: \<open>format\<close> is true for wg-quick, false for MikroTik.\<close>

definition PeerConfig :: "'d wg_env \<Rightarrow> uuid \<Rightarrow> bool \<Rightarrow> 'd wg \<Rightarrow> wg_error + str" where
  "PeerConfig env i wgquick w =
     (case wg_server w of
        None \<Rightarrow> Inl ErrServerNotConfigured
      | Some s \<Rightarrow>
          (case List.find (\<lambda>p. wp_ID p = i) (wg_peers w) of
             None \<Rightarrow> Inl ErrPeerNotFound
           | Some p \<Rightarrow>
               (case env_decrypt env (wp_PrivateKey p) of
                  None \<Rightarrow> Inl DecryptFailure
                | Some key \<Rightarrow>
                    (let i = \<lparr>ci_SiteName = wp_Name p, ci_PeerPrivateKey = lit key, ci_PeerAddress = lit (wp_TunnelAddress p),
                             ci_ServerPublicKey = lit (ws_PublicKey s), ci_EndpointHost = ws_EndpointHost s,
                             ci_TunnelSubnet = lit (ws_TunnelSubnet s), ci_ListenPort = ws_ListenPort s,
                             ci_Keepalive = wp_Keepalive p, ci_AllowedIPs = map lit (wp_AllowedIPs p)\<rparr>
                     in Inr (if wgquick then RenderWGQuickConfig i else RenderMikroTikConfig i)))))"

section \<open>Overlap of networks\<close>

text \<open>The overlap test is exact: two networks overlap when some address lies in both.\<close>

lemma networksOverlap_iff: "networksOverlap a b \<longleftrightarrow> (\<exists>x. net_Contains a x \<and> net_Contains b x)"
proof
  assume "networksOverlap a b"
  then show "\<exists>x. net_Contains a x \<and> net_Contains b x"
    using net_Contains_self by (auto simp: networksOverlap_def)
next
  assume "\<exists>x. net_Contains a x \<and> net_Contains b x"
  then obtain x where x: "net_Contains a x" "net_Contains b x" by blast
  show "networksOverlap a b"
  proof (cases "nn_mask a")
    case (Inl p)
    obtain v j where a: "nn_mask a = Inl (v, j)" using Inl by (metis prod.collapse)
    obtain y where y: "To4 x = Some y" "mask_to j y = mask_to j v"
      using x(1) a by (auto simp: net_Contains_def split: option.splits)
    then obtain w k where b: "nn_mask b = Inl (w, k)" "mask_to k y = mask_to k w"
      using x(2) by (auto simp: net_Contains_def split: sum.splits option.splits)
    have ips: "To4 (net_ip a) = Some v" "To4 (net_ip b) = Some w"
      using a b(1) by (cases a; cases b; auto simp: nn_mask_def split: option.splits if_splits)+
    show ?thesis
    proof (cases "j \<le> k")
      case True
      then have "mask_to j w = mask_to j v" using mask_to_narrow b(2) y(2) by metis
      then show ?thesis using a ips by (simp add: networksOverlap_def net_Contains_def)
    next
      case False
      then have "mask_to k v = mask_to k w" using mask_to_narrow [of k j] b(2) y(2) by (metis nat_le_linear)
      then show ?thesis using b(1) ips by (simp add: networksOverlap_def net_Contains_def)
    qed
  next
    case (Inr p)
    obtain v j where a: "nn_mask a = Inr (v, j)" using Inr by (metis prod.collapse)
    have y: "To4 x = None" "mask_to j (As16 x) = mask_to j v"
      using x(1) a by (auto simp: net_Contains_def split: option.splits)
    then obtain w k where b: "nn_mask b = Inr (w, k)" "mask_to k (As16 x) = mask_to k w"
      using x(2) by (auto simp: net_Contains_def split: sum.splits option.splits)
    have ips: "To4 (net_ip a) = None" "To4 (net_ip b) = None" "As16 (net_ip a) = v" "As16 (net_ip b) = w"
      using a b(1) by (cases a; cases b; auto simp: nn_mask_def split: option.splits if_splits)+
    show ?thesis
    proof (cases "j \<le> k")
      case True
      then have "mask_to j w = mask_to j v" using mask_to_narrow b(2) y(2) by metis
      then show ?thesis using a ips by (simp add: networksOverlap_def net_Contains_def)
    next
      case False
      then have "mask_to k v = mask_to k w" using mask_to_narrow [of k j] b(2) y(2) by (metis nat_le_linear)
      then show ?thesis using b(1) ips by (simp add: networksOverlap_def net_Contains_def)
    qed
  qed
qed

text \<open>The addresses a list of subnets covers; an entry that does not parse covers none.\<close>

definition covers :: "string list \<Rightarrow> ip set" where
  "covers es = {x. \<exists>e \<in> set es. \<exists>n. net_ParseCIDR e = Some n \<and> net_Contains n x}"

definition routable :: "string \<Rightarrow> bool" where
  "routable e \<longleftrightarrow> (case net_ParseCIDR e of None \<Rightarrow> False | Some n \<Rightarrow> fst (mask_size n) \<noteq> 0)"

lemma covers_Nil [simp]: "covers [] = {}"
  and covers_Cons: "covers (e # es) = covers [e] \<union> covers es"
  by (auto simp: covers_def)

lemma covers_one: "covers [e] = (case net_ParseCIDR e of None \<Rightarrow> {} | Some n \<Rightarrow> {x. net_Contains n x})"
  by (auto simp: covers_def split: option.splits)

lemma mask_size_bits: "0 < snd (mask_size n)"
  by (cases n) simp_all

lemma parseCIDR_None: "net_ParseCIDR e = None \<Longrightarrow> parseCIDR e = Inl BadSubnet"
  and parseCIDR_Some: "net_ParseCIDR e = Some n \<Longrightarrow> parseCIDR e = Inr n"
  by (simp_all add: parseCIDR_def)

lemma routable_None: "net_ParseCIDR e = None \<Longrightarrow> \<not> routable e"
  and routable_Some: "net_ParseCIDR e = Some n \<Longrightarrow> routable e \<longleftrightarrow> fst (mask_size n) \<noteq> 0"
  by (simp_all add: routable_def)

lemma parse_candidates_iff:
  "parse_candidates c = Inr ns \<longleftrightarrow> list_all routable c \<and> ns = map (\<lambda>e. the (net_ParseCIDR e)) c"
proof (induction c arbitrary: ns)
  case (Cons e c)
  show ?case
  proof (cases "net_ParseCIDR e")
    case None
    then show ?thesis by (simp add: parseCIDR_None routable_None)
  next
    case (Some n)
    show ?thesis
    proof (cases "parse_candidates c")
      case (Inl err)
      then have "\<not> list_all routable c" using Cons.IH by auto
      then show ?thesis using Inl Some by (simp add: parseCIDR_Some)
    next
      case (Inr ms)
      then have "list_all routable c \<and> ms = map (\<lambda>e. the (net_ParseCIDR e)) c" using Cons.IH by blast
      then show ?thesis using Inr Some mask_size_bits [of n] by (auto simp: parseCIDR_Some routable_Some [OF Some])
    qed
  qed
qed auto

lemma routable_parses: "routable e \<Longrightarrow> net_ParseCIDR e = Some (the (net_ParseCIDR e))"
  by (simp add: routable_def split: option.splits)

lemma overlap_candidates:
  assumes "list_all routable c"
  shows "list_ex (\<lambda>own. networksOverlap own n) (map (\<lambda>e. the (net_ParseCIDR e)) c) \<longleftrightarrow> covers c \<inter> {x. net_Contains n x} \<noteq> {}"
proof -
  have "covers c = {x. \<exists>e \<in> set c. net_Contains (the (net_ParseCIDR e)) x}"
    using assms routable_parses unfolding covers_def list_all_iff by (metis (no_types, lifting) option.sel)
  then show ?thesis unfolding list_ex_iff networksOverlap_iff by auto
qed

lemma rejectOverlapWith_iff:
  assumes "list_all routable c"
  shows "rejectOverlapWith (map (\<lambda>e. the (net_ParseCIDR e)) c) subnets label = None \<longleftrightarrow>
     list_all (\<lambda>e. net_ParseCIDR e \<noteq> None) subnets \<and> covers c \<inter> covers subnets = {}"
proof (induction subnets)
  case (Cons e es)
  show ?case
  proof (cases "net_ParseCIDR e")
    case None
    then show ?thesis by (simp add: parseCIDR_None)
  next
    case (Some n)
    have "covers c \<inter> covers (e # es) = {} \<longleftrightarrow> covers c \<inter> {x. net_Contains n x} = {} \<and> covers c \<inter> covers es = {}"
      unfolding covers_Cons [of e es] covers_one Some by auto
    then show ?thesis using overlap_candidates [OF assms, of n] Cons.IH by (simp add: Some parseCIDR_Some [OF Some])
  qed
qed simp

lemma rejectOverlapWithPeer_iff:
  assumes "list_all routable c"
  shows "rejectOverlapWithPeer (map (\<lambda>e. the (net_ParseCIDR e)) c) es = None \<longleftrightarrow> covers c \<inter> covers es = {}"
proof (induction es)
  case (Cons e es)
  show ?case
  proof (cases "net_ParseCIDR e")
    case None
    then show ?thesis using Cons.IH unfolding covers_Cons [of e es] covers_one None by (simp add: parseCIDR_None [OF None])
  next
    case (Some n)
    have "covers c \<inter> covers (e # es) = {} \<longleftrightarrow> covers c \<inter> {x. net_Contains n x} = {} \<and> covers c \<inter> covers es = {}"
      unfolding covers_Cons [of e es] covers_one Some by auto
    then show ?thesis using overlap_candidates [OF assms, of n] Cons.IH by (simp add: Some parseCIDR_Some [OF Some])
  qed
qed simp

lemma rejectOverlapWithPeers_iff:
  assumes "list_all routable c"
  shows "rejectOverlapWithPeers (map (\<lambda>e. the (net_ParseCIDR e)) c) ps = None \<longleftrightarrow>
     list_all (\<lambda>p. covers c \<inter> covers (pn_AllowedIPs p) = {}) ps"
  by (induction ps) (simp_all add: rejectOverlapWithPeer_iff [OF assms, symmetric] split: option.splits)

lemma validate_iff:
  "ValidateAllowedIPs candidate others tunnelSubnet reserved = None \<longleftrightarrow>
     candidate \<noteq> [] \<and> list_all routable candidate \<and> list_all (\<lambda>e. net_ParseCIDR e \<noteq> None) (tunnelSubnet # reserved) \<and>
     covers candidate \<inter> covers (tunnelSubnet # reserved) = {} \<and>
     list_all (\<lambda>p. covers candidate \<inter> covers (pn_AllowedIPs p) = {}) others"
proof (cases "list_all routable candidate")
  case True
  then have parse: "parse_candidates candidate = Inr (map (\<lambda>e. the (net_ParseCIDR e)) candidate)"
    by (simp add: parse_candidates_iff)
  have "covers candidate \<inter> covers (tunnelSubnet # reserved) = {} \<longleftrightarrow>
      covers candidate \<inter> covers [tunnelSubnet] = {} \<and> covers candidate \<inter> covers reserved = {}"
    unfolding covers_Cons [of tunnelSubnet reserved] by auto
  then show ?thesis
    using rejectOverlapWith_iff [OF True, of "[tunnelSubnet]" OverlapsTunnel] rejectOverlapWith_iff [OF True, of reserved OverlapsReserved]
      rejectOverlapWithPeers_iff [OF True, of others] True parse
    by (auto simp: ValidateAllowedIPs_def split: option.splits)
next
  case False
  then have "\<nexists>ns. parse_candidates candidate = Inr ns" by (simp add: parse_candidates_iff)
  then obtain e where "parse_candidates candidate = Inl e" by (cases "parse_candidates candidate") auto
  then show ?thesis using False by (simp add: ValidateAllowedIPs_def)
qed

text \<open>The subnet check is exact: a site's subnets are accepted just when there is one, each parses and is no
  default route, and no address lies both in them and in the tunnel subnet, in a network the host
  already reaches, or in a subnet of another site.\<close>

theorem allowed_ips_exact:
  "ValidateAllowedIPs candidate others tunnelSubnet reserved = None \<longleftrightarrow>
     candidate \<noteq> [] \<and> list_all routable candidate \<and> list_all (\<lambda>e. net_ParseCIDR e \<noteq> None) (tunnelSubnet # reserved) \<and>
     covers candidate \<inter> covers (tunnelSubnet # reserved) = {} \<and>
     list_all (\<lambda>p. covers candidate \<inter> covers (pn_AllowedIPs p) = {}) others"
  by (rule validate_iff)

section \<open>The allocated address\<close>

lemma parsed_Net4:
  assumes "net_ParseCIDR s = Some (Net4 a k)"
  shows "mask_to k a = a" and "k \<le> 32"
  using assms by (auto simp: net_ParseCIDR_def split: prod.splits if_splits option.splits ip.splits)

lemma IPString_4 [simp]: "IPString (IP4 a) = AddrString4 a"
  by (simp add: IPString_def)

lemma As16_inj [simp]: "As16 (IP4 a) = As16 (IP4 b) \<longleftrightarrow> a = b"
proof
  assume "As16 (IP4 a) = As16 (IP4 b)"
  then have e: "bit (push_bit 32 0xFFFF OR ucast a :: 128 word) i = bit (push_bit 32 0xFFFF OR ucast b :: 128 word) i" for i
    by simp
  show "a = b"
  proof (rule bit_word_eqI)
    fix i assume i: "i < LENGTH(32)"
    then show "bit a i = bit b i" using e [of i] by (simp add: bit_or_iff bit_push_bit_iff bit_unsigned_iff del: push_bit_numeral push_bit_of_nat)
  qed
qed simp

text \<open>An IPv4 network is the interval from its number to its broadcast address.\<close>

lemma Net4_interval:
  assumes "mask_to k a = a" "k \<le> 32"
  shows "net_Contains (Net4 a k) (IP4 c) \<longleftrightarrow> unat a \<le> unat c \<and> unat c \<le> unat (a OR mask (32 - k))"
    and "unat (a OR mask (32 - k)) = unat a + (2 ^ (32 - k) - 1)"
proof -
  have high: "high_addr k a = a OR mask (32 - k)"
    unfolding high_addr_def push_bit_one_minus assms(1) ..
  have low: "low_addr k a = a" by (simp add: low_addr_def assms(1))
  have "net_Contains (Net4 a k) (IP4 c) \<longleftrightarrow> NetAddr.Contains (Prefix (V4 a) k) (V4 c)"
    unfolding Contains_masked using assms(2) by (simp add: net_Contains_def nn_mask_def)
  then show "net_Contains (Net4 a k) (IP4 c) \<longleftrightarrow> unat a \<le> unat c \<and> unat c \<le> unat (a OR mask (32 - k))"
    using Contains_interval [OF assms(2), of a c] by (simp add: low high word_le_nat_alt)
  have "unat a = unat a div 2 ^ (32 - k) * 2 ^ (32 - k)"
    using unat_mask_to [of k a] assms(1) by simp
  then show "unat (a OR mask (32 - k)) = unat a + (2 ^ (32 - k) - 1)"
    using unat_high_addr [of k a] unfolding high by simp
qed

definition hosts :: "u32 \<Rightarrow> u32 \<Rightarrow> string set" where
  "hosts lo hi = AddrString4 ` {v. lo < v \<and> v < hi}"

lemma unat_next: "unat (v::u32) < unat (w::u32) \<Longrightarrow> unat (v + 1) = unat v + 1"
  using unat_less [of w] by (simp add: unat_word_ariths)

lemma hosts_step: "lo < v \<Longrightarrow> unat v < unat (w::u32) \<Longrightarrow> hosts lo (v + 1) = insert (AddrString4 v) (hosts lo v)"
proof -
  assume v: "lo < v" and w: "unat v < unat w"
  have "unat (v + 1) = unat v + 1" using unat_next [OF w] .
  then have "x < v + 1 \<longleftrightarrow> x < v \<or> x = v" for x
    by (auto simp: word_less_nat_alt less_Suc_eq word_unat_eq_iff)
  then have "{x. lo < x \<and> x < v + 1} = insert v {x. lo < x \<and> x < v}" using v by auto
  then show ?thesis by (simp add: hosts_def)
qed

definition alloc_ok :: "u32 \<Rightarrow> u32 \<Rightarrow> string set \<Rightarrow> wg_error + string \<Rightarrow> bool" where
  "alloc_ok lo hi used r =
     (case r of
        Inr s \<Rightarrow> (\<exists>v. s = AddrString4 v \<and> lo < v \<and> v < hi \<and> s \<notin> used \<and> hosts lo v \<subseteq> used)
      | Inl e \<Rightarrow> e = NoFreeAddress \<and> hosts lo hi \<subseteq> used)"

lemma alloc_loop_ok:
  assumes net: "mask_to k a = a" "k \<le> 32"
  defines "bc \<equiv> a OR mask (32 - k)"
  shows "a < c \<Longrightarrow> c \<le> bc \<Longrightarrow> hosts a c \<subseteq> used \<Longrightarrow> unat bc - unat c < fuel \<Longrightarrow>
    alloc_ok a bc used (alloc_loop fuel (Net4 a k) used (IP4 c))"
proof (induction fuel arbitrary: c)
  case 0
  then show ?case by simp
next
  case (Suc fuel)
  have inside: "net_Contains (Net4 a k) (IP4 c)"
    using Net4_interval(1) [OF net, of c] Suc.prems(1,2) by (simp add: bc_def word_le_nat_alt word_less_nat_alt)
  have bcast: "isBroadcast (IP4 c) (Net4 a k) \<longleftrightarrow> c = bc"
    by (simp only: isBroadcast_def ip_Equal_def broadcast.simps As16_inj bc_def)
  show ?case
  proof (cases "c = bc")
    case True
    then show ?thesis using Suc.prems(3) bcast by (simp add: alloc_ok_def)
  next
    case ne: False
    then have lt: "c < bc" using Suc.prems(2) by simp
    show ?thesis
    proof (cases "AddrString4 c \<in> used")
      case False
      then show ?thesis using inside bcast ne Suc.prems(1,3) lt by (auto simp: alloc_ok_def)
    next
      case True
      have ult: "unat c < unat bc" using lt by (simp add: word_less_nat_alt)
      then have next_c: "unat (c + 1) = unat c + 1"
        by (rule unat_next)
      have "alloc_ok a bc used (alloc_loop fuel (Net4 a k) used (IP4 (c + 1)))"
        using Suc.prems ult next_c True hosts_step [OF Suc.prems(1) ult]
        by (intro Suc.IH) (simp_all add: word_less_nat_alt word_le_nat_alt)
      then show ?thesis using inside bcast ne True by simp
    qed
  qed
qed

text \<open>The allocated tunnel address is the lowest host of the subnet that is free: strictly between the
  network and the broadcast address, not the server's, not a peer's, every lower host being taken; and
  allocation fails only when every host is. The loop always ends.\<close>

theorem allocates_lowest_free:
  "case net_ParseCIDR tunnelSubnet of
     Some (Net4 a k) \<Rightarrow> alloc_ok a (a OR mask (32 - k)) (insert serverAddress (set taken))
       (AllocateTunnelAddress tunnelSubnet serverAddress taken)
   | Some (Net6 w k) \<Rightarrow> True
   | None \<Rightarrow> AllocateTunnelAddress tunnelSubnet serverAddress taken = Inl BadSubnet"
proof (cases "net_ParseCIDR tunnelSubnet")
  case None
  then show ?thesis by (simp add: AllocateTunnelAddress_def parseCIDR_None)
next
  case (Some n)
  show ?thesis
  proof (cases n)
    case (Net6 w k)
    then show ?thesis using Some by simp
  next
    case (Net4 a k)
    let ?used = "insert serverAddress (set taken)" and ?bc = "a OR mask (32 - k)"
    note net = parsed_Net4 [OF Some [unfolded Net4]]
    note size = Net4_interval(2) [OF net]
    have alloc: "AllocateTunnelAddress tunnelSubnet serverAddress taken = alloc_loop (2 ^ (32 - k)) (Net4 a k) ?used (IP4 (a + 1))"
      using Some Net4 by (simp add: AllocateTunnelAddress_def parseCIDR_Some net_rounds_def)
    have "alloc_ok a ?bc ?used (alloc_loop (2 ^ (32 - k)) (Net4 a k) ?used (IP4 (a + 1)))"
    proof (cases "k = 32")
      case True
      then have bc: "?bc = a" by simp
      have "a + 1 \<noteq> a" by simp
      then have "\<not> net_Contains (Net4 a k) (IP4 (a + 1))"
        using Net4_interval(1) [OF net, of "a + 1"] bc by (auto simp: word_unat_eq_iff)
      moreover have "hosts a a = {}" by (auto simp: hosts_def)
    ultimately show ?thesis using True by (simp add: alloc_ok_def)
    next
      case False
      then have "2 \<le> (2::nat) ^ (32 - k)" using net(2) by (simp add: self_le_power)
      then have B: "unat a + 1 \<le> unat ?bc" using size by simp
      then have next_a: "unat (a + 1) = unat a + 1"
        by (intro unat_next [of a ?bc]) simp
      have "hosts a (a + 1) = {}"
        using next_a by (auto simp: hosts_def word_less_nat_alt)
      then show ?thesis
        using next_a B size by (intro alloc_loop_ok [OF net]) (simp_all add: word_less_nat_alt word_le_nat_alt)
    qed
    then show ?thesis using Some Net4 alloc by simp
  qed
qed

section \<open>What the site's router reads\<close>

text \<open>How RouterOS reads a string literal: a backslash takes the next character as it is, a quote ends the
  text, and a bare dollar sign would be a variable, so it is no literal.\<close>

fun literal_body :: "str \<Rightarrow> (str \<times> str) option" where
  "literal_body [] = None"
| "literal_body (r # s) =
     (if r = 0x22 then Some ([], s)
      else if r = 0x24 then None
      else if r = 0x5C then (case s of [] \<Rightarrow> None | c # t \<Rightarrow> map_option (map_prod ((#) c) id) (literal_body t))
      else map_option (map_prod ((#) r) id) (literal_body s))"

definition read_literal :: "str \<Rightarrow> (str \<times> str) option" where
  "read_literal s = (case s of [] \<Rightarrow> None | r # t \<Rightarrow> if r = 0x22 then literal_body t else None)"

lemma literal_body_quoted:
  "literal_body (concat (map (\<lambda>r. if quote_special r then [0x5C, r] else [r]) v) @ 0x22 # rest) = Some (v, rest)"
  by (induction v) (auto simp: quote_special_def)

text \<open>A value put into a RouterOS command is read back as that value, less its control characters, with the
  rest of the command untouched: no site name, key or host can end the literal, start another command or
  name a variable.\<close>

theorem mikrotik_quote_roundtrip:
  "read_literal (mikrotikQuote v @ rest) = Some (sanitizeConfigValue v, rest)"
  using literal_body_quoted [of "sanitizeConfigValue v" rest]
  by (simp add: read_literal_def mikrotikQuote_def)

text \<open>What an accepted subnet can look like.\<close>

definition subnet_char :: "char \<Rightarrow> bool" where
  "subnet_char c \<longleftrightarrow> is_hex c \<or> c = CHR ''.'' \<or> c = CHR '':'' \<or> c = CHR ''/''"

lemma digit_is_hex: "is_digit c \<Longrightarrow> is_hex c"
  by (simp add: is_hex_def hex_val_def is_digit_iff Let_def)

lemma Split_chars: "c \<in> set s \<Longrightarrow> c = sep \<or> (\<exists>t \<in> set (Split s sep). c \<in> set t)"
proof (induction s)
  case (Cons d s)
  obtain t ts where sp: "Split s sep = t # ts" using Split_not_Nil by (cases "Split s sep") auto
  then show ?case using Cons by (cases "d = sep") auto
qed simp

lemma parse_octet_chars: "parse_octet s = Some n \<Longrightarrow> c \<in> set s \<Longrightarrow> is_digit c"
  by (auto simp: parse_octet_def list_all_iff split: if_splits)

lemma ParseAddr4_chars: "ParseAddr4 s = Some a \<Longrightarrow> c \<in> set s \<Longrightarrow> subnet_char c"
proof -
  assume p: "ParseAddr4 s = Some a" and c: "c \<in> set s"
  from p obtain t u v w where "Split s (CHR ''.'') = [t, u, v, w]" "parse_octet t \<noteq> None" "parse_octet u \<noteq> None"
    "parse_octet v \<noteq> None" "parse_octet w \<noteq> None"
    by (auto simp: ParseAddr4_def split: list.splits option.splits)
  then have "c = CHR ''.'' \<or> is_digit c"
    using Split_chars [OF c, of "CHR ''.''"] parse_octet_chars by auto
  then show ?thesis using digit_is_hex by (auto simp: subnet_char_def)
qed

lemma span_chars: "c \<in> set s \<Longrightarrow> is_hex c \<or> c \<in> set (dropWhile is_hex s)"
  by (induction s) auto

lemma v6_loop_chars:
  "v6_loop k ell bs s = Some (ell', bs', s') \<Longrightarrow> c \<in> set s \<Longrightarrow> subnet_char c \<or> c \<in> set s'"
proof (induction k ell bs s rule: v6_loop.induct)
  case (1 ell bs s)
  then show ?case by simp
next
  case (2 k ell bs s)
  let ?rest = "dropWhile is_hex s"
  from "2.prems"(1) have ok: "\<not> (takeWhile is_hex s = [] \<or> length (takeWhile is_hex s) > 4)"
    by (auto simp: Let_def split: if_splits)
  consider "is_hex c" | "c \<in> set ?rest" using span_chars "2.prems"(2) by blast
  then show ?case
  proof cases
    case 1
    then show ?thesis by (simp add: subnet_char_def)
  next
    case inrest: 2
    then obtain d t where rest: "?rest = d # t" by (cases ?rest) auto
    show ?thesis
    proof (cases "d = CHR ''.''")
      case True
      then show ?thesis using "2.prems" ok rest ParseAddr4_chars
        by (auto simp: Let_def split: if_splits option.splits)
    next
      case False
      then show ?thesis
        using "2.prems"(1) "2.IH" [OF refl refl ok] ok rest inrest
        by (cases t) (auto simp: Let_def subnet_char_def split: if_splits)
    qed
  qed
qed

lemma parse_v6_chars: "parse_v6 s = Some w \<Longrightarrow> c \<in> set s \<Longrightarrow> subnet_char c"
proof -
  assume p: "parse_v6 s = Some w" and c: "c \<in> set s"
  have colon: "subnet_char (CHR '':'')" by (simp add: subnet_char_def)
  show "subnet_char c"
  proof (cases "take 2 s = ''::''")
    case True
    then have "s = ''::'' @ drop 2 s" by (metis append_take_drop_id)
    then have cs: "c = CHR '':'' \<or> c \<in> set (drop 2 s)" using c by (metis Un_iff empty_iff list.set insert_iff set_append)
    show ?thesis
    proof (cases "length s = 2")
      case True
      then show ?thesis using cs colon by auto
    next
      case False
      then obtain ell bs s' where "v6_loop 8 (Some 0) [] (drop 2 s) = Some (ell, bs, s')" "v6_finish (ell, bs, s') \<noteq> None"
        using p \<open>take 2 s = ''::''\<close> by (auto simp: parse_v6_def split: option.splits)
      then show ?thesis using cs colon v6_loop_chars by (fastforce simp: v6_finish_def split: if_splits)
    qed
  next
    case False
    then obtain ell bs s' where "v6_loop 8 None [] s = Some (ell, bs, s')" "v6_finish (ell, bs, s') \<noteq> None"
      using p by (auto simp: parse_v6_def split: option.splits)
    then show ?thesis using c v6_loop_chars by (fastforce simp: v6_finish_def split: if_splits)
  qed
qed

lemma parse_addr_chars: "parse_addr s = Some a \<Longrightarrow> c \<in> set s \<Longrightarrow> subnet_char c"
  by (auto simp: parse_addr_def split: if_splits option.splits dest: ParseAddr4_chars parse_v6_chars)

lemma net_ParseCIDR_chars:
  assumes "net_ParseCIDR e = Some n" "c \<in> set e"
  shows "subnet_char c"
proof -
  obtain adr ones found where cut: "Cut e (CHR ''/'') = (adr, ones, found)" by (metis prod.collapse)
  with assms(1) have f: "found" "parse_addr adr \<noteq> None" "list_all is_digit ones"
    by (auto simp: net_ParseCIDR_def split: if_splits option.splits)
  then have "e = adr @ CHR ''/'' # ones" using Cut_some cut by auto
  then show ?thesis
    using assms(2) f parse_addr_chars [of adr] digit_is_hex
    by (auto simp: list_all_iff subnet_char_def)
qed

definition breaks :: "str \<Rightarrow> nat" where
  "breaks s = length (filter (\<lambda>r. r = 10) s)"

lemma breaks_append [simp]: "breaks (s @ t) = breaks s + breaks t"
  by (simp add: breaks_def)

lemma breaks_line [simp]: "breaks (line s) = breaks s + 1"
  by (simp add: line_def breaks_def)

lemma breaks_Nil [simp]: "breaks [] = 0"
  by (simp add: breaks_def)

lemma breaks_lit: "CHR 0x0A \<notin> set s \<Longrightarrow> breaks (lit s) = 0"
proof -
  assume n: "CHR 0x0A \<notin> set s"
  have "c = CHR 0x0A" if "of_char c = (10::nat)" for c
  proof -
    have "c = char_of (of_char c :: nat)" by simp
    also have "\<dots> = char_of (of_char (CHR 0x0A) :: nat)" unfolding that by simp
    also have "\<dots> = CHR 0x0A" by (rule char_of_char)
    finally show ?thesis .
  qed
  then show "breaks (lit s) = 0" using n by (auto simp: breaks_def lit_def filter_empty_conv)
qed

lemma breaks_fmt_int [simp]: "breaks (fmt_int i) = 0"
proof -
  have "CHR 0x0A \<notin> set (dec n)" for n by (rule not_digit_dec) (simp add: is_digit_iff)
  then show ?thesis by (simp add: fmt_int_def breaks_lit)
qed

lemma breaks_subnet: "net_ParseCIDR e \<noteq> None \<Longrightarrow> breaks (lit e) = 0"
proof (rule breaks_lit)
  assume "net_ParseCIDR e \<noteq> None"
  moreover have "\<not> subnet_char (CHR 0x0A)" by (simp add: subnet_char_def is_hex_def hex_val_def)
  ultimately show "CHR 0x0A \<notin> set e" using net_ParseCIDR_chars by blast
qed

lemma breaks_sanitized [simp]: "breaks (sanitizeConfigValue v) = 0"
  by (auto simp: breaks_def sanitizeConfigValue_def filter_empty_conv)

lemma breaks_label [simp]: "breaks (configLabel name) = 0"
  by (simp add: configLabel_def mikroTikNATComment_def breaks_lit)

lemma breaks_quote [simp]: "breaks (mikrotikQuote v) = 0"
  by (auto simp: breaks_def mikrotikQuote_def filter_empty_conv sanitizeConfigValue_def)

lemma breaks_address: "breaks a = 0 \<Longrightarrow> breaks s = 0 \<Longrightarrow> breaks (addressWithSubnetPrefix a s) = 0"
proof -
  assume a: "breaks a = 0" and s: "breaks s = 0"
  then have "breaks (drop 1 (dropWhile (\<lambda>r. r \<noteq> 0x2F) s)) = 0"
    by (auto simp: breaks_def filter_empty_conv dest!: in_set_dropD set_dropWhileD)
  then show ?thesis using a by (simp add: addressWithSubnetPrefix_def breaks_lit)
qed

lemma breaks_lines: "\<forall>e \<in> set es. breaks (f e) = 0 \<Longrightarrow> breaks (concat (map (\<lambda>e. line (f e)) es)) = length es"
  by (induction es) auto

text \<open>A site's configuration has exactly the lines the renderer writes: fifteen and two per subnet for
  wg-quick, whose \<open>PostUp\<close> lines run as root, and eight and one per subnet for RouterOS, whatever the site
  and the endpoint are called, once the subnets have passed the subnet check.\<close>

theorem config_lines_fixed:
  assumes "list_all routable subnets" and "net_ParseCIDR tunnel \<noteq> None"
    and "ci_TunnelSubnet i = lit tunnel" and "ci_AllowedIPs i = map lit subnets"
    and "breaks (ci_PeerPrivateKey i) = 0" and "breaks (ci_PeerAddress i) = 0" and "breaks (ci_ServerPublicKey i) = 0"
  shows "breaks (RenderWGQuickConfig i) = 15 + 2 * length subnets \<and> breaks (RenderMikroTikConfig i) = 8 + length subnets"
proof -
  have subs: "\<forall>e \<in> set (ci_AllowedIPs i). breaks e = 0"
    using assms(1,4) breaks_subnet routable_None by (fastforce simp: list_all_iff)
  have t: "breaks (ci_TunnelSubnet i) = 0" using breaks_subnet [OF assms(2)] assms(3) by simp
  have adr: "breaks (addressWithSubnetPrefix (ci_PeerAddress i) (ci_TunnelSubnet i)) = 0"
    using breaks_address assms(6) t .
  have len: "length (ci_AllowedIPs i) = length subnets" using assms(4) by simp
  show ?thesis
    using subs t adr assms(5-7) len
    by (simp add: RenderWGQuickConfig_def RenderMikroTikConfig_def Let_def breaks_lines breaks_lit MikroTikInterfaceName_def
        mikroTikNATComment_def)
qed

theorem config_lines_fixed_witness:
  "breaks (RenderMikroTikConfig \<lparr>ci_SiteName = [65, 10, 47], ci_PeerPrivateKey = lit ''k='', ci_PeerAddress = lit ''10.88.0.5'',
     ci_ServerPublicKey = lit ''p='', ci_EndpointHost = [10, 59], ci_TunnelSubnet = lit ''10.88.0.0/24'', ci_ListenPort = 51820,
     ci_Keepalive = 25, ci_AllowedIPs = map lit [''10.10.10.0/24'']\<rparr>) = 9"
proof -
  have r: "list_all routable [''10.10.10.0/24'']" by code_simp
  have t: "net_ParseCIDR ''10.88.0.0/24'' \<noteq> None" by code_simp
  show ?thesis
    using config_lines_fixed [OF r t, of "\<lparr>ci_SiteName = [65, 10, 47], ci_PeerPrivateKey = lit ''k='', ci_PeerAddress = lit ''10.88.0.5'',
       ci_ServerPublicKey = lit ''p='', ci_EndpointHost = [10, 59], ci_TunnelSubnet = lit ''10.88.0.0/24'', ci_ListenPort = 51820,
       ci_Keepalive = 25, ci_AllowedIPs = map lit [''10.10.10.0/24'']\<rparr>"]
    by (simp add: breaks_lit)
qed

section \<open>The service over any sequence of requests\<close>

datatype wg_op =
    OpEnsure str "(string \<times> string) option"
  | OpUpdateServer string int
  | OpCreate "uuid set" uuid uuid str "string list" string "(string \<times> string) option"
  | OpUpdate uuid "str option" "string list option" "bool option"
  | OpDelete uuid
  | OpReconcile
  | OpReconcileIfPending
  | OpRefresh "TunnelPeerStatus list option"

text \<open>Requests one after the other: a creation lists the peers of the table it adds to.\<close>

fun wg_step :: "'d wg_env \<Rightarrow> 'd wg \<Rightarrow> wg_op \<Rightarrow> 'd wg" where
  "wg_step env w (OpEnsure host keys) = snd (EnsureServer env host keys w)"
| "wg_step env w (OpUpdateServer host port) = snd (UpdateServer env host port w)"
| "wg_step env w (OpCreate sites i site name ips adr keys) = snd (CreatePeer env sites i site name ips adr keys (ListPeers env w) w)"
| "wg_step env w (OpUpdate i name ips enabled) = snd (UpdatePeer env i name ips enabled w)"
| "wg_step env w (OpDelete i) = snd (DeletePeer env i w)"
| "wg_step env w OpReconcile = snd (reconcileLocked env w)"
| "wg_step env w OpReconcileIfPending = snd (ReconcileIfPending env w)"
| "wg_step env w (OpRefresh sts) = snd (RefreshStatus sts w)"

text \<open>What the device promises: an accepted configuration is the one it holds. \<open>holds\<close> is the kernel's state read
  as a configuration; and what was encrypted decrypts.\<close>

definition env_ok :: "'d wg_env \<Rightarrow> (TunnelConfig \<Rightarrow> 'd \<Rightarrow> bool) \<Rightarrow> bool" where
  "env_ok env holds \<longleftrightarrow>
     (\<forall>cfg d d'. env_apply env cfg d = (True, d') \<longrightarrow> holds cfg d') \<and>
     (\<forall>p. env_decrypt env (env_encrypt env p) = Some p)"

text \<open>The specification: the configuration the database describes.\<close>

definition described :: "'d wg_env \<Rightarrow> 'd wg \<Rightarrow> TunnelConfig option" where
  "described env w =
     (case wg_server w of
        None \<Rightarrow> None
      | Some s \<Rightarrow> map_option (\<lambda>key. tunnel_config s key (ListPeers env w)) (env_decrypt env (ws_PrivateKey s)))"

definition key_ok :: "'d wg_env \<Rightarrow> 'd wg \<Rightarrow> bool" where
  "key_ok env w \<longleftrightarrow> (case wg_server w of None \<Rightarrow> True | Some s \<Rightarrow> \<exists>p. ws_PrivateKey s = env_encrypt env p)"

definition mirrors :: "'d wg_env \<Rightarrow> (TunnelConfig \<Rightarrow> 'd \<Rightarrow> bool) \<Rightarrow> 'd wg \<Rightarrow> bool" where
  "mirrors env holds w \<longleftrightarrow>
     key_ok env w \<and>
     (wg_pending w \<or> (case described env w of None \<Rightarrow> wg_server w = None | Some cfg \<Rightarrow> holds cfg (wg_device w)))"

lemma reconcile_mirrors:
  assumes "env_ok env holds" "key_ok env w"
  shows "mirrors env holds (snd (reconcileLocked env w))"
proof (cases "wg_server w")
  case None
  then show ?thesis using assms(2) by (simp add: reconcileLocked_def mirrors_def described_def)
next
  case (Some s)
  then obtain p where p: "ws_PrivateKey s = env_encrypt env p" using assms(2) by (auto simp: key_ok_def)
  then have d: "env_decrypt env (ws_PrivateKey s) = Some p" using assms(1) by (simp add: env_ok_def)
  obtain ok d' where a: "env_apply env (tunnel_config s p (ListPeers env w)) (wg_device w) = (ok, d')" by fastforce
  then have "ok \<Longrightarrow> holds (tunnel_config s p (ListPeers env w)) d'" using assms(1) by (auto simp: env_ok_def)
  then show ?thesis
    using Some d a p by (auto simp: reconcileLocked_def mirrors_def described_def key_ok_def ListPeers_def)
qed

lemma reconcile_keeps [simp]:
  "wg_server (snd (reconcileLocked env w)) = wg_server w" "wg_peers (snd (reconcileLocked env w)) = wg_peers w"
  by (auto simp: reconcileLocked_def split: option.splits prod.splits)

lemma reconcile_pair:
  "reconcileLocked env w = (e, w') \<Longrightarrow> wg_server w' = wg_server w \<and> wg_peers w' = wg_peers w \<and> snd (reconcileLocked env w) = w'"
  using reconcile_keeps [of env w] by simp

lemma key_ok_cong: "wg_server w' = wg_server w \<Longrightarrow> key_ok env w' = key_ok env w"
  by (simp add: key_ok_def)

lemma sort_key_map: "(\<And>x. k (f x) = k x) \<Longrightarrow> sort_key k (map f xs) = map f (sort_key k xs)"
proof (induction xs)
  case (Cons x xs)
  have "insort_key k (f x) (map f ys) = map f (insort_key k x ys)" for ys
    using Cons.prems by (induction ys) simp_all
  then show ?case using Cons by simp
qed simp

lemma store_status_keeps [simp]:
  "wp_Name (store_status st p) = wp_Name p" "wp_Enabled (store_status st p) = wp_Enabled p"
  "peer_config (store_status st p) = peer_config p" "wp_ID (store_status st p) = wp_ID p"
  "wp_AllowedIPs (store_status st p) = wp_AllowedIPs p" "wp_TunnelAddress (store_status st p) = wp_TunnelAddress p"
  by (simp_all add: store_status_def peer_config_def)

lemma refresh_config:
  assumes "\<And>p. r (store_status st p) = r p"
  shows "tunnel_config s key (sort_key r (map (store_status st) ps)) = tunnel_config s key (sort_key r ps)"
  unfolding sort_key_map [where k = r and f = "store_status st", OF assms]
  by (simp add: tunnel_config_def filter_map comp_def)

lemma refresh_described:
  "described env (w\<lparr>wg_peers := fold (\<lambda>st. map (store_status st)) sts ps\<rparr>) = described env (w\<lparr>wg_peers := ps\<rparr>)"
proof (induction sts arbitrary: ps)
  case (Cons st sts)
  have "described env (w\<lparr>wg_peers := map (store_status st) ps\<rparr>) = described env (w\<lparr>wg_peers := ps\<rparr>)"
    by (simp add: described_def ListPeers_def refresh_config split: option.splits)
  then show ?case using Cons.IH by simp
qed simp

lemma find_peer_mem: "List.find (\<lambda>p. wp_ID p = i) ps = Some q \<Longrightarrow> q \<in> set ps \<and> wp_ID q = i"
  by (auto simp: find_Some_iff)

lemma mirrors_step:
  assumes env: "env_ok env holds" and m: "mirrors env holds w"
  shows "mirrors env holds (wg_step env w op)"
proof -
  have k: "key_ok env w" using m by (simp add: mirrors_def)
  note rec = reconcile_mirrors [OF env]
  have pair: "mirrors env holds w2" if "reconcileLocked env w1 = (e, w2)" "key_ok env w1" for w1 e w2
    using rec [OF that(2)] that(1) by simp
  have kept: "key_ok env w2" if "reconcileLocked env w1 = (e, w2)" "key_ok env w1" for w1 e w2
    using that reconcile_pair [OF that(1)] by (simp add: key_ok_def)
  show ?thesis
  proof (cases op)
    case (OpEnsure host keys)
    show ?thesis
    proof (cases "wg_server w")
      case None
      show ?thesis
      proof (cases keys)
        case None
        then show ?thesis using m \<open>wg_server w = None\<close> by (simp add: OpEnsure EnsureServer_def)
      next
        case (Some kp)
        then obtain pub priv where kp: "keys = Some (pub, priv)" by fastforce
        let ?s = "\<lparr>ws_InterfaceName = ''wg0'', ws_ListenPort = 51820, ws_PrivateKey = env_encrypt env priv,
            ws_PublicKey = pub, ws_EndpointHost = host, ws_TunnelSubnet = ''10.88.0.0/24'', ws_Address = ''10.88.0.1''\<rparr>"
        obtain e w2 where r: "reconcileLocked env (w\<lparr>wg_server := Some ?s\<rparr>) = (e, w2)" by fastforce
        have "key_ok env (w\<lparr>wg_server := Some ?s\<rparr>)" by (auto simp: key_ok_def)
        then have "mirrors env holds w2" by (rule pair [OF r])
        then show ?thesis
          using \<open>wg_server w = None\<close> kp r by (cases e) (simp_all add: OpEnsure EnsureServer_def)
      qed
    next
      case (Some s)
      then show ?thesis using m by (simp add: OpEnsure EnsureServer_def)
    qed
  next
    case (OpUpdateServer host port)
    show ?thesis
    proof (cases "wg_server w = None \<or> ValidateEndpointHost host \<noteq> None")
      case True
      then show ?thesis using m by (auto simp: OpUpdateServer UpdateServer_def split: option.splits)
    next
      case False
      then obtain s where s: "wg_server w = Some s" by auto
      let ?w1 = "w\<lparr>wg_server := Some (s\<lparr>ws_EndpointHost := lit host, ws_ListenPort := port\<rparr>)\<rparr>"
      obtain e w2 where r: "reconcileLocked env ?w1 = (e, w2)" by fastforce
      have k1: "key_ok env ?w1" using k s by (simp add: key_ok_def)
      have k2: "key_ok env (w2\<lparr>wg_server := Some s\<rparr>)" using k s by (simp add: key_ok_def)
      show ?thesis
        using False s r pair [OF r k1] rec [OF k2]
        by (cases e) (simp_all add: OpUpdateServer UpdateServer_def Let_def reconcileAfterRollback_def)
    qed
  next
    case (OpCreate sites i site name ips adr keys)
    have ins: "key_ok env w1" if "insert_peer q w = Inr w1" for q w1
      using that k by (auto simp: insert_peer_def key_ok_def split: if_splits)
    have del: "key_ok env (delete_peer i w2)" if "insert_peer q w = Inr w1" "reconcileLocked env w1 = (e, w2)" for q w1 w2 e
      using kept [OF that(2) ins [OF that(1)]] by (simp add: delete_peer_def key_ok_def)
    show ?thesis
      using m ins del pair rec
      by (auto simp: OpCreate CreatePeer_def Let_def rollbackRejectedPeer_def reconcileAfterRollback_def
          split: option.splits sum.splits prod.splits)
  next
    case (OpUpdate i name ips enabled)
    have sv: "key_ok env (save_peer q w)" for q using k by (simp add: save_peer_def key_ok_def)
    have sv2: "key_ok env (save_peer q w2)" if "reconcileLocked env (save_peer q1 w) = (e, w2)" for q q1 w2 e
      using kept [OF that sv] by (simp add: save_peer_def key_ok_def)
    show ?thesis
      using m sv sv2 pair rec
      by (auto simp: OpUpdate UpdatePeer_def Let_def restorePeer_def reconcileAfterRollback_def
          split: option.splits prod.splits)
  next
    case (OpDelete i)
    have "key_ok env (delete_peer i w)" using k by (simp add: delete_peer_def key_ok_def)
    then show ?thesis using rec by (simp add: OpDelete DeletePeer_def)
  next
    case OpReconcile
    then show ?thesis using rec k by simp
  next
    case OpReconcileIfPending
    then show ?thesis using rec k m by (simp add: ReconcileIfPending_def)
  next
    case (OpRefresh sts)
    show ?thesis
    proof (cases "wg_server w = None \<or> sts = None")
      case True
      then show ?thesis using m by (auto simp: OpRefresh RefreshStatus_def split: option.splits)
    next
      case False
      then obtain st where st: "sts = Some st" by auto
      have "described env (w\<lparr>wg_peers := fold (\<lambda>st. map (store_status st)) st (wg_peers w)\<rparr>) = described env w"
        unfolding refresh_described by simp
      moreover have "wg_step env w op = w\<lparr>wg_peers := fold (\<lambda>st. map (store_status st)) st (wg_peers w)\<rparr>"
        using False st by (auto simp: OpRefresh RefreshStatus_def)
      ultimately show ?thesis using m by (cases "described env w") (simp_all add: mirrors_def key_ok_def)
    qed
  qed
qed

definition wg_run :: "'d wg_env \<Rightarrow> 'd wg \<Rightarrow> wg_op list \<Rightarrow> 'd wg" where
  "wg_run env w ops = foldl (wg_step env) w ops"

text \<open>C21. The tunnel device implements the database: after any sequence of requests on a fresh system, unless a
  refused reconciliation is recorded as pending, the kernel holds exactly the configuration the database
  describes: the server's settings and the enabled peers, with their keys, subnets and keepalives.\<close>

theorem device_refines_database:
  assumes "env_ok env holds" and "wg_server w = None"
  shows "wg_pending (wg_run env w ops) \<or>
    (case described env (wg_run env w ops) of
       None \<Rightarrow> wg_server (wg_run env w ops) = None
     | Some cfg \<Rightarrow> holds cfg (wg_device (wg_run env w ops)))"
proof -
  have "mirrors env holds w" using assms(2) by (simp add: mirrors_def key_ok_def described_def)
  then have "mirrors env holds (foldl (wg_step env) w ops)"
    using mirrors_step [OF assms(1)] by (induction ops arbitrary: w) simp_all
  then show ?thesis unfolding wg_run_def mirrors_def by simp
qed

section \<open>Sites never share an address\<close>

definition apart :: "peer \<Rightarrow> peer \<Rightarrow> bool" where
  "apart p q \<longleftrightarrow> covers (wp_AllowedIPs p) \<inter> covers (wp_AllowedIPs q) = {}"

definition sites_apart :: "peer list \<Rightarrow> bool" where
  "sites_apart ps \<longleftrightarrow>
     distinct (map wp_ID ps) \<and> uuid_nil \<notin> set (map wp_ID ps) \<and> distinct (map wp_TunnelAddress ps) \<and>
     (\<forall>p \<in> set ps. \<forall>q \<in> set ps. wp_ID p \<noteq> wp_ID q \<longrightarrow> apart p q)"

lemma apart_sym: "apart p q \<Longrightarrow> apart q p"
  by (auto simp: apart_def)

lemma apart_cong: "wp_AllowedIPs p' = wp_AllowedIPs p \<Longrightarrow> wp_AllowedIPs q' = wp_AllowedIPs q \<Longrightarrow> apart p' q' \<longleftrightarrow> apart p q"
  by (simp add: apart_def)

lemma checked_apart:
  "list_all (\<lambda>n. covers (wp_AllowedIPs p) \<inter> covers (pn_AllowedIPs n) = {}) (peerNetworks ps x) \<longleftrightarrow>
     (\<forall>q \<in> set ps. wp_ID q \<noteq> x \<longrightarrow> apart p q)"
  by (auto simp: peerNetworks_def list_all_iff apart_def)

lemma sites_apart_update:
  assumes "\<And>p. wp_ID (f p) = wp_ID p" "\<And>p. wp_TunnelAddress (f p) = wp_TunnelAddress p" "\<And>p. wp_AllowedIPs (f p) = wp_AllowedIPs p"
    and "sites_apart ps"
  shows "sites_apart (map f ps)"
proof -
  have "map wp_ID (map f ps) = map wp_ID ps" "map wp_TunnelAddress (map f ps) = map wp_TunnelAddress ps"
    using assms(1,2) by simp_all
  moreover have "\<forall>p \<in> set (map f ps). \<forall>q \<in> set (map f ps). wp_ID p \<noteq> wp_ID q \<longrightarrow> apart p q"
    using assms(4) apart_cong [OF assms(3) assms(3)] by (simp add: sites_apart_def assms(1))
  ultimately show ?thesis using assms(4) unfolding sites_apart_def by (simp only: simp_thms)
qed

lemma sites_apart_delete: "sites_apart ps \<Longrightarrow> sites_apart (filter P ps)"
  by (auto simp: sites_apart_def distinct_map_filter)

lemma sites_apart_insert:
  assumes ps: "sites_apart ps" and p: "wp_ID p \<noteq> uuid_nil"
    and fresh: "\<not> list_ex (\<lambda>q. wp_ID q = wp_ID p \<or> wp_TunnelAddress q = wp_TunnelAddress p) ps"
    and ok: "\<forall>q \<in> set ps. wp_ID q \<noteq> uuid_nil \<longrightarrow> apart p q"
  shows "sites_apart (ps @ [p])"
proof -
  have new: "apart p q" "apart q p" if "q \<in> set ps" for q
  proof -
    have "wp_ID q \<noteq> uuid_nil" using ps that by (force simp: sites_apart_def)
    then show "apart p q" using ok that by blast
    then show "apart q p" by (rule apart_sym)
  qed
  have "distinct (map wp_ID (ps @ [p]))" "distinct (map wp_TunnelAddress (ps @ [p]))"
    using ps fresh by (auto simp: sites_apart_def list_ex_iff)
  moreover have "\<forall>r \<in> set (ps @ [p]). \<forall>q \<in> set (ps @ [p]). wp_ID r \<noteq> wp_ID q \<longrightarrow> apart r q"
    using ps new by (auto simp: sites_apart_def)
  moreover have "uuid_nil \<notin> set (map wp_ID (ps @ [p]))"
    using ps p by (simp add: sites_apart_def)
  ultimately show ?thesis unfolding sites_apart_def by blast
qed

lemma row_unique: "distinct (map wp_ID ps) \<Longrightarrow> q \<in> set ps \<Longrightarrow> r \<in> set ps \<Longrightarrow> wp_ID r = wp_ID q \<Longrightarrow> r = q"
  by (auto simp: distinct_map inj_on_def)

lemma sites_apart_save:
  assumes ps: "sites_apart ps" and q: "q \<in> set ps" "wp_ID p = wp_ID q" "wp_TunnelAddress p = wp_TunnelAddress q"
    and ok: "\<forall>r \<in> set ps. wp_ID r \<noteq> wp_ID q \<longrightarrow> apart p r"
  shows "sites_apart (map (\<lambda>r. if wp_ID r = wp_ID p then p else r) ps)"
proof -
  let ?f = "\<lambda>r. if wp_ID r = wp_ID p then p else r"
  have key: "r = q" if "r \<in> set ps" "wp_ID r = wp_ID p" for r
    using ps q row_unique that unfolding sites_apart_def by metis
  have "map wp_ID (map ?f ps) = map wp_ID ps" by simp
  moreover have "map wp_TunnelAddress (map ?f ps) = map wp_TunnelAddress ps"
    using key q(3) by (simp add: comp_def)
  moreover have "apart (?f r) (?f t)" if "r \<in> set ps" "t \<in> set ps" "wp_ID (?f r) \<noteq> wp_ID (?f t)" for r t
  proof -
    have old: "wp_ID r \<noteq> wp_ID t \<Longrightarrow> apart r t" using ps that(1,2) by (simp add: sites_apart_def)
    have new: "x \<in> set ps \<Longrightarrow> wp_ID x \<noteq> wp_ID p \<Longrightarrow> apart p x" for x using ok q(2) by simp
    show ?thesis
      using that(3) old new [OF that(1)] new [OF that(2)] apart_sym [of p r]
      by (cases "wp_ID r = wp_ID p"; cases "wp_ID t = wp_ID p") simp_all
  qed
  then have "\<forall>r \<in> set (map ?f ps). \<forall>t \<in> set (map ?f ps). wp_ID r \<noteq> wp_ID t \<longrightarrow> apart r t"
    by (simp only: set_map ball_simps) blast
  ultimately show ?thesis using ps unfolding sites_apart_def by (simp only: simp_thms)
qed

text \<open>A rejected edit puts the old row back in its place.\<close>

lemma save_back:
  assumes "distinct (map wp_ID ps)" "q \<in> set ps" "wp_ID p = wp_ID q"
  shows "map (\<lambda>r. if wp_ID r = wp_ID q then q else r) (map (\<lambda>r. if wp_ID r = wp_ID p then p else r) ps) = ps"
proof -
  have "(if wp_ID (if wp_ID r = wp_ID p then p else r) = wp_ID q then q else (if wp_ID r = wp_ID p then p else r)) = r"
    if "r \<in> set ps" for r
    using row_unique [OF assms(1,2) that] assms(3) by auto
  then show ?thesis unfolding map_map comp_def by (intro map_idI) blast
qed

lemma validated_apart:
  assumes "ValidateAllowedIPs ips (peerNetworks ps x) t r = None" "wp_AllowedIPs p = ips"
  shows "\<forall>q \<in> set ps. wp_ID q \<noteq> x \<longrightarrow> apart p q"
  using assms(1) unfolding validate_iff checked_apart [symmetric] assms(2) [symmetric] by blast

lemma set_ListPeers [simp]: "set (ListPeers env w) = set (wg_peers w)"
  by (simp add: ListPeers_def)

lemma resolved_validates:
  "resolveNewPeerNetwork env s ps ips adr = Inr a \<Longrightarrow>
     \<exists>r. ValidateAllowedIPs ips (peerNetworks ps uuid_nil) (ws_TunnelSubnet s) r = None"
  by (auto simp: resolveNewPeerNetwork_def split: option.splits)

lemma create_apart:
  assumes w: "sites_apart (wg_peers w)" and i: "i \<noteq> uuid_nil"
  shows "sites_apart (wg_peers (snd (CreatePeer env sites i site name ips adr keys (ListPeers env w) w)))"
proof (cases "wg_server w")
  case None
  then show ?thesis using w by (simp add: CreatePeer_def)
next
  case (Some s)
  have ins: "sites_apart (wg_peers w1)"
    if res: "resolveNewPeerNetwork env s (ListPeers env w) ips adr = Inr a"
      and insd: "insert_peer (newPeerRow env i site name ips a ks) w = Inr w1" for a ks w1
  proof -
    let ?p = "newPeerRow env i site name ips a ks"
    obtain r where v: "ValidateAllowedIPs ips (peerNetworks (ListPeers env w) uuid_nil) (ws_TunnelSubnet s) r = None"
      using resolved_validates [OF res] by blast
    have "wp_AllowedIPs ?p = ips" by (simp add: newPeerRow_def)
    from validated_apart [OF v this] have "\<forall>q \<in> set (wg_peers w). wp_ID q \<noteq> uuid_nil \<longrightarrow> apart ?p q" by simp
    moreover have "\<not> list_ex (\<lambda>q. wp_ID q = wp_ID ?p \<or> wp_TunnelAddress q = wp_TunnelAddress ?p) (wg_peers w)"
      and w1: "w1 = w\<lparr>wg_peers := wg_peers w @ [?p]\<rparr>"
      using insd by (auto simp: insert_peer_def split: if_splits)
    moreover have "wp_ID ?p \<noteq> uuid_nil" using i by (simp add: newPeerRow_def)
    ultimately show ?thesis using sites_apart_insert [OF w] by simp
  qed
  have del: "sites_apart (wg_peers (delete_peer i w2))" if "sites_apart (wg_peers w2)" for w2 :: "'a wg"
    using that by (simp add: delete_peer_def sites_apart_delete)
  have kept: "sites_apart (wg_peers w2)" if "reconcileLocked env w1 = (e, w2)" "sites_apart (wg_peers w1)" for w1 e w2
    using that reconcile_pair [OF that(1)] by simp
  show ?thesis
    using Some w ins del kept
    by (auto simp: CreatePeer_def Let_def rollbackRejectedPeer_def reconcileAfterRollback_def
        split: option.splits sum.splits prod.splits)
qed

lemma update_apart:
  assumes w: "sites_apart (wg_peers w)"
  shows "sites_apart (wg_peers (snd (UpdatePeer env i name ips enabled w)))"
proof (cases "wg_server w")
  case None
  then show ?thesis using w by (simp add: UpdatePeer_def)
next
  case (Some s)
  show ?thesis
  proof (cases "List.find (\<lambda>p. wp_ID p = i) (wg_peers w)")
    case None
    then show ?thesis using w Some by (simp add: UpdatePeer_def)
  next
    case found: (Some q)
    note q = find_peer_mem [OF found]
    let ?check = "case ips of None \<Rightarrow> None | Some l \<Rightarrow> ValidateAllowedIPs l (peerNetworks (ListPeers env w) i) (ws_TunnelSubnet s)
                    (env_local_subnets env (ws_InterfaceName s))"
    let ?label = "case name of None \<Rightarrow> None | Some n \<Rightarrow> ValidateSiteLabel n"
    let ?p = "q\<lparr>wp_AllowedIPs := (case ips of None \<Rightarrow> wp_AllowedIPs q | Some l \<Rightarrow> l),
                 wp_Name := (case name of None \<Rightarrow> wp_Name q | Some n \<Rightarrow> n),
                 wp_Enabled := (case enabled of None \<Rightarrow> wp_Enabled q | Some b \<Rightarrow> b)\<rparr>"
    show ?thesis
    proof (cases "?check = None \<and> ?label = None")
      case False
      then show ?thesis using w Some found by (auto simp: UpdatePeer_def split: option.splits)
    next
      case ok: True
      have "\<forall>r \<in> set (wg_peers w). wp_ID r \<noteq> wp_ID q \<longrightarrow> apart ?p r"
      proof (cases ips)
        case None
        have "apart q r" if "r \<in> set (wg_peers w)" "wp_ID r \<noteq> wp_ID q" for r
          using w q that unfolding sites_apart_def by metis
        then show ?thesis using None by (simp add: apart_def)
      next
        case (Some l)
        then have adr: "wp_AllowedIPs ?p = l" by simp
        have "ValidateAllowedIPs l (peerNetworks (ListPeers env w) i) (ws_TunnelSubnet s)
            (env_local_subnets env (ws_InterfaceName s)) = None"
          using ok Some by simp
        from validated_apart [OF this adr] show ?thesis using q by simp
      qed
      then have saved: "sites_apart (wg_peers (save_peer ?p w))"
        using sites_apart_save [OF w, of q ?p] q by (simp add: save_peer_def)
      have back1: "wg_peers (save_peer q w2) = wg_peers w" if "wg_peers w2 = wg_peers (save_peer ?p w)" for w2 :: "'a wg"
        using save_back [of "wg_peers w" q ?p] w q that by (simp add: save_peer_def sites_apart_def)
      obtain e w2 where r: "reconcileLocked env (save_peer ?p w) = (e, w2)" by fastforce
      have w2: "wg_peers w2 = wg_peers (save_peer ?p w)" using reconcile_pair [OF r] by simp
      show ?thesis
        using Some found ok r saved back1 [OF w2] w2 w
        by (cases e) (simp_all add: UpdatePeer_def Let_def restorePeer_def reconcileAfterRollback_def)
    qed
  qed
qed

definition ids_given :: "wg_op list \<Rightarrow> bool" where
  "ids_given ops \<longleftrightarrow> list_all (\<lambda>op. case op of OpCreate _ i _ _ _ _ _ \<Rightarrow> i \<noteq> uuid_nil | _ \<Rightarrow> True) ops"

lemma apart_step:
  assumes w: "sites_apart (wg_peers w)" and op: "ids_given [op]"
  shows "sites_apart (wg_peers (wg_step env w op))"
proof (cases op)
  case (OpCreate sites i site name ips adr keys)
  then show ?thesis using create_apart [OF w] op by (simp add: ids_given_def)
next
  case (OpUpdate i name ips enabled)
  then show ?thesis using update_apart [OF w] by simp
next
  case (OpDelete i)
  then show ?thesis using w by (simp add: DeletePeer_def delete_peer_def sites_apart_delete)
next
  case (OpEnsure host keys)
  have "wg_peers (snd (EnsureServer env host keys w)) = wg_peers w"
    by (auto simp: EnsureServer_def Let_def dest!: reconcile_pair split: option.splits prod.splits)
  then show ?thesis using w OpEnsure by simp
next
  case (OpUpdateServer host port)
  have "wg_peers (snd (UpdateServer env host port w)) = wg_peers w"
    by (auto simp: UpdateServer_def Let_def reconcileAfterRollback_def dest!: reconcile_pair split: option.splits prod.splits)
  then show ?thesis using w OpUpdateServer by simp
next
  case OpReconcile
  then show ?thesis using w by simp
next
  case OpReconcileIfPending
  then show ?thesis using w by (simp add: ReconcileIfPending_def)
next
  case (OpRefresh sts)
  have "sites_apart (fold (\<lambda>st. map (store_status st)) l ps)" if "sites_apart ps" for l ps
    using that by (induction l arbitrary: ps) (simp_all add: sites_apart_update)
  then show ?thesis using w OpRefresh by (auto simp: RefreshStatus_def split: option.splits)
qed

text \<open>C22. Requests one after the other keep the sites apart: no address ever lies in the subnets of two peers,
  and no two peers share an id or a tunnel address, whatever the device refuses and however often an edit
  is rolled back.\<close>

theorem sites_stay_apart:
  assumes "ids_given ops" and "sites_apart (wg_peers w)"
  shows "sites_apart (wg_peers (wg_run env w ops))"
proof -
  have "sites_apart (wg_peers (foldl (wg_step env) w ops))"
    using assms
  proof (induction ops arbitrary: w)
    case (Cons op ops)
    have "ids_given [op] \<and> ids_given ops" using Cons.prems(1) unfolding ids_given_def by simp
    then show ?case using Cons.IH apart_step [OF Cons.prems(2)] by simp
  qed simp
  then show ?thesis unfolding wg_run_def .
qed

section \<open>The device as an interface\<close>

text \<open>What the service needs of a \<open>connectivity.TunnelDevice\<close>.\<close>

locale tunnel_device =
  fixes apply_cfg :: "TunnelConfig \<Rightarrow> 'd \<Rightarrow> bool \<times> 'd" and holds :: "TunnelConfig \<Rightarrow> 'd \<Rightarrow> bool"
  assumes accepted_is_held: "apply_cfg cfg d = (True, d') \<Longrightarrow> holds cfg d'"
begin

lemma serves: "env_apply env = apply_cfg \<Longrightarrow> (\<And>p. env_decrypt env (env_encrypt env p) = Some p) \<Longrightarrow> env_ok env holds"
  using accepted_is_held by (auto simp: env_ok_def)

lemma accepted_mirrors:
  assumes "env_apply env = apply_cfg" "\<And>p. env_decrypt env (env_encrypt env p) = Some p" "key_ok env w"
  shows "mirrors env holds (snd (reconcileLocked env w))"
  using reconcile_mirrors [OF serves assms(3)] assms(1,2) by blast

end

text \<open>\<open>MemoryTunnelDevice\<close> of \<open>connectivity/wireguard_device_memory.go\<close>.\<close>

record memory_device =
  md_Applied :: "TunnelConfig option"
  md_ApplyErr :: bool
  md_ApplyErrOnce :: bool
  md_ApplyCount :: nat

definition memory_Apply :: "TunnelConfig \<Rightarrow> memory_device \<Rightarrow> bool \<times> memory_device" where
  "memory_Apply cfg d =
     (let d = d\<lparr>md_ApplyCount := md_ApplyCount d + 1\<rparr>
      in if md_ApplyErr d then (False, if md_ApplyErrOnce d then d\<lparr>md_ApplyErr := False\<rparr> else d)
         else (True, d\<lparr>md_Applied := Some cfg\<rparr>))"

interpretation memory: tunnel_device memory_Apply "\<lambda>cfg d. md_Applied d = Some cfg"
  by unfold_locales (auto simp: memory_Apply_def Let_def split: if_splits)

definition memory_env :: "memory_device wg_env" where
  "memory_env = \<lparr>env_apply = memory_Apply, env_encrypt = rev, env_decrypt = (\<lambda>c. Some (rev c)),
     env_local_subnets = (\<lambda>_. []), env_rank = length\<rparr>"

lemma memory_env_ok: "env_ok memory_env (\<lambda>cfg d. md_Applied d = Some cfg)"
  by (rule memory.serves) (simp_all add: memory_env_def)

definition fresh_wg :: "memory_device wg" where
  "fresh_wg = \<lparr>wg_server = None, wg_peers = [],
     wg_device = \<lparr>md_Applied = None, md_ApplyErr = False, md_ApplyErrOnce = False, md_ApplyCount = 0\<rparr>, wg_pending = False\<rparr>"

definition sample_ops :: "wg_op list" where
  "sample_ops = [OpEnsure (lit ''vpn.example'') (Some (''PUB'', ''KEY'')),
     OpCreate {7} 1 7 (lit ''pop'') [''10.10.10.0/24''] [] (Some (''A'', ''B''))]"

theorem device_refines_database_witness:
  "wg_pending (wg_run memory_env fresh_wg sample_ops) \<or>
    (case described memory_env (wg_run memory_env fresh_wg sample_ops) of
       None \<Rightarrow> wg_server (wg_run memory_env fresh_wg sample_ops) = None
     | Some cfg \<Rightarrow> md_Applied (wg_device (wg_run memory_env fresh_wg sample_ops)) = Some cfg)"
  by (rule device_refines_database [OF memory_env_ok]) (simp add: fresh_wg_def)

theorem sites_stay_apart_witness: "sites_apart (wg_peers (wg_run memory_env fresh_wg sample_ops))"
  by (rule sites_stay_apart) (simp_all add: ids_given_def sample_ops_def sites_apart_def fresh_wg_def)

end
