(* ===== verification/Inventory.thy ===== *)
theory Inventory
  imports CsInbox Telemetry Complex_Main
begin

text \<open>
  The inventory of subscribers' boxes: the table of ONTs with its unique indexes and the operations on
  it. The rows are written by the API (\<open>services/ont_service_crud.go\<close>, \<open>ont_service_phone.go\<close>,
  \<open>ont_odp_assign.go\<close>), by discovery (\<open>ont_service_discovery.go\<close>, \<open>ont_service_sync.go\<close>) and by the
  poller, which reads them a page at a time (\<open>ont_iterate.go\<close>). A map of column updates is a list of
  columns; an index a write would break makes the whole statement fail. Optical power is a real number:
  it is only carried. A new row's identifier comes from a parameter that never gives \<open>uuid.Nil\<close>
  or a used one. The values fit the columns' widths.
\<close>

section \<open>The rows\<close>

definition ONTStatusOnline :: string where "ONTStatusOnline = ''online''"
definition ONTStatusOffline :: string where "ONTStatusOffline = ''offline''"
definition ONTStatusLOS :: string where "ONTStatusLOS = ''los''"
definition ONTStatusDyingGas :: string where "ONTStatusDyingGas = ''dying_gasp''"
definition ONTStatusUnknown :: string where "ONTStatusUnknown = ''unknown''"

lemmas ont_status_defs =
  ONTStatusOnline_def ONTStatusOffline_def ONTStatusLOS_def ONTStatusDyingGas_def ONTStatusUnknown_def

record ONT =
  ont_ID :: uuid
  ont_OLTID :: uuid
  ont_PortID :: int
  ont_ONTID :: int
  ont_Slot :: "int option"
  ont_SerialNumber :: string
  ont_Name :: string
  ont_Description :: string
  ont_Phone :: string
  ont_Status :: string
  ont_DeviceType :: string
  ont_HardwareVersion :: string
  ont_SoftwareVersion :: string
  ont_IPAddress :: string
  ont_MACAddress :: string
  ont_ODPID :: "uuid option"
  ont_ODPPort :: "int option"
  ont_RxPower :: "real option"
  ont_TxPower :: "real option"
  ont_Distance :: int
  ont_LastOnline :: "time option"
  ont_LastOffline :: "time option"
  ont_LastOfflineReason :: string
  ont_Uptime :: int
  ont_LastDownTimeDuration :: int
  ont_LastSeenAt :: "time option"
  ont_CreatedAt :: time
  ont_UpdatedAt :: time

record DiscoveredONT =
  do_Slot :: int
  do_PortID :: int
  do_ONTID :: int
  do_SerialNumber :: string
  do_RunState :: int
  do_Name :: string
  do_Description :: string
  do_DeviceType :: string
  do_HardwareVersion :: string
  do_SoftwareVersion :: string
  do_IPAddress :: string
  do_MACAddress :: string
  do_RxPower :: "real option"
  do_TxPower :: "real option"
  do_Distance :: int
  do_Status :: string
  do_LastSeenAt :: time
  do_RxBytes :: u64
  do_TxBytes :: u64
  do_RxPackets :: u64
  do_TxPackets :: u64
  do_RxErrors :: u64
  do_TxErrors :: u64

text \<open>A record with only its place in it; the fields a driver reads are set afterwards.\<close>

definition placed :: "int \<Rightarrow> int \<Rightarrow> int \<Rightarrow> int \<Rightarrow> DiscoveredONT" where
  "placed slot port onu state =
     \<lparr>do_Slot = slot, do_PortID = port, do_ONTID = onu, do_SerialNumber = [], do_RunState = state, do_Name = [],
      do_Description = [], do_DeviceType = [], do_HardwareVersion = [], do_SoftwareVersion = [],
      do_IPAddress = [], do_MACAddress = [], do_RxPower = None, do_TxPower = None, do_Distance = 0,
      do_Status = [], do_LastSeenAt = 0, do_RxBytes = 0, do_TxBytes = 0, do_RxPackets = 0,
      do_TxPackets = 0, do_RxErrors = 0, do_TxErrors = 0\<rparr>"

lemma placed_simps [simp]:
  "do_Slot (placed slot port onu state) = slot" "do_PortID (placed slot port onu state) = port"
  "do_ONTID (placed slot port onu state) = onu" "do_RunState (placed slot port onu state) = state"
  by (simp_all add: placed_def)

record OLT =
  olt_ID :: uuid
  olt_SiteID :: uuid
  olt_Name :: string
  olt_Model :: string
  olt_IPAddress :: string
  olt_Status :: string
  olt_LastSeen :: "time option"
  olt_DiscoveryPhase :: string
  olt_DiscoveryTotal :: int
  olt_DiscoveryRegistered :: int
  olt_DiscoveryPolled :: int
  olt_DiscoveryError :: string
  olt_DiscoveryStartedAt :: "time option"
  olt_DiscoveryLastPollAt :: "time option"
  olt_DiscoveryHeartbeatAt :: "time option"

definition NodeODP :: string where "NodeODP = ''odp''"

record MappingNode =
  mn_ID :: uuid
  mn_Type :: string
  mn_Capacity :: int

record metrics_row =
  mr_Time :: time
  mr_ONTID :: uuid
  mr_RxPower :: "real option"
  mr_TxPower :: "real option"
  mr_Temperature :: real
  mr_Voltage :: real
  mr_Distance :: int
  mr_RxBytes :: "u64 option"
  mr_TxBytes :: "u64 option"
  mr_RxPackets :: "u64 option"
  mr_TxPackets :: "u64 option"
  mr_RxRateMbps :: "real option"
  mr_TxRateMbps :: "real option"

record inventory =
  iv_olts :: "OLT list"
  iv_nodes :: "MappingNode list"
  iv_onts :: "ONT list"
  iv_metrics :: "metrics_row list"
  iv_events :: "ONTEvent list"

section \<open>The database\<close>

datatype ont_column =
    C_name string | C_description string | C_phone string | C_status string | C_serial_number string
  | C_device_type string | C_hardware_version string | C_software_version string
  | C_ip_address string | C_mac_address string | C_slot int
  | C_odp_id "uuid option" | C_odp_port "int option"
  | C_rx_power "real option" | C_tx_power "real option" | C_distance int
  | C_last_seen_at time | C_last_online time | C_last_offline time | C_last_offline_reason string
  | C_uptime int | C_last_down_time_duration int | C_updated_at time

primrec set_column :: "ont_column \<Rightarrow> ONT \<Rightarrow> ONT" where
  "set_column (C_name v) t = t\<lparr>ont_Name := v\<rparr>"
| "set_column (C_description v) t = t\<lparr>ont_Description := v\<rparr>"
| "set_column (C_phone v) t = t\<lparr>ont_Phone := v\<rparr>"
| "set_column (C_status v) t = t\<lparr>ont_Status := v\<rparr>"
| "set_column (C_serial_number v) t = t\<lparr>ont_SerialNumber := v\<rparr>"
| "set_column (C_device_type v) t = t\<lparr>ont_DeviceType := v\<rparr>"
| "set_column (C_hardware_version v) t = t\<lparr>ont_HardwareVersion := v\<rparr>"
| "set_column (C_software_version v) t = t\<lparr>ont_SoftwareVersion := v\<rparr>"
| "set_column (C_ip_address v) t = t\<lparr>ont_IPAddress := v\<rparr>"
| "set_column (C_mac_address v) t = t\<lparr>ont_MACAddress := v\<rparr>"
| "set_column (C_slot v) t = t\<lparr>ont_Slot := Some v\<rparr>"
| "set_column (C_odp_id v) t = t\<lparr>ont_ODPID := v\<rparr>"
| "set_column (C_odp_port v) t = t\<lparr>ont_ODPPort := v\<rparr>"
| "set_column (C_rx_power v) t = t\<lparr>ont_RxPower := v\<rparr>"
| "set_column (C_tx_power v) t = t\<lparr>ont_TxPower := v\<rparr>"
| "set_column (C_distance v) t = t\<lparr>ont_Distance := v\<rparr>"
| "set_column (C_last_seen_at v) t = t\<lparr>ont_LastSeenAt := Some v\<rparr>"
| "set_column (C_last_online v) t = t\<lparr>ont_LastOnline := Some v\<rparr>"
| "set_column (C_last_offline v) t = t\<lparr>ont_LastOffline := Some v\<rparr>"
| "set_column (C_last_offline_reason v) t = t\<lparr>ont_LastOfflineReason := v\<rparr>"
| "set_column (C_uptime v) t = t\<lparr>ont_Uptime := v\<rparr>"
| "set_column (C_last_down_time_duration v) t = t\<lparr>ont_LastDownTimeDuration := v\<rparr>"
| "set_column (C_updated_at v) t = t\<lparr>ont_UpdatedAt := v\<rparr>"

definition set_columns :: "ont_column list \<Rightarrow> ONT \<Rightarrow> ONT" where
  "set_columns cs t = fold set_column cs t"

text \<open>
  The unique indexes of \<open>onts\<close>: \<open>uq_onts_olt_slot_port_ont\<close> (null slots are never equal),
  \<open>idx_onts_serial_number\<close> and \<open>uq_onts_phone\<close> (both over non-empty values), \<open>uq_onts_odp_port\<close>.
\<close>

definition index_clash :: "ONT \<Rightarrow> ONT \<Rightarrow> bool" where
  "index_clash a b \<longleftrightarrow>
     (ont_Slot a \<noteq> None \<and> ont_Slot a = ont_Slot b \<and> ont_OLTID a = ont_OLTID b
        \<and> ont_PortID a = ont_PortID b \<and> ont_ONTID a = ont_ONTID b)
   \<or> (ont_SerialNumber a \<noteq> [] \<and> ont_SerialNumber a = ont_SerialNumber b)
   \<or> (ont_Phone a \<noteq> [] \<and> ont_Phone a = ont_Phone b)
   \<or> (ont_ODPID a \<noteq> None \<and> ont_ODPPort a \<noteq> None \<and> ont_ODPID a = ont_ODPID b \<and> ont_ODPPort a = ont_ODPPort b)"

definition db_create :: "(uuid list \<Rightarrow> uuid) \<Rightarrow> time \<Rightarrow> ONT \<Rightarrow> ONT list \<Rightarrow> ONT list option" where
  "db_create uuidNew now t ts =
     (let row = t\<lparr>ont_ID := if ont_ID t = uuid_nil then uuidNew (map ont_ID ts) else ont_ID t,
                  ont_CreatedAt := now, ont_UpdatedAt := now\<rparr>
      in if (\<exists>b \<in> set ts. ont_ID b = ont_ID row \<or> index_clash row b) then None else Some (ts @ [row]))"

text \<open>\<open>UPDATE onts SET ... WHERE id = ?\<close>: the table, or \<open>None\<close> when an index refuses the row.\<close>

definition db_updates :: "uuid \<Rightarrow> ont_column list \<Rightarrow> ONT list \<Rightarrow> ONT list option" where
  "db_updates i cs ts =
     (case find (\<lambda>t. ont_ID t = i) ts of
        None \<Rightarrow> Some ts
      | Some t \<Rightarrow>
          if (\<exists>b \<in> set ts. ont_ID b \<noteq> i \<and> index_clash (set_columns cs t) b) then None
          else Some (update_where (\<lambda>t. ont_ID t = i) (set_columns cs) ts))"

section \<open>The row operations\<close>

datatype inv_error =
    ONT_not_found | OLT_not_found | Serial_exists string | Position_exists
  | ErrValidation | ErrRecordNotFound | Database_error

definition checkUnclaimed :: "ONT \<Rightarrow> ONT list \<Rightarrow> inv_error option" where
  "checkUnclaimed t ts =
     (if ont_SerialNumber t \<noteq> [] \<and> (\<exists>b \<in> set ts. ont_SerialNumber b = ont_SerialNumber t)
      then Some (Serial_exists (ont_SerialNumber t))
      else if (\<exists>b \<in> set ts. ont_OLTID b = ont_OLTID t \<and> ont_PortID b = ont_PortID t
                            \<and> ont_ONTID b = ont_ONTID t \<and> ont_Slot b = ont_Slot t)
      then Some Position_exists else None)"

definition checkPhoneUnclaimed :: "string \<Rightarrow> uuid \<Rightarrow> ONT list \<Rightarrow> bool" where
  "checkPhoneUnclaimed phone excludeID ts \<longleftrightarrow>
     \<not> (\<exists>b \<in> set ts. ont_Phone b = phone \<and> (excludeID \<noteq> uuid_nil \<longrightarrow> ont_ID b \<noteq> excludeID))"

definition resolvePhone :: "string \<Rightarrow> uuid \<Rightarrow> ONT list \<Rightarrow> inv_error + string" where
  "resolvePhone raw excludeID ts =
     (if raw = [] then Inr []
      else case NormalizePhone raw of
             None \<Rightarrow> Inl ErrValidation
           | Some phone \<Rightarrow> if checkPhoneUnclaimed phone excludeID ts then Inr phone else Inl ErrValidation)"

definition GetByID :: "uuid \<Rightarrow> ONT list \<Rightarrow> inv_error + ONT" where
  "GetByID i ts = (case find (\<lambda>t. ont_ID t = i) ts of None \<Rightarrow> Inl ONT_not_found | Some t \<Rightarrow> Inr t)"

definition GetBySerialNumber :: "string \<Rightarrow> ONT list \<Rightarrow> inv_error + ONT" where
  "GetBySerialNumber serial ts =
     (case min_row ont_ID (filter (\<lambda>t. ont_SerialNumber t = serial) ts) of None \<Rightarrow> Inl ONT_not_found | Some t \<Rightarrow> Inr t)"

definition CreateONT :: "(uuid list \<Rightarrow> uuid) \<Rightarrow> time \<Rightarrow> ONT \<Rightarrow> inventory \<Rightarrow> inv_error + inventory" where
  "CreateONT uuidNew now t s =
     (if \<not> (\<exists>l \<in> set (iv_olts s). olt_ID l = ont_OLTID t) then Inl OLT_not_found
      else case checkUnclaimed t (iv_onts s) of
             Some e \<Rightarrow> Inl e
           | None \<Rightarrow>
        (case resolvePhone (ont_Phone t) uuid_nil (iv_onts s) of
           Inl e \<Rightarrow> Inl e
         | Inr phone \<Rightarrow>
             (case db_create uuidNew now
                     (t\<lparr>ont_Phone := phone,
                        ont_Status := if ont_Status t = [] then ONTStatusUnknown else ont_Status t\<rparr>)
                     (iv_onts s) of
                None \<Rightarrow> Inl Database_error
              | Some ts \<Rightarrow> Inr (s\<lparr>iv_onts := ts\<rparr>))))"

text \<open>The columns a caller of \<open>Update\<close> asks to write; the request of the API has three of them.\<close>

record ont_update =
  up_serial_number :: "string option"
  up_phone :: "string option"
  up_description :: "string option"
  up_status :: "string option"

fun opt_column :: "('a \<Rightarrow> ont_column) \<Rightarrow> 'a option \<Rightarrow> ont_column list" where
  "opt_column c None = []"
| "opt_column c (Some v) = [c v]"

definition ontUpdates :: "string option \<Rightarrow> string option \<Rightarrow> string option \<Rightarrow> ont_update" where
  "ontUpdates description status phone =
     \<lparr>up_serial_number = None, up_phone = phone, up_description = description, up_status = status\<rparr>"

definition update_serial_check :: "uuid \<Rightarrow> ONT \<Rightarrow> string option \<Rightarrow> ONT list \<Rightarrow> bool" where
  "update_serial_check i t new ts =
     (case new of
        None \<Rightarrow> True
      | Some serial \<Rightarrow>
          \<not> (serial \<noteq> [] \<and> serial \<noteq> ont_SerialNumber t
             \<and> (\<exists>b \<in> set ts. ont_SerialNumber b = serial \<and> ont_ID b \<noteq> i)))"

definition update_phone :: "uuid \<Rightarrow> string option \<Rightarrow> ONT list \<Rightarrow> inv_error + string option" where
  "update_phone i new ts =
     (case new of
        None \<Rightarrow> Inr None
      | Some raw \<Rightarrow> (case resolvePhone raw i ts of Inl e \<Rightarrow> Inl e | Inr phone \<Rightarrow> Inr (Some phone)))"

definition UpdateONT :: "time \<Rightarrow> uuid \<Rightarrow> ont_update \<Rightarrow> inventory \<Rightarrow> inv_error + inventory" where
  "UpdateONT now i u s =
     (case GetByID i (iv_onts s) of
        Inl e \<Rightarrow> Inl e
      | Inr t \<Rightarrow>
          if \<not> update_serial_check i t (up_serial_number u) (iv_onts s)
          then Inl (Serial_exists (the (up_serial_number u)))
          else case update_phone i (up_phone u) (iv_onts s) of
                 Inl e \<Rightarrow> Inl e
               | Inr phone \<Rightarrow>
                   (case db_updates i
                           (opt_column C_serial_number (up_serial_number u) @ opt_column C_phone phone
                            @ opt_column C_description (up_description u) @ opt_column C_status (up_status u)
                            @ [C_updated_at now]) (iv_onts s) of
                      None \<Rightarrow> Inl Database_error
                    | Some ts \<Rightarrow> Inr (s\<lparr>iv_onts := ts\<rparr>)))"

definition DeleteONT :: "uuid \<Rightarrow> inventory \<Rightarrow> inv_error + inventory" where
  "DeleteONT i s =
     (if \<not> (\<exists>t \<in> set (iv_onts s). ont_ID t = i) then Inl ONT_not_found
      else Inr (s\<lparr>iv_onts := filter (\<lambda>t. ont_ID t \<noteq> i) (iv_onts s),
                  iv_metrics := filter (\<lambda>m. mr_ONTID m \<noteq> i) (iv_metrics s),
                  iv_events := filter (\<lambda>e. ev_ONTID e \<noteq> i) (iv_events s)\<rparr>))"

definition status_columns :: "time \<Rightarrow> string \<Rightarrow> ont_column list" where
  "status_columns now status =
     [C_status status, C_updated_at now]
     @ (if status = ONTStatusOnline then [C_last_seen_at now, C_last_online now]
        else [C_last_offline now, C_last_offline_reason status])"

definition write_ont :: "uuid \<Rightarrow> ont_column list \<Rightarrow> inventory \<Rightarrow> inv_error + inventory" where
  "write_ont i cs s =
     (case db_updates i cs (iv_onts s) of None \<Rightarrow> Inl Database_error | Some ts \<Rightarrow> Inr (s\<lparr>iv_onts := ts\<rparr>))"

definition UpdateStatus :: "time \<Rightarrow> uuid \<Rightarrow> string \<Rightarrow> inventory \<Rightarrow> inv_error + inventory" where
  "UpdateStatus now i status s = write_ont i (status_columns now status) s"

definition uptime_columns :: "time \<Rightarrow> ONT \<Rightarrow> ont_column list" where
  "uptime_columns now t =
     (case ont_LastOnline t of
        Some since \<Rightarrow> if ont_Status t = ONTStatusOnline then [C_uptime (seconds (now - since))] else []
      | None \<Rightarrow> [])
     @ (case ont_LastOffline t of
          Some since \<Rightarrow> if ont_Status t \<noteq> ONTStatusOnline then [C_last_down_time_duration (seconds (now - since))] else []
        | None \<Rightarrow> [])"

definition UpdateUptimeMetrics :: "time \<Rightarrow> uuid \<Rightarrow> inventory \<Rightarrow> inv_error + inventory" where
  "UpdateUptimeMetrics now i s =
     (case GetByID i (iv_onts s) of
        Inl e \<Rightarrow> Inl e
      | Inr t \<Rightarrow>
          if uptime_columns now t = [] then Inr s
          else write_ont i (uptime_columns now t @ [C_updated_at now]) s)"

definition at_position :: "uuid \<Rightarrow> int \<Rightarrow> int \<Rightarrow> int \<Rightarrow> ONT \<Rightarrow> bool" where
  "at_position olt slot port onu t \<longleftrightarrow>
     ont_OLTID t = olt \<and> ont_PortID t = port \<and> ont_ONTID t = onu
     \<and> (if slot > 0 then ont_Slot t = Some slot else ont_Slot t = None)"

definition GetByOLTAndPosition :: "uuid \<Rightarrow> int \<Rightarrow> int \<Rightarrow> int \<Rightarrow> ONT list \<Rightarrow> ONT option" where
  "GetByOLTAndPosition olt slot port onu ts = min_row ont_ID (filter (at_position olt slot port onu) ts)"

section \<open>A subscriber's number and the port a drop lands in\<close>

definition RecordPhoneIfUnclaimed :: "time \<Rightarrow> uuid \<Rightarrow> string \<Rightarrow> inventory \<Rightarrow> inv_error + bool \<times> inventory" where
  "RecordPhoneIfUnclaimed now i phone s =
     (case GetByID i (iv_onts s) of
        Inl e \<Rightarrow> Inl e
      | Inr t \<Rightarrow>
          if ont_Phone t \<noteq> [] then Inr (False, s)
          else case resolvePhone phone i (iv_onts s) of
                 Inl e \<Rightarrow> if e = ErrValidation then Inr (False, s) else Inl e
               | Inr resolved \<Rightarrow>
                   if resolved = [] then Inr (False, s)
                   else (case write_ont i [C_phone resolved, C_updated_at now] s of
                           Inl e \<Rightarrow> Inl e | Inr s' \<Rightarrow> Inr (True, s')))"

definition ReleasePhone :: "time \<Rightarrow> uuid \<Rightarrow> string \<Rightarrow> inventory \<Rightarrow> inv_error + bool \<times> inventory" where
  "ReleasePhone now i phone s =
     (case GetByID i (iv_onts s) of
        Inl e \<Rightarrow> Inl e
      | Inr t \<Rightarrow>
          if ont_Phone t = [] then Inr (False, s)
          else if NormalizePhone phone \<noteq> Some (ont_Phone t) then Inr (False, s)
          else (case write_ont i [C_phone [], C_updated_at now] s of
                  Inl e \<Rightarrow> Inl e | Inr s' \<Rightarrow> Inr (True, s')))"

definition validateODPPortPlacement :: "uuid \<Rightarrow> int \<Rightarrow> uuid \<Rightarrow> inventory \<Rightarrow> inv_error option" where
  "validateODPPortPlacement odp port excluding s =
     (case find (\<lambda>n. mn_ID n = odp \<and> mn_Type n = NodeODP) (iv_nodes s) of
        None \<Rightarrow> Some ErrValidation
      | Some node \<Rightarrow>
          if port < 1 then Some ErrValidation
          else if mn_Capacity node > 0 \<and> port > mn_Capacity node then Some ErrValidation
          else if (\<exists>t \<in> set (iv_onts s). ont_ODPID t = Some odp \<and> ont_ODPPort t = Some port \<and> ont_ID t \<noteq> excluding)
          then Some ErrValidation else None)"

definition validateRegisterODP :: "uuid option \<Rightarrow> int option \<Rightarrow> inventory \<Rightarrow> inv_error option" where
  "validateRegisterODP odp port s =
     (case (odp, port) of
        (None, None) \<Rightarrow> None
      | (None, Some _) \<Rightarrow> Some ErrValidation
      | (Some _, None) \<Rightarrow> Some ErrValidation
      | (Some b, Some p) \<Rightarrow> validateODPPortPlacement b p uuid_nil s)"

definition AssignONTToODP :: "time \<Rightarrow> uuid \<Rightarrow> uuid \<Rightarrow> int \<Rightarrow> inventory \<Rightarrow> inv_error + inventory" where
  "AssignONTToODP now i odp port s =
     (case validateODPPortPlacement odp port i s of
        Some e \<Rightarrow> Inl e
      | None \<Rightarrow>
          (case db_updates i [C_odp_id (Some odp), C_odp_port (Some port), C_updated_at now] (iv_onts s) of
             None \<Rightarrow> Inl ErrValidation
           | Some ts \<Rightarrow> if (\<exists>t \<in> set (iv_onts s). ont_ID t = i) then Inr (s\<lparr>iv_onts := ts\<rparr>) else Inl ErrRecordNotFound))"

definition UnassignONTFromODP :: "time \<Rightarrow> uuid \<Rightarrow> inventory \<Rightarrow> inv_error + inventory" where
  "UnassignONTFromODP now i s =
     (case db_updates i [C_odp_id None, C_odp_port None, C_updated_at now] (iv_onts s) of
        None \<Rightarrow> Inl Database_error
      | Some ts \<Rightarrow> if (\<exists>t \<in> set (iv_onts s). ont_ID t = i) then Inr (s\<lparr>iv_onts := ts\<rparr>) else Inl ErrRecordNotFound)"

section \<open>Discovery\<close>

record BulkRegisterResult =
  br_Registered :: nat
  br_Skipped :: nat
  br_Errors :: "(int \<times> int \<times> inv_error) list"

definition StatusMap :: "int \<Rightarrow> string" where
  "StatusMap phaseState =
     (if phaseState = 3 then ''online'' else if phaseState = 4 then ''dying_gasp''
      else if phaseState = 6 then ''offline'' else if phaseState = 1 then ''los'' else ''unknown'')"

definition discoveredSlot :: "DiscoveredONT \<Rightarrow> int option" where
  "discoveredSlot d = (if do_Slot d \<le> 0 then None else Some (do_Slot d))"

definition rowForDiscovered :: "uuid \<Rightarrow> DiscoveredONT \<Rightarrow> ONT list \<Rightarrow> ONT option" where
  "rowForDiscovered olt d ts =
     (case GetByOLTAndPosition olt (do_Slot d) (do_PortID d) (do_ONTID d) ts of
        Some t \<Rightarrow> Some t
      | None \<Rightarrow> if do_Slot d > 0 then GetByOLTAndPosition olt 0 (do_PortID d) (do_ONTID d) ts else None)"

definition newONTFromDiscovery :: "uuid \<Rightarrow> DiscoveredONT \<Rightarrow> ONT" where
  "newONTFromDiscovery olt d =
     \<lparr>ont_ID = uuid_nil, ont_OLTID = olt, ont_PortID = do_PortID d, ont_ONTID = do_ONTID d,
      ont_Slot = discoveredSlot d, ont_SerialNumber = do_SerialNumber d, ont_Name = do_Name d,
      ont_Description = do_Description d, ont_Phone = [], ont_Status = StatusMap (do_RunState d),
      ont_DeviceType = do_DeviceType d, ont_HardwareVersion = do_HardwareVersion d,
      ont_SoftwareVersion = do_SoftwareVersion d, ont_IPAddress = do_IPAddress d,
      ont_MACAddress = do_MACAddress d, ont_ODPID = None, ont_ODPPort = None, ont_RxPower = None,
      ont_TxPower = None, ont_Distance = 0, ont_LastOnline = None, ont_LastOffline = None,
      ont_LastOfflineReason = [], ont_Uptime = 0, ont_LastDownTimeDuration = 0,
      ont_LastSeenAt = None, ont_CreatedAt = 0, ont_UpdatedAt = 0\<rparr>"

definition fills :: "(string \<Rightarrow> ont_column) \<Rightarrow> string \<Rightarrow> string \<Rightarrow> ont_column list" where
  "fills c seen stored = (if seen \<noteq> [] \<and> stored = [] then [c seen] else [])"

definition replaces :: "(string \<Rightarrow> ont_column) \<Rightarrow> string \<Rightarrow> string \<Rightarrow> ont_column list" where
  "replaces c seen stored = (if seen \<noteq> [] \<and> stored \<noteq> seen then [c seen] else [])"

definition discoveryUpdates :: "DiscoveredONT \<Rightarrow> ONT \<Rightarrow> ont_column list" where
  "discoveryUpdates d t =
     replaces C_name (do_Name d) (ont_Name t)
     @ replaces C_description (do_Description d) (ont_Description t)
     @ fills C_device_type (do_DeviceType d) (ont_DeviceType t)
     @ fills C_hardware_version (do_HardwareVersion d) (ont_HardwareVersion t)
     @ fills C_software_version (do_SoftwareVersion d) (ont_SoftwareVersion t)
     @ fills C_ip_address (do_IPAddress d) (ont_IPAddress t)
     @ fills C_mac_address (do_MACAddress d) (ont_MACAddress t)
     @ (if do_Slot d > 0 \<and> ont_Slot t = None then [C_slot (do_Slot d)] else [])"

definition register_one ::
  "(uuid list \<Rightarrow> uuid) \<Rightarrow> time \<Rightarrow> uuid \<Rightarrow> DiscoveredONT \<Rightarrow> BulkRegisterResult \<times> inventory \<Rightarrow> BulkRegisterResult \<times> inventory" where
  "register_one uuidNew now olt d rs =
     (let (r, s) = rs in
      case rowForDiscovered olt d (iv_onts s) of
        Some t \<Rightarrow>
          let updates = discoveryUpdates d t in
          if updates = [] then (r\<lparr>br_Skipped := br_Skipped r + 1\<rparr>, s)
          else (case write_ont (ont_ID t) (updates @ [C_updated_at now]) s of
                  Inr s' \<Rightarrow> (r\<lparr>br_Registered := br_Registered r + 1\<rparr>, s')
                | Inl _ \<Rightarrow> (r, s))
      | None \<Rightarrow>
          (case CreateONT uuidNew now (newONTFromDiscovery olt d) s of
             Inl e \<Rightarrow> (r\<lparr>br_Errors := br_Errors r @ [(do_PortID d, do_ONTID d, e)]\<rparr>, s)
           | Inr s' \<Rightarrow> (r\<lparr>br_Registered := br_Registered r + 1\<rparr>, s')))"

definition BulkRegisterFromDiscovery ::
  "(uuid list \<Rightarrow> uuid) \<Rightarrow> time \<Rightarrow> uuid \<Rightarrow> DiscoveredONT list \<Rightarrow> inventory \<Rightarrow> BulkRegisterResult \<times> inventory" where
  "BulkRegisterFromDiscovery uuidNew now olt ds s =
     fold (register_one uuidNew now olt) ds (\<lparr>br_Registered = 0, br_Skipped = 0, br_Errors = []\<rparr>, s)"

definition pruneGracePeriod :: duration where "pruneGracePeriod = 15 * minute"

definition stale_ids :: "time \<Rightarrow> uuid \<Rightarrow> DiscoveredONT list \<Rightarrow> ONT list \<Rightarrow> uuid list" where
  "stale_ids now olt ds ts =
     map ont_ID (filter (\<lambda>t. ont_OLTID t = olt
                            \<and> (ont_PortID t, ont_ONTID t) \<notin> (\<lambda>d. (do_PortID d, do_ONTID d)) ` set ds
                            \<and> \<not> ont_CreatedAt t > now - pruneGracePeriod) ts)"

definition PruneMissingFromDiscovery :: "time \<Rightarrow> uuid \<Rightarrow> DiscoveredONT list \<Rightarrow> inventory \<Rightarrow> nat \<times> inventory" where
  "PruneMissingFromDiscovery now olt ds s =
     (if ds = [] then (0, s)
      else let stale = stale_ids now olt ds (iv_onts s) in
           if stale = [] then (0, s)
           else (length stale,
                 s\<lparr>iv_onts := filter (\<lambda>t. ont_ID t \<notin> set stale) (iv_onts s),
                   iv_metrics := filter (\<lambda>m. mr_ONTID m \<notin> set stale) (iv_metrics s),
                   iv_events := filter (\<lambda>e. ev_ONTID e \<notin> set stale) (iv_events s)\<rparr>))"

section \<open>Reading an OLT's rows a page at a time\<close>

definition defaultONTBatch :: int where "defaultONTBatch = 1000"

definition ont_page :: "uuid \<Rightarrow> uuid \<Rightarrow> nat \<Rightarrow> ONT list \<Rightarrow> ONT list" where
  "ont_page olt cursor batch ts =
     take batch (sort_key ont_ID
       (filter (\<lambda>t. ont_OLTID t = olt \<and> (cursor \<noteq> uuid_nil \<longrightarrow> ont_ID t > cursor)) ts))"

text \<open>
  The callback works on a state the rows are read from anew for every page. The loop as the code has
  it may go on for ever, \<open>None\<close> when it does.
\<close>

partial_function (option) each_page ::
  "('s \<Rightarrow> ONT list) \<Rightarrow> uuid \<Rightarrow> nat \<Rightarrow> (ONT list \<Rightarrow> 's \<Rightarrow> 'e + 's) \<Rightarrow> uuid \<Rightarrow> 's \<Rightarrow> ('e + 's) option" where
  "each_page rows olt batch f cursor s =
     (let page = ont_page olt cursor batch (rows s) in
      if page = [] then Some (Inr s)
      else case f page s of
             Inl e \<Rightarrow> Some (Inl e)
           | Inr s' \<Rightarrow> each_page rows olt batch f (ont_ID (last page)) s')"

definition EachONTOfOLT ::
  "('s \<Rightarrow> ONT list) \<Rightarrow> uuid \<Rightarrow> int \<Rightarrow> (ONT list \<Rightarrow> 's \<Rightarrow> 'e + 's) \<Rightarrow> 's \<Rightarrow> ('e + 's) option" where
  "EachONTOfOLT rows olt batch f s =
     each_page rows olt (nat (if batch < 1 then defaultONTBatch else batch)) f uuid_nil s"

section \<open>What holds of the table\<close>

definition same_place :: "ONT \<Rightarrow> ONT \<Rightarrow> bool" where
  "same_place a b \<longleftrightarrow>
     ont_OLTID a = ont_OLTID b \<and> ont_Slot a = ont_Slot b \<and> ont_PortID a = ont_PortID b \<and> ont_ONTID a = ont_ONTID b"

text \<open>Two rows: different boxes in different places, a card not known being a place of its own.\<close>

definition onts_apart :: "ONT \<Rightarrow> ONT \<Rightarrow> bool" where
  "onts_apart a b \<longleftrightarrow> ont_ID a \<noteq> ont_ID b \<and> \<not> same_place a b \<and> \<not> index_clash a b"

definition ont_fine :: "ONT \<Rightarrow> bool" where
  "ont_fine t \<longleftrightarrow>
     ont_ID t \<noteq> uuid_nil
     \<and> (ont_Phone t = [] \<or> NormalizePhone (ont_Phone t) = Some (ont_Phone t))
     \<and> (ont_ODPID t = None \<longleftrightarrow> ont_ODPPort t = None)"

definition onts_ok :: "ONT list \<Rightarrow> bool" where
  "onts_ok ts \<longleftrightarrow> sorted_wrt onts_apart ts \<and> (\<forall>t \<in> set ts. ont_fine t)"

definition inventory_ok :: "inventory \<Rightarrow> bool" where
  "inventory_ok s \<longleftrightarrow>
     onts_ok (iv_onts s)
     \<and> ev_ONTID ` set (iv_events s) \<subseteq> ont_ID ` set (iv_onts s)
     \<and> mr_ONTID ` set (iv_metrics s) \<subseteq> ont_ID ` set (iv_onts s)"

lemma normal_phone_digits:
  assumes "list_all is_digit n" "HasPrefix n ''62''" "\<not> length n < minPhoneDigits"
  shows "NormalizePhone n = Some n"
proof -
  have all: "filter is_digit n = n" using assms(1) by (simp add: filter_id_conv list_all_iff)
  have "\<not> HasPrefix n ''0''" using assms(2) by (cases n) (auto simp: HasPrefix_code)
  then show ?thesis using assms(2,3) by (simp add: NormalizePhone_def all)
qed

lemma NormalizePhone_shape:
  assumes "NormalizePhone raw = Some p"
  shows "list_all is_digit p" "HasPrefix p ''62''" "\<not> length p < minPhoneDigits"
proof -
  have d: "list_all is_digit (filter is_digit raw)" by (simp add: list_all_iff)
  have c: "list_all is_digit (''62'' @ TrimPrefix (filter is_digit raw) ''0'')"
    using d by (auto simp: TrimPrefix_def list_all_iff is_digit_iff dest!: in_set_dropD)
  have h: "HasPrefix (''62'' @ n) ''62''" for n by (simp add: HasPrefix_code)
  show "list_all is_digit p" "HasPrefix p ''62''" "\<not> length p < minPhoneDigits"
    using assms d c h by (auto simp only: NormalizePhone_def Let_def split: if_splits option.splits)
qed

lemma NormalizePhone_idem: "NormalizePhone raw = Some p \<Longrightarrow> NormalizePhone p = Some p"
  by (rule normal_phone_digits) (auto dest: NormalizePhone_shape)

lemma index_clash_swap: "index_clash a b \<Longrightarrow> index_clash b a"
  unfolding index_clash_def by (elim disjE conjE) simp_all

lemma index_clash_sym: "index_clash a b \<longleftrightarrow> index_clash b a"
  using index_clash_swap by blast

lemma clash_moved:
  assumes "index_clash a b" "\<not> index_clash t b"
    and "ont_SerialNumber a = ont_SerialNumber t" "ont_Phone a = ont_Phone t"
    and "ont_ODPID a = ont_ODPID t" "ont_ODPPort a = ont_ODPPort t"
  shows "same_place a b \<and> ont_Slot a \<noteq> None"
  using assms(1,2) unfolding index_clash_def same_place_def assms(3-6) by blast

lemma same_place_clash: "same_place a b \<Longrightarrow> ont_Slot a \<noteq> None \<Longrightarrow> index_clash a b"
  by (simp add: same_place_def index_clash_def)

lemma onts_apart_sym: "onts_apart a b \<longleftrightarrow> onts_apart b a"
  by (auto simp: onts_apart_def same_place_def index_clash_sym [of a b])

lemma set_columns_simps [simp]:
  "set_columns [] t = t"
  "set_columns (c # cs) t = set_columns cs (set_column c t)"
  by (simp_all add: set_columns_def)

lemma set_columns_append [simp]: "set_columns (cs @ ds) t = set_columns ds (set_columns cs t)"
  by (simp add: set_columns_def)

lemma set_column_fixed [simp]:
  "ont_ID (set_column c t) = ont_ID t" "ont_OLTID (set_column c t) = ont_OLTID t"
  "ont_PortID (set_column c t) = ont_PortID t" "ont_ONTID (set_column c t) = ont_ONTID t"
  "ont_CreatedAt (set_column c t) = ont_CreatedAt t"
  by (cases c; simp)+

lemma set_columns_fixed [simp]:
  "ont_ID (set_columns cs t) = ont_ID t" "ont_OLTID (set_columns cs t) = ont_OLTID t"
  "ont_PortID (set_columns cs t) = ont_PortID t" "ont_ONTID (set_columns cs t) = ont_ONTID t"
  "ont_CreatedAt (set_columns cs t) = ont_CreatedAt t"
  by (induction cs arbitrary: t) simp_all

lemma set_columns_slot: "ont_Slot (set_columns cs t) = ont_Slot t \<or> ont_Slot (set_columns cs t) \<noteq> None"
proof (induction cs arbitrary: t)
  case (Cons c cs)
  have "ont_Slot (set_column c t) = ont_Slot t \<or> ont_Slot (set_column c t) \<noteq> None" by (cases c) simp_all
  then show ?case using Cons.IH [of "set_column c t"] by auto
qed simp

fun harmless :: "ont_column \<Rightarrow> bool" where
  "harmless (C_phone v) = False"
| "harmless (C_odp_id v) = False"
| "harmless (C_odp_port v) = False"
| "harmless c = True"

lemma ont_fine_harmless: "list_all harmless cs \<Longrightarrow> ont_fine (set_columns cs t) = ont_fine t"
proof (induction cs arbitrary: t)
  case (Cons c cs)
  have "ont_fine (set_column c t) = ont_fine t" using Cons.prems by (cases c) (simp_all add: ont_fine_def)
  then show ?case using Cons by simp
qed simp

lemma sorted_wrt_update_where:
  assumes "sorted_wrt R xs"
    and "\<And>x y. x \<in> set xs \<Longrightarrow> y \<in> set xs \<Longrightarrow> P x \<Longrightarrow> \<not> P y \<Longrightarrow> R (f x) y \<and> R y (f x)"
    and "\<And>x y. R x y \<Longrightarrow> \<not> (P x \<and> P y)"
  shows "sorted_wrt R (update_where P f xs)"
  using assms
proof (induction xs)
  case Nil
  then show ?case by simp
next
  case (Cons x xs)
  have "sorted_wrt R (update_where P f xs)"
    by (rule Cons.IH) (use Cons.prems in auto)
  moreover have "\<forall>y \<in> set (update_where P f xs). R (if P x then f x else x) y"
    using Cons.prems by (fastforce simp: set_update_where)
  ultimately show ?case by simp
qed

lemma apart_unique: "sorted_wrt onts_apart ts \<Longrightarrow> distinct (map ont_ID ts)"
  by (induction ts) (auto simp: onts_apart_def)

lemma apart_pair: "sorted_wrt onts_apart ts \<Longrightarrow> a \<in> set ts \<Longrightarrow> b \<in> set ts \<Longrightarrow> ont_ID a \<noteq> ont_ID b \<Longrightarrow> onts_apart a b"
  by (induction ts) (auto simp: onts_apart_sym)

lemma find_row:
  assumes "distinct (map ont_ID ts)" "t \<in> set ts"
  shows "find (\<lambda>b. ont_ID b = ont_ID t) ts = Some t"
  using assms by (induction ts) (auto simp: rev_image_eqI)

lemma find_row_None: "find (\<lambda>b. ont_ID b = i) ts = None \<longleftrightarrow> i \<notin> ont_ID ` set ts"
  by (auto simp: find_None_iff)

lemma db_updates_cases:
  assumes "db_updates i cs ts = Some ts'"
  obtains (missing) "i \<notin> ont_ID ` set ts" "ts' = ts"
  | (written) t where "t \<in> set ts" "ont_ID t = i"
      "\<forall>b \<in> set ts. ont_ID b \<noteq> i \<longrightarrow> \<not> index_clash (set_columns cs t) b"
      "ts' = update_where (\<lambda>t. ont_ID t = i) (set_columns cs) ts"
proof (cases "find (\<lambda>t. ont_ID t = i) ts")
  case None
  then have "i \<notin> ont_ID ` set ts" using find_row_None by metis
  moreover have "ts' = ts" using assms None by (simp add: db_updates_def)
  ultimately show ?thesis by (rule missing)
next
  case (Some t)
  then have "t \<in> set ts" "ont_ID t = i" by (auto dest: find_SomeD)
  then show ?thesis using assms Some by (intro written) (auto simp: db_updates_def split: if_splits)
qed

lemma onts_ok_updates:
  assumes ok: "onts_ok ts"
    and upd: "db_updates i cs ts = Some ts'"
    and fine: "\<And>t. t \<in> set ts \<Longrightarrow> ont_ID t = i \<Longrightarrow> ont_fine (set_columns cs t)"
  shows "onts_ok ts'"
  using upd
proof (cases rule: db_updates_cases)
  case missing
  then show ?thesis using ok by simp
next
  case (written t)
  have srt: "sorted_wrt onts_apart ts" using ok by (simp add: onts_ok_def)
  have only: "x = t" if "x \<in> set ts" "ont_ID x = i" for x
    by (rule distinct_key_unique [OF apart_unique [OF srt] that(1) written(1)]) (simp add: that(2) written(2))
  have apart: "onts_apart (set_columns cs t) y" if y: "y \<in> set ts" "ont_ID y \<noteq> i" for y
  proof -
    have far: "onts_apart t y" using apart_pair [OF srt written(1) y(1)] written(2) y(2) by simp
    have free: "\<not> index_clash (set_columns cs t) y" using written(3) y by blast
    have "\<not> same_place (set_columns cs t) y"
    proof (cases "ont_Slot (set_columns cs t) = ont_Slot t")
      case True
      then show ?thesis using far by (simp add: onts_apart_def same_place_def)
    next
      case False
      then show ?thesis using set_columns_slot same_place_clash free by blast
    qed
    then show ?thesis using far free by (simp add: onts_apart_def)
  qed
  have "sorted_wrt onts_apart ts'"
    unfolding written(4)
    by (rule sorted_wrt_update_where [OF srt])
      (use only apart onts_apart_sym in \<open>blast, auto simp: onts_apart_def\<close>)
  then show ?thesis
    using ok fine only written(1,2,4) by (auto simp: onts_ok_def set_update_where)
qed

lemma ids_updates: "db_updates i cs ts = Some ts' \<Longrightarrow> map ont_ID ts' = map ont_ID ts"
  by (erule db_updates_cases) (auto simp: update_where_def)

lemma ids_updates_set: "db_updates i cs ts = Some ts' \<Longrightarrow> ont_ID ` set ts' = ont_ID ` set ts"
  by (drule ids_updates) (metis set_map)

lemma inventory_ok_updates:
  assumes "inventory_ok s" "db_updates i cs (iv_onts s) = Some ts"
    and "\<And>t. t \<in> set (iv_onts s) \<Longrightarrow> ont_ID t = i \<Longrightarrow> ont_fine (set_columns cs t)"
  shows "inventory_ok (s\<lparr>iv_onts := ts\<rparr>)"
  using assms onts_ok_updates [OF _ assms(2)] ids_updates_set [OF assms(2)]
  by (auto simp: inventory_ok_def)

lemma inventory_fine: "inventory_ok s \<Longrightarrow> t \<in> set (iv_onts s) \<Longrightarrow> ont_fine t"
  by (simp add: inventory_ok_def onts_ok_def)

lemma harmless_opt [simp]:
  "list_all harmless (opt_column C_serial_number v)" "list_all harmless (opt_column C_description v)"
  "list_all harmless (opt_column C_status v)"
  by (cases v; simp)+

lemma write_ont_ok:
  assumes "inventory_ok s" "write_ont i cs s = Inr s'" "list_all harmless cs"
  shows "inventory_ok s'"
  using assms ont_fine_harmless inventory_fine
  by (auto simp: write_ont_def split: option.splits intro!: inventory_ok_updates)

lemma onts_ok_snoc:
  assumes "onts_ok ts" "ont_fine t" "\<forall>b \<in> set ts. onts_apart b t"
  shows "onts_ok (ts @ [t])"
  using assms by (auto simp: onts_ok_def sorted_wrt_append)

lemma resolvePhone_fine: "resolvePhone raw i ts = Inr p \<Longrightarrow> p = [] \<or> NormalizePhone p = Some p"
  by (auto simp: resolvePhone_def intro: NormalizePhone_idem split: if_splits option.splits)

lemma checkUnclaimed_place:
  assumes "checkUnclaimed t ts = None" "b \<in> set ts"
  shows "\<not> same_place b t"
  using assms by (auto simp: checkUnclaimed_def same_place_def split: if_splits)

lemma db_create_cases:
  assumes "db_create uuidNew now t ts = Some ts'" "ont_ID t = uuid_nil"
  obtains row where
    "row = t\<lparr>ont_ID := uuidNew (map ont_ID ts), ont_CreatedAt := now, ont_UpdatedAt := now\<rparr>"
    "ts' = ts @ [row]" "\<forall>b \<in> set ts. ont_ID b \<noteq> ont_ID row \<and> \<not> index_clash row b"
  using assms by (auto simp: db_create_def Let_def split: if_splits)

lemma CreateONT_cases:
  assumes "CreateONT uuidNew now t s = Inr s'" "ont_ID t = uuid_nil"
  obtains p row where
    "checkUnclaimed t (iv_onts s) = None" "resolvePhone (ont_Phone t) uuid_nil (iv_onts s) = Inr p"
    "row = t\<lparr>ont_Phone := p,
             ont_Status := if ont_Status t = [] then ONTStatusUnknown else ont_Status t,
             ont_ID := uuidNew (map ont_ID (iv_onts s)), ont_CreatedAt := now, ont_UpdatedAt := now\<rparr>"
    "\<forall>b \<in> set (iv_onts s). ont_ID b \<noteq> ont_ID row \<and> \<not> index_clash row b"
    "s' = s\<lparr>iv_onts := iv_onts s @ [row]\<rparr>"
proof -
  let ?t = "\<lambda>p. t\<lparr>ont_Phone := p, ont_Status := if ont_Status t = [] then ONTStatusUnknown else ont_Status t\<rparr>"
  obtain p ts where c: "checkUnclaimed t (iv_onts s) = None"
    "resolvePhone (ont_Phone t) uuid_nil (iv_onts s) = Inr p"
    and d: "db_create uuidNew now (?t p) (iv_onts s) = Some ts" and s': "s' = s\<lparr>iv_onts := ts\<rparr>"
    using assms(1) by (auto simp add: CreateONT_def split: if_split_asm option.split_asm sum.split_asm)
  have nil: "ont_ID (?t p) = uuid_nil" using assms(2) by simp
  show thesis
    by (rule db_create_cases [OF d nil]) (rule that [OF c], simp_all add: s')
qed

definition new_ids :: "(uuid list \<Rightarrow> uuid) \<Rightarrow> bool" where
  "new_ids uuidNew \<longleftrightarrow> (\<forall>ids. uuidNew ids \<noteq> uuid_nil \<and> uuidNew ids \<notin> set ids)"

lemma CreateONT_ok:
  assumes "inventory_ok s" "CreateONT uuidNew now t s = Inr s'" "ont_ID t = uuid_nil"
    and "ont_ODPID t = None" "ont_ODPPort t = None" "new_ids uuidNew"
  shows "inventory_ok s'"
proof (rule CreateONT_cases [OF assms(2,3)])
  fix p row
  assume c: "checkUnclaimed t (iv_onts s) = None" "resolvePhone (ont_Phone t) uuid_nil (iv_onts s) = Inr p"
    and row: "row = t\<lparr>ont_Phone := p,
             ont_Status := if ont_Status t = [] then ONTStatusUnknown else ont_Status t,
             ont_ID := uuidNew (map ont_ID (iv_onts s)), ont_CreatedAt := now, ont_UpdatedAt := now\<rparr>"
    and free: "\<forall>b \<in> set (iv_onts s). ont_ID b \<noteq> ont_ID row \<and> \<not> index_clash row b"
    and s': "s' = s\<lparr>iv_onts := iv_onts s @ [row]\<rparr>"
  have "ont_fine row"
    using resolvePhone_fine [OF c(2)] assms(4-6) by (auto simp: row ont_fine_def new_ids_def)
  moreover have "\<forall>b \<in> set (iv_onts s). onts_apart b row"
    using free checkUnclaimed_place [OF c(1)]
    by (simp add: onts_apart_def index_clash_sym [of _ row]) (simp add: same_place_def row)
  ultimately show ?thesis
    using assms(1) onts_ok_snoc [of "iv_onts s" row] by (auto simp: inventory_ok_def s')
qed

lemma UpdateONT_ok:
  assumes "inventory_ok s" "UpdateONT now i u s = Inr s'"
  shows "inventory_ok s'"
proof -
  obtain phone ts where p: "update_phone i (up_phone u) (iv_onts s) = Inr phone"
    and d: "db_updates i (opt_column C_serial_number (up_serial_number u) @ opt_column C_phone phone
              @ opt_column C_description (up_description u) @ opt_column C_status (up_status u)
              @ [C_updated_at now]) (iv_onts s) = Some ts"
    and s': "s' = s\<lparr>iv_onts := ts\<rparr>"
    using assms(2) by (auto simp: UpdateONT_def split: if_splits option.splits sum.splits)
  have ph: "case phone of None \<Rightarrow> True | Some v \<Rightarrow> v = [] \<or> NormalizePhone v = Some v"
    using p by (auto simp: update_phone_def dest: resolvePhone_fine split: option.splits sum.splits)
  have set_phone: "ont_fine t \<Longrightarrow> ont_fine (set_columns (opt_column C_phone phone) t)" for t
    using ph by (cases phone) (auto simp: ont_fine_def)
  show ?thesis
    unfolding s'
    by (rule inventory_ok_updates [OF assms(1) d])
      (simp only: set_columns_append ont_fine_harmless set_phone inventory_fine [OF assms(1)] harmless_opt
         list.pred_inject harmless.simps)
qed

lemma phone_write_ok:
  assumes "inventory_ok s" "write_ont i [C_phone p, C_updated_at now] s = Inr s'"
    and "p = [] \<or> NormalizePhone p = Some p"
  shows "inventory_ok s'"
  using assms inventory_fine [OF assms(1)]
  by (auto simp: write_ont_def ont_fine_def split: option.splits intro!: inventory_ok_updates)

lemma RecordPhone_ok:
  assumes "inventory_ok s" "RecordPhoneIfUnclaimed now i phone s = Inr (done, s')"
  shows "inventory_ok s'"
  using assms
  by (auto simp: RecordPhoneIfUnclaimed_def split: if_splits sum.splits dest: resolvePhone_fine intro: phone_write_ok)

lemma ReleasePhone_ok:
  assumes "inventory_ok s" "ReleasePhone now i phone s = Inr (done, s')"
  shows "inventory_ok s'"
  using assms
  by (auto simp: ReleasePhone_def split: if_splits sum.splits intro: phone_write_ok)

lemma odp_write_ok:
  assumes "inventory_ok s" "(odp = None) = (port = None)"
    and "db_updates i [C_odp_id odp, C_odp_port port, C_updated_at now] (iv_onts s) = Some ts"
  shows "inventory_ok (s\<lparr>iv_onts := ts\<rparr>)"
  by (rule inventory_ok_updates [OF assms(1,3)])
    (use inventory_fine [OF assms(1)] assms(2) in \<open>fastforce simp: ont_fine_def\<close>)

lemma AssignONTToODP_ok: "inventory_ok s \<Longrightarrow> AssignONTToODP now i odp port s = Inr s' \<Longrightarrow> inventory_ok s'"
  by (auto simp: AssignONTToODP_def split: option.splits if_splits
      intro: odp_write_ok [where odp = "Some odp" and port = "Some port"])

lemma UnassignONTFromODP_ok: "inventory_ok s \<Longrightarrow> UnassignONTFromODP now i s = Inr s' \<Longrightarrow> inventory_ok s'"
  by (auto simp: UnassignONTFromODP_def split: option.splits if_splits
      intro: odp_write_ok [where odp = None and port = None])

lemma sorted_wrt_filter_rows: "sorted_wrt R xs \<Longrightarrow> sorted_wrt R (filter P xs)"
  by (induction xs) auto

lemma image_filter_subset:
  "g ` set xs \<subseteq> f ` set ys \<Longrightarrow> g ` {x \<in> set xs. g x \<notin> X} \<subseteq> f ` {x \<in> set ys. f x \<notin> X}"
  by force

lemma removal_ok:
  assumes "inventory_ok s"
  shows "inventory_ok (s\<lparr>iv_onts := filter (\<lambda>t. ont_ID t \<notin> X) (iv_onts s),
                         iv_metrics := filter (\<lambda>m. mr_ONTID m \<notin> X) (iv_metrics s),
                         iv_events := filter (\<lambda>e. ev_ONTID e \<notin> X) (iv_events s)\<rparr>)"
  using assms by (simp add: inventory_ok_def onts_ok_def sorted_wrt_filter_rows image_filter_subset)

lemma DeleteONT_ok: "inventory_ok s \<Longrightarrow> DeleteONT i s = Inr s' \<Longrightarrow> inventory_ok s'"
  using removal_ok [of s "{i}"] by (auto simp: DeleteONT_def split: if_splits)

lemma Prune_ok: "inventory_ok s \<Longrightarrow> inventory_ok (snd (PruneMissingFromDiscovery now olt ds s))"
  using removal_ok [of s "set (stale_ids now olt ds (iv_onts s))"]
  by (simp add: PruneMissingFromDiscovery_def Let_def)

lemma harmless_discovery [simp]: "list_all harmless (discoveryUpdates d t)"
  by (simp add: discoveryUpdates_def replaces_def fills_def)

lemma newONT_simps [simp]:
  "ont_ID (newONTFromDiscovery olt d) = uuid_nil" "ont_ODPID (newONTFromDiscovery olt d) = None"
  "ont_ODPPort (newONTFromDiscovery olt d) = None" "ont_Phone (newONTFromDiscovery olt d) = []"
  "ont_OLTID (newONTFromDiscovery olt d) = olt" "ont_PortID (newONTFromDiscovery olt d) = do_PortID d"
  "ont_ONTID (newONTFromDiscovery olt d) = do_ONTID d"
  "ont_SerialNumber (newONTFromDiscovery olt d) = do_SerialNumber d"
  by (simp_all add: newONTFromDiscovery_def)

lemma register_one_ok:
  assumes "inventory_ok s" "new_ids uuidNew"
  shows "inventory_ok (snd (register_one uuidNew now olt d (r, s)))"
proof -
  have w: "inventory_ok s'" if "write_ont i (discoveryUpdates d t @ [C_updated_at now]) s = Inr s'" for i t s'
    by (rule write_ont_ok [OF assms(1) that]) simp
  have c: "inventory_ok s'" if "CreateONT uuidNew now (newONTFromDiscovery olt d) s = Inr s'" for s'
    by (rule CreateONT_ok [OF assms(1) that]) (simp_all add: assms(2))
  show ?thesis using assms(1) by (auto simp: register_one_def Let_def w c split: option.splits sum.splits)
qed

lemma Bulk_fold_ok:
  assumes "new_ids uuidNew" "inventory_ok (snd rs)"
  shows "inventory_ok (snd (fold (register_one uuidNew now olt) ds rs))"
  using assms(2)
proof (induction ds arbitrary: rs)
  case (Cons d ds)
  have "inventory_ok (snd (register_one uuidNew now olt d rs))"
    using register_one_ok [OF Cons.prems assms(1)] by (cases rs) simp
  then show ?case using Cons.IH by simp
qed simp

section \<open>The properties\<close>

text \<open>The row a \<open>POST /api/v1/onts\<close> asks for.\<close>

definition create_request ::
  "uuid \<Rightarrow> int \<Rightarrow> int \<Rightarrow> string \<Rightarrow> string \<Rightarrow> string \<Rightarrow> string \<Rightarrow> ONT" where
  "create_request olt port onu serial description status phone =
     \<lparr>ont_ID = uuid_nil, ont_OLTID = olt, ont_PortID = port, ont_ONTID = onu, ont_Slot = None,
      ont_SerialNumber = serial, ont_Name = [], ont_Description = description, ont_Phone = phone,
      ont_Status = status, ont_DeviceType = [], ont_HardwareVersion = [], ont_SoftwareVersion = [],
      ont_IPAddress = [], ont_MACAddress = [], ont_ODPID = None, ont_ODPPort = None,
      ont_RxPower = None, ont_TxPower = None, ont_Distance = 0, ont_LastOnline = None,
      ont_LastOffline = None, ont_LastOfflineReason = [], ont_Uptime = 0, ont_LastDownTimeDuration = 0,
      ont_LastSeenAt = None, ont_CreatedAt = 0, ont_UpdatedAt = 0\<rparr>"

datatype inv_op =
    Op_Create uuid int int string string string string
  | Op_Update uuid ont_update
  | Op_Delete uuid
  | Op_Status uuid string
  | Op_Uptime uuid
  | Op_RecordPhone uuid string
  | Op_ReleasePhone uuid string
  | Op_Assign uuid uuid int
  | Op_Unassign uuid
  | Op_Register uuid "DiscoveredONT list"
  | Op_Prune uuid "DiscoveredONT list"

definition kept :: "inventory \<Rightarrow> 'e + inventory \<Rightarrow> inventory" where
  "kept s r = (case r of Inl _ \<Rightarrow> s | Inr s' \<Rightarrow> s')"

fun inv_step :: "(uuid list \<Rightarrow> uuid) \<Rightarrow> time \<times> inv_op \<Rightarrow> inventory \<Rightarrow> inventory" where
  "inv_step new (now, Op_Create olt port onu serial description status phone) s =
     kept s (CreateONT new now (create_request olt port onu serial description status phone) s)"
| "inv_step new (now, Op_Update i u) s = kept s (UpdateONT now i u s)"
| "inv_step new (now, Op_Delete i) s = kept s (DeleteONT i s)"
| "inv_step new (now, Op_Status i status) s = kept s (UpdateStatus now i status s)"
| "inv_step new (now, Op_Uptime i) s = kept s (UpdateUptimeMetrics now i s)"
| "inv_step new (now, Op_RecordPhone i phone) s = kept s (map_sum id snd (RecordPhoneIfUnclaimed now i phone s))"
| "inv_step new (now, Op_ReleasePhone i phone) s = kept s (map_sum id snd (ReleasePhone now i phone s))"
| "inv_step new (now, Op_Assign i odp port) s = kept s (AssignONTToODP now i odp port s)"
| "inv_step new (now, Op_Unassign i) s = kept s (UnassignONTFromODP now i s)"
| "inv_step new (now, Op_Register olt ds) s = snd (BulkRegisterFromDiscovery new now olt ds s)"
| "inv_step new (now, Op_Prune olt ds) s = snd (PruneMissingFromDiscovery now olt ds s)"

lemma kept_ok: "inventory_ok s \<Longrightarrow> (\<And>s'. r = Inr s' \<Longrightarrow> inventory_ok s') \<Longrightarrow> inventory_ok (kept s r)"
  by (cases r) (simp_all add: kept_def)

lemma kept_ok_snd:
  "inventory_ok s \<Longrightarrow> (\<And>b s'. r = Inr (b, s') \<Longrightarrow> inventory_ok s') \<Longrightarrow> inventory_ok (kept s (map_sum id snd r))"
  by (cases r) (auto simp: kept_def)

lemma UpdateStatus_ok: "inventory_ok s \<Longrightarrow> UpdateStatus now i status s = Inr s' \<Longrightarrow> inventory_ok s'"
  unfolding UpdateStatus_def by (rule write_ont_ok) (auto simp: status_columns_def)

lemma UpdateUptime_ok:
  assumes "inventory_ok s" "UpdateUptimeMetrics now i s = Inr s'"
  shows "inventory_ok s'"
proof -
  have "list_all harmless (uptime_columns now t @ [C_updated_at now])" for t
    by (simp add: uptime_columns_def split: option.splits)
  then show ?thesis
    using assms write_ont_ok [OF assms(1)]
    by (auto simp: UpdateUptimeMetrics_def split: sum.splits if_splits)
qed

lemma create_request_ok:
  assumes "inventory_ok s" "new_ids new"
    and "CreateONT new now (create_request olt port onu serial description status phone) s = Inr s'"
  shows "inventory_ok s'"
  by (rule CreateONT_ok [OF assms(1,3)]) (simp_all add: create_request_def assms(2))

lemma inv_step_ok:
  assumes "inventory_ok s" "new_ids new"
  shows "inventory_ok (inv_step new op s)"
proof -
  obtain now p where "op = (now, p)" by (cases op)
  then show ?thesis
    using assms Bulk_fold_ok [OF assms(2), of "(_, s)"]
    by (cases p)
      (auto simp: BulkRegisterFromDiscovery_def intro!: kept_ok kept_ok_snd Prune_ok
         dest: create_request_ok UpdateONT_ok DeleteONT_ok UpdateStatus_ok UpdateUptime_ok
           RecordPhone_ok ReleasePhone_ok AssignONTToODP_ok UnassignONTFromODP_ok)
qed


lemma index_clash_cases:
  assumes "index_clash a b"
  obtains (place) "same_place a b" "ont_Slot a \<noteq> None"
  | (serial) "ont_SerialNumber a \<noteq> []" "ont_SerialNumber a = ont_SerialNumber b"
  | (phone) "ont_Phone a \<noteq> []" "ont_Phone a = ont_Phone b"
  | (port) "ont_ODPID a \<noteq> None"
  using assms by (auto simp: index_clash_def same_place_def)

lemma resolvePhone_new:
  "(\<exists>p. resolvePhone raw uuid_nil ts = Inr p) \<longleftrightarrow>
     raw = [] \<or> (\<exists>p. NormalizePhone raw = Some p \<and> (\<forall>b \<in> set ts. ont_Phone b \<noteq> p))"
  by (auto simp: resolvePhone_def checkPhoneUnclaimed_def split: option.splits)

lemma resolvePhone_free:
  "resolvePhone raw uuid_nil ts = Inr p \<Longrightarrow> p = [] \<or> (\<forall>b \<in> set ts. ont_Phone b \<noteq> p)"
  by (auto simp: resolvePhone_def checkPhoneUnclaimed_def split: option.splits if_splits)

lemma checkUnclaimed_None:
  "checkUnclaimed t ts = None \<longleftrightarrow>
     (ont_SerialNumber t \<noteq> [] \<longrightarrow> (\<forall>b \<in> set ts. ont_SerialNumber b \<noteq> ont_SerialNumber t))
     \<and> (\<forall>b \<in> set ts. \<not> same_place b t)"
  by (auto simp: checkUnclaimed_def same_place_def)

text \<open>The checks leave nothing for an index to refuse.\<close>

lemma create_inserts:
  assumes "new_ids new" "ont_ID t = uuid_nil" "ont_ODPID t = None"
    and "checkUnclaimed t ts = None" "resolvePhone (ont_Phone t) uuid_nil ts = Inr p"
  shows "db_create new now (t\<lparr>ont_Phone := p, ont_Status := st\<rparr>) ts \<noteq> None"
proof -
  let ?row = "t\<lparr>ont_Phone := p, ont_Status := st, ont_ID := new (map ont_ID ts), ont_CreatedAt := now, ont_UpdatedAt := now\<rparr>"
  have "\<not> index_clash ?row b" if b: "b \<in> set ts" for b
  proof
    assume "index_clash ?row b"
    then show False
    proof (cases rule: index_clash_cases)
      case place
      then have "same_place b t" by (simp add: same_place_def)
      then show False using assms(4) b by (simp add: checkUnclaimed_None)
    next
      case serial
      then have "ont_SerialNumber t \<noteq> []" "ont_SerialNumber b = ont_SerialNumber t" by simp_all
      then show False using assms(4) b unfolding checkUnclaimed_None by blast
    next
      case phone
      then have "p \<noteq> []" "ont_Phone b = p" by simp_all
      then show False using resolvePhone_free [OF assms(5)] b by blast
    next
      case port
      then show False using assms(3) by simp
    qed
  qed
  moreover have "ont_ID b \<noteq> new (map ont_ID ts)" if "b \<in> set ts" for b
    using assms(1) that by (metis new_ids_def image_eqI set_map)
  ultimately show ?thesis using assms(2) by (simp add: db_create_def)
qed

lemma create_decides':
  assumes "new_ids new" "ont_ID t = uuid_nil" "ont_ODPID t = None"
  shows "CreateONT new now t s \<noteq> Inl Database_error
    \<and> ((\<exists>s'. CreateONT new now t s = Inr s') \<longleftrightarrow>
         (\<exists>l \<in> set (iv_olts s). olt_ID l = ont_OLTID t)
         \<and> (ont_SerialNumber t \<noteq> [] \<longrightarrow> (\<forall>b \<in> set (iv_onts s). ont_SerialNumber b \<noteq> ont_SerialNumber t))
         \<and> (\<forall>b \<in> set (iv_onts s). \<not> same_place b t)
         \<and> (ont_Phone t = [] \<or> (\<exists>p. NormalizePhone (ont_Phone t) = Some p \<and> (\<forall>b \<in> set (iv_onts s). ont_Phone b \<noteq> p))))"
proof -
  have unclaimed: "checkUnclaimed t (iv_onts s) \<noteq> Some Database_error"
    by (simp add: checkUnclaimed_def)
  have phone: "resolvePhone (ont_Phone t) uuid_nil (iv_onts s) \<noteq> Inl Database_error"
    by (simp add: resolvePhone_def split: option.splits)
  have decided: "CreateONT new now t s \<noteq> Inl Database_error
    \<and> ((\<exists>s'. CreateONT new now t s = Inr s') \<longleftrightarrow>
         (\<exists>l \<in> set (iv_olts s). olt_ID l = ont_OLTID t) \<and> checkUnclaimed t (iv_onts s) = None
         \<and> (\<exists>p. resolvePhone (ont_Phone t) uuid_nil (iv_onts s) = Inr p))"
  proof (cases "checkUnclaimed t (iv_onts s)")
    case None
    show ?thesis
    proof (cases "resolvePhone (ont_Phone t) uuid_nil (iv_onts s)")
      case (Inl e)
      then show ?thesis using None phone by (simp add: CreateONT_def)
    next
      case (Inr p)
      let ?st = "if ont_Status t = [] then ONTStatusUnknown else ont_Status t"
      obtain ts where "db_create new now (t\<lparr>ont_Phone := p, ont_Status := ?st\<rparr>) (iv_onts s) = Some ts"
        using create_inserts [OF assms None Inr, of now ?st] by blast
      then show ?thesis using None Inr by (simp add: CreateONT_def)
    qed
  qed (use unclaimed in \<open>simp add: CreateONT_def\<close>)
  then show ?thesis unfolding resolvePhone_new checkUnclaimed_None by blast
qed

text \<open>Whether a new ONT is taken is decided by the service's own checks: its OLT is known, no row has its serial
  number (when it has one), no row has its place, and its number is empty or a valid number nobody has. The
  database's indexes, whose message an operator could not read, never get to refuse it.\<close>

theorem create_decides:
  assumes "new_ids new" "ont_ID t = uuid_nil" "ont_ODPID t = None"
  shows "CreateONT new now t s \<noteq> Inl Database_error
    \<and> ((\<exists>s'. CreateONT new now t s = Inr s') \<longleftrightarrow>
         (\<exists>l \<in> set (iv_olts s). olt_ID l = ont_OLTID t)
         \<and> (ont_SerialNumber t \<noteq> [] \<longrightarrow> (\<forall>b \<in> set (iv_onts s). ont_SerialNumber b \<noteq> ont_SerialNumber t))
         \<and> (\<forall>b \<in> set (iv_onts s). \<not> same_place b t)
         \<and> (ont_Phone t = [] \<or> (\<exists>p. NormalizePhone (ont_Phone t) = Some p \<and> (\<forall>b \<in> set (iv_onts s). ont_Phone b \<noteq> p))))"
  by (rule create_decides' [OF assms])

section \<open>Discovery settles\<close>

lemma columns_replaced [simp]:
  "set_columns (replaces C_name v w) t = t\<lparr>ont_Name := if v \<noteq> [] \<and> w \<noteq> v then v else ont_Name t\<rparr>"
  "set_columns (replaces C_description v w) t = t\<lparr>ont_Description := if v \<noteq> [] \<and> w \<noteq> v then v else ont_Description t\<rparr>"
  by (simp_all add: replaces_def)

lemma columns_filled [simp]:
  "set_columns (fills C_device_type v w) t = t\<lparr>ont_DeviceType := if v \<noteq> [] \<and> w = [] then v else ont_DeviceType t\<rparr>"
  "set_columns (fills C_hardware_version v w) t = t\<lparr>ont_HardwareVersion := if v \<noteq> [] \<and> w = [] then v else ont_HardwareVersion t\<rparr>"
  "set_columns (fills C_software_version v w) t = t\<lparr>ont_SoftwareVersion := if v \<noteq> [] \<and> w = [] then v else ont_SoftwareVersion t\<rparr>"
  "set_columns (fills C_ip_address v w) t = t\<lparr>ont_IPAddress := if v \<noteq> [] \<and> w = [] then v else ont_IPAddress t\<rparr>"
  "set_columns (fills C_mac_address v w) t = t\<lparr>ont_MACAddress := if v \<noteq> [] \<and> w = [] then v else ont_MACAddress t\<rparr>"
  by (simp_all add: fills_def)

lemma columns_slot [simp]:
  "set_columns (if b then [C_slot v] else []) t = t\<lparr>ont_Slot := if b then Some v else ont_Slot t\<rparr>"
  by simp

definition learned :: "DiscoveredONT \<Rightarrow> ONT \<Rightarrow> ONT" where
  "learned d t = set_columns (discoveryUpdates d t) t"

lemma learned_fields [simp]:
  "ont_Name (learned d t) = (if do_Name d \<noteq> [] then do_Name d else ont_Name t)"
  "ont_Description (learned d t) = (if do_Description d \<noteq> [] then do_Description d else ont_Description t)"
  "ont_DeviceType (learned d t) = (if ont_DeviceType t = [] then do_DeviceType d else ont_DeviceType t)"
  "ont_HardwareVersion (learned d t) = (if ont_HardwareVersion t = [] then do_HardwareVersion d else ont_HardwareVersion t)"
  "ont_SoftwareVersion (learned d t) = (if ont_SoftwareVersion t = [] then do_SoftwareVersion d else ont_SoftwareVersion t)"
  "ont_IPAddress (learned d t) = (if ont_IPAddress t = [] then do_IPAddress d else ont_IPAddress t)"
  "ont_MACAddress (learned d t) = (if ont_MACAddress t = [] then do_MACAddress d else ont_MACAddress t)"
  "ont_Slot (learned d t) = (if do_Slot d > 0 \<and> ont_Slot t = None then Some (do_Slot d) else ont_Slot t)"
  "ont_SerialNumber (learned d t) = ont_SerialNumber t" "ont_Phone (learned d t) = ont_Phone t"
  "ont_ODPID (learned d t) = ont_ODPID t" "ont_ODPPort (learned d t) = ont_ODPPort t"
  by (simp_all add: learned_def discoveryUpdates_def del: set_columns_simps(2))

lemma learned_fixed [simp]:
  "ont_ID (learned d t) = ont_ID t" "ont_OLTID (learned d t) = ont_OLTID t"
  "ont_PortID (learned d t) = ont_PortID t" "ont_ONTID (learned d t) = ont_ONTID t"
  by (simp_all add: learned_def)

lemma nothing_left [simp]: "discoveryUpdates d ((learned d t)\<lparr>ont_UpdatedAt := now\<rparr>) = []"
  by (simp add: discoveryUpdates_def replaces_def fills_def)

lemma nothing_left_new:
  assumes "ont_Name t = do_Name d" "ont_Description t = do_Description d"
    "ont_DeviceType t = do_DeviceType d" "ont_HardwareVersion t = do_HardwareVersion d"
    "ont_SoftwareVersion t = do_SoftwareVersion d" "ont_IPAddress t = do_IPAddress d"
    "ont_MACAddress t = do_MACAddress d" "ont_Slot t = discoveredSlot d"
  shows "discoveryUpdates d t = []"
  using assms by (simp add: discoveryUpdates_def replaces_def fills_def discoveredSlot_def)

definition settled :: "uuid \<Rightarrow> DiscoveredONT \<Rightarrow> ONT list \<Rightarrow> bool" where
  "settled olt d ts \<longleftrightarrow>
     (\<exists>t \<in> set ts. at_position olt (do_Slot d) (do_PortID d) (do_ONTID d) t \<and> discoveryUpdates d t = [])"

text \<open>Two records of a walk that cannot claim the same row, whatever its card.\<close>

definition names_apart :: "DiscoveredONT \<Rightarrow> DiscoveredONT \<Rightarrow> bool" where
  "names_apart d e \<longleftrightarrow>
     do_PortID d \<noteq> do_PortID e \<or> do_ONTID d \<noteq> do_ONTID e
     \<or> (do_Slot d \<noteq> do_Slot e \<and> do_Slot d > 0 \<and> do_Slot e > 0)"

lemma names_apart_sym: "names_apart d e \<longleftrightarrow> names_apart e d"
  by (auto simp: names_apart_def)

lemma at_position_unique:
  assumes "onts_ok ts" "a \<in> set ts" "b \<in> set ts" "at_position olt c p n a" "at_position olt c p n b"
  shows "a = b"
proof (rule ccontr)
  have srt: "sorted_wrt onts_apart ts" using assms(1) by (simp add: onts_ok_def)
  assume "a \<noteq> b"
  then have "ont_ID a \<noteq> ont_ID b" using distinct_key_unique [OF apart_unique [OF srt] assms(2,3)] by blast
  then have "\<not> same_place a b" using apart_pair [OF srt assms(2,3)] by (simp add: onts_apart_def)
  then show False using assms(4,5) by (auto simp: at_position_def same_place_def split: if_splits)
qed

lemma GetByOLTAndPosition_Some:
  "GetByOLTAndPosition olt c p n ts = Some t \<Longrightarrow> t \<in> set ts \<and> at_position olt c p n t"
  unfolding GetByOLTAndPosition_def by (drule min_row_mem) simp

lemma GetByOLTAndPosition_None:
  "GetByOLTAndPosition olt c p n ts = None \<longleftrightarrow> (\<forall>t \<in> set ts. \<not> at_position olt c p n t)"
  by (simp add: GetByOLTAndPosition_def filter_empty_conv)

lemma GetByOLTAndPosition_eq:
  assumes "onts_ok ts" "t \<in> set ts" "at_position olt c p n t"
  shows "GetByOLTAndPosition olt c p n ts = Some t"
proof (cases "GetByOLTAndPosition olt c p n ts")
  case None
  then show ?thesis using assms(2,3) by (auto simp: GetByOLTAndPosition_None)
next
  case (Some a)
  then have "a = t" using at_position_unique [OF assms(1) _ assms(2) _ assms(3)] GetByOLTAndPosition_Some by blast
  then show ?thesis using Some by simp
qed

lemma register_known:
  "rowForDiscovered olt d (iv_onts s) = Some t \<Longrightarrow> discoveryUpdates d t = [] \<Longrightarrow>
   register_one new now olt d (r, s) = (r\<lparr>br_Skipped := br_Skipped r + 1\<rparr>, s)"
  unfolding register_one_def Let_def prod.case by simp

lemma settled_skips:
  assumes "onts_ok (iv_onts s)" "settled olt d (iv_onts s)"
  shows "register_one new now olt d (r, s) = (r\<lparr>br_Skipped := br_Skipped r + 1\<rparr>, s)"
proof -
  obtain t where "t \<in> set (iv_onts s)" "at_position olt (do_Slot d) (do_PortID d) (do_ONTID d) t"
      "discoveryUpdates d t = []"
    using assms(2) by (auto simp: settled_def)
  then show ?thesis
    by (intro register_known) (simp_all add: rowForDiscovered_def GetByOLTAndPosition_eq [OF assms(1)])
qed

lemma rowForDiscovered_cases:
  assumes "rowForDiscovered olt d ts = Some t"
  obtains (exact) "t \<in> set ts" "at_position olt (do_Slot d) (do_PortID d) (do_ONTID d) t"
  | (adopted) "t \<in> set ts" "at_position olt 0 (do_PortID d) (do_ONTID d) t" "do_Slot d > 0"
      "\<forall>b \<in> set ts. \<not> at_position olt (do_Slot d) (do_PortID d) (do_ONTID d) b"
  using assms
  by (auto simp: rowForDiscovered_def GetByOLTAndPosition_None dest: GetByOLTAndPosition_Some
      split: option.splits if_splits)

text \<open>The write of a known row: no index is in its way.\<close>

lemma discovery_write:
  assumes ok: "onts_ok (iv_onts s)" and row: "rowForDiscovered olt d (iv_onts s) = Some t"
  shows "write_ont (ont_ID t) (discoveryUpdates d t @ [C_updated_at now]) s =
     Inr (s\<lparr>iv_onts := update_where (\<lambda>b. ont_ID b = ont_ID t) (\<lambda>b. (set_columns (discoveryUpdates d t) b)\<lparr>ont_UpdatedAt := now\<rparr>) (iv_onts s)\<rparr>)"
proof -
  have srt: "sorted_wrt onts_apart (iv_onts s)" using ok by (simp add: onts_ok_def)
  have t: "t \<in> set (iv_onts s)" using row by (rule rowForDiscovered_cases) auto
  have found: "find (\<lambda>b. ont_ID b = ont_ID t) (iv_onts s) = Some t"
    by (rule find_row [OF apart_unique [OF srt] t])
  have free: "\<not> index_clash ((learned d t)\<lparr>ont_UpdatedAt := now\<rparr>) b"
    if b: "b \<in> set (iv_onts s)" "ont_ID b \<noteq> ont_ID t" for b
  proof
    let ?u = "(learned d t)\<lparr>ont_UpdatedAt := now\<rparr>"
    have far: "\<not> same_place t b" "\<not> index_clash t b"
      using apart_pair [OF srt t b(1)] b(2) by (simp_all add: onts_apart_def)
    assume "index_clash ?u b"
    then have clash: "same_place ?u b \<and> ont_Slot ?u \<noteq> None"
      by (rule clash_moved [OF _ far(2)]) simp_all
    show False
    proof (cases "do_Slot d > 0 \<and> ont_Slot t = None")
      case True
      have "at_position olt 0 (do_PortID d) (do_ONTID d) t"
        "\<not> at_position olt (do_Slot d) (do_PortID d) (do_ONTID d) b"
        using row True b(1) by (cases rule: rowForDiscovered_cases; auto simp: at_position_def)+
      then show False using clash True by (auto simp: same_place_def at_position_def)
    next
      case False
      then have "same_place t b" using clash by (auto simp: same_place_def)
      then show False using far(1) by blast
    qed
  qed
  moreover have "set_columns (discoveryUpdates d t @ [C_updated_at now]) =
      (\<lambda>b. (set_columns (discoveryUpdates d t) b)\<lparr>ont_UpdatedAt := now\<rparr>)"
    by (rule ext) simp
  ultimately show ?thesis
    using found by (auto simp: write_ont_def db_updates_def learned_def cong: if_cong)
qed

lemma update_where_alt: "t \<in> set ts \<Longrightarrow> P t \<Longrightarrow> f t \<in> set (update_where P f ts)"
  by (auto simp: set_update_where)

lemma update_where_kept: "t \<in> set ts \<Longrightarrow> \<not> P t \<Longrightarrow> t \<in> set (update_where P f ts)"
  by (force simp: set_update_where)

lemma learned_position:
  assumes "rowForDiscovered olt d ts = Some t"
  shows "at_position olt (do_Slot d) (do_PortID d) (do_ONTID d) (learned d t)"
  using assms by (cases rule: rowForDiscovered_cases) (auto simp: at_position_def)

text \<open>What one record of a walk does to the table.\<close>

lemma register_one_cases:
  assumes "onts_ok (iv_onts s)"
  obtains (skipped) t where "rowForDiscovered olt d (iv_onts s) = Some t" "discoveryUpdates d t = []"
      "register_one new now olt d (r, s) = (r\<lparr>br_Skipped := br_Skipped r + 1\<rparr>, s)"
  | (updated) t ts where "rowForDiscovered olt d (iv_onts s) = Some t"
      "ts = update_where (\<lambda>b. ont_ID b = ont_ID t) (\<lambda>b. (set_columns (discoveryUpdates d t) b)\<lparr>ont_UpdatedAt := now\<rparr>) (iv_onts s)"
      "register_one new now olt d (r, s) = (r\<lparr>br_Registered := br_Registered r + 1\<rparr>, s\<lparr>iv_onts := ts\<rparr>)"
  | (inserted) row where "rowForDiscovered olt d (iv_onts s) = None"
      "row = (newONTFromDiscovery olt d)\<lparr>ont_ID := new (map ont_ID (iv_onts s)), ont_CreatedAt := now, ont_UpdatedAt := now\<rparr>"
      "register_one new now olt d (r, s) = (r\<lparr>br_Registered := br_Registered r + 1\<rparr>, s\<lparr>iv_onts := iv_onts s @ [row]\<rparr>)"
  | (refused) e where "rowForDiscovered olt d (iv_onts s) = None"
      "register_one new now olt d (r, s) = (r\<lparr>br_Errors := br_Errors r @ [(do_PortID d, do_ONTID d, e)]\<rparr>, s)"
proof (cases "rowForDiscovered olt d (iv_onts s)")
  case (Some t)
  show ?thesis
  proof (cases "discoveryUpdates d t = []")
    case True
    then show ?thesis using skipped Some by (simp add: register_known)
  next
    case False
    then have "register_one new now olt d (r, s) =
      (r\<lparr>br_Registered := br_Registered r + 1\<rparr>, s\<lparr>iv_onts := update_where (\<lambda>b. ont_ID b = ont_ID t)
          (\<lambda>b. (set_columns (discoveryUpdates d t) b)\<lparr>ont_UpdatedAt := now\<rparr>) (iv_onts s)\<rparr>)"
      using Some discovery_write [OF assms Some, of now] by (simp add: register_one_def Let_def)
    then show ?thesis using updated Some by blast
  qed
next
  case None
  show ?thesis
  proof (cases "CreateONT new now (newONTFromDiscovery olt d) s")
    case (Inl e)
    then show ?thesis using refused None by (simp add: register_one_def)
  next
    case (Inr s')
    show ?thesis
    proof (rule CreateONT_cases [OF Inr])
      fix p row
      assume p: "resolvePhone (ont_Phone (newONTFromDiscovery olt d)) uuid_nil (iv_onts s) = Inr p"
        and row: "row = (newONTFromDiscovery olt d)\<lparr>ont_Phone := p,
             ont_Status := if ont_Status (newONTFromDiscovery olt d) = [] then ONTStatusUnknown
                           else ont_Status (newONTFromDiscovery olt d),
             ont_ID := new (map ont_ID (iv_onts s)), ont_CreatedAt := now, ont_UpdatedAt := now\<rparr>"
        and s': "s' = s\<lparr>iv_onts := iv_onts s @ [row]\<rparr>"
      have "row = (newONTFromDiscovery olt d)\<lparr>ont_ID := new (map ont_ID (iv_onts s)), ont_CreatedAt := now, ont_UpdatedAt := now\<rparr>"
        using p by (simp add: row resolvePhone_def newONTFromDiscovery_def StatusMap_def)
      then show ?thesis using inserted None Inr s' by (simp add: register_one_def)
    qed simp
  qed
qed

lemma newONT_position:
  "at_position olt (do_Slot d) (do_PortID d) (do_ONTID d)
     ((newONTFromDiscovery olt d)\<lparr>ont_ID := i, ont_CreatedAt := now, ont_UpdatedAt := now\<rparr>)"
  by (simp add: at_position_def newONTFromDiscovery_def discoveredSlot_def)

lemma newONT_nothing_left:
  "discoveryUpdates d ((newONTFromDiscovery olt d)\<lparr>ont_ID := i, ont_CreatedAt := now, ont_UpdatedAt := now\<rparr>) = []"
  by (rule nothing_left_new) (simp_all add: newONTFromDiscovery_def)

lemma at_position_updated [simp]: "at_position olt c p n (t\<lparr>ont_UpdatedAt := now\<rparr>) = at_position olt c p n t"
  by (simp add: at_position_def)

lemma exact_or_adopted:
  assumes "rowForDiscovered olt d ts = Some t" "discoveryUpdates d t = []"
  shows "at_position olt (do_Slot d) (do_PortID d) (do_ONTID d) t"
  using learned_position [OF assms(1)] by (simp add: learned_def assms(2))

lemma step_settles:
  assumes ok: "onts_ok (iv_onts s)"
    and step: "register_one new now olt d (r, s) = (r', s')"
    and quiet: "br_Errors r' = br_Errors r"
  shows "settled olt d (iv_onts s')"
proof (cases rule: register_one_cases [OF ok, of olt d new now r, case_names skipped updated inserted refused])
  case (skipped t)
  then have "t \<in> set (iv_onts s)" by (blast elim: rowForDiscovered_cases)
  then show ?thesis
    using skipped step exact_or_adopted [OF skipped(1,2)] by (auto simp: settled_def)
next
  case (updated t ts)
  have "t \<in> set (iv_onts s)" using updated(1) by (blast elim: rowForDiscovered_cases)
  then have "(learned d t)\<lparr>ont_UpdatedAt := now\<rparr> \<in> set ts"
    unfolding updated(2) learned_def by (rule update_where_alt [where f = "\<lambda>b. (set_columns (discoveryUpdates d t) b)\<lparr>ont_UpdatedAt := now\<rparr>"]) simp
  then show ?thesis
    using updated(3) step learned_position [OF updated(1)]
    unfolding settled_def by (intro bexI [where x = "(learned d t)\<lparr>ont_UpdatedAt := now\<rparr>"]) auto
next
  case (inserted row)
  then show ?thesis
    using step newONT_position newONT_nothing_left by (auto simp: settled_def)
next
  case (refused e)
  then show ?thesis using step quiet by auto
qed

lemma step_keeps_settled:
  assumes ok: "onts_ok (iv_onts s)" and settled: "settled olt d (iv_onts s)" and apart: "names_apart d e"
  shows "settled olt d (iv_onts (snd (register_one new now olt e (r, s))))"
proof -
  obtain t where t: "t \<in> set (iv_onts s)" "at_position olt (do_Slot d) (do_PortID d) (do_ONTID d) t" "discoveryUpdates d t = []"
    using settled by (auto simp: settled_def)
  show ?thesis
  proof (cases rule: register_one_cases [OF ok, of olt e new now r, case_names skipped updated inserted refused])
    case (updated u ts)
    have srt: "sorted_wrt onts_apart (iv_onts s)" using ok by (simp add: onts_ok_def)
    have u: "u \<in> set (iv_onts s)" using updated(1) by (blast elim: rowForDiscovered_cases)
    have "t \<noteq> u"
      using updated(1) by (cases rule: rowForDiscovered_cases) (use t(2) apart in \<open>auto simp: at_position_def names_apart_def split: if_splits\<close>)
    then have "ont_ID t \<noteq> ont_ID u" using distinct_key_unique [OF apart_unique [OF srt] t(1) u] by blast
    then have "t \<in> set ts" unfolding updated(2) using t(1) by (intro update_where_kept)
    then show ?thesis using t updated(3) by (auto simp: settled_def)
  qed (use t in \<open>auto simp: settled_def\<close>)
qed

lemma register_one_ok': "inventory_ok s \<Longrightarrow> new_ids new \<Longrightarrow> register_one new now olt d (r, s) = (r', s') \<Longrightarrow> inventory_ok s'"
  using register_one_ok [of s new now olt d r] by simp

lemma inventory_onts_ok [intro]: "inventory_ok s \<Longrightarrow> onts_ok (iv_onts s)"
  by (simp add: inventory_ok_def)

lemma errors_grow:
  assumes "onts_ok (iv_onts s)" "register_one new now olt d (r, s) = (r', s')"
  shows "br_Errors r' = br_Errors r \<or> length (br_Errors r) < length (br_Errors r')"
  by (cases rule: register_one_cases [OF assms(1), of olt d new now r, case_names skipped updated inserted refused])
    (use assms(2) in auto)

lemma fold_errors_grow:
  assumes "new_ids new" "inventory_ok s" "fold (register_one new now olt) ds (r, s) = (r', s')"
  shows "length (br_Errors r) \<le> length (br_Errors r')"
  using assms(2,3)
proof (induction ds arbitrary: r s)
  case (Cons d ds)
  obtain r1 s1 where step: "register_one new now olt d (r, s) = (r1, s1)" by fastforce
  have "length (br_Errors r1) \<le> length (br_Errors r')"
    using Cons.IH register_one_ok' [OF Cons.prems(1) assms(1) step] Cons.prems(2) step by simp
  then show ?case using errors_grow [OF _ step] Cons.prems(1) by fastforce
qed simp

lemma fold_keeps_settled:
  assumes "new_ids new" "inventory_ok s" "settled olt d (iv_onts s)" "\<forall>e \<in> set ds. names_apart d e"
    and "fold (register_one new now olt) ds (r, s) = (r', s')"
  shows "settled olt d (iv_onts s')"
  using assms(2-5)
proof (induction ds arbitrary: r s)
  case (Cons e ds)
  obtain r1 s1 where step: "register_one new now olt e (r, s) = (r1, s1)" by fastforce
  have "settled olt d (iv_onts s1)"
    using step_keeps_settled [OF _ Cons.prems(2), of e new now r] Cons.prems(1,3) step by auto
  then show ?case
    using Cons.IH [OF register_one_ok' [OF Cons.prems(1) assms(1) step]] Cons.prems(3,4) step by simp
qed simp

lemma fold_settles:
  assumes "new_ids new" "inventory_ok s" "sorted_wrt names_apart ds"
    and "fold (register_one new now olt) ds (r, s) = (r', s')" "length (br_Errors r') \<le> length (br_Errors r)"
  shows "\<forall>d \<in> set ds. settled olt d (iv_onts s')"
  using assms(2-5)
proof (induction ds arbitrary: r s)
  case (Cons d ds)
  obtain r1 s1 where step: "register_one new now olt d (r, s) = (r1, s1)" by fastforce
  have ok1: "inventory_ok s1" by (rule register_one_ok' [OF Cons.prems(1) assms(1) step])
  have rest: "fold (register_one new now olt) ds (r1, s1) = (r', s')" using Cons.prems(3) step by simp
  have quiet: "br_Errors r1 = br_Errors r"
    using errors_grow [OF _ step] fold_errors_grow [OF assms(1) ok1 rest] Cons.prems(1,4) by fastforce
  have "settled olt d (iv_onts s1)"
    by (rule step_settles [OF _ step quiet]) (use Cons.prems(1) in auto)
  then have "settled olt d (iv_onts s')"
    by (rule fold_keeps_settled [OF assms(1) ok1 _ _ rest]) (use Cons.prems(2) in auto)
  moreover have "\<forall>e \<in> set ds. settled olt e (iv_onts s')"
    by (rule Cons.IH [OF ok1 _ rest]) (use Cons.prems(2,4) quiet in auto)
  ultimately show ?case by simp
qed simp

lemma fold_skips:
  assumes "onts_ok (iv_onts s)" "\<forall>d \<in> set ds. settled olt d (iv_onts s)"
  shows "fold (register_one new now olt) ds (r, s) = (r\<lparr>br_Skipped := br_Skipped r + length ds\<rparr>, s)"
  using assms(2)
proof (induction ds arbitrary: r)
  case (Cons d ds)
  then show ?case by (simp add: settled_skips [OF assms(1)])
qed simp

text \<open>C12. Discovery settles: when a walk whose records name different places was registered without an error, the same walk
  registered again - at any later time - finds every ONT already told and writes nothing.\<close>

theorem discovery_settles:
  assumes "inventory_ok s" "new_ids new" "sorted_wrt names_apart ds"
    and "BulkRegisterFromDiscovery new now olt ds s = (r, s1)" "br_Errors r = []"
  shows "BulkRegisterFromDiscovery new later olt ds s1 =
     (\<lparr>br_Registered = 0, br_Skipped = length ds, br_Errors = []\<rparr>, s1)"
proof -
  note run = assms(4) [unfolded BulkRegisterFromDiscovery_def]
  have "inventory_ok s1"
    using Bulk_fold_ok [OF assms(2), of "(_, s)" now olt ds] assms(1) run by (metis snd_conv)
  moreover have "\<forall>d \<in> set ds. settled olt d (iv_onts s1)"
    by (rule fold_settles [OF assms(2,1,3) run]) (simp add: assms(5))
  ultimately show ?thesis
    by (simp add: BulkRegisterFromDiscovery_def fold_skips inventory_onts_ok)
qed

section \<open>Pruning\<close>

text \<open>C13. Pruning after a walk removes exactly the OLT's rows that no record of the walk names by port and ONU number and
  that are at least a quarter of an hour old, with their readings and events; it counts them, touches no
  other OLT's rows, and an empty walk removes nothing.\<close>

theorem prune_exact:
  assumes "PruneMissingFromDiscovery now olt ds s = (n, s')" "inventory_ok s"
  shows "let gone = {t \<in> set (iv_onts s). ds \<noteq> [] \<and> ont_OLTID t = olt
           \<and> (\<forall>d \<in> set ds. do_PortID d \<noteq> ont_PortID t \<or> do_ONTID d \<noteq> ont_ONTID t)
           \<and> now - ont_CreatedAt t \<ge> 900 * second}
    in set (iv_onts s') = set (iv_onts s) - gone \<and> n = card gone
       \<and> set (iv_events s') = {e \<in> set (iv_events s). \<forall>t \<in> gone. ev_ONTID e \<noteq> ont_ID t}
       \<and> set (iv_metrics s') = {m \<in> set (iv_metrics s). \<forall>t \<in> gone. mr_ONTID m \<noteq> ont_ID t}
       \<and> iv_olts s' = iv_olts s \<and> iv_nodes s' = iv_nodes s"
proof -
  define gone where "gone = {t \<in> set (iv_onts s). ds \<noteq> [] \<and> ont_OLTID t = olt
           \<and> (\<forall>d \<in> set ds. do_PortID d \<noteq> ont_PortID t \<or> do_ONTID d \<noteq> ont_ONTID t)
           \<and> now - ont_CreatedAt t \<ge> 900 * second}"
  define stale where "stale = filter (\<lambda>t. ont_OLTID t = olt
      \<and> (ont_PortID t, ont_ONTID t) \<notin> (\<lambda>d. (do_PortID d, do_ONTID d)) ` set ds
      \<and> \<not> ont_CreatedAt t > now - pruneGracePeriod) (iv_onts s)"
  have ids: "distinct (map ont_ID (iv_onts s))"
    using assms(2) apart_unique by (auto simp: inventory_ok_def onts_ok_def)
  have stale_ids: "stale_ids now olt ds (iv_onts s) = map ont_ID stale"
    by (simp add: stale_ids_def stale_def)
  show ?thesis
  proof (cases "ds = []")
    case True
    then show ?thesis using assms(1) by (simp add: PruneMissingFromDiscovery_def)
  next
    case False
    have gone: "gone = set stale"
      using False by (auto simp: gone_def stale_def pruneGracePeriod_def image_iff)
    have n: "n = length stale"
      using assms(1) False by (auto simp: PruneMissingFromDiscovery_def stale_ids Let_def split: if_splits)
    have "distinct stale" using ids by (simp add: stale_def distinct_map)
    then have card: "n = card gone" by (simp add: n gone distinct_card)
    have onts: "ont_ID t \<in> ont_ID ` gone \<longleftrightarrow> t \<in> gone" if "t \<in> set (iv_onts s)" for t
      using that distinct_key_unique [OF ids] by (auto simp: gone_def)
    have "set (iv_onts s') = {t \<in> set (iv_onts s). ont_ID t \<notin> ont_ID ` gone}
        \<and> set (iv_events s') = {e \<in> set (iv_events s). ev_ONTID e \<notin> ont_ID ` gone}
        \<and> set (iv_metrics s') = {m \<in> set (iv_metrics s). mr_ONTID m \<notin> ont_ID ` gone}
        \<and> iv_olts s' = iv_olts s \<and> iv_nodes s' = iv_nodes s"
      using assms(1) False by (auto simp: PruneMissingFromDiscovery_def stale_ids gone Let_def split: if_splits)
    then show ?thesis
      unfolding Let_def gone_def [symmetric] using card onts by auto
  qed
qed

section \<open>Paging\<close>

definition pid :: "ONT \<Rightarrow> uuid \<times> uuid" where "pid t = (ont_ID t, ont_OLTID t)"

text \<open>The identifiers of an OLT's rows beyond the cursor, in order.\<close>

definition ids_after :: "uuid \<Rightarrow> uuid \<Rightarrow> ONT list \<Rightarrow> uuid list" where
  "ids_after olt cursor ts =
     sort (map ont_ID (filter (\<lambda>t. ont_OLTID t = olt \<and> (cursor \<noteq> uuid_nil \<longrightarrow> ont_ID t > cursor)) ts))"

lemma map_sort_key: "map f (sort_key f xs) = sort (map f xs)"
  by (rule properties_for_sort [symmetric, of "map f (sort_key f xs)" "map f xs"]) simp_all

lemma ids_page: "map ont_ID (ont_page olt cursor batch ts) = take batch (ids_after olt cursor ts)"
  by (simp add: ont_page_def ids_after_def take_map [symmetric] map_sort_key)

lemma ids_after_pid:
  "ids_after olt cursor ts =
     sort (map fst (filter (\<lambda>(i, l). l = olt \<and> (cursor \<noteq> uuid_nil \<longrightarrow> i > cursor)) (map pid ts)))"
  by (simp add: ids_after_def pid_def filter_map comp_def case_prod_beta)

lemma sorted_after_last:
  fixes xs :: "nat list"
  assumes "sorted xs" "distinct xs" "xs \<noteq> []" "0 < n"
  shows "filter (\<lambda>x. x > last (take n xs)) xs = drop n xs"
proof -
  let ?a = "take n xs" and ?b = "drop n xs"
  have ne: "?a \<noteq> []" using assms(3,4) by simp
  have srt: "sorted ?a" "\<forall>x \<in> set ?a. \<forall>y \<in> set ?b. x \<le> y"
    using assms(1) sorted_append [of ?a ?b] by simp_all
  have "set ?a \<inter> set ?b = {}" using assms(2) by (simp add: set_take_disj_set_drop_if_distinct)
  then have above: "\<forall>y \<in> set ?b. last ?a < y"
    using srt(2) last_in_set [OF ne] by (metis disjoint_iff order_le_imp_less_or_eq)
  have below: "\<forall>x \<in> set ?a. \<not> last ?a < x"
  proof
    fix x assume "x \<in> set ?a"
    moreover have "sorted (butlast ?a @ [last ?a])" using srt(1) ne by simp
    ultimately show "\<not> last ?a < x"
      using ne by (subst (asm) append_butlast_last_id [OF ne, symmetric]) (auto simp: sorted_append)
  qed
  have "filter (\<lambda>x. x > last ?a) xs = filter (\<lambda>x. x > last ?a) (?a @ ?b)" by simp
  also have "\<dots> = ?b" unfolding filter_append using above below by (simp add: filter_True filter_False)
  finally show ?thesis .
qed

lemma sort_filter: "sort (filter P xs) = filter P (sort xs)"
  using sort_key_stable filter_sort by (metis filter_sort)

lemma ids_after_last:
  assumes "distinct (map ont_ID ts)" "uuid_nil \<notin> ont_ID ` set ts"
    and "ids_after olt cursor ts \<noteq> []" "0 < n"
  shows "ids_after olt (last (take n (ids_after olt cursor ts))) ts = drop n (ids_after olt cursor ts)"
proof -
  let ?L = "ids_after olt cursor ts" and ?c = "last (take n (ids_after olt cursor ts))"
  have srt: "sorted ?L" "distinct ?L"
    using assms(1) by (simp_all add: ids_after_def distinct_map_filter)
  have "take n ?L \<noteq> []" using assms(3,4) by simp
  then have "?c \<in> set ?L" by (rule in_set_takeD [OF last_in_set])
  then have c: "?c \<noteq> uuid_nil" "cursor \<noteq> uuid_nil \<Longrightarrow> ?c > cursor"
    using assms(2) by (auto simp: ids_after_def)
  have "ids_after olt ?c ts = sort (filter (\<lambda>x. x > ?c) (map ont_ID
      (filter (\<lambda>t. ont_OLTID t = olt \<and> (cursor \<noteq> uuid_nil \<longrightarrow> ont_ID t > cursor)) ts)))"
    using c by (auto simp: ids_after_def filter_map comp_def intro!: arg_cong [where f = "\<lambda>x. sort (map ont_ID x)"] filter_cong)
  also have "\<dots> = filter (\<lambda>x. x > ?c) ?L" by (simp add: ids_after_def filter_sort [symmetric])
  finally show ?thesis using sorted_after_last [OF srt assms(3,4)] by simp
qed

lemma not_above: "T = L - D \<Longrightarrow> D = {x \<in> L. k < x} \<Longrightarrow> T = {x \<in> L. x \<le> (k :: nat)}"
  by auto

lemma mem_by_key:
  assumes "distinct (map k ts)" "t \<in> set ts" "set xs \<subseteq> set ts"
  shows "t \<in> set xs \<longleftrightarrow> k t \<in> set (map k xs)"
proof
  assume "k t \<in> set (map k xs)"
  then obtain u where u: "u \<in> set xs" "k u = k t" by auto
  then have "u = t" using assms(3) by (intro distinct_key_unique [OF assms(1) _ assms(2)]) auto
  then show "t \<in> set xs" using u(1) by simp
qed simp

lemma page_members:
  assumes "distinct (map ont_ID ts)" "uuid_nil \<notin> ont_ID ` set ts" "0 < n" "ont_page olt cursor n ts \<noteq> []" "t \<in> set ts"
  shows "t \<in> set (ont_page olt cursor n ts) \<longleftrightarrow>
       ont_OLTID t = olt \<and> (cursor \<noteq> uuid_nil \<longrightarrow> ont_ID t > cursor) \<and> ont_ID t \<le> ont_ID (last (ont_page olt cursor n ts))"
    and "cursor < ont_ID (last (ont_page olt cursor n ts))"
proof -
  let ?L = "ids_after olt cursor ts" and ?page = "ont_page olt cursor n ts"
  have ids: "map ont_ID ?page = take n ?L" by (rule ids_page)
  have L: "?L \<noteq> []" using assms(4) ids by auto
  have last: "ont_ID (last ?page) = last (take n ?L)" using ids assms(4) by (metis last_map)
  have srt: "sorted ?L" "distinct ?L"
    using assms(1) by (simp_all add: ids_after_def distinct_map_filter)
  have "filter (\<lambda>x. x > last (take n ?L)) ?L = drop n ?L" by (rule sorted_after_last [OF srt L assms(3)])
  then have above: "set (drop n ?L) = {x \<in> set ?L. x > last (take n ?L)}" by (metis set_filter)
  have below: "set (take n ?L) = set ?L - set (drop n ?L)"
    using set_take_disj_set_drop_if_distinct [OF srt(2), of n n] set_append [of "take n ?L" "drop n ?L"]
    unfolding append_take_drop_id by blast
  have take: "set (take n ?L) = {x \<in> set ?L. x \<le> last (take n ?L)}" by (rule not_above [OF below above])
  have "t \<in> set ?page \<longleftrightarrow> ont_ID t \<in> set (map ont_ID ?page)"
    by (rule mem_by_key [OF assms(1,5)]) (auto simp: ont_page_def dest: in_set_takeD)
  also have "\<dots> \<longleftrightarrow> ont_ID t \<in> set ?L \<and> ont_ID t \<le> ont_ID (last ?page)" using take last by (simp add: ids)
  also have "ont_ID t \<in> set ?L \<longleftrightarrow> ont_OLTID t = olt \<and> (cursor \<noteq> uuid_nil \<longrightarrow> ont_ID t > cursor)"
    using mem_by_key [OF assms(1,5), of "filter (\<lambda>t. ont_OLTID t = olt \<and> (cursor \<noteq> uuid_nil \<longrightarrow> ont_ID t > cursor)) ts"] assms(5)
    by (simp add: ids_after_def)
  finally show "t \<in> set ?page \<longleftrightarrow>
       ont_OLTID t = olt \<and> (cursor \<noteq> uuid_nil \<longrightarrow> ont_ID t > cursor) \<and> ont_ID t \<le> ont_ID (last ?page)" by simp
  define u where "u = last ?page"
  have "u \<in> set ?page" using assms(4) by (simp add: u_def)
  then have "u \<in> set ts" "cursor \<noteq> uuid_nil \<longrightarrow> ont_ID u > cursor" by (auto simp: ont_page_def dest!: in_set_takeD)
  moreover from this have "ont_ID u \<noteq> uuid_nil" using assms(2) by force
  ultimately show "cursor < ont_ID (last ?page)" unfolding u_def [symmetric] by (cases "cursor = uuid_nil") simp_all
qed

text \<open>A callback that also notes whom it was handed.\<close>

definition handing :: "(ONT list \<Rightarrow> 's \<Rightarrow> 'e + 's) \<Rightarrow> ONT list \<Rightarrow> 's \<times> uuid list \<Rightarrow> 'e + 's \<times> uuid list" where
  "handing f page sl = map_sum id (\<lambda>s'. (s', snd sl @ map ont_ID page)) (f page (fst sl))"

definition beyond :: "uuid \<Rightarrow> uuid \<Rightarrow> ONT \<Rightarrow> bool" where
  "beyond olt cursor t \<longleftrightarrow> ont_OLTID t = olt \<and> (cursor \<noteq> uuid_nil \<longrightarrow> ont_ID t > cursor)"

definition walked ::
  "('s \<Rightarrow> ONT list) \<Rightarrow> (ONT \<Rightarrow> ONT \<Rightarrow> bool) \<Rightarrow> uuid \<Rightarrow> uuid \<Rightarrow> 's \<Rightarrow> 's \<Rightarrow> bool" where
  "walked rows step olt cursor s s' \<longleftrightarrow>
     list_all2 (\<lambda>t t'. pid t' = pid t \<and> (if beyond olt cursor t then step t t' else t' = t)) (rows s) (rows s')"

text \<open>
  What the walk over an OLT's rows asks of its callback: it neither adds rows nor removes or moves any, and what it does
  to a row it was handed, and only to those, is a step.
\<close>

locale page_callback =
  fixes rows :: "'s \<Rightarrow> ONT list"
    and f :: "ONT list \<Rightarrow> 's \<Rightarrow> 'e + 's"
    and good :: "'s \<Rightarrow> bool"
    and olt :: uuid
    and step :: "ONT \<Rightarrow> ONT \<Rightarrow> bool"
  assumes keeps: "good s \<Longrightarrow> set page \<subseteq> set (rows s) \<Longrightarrow> distinct (map ont_ID page) \<Longrightarrow> \<forall>t \<in> set page. ont_OLTID t = olt \<Longrightarrow>
       f page s = Inr s' \<Longrightarrow>
       good s' \<and> list_all2 (\<lambda>t t'. pid t' = pid t \<and> (if t \<in> set page then step t t' else t' = t)) (rows s) (rows s')"
    and rows_ok: "good s \<Longrightarrow> onts_ok (rows s)"
begin

lemma same_pids:
  "list_all2 (\<lambda>t t'. pid t' = pid t \<and> P t t') ts ts' \<Longrightarrow> map pid ts' = map pid ts"
  by (induction rule: list_all2_induct) simp_all

lemma ids_same: "map pid ts' = map pid ts \<Longrightarrow> ids_after olt c ts' = ids_after olt c ts"
  by (simp add: ids_after_pid)

lemma rows_distinct: "good s \<Longrightarrow> distinct (map ont_ID (rows s)) \<and> uuid_nil \<notin> ont_ID ` set (rows s)"
  using rows_ok [of s] by (auto simp: onts_ok_def apart_unique ont_fine_def)

lemma handed_page:
  assumes "good s"
  shows "set (ont_page olt cursor n (rows s)) \<subseteq> set (rows s)"
    and "distinct (map ont_ID (ont_page olt cursor n (rows s)))"
    and "\<forall>t \<in> set (ont_page olt cursor n (rows s)). ont_OLTID t = olt"
proof -
  have "distinct (ids_after olt cursor (rows s))"
    using rows_distinct [OF assms] by (simp add: ids_after_def distinct_map_filter)
  then show "distinct (map ont_ID (ont_page olt cursor n (rows s)))" unfolding ids_page by (rule distinct_take)
qed (auto simp: ont_page_def dest!: in_set_takeD)

lemma two_steps:
  assumes "pid u = pid t \<and> (if t \<in> P then step t u else u = t)"
    and "pid v = pid u \<and> (if b' then step u v else v = u)" "b' = b"
    and "t \<in> P \<longleftrightarrow> a \<and> \<not> b" "b \<Longrightarrow> a"
  shows "pid v = pid t" "if a then step t v else v = t"
  using assms by (cases b; cases a; simp)+

lemma walked_on:
  assumes s: "good s" and n: "0 < n" and some: "ont_page olt cursor n (rows s) \<noteq> []"
    and first: "list_all2 (\<lambda>t t'. pid t' = pid t \<and> (if t \<in> set (ont_page olt cursor n (rows s)) then step t t' else t' = t))
                  (rows s) (rows s1)"
    and rest: "walked rows step olt (ont_ID (last (ont_page olt cursor n (rows s)))) s1 s2"
  shows "walked rows step olt cursor s s2"
proof -
  let ?page = "ont_page olt cursor n (rows s)" and ?c = "ont_ID (last (ont_page olt cursor n (rows s)))"
  have members: "t \<in> set ?page \<longleftrightarrow> beyond olt cursor t \<and> \<not> beyond olt ?c t" "beyond olt ?c t \<Longrightarrow> beyond olt cursor t" if "t \<in> set (rows s)" for t
    using page_members [OF _ _ n some that] rows_distinct [OF s] by (auto simp: beyond_def)
  show ?thesis
    unfolding walked_def list_all2_conv_all_nth
  proof (intro conjI allI impI)
    show len: "length (rows s) = length (rows s2)"
      using list_all2_lengthD [OF first] list_all2_lengthD [OF rest [unfolded walked_def]] by simp
    fix i assume i: "i < length (rows s)"
    let ?t = "rows s ! i" and ?u = "rows s1 ! i" and ?v = "rows s2 ! i"
    have t: "?t \<in> set (rows s)" using i by simp
    have u: "pid ?u = pid ?t \<and> (if ?t \<in> set ?page then step ?t ?u else ?u = ?t)"
      using list_all2_nthD [OF first i] .
    have v: "pid ?v = pid ?u \<and> (if beyond olt ?c ?u then step ?u ?v else ?v = ?u)"
    proof (rule list_all2_nthD [OF rest [unfolded walked_def]])
      show "i < length (rows s1)" using i list_all2_lengthD [OF first] by simp
    qed
    have same: "beyond olt ?c ?u = beyond olt ?c ?t" using u by (simp add: beyond_def pid_def)
    show "pid ?v = pid ?t" by (rule two_steps(1) [OF u v same members [OF t]])
    show "if beyond olt cursor ?t then step ?t ?v else ?v = ?t" by (rule two_steps(2) [OF u v same members [OF t]])
  qed
qed

lemma page_walk:
  assumes "good s" "0 < n"
  shows "\<exists>r. each_page (\<lambda>sl. rows (fst sl)) olt n (handing f) cursor (s, seen) = Some r
    \<and> each_page rows olt n f cursor s = Some (map_sum id fst r)
    \<and> (\<forall>s' seen'. r = Inr (s', seen') \<longrightarrow> good s' \<and> seen' = seen @ ids_after olt cursor (rows s) \<and> walked rows step olt cursor s s')
    \<and> (\<forall>e. r = Inl e \<longrightarrow> (\<exists>page s. f page s = Inl e))"
  using assms(1)
proof (induction "length (ids_after olt cursor (rows s))" arbitrary: cursor s seen rule: less_induct)
  case less
  let ?L = "ids_after olt cursor (rows s)" and ?page = "ont_page olt cursor n (rows s)"
  have ids: "map ont_ID ?page = take n ?L" by (rule ids_page)
  show ?case
  proof (cases "?page = []")
    case True
    then have L: "?L = []" using ids assms(2) by simp
    then have "set ?L = {}" by simp
    then have "\<forall>t \<in> set (rows s). \<not> beyond olt cursor t"
      unfolding ids_after_def beyond_def set_sort set_map set_filter by blast
    then have "walked rows step olt cursor s s" by (simp add: walked_def list_all2_same)
    then show ?thesis using True L less.prems by (simp add: each_page.simps [of _ olt n])
  next
    case False
    then have L: "?L \<noteq> []" using ids assms(2) by auto
    have c: "ont_ID (last ?page) = last (take n ?L)" using ids False by (metis last_map)
    show ?thesis
    proof (cases "f ?page s")
      case (Inl e)
      then show ?thesis using False by (auto simp: each_page.simps [of _ olt n] handing_def)
    next
      case (Inr s')
      have s': "good s'" and first: "list_all2 (\<lambda>t t'. pid t' = pid t \<and> (if t \<in> set ?page then step t t' else t' = t)) (rows s) (rows s')"
        using keeps [OF less.prems handed_page [OF less.prems] Inr] by auto
      have next_ids: "ids_after olt (ont_ID (last ?page)) (rows s') = drop n ?L"
        using rows_distinct [OF less.prems] L assms(2)
        unfolding ids_same [OF same_pids [OF first]] c by (intro ids_after_last) auto
      have shorter: "length (ids_after olt (ont_ID (last ?page)) (rows s')) < length ?L"
        using L assms(2) by (simp add: next_ids)
      obtain r where r: "each_page (\<lambda>sl. rows (fst sl)) olt n (handing f) (ont_ID (last ?page)) (s', seen @ map ont_ID ?page) = Some r"
        "each_page rows olt n f (ont_ID (last ?page)) s' = Some (map_sum id fst r)"
        "\<forall>s'' seen'. r = Inr (s'', seen') \<longrightarrow> good s'' \<and> seen' = (seen @ map ont_ID ?page) @ drop n ?L
          \<and> walked rows step olt (ont_ID (last ?page)) s' s''"
        "\<forall>e. r = Inl e \<longrightarrow> (\<exists>page s. f page s = Inl e)"
        using less.hyps [OF shorter s', of "seen @ map ont_ID ?page"] next_ids by auto
      have "each_page (\<lambda>sl. rows (fst sl)) olt n (handing f) cursor (s, seen) = Some r"
        "each_page rows olt n f cursor s = Some (map_sum id fst r)"
        using False Inr r(1,2) by (simp_all add: each_page.simps [of _ olt n _ cursor] handing_def)
      moreover have "good s'' \<and> seen' = seen @ ?L \<and> walked rows step olt cursor s s''" if "r = Inr (s'', seen')" for s'' seen'
        using r(3) that walked_on [OF less.prems assms(2) False first] by (auto simp: ids)
      ultimately show ?thesis using r(4) by blast
    qed
  qed
qed

lemma walk_visits:
  assumes "good s"
  shows "\<exists>r. EachONTOfOLT (\<lambda>sl. rows (fst sl)) olt batch (handing f) (s, []) = Some r
    \<and> EachONTOfOLT rows olt batch f s = Some (map_sum id fst r)
    \<and> (\<forall>s' seen. r = Inr (s', seen) \<longrightarrow> good s'
          \<and> seen = sort (map ont_ID (filter (\<lambda>t. ont_OLTID t = olt) (rows s)))
          \<and> list_all2 (\<lambda>t t'. pid t' = pid t \<and> (if ont_OLTID t = olt then step t t' else t' = t)) (rows s) (rows s'))
    \<and> (\<forall>e. r = Inl e \<longrightarrow> (\<exists>page s. f page s = Inl e))"
proof -
  have n: "0 < nat (if batch < 1 then defaultONTBatch else batch)" by (simp add: defaultONTBatch_def)
  obtain r where r: "each_page (\<lambda>sl. rows (fst sl)) olt (nat (if batch < 1 then defaultONTBatch else batch))
        (handing f) uuid_nil (s, []) = Some r"
    "each_page rows olt (nat (if batch < 1 then defaultONTBatch else batch)) f uuid_nil s = Some (map_sum id fst r)"
    "\<forall>s' seen. r = Inr (s', seen) \<longrightarrow> good s' \<and> seen = [] @ ids_after olt uuid_nil (rows s) \<and> walked rows step olt uuid_nil s s'"
    "\<forall>e. r = Inl e \<longrightarrow> (\<exists>page s. f page s = Inl e)"
    using page_walk [OF assms n, of uuid_nil "[]"] by blast
  show ?thesis
    unfolding EachONTOfOLT_def
    by (intro exI [of _ r] conjI r(1,2,4)) (use r(3) in \<open>simp add: ids_after_def walked_def beyond_def\<close>)
qed

end

section \<open>A number recorded and taken back\<close>

lemma resolvePhone_normal:
  assumes "resolvePhone raw i ts = Inr p" "p \<noteq> []"
  shows "NormalizePhone raw = Some p"
  using assms by (auto simp: resolvePhone_def split: if_splits option.splits)

lemma find_written:
  assumes "find (\<lambda>b. ont_ID b = i) ts = Some t"
  shows "find (\<lambda>b. ont_ID b = i) (update_where (\<lambda>b. ont_ID b = i) (set_columns cs) ts) = Some (set_columns cs t)"
  using assms by (induction ts) auto

lemma write_ont_found:
  assumes "write_ont i cs s = Inr s'" "find (\<lambda>b. ont_ID b = i) (iv_onts s) = Some t"
  shows "s' = s\<lparr>iv_onts := update_where (\<lambda>b. ont_ID b = i) (set_columns cs) (iv_onts s)\<rparr>"
  using assms by (auto simp: write_ont_def db_updates_def split: if_splits)

text \<open>Unlinking undoes linking: a number that linking a thread wrote onto an ONT is taken back by unlinking with the same
  number as it was typed, and the inventory is what it was but for the row's time of change.\<close>

theorem phone_recorded_and_released:
  assumes "onts_ok (iv_onts s)" "RecordPhoneIfUnclaimed now i phone s = Inr (True, s1)"
  shows "ReleasePhone later i phone s1 =
     Inr (True, s\<lparr>iv_onts := update_where (\<lambda>t. ont_ID t = i) (\<lambda>t. t\<lparr>ont_UpdatedAt := later\<rparr>) (iv_onts s)\<rparr>)"
proof -
  have ids: "distinct (map ont_ID (iv_onts s))" using assms(1) by (simp add: onts_ok_def apart_unique)
  obtain t p where t: "find (\<lambda>b. ont_ID b = i) (iv_onts s) = Some t" "ont_Phone t = []"
    and p: "resolvePhone phone i (iv_onts s) = Inr p" "p \<noteq> []"
    and w: "write_ont i [C_phone p, C_updated_at now] s = Inr s1"
    using assms(2)
    by (auto simp: RecordPhoneIfUnclaimed_def GetByID_def split: option.splits if_splits sum.splits)
  let ?f = "\<lambda>b. ont_ID b = i"
  have s1: "s1 = s\<lparr>iv_onts := update_where ?f (set_columns [C_phone p, C_updated_at now]) (iv_onts s)\<rparr>"
    by (rule write_ont_found [OF w t(1)])
  have mem: "t \<in> set (iv_onts s)" "ont_ID t = i" using t(1) by (auto dest: find_SomeD)
  have only: "b = t" if "b \<in> set (iv_onts s)" "ont_ID b = i" for b
    using distinct_key_unique [OF ids that(1) mem(1)] that(2) mem(2) by simp
  have found: "find ?f (iv_onts s1) = Some (t\<lparr>ont_Phone := p, ont_UpdatedAt := now\<rparr>)"
    using find_written [OF t(1), of "[C_phone p, C_updated_at now]"] by (simp add: s1)
  have free: "\<not> index_clash (t\<lparr>ont_Phone := [], ont_UpdatedAt := later\<rparr>) b"
    if "b \<in> set (iv_onts s1)" "ont_ID b \<noteq> i" for b
  proof -
    have b: "b \<in> set (iv_onts s)" using that by (auto simp: s1 set_update_where split: if_splits)
    then have "onts_apart t b"
      using assms(1) mem that(2) apart_pair [of "iv_onts s" t b] by (simp add: onts_ok_def)
    then show ?thesis using t(2) by (simp add: onts_apart_def index_clash_def)
  qed
  have restored: "update_where ?f (set_columns [C_phone [], C_updated_at later]) (iv_onts s1) =
      update_where ?f (\<lambda>t. t\<lparr>ont_UpdatedAt := later\<rparr>) (iv_onts s)"
    using only t(2) by (auto simp: s1 update_where_def)
  have "write_ont i [C_phone [], C_updated_at later] s1 =
      Inr (s\<lparr>iv_onts := update_where ?f (\<lambda>t. t\<lparr>ont_UpdatedAt := later\<rparr>) (iv_onts s)\<rparr>)"
    using found free restored by (auto simp: write_ont_def db_updates_def s1)
  then show ?thesis
    using found resolvePhone_normal [OF p] p(2) by (simp add: ReleasePhone_def GetByID_def)
qed

section \<open>What discovery gets wrong\<close>

text \<open>
  A row whose slot is a real 0 - which the metrics tier writes for an OLT without cards - is not
  found by a walk that reports slot 0, which looks for an unknown slot. With its serial number known
  every later walk ends in an error for it; without one the walk adds a second row for the same ONU.
\<close>

theorem slotless_row_is_not_recognised:
  assumes "t \<in> set (iv_onts s)" "ont_OLTID t = olt" "ont_PortID t = do_PortID d" "ont_ONTID t = do_ONTID d"
    and "ont_Slot t = Some 0" "do_Slot d = 0" "\<exists>l \<in> set (iv_olts s). olt_ID l = olt" "new_ids new"
    and "\<forall>b \<in> set (iv_onts s). ont_OLTID b = olt \<and> ont_Slot b = None \<longrightarrow> ont_PortID b \<noteq> do_PortID d"
  shows "(do_SerialNumber d \<noteq> [] \<and> do_SerialNumber d = ont_SerialNumber t \<longrightarrow>
            register_one new now olt d (r, s) =
              (r\<lparr>br_Errors := br_Errors r @ [(do_PortID d, do_ONTID d, Serial_exists (do_SerialNumber d))]\<rparr>, s))
     \<and> (do_SerialNumber d = [] \<longrightarrow>
          (\<exists>row. register_one new now olt d (r, s) =
                   (r\<lparr>br_Registered := br_Registered r + 1\<rparr>, s\<lparr>iv_onts := iv_onts s @ [row]\<rparr>)
                 \<and> ont_OLTID row = olt \<and> ont_PortID row = ont_PortID t \<and> ont_ONTID row = ont_ONTID t))"
proof -
  have none: "rowForDiscovered olt d (iv_onts s) = None"
    using assms(6,9) by (auto simp: rowForDiscovered_def GetByOLTAndPosition_None at_position_def split: option.splits)
  let ?t = "newONTFromDiscovery olt d"
  have olt: "\<exists>l \<in> set (iv_olts s). olt_ID l = ont_OLTID ?t"
    using assms(7) by (simp add: newONTFromDiscovery_def)
  have "register_one new now olt d (r, s) =
      (r\<lparr>br_Errors := br_Errors r @ [(do_PortID d, do_ONTID d, Serial_exists (do_SerialNumber d))]\<rparr>, s)"
    if "do_SerialNumber d \<noteq> []" "do_SerialNumber d = ont_SerialNumber t"
  proof -
    have "checkUnclaimed ?t (iv_onts s) = Some (Serial_exists (do_SerialNumber d))"
      using that assms(1) by (auto simp: checkUnclaimed_def newONTFromDiscovery_def)
    then have "CreateONT new now ?t s = Inl (Serial_exists (do_SerialNumber d))"
      using olt by (simp add: CreateONT_def)
    then show ?thesis using none by (simp add: register_one_def)
  qed
  moreover have "\<exists>row. register_one new now olt d (r, s) =
        (r\<lparr>br_Registered := br_Registered r + 1\<rparr>, s\<lparr>iv_onts := iv_onts s @ [row]\<rparr>)
      \<and> ont_OLTID row = olt \<and> ont_PortID row = ont_PortID t \<and> ont_ONTID row = ont_ONTID t"
    if no_serial: "do_SerialNumber d = []"
  proof -
    have place: "\<forall>b \<in> set (iv_onts s). \<not> same_place b ?t"
      using assms(6,9) by (auto simp: same_place_def newONTFromDiscovery_def discoveredSlot_def)
    obtain s' where s': "CreateONT new now ?t s = Inr s'"
      using create_decides' [OF assms(8), of ?t now s] olt place no_serial by auto
    then obtain row where "s' = s\<lparr>iv_onts := iv_onts s @ [row]\<rparr>" "ont_OLTID row = olt"
        "ont_PortID row = do_PortID d" "ont_ONTID row = do_ONTID d"
      by (elim CreateONT_cases) simp_all
    then show ?thesis
      using none s' assms(3,4) by (intro exI [where x = row]) (simp add: register_one_def)
  qed
  ultimately show ?thesis by blast
qed

text \<open>
  Pruning looks at port and ONU number alone: an ONT unplugged from one card stays as long as
  any other card of its OLT carries the same two numbers, whatever the walk says of its own.
\<close>

theorem prune_overlooks_the_card:
  assumes "t \<in> set (iv_onts s)" "d \<in> set ds" "do_PortID d = ont_PortID t" "do_ONTID d = ont_ONTID t"
    and "distinct (map ont_ID (iv_onts s))"
  shows "t \<in> set (iv_onts (snd (PruneMissingFromDiscovery now olt ds s)))"
proof -
  have "ont_ID t \<notin> set (stale_ids now olt ds (iv_onts s))"
  proof
    assume "ont_ID t \<in> set (stale_ids now olt ds (iv_onts s))"
    then obtain u where u: "u \<in> set (iv_onts s)" "ont_ID u = ont_ID t"
        "(ont_PortID u, ont_ONTID u) \<notin> (\<lambda>d. (do_PortID d, do_ONTID d)) ` set ds"
      by (auto simp: stale_ids_def)
    then have "u = t" using distinct_key_unique [OF assms(5) u(1) assms(1)] by simp
    then have "(ont_PortID t, ont_ONTID t) \<noteq> (do_PortID d, do_ONTID d)" using u(3) assms(2) by blast
    then show False using assms(3,4) by simp
  qed
  then show ?thesis using assms(1) by (simp add: PruneMissingFromDiscovery_def Let_def)
qed

section \<open>At concrete inputs\<close>

definition next_uuid :: "uuid list \<Rightarrow> uuid" where "next_uuid ids = Suc (sum_list ids)"

lemma next_uuid_new: "new_ids next_uuid"
  by (auto simp: new_ids_def next_uuid_def dest: member_le_sum_list)

definition sample_inventory :: inventory where
  "sample_inventory =
     \<lparr>iv_olts = [\<lparr>olt_ID = 7, olt_SiteID = 3, olt_Name = ''Depok'', olt_Model = ''C300'', olt_IPAddress = ''10.0.0.2'',
                 olt_Status = ''online'', olt_LastSeen = None, olt_DiscoveryPhase = ''idle'', olt_DiscoveryTotal = 0,
                 olt_DiscoveryRegistered = 0, olt_DiscoveryPolled = 0, olt_DiscoveryError = [],
                 olt_DiscoveryStartedAt = None, olt_DiscoveryLastPollAt = None, olt_DiscoveryHeartbeatAt = None\<rparr>],
      iv_nodes = [], iv_onts = [], iv_metrics = [], iv_events = []\<rparr>"

lemma sample_inventory_ok: "inventory_ok sample_inventory"
  by (simp add: inventory_ok_def onts_ok_def sample_inventory_def)

definition sample_walk :: "DiscoveredONT list" where
  "sample_walk = [(placed 2 3 5 3)\<lparr>do_SerialNumber := ''ZTEG12'', do_Name := ''rumah'', do_DeviceType := ''F660''\<rparr>]"


lemma create_decides_witness:
  "\<exists>s'. CreateONT next_uuid 5 (create_request 7 3 5 ''ZTEG9'' [] [] []) sample_inventory = Inr s'"
  using create_decides [OF next_uuid_new, of "create_request 7 3 5 ''ZTEG9'' [] [] []" 5 sample_inventory]
  by (simp add: create_request_def sample_inventory_def)

definition sample_row :: ONT where
  "sample_row = (newONTFromDiscovery 7 (hd sample_walk))\<lparr>ont_ID := 2, ont_CreatedAt := 0, ont_UpdatedAt := 0\<rparr>"

lemma sample_row_ok: "inventory_ok (sample_inventory\<lparr>iv_onts := [sample_row]\<rparr>)"
  by (simp add: inventory_ok_def onts_ok_def ont_fine_def sample_row_def sample_inventory_def newONTFromDiscovery_def)

lemma discovery_settles_witness:
  "BulkRegisterFromDiscovery next_uuid 90 7 sample_walk
     (snd (BulkRegisterFromDiscovery next_uuid 5 7 sample_walk sample_inventory)) =
     (\<lparr>br_Registered = 0, br_Skipped = 1, br_Errors = []\<rparr>,
      snd (BulkRegisterFromDiscovery next_uuid 5 7 sample_walk sample_inventory))"
proof -
  have "br_Errors (fst (BulkRegisterFromDiscovery next_uuid 5 7 sample_walk sample_inventory)) = []"
    by (simp add: BulkRegisterFromDiscovery_def register_one_def rowForDiscovered_def GetByOLTAndPosition_def
        sample_inventory_def sample_walk_def placed_def CreateONT_def checkUnclaimed_def resolvePhone_def db_create_def
        newONTFromDiscovery_def)
  then show ?thesis
    using discovery_settles [OF sample_inventory_ok next_uuid_new, of sample_walk 5 7 _ _ 90]
    by (simp add: sample_walk_def placed_def prod_eq_iff)
qed

lemma prune_exact_witness:
  "set (iv_onts (snd (PruneMissingFromDiscovery (hour) 7 [(hd sample_walk)\<lparr>do_PortID := 4\<rparr>]
       (sample_inventory\<lparr>iv_onts := [sample_row]\<rparr>)))) = {}"
  using prune_exact [OF prod.collapse [symmetric] sample_row_ok, where now = hour and olt = 7
      and ds = "[(hd sample_walk)\<lparr>do_PortID := 4\<rparr>]"]
  by (simp add: Let_def sample_inventory_def sample_walk_def placed_def sample_row_def newONTFromDiscovery_def)

lemma phone_recorded_and_released_witness:
  "\<exists>s1. RecordPhoneIfUnclaimed 5 2 ''0812-3456-7890'' (sample_inventory\<lparr>iv_onts := [sample_row]\<rparr>) = Inr (True, s1)
     \<and> ReleasePhone 9 2 ''0812-3456-7890'' s1 =
         Inr (True, sample_inventory\<lparr>iv_onts := [sample_row\<lparr>ont_UpdatedAt := 9\<rparr>]\<rparr>)"
proof -
  have "NormalizePhone ''0812-3456-7890'' = Some ''6281234567890''" by code_simp
  then have rec: "RecordPhoneIfUnclaimed 5 2 ''0812-3456-7890'' (sample_inventory\<lparr>iv_onts := [sample_row]\<rparr>) =
      Inr (True, sample_inventory\<lparr>iv_onts := [sample_row\<lparr>ont_Phone := ''6281234567890'', ont_UpdatedAt := 5\<rparr>]\<rparr>)"
    by (simp add: RecordPhoneIfUnclaimed_def GetByID_def resolvePhone_def checkPhoneUnclaimed_def write_ont_def
        db_updates_def sample_row_def newONTFromDiscovery_def)
  have "onts_ok (iv_onts (sample_inventory\<lparr>iv_onts := [sample_row]\<rparr>))"
    by (rule inventory_onts_ok [OF sample_row_ok])
  from phone_recorded_and_released [OF this rec, of 9] rec show ?thesis
    by (simp add: sample_row_def)
qed

end
