(* ===== verification/OltDiscovery.thy ===== *)
theory OltDiscovery
  imports Inventory
begin

text \<open>
  Reading a chassis: what a driver answers, the topology built from it (\<open>connectivity/snmp_discovery_topology.go\<close>,
  \<open>snmp_discovery_structure.go\<close>), the claim that keeps two discoveries off one OLT, the run that stores what it finds
  (\<open>services/olt_service_discovery.go\<close>, \<open>olt_snmp_lock.go\<close>), the rows a reading becomes
  (\<open>services/metrics_service.go\<close>) and the worker's synchronisation of the inventory with a walk (\<open>cmd/worker/main.go\<close>).

  A driver's answers are a parameter: they come off the wire. A Go map is an association list with distinct keys, in
  the order the loop over it happens to take. The caches of VLANs, cards and profiles the run refreshes on the way write
  columns no definition here reads, and are left out. \<open>clk\<close> is the clock by the step of a run.
\<close>

section \<open>What a driver answers\<close>

text \<open>Slot, port, ONU.\<close>

type_synonym ONTLocation = "int \<times> int \<times> int"

record ONTMetrics =
  om_RxPower :: "real option"
  om_TxPower :: "real option"
  om_Temperature :: real
  om_Voltage :: real
  om_TxBiasCurrent :: real
  om_Distance :: int
  om_RxBytes :: u64
  om_TxBytes :: u64
  om_RxPackets :: u64
  om_TxPackets :: u64
  om_RxErrors :: u64
  om_TxErrors :: u64
  om_SerialNumber :: string
  om_SoftwareVersion :: string

definition no_metrics :: ONTMetrics where
  "no_metrics = \<lparr>om_RxPower = None, om_TxPower = None, om_Temperature = 0, om_Voltage = 0, om_TxBiasCurrent = 0,
     om_Distance = 0, om_RxBytes = 0, om_TxBytes = 0, om_RxPackets = 0, om_TxPackets = 0, om_RxErrors = 0,
     om_TxErrors = 0, om_SerialNumber = [], om_SoftwareVersion = []\<rparr>"

record ONUTrafficRates =
  tr_RxOctetBps :: u64
  tr_TxOctetBps :: u64
  tr_RxOctets :: u64
  tr_TxOctets :: u64
  tr_RxPackets :: u64
  tr_TxPackets :: u64

record ONTInventory =
  oi_SerialNumber :: string
  oi_Name :: string
  oi_Description :: string
  oi_DeviceType :: string
  oi_HardwareVersion :: string
  oi_SoftwareVersion :: string
  oi_IPAddress :: string
  oi_MACAddress :: string

definition no_inventory :: ONTInventory where
  "no_inventory = \<lparr>oi_SerialNumber = [], oi_Name = [], oi_Description = [], oi_DeviceType = [], oi_HardwareVersion = [],
     oi_SoftwareVersion = [], oi_IPAddress = [], oi_MACAddress = []\<rparr>"

text \<open>\<open>None\<close> is an error; \<open>dr_QueryMetricsFor\<close> is absent for a driver that is no \<open>MetricsQuerier\<close>. The instalments of
  \<open>InventoryByPort\<close> come with whether it ended in an error.\<close>

record driver =
  dr_WalkStatuses :: "(ONTLocation \<times> int) list option"
  dr_WalkMetrics :: "(ONTLocation \<times> ONTMetrics) list option"
  dr_QueryMetricsFor :: "(ONTLocation list \<Rightarrow> (ONTLocation \<times> ONTMetrics) list option) option"
  dr_Inventory :: "ONTLocation list \<Rightarrow> (ONTLocation \<times> ONTInventory) list option"
  dr_InventoryByPort :: "ONTLocation list \<Rightarrow> (ONTLocation list \<times> (ONTLocation \<times> ONTInventory) list) list \<times> bool"
  dr_WalkTrafficRates :: "(ONTLocation \<times> ONUTrafficRates) list option"

definition readMetricsForKnownONTs :: "driver \<Rightarrow> ONTLocation list \<Rightarrow> (ONTLocation \<times> ONTMetrics) list option" where
  "readMetricsForKnownONTs d known =
     (case dr_QueryMetricsFor d of
        Some query \<Rightarrow> if known = [] then dr_WalkMetrics d else query known
      | None \<Rightarrow> dr_WalkMetrics d)"

section \<open>The topology\<close>

record GponPort =
  gp_PortID :: int
  gp_ONTs :: "DiscoveredONT list"

record GPONSlot =
  gs_Slot :: int
  gs_Ports :: "GponPort list"

definition PhaseStateName :: "int \<Rightarrow> string" where
  "PhaseStateName state =
     (if state = 3 then ''online'' else if state = 4 then ''dying_gasp''
      else if state = 6 then ''offline'' else if state = 1 then ''los'' else ''unknown'')"

definition value_of :: "'b \<Rightarrow> ('a \<times> 'b) list \<Rightarrow> 'a \<Rightarrow> 'b" where
  "value_of zero m k = (case map_of m k of Some v \<Rightarrow> v | None \<Rightarrow> zero)"

definition discovered_ont ::
  "time \<Rightarrow> (ONTLocation \<times> int) list \<Rightarrow> (ONTLocation \<times> ONTInventory) list \<Rightarrow> (ONTLocation \<times> ONTMetrics) list
    \<Rightarrow> ONTLocation \<Rightarrow> DiscoveredONT" where
  "discovered_ont now statuses inventory metrics loc =
     (case loc of (slot, port, onu) \<Rightarrow>
        let state = value_of 0 statuses loc;
            inv = value_of no_inventory inventory loc;
            t = (placed slot port onu state)\<lparr>do_SerialNumber := oi_SerialNumber inv, do_Name := oi_Name inv,
                  do_Description := oi_Description inv, do_DeviceType := oi_DeviceType inv,
                  do_HardwareVersion := oi_HardwareVersion inv, do_SoftwareVersion := oi_SoftwareVersion inv,
                  do_IPAddress := oi_IPAddress inv, do_MACAddress := oi_MACAddress inv,
                  do_Status := PhaseStateName state, do_LastSeenAt := now\<rparr>
        in case map_of metrics loc of
             None \<Rightarrow> t
           | Some m \<Rightarrow>
               if om_RxPower m \<noteq> None \<or> om_TxPower m \<noteq> None \<or> om_Distance m > 0
               then t\<lparr>do_RxPower := om_RxPower m, do_TxPower := om_TxPower m, do_Distance := om_Distance m,
                      do_RxBytes := om_RxBytes m, do_TxBytes := om_TxBytes m, do_RxPackets := om_RxPackets m,
                      do_TxPackets := om_TxPackets m, do_RxErrors := om_RxErrors m, do_TxErrors := om_TxErrors m\<rparr>
               else t)"

text \<open>\<open>slotMap[slot][port]\<close> holds the locations of the port in the order the status map was walked.\<close>

definition buildTopologyStructure ::
  "time \<Rightarrow> (ONTLocation \<times> int) list \<Rightarrow> (ONTLocation \<times> ONTInventory) list \<Rightarrow> (ONTLocation \<times> ONTMetrics) list \<Rightarrow> GPONSlot list" where
  "buildTopologyStructure now statuses inventory metrics =
     (let locs = map fst statuses;
          slots = sort (remdups (map fst locs))
      in map (\<lambda>slot.
           let mine = filter (\<lambda>l. fst l = slot) locs;
               ports = sort (remdups (map (fst \<circ> snd) mine))
           in \<lparr>gs_Slot = slot,
               gs_Ports = map (\<lambda>port. \<lparr>gp_PortID = port,
                 gp_ONTs = map (discovered_ont now statuses inventory metrics) (filter (\<lambda>l. fst (snd l) = port) mine)\<rparr>) ports\<rparr>)
         slots)"

definition DiscoverOLTTopology :: "time \<Rightarrow> driver \<Rightarrow> GPONSlot list option" where
  "DiscoverOLTTopology now d =
     (case dr_WalkStatuses d of
        None \<Rightarrow> None
      | Some statuses \<Rightarrow>
          (let locations = map fst statuses;
               metrics = (case readMetricsForKnownONTs d locations of None \<Rightarrow> [] | Some m \<Rightarrow> m);
               inventory = (case dr_Inventory d locations of None \<Rightarrow> [] | Some i \<Rightarrow> i)
           in Some (buildTopologyStructure now statuses inventory metrics)))"

definition flatten :: "GPONSlot list \<Rightarrow> DiscoveredONT list" where
  "flatten topology = concat (map (\<lambda>slot. concat (map gp_ONTs (gs_Ports slot))) topology)"

definition DiscoverONTs :: "time \<Rightarrow> driver \<Rightarrow> DiscoveredONT list option" where
  "DiscoverONTs now d = map_option flatten (DiscoverOLTTopology now d)"

text \<open>\<open>DriverFor\<close> is the registry the drivers fill.\<close>

definition discoverONTsForSync :: "(string \<Rightarrow> driver option) \<Rightarrow> time \<Rightarrow> OLT \<Rightarrow> DiscoveredONT list option" where
  "discoverONTsForSync DriverFor now olt =
     (case DriverFor (olt_Model olt) of
        None \<Rightarrow> None
      | Some d \<Rightarrow> (case DiscoverOLTTopology now d of None \<Rightarrow> None | Some topology \<Rightarrow> Some (flatten topology)))"

definition syncOntsWithDiscovery ::
  "(uuid list \<Rightarrow> uuid) \<Rightarrow> (string \<Rightarrow> driver option) \<Rightarrow> time \<Rightarrow> OLT \<Rightarrow> inventory \<Rightarrow> (BulkRegisterResult \<times> inventory) option" where
  "syncOntsWithDiscovery new DriverFor now olt s =
     (case discoverONTsForSync DriverFor now olt of
        None \<Rightarrow> None
      | Some discovered \<Rightarrow>
          (case PruneMissingFromDiscovery now (olt_ID olt) discovered s of
             (deleted, s) \<Rightarrow> Some (BulkRegisterFromDiscovery new now (olt_ID olt) discovered s)))"

section \<open>The rows a reading becomes\<close>

record MetricSample =
  ms_ONTID :: uuid
  ms_Metrics :: "ONTMetrics option"
  ms_Rates :: "ONUTrafficRates option"

definition mbps :: "u64 \<Rightarrow> real" where "mbps octets = real (unat octets) * 8 / 1000000"

definition sampleArgs :: "time \<Rightarrow> MetricSample \<Rightarrow> metrics_row" where
  "sampleArgs now sample =
     (let m = (case ms_Metrics sample of None \<Rightarrow> no_metrics | Some m \<Rightarrow> m);
          r = ms_Rates sample
      in \<lparr>mr_Time = now, mr_ONTID = ms_ONTID sample, mr_RxPower = om_RxPower m, mr_TxPower = om_TxPower m,
          mr_Temperature = om_Temperature m, mr_Voltage = om_Voltage m, mr_Distance = om_Distance m,
          mr_RxBytes = map_option tr_RxOctets r, mr_TxBytes = map_option tr_TxOctets r,
          mr_RxPackets = map_option tr_RxPackets r, mr_TxPackets = map_option tr_TxPackets r,
          mr_RxRateMbps = map_option (mbps \<circ> tr_RxOctetBps) r, mr_TxRateMbps = map_option (mbps \<circ> tr_TxOctetBps) r\<rparr>)"

definition metricsInsertChunk :: nat where "metricsInsertChunk = 1000"

definition insertChunk :: "time \<Rightarrow> MetricSample list \<Rightarrow> metrics_row list \<Rightarrow> metrics_row list" where
  "insertChunk now samples rows = rows @ map (sampleArgs now) samples"

text \<open>Every chunk reads the clock.\<close>

function StoreMetricsBatch :: "(nat \<Rightarrow> time) \<Rightarrow> MetricSample list \<Rightarrow> metrics_row list \<Rightarrow> metrics_row list" where
  "StoreMetricsBatch clk samples rows =
     (if samples = [] then rows
      else StoreMetricsBatch (clk \<circ> Suc) (drop metricsInsertChunk samples)
             (insertChunk (clk 0) (take metricsInsertChunk samples) rows))"
  by pat_completeness auto

termination
  by (relation "measure (\<lambda>(_, samples, _). length samples)") (auto simp: metricsInsertChunk_def)

declare StoreMetricsBatch.simps [simp del]

definition StoreMetrics ::
  "time \<Rightarrow> uuid \<Rightarrow> ONTMetrics option \<Rightarrow> ONUTrafficRates option \<Rightarrow> metrics_row list \<Rightarrow> metrics_row list" where
  "StoreMetrics now ont metrics rates rows =
     StoreMetricsBatch (\<lambda>_. now) [\<lparr>ms_ONTID = ont, ms_Metrics = metrics, ms_Rates = rates\<rparr>] rows"

section \<open>A discovery run\<close>

definition staleDiscoveryClaim :: duration where "staleDiscoveryClaim = 5 * minute"
definition minDiscoveryInterval :: duration where "minDiscoveryInterval = 5 * minute"

definition liveness :: "OLT \<Rightarrow> time option" where
  "liveness l = (case olt_DiscoveryHeartbeatAt l of Some t \<Rightarrow> Some t | None \<Rightarrow> olt_DiscoveryStartedAt l)"

definition claimable_discovery :: "time \<Rightarrow> OLT \<Rightarrow> bool" where
  "claimable_discovery now l \<longleftrightarrow>
     (olt_DiscoveryPhase l \<notin> {''discovering'', ''polling''}
      \<or> (case liveness l of None \<Rightarrow> True | Some t \<Rightarrow> t < now - staleDiscoveryClaim))
     \<and> (case olt_DiscoveryLastPollAt l of None \<Rightarrow> True | Some t \<Rightarrow> t < now - minDiscoveryInterval)"

definition TryClaimDiscovery :: "time \<Rightarrow> uuid \<Rightarrow> OLT list \<Rightarrow> bool \<times> OLT list" where
  "TryClaimDiscovery now i ls =
     (let P = (\<lambda>l. olt_ID l = i \<and> claimable_discovery now l) in
      (length (filter P ls) = 1,
       update_where P
         (\<lambda>l. l\<lparr>olt_DiscoveryPhase := ''discovering'', olt_DiscoveryError := [],
                olt_DiscoveryStartedAt := Some now, olt_DiscoveryHeartbeatAt := Some now\<rparr>) ls))"

definition updateDiscoveryProgress :: "time \<Rightarrow> uuid \<Rightarrow> (OLT \<Rightarrow> OLT) \<Rightarrow> OLT list \<Rightarrow> OLT list" where
  "updateDiscoveryProgress now i updates ls =
     update_where (\<lambda>l. olt_ID l = i) (\<lambda>l. (updates l)\<lparr>olt_DiscoveryHeartbeatAt := Some now\<rparr>) ls"

text \<open>The process's locks are the OLTs held.\<close>

definition TryLockOLTSNMP :: "uuid \<Rightarrow> uuid list \<Rightarrow> bool \<times> uuid list" where
  "TryLockOLTSNMP i locks = (if i \<in> set locks then (False, locks) else (True, i # locks))"

definition unlock_snmp :: "uuid \<Rightarrow> uuid list \<Rightarrow> uuid list" where
  "unlock_snmp i locks = remove1 i locks"

definition publish :: "time \<Rightarrow> uuid \<Rightarrow> (OLT \<Rightarrow> OLT) \<Rightarrow> inventory \<Rightarrow> inventory" where
  "publish now i updates s = s\<lparr>iv_olts := updateDiscoveryProgress now i updates (iv_olts s)\<rparr>"

definition beginDiscovery :: "time \<Rightarrow> uuid \<Rightarrow> uuid list \<Rightarrow> inventory \<Rightarrow> bool \<times> uuid list \<times> inventory" where
  "beginDiscovery now i locks s =
     (case TryClaimDiscovery now i (iv_olts s) of
        (claimed, ls) \<Rightarrow>
          let s = s\<lparr>iv_olts := ls\<rparr> in
          if \<not> claimed then (False, locks, s)
          else (case TryLockOLTSNMP i locks of
                  (free, locks) \<Rightarrow>
                    if \<not> free then (False, locks, publish now i (\<lambda>l. l\<lparr>olt_DiscoveryPhase := ''idle''\<rparr>) s)
                    else (True, locks,
                          publish now i (\<lambda>l. l\<lparr>olt_DiscoveryPhase := ''discovering'', olt_DiscoveryTotal := 0,
                            olt_DiscoveryRegistered := 0, olt_DiscoveryPolled := 0, olt_DiscoveryError := [],
                            olt_DiscoveryStartedAt := Some now\<rparr>) s)))"

definition walkONTPositions ::
  "(nat \<Rightarrow> time) \<Rightarrow> driver \<Rightarrow> uuid \<Rightarrow> inventory
    \<Rightarrow> (ONTLocation \<times> int) list \<times> (ONTLocation \<times> ONTMetrics) list \<times> ONTLocation list \<times> inventory" where
  "walkONTPositions clk d i s =
     (let statuses = (case dr_WalkStatuses d of None \<Rightarrow> [] | Some ss \<Rightarrow> ss);
          known = map fst statuses;
          s = (if known \<noteq> []
               then publish (clk 0) i (\<lambda>l. l\<lparr>olt_DiscoveryPhase := ''discovering'', olt_DiscoveryTotal := int (length known)\<rparr>) s
               else s);
          metrics = (case readMetricsForKnownONTs d known of None \<Rightarrow> [] | Some m \<Rightarrow> m);
          locations = remdups (known @ map fst metrics)
      in (statuses, metrics, locations,
          publish (clk 1) i (\<lambda>l. l\<lparr>olt_DiscoveryPhase := ''polling'', olt_DiscoveryTotal := int (length locations)\<rparr>) s))"

definition instalment_ont ::
  "(ONTLocation \<times> int) list \<Rightarrow> (ONTLocation \<times> ONTMetrics) list \<Rightarrow> (ONTLocation \<times> ONTInventory) list \<Rightarrow> ONTLocation \<Rightarrow> DiscoveredONT" where
  "instalment_ont statuses metrics inventory loc =
     (case loc of (slot, port, onu) \<Rightarrow>
        let t = placed slot port onu (value_of 0 statuses loc);
            t = (case map_of inventory loc of
                   None \<Rightarrow> t
                 | Some info \<Rightarrow> t\<lparr>do_SerialNumber := oi_SerialNumber info, do_Name := oi_Name info,
                                 do_DeviceType := oi_DeviceType info, do_HardwareVersion := oi_HardwareVersion info,
                                 do_IPAddress := oi_IPAddress info\<rparr>)
        in (case map_of metrics loc of
              None \<Rightarrow> t
            | Some m \<Rightarrow> t\<lparr>do_RxPower := om_RxPower m, do_TxPower := om_TxPower m, do_Distance := om_Distance m\<rparr>))"

definition registerDiscoveredONTs ::
  "(uuid list \<Rightarrow> uuid) \<Rightarrow> time \<Rightarrow> uuid \<Rightarrow> (ONTLocation \<times> int) list \<Rightarrow> (ONTLocation \<times> ONTMetrics) list \<Rightarrow> nat
    \<Rightarrow> ONTLocation list \<times> (ONTLocation \<times> ONTInventory) list \<Rightarrow> inventory \<Rightarrow> inventory" where
  "registerDiscoveredONTs new now i statuses metrics processed instalment s =
     (case instalment of (locs, inventory) \<Rightarrow>
        let discovered = map (instalment_ont statuses metrics inventory) locs in
        case BulkRegisterFromDiscovery new now i discovered s of
          (result, s) \<Rightarrow> publish now i (\<lambda>l. l\<lparr>olt_DiscoveryRegistered := int processed\<rparr>) s)"

fun register_instalments ::
  "(uuid list \<Rightarrow> uuid) \<Rightarrow> (nat \<Rightarrow> time) \<Rightarrow> uuid \<Rightarrow> (ONTLocation \<times> int) list \<Rightarrow> (ONTLocation \<times> ONTMetrics) list \<Rightarrow> nat
    \<Rightarrow> (ONTLocation list \<times> (ONTLocation \<times> ONTInventory) list) list \<Rightarrow> inventory \<Rightarrow> inventory" where
  "register_instalments new clk i statuses metrics processed [] s = s"
| "register_instalments new clk i statuses metrics processed (x # xs) s =
     register_instalments new (clk \<circ> Suc) i statuses metrics (processed + length (fst x)) xs
       (registerDiscoveredONTs new (clk 0) i statuses metrics (processed + length (fst x)) x s)"

definition CountONTsByOLT :: "uuid \<Rightarrow> inventory \<Rightarrow> nat" where
  "CountONTsByOLT i s = length (filter (\<lambda>t. ont_OLTID t = i) (iv_onts s))"

definition registerInventory ::
  "(uuid list \<Rightarrow> uuid) \<Rightarrow> (nat \<Rightarrow> time) \<Rightarrow> driver \<Rightarrow> uuid \<Rightarrow> ONTLocation list \<Rightarrow> (ONTLocation \<times> int) list
    \<Rightarrow> (ONTLocation \<times> ONTMetrics) list \<Rightarrow> inventory \<Rightarrow> inventory" where
  "registerInventory new clk d i locations statuses metrics s =
     (case dr_InventoryByPort d locations of
        (instalments, failed) \<Rightarrow>
          let s = register_instalments new (clk \<circ> Suc) i statuses metrics 0 instalments s in
          if CountONTsByOLT i s = 0 \<and> locations \<noteq> []
          then publish (clk 0) i (\<lambda>l. l\<lparr>olt_DiscoveryError := ''inventory unavailable''\<rparr>) s else s)"

definition store_discovered ::
  "time \<Rightarrow> uuid \<Rightarrow> ONTLocation \<times> ONTMetrics \<Rightarrow> nat \<times> inventory \<Rightarrow> nat \<times> inventory" where
  "store_discovered now i lm st =
     (case (lm, st) of (((slot, port, onu), m), (stored, s)) \<Rightarrow>
        case GetByOLTAndPosition i slot port onu (iv_onts s) of
          None \<Rightarrow> (stored, s)
        | Some t \<Rightarrow>
            if om_RxPower m = None \<and> om_TxPower m = None \<and> om_Distance m \<le> 0 then (stored, s)
            else (stored + 1, s\<lparr>iv_metrics := StoreMetrics now (ont_ID t) (Some m) None (iv_metrics s)\<rparr>))"

definition storeDiscoveredMetrics ::
  "time \<Rightarrow> uuid \<Rightarrow> (ONTLocation \<times> ONTMetrics) list \<Rightarrow> inventory \<Rightarrow> nat \<times> inventory" where
  "storeDiscoveredMetrics now i metrics s = fold (store_discovered now i) metrics (0, s)"

definition AutoDiscoverONTMetrics ::
  "(uuid list \<Rightarrow> uuid) \<Rightarrow> (string \<Rightarrow> driver option) \<Rightarrow> (nat \<Rightarrow> time) \<Rightarrow> OLT \<Rightarrow> uuid list \<times> inventory \<Rightarrow> uuid list \<times> inventory" where
  "AutoDiscoverONTMetrics new DriverFor clk olt st =
     (case st of (locks, s) \<Rightarrow>
      case beginDiscovery (clk 0) (olt_ID olt) locks s of
        (False, locks, s) \<Rightarrow> (locks, s)
      | (True, locks, s) \<Rightarrow>
          (case DriverFor (olt_Model olt) of
             None \<Rightarrow> (unlock_snmp (olt_ID olt) locks, s)
           | Some d \<Rightarrow>
               (case walkONTPositions (clk \<circ> Suc) d (olt_ID olt) s of
                  (statuses, metrics, locations, s) \<Rightarrow>
                    let s = registerInventory new (\<lambda>k. clk (k + 4)) d (olt_ID olt) locations statuses metrics s in
                    (case storeDiscoveredMetrics (clk 3) (olt_ID olt) metrics s of
                       (polled, s) \<Rightarrow>
                         (unlock_snmp (olt_ID olt) locks,
                          publish (clk 3) (olt_ID olt)
                            (\<lambda>l. l\<lparr>olt_DiscoveryPhase := ''completed'', olt_DiscoveryPolled := int polled,
                                   olt_DiscoveryLastPollAt := Some (clk 3)\<rparr>) s)))))"

section \<open>Removing an OLT\<close>

definition DeleteOLT :: "uuid \<Rightarrow> inventory \<Rightarrow> inv_error + inventory" where
  "DeleteOLT i s =
     (let ids = map ont_ID (filter (\<lambda>t. ont_OLTID t = i) (iv_onts s)) in
      if \<not> (\<exists>l \<in> set (iv_olts s). olt_ID l = i) then Inl OLT_not_found
      else Inr (s\<lparr>iv_metrics := filter (\<lambda>m. mr_ONTID m \<notin> set ids) (iv_metrics s),
                  iv_events := filter (\<lambda>e. ev_ONTID e \<notin> set ids) (iv_events s),
                  iv_onts := filter (\<lambda>t. ont_OLTID t \<noteq> i) (iv_onts s),
                  iv_olts := filter (\<lambda>l. olt_ID l \<noteq> i) (iv_olts s)\<rparr>))"

section \<open>The inventory stays consistent\<close>

lemma inventory_ok_olts [simp]: "inventory_ok (s\<lparr>iv_olts := ls\<rparr>) = inventory_ok s"
  by (simp add: inventory_ok_def)

lemma publish_simps [simp]:
  "inventory_ok (publish now i u s) = inventory_ok s"
  "iv_onts (publish now i u s) = iv_onts s" "iv_metrics (publish now i u s) = iv_metrics s"
  "iv_events (publish now i u s) = iv_events s"
  by (simp_all add: publish_def)

lemma map2_replicate: "map2 f (replicate (length xs) a) xs = map (f a) xs"
  by (induction xs) simp_all

text \<open>A batch is one row per sample, in order, whatever the chunks.\<close>

lemma store_metrics_rows:
  "\<exists>times. length times = length samples
     \<and> StoreMetricsBatch clk samples rows = rows @ map2 sampleArgs times samples"
proof (induction clk samples rows rule: StoreMetricsBatch.induct)
  case (1 clk samples rows)
  show ?case
  proof (cases "samples = []")
    case True
    then show ?thesis by (simp add: StoreMetricsBatch.simps [of clk])
  next
    case False
    let ?now = "take metricsInsertChunk samples" and ?rest = "drop metricsInsertChunk samples"
    obtain times where t: "length times = length ?rest"
      "StoreMetricsBatch (clk \<circ> Suc) ?rest (insertChunk (clk 0) ?now rows) =
         insertChunk (clk 0) ?now rows @ map2 sampleArgs times ?rest"
      using 1 [OF False] by blast
    let ?all = "replicate (length ?now) (clk 0) @ times"
    have "map2 sampleArgs ?all (?now @ ?rest) = map2 sampleArgs (replicate (length ?now) (clk 0)) ?now @ map2 sampleArgs times ?rest"
      by (subst zip_append) simp_all
    also have "map2 sampleArgs (replicate (length ?now) (clk 0)) ?now = map (sampleArgs (clk 0)) ?now"
      by (rule map2_replicate)
    finally have "StoreMetricsBatch clk samples rows = rows @ map2 sampleArgs ?all samples"
      using False t(2) by (simp add: StoreMetricsBatch.simps [of clk samples rows] insertChunk_def)
    moreover have "length ?all = length samples" using t(1) by simp
    ultimately show ?thesis by blast
  qed
qed

lemma sampleArgs_ont [simp]: "mr_ONTID (sampleArgs now m) = ms_ONTID m"
  by (simp add: sampleArgs_def Let_def)

lemma store_metrics_onts:
  "mr_ONTID ` set (StoreMetricsBatch clk samples rows) = mr_ONTID ` set rows \<union> ms_ONTID ` set samples"
proof -
  obtain times where t: "length times = length samples"
      "StoreMetricsBatch clk samples rows = rows @ map2 sampleArgs times samples"
    using store_metrics_rows by blast
  have "map mr_ONTID (map2 sampleArgs times samples) = map ms_ONTID samples"
    using t(1) by (induction times samples rule: list_induct2) simp_all
  then have "mr_ONTID ` set (map2 sampleArgs times samples) = ms_ONTID ` set samples"
    by (metis set_map)
  then show ?thesis by (simp add: t(2) image_Un)
qed

lemma inventory_ok_metrics:
  assumes "inventory_ok s" "ms_ONTID ` set samples \<subseteq> ont_ID ` set (iv_onts s)"
  shows "inventory_ok (s\<lparr>iv_metrics := StoreMetricsBatch clk samples (iv_metrics s)\<rparr>)"
  using assms by (simp add: inventory_ok_def store_metrics_onts)

lemma Bulk_ok: "inventory_ok s \<Longrightarrow> new_ids new \<Longrightarrow> inventory_ok (snd (BulkRegisterFromDiscovery new now i ds s))"
  by (simp add: BulkRegisterFromDiscovery_def Bulk_fold_ok)

lemma register_instalments_ok:
  "inventory_ok s \<Longrightarrow> new_ids new \<Longrightarrow> inventory_ok (register_instalments new clk i statuses metrics n xs s)"
proof (induction xs arbitrary: clk n s)
  case (Cons x xs)
  have "inventory_ok (registerDiscoveredONTs new (clk 0) i statuses metrics (n + length (fst x)) x s)"
    using Bulk_ok [OF Cons.prems] by (auto simp: registerDiscoveredONTs_def Let_def split: prod.splits) (metis snd_conv)
  then show ?case using Cons.IH Cons.prems(2) by simp
qed simp

lemma store_discovered_ok:
  assumes "inventory_ok (snd st)"
  shows "inventory_ok (snd (store_discovered now i lm st))"
proof -
  obtain slot port onu m where lm: "lm = ((slot, port, onu), m)" by (cases lm) auto
  obtain n s where st: "st = (n, s)" by (cases st)
  have "inventory_ok (s\<lparr>iv_metrics := StoreMetrics now (ont_ID t) (Some m) None (iv_metrics s)\<rparr>)"
    if "GetByOLTAndPosition i slot port onu (iv_onts s) = Some t" for t
    unfolding StoreMetrics_def
    by (rule inventory_ok_metrics) (use assms st GetByOLTAndPosition_Some [OF that] in auto)
  then show ?thesis using assms by (auto simp: store_discovered_def lm st split: option.split)
qed

lemma storeDiscoveredMetrics_ok: "inventory_ok s \<Longrightarrow> inventory_ok (snd (storeDiscoveredMetrics now i ms s))"
proof -
  have "inventory_ok (snd st) \<Longrightarrow> inventory_ok (snd (fold (store_discovered now i) ms st))" for st
    by (induction ms arbitrary: st) (simp_all add: store_discovered_ok)
  then show "inventory_ok s \<Longrightarrow> ?thesis" by (simp add: storeDiscoveredMetrics_def)
qed

lemma beginDiscovery_ok: "beginDiscovery now i locks s = (b, locks', s') \<Longrightarrow> inventory_ok s' = inventory_ok s"
  by (auto simp: beginDiscovery_def Let_def split: prod.splits if_splits)

lemma AutoDiscover_ok:
  assumes "inventory_ok (snd st)" "new_ids new"
  shows "inventory_ok (snd (AutoDiscoverONTMetrics new DriverFor clk olt st))"
proof -
  obtain l0 s0 where st: "st = (l0, s0)" by (cases st)
  obtain b locks s where started: "beginDiscovery (clk 0) (olt_ID olt) l0 s0 = (b, locks, s)"
    by (metis prod_cases3)
  have s: "inventory_ok s" using beginDiscovery_ok [OF started] assms(1) by (simp add: st)
  show ?thesis
  proof (cases "DriverFor (olt_Model olt)")
    case None
    then show ?thesis using started s by (cases b) (simp_all add: AutoDiscoverONTMetrics_def st split: prod.split)
  next
    case (Some d)
    obtain statuses metrics locations s1 where
      walk: "walkONTPositions (clk \<circ> Suc) d (olt_ID olt) s = (statuses, metrics, locations, s1)"
      by (metis prod_cases4)
    have "inventory_ok s1" using walk s by (auto simp: walkONTPositions_def Let_def)
    then have "inventory_ok (registerInventory new (\<lambda>k. clk (k + 4)) d (olt_ID olt) locations statuses metrics s1)"
      (is "inventory_ok ?s2")
      using assms(2) by (auto simp: registerInventory_def Let_def register_instalments_ok split: prod.split)
    then have "inventory_ok (snd (storeDiscoveredMetrics (clk 3) (olt_ID olt) metrics ?s2))"
      by (rule storeDiscoveredMetrics_ok)
    then show ?thesis
      using started s Some walk
      by (cases b) (auto simp: AutoDiscoverONTMetrics_def Let_def st split: prod.split)
  qed
qed

lemma Sync_ok:
  assumes "inventory_ok s" "new_ids new" "syncOntsWithDiscovery new DriverFor now olt s = Some (r, s')"
  shows "inventory_ok s'"
proof -
  obtain ds where "discoverONTsForSync DriverFor now olt = Some ds"
    using assms(3) by (auto simp: syncOntsWithDiscovery_def split: option.splits)
  then have "BulkRegisterFromDiscovery new now (olt_ID olt) ds
      (snd (PruneMissingFromDiscovery now (olt_ID olt) ds s)) = (r, s')"
    using assms(3) by (simp add: syncOntsWithDiscovery_def split: prod.splits)
  then show ?thesis using Bulk_ok [OF Prune_ok [OF assms(1)] assms(2)] by (metis snd_conv)
qed

lemma DeleteOLT_ok:
  assumes "inventory_ok s" "DeleteOLT i s = Inr s'"
  shows "inventory_ok s'"
proof -
  define X where "X = ont_ID ` {t \<in> set (iv_onts s). ont_OLTID t = i}"
  have ids: "distinct (map ont_ID (iv_onts s))" using assms(1) apart_unique by (auto simp: inventory_ok_def onts_ok_def)
  have "filter (\<lambda>t. ont_OLTID t \<noteq> i) (iv_onts s) = filter (\<lambda>t. ont_ID t \<notin> X) (iv_onts s)"
    by (rule filter_cong) (auto simp: X_def dest: distinct_key_unique [OF ids])
  then have "s' = (s\<lparr>iv_onts := filter (\<lambda>t. ont_ID t \<notin> X) (iv_onts s),
       iv_metrics := filter (\<lambda>m. mr_ONTID m \<notin> X) (iv_metrics s),
       iv_events := filter (\<lambda>e. ev_ONTID e \<notin> X) (iv_events s)\<rparr>)\<lparr>iv_olts := filter (\<lambda>l. olt_ID l \<noteq> i) (iv_olts s)\<rparr>"
    using assms(2) by (auto simp: DeleteOLT_def X_def Let_def split: if_splits)
  then show ?thesis using removal_ok [OF assms(1)] by simp
qed

section \<open>One discovery at a time\<close>

text \<open>What may happen to an OLT's claim while a run holds it: the run publishes, others try.\<close>

datatype claim_op =
    Publishes time "OLT \<Rightarrow> OLT"
  | Tries time

fun claim_run :: "uuid \<Rightarrow> claim_op list \<Rightarrow> OLT list \<Rightarrow> bool" where
  "claim_run i [] ls = False"
| "claim_run i (Publishes now u # ops) ls = claim_run i ops (updateDiscoveryProgress now i u ls)"
| "claim_run i (Tries now # ops) ls =
     (case TryClaimDiscovery now i ls of (claimed, ls) \<Rightarrow> claimed \<or> claim_run i ops ls)"

text \<open>The run keeps publishing: no try comes more than five minutes after its last word, and it stays in its phases.\<close>

fun lively :: "time \<Rightarrow> claim_op list \<Rightarrow> bool" where
  "lively heard [] = True"
| "lively heard (Publishes now u # ops) \<longleftrightarrow>
     (\<forall>l. olt_ID (u l) = olt_ID l
          \<and> (olt_DiscoveryPhase l \<in> {''discovering'', ''polling''} \<longrightarrow> olt_DiscoveryPhase (u l) \<in> {''discovering'', ''polling''}))
     \<and> lively now ops"
| "lively heard (Tries now # ops) \<longleftrightarrow> now \<le> heard + staleDiscoveryClaim \<and> lively heard ops"

definition held :: "uuid \<Rightarrow> time \<Rightarrow> OLT list \<Rightarrow> bool" where
  "held i heard ls \<longleftrightarrow>
     (\<forall>l \<in> set ls. olt_ID l = i \<longrightarrow>
        olt_DiscoveryPhase l \<in> {''discovering'', ''polling''} \<and> olt_DiscoveryHeartbeatAt l = Some heard)"

lemma held_refuses:
  assumes "held i heard ls" "now \<le> heard + staleDiscoveryClaim"
  shows "TryClaimDiscovery now i ls = (False, ls)"
proof -
  have "filter (\<lambda>l. olt_ID l = i \<and> claimable_discovery now l) ls = []"
    using assms by (auto simp: filter_empty_conv held_def claimable_discovery_def liveness_def)
  moreover from this have "update_where (\<lambda>l. olt_ID l = i \<and> claimable_discovery now l) f ls = ls" for f
    by (auto simp: update_where_def filter_empty_conv intro!: map_idI)
  ultimately show ?thesis by (simp add: TryClaimDiscovery_def Let_def)
qed

lemma held_run: "held i heard ls \<Longrightarrow> lively heard ops \<Longrightarrow> \<not> claim_run i ops ls"
proof (induction ops arbitrary: heard ls)
  case (Cons op ops)
  show ?case
  proof (cases op)
    case (Publishes now u)
    have u: "olt_ID (u l) = olt_ID l"
      "olt_DiscoveryPhase l \<in> {''discovering'', ''polling''} \<Longrightarrow> olt_DiscoveryPhase (u l) \<in> {''discovering'', ''polling''}" for l
      using Cons.prems(2) unfolding Publishes by auto
    have "held i now (updateDiscoveryProgress now i u ls)"
      unfolding held_def
    proof (intro ballI impI)
      fix l assume "l \<in> set (updateDiscoveryProgress now i u ls)" "olt_ID l = i"
      then obtain m where "m \<in> set ls" "olt_ID m = i" "l = (u m)\<lparr>olt_DiscoveryHeartbeatAt := Some now\<rparr>"
        unfolding updateDiscoveryProgress_def by (elim update_where_mem_cases) auto
      then show "olt_DiscoveryPhase l \<in> {''discovering'', ''polling''} \<and> olt_DiscoveryHeartbeatAt l = Some now"
        using Cons.prems(1) u(2) by (simp add: held_def)
    qed
    then show ?thesis using Cons.IH Cons.prems(2) unfolding Publishes claim_run.simps lively.simps by blast
  next
    case (Tries now)
    then show ?thesis
      using Cons.IH [OF Cons.prems(1)] Cons.prems(2) held_refuses [OF Cons.prems(1), of now] by simp
  qed
qed simp

lemma claimed_held:
  assumes "distinct (map olt_ID ls)" "TryClaimDiscovery now i ls = (True, ls')"
  shows "held i now ls'"
proof -
  define P where "P = (\<lambda>l. olt_ID l = i \<and> claimable_discovery now l)"
  have "length (filter P ls) = 1" using assms(2) by (simp add: TryClaimDiscovery_def Let_def P_def)
  then obtain l where l: "filter P ls = [l]" by (auto simp: length_Suc_conv)
  have "l \<in> set (filter P ls)" by (simp add: l)
  then have "l \<in> set ls" "P l" by auto
  then have only: "P m" if "m \<in> set ls" "olt_ID m = i" for m
    using distinct_key_unique [OF assms(1) that(1), of l] that(2) unfolding P_def by simp
  have "ls' = update_where P (\<lambda>l. l\<lparr>olt_DiscoveryPhase := ''discovering'', olt_DiscoveryError := [],
                olt_DiscoveryStartedAt := Some now, olt_DiscoveryHeartbeatAt := Some now\<rparr>) ls"
    using assms(2) by (simp add: TryClaimDiscovery_def Let_def P_def)
  then show ?thesis
    unfolding held_def by (auto elim!: update_where_mem_cases dest: only)
qed

text \<open>C14. One discovery of an OLT at a time: after a run claimed it no other claim succeeds for as long as the run publishes its
  progress at least every five minutes, whoever tries in between.\<close>

theorem discovery_claim_exclusive:
  assumes "distinct (map olt_ID ls)" "TryClaimDiscovery now i ls = (True, ls')" "lively now ops"
  shows "\<not> claim_run i ops ls'"
  using held_run [OF claimed_held [OF assms(1,2)] assms(3)] .

section \<open>A walk names every ONU once\<close>

lemma concat_sorted_groups:
  assumes "distinct xs"
  shows "mset (concat (map (\<lambda>k. filter (\<lambda>x. f x = k) xs) (sort (remdups (map f xs))))) = mset xs"
proof -
  have "mset (concat (map (\<lambda>k. filter (\<lambda>x. f x = k) xs) ks)) = mset (filter (\<lambda>x. f x \<in> set ks) xs)"
    if "distinct ks" for ks
    using that
  proof (induction ks)
    case (Cons k ks)
    have "mset (filter (\<lambda>x. f x \<in> set (k # ks)) xs) =
        mset (filter (\<lambda>x. f x = k) xs) + mset (filter (\<lambda>x. f x \<in> set ks) xs)"
      using Cons.prems by (induction xs) auto
    then show ?case using Cons by simp
  qed simp
  then have "mset (concat (map (\<lambda>k. filter (\<lambda>x. f x = k) xs) (sort (remdups (map f xs))))) =
      mset (filter (\<lambda>x. f x \<in> set (sort (remdups (map f xs)))) xs)"
    by (simp del: set_sort)
  then show ?thesis by (simp add: filter_True)
qed

definition record_place :: "DiscoveredONT \<Rightarrow> ONTLocation" where
  "record_place d = (do_Slot d, do_PortID d, do_ONTID d)"

lemma discovered_place [simp]: "record_place (discovered_ont now ss is ms loc) = loc"
  by (cases loc) (simp add: record_place_def discovered_ont_def Let_def split: option.split)

lemma flatten_locations:
  assumes "distinct (map fst statuses)"
  shows "mset (map record_place (flatten (buildTopologyStructure now statuses inventory metrics))) = mset (map fst statuses)"
proof -
  let ?locs = "map fst statuses"
  define ports :: "ONTLocation list \<Rightarrow> int list" where "ports mine = sort (remdups (map (fst \<circ> snd) mine))" for mine
  define on :: "int \<Rightarrow> ONTLocation list" where "on slot = filter (\<lambda>l. fst l = slot) ?locs" for slot
  have "map record_place (flatten (buildTopologyStructure now statuses inventory metrics)) =
      concat (map (\<lambda>slot. concat (map (\<lambda>port. filter (\<lambda>l. (fst \<circ> snd) l = port) (on slot)) (ports (on slot))))
        (sort (remdups (map fst ?locs))))"
    by (simp add: flatten_def buildTopologyStructure_def Let_def on_def ports_def map_concat comp_def)
  also have "mset \<dots> = mset (concat (map on (sort (remdups (map fst ?locs)))))"
  proof -
    have "mset (concat (map (\<lambda>port. filter (\<lambda>l. (fst \<circ> snd) l = port) (on slot)) (ports (on slot)))) = mset (on slot)" for slot
      unfolding ports_def by (rule concat_sorted_groups) (simp add: on_def assms)
    then show ?thesis by (simp add: mset_concat comp_def)
  qed
  also have "\<dots> = mset ?locs" unfolding on_def by (rule concat_sorted_groups) (rule assms)
  finally show ?thesis .
qed

section \<open>A chassis walked twice\<close>

lemma walk_apart:
  assumes "distinct (map record_place ds)" "\<forall>d \<in> set ds. do_Slot d > 0"
  shows "sorted_wrt names_apart ds"
  using assms
proof (induction ds)
  case (Cons d ds)
  have "names_apart d e" if "e \<in> set ds" for e
    using Cons.prems that by (force simp: names_apart_def record_place_def)
  then show ?case using Cons by simp
qed simp

lemma seen_later:
  "discovered_ont later ss is ms = (\<lambda>loc. (discovered_ont now ss is ms loc)\<lparr>do_LastSeenAt := later\<rparr>)"
  by (rule ext) (simp add: discovered_ont_def Let_def split: prod.split option.split)

lemma topology_later:
  "flatten (buildTopologyStructure later ss is ms) =
     map (\<lambda>d. d\<lparr>do_LastSeenAt := later\<rparr>) (flatten (buildTopologyStructure now ss is ms))"
  by (simp add: flatten_def buildTopologyStructure_def Let_def map_concat comp_def seen_later [of later ss "is" ms now])

lemma settled_seen [simp]: "settled olt (d\<lparr>do_LastSeenAt := t\<rparr>) ts = settled olt d ts"
  by (simp add: settled_def discoveryUpdates_def)

lemma prune_keeps_settled:
  assumes "onts_ok (iv_onts s)" "d \<in> set ds" "settled olt d (iv_onts s)"
  shows "settled olt d (iv_onts (snd (PruneMissingFromDiscovery now olt ds s)))"
proof -
  obtain t where t: "t \<in> set (iv_onts s)" "at_position olt (do_Slot d) (do_PortID d) (do_ONTID d) t" "discoveryUpdates d t = []"
    using assms(3) by (auto simp: settled_def)
  have "t \<in> set (iv_onts (snd (PruneMissingFromDiscovery now olt ds s)))"
    by (rule prune_overlooks_the_card [OF t(1) assms(2)])
      (use t(2) assms(1) in \<open>auto simp: at_position_def onts_ok_def apart_unique\<close>)
  then show ?thesis using t by (auto simp: settled_def)
qed

lemma bulk_settles:
  assumes "inventory_ok s" "new_ids new" "sorted_wrt names_apart ds"
    and "BulkRegisterFromDiscovery new now olt ds s = (r, s1)" "br_Errors r = []"
  shows "\<forall>d \<in> set ds. settled olt d (iv_onts s1)"
  by (rule fold_settles [OF assms(2,1,3) assms(4) [unfolded BulkRegisterFromDiscovery_def]]) (simp add: assms(5))

lemma bulk_skips:
  assumes "onts_ok (iv_onts s)" "\<forall>d \<in> set ds. settled olt d (iv_onts s)"
  shows "BulkRegisterFromDiscovery new now olt ds s = (\<lparr>br_Registered = 0, br_Skipped = length ds, br_Errors = []\<rparr>, s)"
  by (simp add: BulkRegisterFromDiscovery_def fold_skips [OF assms])

text \<open>The inventory follows the chassis and then rests: when the worker's synchronisation with a chassis whose cards are
  all numbered ended without an error, the next one that reads the same registers nothing, fails nothing and passes over each of
  the ONUs the chassis lists - however the two tables were read and in whatever order.\<close>

theorem sync_settles:
  assumes "inventory_ok s" "new_ids new"
    and "DriverFor (olt_Model olt) = Some d" "dr_WalkStatuses d = Some statuses"
    and "distinct (map fst statuses)" "\<forall>l \<in> fst ` set statuses. fst l > 0"
    and "syncOntsWithDiscovery new DriverFor now olt s = Some (r, s1)" "br_Errors r = []"
  shows "map_option fst (syncOntsWithDiscovery new DriverFor later olt s1) =
     Some \<lparr>br_Registered = 0, br_Skipped = length statuses, br_Errors = []\<rparr>"
proof -
  define ms where "ms = (case readMetricsForKnownONTs d (map fst statuses) of None \<Rightarrow> [] | Some m \<Rightarrow> m)"
  define info where "info = (case dr_Inventory d (map fst statuses) of None \<Rightarrow> [] | Some i \<Rightarrow> i)"
  define walk where "walk t = flatten (buildTopologyStructure t statuses info ms)" for t
  have seen: "discoverONTsForSync DriverFor t olt = Some (walk t)" for t
    by (simp add: discoverONTsForSync_def DiscoverOLTTopology_def assms(3,4) Let_def walk_def ms_def info_def)
  have places: "mset (map record_place (walk now)) = mset (map fst statuses)"
    unfolding walk_def by (rule flatten_locations [OF assms(5)])
  have n: "length (walk now) = length statuses" using arg_cong [OF places, of size] by simp
  have "distinct (map record_place (walk now))"
    using places assms(5) by (metis mset_eq_imp_distinct_iff)
  moreover have "\<forall>d \<in> set (walk now). do_Slot d > 0"
  proof
    fix d assume "d \<in> set (walk now)"
    then have "record_place d \<in> set (map record_place (walk now))" by simp
    then have "record_place d \<in> fst ` set statuses" using mset_eq_setD [OF places] by simp
    then show "do_Slot d > 0" using assms(6) by (auto simp: record_place_def)
  qed
  ultimately have apart: "sorted_wrt names_apart (walk now)" by (rule walk_apart)
  let ?p = "\<lambda>t. PruneMissingFromDiscovery t (olt_ID olt) (walk t)"
  have run: "BulkRegisterFromDiscovery new now (olt_ID olt) (walk now) (snd (?p now s)) = (r, s1)"
    using assms(7) by (simp add: syncOntsWithDiscovery_def seen split: prod.splits)
  have ok: "inventory_ok (snd (?p now s))" "inventory_ok s1"
    using Prune_ok [OF assms(1)] Sync_ok [OF assms(1,2,7)] by blast+
  have "\<forall>d \<in> set (walk now). settled (olt_ID olt) d (iv_onts s1)"
    by (rule bulk_settles [OF ok(1) assms(2) apart run assms(8)])
  then have "\<forall>d \<in> set (walk later). settled (olt_ID olt) d (iv_onts s1)"
    by (simp add: walk_def topology_later [of later _ _ _ now])
  then have "\<forall>d \<in> set (walk later). settled (olt_ID olt) d (iv_onts (snd (?p later s1)))"
    using prune_keeps_settled [OF inventory_onts_ok [OF ok(2)]] by blast
  then have "BulkRegisterFromDiscovery new later (olt_ID olt) (walk later) (snd (?p later s1)) =
      (\<lparr>br_Registered = 0, br_Skipped = length (walk later), br_Errors = []\<rparr>, snd (?p later s1))"
    by (rule bulk_skips [OF inventory_onts_ok [OF Prune_ok [OF ok(2)]]])
  moreover have "length (walk later) = length statuses"
    using n by (simp add: walk_def topology_later [of later _ _ _ now])
  ultimately show ?thesis by (auto simp: syncOntsWithDiscovery_def seen split: prod.splits)
qed

section \<open>At concrete inputs\<close>

definition sample_driver :: driver where
  "sample_driver = \<lparr>dr_WalkStatuses = Some [((2, 3, 5), 3)], dr_WalkMetrics = Some [], dr_QueryMetricsFor = None,
     dr_Inventory = (\<lambda>ls. Some []), dr_InventoryByPort = (\<lambda>ls. ([(ls, [])], False)), dr_WalkTrafficRates = None\<rparr>"

lemmas run_defs =
  syncOntsWithDiscovery_def discoverONTsForSync_def DiscoverOLTTopology_def buildTopologyStructure_def
  flatten_def discovered_ont_def readMetricsForKnownONTs_def value_of_def no_inventory_def
  PruneMissingFromDiscovery_def stale_ids_def BulkRegisterFromDiscovery_def register_one_def rowForDiscovered_def
  GetByOLTAndPosition_def CreateONT_def checkUnclaimed_def resolvePhone_def db_create_def

lemma sync_settles_witness:
  "let olt = hd (iv_olts sample_inventory);
       s1 = snd (the (syncOntsWithDiscovery next_uuid (\<lambda>_. Some sample_driver) 5 olt sample_inventory))
   in map_option fst (syncOntsWithDiscovery next_uuid (\<lambda>_. Some sample_driver) 90 olt s1) =
        Some \<lparr>br_Registered = 0, br_Skipped = 1, br_Errors = []\<rparr>"
proof -
  let ?olt = "hd (iv_olts sample_inventory)"
  have first: "\<exists>r s1. syncOntsWithDiscovery next_uuid (\<lambda>_. Some sample_driver) 5 ?olt sample_inventory = Some (r, s1)
      \<and> br_Errors r = []"
    by (simp add: run_defs sample_driver_def sample_inventory_def newONTFromDiscovery_def placed_def)
  then obtain r s1 where run: "syncOntsWithDiscovery next_uuid (\<lambda>_. Some sample_driver) 5 ?olt sample_inventory = Some (r, s1)"
    and quiet: "br_Errors r = []" by blast
  have "map_option fst (syncOntsWithDiscovery next_uuid (\<lambda>_. Some sample_driver) 90 ?olt s1) =
      Some \<lparr>br_Registered = 0, br_Skipped = length [((2, 3, 5) :: ONTLocation, 3 :: int)], br_Errors = []\<rparr>"
    by (rule sync_settles [OF sample_inventory_ok next_uuid_new refl _ _ _ run quiet])
      (simp_all add: sample_driver_def)
  then show ?thesis by (simp add: Let_def run)
qed

lemma discovery_claim_exclusive_witness:
  "\<not> claim_run 7 [Tries minute, Publishes (4 * minute) (\<lambda>l. l\<lparr>olt_DiscoveryPhase := ''polling''\<rparr>), Tries (8 * minute)]
       (snd (TryClaimDiscovery 0 7 (iv_olts sample_inventory)))"
proof (rule discovery_claim_exclusive)
  show "distinct (map olt_ID (iv_olts sample_inventory))" by (simp add: sample_inventory_def)
  show "TryClaimDiscovery 0 7 (iv_olts sample_inventory) = (True, snd (TryClaimDiscovery 0 7 (iv_olts sample_inventory)))"
    by (simp add: TryClaimDiscovery_def claimable_discovery_def sample_inventory_def Let_def)
qed (simp add: staleDiscoveryClaim_def)

end
