(* ===== verification/Worker.thy ===== *)
theory Worker
  imports OltDiscovery PollQueue WireGuard
begin

text \<open>
  The poller (\<open>cmd/worker\<close>): what one cycle reads of an OLT (\<open>olt_poll.go\<close>), how a reading is applied to one ONT
  (\<open>ont_poll.go\<close>) and to all of them (\<open>olt_cycle.go\<close>), the tunnels that gate an OLT (\<open>wireguard_gate.go\<close>) and the jobs a
  worker claims and settles (\<open>jobs.go\<close>, \<open>router_jobs.go\<close>).

  The clock is read once per pass over an OLT's ONTs. A pass ends when the walk over the pages does, so applying a reading is
  an option, and so is settling a failed job, whose wait is a shift that panics on a negative count. What a
  router's poll comes to is a parameter of the router jobs.
\<close>

section \<open>A reading\<close>

record oltReading =
  rd_statuses :: "(ONTLocation \<times> int) list"
  rd_statusWalkOK :: bool
  rd_metrics :: "(ONTLocation \<times> ONTMetrics) list option"
  rd_rates :: "(ONTLocation \<times> ONUTrafficRates) list"
  rd_statusPositions :: "int \<times> int \<Rightarrow> int option"
  rd_metricsPositions :: "int \<times> int \<Rightarrow> (ONTMetrics \<times> int) option"

text \<open>The last state at a port and ONU number wins, the first metrics do.\<close>

fun index_statuses :: "(ONTLocation \<times> int) list \<Rightarrow> (int \<times> int \<Rightarrow> int option) \<Rightarrow> int \<times> int \<Rightarrow> int option" where
  "index_statuses [] m = m"
| "index_statuses (((slot, port, onu), state) # xs) m = index_statuses xs (m((port, onu) \<mapsto> state))"

fun index_metrics ::
  "(ONTLocation \<times> ONTMetrics) list \<Rightarrow> (int \<times> int \<Rightarrow> (ONTMetrics \<times> int) option) \<Rightarrow> int \<times> int \<Rightarrow> (ONTMetrics \<times> int) option" where
  "index_metrics [] m = m"
| "index_metrics (((slot, port, onu), v) # xs) m =
     index_metrics xs (if m (port, onu) \<noteq> None then m else m((port, onu) \<mapsto> (v, slot)))"

definition index_reading :: "oltReading \<Rightarrow> oltReading" where
  "index_reading r =
     r\<lparr>rd_statusPositions := index_statuses (rd_statuses r) Map.empty,
       rd_metricsPositions := index_metrics (case rd_metrics r of None \<Rightarrow> [] | Some m \<Rightarrow> m) Map.empty\<rparr>"

definition reportsPosition :: "oltReading \<Rightarrow> int \<Rightarrow> int \<Rightarrow> bool" where
  "reportsPosition r port onu \<longleftrightarrow> rd_statusPositions r (port, onu) \<noteq> None"

definition runStateFor :: "oltReading \<Rightarrow> ONT \<Rightarrow> int option" where
  "runStateFor r t =
     (case ont_Slot t of
        Some slot \<Rightarrow> map_of (rd_statuses r) (slot, ont_PortID t, ont_ONTID t)
      | None \<Rightarrow> rd_statusPositions r (ont_PortID t, ont_ONTID t))"

definition OLTStatusOnline :: string where "OLTStatusOnline = ''online''"
definition OLTStatusOffline :: string where "OLTStatusOffline = ''offline''"

definition updateOLTConnectionStatus :: "time \<Rightarrow> uuid \<Rightarrow> string \<Rightarrow> inventory \<Rightarrow> inventory" where
  "updateOLTConnectionStatus now i status s =
     s\<lparr>iv_olts := update_where (\<lambda>l. olt_ID l = i)
        (\<lambda>l. if status = OLTStatusOnline then l\<lparr>olt_Status := status, olt_LastSeen := Some now\<rparr> else l\<lparr>olt_Status := status\<rparr>)
        (iv_olts s)\<rparr>"

definition walkStatusesForOLT :: "time \<Rightarrow> driver \<Rightarrow> OLT \<Rightarrow> oltReading \<Rightarrow> inventory \<Rightarrow> oltReading \<times> inventory" where
  "walkStatusesForOLT now d olt r s =
     (case dr_WalkStatuses d of
        None \<Rightarrow> (r\<lparr>rd_statuses := []\<rparr>, updateOLTConnectionStatus now (olt_ID olt) OLTStatusOffline s)
      | Some statuses \<Rightarrow>
          (r\<lparr>rd_statuses := statuses, rd_statusWalkOK := True\<rparr>,
           updateOLTConnectionStatus now (olt_ID olt) OLTStatusOnline s))"

definition swept_metrics :: "driver \<Rightarrow> (ONTLocation \<times> ONTMetrics) list" where
  "swept_metrics d = (case dr_WalkMetrics d of None \<Rightarrow> [] | Some m \<Rightarrow> m)"

definition readMetricsForOLT :: "driver \<Rightarrow> oltReading \<Rightarrow> oltReading" where
  "readMetricsForOLT d r =
     (case dr_QueryMetricsFor d of
        Some query \<Rightarrow>
          if rd_statuses r \<noteq> []
          then (case query (map fst (rd_statuses r)) of
                  Some m \<Rightarrow> r\<lparr>rd_metrics := Some m\<rparr>
                | None \<Rightarrow> r\<lparr>rd_metrics := Some (swept_metrics d)\<rparr>)
          else r\<lparr>rd_metrics := Some (swept_metrics d)\<rparr>
      | None \<Rightarrow> r\<lparr>rd_metrics := Some (swept_metrics d)\<rparr>)"

definition walkRatesForOLT :: "driver \<Rightarrow> oltReading \<Rightarrow> oltReading" where
  "walkRatesForOLT d r = r\<lparr>rd_rates := (case dr_WalkTrafficRates d of None \<Rightarrow> [] | Some m \<Rightarrow> m)\<rparr>"

datatype poll_error = Deferred string | Failed string

definition no_reading :: oltReading where
  "no_reading = \<lparr>rd_statuses = [], rd_statusWalkOK = False, rd_metrics = None, rd_rates = [],
     rd_statusPositions = Map.empty, rd_metricsPositions = Map.empty\<rparr>"

text \<open>The lock is held only while the chassis is read.\<close>

definition readChassis ::
  "(string \<Rightarrow> driver option) \<Rightarrow> time \<Rightarrow> uuid list \<Rightarrow> OLT \<Rightarrow> bool \<Rightarrow> inventory \<Rightarrow> (poll_error + oltReading) \<times> inventory" where
  "readChassis DriverFor now locks olt withMetrics s =
     (case DriverFor (olt_Model olt) of
        None \<Rightarrow> (Inl (Failed ''no driver''), s)
      | Some d \<Rightarrow>
          if \<not> fst (TryLockOLTSNMP (olt_ID olt) locks) then (Inl (Deferred ''another reader holds this OLT''), s)
          else (case walkStatusesForOLT now d olt no_reading s of
                  (r, s) \<Rightarrow> (Inr (index_reading (if withMetrics then walkRatesForOLT d (readMetricsForOLT d r) else r)), s)))"

section \<open>One ONT\<close>

text \<open>The metrics found, and the slot they were found at.\<close>

definition matchMetricsForONT :: "ONT \<Rightarrow> oltReading \<Rightarrow> ONTMetrics option \<times> int" where
  "matchMetricsForONT t r =
     (case ont_Slot t of
        Some slot \<Rightarrow>
          (case map_of (case rd_metrics r of None \<Rightarrow> [] | Some m \<Rightarrow> m) (slot, ont_PortID t, ont_ONTID t) of
             Some m \<Rightarrow> (Some m, slot)
           | None \<Rightarrow> (None, 0))
      | None \<Rightarrow>
          (case rd_metricsPositions r (ont_PortID t, ont_ONTID t) of
             Some (m, slot) \<Rightarrow> (Some m, slot)
           | None \<Rightarrow> (None, 0)))"

definition lookupRatesForONT :: "ONT \<Rightarrow> int \<Rightarrow> (ONTLocation \<times> ONUTrafficRates) list \<Rightarrow> ONUTrafficRates option" where
  "lookupRatesForONT t foundSlot rates =
     (let rateSlot = (case ont_Slot t of None \<Rightarrow> foundSlot | Some slot \<Rightarrow> slot)
      in map_of rates (rateSlot, ont_PortID t, ont_ONTID t))"

definition mapRunStateToStatus :: "int \<Rightarrow> string" where
  "mapRunStateToStatus runState =
     (if runState = 3 then ONTStatusOnline else if runState = 6 then ONTStatusOffline
      else if runState = 1 then ONTStatusLOS else if runState = 4 then ONTStatusDyingGas else ONTStatusUnknown)"

text \<open>An empty status is no evidence.\<close>

definition determineOntStatus :: "ONT \<Rightarrow> oltReading \<Rightarrow> ONTMetrics option \<Rightarrow> string" where
  "determineOntStatus t r found =
     (let mapped = (case runStateFor r t of
                      None \<Rightarrow> None
                    | Some runState \<Rightarrow>
                        if mapRunStateToStatus runState = ONTStatusUnknown then None
                        else Some (mapRunStateToStatus runState))
      in case mapped of
           Some status \<Rightarrow> status
         | None \<Rightarrow>
             (case found of
                Some m \<Rightarrow> if om_RxPower m \<noteq> None then ONTStatusOnline else []
              | None \<Rightarrow> []))"

definition handleStatusChange :: "time \<Rightarrow> ONT \<Rightarrow> string \<Rightarrow> inventory \<Rightarrow> inventory" where
  "handleStatusChange now t newStatus s =
     (if newStatus = [] \<or> newStatus = ont_Status t then s
      else kept s (UpdateStatus now (ont_ID t) newStatus s))"

definition statusChangeFor :: "ONT \<Rightarrow> string \<Rightarrow> StatusChange option" where
  "statusChangeFor t newStatus =
     (if newStatus = [] then None
      else Some \<lparr>sc_ONTID = ont_ID t,
                 sc_EventType = if newStatus \<noteq> ONTStatusOnline then EventTypeOffline else EventTypeOnline,
                 sc_Reason = newStatus\<rparr>)"

definition field_columns :: "ONTMetrics \<Rightarrow> int \<Rightarrow> ont_column list" where
  "field_columns m slot =
     [C_rx_power (om_RxPower m), C_tx_power (om_TxPower m)]
     @ (if om_Distance m > 0 then [C_distance (om_Distance m)] else [])
     @ (if om_SoftwareVersion m \<noteq> [] then [C_software_version (om_SoftwareVersion m)] else [])
     @ [C_slot slot]"

definition updateOntFields :: "ONT \<Rightarrow> ONTMetrics option \<Rightarrow> int \<Rightarrow> inventory \<Rightarrow> inventory" where
  "updateOntFields t found foundSlot s =
     (case found of
        None \<Rightarrow> s
      | Some m \<Rightarrow> kept s (write_ont (ont_ID t) (field_columns m foundSlot) s))"

definition processOnt :: "time \<Rightarrow> oltReading \<Rightarrow> ONT \<Rightarrow> inventory \<Rightarrow> MetricSample \<times> StatusChange option \<times> inventory" where
  "processOnt now r t s =
     (case matchMetricsForONT t r of
        (found, foundSlot) \<Rightarrow>
          let rates = lookupRatesForONT t foundSlot (rd_rates r);
              newStatus = determineOntStatus t r found;
              s = handleStatusChange now t newStatus s;
              s = updateOntFields t found foundSlot s
          in (\<lparr>ms_ONTID = ont_ID t, ms_Metrics = found, ms_Rates = rates\<rparr>, statusChangeFor t newStatus, s))"

section \<open>All of them\<close>

definition ontPageSize :: int where "ontPageSize = 1000"

text \<open>An ONT the status walk did not name is skipped, if the walk succeeded.\<close>

definition skipped_ont :: "oltReading \<Rightarrow> ONT \<Rightarrow> bool" where
  "skipped_ont r t \<longleftrightarrow> rd_statusWalkOK r \<and> \<not> reportsPosition r (ont_PortID t) (ont_ONTID t)"

fun process_rows ::
  "time \<Rightarrow> oltReading \<Rightarrow> ONT list \<Rightarrow> inventory \<Rightarrow> MetricSample list \<times> StatusChange list \<times> inventory" where
  "process_rows now r [] s = ([], [], s)"
| "process_rows now r (t # ts) s =
     (if skipped_ont r t then process_rows now r ts s
      else case processOnt now r t s of
             (sample, change, s) \<Rightarrow>
               (case process_rows now r ts s of
                  (samples, changes, s) \<Rightarrow>
                    ((if rd_metrics r \<noteq> None then sample # samples else samples),
                     (case change of None \<Rightarrow> changes | Some c \<Rightarrow> c # changes), s)))"

definition apply_page :: "time \<Rightarrow> oltReading \<Rightarrow> ONT list \<Rightarrow> inventory \<Rightarrow> poll_error + inventory" where
  "apply_page now r rows s =
     (case process_rows now r rows s of
        (samples, changes, s) \<Rightarrow>
          let events = (case LogStatusChanges now changes (iv_events s) of None \<Rightarrow> iv_events s | Some evs \<Rightarrow> evs);
              metrics = StoreMetricsBatch (\<lambda>_. now) samples (iv_metrics s)
          in Inr (s\<lparr>iv_events := events, iv_metrics := metrics\<rparr>))"

definition applyReading :: "time \<Rightarrow> OLT \<Rightarrow> oltReading \<Rightarrow> inventory \<Rightarrow> (poll_error + inventory) option" where
  "applyReading now olt r s = EachONTOfOLT iv_onts (olt_ID olt) ontPageSize (apply_page now r) s"

definition run_reading_job ::
  "bool \<Rightarrow> (string \<Rightarrow> driver option) \<Rightarrow> time \<Rightarrow> uuid list \<Rightarrow> OLT \<Rightarrow> inventory \<Rightarrow> (poll_error option \<times> inventory) option" where
  "run_reading_job withMetrics DriverFor now locks olt s =
     (case readChassis DriverFor now locks olt withMetrics s of
        (Inl e, s) \<Rightarrow> Some (Some e, s)
      | (Inr r, s) \<Rightarrow>
          (case applyReading now olt r s of
             None \<Rightarrow> None
           | Some (Inl e) \<Rightarrow> Some (Some e, s)
           | Some (Inr s) \<Rightarrow> Some (None, s)))"

abbreviation "runStatusJob \<equiv> run_reading_job False"
abbreviation "runMetricsJob \<equiv> run_reading_job True"

definition runDiscoveryJob ::
  "(uuid list \<Rightarrow> uuid) \<Rightarrow> (string \<Rightarrow> driver option) \<Rightarrow> (nat \<Rightarrow> time) \<Rightarrow> uuid list \<Rightarrow> OLT \<Rightarrow> inventory
    \<Rightarrow> poll_error option \<times> uuid list \<times> inventory" where
  "runDiscoveryJob new DriverFor clk locks olt s =
     (case syncOntsWithDiscovery new DriverFor (clk 0) olt s of
        None \<Rightarrow> (Some (Failed ''discovery sync failed''), locks, s)
      | Some (r, s) \<Rightarrow> (None, AutoDiscoverONTMetrics new DriverFor (clk \<circ> Suc) olt (locks, s)))"

section \<open>Tunnels that are down\<close>

definition PeerHandshakeGrace :: duration where "PeerHandshakeGrace = 3 * minute"

text \<open>The zero \<open>time.Time\<close>, year 1.\<close>

definition zero_time :: time where "zero_time = - 62135596800 * second"

definition PeerConnected :: "time option \<Rightarrow> time \<Rightarrow> bool" where
  "PeerConnected lastHandshake now =
     (case lastHandshake of
        None \<Rightarrow> False
      | Some t \<Rightarrow> if t = zero_time then False else now - t < PeerHandshakeGrace)"

definition peerCovers :: "peer \<Rightarrow> ip \<Rightarrow> bool" where
  "peerCovers p address =
     list_ex (\<lambda>subnet. case net_ParseCIDR subnet of None \<Rightarrow> False | Some network \<Rightarrow> net_Contains network address)
       (wp_AllowedIPs p)"

definition allPeersDown :: "peer list \<Rightarrow> time \<Rightarrow> bool" where
  "allPeersDown ps now =
     (if list_ex (\<lambda>p. PeerConnected (wp_LastHandshake p) now) ps then False else length ps > 0)"

definition groupPeersBySite :: "peer list \<Rightarrow> (uuid \<Rightarrow> peer list) \<times> uuid list" where
  "groupPeersBySite ps = (\<lambda>site. filter (\<lambda>p. wp_SiteID p = site) ps, remdups (map wp_SiteID ps))"

definition peersReaching :: "OLT \<Rightarrow> peer list \<Rightarrow> peer list" where
  "peersReaching olt sitePeers =
     (case ParseIP (olt_IPAddress olt) of
        None \<Rightarrow> sitePeers
      | Some address \<Rightarrow>
          (let covering = filter (\<lambda>p. peerCovers p address) sitePeers
           in if covering = [] then sitePeers else covering))"

definition oltsBehindDownTunnel :: "time \<Rightarrow> peer list \<Rightarrow> OLT list \<Rightarrow> uuid \<Rightarrow> bool" where
  "oltsBehindDownTunnel now all_peers olts =
     (let ps = filter wp_Enabled all_peers in
      if ps = [] then (\<lambda>_. False)
      else (case groupPeersBySite ps of
              (bySite, siteIDs) \<Rightarrow>
                (\<lambda>i. i \<in> olt_ID ` set (filter (\<lambda>l. allPeersDown (peersReaching l (bySite (olt_SiteID l))) now)
                                        (filter (\<lambda>l. olt_SiteID l \<in> set siteIDs) olts)))))"

section \<open>Jobs\<close>

record worker =
  wk_inv :: inventory
  wk_jobs :: "poll_kind poll_job list"
  wk_locks :: "uuid list"
  wk_peers :: "peer list"

record worker_env =
  we_id :: string
  we_new :: "uuid list \<Rightarrow> uuid"
  we_DriverFor :: "string \<Rightarrow> driver option"

definition runJob ::
  "worker_env \<Rightarrow> (nat \<Rightarrow> time) \<Rightarrow> poll_kind poll_job \<Rightarrow> OLT \<Rightarrow> worker \<Rightarrow> (poll_error option \<times> worker) option" where
  "runJob env clk job olt w =
     (if oltsBehindDownTunnel (clk 0) (wk_peers w) (iv_olts (wk_inv w)) (olt_ID olt)
      then Some (Some (Deferred ''site tunnel is down''), w)
      else case pj_kind job of
             PollKindStatus \<Rightarrow>
               map_option (\<lambda>(e, s). (e, w\<lparr>wk_inv := s\<rparr>)) (runStatusJob (we_DriverFor env) (clk 1) (wk_locks w) olt (wk_inv w))
           | PollKindMetrics \<Rightarrow>
               map_option (\<lambda>(e, s). (e, w\<lparr>wk_inv := s\<rparr>)) (runMetricsJob (we_DriverFor env) (clk 1) (wk_locks w) olt (wk_inv w))
           | PollKindDiscovery \<Rightarrow>
               (case runDiscoveryJob (we_new env) (we_DriverFor env) (clk \<circ> Suc) (wk_locks w) olt (wk_inv w) of
                  (e, locks, s) \<Rightarrow> Some (e, w\<lparr>wk_locks := locks, wk_inv := s\<rparr>)))"

definition handleJobError :: "time \<Rightarrow> poll_kind poll_job \<Rightarrow> poll_error \<Rightarrow> worker \<Rightarrow> worker option" where
  "handleJobError now job e w =
     (case e of
        Deferred reason \<Rightarrow> Some (w\<lparr>wk_jobs := Defer job now (wk_jobs w)\<rparr>)
      | Failed cause \<Rightarrow> map_option (\<lambda>tbl. w\<lparr>wk_jobs := tbl\<rparr>) (Fail job cause now (wk_jobs w)))"

text \<open>The clock: \<open>clk 0\<close> at the claim, \<open>clk 2\<close> when the run starts, from \<open>clk 3\<close> on while it runs, and \<open>clk 1\<close> when
  the job is settled. No row is locked by another transaction at the claim.\<close>

definition runNextJob :: "worker_env \<Rightarrow> (nat \<Rightarrow> time) \<Rightarrow> worker \<Rightarrow> (bool \<times> worker) option" where
  "runNextJob env clk w =
     (case Claim (we_id env) (\<lambda>_. False) (clk 0) (wk_jobs w) of
        (tbl, None) \<Rightarrow> Some (False, w)
      | (tbl, Some job) \<Rightarrow>
          let w = w\<lparr>wk_jobs := tbl\<rparr> in
          (case find (\<lambda>l. olt_ID l = pj_device job) (iv_olts (wk_inv w)) of
             None \<Rightarrow> Some (True, w\<lparr>wk_jobs := Defer job (clk 1) (wk_jobs w)\<rparr>)
           | Some olt \<Rightarrow>
               (case runJob env (\<lambda>k. clk (k + 3)) job olt w of
                  None \<Rightarrow> None
                | Some (Some e, w) \<Rightarrow> map_option (Pair True) (handleJobError (clk 1) job e w)
                | Some (None, w) \<Rightarrow>
                    Some (True, w\<lparr>wk_jobs := Complete job (clk 1 - clk 2) (clk 1) (wk_jobs w)\<rparr>))))"

section \<open>Router jobs\<close>

datatype router_lookup = LookupFailed string | RouterGone | RouterFound bool

datatype router_outcome = RouterRead | StaticRoutesUnread | RouterReadFailed string

definition settleRouterJob ::
  "router_poll_kind poll_job \<Rightarrow> router_outcome \<Rightarrow> duration \<Rightarrow> time \<Rightarrow> router_poll_kind poll_job list
    \<Rightarrow> router_poll_kind poll_job list option" where
  "settleRouterJob job outcome took now tbl =
     (let err = (case outcome of RouterRead \<Rightarrow> None | StaticRoutesUnread \<Rightarrow> None | RouterReadFailed cause \<Rightarrow> Some cause)
      in case err of
           Some cause \<Rightarrow> RouterFail job cause now tbl
         | None \<Rightarrow> Some (RouterComplete job took now tbl))"

definition runNextRouterJob ::
  "string \<Rightarrow> (uuid \<Rightarrow> router_lookup) \<Rightarrow> (router_poll_kind poll_job \<Rightarrow> router_outcome) \<Rightarrow> time \<Rightarrow> time
    \<Rightarrow> router_poll_kind poll_job list \<Rightarrow> (bool \<times> router_poll_kind poll_job list) option" where
  "runNextRouterJob wid lookup run started ended tbl =
     (case RouterClaim wid (\<lambda>_. False) started tbl of
        (tbl, None) \<Rightarrow> Some (False, tbl)
      | (tbl, Some job) \<Rightarrow>
          (case lookup (pj_device job) of
             LookupFailed cause \<Rightarrow> map_option (Pair True) (RouterFail job cause started tbl)
           | RouterGone \<Rightarrow> Some (True, RouterComplete job 0 started tbl)
           | RouterFound enabled \<Rightarrow>
               if \<not> enabled then Some (True, RouterComplete job 0 started tbl)
               else map_option (Pair True) (settleRouterJob job (run job) (ended - started) ended tbl)))"

section \<open>What the pass does to a row\<close>

definition told :: "time \<Rightarrow> oltReading \<Rightarrow> ONT \<Rightarrow> ONT" where
  "told now r t =
     (let st = determineOntStatus t r (fst (matchMetricsForONT t r))
      in if st = [] \<or> st = ont_Status t then t else set_columns (status_columns now st) t)"

definition stepped :: "time \<Rightarrow> oltReading \<Rightarrow> ONT \<Rightarrow> ONT \<Rightarrow> bool" where
  "stepped now r t t' \<longleftrightarrow>
     (if skipped_ont r t then t' = t
      else case matchMetricsForONT t r of
             (None, slot) \<Rightarrow> t' = told now r t
           | (Some m, slot) \<Rightarrow>
               t' = set_columns (field_columns m slot) (told now r t) \<or> (ont_Slot t = None \<and> t' = told now r t))"

definition put_row :: "ONT \<Rightarrow> ONT list \<Rightarrow> ONT list" where
  "put_row u ts = map (\<lambda>x. if ont_ID x = ont_ID u then u else x) ts"

lemma put_row_update:
  assumes "distinct (map ont_ID ts)" "t \<in> set ts"
  shows "update_where (\<lambda>b. ont_ID b = ont_ID t) (set_columns cs) ts = put_row (set_columns cs t) ts"
proof -
  have "x = t" if "x \<in> set ts" "ont_ID x = ont_ID t" for x
    by (rule distinct_key_unique [OF assms(1) that(1) assms(2) that(2)])
  then show ?thesis by (auto simp: update_where_def put_row_def)
qed

lemma put_row_self: "distinct (map ont_ID ts) \<Longrightarrow> t \<in> set ts \<Longrightarrow> put_row t ts = ts"
  by (auto simp: put_row_def intro!: map_idI dest: distinct_key_unique)

lemma put_row_put_row: "ont_ID u = ont_ID v \<Longrightarrow> put_row u (put_row v ts) = put_row u ts"
  by (simp add: put_row_def)

lemma ids_put_row [simp]: "map ont_ID (put_row u ts) = map ont_ID ts"
  by (simp add: put_row_def)

lemma write_ont_put:
  assumes "distinct (map ont_ID (iv_onts s))" "t \<in> set (iv_onts s)"
  shows "kept s (write_ont (ont_ID t) cs s) \<in> {s, s\<lparr>iv_onts := put_row (set_columns cs t) (iv_onts s)\<rparr>}"
  using put_row_update [OF assms, of cs] find_row [OF assms]
  by (simp add: write_ont_def db_updates_def kept_def)

lemma write_ont_unmoved:
  assumes ok: "onts_ok (iv_onts s)" and t: "t \<in> set (iv_onts s)"
    and same: "ont_Slot (set_columns cs t) = ont_Slot t" "ont_SerialNumber (set_columns cs t) = ont_SerialNumber t"
      "ont_Phone (set_columns cs t) = ont_Phone t" "ont_ODPID (set_columns cs t) = ont_ODPID t"
      "ont_ODPPort (set_columns cs t) = ont_ODPPort t"
  shows "kept s (write_ont (ont_ID t) cs s) = s\<lparr>iv_onts := put_row (set_columns cs t) (iv_onts s)\<rparr>"
proof -
  have srt: "sorted_wrt onts_apart (iv_onts s)" using ok by (simp add: onts_ok_def)
  note ids = apart_unique [OF srt]
  have "\<not> index_clash (set_columns cs t) b" if b: "b \<in> set (iv_onts s)" "ont_ID b \<noteq> ont_ID t" for b
  proof
    have far: "\<not> same_place t b" "\<not> index_clash t b"
      using apart_pair [OF srt t b(1)] b(2) by (simp_all add: onts_apart_def)
    assume "index_clash (set_columns cs t) b"
    from clash_moved [OF this far(2) same(2-5)] far(1) show False by (simp add: same_place_def same(1))
  qed
  then have "db_updates (ont_ID t) cs (iv_onts s) = Some (put_row (set_columns cs t) (iv_onts s))"
    using find_row [OF ids t] put_row_update [OF ids t, of cs] by (auto simp: db_updates_def)
  then show ?thesis by (simp add: write_ont_def kept_def)
qed

lemma status_columns_fields [simp]:
  "ont_Slot (set_columns (status_columns now st) t) = ont_Slot t"
  "ont_SerialNumber (set_columns (status_columns now st) t) = ont_SerialNumber t"
  "ont_Phone (set_columns (status_columns now st) t) = ont_Phone t"
  "ont_ODPID (set_columns (status_columns now st) t) = ont_ODPID t"
  "ont_ODPPort (set_columns (status_columns now st) t) = ont_ODPPort t"
  "ont_Status (set_columns (status_columns now st) t) = st"
  by (simp_all add: status_columns_def)

lemma field_columns_fields [simp]:
  "ont_Slot (set_columns (field_columns m slot) t) = Some slot"
  "ont_SerialNumber (set_columns (field_columns m slot) t) = ont_SerialNumber t"
  "ont_Phone (set_columns (field_columns m slot) t) = ont_Phone t"
  "ont_ODPID (set_columns (field_columns m slot) t) = ont_ODPID t"
  "ont_ODPPort (set_columns (field_columns m slot) t) = ont_ODPPort t"
  "ont_Status (set_columns (field_columns m slot) t) = ont_Status t"
  "ont_LastOnline (set_columns (field_columns m slot) t) = ont_LastOnline t"
  "ont_LastOffline (set_columns (field_columns m slot) t) = ont_LastOffline t"
  "ont_LastOfflineReason (set_columns (field_columns m slot) t) = ont_LastOfflineReason t"
  "ont_LastSeenAt (set_columns (field_columns m slot) t) = ont_LastSeenAt t"
  by (simp_all add: field_columns_def)

lemma harmless_worker [simp]:
  "list_all harmless (status_columns now st)" "list_all harmless (field_columns m slot)"
  by (simp_all add: status_columns_def field_columns_def)

lemma told_fields [simp]:
  "ont_ID (told now r t) = ont_ID t" "ont_OLTID (told now r t) = ont_OLTID t" "ont_Slot (told now r t) = ont_Slot t"
  "ont_PortID (told now r t) = ont_PortID t" "ont_ONTID (told now r t) = ont_ONTID t"
  by (simp_all add: told_def Let_def)

lemma inventory_distinct: "inventory_ok s \<Longrightarrow> distinct (map ont_ID (iv_onts s))"
  by (simp add: inventory_ok_def onts_ok_def apart_unique)

lemma handleStatusChange_put:
  assumes "inventory_ok s" "t \<in> set (iv_onts s)"
  shows "handleStatusChange now t (determineOntStatus t r (fst (matchMetricsForONT t r))) s =
     s\<lparr>iv_onts := put_row (told now r t) (iv_onts s)\<rparr>"
proof -
  note ids = inventory_distinct [OF assms(1)]
  show ?thesis
    using put_row_self [OF ids assms(2)] write_ont_unmoved [OF inventory_onts_ok [OF assms(1)] assms(2)]
    by (simp add: handleStatusChange_def told_def Let_def UpdateStatus_def)
qed

lemma put_row_ok:
  assumes "inventory_ok s" "t \<in> set (iv_onts s)"
  shows "inventory_ok (s\<lparr>iv_onts := put_row (told now r t) (iv_onts s)\<rparr>)"
proof -
  have "inventory_ok (kept s (UpdateStatus now (ont_ID t) st s))" for st
    by (rule kept_ok [OF assms(1)]) (rule UpdateStatus_ok [OF assms(1)])
  then show ?thesis
    using handleStatusChange_put [OF assms, of now r] assms(1) by (metis handleStatusChange_def)
qed

lemma processOnt_put:
  assumes ok: "inventory_ok s" and t: "t \<in> set (iv_onts s)" and named: "\<not> skipped_ont r t"
    and run: "processOnt now r t s = (sample, change, s')"
  shows "inventory_ok s' \<and> ms_ONTID sample = ont_ID t \<and> (\<forall>c. change = Some c \<longrightarrow> sc_ONTID c = ont_ID t)
    \<and> iv_events s' = iv_events s \<and> iv_metrics s' = iv_metrics s \<and> iv_olts s' = iv_olts s
    \<and> (\<exists>t'. stepped now r t t' \<and> pid t' = pid t \<and> iv_onts s' = put_row t' (iv_onts s))"
proof -
  let ?u = "told now r t" and ?s1 = "s\<lparr>iv_onts := put_row (told now r t) (iv_onts s)\<rparr>"
  obtain found slot where m: "matchMetricsForONT t r = (found, slot)" by fastforce
  have s': "s' = updateOntFields t found slot ?s1" and out: "ms_ONTID sample = ont_ID t" "\<forall>c. change = Some c \<longrightarrow> sc_ONTID c = ont_ID t"
    using run handleStatusChange_put [OF ok t, of now r]
    by (auto simp: processOnt_def m Let_def statusChangeFor_def split: if_splits)
  have ok1: "inventory_ok ?s1" by (rule put_row_ok [OF ok t])
  have u: "?u \<in> set (iv_onts ?s1)" using t by (force simp: put_row_def)
  have pid_u: "pid ?u = pid t" by (simp add: pid_def)
  show ?thesis
  proof (cases found)
    case None
    then have "s' = ?s1" using s' by (simp add: updateOntFields_def)
    moreover have "stepped now r t ?u" using named m None by (simp add: stepped_def)
    ultimately show ?thesis using ok1 out pid_u by auto
  next
    case (Some mt)
    let ?v = "set_columns (field_columns mt slot) ?u"
    have w: "s' = kept ?s1 (write_ont (ont_ID ?u) (field_columns mt slot) ?s1)"
      using s' Some by (simp add: updateOntFields_def)
    have ok': "inventory_ok s'"
      unfolding w by (rule kept_ok [OF ok1]) (rule write_ont_ok [OF ok1], assumption, simp)
    have v: "put_row ?v (put_row ?u (iv_onts s)) = put_row ?v (iv_onts s)" by (rule put_row_put_row) simp
    have "s' = ?s1 \<or> s' = s\<lparr>iv_onts := put_row ?v (iv_onts s)\<rparr>"
      using write_ont_put [OF inventory_distinct [OF ok1] u, of "field_columns mt slot"] w v by auto
    moreover have "s' = s\<lparr>iv_onts := put_row ?v (iv_onts s)\<rparr>" if known: "ont_Slot t \<noteq> None"
    proof -
      have "ont_Slot t = Some slot" using m Some known by (auto simp: matchMetricsForONT_def split: option.splits)
      then show ?thesis
        using write_ont_unmoved [OF inventory_onts_ok [OF ok1] u, of "field_columns mt slot"] w v by simp
    qed
    moreover have "stepped now r t ?v" "ont_Slot t = None \<Longrightarrow> stepped now r t ?u"
      using named m Some by (simp_all add: stepped_def)
    moreover have "pid ?v = pid t" by (simp add: pid_def)
    ultimately show ?thesis using ok' out pid_u by (cases "ont_Slot t = None") auto
  qed
qed

lemma put_row_as_map:
  assumes "distinct (map ont_ID ts)" "t \<in> set ts" "ont_ID u = ont_ID t"
  shows "put_row u ts = map (\<lambda>x. if x = t then u else x) ts"
proof -
  have "ont_ID x = ont_ID u \<longleftrightarrow> x = t" if "x \<in> set ts" for x
    using distinct_key_unique [OF assms(1) that assms(2)] assms(3) by auto
  then show ?thesis by (simp add: put_row_def)
qed

lemma process_rows_put:
  assumes "inventory_ok s" "set ts \<subseteq> set (iv_onts s)" "distinct (map ont_ID ts)"
    and "process_rows now r ts s = (samples, changes, s')"
  shows "inventory_ok s' \<and> ms_ONTID ` set samples \<subseteq> ont_ID ` set ts \<and> sc_ONTID ` set changes \<subseteq> ont_ID ` set ts
    \<and> iv_events s' = iv_events s \<and> iv_metrics s' = iv_metrics s \<and> iv_olts s' = iv_olts s
    \<and> (\<exists>g. iv_onts s' = map g (iv_onts s)
          \<and> (\<forall>x \<in> set (iv_onts s). pid (g x) = pid x \<and> (if x \<in> set ts then stepped now r x (g x) else g x = x)))"
  using assms
proof (induction ts arbitrary: s samples changes)
  case Nil
  then show ?case by (auto intro!: exI [of _ "\<lambda>x. x"])
next
  case (Cons t ts)
  note ids = inventory_distinct [OF Cons.prems(1)]
  have t: "t \<in> set (iv_onts s)" "t \<notin> set ts" using Cons.prems(2,3) by auto
  show ?case
  proof (cases "skipped_ont r t")
    case True
    then have run: "process_rows now r ts s = (samples, changes, s')" using Cons.prems(4) by simp
    have sub: "set ts \<subseteq> set (iv_onts s)" "distinct (map ont_ID ts)" using Cons.prems(2,3) by auto
    obtain g where g: "iv_onts s' = map g (iv_onts s)"
      "\<forall>x \<in> set (iv_onts s). pid (g x) = pid x \<and> (if x \<in> set ts then stepped now r x (g x) else g x = x)"
      and rest: "inventory_ok s'" "ms_ONTID ` set samples \<subseteq> ont_ID ` set ts" "sc_ONTID ` set changes \<subseteq> ont_ID ` set ts"
        "iv_events s' = iv_events s" "iv_metrics s' = iv_metrics s" "iv_olts s' = iv_olts s"
      using Cons.IH [OF Cons.prems(1) sub run] by auto
    have "stepped now r t (g t)" using g(2) t True by (simp add: stepped_def)
    then show ?thesis using g rest by (intro conjI exI [of _ g]) auto
  next
    case False
    obtain sample change s1 where one: "processOnt now r t s = (sample, change, s1)" by (metis prod_cases3)
    obtain samples1 changes1 where run: "process_rows now r ts s1 = (samples1, changes1, s')"
      and samples: "samples = (if rd_metrics r \<noteq> None then sample # samples1 else samples1)"
      and changes: "changes = (case change of None \<Rightarrow> changes1 | Some c \<Rightarrow> c # changes1)"
      using Cons.prems(4) False one by (auto split: prod.splits)
    obtain t' where t': "stepped now r t t'" "pid t' = pid t" "iv_onts s1 = put_row t' (iv_onts s)"
      and s1: "inventory_ok s1" "ms_ONTID sample = ont_ID t" "\<forall>c. change = Some c \<longrightarrow> sc_ONTID c = ont_ID t"
        "iv_events s1 = iv_events s" "iv_metrics s1 = iv_metrics s" "iv_olts s1 = iv_olts s"
      using processOnt_put [OF Cons.prems(1) t(1) False one] by blast
    have map1: "iv_onts s1 = map (\<lambda>x. if x = t then t' else x) (iv_onts s)"
      unfolding t'(3) by (rule put_row_as_map [OF ids t(1)]) (use t'(2) in \<open>simp add: pid_def\<close>)
    have "set ts \<subseteq> set (iv_onts s1)" using Cons.prems(2) t(2) by (force simp: map1)
    moreover have "distinct (map ont_ID ts)" using Cons.prems(3) by simp
    ultimately obtain g where g: "iv_onts s' = map g (iv_onts s1)"
      "\<forall>x \<in> set (iv_onts s1). pid (g x) = pid x \<and> (if x \<in> set ts then stepped now r x (g x) else g x = x)"
      and rest: "inventory_ok s'" "ms_ONTID ` set samples1 \<subseteq> ont_ID ` set ts" "sc_ONTID ` set changes1 \<subseteq> ont_ID ` set ts"
        "iv_events s' = iv_events s1" "iv_metrics s' = iv_metrics s1" "iv_olts s' = iv_olts s1"
      using Cons.IH [OF s1(1) _ _ run] by auto
    have t'_new: "t' \<notin> set ts"
    proof
      assume "t' \<in> set ts"
      then have "ont_ID t \<in> ont_ID ` set ts" using t'(2) by (metis Pair_inject image_eqI pid_def)
      then show False using Cons.prems(3) by simp
    qed
    let ?g = "\<lambda>x. g (if x = t then t' else x)"
    have "iv_onts s' = map ?g (iv_onts s)" by (simp add: g(1) map1)
    moreover have "pid (?g x) = pid x \<and> (if x \<in> set (t # ts) then stepped now r x (?g x) else ?g x = x)"
      if x: "x \<in> set (iv_onts s)" for x
    proof (cases "x = t")
      case True
      have "t' \<in> set (iv_onts s1)" using t(1) by (auto simp: map1)
      then have "g t' = t'" "pid (g t') = pid t'" using g(2) t'_new by auto
      then show ?thesis using True t'(1,2) by simp
    next
      case False
      then have "x \<in> set (iv_onts s1)" using x by (force simp: map1)
      then show ?thesis using False g(2) by simp
    qed
    ultimately have "\<exists>g. iv_onts s' = map g (iv_onts s) \<and> (\<forall>x \<in> set (iv_onts s). pid (g x) = pid x
        \<and> (if x \<in> set (t # ts) then stepped now r x (g x) else g x = x))" by blast
    moreover have "ms_ONTID ` set samples \<subseteq> ont_ID ` set (t # ts)" "sc_ONTID ` set changes \<subseteq> ont_ID ` set (t # ts)"
      using rest(2,3) s1(2,3) by (auto simp: samples changes split: option.splits)
    ultimately show ?thesis using rest s1 by simp
  qed
qed

lemma log_changes_onts:
  assumes "log_changes L now cs (evs, opened) = (evs', opened')"
  shows "ev_ONTID ` set evs' \<subseteq> ev_ONTID ` set evs
       \<and> ev_ONTID ` set opened' \<subseteq> ev_ONTID ` set opened \<union> sc_ONTID ` set cs"
  using assms
proof (induction cs arbitrary: evs opened)
  case (Cons c cs)
  let ?e = "\<lparr>ev_ID = 0, ev_ONTID = sc_ONTID c, ev_EventType = sc_EventType c, ev_EventTime = now,
               ev_Reason = sc_Reason c, ev_DurationSeconds = None\<rparr>"
  have closed: "ev_ONTID ` set (closeEvent p now evs) = ev_ONTID ` set evs" for p
    by (metis closeEvent_simps(2) set_map)
  have opened: "ev_ONTID ` set (opened @ [?e]) = insert (sc_ONTID c) (ev_ONTID ` set opened)" by simp
  consider "log_changes L now cs (evs, opened @ [?e]) = (evs', opened')"
    | "log_changes L now cs (evs, opened) = (evs', opened')"
    | p where "log_changes L now cs (closeEvent p now evs, opened @ [?e]) = (evs', opened')"
    using Cons.prems by (auto simp: Let_def split: option.splits if_splits)
  then show ?case
  proof cases
    case 1
    from Cons.IH [OF this] show ?thesis unfolding opened by auto
  next
    case 2
    from Cons.IH [OF this] show ?thesis by auto
  next
    case 3
    from Cons.IH [OF this] show ?thesis unfolding opened closed by auto
  qed
qed simp

lemma LogStatusChanges_onts:
  assumes "LogStatusChanges now cs evs = Some evs'"
  shows "ev_ONTID ` set evs' \<subseteq> ev_ONTID ` set evs \<union> sc_ONTID ` set cs"
proof -
  have insert: "ev_ONTID ` set (insert_events es xs) \<subseteq> ev_ONTID ` set xs \<union> ev_ONTID ` set es" for es xs
    by (induction es arbitrary: xs) force+
  obtain xs opened where "log_changes (latestEventPerONT (map sc_ONTID cs) evs) now cs (evs, []) = (xs, opened)"
    by fastforce
  note run = this
  have "evs' = evs \<or> evs' = insert_events opened xs"
    using assms run by (auto simp: LogStatusChanges_def split: if_splits)
  moreover have "ev_ONTID ` set (insert_events opened xs) \<subseteq> ev_ONTID ` set evs \<union> sc_ONTID ` set cs"
  proof -
    have "ev_ONTID ` set xs \<subseteq> ev_ONTID ` set evs" "ev_ONTID ` set opened \<subseteq> sc_ONTID ` set cs"
      using log_changes_onts [OF run] by simp_all
    then show ?thesis by (rule subset_trans [OF insert Un_mono])
  qed
  ultimately show ?thesis by auto
qed

lemma apply_page_put:
  assumes "inventory_ok s" "set page \<subseteq> set (iv_onts s)" "distinct (map ont_ID page)"
    and "apply_page now r page s = Inr s'"
  shows "inventory_ok s' \<and> iv_olts s' = iv_olts s
    \<and> list_all2 (\<lambda>t t'. pid t' = pid t \<and> (if t \<in> set page then stepped now r t t' else t' = t)) (iv_onts s) (iv_onts s')"
proof -
  obtain samples changes s1 where run: "process_rows now r page s = (samples, changes, s1)" by (metis prod_cases3)
  define evs where "evs = (case LogStatusChanges now changes (iv_events s1) of None \<Rightarrow> iv_events s1 | Some evs \<Rightarrow> evs)"
  have s': "s' = s1\<lparr>iv_events := evs, iv_metrics := StoreMetricsBatch (\<lambda>_. now) samples (iv_metrics s1)\<rparr>"
    using assms(4) by (simp add: apply_page_def run Let_def evs_def)
  obtain g where g: "iv_onts s1 = map g (iv_onts s)"
      "\<forall>x \<in> set (iv_onts s). pid (g x) = pid x \<and> (if x \<in> set page then stepped now r x (g x) else g x = x)"
    and s1: "inventory_ok s1" "ms_ONTID ` set samples \<subseteq> ont_ID ` set page" "sc_ONTID ` set changes \<subseteq> ont_ID ` set page"
      "iv_olts s1 = iv_olts s"
    using process_rows_put [OF assms(1-3) run] by blast
  have "ont_ID ` set (iv_onts s1) = ont_ID ` set (iv_onts s)"
    unfolding g(1) set_map image_image using g(2) by (intro image_cong) (auto simp: pid_def)
  then have page: "ont_ID ` set page \<subseteq> ont_ID ` set (iv_onts s1)" using assms(2) by auto
  have "ev_ONTID ` set evs \<subseteq> ont_ID ` set (iv_onts s1)"
  proof (cases "LogStatusChanges now changes (iv_events s1)")
    case None
    then show ?thesis using s1(1) by (simp add: evs_def inventory_ok_def)
  next
    case (Some es)
    have "ev_ONTID ` set (iv_events s1) \<subseteq> ont_ID ` set (iv_onts s1)" using s1(1) by (simp add: inventory_ok_def)
    from subset_trans [OF LogStatusChanges_onts [OF Some] Un_least [OF this subset_trans [OF s1(3) page]]]
    show ?thesis by (simp add: evs_def Some)
  qed
  then have "inventory_ok s'"
    using s1(1,2) page by (auto simp: s' inventory_ok_def store_metrics_onts)
  moreover have "list_all2 (\<lambda>t t'. pid t' = pid t \<and> (if t \<in> set page then stepped now r t t' else t' = t)) (iv_onts s) (iv_onts s')"
    using g by (simp add: s' list_all2_map2 list_all2_same)
  ultimately show ?thesis by (simp add: s' s1(4))
qed

text \<open>The poller's callback keeps the contract of the walk over the pages.\<close>

interpretation poll: page_callback iv_onts "apply_page now r" inventory_ok i "stepped now r" for now r i
proof
  fix s s' :: inventory and page :: "ONT list"
  assume "inventory_ok s" "set page \<subseteq> set (iv_onts s)" "distinct (map ont_ID page)" "apply_page now r page s = Inr s'"
  from apply_page_put [OF this] show "inventory_ok s' \<and>
     list_all2 (\<lambda>t t'. pid t' = pid t \<and> (if t \<in> set page then stepped now r t t' else t' = t)) (iv_onts s) (iv_onts s')"
    by blast
qed (rule inventory_onts_ok)

lemma apply_page_Inr: "\<exists>s'. apply_page now r page s = Inr s'"
  by (simp add: apply_page_def Let_def split: prod.split)

section \<open>The pass over an OLT\<close>

lemma pass_walk:
  assumes "inventory_ok s"
  shows "\<exists>s'. applyReading now olt r s = Some (Inr s') \<and> inventory_ok s'
    \<and> EachONTOfOLT (\<lambda>sl. iv_onts (fst sl)) (olt_ID olt) ontPageSize (handing (apply_page now r)) (s, []) =
        Some (Inr (s', sort (map ont_ID (filter (\<lambda>t. ont_OLTID t = olt_ID olt) (iv_onts s)))))
    \<and> list_all2 (\<lambda>t t'. pid t' = pid t \<and> (if ont_OLTID t = olt_ID olt then stepped now r t t' else t' = t))
        (iv_onts s) (iv_onts s')"
proof -
  obtain p where p: "EachONTOfOLT (\<lambda>sl. iv_onts (fst sl)) (olt_ID olt) ontPageSize (handing (apply_page now r)) (s, []) = Some p"
    "EachONTOfOLT iv_onts (olt_ID olt) ontPageSize (apply_page now r) s = Some (map_sum id fst p)"
    "\<forall>s' seen. p = Inr (s', seen) \<longrightarrow> inventory_ok s'
       \<and> seen = sort (map ont_ID (filter (\<lambda>t. ont_OLTID t = olt_ID olt) (iv_onts s)))
       \<and> list_all2 (\<lambda>t t'. pid t' = pid t \<and> (if ont_OLTID t = olt_ID olt then stepped now r t t' else t' = t)) (iv_onts s) (iv_onts s')"
    "\<forall>e. p = Inl e \<longrightarrow> (\<exists>page s. apply_page now r page s = Inl e)"
    using poll.walk_visits [OF assms] by blast
  obtain s' seen where "p = Inr (s', seen)"
    using p(4) apply_page_Inr by (metis Inl_Inr_False obj_sumE surj_pair)
  then show ?thesis using p(1-3) by (auto simp: applyReading_def)
qed

text \<open>C15. Applying a reading to an OLT ends: every ONT of the OLT is handed to the pass exactly once, in the order of the
  identifiers, a page at a time and with the pass writing rows between the pages, and the inventory stays consistent.\<close>

theorem poll_pass_ends:
  assumes "inventory_ok s"
  shows "\<exists>s'. applyReading now olt r s = Some (Inr s') \<and> inventory_ok s'
    \<and> EachONTOfOLT (\<lambda>sl. iv_onts (fst sl)) (olt_ID olt) ontPageSize (handing (apply_page now r)) (s, []) =
        Some (Inr (s', sort (map ont_ID (filter (\<lambda>t. ont_OLTID t = olt_ID olt) (iv_onts s)))))"
  using pass_walk [OF assms] by blast

lemma pass_row:
  assumes "inventory_ok s" "t \<in> set (iv_onts s)" "applyReading now olt r s = Some (Inr s')"
  shows "\<exists>t' \<in> set (iv_onts s'). pid t' = pid t \<and> (if ont_OLTID t = olt_ID olt then stepped now r t t' else t' = t)"
proof -
  have "list_all2 (\<lambda>t t'. pid t' = pid t \<and> (if ont_OLTID t = olt_ID olt then stepped now r t t' else t' = t)) (iv_onts s) (iv_onts s')"
    using pass_walk [OF assms(1), of now olt r] assms(3) by auto
  moreover obtain i where "i < length (iv_onts s)" "t = iv_onts s ! i" using assms(2) by (metis in_set_conv_nth)
  ultimately show ?thesis
    by (intro bexI [of _ "iv_onts s' ! i"]) (simp_all add: list_all2_conv_all_nth)
qed

section \<open>What the position indexes hold\<close>

lemma index_statuses_Some:
  assumes "index_statuses xs m p = Some state"
  shows "m p = Some state \<or> (\<exists>slot. ((slot, p), state) \<in> set xs)"
  using assms
proof (induction xs m rule: index_statuses.induct)
  case (2 slot port onu state' xs m)
  have "(m((port, onu) \<mapsto> state')) p = Some state \<or> (\<exists>slot. ((slot, p), state) \<in> set xs)"
    by (rule "2.IH") (use "2.prems" in \<open>simp only: index_statuses.simps\<close>)
  then show ?case by (auto split: if_splits)
qed simp

lemma index_statuses_None:
  "index_statuses xs m p = None \<longleftrightarrow> m p = None \<and> (\<forall>slot. map_of xs (slot, p) = None)"
proof (induction xs m rule: index_statuses.induct)
  case (2 slot port onu state xs m)
  show ?case unfolding index_statuses.simps "2.IH" by auto
qed simp

lemma index_metrics_Some:
  assumes "index_metrics xs m p = Some (v, slot)"
  shows "m p = Some (v, slot) \<or> ((slot, p), v) \<in> set xs"
  using assms
proof (induction xs m rule: index_metrics.induct)
  case (2 slot' port onu v' xs m)
  have "(if m (port, onu) \<noteq> None then m else m((port, onu) \<mapsto> (v', slot'))) p = Some (v, slot) \<or> ((slot, p), v) \<in> set xs"
    by (rule "2.IH") (use "2.prems" in \<open>simp only: index_metrics.simps\<close>)
  then show ?case by (auto split: if_splits)
qed simp

section \<open>What a pass makes of a status\<close>

lemma mapRunState_known:
  "mapRunStateToStatus st \<noteq> ONTStatusUnknown \<longleftrightarrow> st \<in> {1, 3, 4, 6}"
  by (auto simp: mapRunStateToStatus_def ont_status_defs)

lemma mapRunState_not_empty: "mapRunStateToStatus st \<noteq> []"
  by (simp add: mapRunStateToStatus_def ont_status_defs)

lemma stepped_status:
  assumes "stepped now r t t'"
  shows "ont_Status t' =
      (let st = determineOntStatus t r (fst (matchMetricsForONT t r))
       in if skipped_ont r t \<or> st = [] then ont_Status t else st)"
  using assms by (auto simp: stepped_def told_def Let_def split: if_splits option.splits prod.splits)

text \<open>A reading as \<open>readChassis\<close> hands it on: the indexes are those of its maps.\<close>

definition reading_ok :: "oltReading \<Rightarrow> bool" where
  "reading_ok r \<longleftrightarrow> distinct (map fst (rd_statuses r)) \<and> r = index_reading r"

lemma index_reading_fields [simp]:
  "rd_statusPositions (index_reading r) = index_statuses (rd_statuses r) Map.empty"
  "rd_metricsPositions (index_reading r) = index_metrics (case rd_metrics r of None \<Rightarrow> [] | Some m \<Rightarrow> m) Map.empty"
  by (simp_all add: index_reading_def)

lemma reading_positions:
  assumes "reading_ok r"
  shows "rd_statusPositions r = index_statuses (rd_statuses r) Map.empty"
    and "rd_metricsPositions r = index_metrics (case rd_metrics r of None \<Rightarrow> [] | Some m \<Rightarrow> m) Map.empty"
proof -
  have r: "r = index_reading r" using assms by (simp add: reading_ok_def)
  show "rd_statusPositions r = index_statuses (rd_statuses r) Map.empty"
    by (subst (1) r) simp
  show "rd_metricsPositions r = index_metrics (case rd_metrics r of None \<Rightarrow> [] | Some m \<Rightarrow> m) Map.empty"
    by (subst (1) r) simp
qed

lemma reported_iff:
  assumes "reading_ok r"
  shows "reportsPosition r port onu \<longleftrightarrow> (\<exists>slot. map_of (rd_statuses r) (slot, port, onu) \<noteq> None)"
  by (auto simp: reportsPosition_def reading_positions [OF assms] index_statuses_None)

lemma determine_known:
  assumes "ont_Slot t = Some c"
  shows "determineOntStatus t r (fst (matchMetricsForONT t r)) =
     (let own = map_of (rd_statuses r) (c, ont_PortID t, ont_ONTID t);
          lit = (\<exists>m. map_of (case rd_metrics r of None \<Rightarrow> [] | Some ms \<Rightarrow> ms) (c, ont_PortID t, ont_ONTID t) = Some m
                     \<and> om_RxPower m \<noteq> None)
      in if own = Some 3 then ONTStatusOnline else if own = Some 6 then ONTStatusOffline
         else if own = Some 1 then ONTStatusLOS else if own = Some 4 then ONTStatusDyingGas
         else if lit then ONTStatusOnline else [])"
  by (auto simp: determineOntStatus_def matchMetricsForONT_def runStateFor_def assms Let_def mapRunStateToStatus_def
      ont_status_defs split: option.splits)

text \<open>C3. A pass gives an ONT whose card is known the status its own card reported at its port and number: online, offline,
  loss of signal or dying gasp. Without one of these it is online exactly if its own card measured its light, and then only
  if the walk failed or some card reports its port and number; otherwise its status stays as it was.\<close>

theorem poll_status_exact:
  assumes "inventory_ok s" "reading_ok r" "applyReading now olt r s = Some (Inr s')"
    and "t \<in> set (iv_onts s)" "ont_OLTID t = olt_ID olt" "ont_Slot t = Some c"
  shows "\<exists>t' \<in> set (iv_onts s'). pid t' = pid t \<and> ont_Status t' =
     (let own = map_of (rd_statuses r) (c, ont_PortID t, ont_ONTID t);
          lit = (\<exists>m. map_of (case rd_metrics r of None \<Rightarrow> [] | Some ms \<Rightarrow> ms) (c, ont_PortID t, ont_ONTID t) = Some m
                     \<and> om_RxPower m \<noteq> None);
          told = (\<not> rd_statusWalkOK r \<or> (\<exists>slot. map_of (rd_statuses r) (slot, ont_PortID t, ont_ONTID t) \<noteq> None))
      in if own = Some 3 then ONTStatusOnline else if own = Some 6 then ONTStatusOffline
         else if own = Some 1 then ONTStatusLOS else if own = Some 4 then ONTStatusDyingGas
         else if lit \<and> told then ONTStatusOnline else ont_Status t)"
proof -
  obtain t' where t': "t' \<in> set (iv_onts s')" "pid t' = pid t" "stepped now r t t'"
    using pass_row [OF assms(1,4,3)] assms(5) by auto
  have "skipped_ont r t \<longleftrightarrow> rd_statusWalkOK r \<and> (\<forall>slot. map_of (rd_statuses r) (slot, ont_PortID t, ont_ONTID t) = None)"
    by (simp add: skipped_ont_def reported_iff [OF assms(2)])
  then have "ont_Status t' =
     (let own = map_of (rd_statuses r) (c, ont_PortID t, ont_ONTID t);
          lit = (\<exists>m. map_of (case rd_metrics r of None \<Rightarrow> [] | Some ms \<Rightarrow> ms) (c, ont_PortID t, ont_ONTID t) = Some m
                     \<and> om_RxPower m \<noteq> None);
          told = (\<not> rd_statusWalkOK r \<or> (\<exists>slot. map_of (rd_statuses r) (slot, ont_PortID t, ont_ONTID t) \<noteq> None))
      in if own = Some 3 then ONTStatusOnline else if own = Some 6 then ONTStatusOffline
         else if own = Some 1 then ONTStatusLOS else if own = Some 4 then ONTStatusDyingGas
         else if lit \<and> told then ONTStatusOnline else ont_Status t)"
    unfolding stepped_status [OF t'(3)] determine_known [OF assms(6)] Let_def by (auto simp: ont_status_defs)
  then show ?thesis using t'(1,2) by blast
qed

lemma unheard_status:
  assumes "reading_ok r" "\<forall>m slot. matchMetricsForONT t r = (Some m, slot) \<longrightarrow> om_RxPower m = None"
    and "\<forall>slot st. ((slot, ont_PortID t, ont_ONTID t), st) \<in> set (rd_statuses r) \<longrightarrow> st \<notin> {1, 3, 4, 6}"
  shows "determineOntStatus t r (fst (matchMetricsForONT t r)) = []"
proof -
  have "mapRunStateToStatus st = ONTStatusUnknown" if "runStateFor r t = Some st" for st
  proof -
    have "\<exists>slot. ((slot, ont_PortID t, ont_ONTID t), st) \<in> set (rd_statuses r)"
      using that index_statuses_Some [of "rd_statuses r" Map.empty]
      by (auto simp: runStateFor_def reading_positions [OF assms(1)] dest: map_of_SomeD split: option.splits)
    then show ?thesis using assms(3) mapRunState_known by blast
  qed
  then show ?thesis
    using assms(2) by (cases "matchMetricsForONT t r") (auto simp: determineOntStatus_def Let_def split: option.splits)
qed

lemma readChassis_inventory:
  assumes "readChassis DriverFor now locks olt withMetrics s = (res, s')"
  shows "iv_onts s' = iv_onts s \<and> iv_events s' = iv_events s \<and> iv_metrics s' = iv_metrics s"
  using assms
  by (auto simp: readChassis_def walkStatusesForOLT_def updateOLTConnectionStatus_def split: option.splits if_splits)

text \<open>A driver walks into a map, so a location is reported once; then the reading handed on is well formed.\<close>

lemma readChassis_ok:
  assumes "readChassis DriverFor now locks olt withMetrics s = (Inr r, s')"
    and "\<And>d statuses. DriverFor (olt_Model olt) = Some d \<Longrightarrow> dr_WalkStatuses d = Some statuses \<Longrightarrow> distinct (map fst statuses)"
  shows "reading_ok r"
  using assms
  by (auto simp: readChassis_def walkStatusesForOLT_def reading_ok_def index_reading_def no_reading_def walkRatesForOLT_def
      readMetricsForOLT_def split: option.splits if_splits)

lemma reading_job_runs:
  assumes "inventory_ok s"
  shows "\<exists>e s'. run_reading_job withMetrics DriverFor now locks olt s = Some (e, s') \<and> inventory_ok s'"
proof -
  obtain res s1 where read: "readChassis DriverFor now locks olt withMetrics s = (res, s1)" by fastforce
  have ok: "inventory_ok s1" using readChassis_inventory [OF read] assms by (simp add: inventory_ok_def)
  show ?thesis
  proof (cases res)
    case (Inl e)
    then show ?thesis using ok by (simp add: run_reading_job_def read)
  next
    case (Inr r)
    obtain s2 where "applyReading now olt r s1 = Some (Inr s2)" "inventory_ok s2" using pass_walk [OF ok] by blast
    then show ?thesis using Inr by (simp add: run_reading_job_def read)
  qed
qed

lemma discovery_job_ok:
  assumes "inventory_ok s" "new_ids new" "runDiscoveryJob new DriverFor clk locks olt s = (e, locks', s')"
  shows "inventory_ok s'"
proof (cases "syncOntsWithDiscovery new DriverFor (clk 0) olt s")
  case None
  then show ?thesis using assms by (simp add: runDiscoveryJob_def)
next
  case (Some p)
  obtain b s1 where p: "p = (b, s1)" by (cases p)
  have "inventory_ok s1" by (rule Sync_ok [OF assms(1,2) Some [unfolded p]])
  then have "inventory_ok (snd (AutoDiscoverONTMetrics new DriverFor (clk \<circ> Suc) olt (locks, s1)))"
    using AutoDiscover_ok [of "(locks, s1)"] assms(2) by simp
  then show ?thesis using assms(3) by (simp add: runDiscoveryJob_def Some p)
qed

lemma runJob_runs:
  assumes "inventory_ok (wk_inv w)" "new_ids (we_new env)"
  shows "\<exists>e w'. runJob env clk job olt w = Some (e, w') \<and> inventory_ok (wk_inv w')
    \<and> wk_jobs w' = wk_jobs w \<and> wk_peers w' = wk_peers w"
proof (cases "oltsBehindDownTunnel (clk 0) (wk_peers w) (iv_olts (wk_inv w)) (olt_ID olt)")
  case True
  then show ?thesis using assms by (simp add: runJob_def)
next
  case False
  show ?thesis
  proof (cases "pj_kind job")
    case PollKindStatus
    obtain e s' where "runStatusJob (we_DriverFor env) (clk 1) (wk_locks w) olt (wk_inv w) = Some (e, s')" "inventory_ok s'"
      using reading_job_runs [OF assms(1)] by blast
    then show ?thesis using False PollKindStatus by (simp add: runJob_def)
  next
    case PollKindMetrics
    obtain e s' where "runMetricsJob (we_DriverFor env) (clk 1) (wk_locks w) olt (wk_inv w) = Some (e, s')" "inventory_ok s'"
      using reading_job_runs [OF assms(1)] by blast
    then show ?thesis using False PollKindMetrics by (simp add: runJob_def)
  next
    case PollKindDiscovery
    obtain e locks' s' where run: "runDiscoveryJob (we_new env) (we_DriverFor env) (clk \<circ> Suc) (wk_locks w) olt (wk_inv w) = (e, locks', s')"
      by (metis prod_cases3)
    from discovery_job_ok [OF assms this] show ?thesis using False PollKindDiscovery run by (simp add: runJob_def)
  qed
qed

section \<open>The row of a settled job\<close>

definition settles :: "poll_kind poll_job \<Rightarrow> time \<Rightarrow> poll_kind poll_job list \<Rightarrow> poll_kind poll_job list \<Rightarrow> bool" where
  "settles job now tbl tbl' \<longleftrightarrow>
     map job_key tbl' = map job_key tbl
     \<and> filter (\<lambda>r. job_key r \<noteq> job_key job) tbl' = filter (\<lambda>r. job_key r \<noteq> job_key job) tbl
     \<and> (\<forall>r \<in> set tbl'. job_key r = job_key job \<longrightarrow>
          pj_locked_by r = None \<and> pj_locked_at r = None \<and> now + IntervalFor (pj_kind job) \<le> pj_due_at r)
     \<and> ((\<forall>r \<in> set tbl. 0 \<le> pj_failures r) \<longrightarrow> 0 \<le> pj_failures job \<longrightarrow> (\<forall>r \<in> set tbl'. 0 \<le> pj_failures r))"

lemma filter_update_where_not:
  "(\<And>r. job_key (f r) = job_key r) \<Longrightarrow>
   filter (\<lambda>r. job_key r \<noteq> k) (update_where (\<lambda>r. job_key r = k) f tbl) = filter (\<lambda>r. job_key r \<noteq> k) tbl"
  by (induction tbl) (auto simp: update_where_def)

lemma settles_update:
  assumes "\<And>r. job_key (f r) = job_key r" "\<And>r. pj_locked_by (f r) = None" "\<And>r. pj_locked_at (f r) = None"
    and "\<And>r. now + IntervalFor (pj_kind job) \<le> pj_due_at (f r)"
    and "\<And>r. 0 \<le> pj_failures r \<Longrightarrow> 0 \<le> pj_failures job \<Longrightarrow> 0 \<le> pj_failures (f r)"
  shows "settles job now tbl (update_where (\<lambda>r. job_key r = job_key job) f tbl)"
  using assms
  by (auto simp: settles_def map_update_where filter_update_where_not elim!: update_where_mem_cases)

lemma Complete_settles: "settles job now tbl (Complete job took now tbl)"
  unfolding Complete_def by (rule settles_update) (simp_all add: unlock_row_def SpacingFor_def Let_def)

lemma Defer_settles: "settles job now tbl (Defer job now tbl)"
  unfolding Defer_def by (rule settles_update) (simp_all add: unlock_row_def)

lemma Fail_settles:
  assumes "0 \<le> pj_failures job"
  shows "\<exists>tbl'. Fail job cause now tbl = Some tbl' \<and> settles job now tbl tbl'"
proof -
  let ?wait = "IntervalFor (pj_kind job) * 2 ^ nat (min (pj_failures job) 5)"
  have b: "backoff (pj_kind job) (pj_failures job + 1) = Some ?wait"
    using backoff_value [of "pj_failures job + 1"] assms by simp
  have "IntervalFor (pj_kind job) * 1 \<le> ?wait"
    by (rule mult_left_mono) (use IntervalFor_pos [of "pj_kind job"] in simp_all)
  then have "settles job now tbl (update_where (\<lambda>r. job_key r = job_key job)
      (\<lambda>r. (unlock_row r)\<lparr>pj_due_at := now + ?wait, pj_last_run_at := Some now,
                    pj_last_error := Some cause, pj_failures := pj_failures job + 1\<rparr>) tbl)"
    by (intro settles_update) (simp_all add: unlock_row_def)
  then show ?thesis by (simp add: Fail_def b Let_def)
qed

lemma claim_rows:
  assumes "Claim wid sk now tbl = (tbl', Some job)"
  shows "map job_key tbl' = map job_key tbl"
    and "filter (\<lambda>r. job_key r \<noteq> job_key job) tbl' = filter (\<lambda>r. job_key r \<noteq> job_key job) tbl"
    and "(\<forall>r \<in> set tbl. 0 \<le> pj_failures r) \<Longrightarrow> 0 \<le> pj_failures job \<and> (\<forall>r \<in> set tbl'. 0 \<le> pj_failures r)"
  using assms
  by (auto elim!: ClaimE simp: map_update_where filter_update_where_not elim!: update_where_mem_cases)

lemma job_settled:
  assumes "inventory_ok (wk_inv w)" "new_ids (we_new env)" "0 \<le> pj_failures job"
  shows "\<exists>w'. (case find (\<lambda>l. olt_ID l = pj_device job) (iv_olts (wk_inv w)) of
             None \<Rightarrow> Some (True, w\<lparr>wk_jobs := Defer job (clk 1) (wk_jobs w)\<rparr>)
           | Some olt \<Rightarrow>
               (case runJob env (\<lambda>k. clk (k + 3)) job olt w of
                  None \<Rightarrow> None
                | Some (Some e, w) \<Rightarrow> map_option (Pair True) (handleJobError (clk 1) job e w)
                | Some (None, w) \<Rightarrow>
                    Some (True, w\<lparr>wk_jobs := Complete job (clk 1 - clk 2) (clk 1) (wk_jobs w)\<rparr>))) = Some (True, w')
    \<and> inventory_ok (wk_inv w') \<and> settles job (clk 1) (wk_jobs w) (wk_jobs w')"
proof (cases "find (\<lambda>l. olt_ID l = pj_device job) (iv_olts (wk_inv w))")
  case None
  then show ?thesis using assms(1) Defer_settles by simp
next
  case (Some olt)
  obtain e w1 where run: "runJob env (\<lambda>k. clk (k + 3)) job olt w = Some (e, w1)"
    and w1: "inventory_ok (wk_inv w1)" "wk_jobs w1 = wk_jobs w"
    using runJob_runs [OF assms(1,2)] by blast
  show ?thesis
  proof (cases e)
    case None
    then show ?thesis using Some run w1 Complete_settles by simp
  next
    case (Some err)
    show ?thesis
    proof (cases err)
      case (Deferred reason)
      then show ?thesis using \<open>find _ _ = Some olt\<close> Some run w1 Defer_settles by (simp add: handleJobError_def)
    next
      case (Failed cause)
      obtain tbl' where "Fail job cause (clk 1) (wk_jobs w) = Some tbl'" "settles job (clk 1) (wk_jobs w) tbl'"
        using Fail_settles [OF assms(3)] by blast
      then show ?thesis using \<open>find _ _ = Some olt\<close> Some run w1 Failed by (simp add: handleJobError_def)
    qed
  qed
qed

text \<open>C2. A worker that claims a job always settles it: whatever the job, the chassis and the tunnels come to, the run ends,
  never panics, keeps the inventory consistent, and leaves the claimed row unlocked, due again no sooner than the interval of its
  tier, with a failure count that cannot make a later back-off panic; every other row is untouched.\<close>

theorem worker_always_settles:
  assumes "inventory_ok (wk_inv w)" "new_ids (we_new env)" "\<forall>r \<in> set (wk_jobs w). 0 \<le> pj_failures r"
  shows "\<exists>b w'. runNextJob env clk w = Some (b, w') \<and> inventory_ok (wk_inv w')
    \<and> (\<forall>r \<in> set (wk_jobs w'). 0 \<le> pj_failures r)
    \<and> (case snd (Claim (we_id env) (\<lambda>_. False) (clk 0) (wk_jobs w)) of
         None \<Rightarrow> \<not> b \<and> w' = w
       | Some job \<Rightarrow> b \<and> map job_key (wk_jobs w') = map job_key (wk_jobs w)
           \<and> filter (\<lambda>r. job_key r \<noteq> job_key job) (wk_jobs w') = filter (\<lambda>r. job_key r \<noteq> job_key job) (wk_jobs w)
           \<and> (\<forall>r \<in> set (wk_jobs w'). job_key r = job_key job \<longrightarrow>
                pj_locked_by r = None \<and> pj_locked_at r = None \<and> clk 1 + IntervalFor (pj_kind job) \<le> pj_due_at r))"
proof -
  obtain tbl g where claim: "Claim (we_id env) (\<lambda>_. False) (clk 0) (wk_jobs w) = (tbl, g)" by fastforce
  show ?thesis
  proof (cases g)
    case None
    then show ?thesis using claim assms by (intro exI [of _ False] exI [of _ w]) (simp add: runNextJob_def)
  next
    case (Some job)
    note rows = claim_rows [OF claim [unfolded Some]]
    have fine: "0 \<le> pj_failures job" "\<forall>r \<in> set tbl. 0 \<le> pj_failures r" using rows(3) assms(3) by auto
    obtain w' where "runNextJob env clk w = Some (True, w')" "inventory_ok (wk_inv w')" "settles job (clk 1) tbl (wk_jobs w')"
      using job_settled [of "w\<lparr>wk_jobs := tbl\<rparr>" env job clk] assms(1,2) fine(1)
      by (auto simp: runNextJob_def claim Some Let_def)
    then show ?thesis using rows(1,2) fine by (auto simp: claim Some settles_def)
  qed
qed

text \<open>A silent tunnel is no fault of the chassis: while every enabled peer of the OLT's site has been without a handshake
  for three minutes or more, a claimed job touches neither the chassis nor the inventory, and the row keeps its failure
  count and its last error; it is merely due again an interval later.\<close>

theorem silent_site_is_no_fault:
  assumes "Claim (we_id env) (\<lambda>_. False) (clk 0) (wk_jobs w) = (tbl, Some job)"
    and "find (\<lambda>l. olt_ID l = pj_device job) (iv_olts (wk_inv w)) = Some olt"
    and "\<exists>p \<in> set (wk_peers w). wp_Enabled p \<and> wp_SiteID p = olt_SiteID olt"
    and "\<forall>p \<in> set (wk_peers w). wp_Enabled p \<and> wp_SiteID p = olt_SiteID olt \<longrightarrow>
           (\<forall>t. wp_LastHandshake p = Some t \<longrightarrow> t + 3 * minute \<le> clk 3)"
  shows "runNextJob env clk w = Some (True, w\<lparr>wk_jobs := Defer job (clk 1) tbl\<rparr>)
    \<and> list_all2 (\<lambda>r r'. job_key r' = job_key r \<and> pj_failures r' = pj_failures r \<and> pj_last_error r' = pj_last_error r
          \<and> (job_key r = job_key job \<longrightarrow> pj_due_at r' = clk 1 + IntervalFor (pj_kind job)))
        (wk_jobs w) (Defer job (clk 1) tbl)"
proof -
  have olt: "olt \<in> set (iv_olts (wk_inv w))" using assms(2) by (auto simp: find_Some_iff)
  let ?site = "filter (\<lambda>p. wp_SiteID p = olt_SiteID olt) (filter wp_Enabled (wk_peers w))"
  have site: "?site \<noteq> []" using assms(3) by (auto simp: filter_empty_conv)
  have "set (peersReaching olt ?site) \<subseteq> set ?site" "peersReaching olt ?site \<noteq> []"
    using site by (auto simp: peersReaching_def Let_def split: option.splits)
  then have "allPeersDown (peersReaching olt ?site) (clk 3)"
    using assms(4) by (fastforce simp: allPeersDown_def list_ex_iff PeerConnected_def PeerHandshakeGrace_def split: option.splits if_splits)
  moreover have "olt_SiteID olt \<in> wp_SiteID ` set (filter wp_Enabled (wk_peers w))" using assms(3) by force
  ultimately have "oltsBehindDownTunnel (clk 3) (wk_peers w) (iv_olts (wk_inv w)) (olt_ID olt)"
    using site olt by (auto simp: oltsBehindDownTunnel_def groupPeersBySite_def Let_def filter_empty_conv intro!: image_eqI [of _ _ olt])
  then have "runNextJob env clk w = Some (True, w\<lparr>wk_jobs := Defer job (clk 1) tbl\<rparr>)"
    using assms(1,2) by (simp add: runNextJob_def runJob_def handleJobError_def Let_def)
  moreover obtain c where c: "c \<in> set (wk_jobs w)" "job = lock_row (we_id env) (clk 0) c"
    "tbl = update_where (\<lambda>r. job_key r = job_key c) (lock_row (we_id env) (clk 0)) (wk_jobs w)"
    using assms(1) by (rule ClaimE)
  ultimately show ?thesis
    by (simp add: Defer_def c(2,3) update_where_def list_all2_map2 list_all2_same unlock_row_def)
qed

section \<open>Witnesses\<close>

definition sample_reading :: oltReading where
  "sample_reading = index_reading (no_reading\<lparr>rd_statuses := [((2, 3, 5), 1), ((4, 3, 5), 3)], rd_statusWalkOK := True\<rparr>)"

lemma sample_reading_ok: "reading_ok sample_reading"
  by (simp add: reading_ok_def sample_reading_def index_reading_def no_reading_def)

definition polled_inventory :: inventory where
  "polled_inventory = sample_inventory\<lparr>iv_onts := [sample_row]\<rparr>"

lemma polled_inventory_ok: "inventory_ok polled_inventory"
  unfolding polled_inventory_def by (rule sample_row_ok)

lemmas sample_defs = polled_inventory_def sample_row_def sample_inventory_def newONTFromDiscovery_def sample_reading_def
  index_reading_def no_reading_def sample_walk_def placed_def

lemma sample_row_fields [simp]:
  "sample_row \<in> set (iv_onts polled_inventory)" "ont_OLTID sample_row = olt_ID (hd (iv_olts sample_inventory))"
  "ont_Slot sample_row = Some 2" "ont_PortID sample_row = 3" "ont_ONTID sample_row = 5"
  by (simp_all add: sample_defs discoveredSlot_def)

lemma poll_pass_ends_witness:
  "\<exists>s'. applyReading 60 (hd (iv_olts sample_inventory)) sample_reading polled_inventory = Some (Inr s')"
  using poll_pass_ends [OF polled_inventory_ok, of 60 "hd (iv_olts sample_inventory)" sample_reading] by blast

text \<open>Its own card says the signal is lost, and the card of another row says its ONT works.\<close>

lemma poll_status_exact_witness:
  "\<exists>s'. applyReading 60 (hd (iv_olts sample_inventory)) sample_reading polled_inventory = Some (Inr s')
     \<and> (\<exists>t' \<in> set (iv_onts s'). pid t' = pid sample_row \<and> ont_Status t' = ''los'')"
proof -
  obtain s' where run: "applyReading 60 (hd (iv_olts sample_inventory)) sample_reading polled_inventory = Some (Inr s')"
    using pass_walk [OF polled_inventory_ok] by blast
  have "map_of (rd_statuses sample_reading) (2, 3, 5) = Some 1"
    by (simp add: sample_reading_def index_reading_def no_reading_def)
  then show ?thesis
    using poll_status_exact [OF polled_inventory_ok sample_reading_ok run, of sample_row 2] run
    by (simp add: ont_status_defs Let_def)
qed


definition sample_worker :: worker where
  "sample_worker = \<lparr>wk_inv = polled_inventory, wk_jobs = [new_job 7 PollKindStatus 0, new_job 7 PollKindMetrics 5],
     wk_locks = [], wk_peers = []\<rparr>"

definition sample_env :: worker_env where
  "sample_env = \<lparr>we_id = ''w'', we_new = next_uuid, we_DriverFor = (\<lambda>_. Some sample_driver)\<rparr>"

lemma worker_always_settles_witness:
  "\<exists>w'. runNextJob sample_env (\<lambda>k. 100) sample_worker = Some (True, w') \<and> inventory_ok (wk_inv w')"
proof -
  have "snd (Claim (we_id sample_env) (\<lambda>_. False) 100 (wk_jobs sample_worker)) \<noteq> None"
    by (simp add: sample_worker_def Claim_def claimable_def new_job_def)
  then show ?thesis
    using worker_always_settles [of sample_worker sample_env "\<lambda>_. 100"] polled_inventory_ok next_uuid_new
    by (auto simp: sample_worker_def sample_env_def new_job_def)
qed

definition sample_peer :: peer where
  "sample_peer = \<lparr>wp_ID = 1, wp_SiteID = 3, wp_Name = [], wp_PublicKey = [], wp_PrivateKey = [], wp_TunnelAddress = [],
     wp_AllowedIPs = [], wp_Keepalive = 25, wp_Enabled = True, wp_LastHandshake = Some (- hour), wp_Rx = 0, wp_Tx = 0\<rparr>"

lemma silent_site_is_no_fault_witness:
  "runNextJob sample_env (\<lambda>k. 100) (sample_worker\<lparr>wk_peers := [sample_peer]\<rparr>) =
     Some (True, (sample_worker\<lparr>wk_peers := [sample_peer]\<rparr>)\<lparr>wk_jobs :=
       Defer (lock_row ''w'' 100 (new_job 7 PollKindStatus 0)) 100
         [lock_row ''w'' 100 (new_job 7 PollKindStatus 0), new_job 7 PollKindMetrics 5]\<rparr>)"
  by (rule silent_site_is_no_fault [THEN conjunct1, of _ _ _ _ _ "hd (iv_olts sample_inventory)"])
    (simp_all add: sample_env_def sample_worker_def Claim_def claimable_def new_job_def sample_peer_def
      polled_inventory_def sample_inventory_def update_where_def job_key_def)

end
