(* ===== verification/SnmpParse.thy ===== *)
theory SnmpParse
  imports GoStrings Prelude Complex_Main "HOL-Library.Word"
begin

text \<open>
  What an OLT's SNMP agent sends and what is read out of it (\<open>connectivity/snmp_encoding.go\<close>, \<open>snmp_parsing.go\<close>,
  \<open>snmp_uncfg_serial.go\<close>, the pure part of \<open>driver_hsgq.go\<close>, \<open>utils/helpers.go\<close>): the interface indexes of the ZTE and
  HSGQ chassis, optical powers, serial numbers, names and addresses.

  A value arrives as one of the Go types \<open>gosnmp\<close> uses. A float is a real number.
\<close>

unbundle bit_operations_syntax

section \<open>Values\<close>

type_synonym u32 = "32 word"

datatype snmp_value =
    VInt int | VInt64 int | VUint "64 word" | VUint32 u32 | VUint64 "64 word"
  | VString string | VBytes string | VOther

text \<open>The conversion of an unsigned 64-bit value wraps.\<close>

fun toInt64 :: "snmp_value \<Rightarrow> int option" where
  "toInt64 (VInt v) = Some v"
| "toInt64 (VInt64 v) = Some v"
| "toInt64 (VUint v) = Some (sint v)"
| "toInt64 (VUint32 v) = Some (uint v)"
| "toInt64 (VUint64 v) = Some (sint v)"
| "toInt64 _ = None"

fun toUint64 :: "snmp_value \<Rightarrow> 64 word option" where
  "toUint64 (VUint64 v) = Some v"
| "toUint64 (VUint32 v) = Some (ucast v)"
| "toUint64 (VUint v) = Some v"
| "toUint64 (VInt64 v) = (if v < 0 then None else Some (word_of_int v))"
| "toUint64 (VInt v) = (if v < 0 then None else Some (word_of_int v))"
| "toUint64 _ = None"

section \<open>Interface indexes\<close>

definition OnuIDIfIndexBase :: int where "OnuIDIfIndexBase = 285278208"
definition OnuIDSlotStride :: int where "OnuIDSlotStride = 256"
definition OnuTypeIfIndexBase :: int where "OnuTypeIfIndexBase = 268435456"
definition OnuTypeSlotStride :: int where "OnuTypeSlotStride = 65536"
definition OnuIDIncrement :: int where "OnuIDIncrement = 1"
definition OnuTypeIncrement :: int where "OnuTypeIncrement = 256"

definition byte_of :: "int \<Rightarrow> u32" where
  "byte_of v = word_of_int (v AND 0xFF)"

definition encodeZxGponIfIndex :: "int \<Rightarrow> int \<Rightarrow> int \<Rightarrow> u32" where
  "encodeZxGponIfIndex frame slot port =
     push_bit 24 (byte_of frame) OR push_bit 16 (byte_of slot) OR push_bit 8 (byte_of port)"

definition util_EncodeZxGponIfIndex :: "int \<Rightarrow> int \<Rightarrow> u32" where
  "util_EncodeZxGponIfIndex slot port =
     push_bit 24 0x10 OR push_bit 16 (byte_of slot) OR push_bit 8 (byte_of port)"

definition util_DecodeZxGponIfIndex :: "u32 \<Rightarrow> (int \<times> int) option" where
  "util_DecodeZxGponIfIndex ifIndex =
     (if drop_bit 24 ifIndex AND 0xFF \<noteq> 0x10 then None
      else Some (uint (drop_bit 16 ifIndex AND 0xFF), uint (drop_bit 8 ifIndex AND 0xFF)))"

definition decodeOnuIDIfIndex :: "u32 \<Rightarrow> (int \<times> int) option" where
  "decodeOnuIDIfIndex ifIndex =
     (let slot = uint (drop_bit 16 ifIndex AND 0xFF); port = uint (drop_bit 8 ifIndex AND 0xFF)
      in if slot = 0 \<or> port = 0 then None else Some (slot, port))"

definition decodeZxGponIfIndex :: "u32 \<Rightarrow> (int \<times> int) option" where
  "decodeZxGponIfIndex ifIndex =
     (let frame = drop_bit 24 ifIndex AND 0xFF;
          slot = uint (drop_bit 16 ifIndex AND 0xFF); port = uint (drop_bit 8 ifIndex AND 0xFF)
      in if frame \<noteq> 0x10 then None else if slot = 0 \<or> port = 0 then None else Some (slot, port))"

definition decodeOnuTypeIfIndex :: "u32 \<Rightarrow> (int \<times> int) option" where
  "decodeOnuTypeIfIndex ifIndex =
     (let base = word_of_int OnuTypeIfIndexBase in
      if ifIndex < base then None
      else let offset = ifIndex - base;
               slot = uint (offset div word_of_int OnuTypeSlotStride);
               remainder = offset mod word_of_int OnuTypeSlotStride;
               port = uint (remainder div word_of_int OnuTypeIncrement)
           in if slot = 0 \<or> port = 0 then None else Some (slot, port))"

definition encodeOnuIDIfIndex :: "int \<Rightarrow> int \<Rightarrow> int \<Rightarrow> u32" where
  "encodeOnuIDIfIndex frame slot port =
     push_bit 28 (word_of_int frame) OR push_bit 16 0x1101 OR push_bit 8 (byte_of slot) OR byte_of port"

text \<open>The ifIndex of an instance, as the code that asks for it computes it.\<close>

definition type_space :: "int \<Rightarrow> int \<Rightarrow> int" where
  "type_space slot port = OnuTypeIfIndexBase + slot * OnuTypeSlotStride + port * OnuTypeIncrement"

definition onu_space :: "int \<Rightarrow> int \<Rightarrow> int" where
  "onu_space slot port = OnuIDIfIndexBase + slot * OnuIDSlotStride + port * OnuIDIncrement"

section \<open>HSGQ\<close>

definition hsgqLocation :: "u32 \<Rightarrow> int \<times> int \<times> int" where
  "hsgqLocation ifIndex = (0, uint (drop_bit 8 ifIndex AND 0xFF), uint (ifIndex AND 0xFF))"

definition hsgqIfIndexFor :: "int \<Rightarrow> int \<Rightarrow> u32" where
  "hsgqIfIndexFor port ontID = 0x01000000 OR push_bit 8 (byte_of port) OR byte_of ontID"

definition hsgqStatusOnline :: int where "hsgqStatusOnline = 1"
definition hsgqStatusOffline :: int where "hsgqStatusOffline = 2"

definition PhaseStateOnline :: int where "PhaseStateOnline = 3"
definition PhaseStateOffline :: int where "PhaseStateOffline = 6"
definition PhaseStateUnknown :: int where "PhaseStateUnknown = 0"

definition hsgqDecodeStatus :: "int \<Rightarrow> int" where
  "hsgqDecodeStatus raw =
     (if raw = hsgqStatusOnline then PhaseStateOnline
      else if raw = hsgqStatusOffline then PhaseStateOffline else PhaseStateUnknown)"

definition hsgqDecodePower :: "int \<Rightarrow> real option" where
  "hsgqDecodePower raw =
     (if raw = 0 then None
      else let dbm = of_int raw / 100 in if dbm < - 50 \<or> dbm > 20 then None else Some dbm)"

definition hsgqParseSuffix :: "string \<Rightarrow> string \<Rightarrow> u32 option" where
  "hsgqParseSuffix sfx tail =
     (case Cut sfx CHR ''.'' of
        (index, rest, found) \<Rightarrow>
          if (if found then rest else []) \<noteq> tail then None
          else case ParseUint 32 index of
                 None \<Rightarrow> None
               | Some n \<Rightarrow> if n = 0 then None else Some (of_nat n))"

section \<open>Optical power\<close>

definition decodeZxGponPower :: "int \<Rightarrow> real option" where
  "decodeZxGponPower raw =
     (if raw = 65535 then None
      else if raw \<ge> 30000 \<and> raw < 32768 then None
      else let adjusted = (if raw \<ge> 32768 \<and> raw < 65536 then raw - 65536 else raw)
           in Some (of_int adjusted * 0.002 - 30))"

section \<open>Text\<close>

definition byte :: "char \<Rightarrow> nat" where "byte c = of_char c"

definition isValidHex :: "string \<Rightarrow> bool" where
  "isValidHex s \<longleftrightarrow>
     list_all (\<lambda>c. (48 \<le> byte c \<and> byte c \<le> 57) \<or> (97 \<le> byte c \<and> byte c \<le> 102) \<or> (65 \<le> byte c \<and> byte c \<le> 70)) s"

text \<open>Runes outside the alphabet are dropped, so every byte of a longer one is.\<close>

definition clean_char :: "char \<Rightarrow> bool" where
  "clean_char c \<longleftrightarrow>
     (65 \<le> byte c \<and> byte c \<le> 90) \<or> (97 \<le> byte c \<and> byte c \<le> 122) \<or> (48 \<le> byte c \<and> byte c \<le> 57)
     \<or> c = CHR '' '' \<or> c = CHR ''-'' \<or> c = CHR ''_''"

definition cleanString :: "string \<Rightarrow> string" where
  "cleanString s = (if s = [] then [] else TrimSpace (filter clean_char s))"

definition printable :: "char \<Rightarrow> bool" where
  "printable c \<longleftrightarrow> 0x20 \<le> byte c \<and> byte c \<le> 0x7E"

fun text_of :: "snmp_value \<Rightarrow> string option" where
  "text_of (VString s) = Some s"
| "text_of (VBytes s) = Some s"
| "text_of _ = None"

definition printableText :: "snmp_value \<Rightarrow> string" where
  "printableText v = (case text_of v of None \<Rightarrow> [] | Some raw \<Rightarrow> TrimSpace (filter printable raw))"

definition ExtractName :: "snmp_value \<Rightarrow> string" where
  "ExtractName v = (case text_of v of None \<Rightarrow> [] | Some s \<Rightarrow> cleanString (TrimPrefix s ''1,''))"

text \<open>The digits of a run of hexadecimal characters; its letters are passed over.\<close>

fun ascii_decoded :: "string \<Rightarrow> string" where
  "ascii_decoded [] = []"
| "ascii_decoded (b # s) =
     (if 48 \<le> byte b \<and> byte b \<le> 57 then b # ascii_decoded s
      else if (65 \<le> byte b \<and> byte b \<le> 70) \<or> (97 \<le> byte b \<and> byte b \<le> 102) then ascii_decoded s
      else [])"

fun ExtractSerialNumber :: "snmp_value \<Rightarrow> string" where
  "ExtractSerialNumber (VString s) = (if HasPrefix s ''1,'' then drop 2 s else s)"
| "ExtractSerialNumber (VBytes v) =
     (if length v = 2 \<and> hd v = CHR 0x31 then []
      else let data = (if length v \<ge> 2 \<and> hd v = CHR 0x31 then drop 2 v else v);
               str = (if HasPrefix data ''1,'' then drop 2 data else data)
           in if length str \<ge> 8 \<and> isValidHex (take 8 str)
              then (if length (ascii_decoded str) \<ge> 8 then ascii_decoded str else str) else str)"
| "ExtractSerialNumber _ = []"

definition upper_digit :: "nat \<Rightarrow> char" where
  "upper_digit n = char_of (if n < 10 then 48 + n else 55 + n)"

text \<open>\<open>%02X\<close> of a byte.\<close>

definition hex2 :: "char \<Rightarrow> string" where
  "hex2 c = [upper_digit (byte c div 16), upper_digit (byte c mod 16)]"

fun join_strings :: "string \<Rightarrow> string list \<Rightarrow> string" where
  "join_strings sep [] = []"
| "join_strings sep [x] = x"
| "join_strings sep (x # xs) = x @ sep @ join_strings sep xs"

definition hsgqFormatMAC :: "snmp_value \<Rightarrow> string" where
  "hsgqFormatMAC v =
     (case text_of v of None \<Rightarrow> []
      | Some raw \<Rightarrow> if length raw \<noteq> 6 then [] else join_strings '':'' (map hex2 raw))"

fun formatZTEMACAddress :: "snmp_value \<Rightarrow> string" where
  "formatZTEMACAddress (VBytes raw) = (if length raw \<noteq> 6 then [] else join_strings '':'' (map hex2 raw))"
| "formatZTEMACAddress _ = []"

definition readZTEIPAddress :: "snmp_value \<Rightarrow> string" where
  "readZTEIPAddress v =
     (case text_of v of None \<Rightarrow> []
      | Some text \<Rightarrow> let text = TrimSpace text in if text = ''0.0.0.0'' then [] else text)"

section \<open>An ONU that waits\<close>

definition autofindSerialLen :: nat where "autofindSerialLen = 8"

definition formatAutofindSerial :: "snmp_value \<Rightarrow> string" where
  "formatAutofindSerial v =
     (case text_of v of None \<Rightarrow> []
      | Some raw \<Rightarrow>
          if length raw \<noteq> autofindSerialLen then []
          else if \<not> list_all printable (take 4 raw) then []
          else take 4 raw @ concat (map hex2 (drop 4 raw)))"

definition parseUncfgSuffix :: "string \<Rightarrow> (int \<times> int \<times> int) option" where
  "parseUncfgSuffix sfx =
     (case Split sfx CHR ''.'' of
        ifIndex # sq # _ \<Rightarrow>
          (case ParseUint 32 ifIndex of
             None \<Rightarrow> None
           | Some n \<Rightarrow>
               (case ParseInt64 sq of
                  None \<Rightarrow> None
                | Some k \<Rightarrow> (case decodeZxGponIfIndex (of_nat n) of None \<Rightarrow> None | Some (slot, port) \<Rightarrow> Some (slot, port, k))))
      | _ \<Rightarrow> None)"

section \<open>Instances\<close>

text \<open>What follows the name of a table, split at the dots.\<close>

definition instance_arcs :: "string \<Rightarrow> string \<Rightarrow> string list option" where
  "instance_arcs oid base =
     (let trimmed = TrimPrefix oid ''.''; baseTrimmed = TrimPrefix base ''.'' in
      if \<not> HasPrefix trimmed (baseTrimmed @ ''.'') then None
      else Some (Split (TrimPrefix trimmed (baseTrimmed @ ''.'')) CHR ''.''))"

definition parseZxGponSuffix :: "string \<Rightarrow> string \<Rightarrow> (int \<times> int \<times> int) option" where
  "parseZxGponSuffix oid base =
     (case instance_arcs oid base of
        Some (ifIndex # onuIndex # _) \<Rightarrow>
          (case ParseUint 32 ifIndex of
             None \<Rightarrow> None
           | Some n \<Rightarrow>
               (case ParseInt64 onuIndex of
                  None \<Rightarrow> None
                | Some k \<Rightarrow> (case decodeZxGponIfIndex (of_nat n) of None \<Rightarrow> None | Some (slot, port) \<Rightarrow> Some (slot, port, k))))
      | _ \<Rightarrow> None)"

definition parseOnuIDSuffix :: "string \<Rightarrow> string \<Rightarrow> (int \<times> int \<times> int) option" where
  "parseOnuIDSuffix oid base =
     (case instance_arcs oid base of
        Some (ifIndex # onuIndex # _) \<Rightarrow>
          (case ParseUint 32 ifIndex of
             None \<Rightarrow> None
           | Some n \<Rightarrow>
               (case ParseInt64 onuIndex of
                  None \<Rightarrow> None
                | Some k \<Rightarrow>
                    if int n < OnuIDIfIndexBase then None
                    else let offset = of_nat n - word_of_int OnuIDIfIndexBase :: u32;
                             slot = uint (offset div word_of_int OnuIDSlotStride);
                             port = uint (offset mod word_of_int OnuIDSlotStride)
                         in if slot = 0 \<or> port = 0 then None else Some (slot, port, k)))
      | _ \<Rightarrow> None)"
section \<open>Bytes of an index\<close>

lemma byte_field: "uint (drop_bit k (w :: u32) AND 0xFF) = uint w div 2 ^ k mod 256"
proof -
  have "(0xFF :: u32) = mask 8" by (simp add: mask_eq_exp_minus_1)
  then have "drop_bit k w AND 0xFF = take_bit 8 (drop_bit k w)" by (simp add: take_bit_eq_mask)
  moreover have "take_bit 32 (uint w) = uint w" using uint_bounded [of w] by (simp add: take_bit_int_eq_self)
  then have "uint (take_bit 8 (drop_bit k w)) = take_bit 8 (drop_bit k (uint w))"
    by (simp add: unsigned_take_bit_eq unsigned_drop_bit_eq)
  ultimately show ?thesis by (simp only: take_bit_eq_mod drop_bit_eq_div) simp
qed

lemma low_field: "uint ((w :: u32) AND 0xFF) = uint w mod 256"
  using byte_field [of 0 w] by simp

lemma frame_field: "drop_bit k (w :: u32) AND 0xFF = 0x10 \<longleftrightarrow> uint w div 2 ^ k mod 256 = 16"
proof -
  have "drop_bit k w AND 0xFF = 0x10 \<longleftrightarrow> uint (drop_bit k w AND 0xFF) = uint (0x10 :: u32)"
    by (simp only: word_uint_eq_iff)
  then show ?thesis by (simp add: byte_field)
qed

lemma byte_of_val: "0 \<le> v \<Longrightarrow> v < 256 \<Longrightarrow> uint (byte_of v) = v"
proof -
  assume v: "0 \<le> v" "v < 256"
  have "(0xFF :: int) = mask 8" by (simp add: mask_eq_exp_minus_1)
  then have "v AND 0xFF = take_bit 8 v" by (simp add: take_bit_eq_mask)
  also have "\<dots> = v" using v by (simp add: take_bit_eq_mod)
  finally show ?thesis using v by (simp add: byte_of_def uint_word_of_int take_bit_eq_mod)
qed

lemma bit_byte_of: "bit (byte_of v) n \<longleftrightarrow> n < 8 \<and> bit v n"
proof -
  have "(0xFF :: int) = mask 8" by (simp add: mask_eq_exp_minus_1)
  then have "v AND 0xFF = take_bit 8 v" by (simp add: take_bit_eq_mask)
  then show ?thesis by (auto simp: byte_of_def bit_word_of_int_iff bit_take_bit_iff)
qed

lemma or_is_add: "(\<And>n. \<not> (bit (a :: u32) n \<and> bit b n)) \<Longrightarrow> a OR b = a + b"
  by (rule disjunctive_add [symmetric]) blast

lemma push_byte: "bit (push_bit k (byte_of v)) n \<longleftrightarrow> k \<le> n \<and> n < 32 \<and> n < k + 8 \<and> bit v (n - k)"
  by (auto simp: bit_push_bit_iff bit_byte_of)

lemma uint_push_byte:
  assumes "0 \<le> v" "v < 256" "k \<le> 24"
  shows "uint (push_bit k (byte_of v)) = v * 2 ^ k"
proof -
  have "(2 :: int) ^ k * v < 2 ^ 24 * 256"
    using assms power_increasing [OF assms(3), of "2 :: int"] by (intro mult_le_less_imp_less) auto
  then have v: "v * 2 ^ k < 2 ^ 32" by (simp add: mult.commute)
  have "uint (push_bit k (byte_of v)) = take_bit 32 (push_bit k (uint (byte_of v)))"
    using unsigned_push_bit_eq [of k "byte_of v", where ?'a = int] by simp
  also have "\<dots> = v * 2 ^ k mod 2 ^ 32"
    by (simp only: byte_of_val [OF assms(1,2)] take_bit_eq_mod push_bit_eq_mult)
  also have "\<dots> = v * 2 ^ k" using assms(1) v by (simp add: mod_pos_pos_trivial)
  finally show ?thesis .
qed

lemma location_bytes:
  assumes "0 \<le> f" "f < 256" "0 \<le> s" "s < 256" "0 \<le> p" "p < 256"
  shows "uint (push_bit 24 (byte_of f) OR push_bit 16 (byte_of s) OR push_bit 8 (byte_of p)) = f * 2 ^ 24 + s * 2 ^ 16 + p * 2 ^ 8"
proof -
  have "push_bit 16 (byte_of s) OR push_bit 8 (byte_of p) = push_bit 16 (byte_of s) + push_bit 8 (byte_of p)"
    by (rule or_is_add) (auto simp: push_byte)
  moreover have "push_bit 24 (byte_of f) OR (push_bit 16 (byte_of s) OR push_bit 8 (byte_of p)) =
      push_bit 24 (byte_of f) + (push_bit 16 (byte_of s) OR push_bit 8 (byte_of p))"
    by (rule or_is_add) (auto simp: push_byte bit_or_iff)
  ultimately have "push_bit 24 (byte_of f) OR push_bit 16 (byte_of s) OR push_bit 8 (byte_of p) =
      push_bit 24 (byte_of f) + (push_bit 16 (byte_of s) + push_bit 8 (byte_of p))"
    by (simp add: or.assoc)
  then show ?thesis using assms by (simp add: uint_word_arith_bintrs uint_push_byte take_bit_eq_mod)
qed

lemma encode_type_space:
  assumes "0 \<le> slot" "slot < 256" "0 \<le> port" "port < 256"
  shows "uint (encodeZxGponIfIndex 0x10 slot port) = type_space slot port"
    and "uint (util_EncodeZxGponIfIndex slot port) = type_space slot port"
proof -
  have "byte_of 0x10 = 0x10" by (simp add: byte_of_def)
  then have "encodeZxGponIfIndex 0x10 slot port = util_EncodeZxGponIfIndex slot port"
    by (simp add: encodeZxGponIfIndex_def util_EncodeZxGponIfIndex_def)
  moreover show "uint (encodeZxGponIfIndex 0x10 slot port) = type_space slot port"
    using location_bytes [of 16 slot port] assms
    by (simp add: encodeZxGponIfIndex_def type_space_def OnuTypeIfIndexBase_def OnuTypeSlotStride_def OnuTypeIncrement_def)
  ultimately show "uint (util_EncodeZxGponIfIndex slot port) = type_space slot port" by simp
qed
lemmas index_consts = OnuTypeIfIndexBase_def OnuTypeSlotStride_def OnuTypeIncrement_def
  OnuIDIfIndexBase_def OnuIDSlotStride_def OnuIDIncrement_def

lemma quotient_of: "0 \<le> r \<Longrightarrow> r < b \<Longrightarrow> (q * b + r) div b = (q :: int)"
  by simp

lemma remainder_of: "0 \<le> r \<Longrightarrow> r < b \<Longrightarrow> (q * b + r) mod b = (r :: int)"
  by simp

lemma type_space_fields:
  assumes "0 \<le> slot" "slot < 256" "0 \<le> port" "port < 256"
  shows "type_space slot port div 2 ^ 24 mod 256 = 16" "type_space slot port div 2 ^ 16 mod 256 = slot"
    "type_space slot port div 2 ^ 8 mod 256 = port"
proof -
  have t: "type_space slot port = (4096 + slot) * 65536 + port * 256" "type_space slot port = ((4096 + slot) * 256 + port) * 256"
    "type_space slot port = 16 * 16777216 + (slot * 65536 + port * 256)"
    by (simp_all add: type_space_def index_consts)
  have "type_space slot port div 16777216 = 16" unfolding t(3) by (rule quotient_of) (use assms in simp_all)
  then show "type_space slot port div 2 ^ 24 mod 256 = 16" by simp
  have "type_space slot port div 65536 = 16 * 256 + slot" using quotient_of [of "port * 256" 65536 "4096 + slot"] assms by (simp add: t(1))
  then show "type_space slot port div 2 ^ 16 mod 256 = slot" using remainder_of [of slot 256 16] assms by simp
  have "type_space slot port div 256 = (4096 + slot) * 256 + port" using quotient_of [of 0 256] by (simp add: t(2))
  then show "type_space slot port div 2 ^ 8 mod 256 = port" using remainder_of [of port 256 "4096 + slot"] assms by simp
qed

lemma decode_type_space:
  assumes "uint w = type_space slot port" "0 < slot" "slot < 256" "0 < port" "port < 256"
  shows "decodeZxGponIfIndex w = Some (slot, port)" "decodeOnuIDIfIndex w = Some (slot, port)"
    "util_DecodeZxGponIfIndex w = Some (slot, port)"
  using type_space_fields [of slot port] assms
  by (simp_all add: decodeZxGponIfIndex_def decodeOnuIDIfIndex_def util_DecodeZxGponIfIndex_def byte_field frame_field)

lemma decode_onu_type:
  assumes "uint w = type_space slot port" "0 < slot" "slot < 256" "0 < port" "port < 256"
  shows "decodeOnuTypeIfIndex w = Some (slot, port)"
proof -
  let ?b = "word_of_int OnuTypeIfIndexBase :: u32"
  have b: "uint ?b = 268435456" by (simp add: index_consts)
  have le: "\<not> w < ?b" using assms b by (simp add: word_less_def type_space_def index_consts)
  then have off: "uint (w - ?b) = slot * 65536 + port * 256"
    using assms(1) b by (simp add: uint_sub_if' word_less_def type_space_def index_consts)
  have "uint ((w - ?b) div word_of_int OnuTypeSlotStride) = slot"
    using assms off by (simp add: uint_div index_consts)
  moreover have "uint ((w - ?b) mod word_of_int OnuTypeSlotStride div word_of_int OnuTypeIncrement) = port"
    using assms off by (simp add: uint_div uint_mod index_consts)
  ultimately show ?thesis using le assms(2,4) by (simp add: decodeOnuTypeIfIndex_def Let_def)
qed

lemma onu_space_parts:
  assumes "0 < slot" "slot < 256" "0 < port" "port < 256"
  shows "uint (word_of_int (onu_space slot port) - word_of_int OnuIDIfIndexBase :: u32) = slot * 256 + port"
proof -
  have "word_of_int (onu_space slot port) - word_of_int OnuIDIfIndexBase = (word_of_int (slot * 256 + port) :: u32)"
    by (simp add: onu_space_def index_consts flip: wi_hom_sub)
  then show ?thesis using assms by (simp only: uint_word_of_int) (simp add: take_bit_eq_mod)
qed

section \<open>Names of instances\<close>

definition itoa :: "int \<Rightarrow> string" where
  "itoa v = (if v < 0 then CHR ''-'' # dec (nat (- v)) else dec (nat v))"

text \<open>\<open>fmt.Sprintf("%s.%d.%d%s")\<close>\<close>

definition instance_oid :: "string \<Rightarrow> int \<Rightarrow> int \<Rightarrow> string \<Rightarrow> string" where
  "instance_oid table ifIndex ontID rest = table @ ''.'' @ itoa ifIndex @ ''.'' @ itoa ontID @ rest"

lemma HasPrefix_append [simp]: "HasPrefix (p @ s) p"
  by (simp add: HasPrefix_def)

lemma TrimPrefix_append [simp]: "TrimPrefix (p @ s) p = s"
  by (simp add: TrimPrefix_def)

lemma TrimPrefix_dot [simp]: "TrimPrefix (CHR ''.'' # s) ''.'' = s" "c \<noteq> CHR ''.'' \<Longrightarrow> TrimPrefix (c # s) ''.'' = c # s"
  by (simp_all add: TrimPrefix_def HasPrefix_code)

lemma dot_dec [simp]: "CHR ''.'' \<notin> set (dec n)"
  by (simp add: not_digit_dec is_digit_iff)

lemma last_field: "c \<notin> set s \<Longrightarrow> last (Split (xs @ c # s) c) = s"
  by (simp add: Split_last)

text \<open>A table is named with or without its leading dot; what follows the number of the ONU starts an arc of its own.\<close>

definition names_table :: "string \<Rightarrow> string \<Rightarrow> bool" where
  "names_table table base \<longleftrightarrow> base = CHR ''.'' # TrimPrefix table ''.'' \<and> TrimPrefix table ''.'' \<noteq> [] \<and> hd (TrimPrefix table ''.'') \<noteq> CHR ''.''"

definition tail_ok :: "string \<Rightarrow> bool" where
  "tail_ok r \<longleftrightarrow> r = [] \<or> hd r = CHR ''.''"

lemma instance_arcs_oid:
  assumes "names_table table base" "0 \<le> ifIndex" "0 \<le> ontID" "tail_ok r"
  shows "\<exists>more_arcs. instance_arcs (instance_oid table ifIndex ontID r) base = Some (dec (nat ifIndex) # dec (nat ontID) # more_arcs)"
proof -
  obtain c s where t: "TrimPrefix table ''.'' = c # s" "c \<noteq> CHR ''.''" and base: "base = CHR ''.'' # c # s"
    using assms(1) by (cases "TrimPrefix table ''.''") (auto simp: names_table_def)
  have table: "table = c # s \<or> table = CHR ''.'' # c # s"
    using t(1) by (cases table) (auto simp: TrimPrefix_def HasPrefix_code split: if_splits)
  let ?q = "dec (nat ifIndex) @ CHR ''.'' # dec (nat ontID) @ r"
  have oid: "TrimPrefix (instance_oid table ifIndex ontID r) ''.'' = ((c # s) @ ''.'') @ ?q"
    using table t(2) assms(2,3) by (auto simp: instance_oid_def itoa_def)
  have b: "TrimPrefix base ''.'' @ ''.'' = (c # s) @ ''.''" by (simp add: base)
  have "\<exists>more_arcs. Split ?q CHR ''.'' = dec (nat ifIndex) # dec (nat ontID) # more_arcs"
  proof (cases r)
    case Nil
    then show ?thesis by (simp add: Split_append Split_no_sep)
  next
    case (Cons d u)
    then have "d = CHR ''.''" using assms(4) by (simp add: tail_ok_def)
    then show ?thesis by (simp add: Cons Split_append)
  qed
  moreover have "instance_arcs (instance_oid table ifIndex ontID r) base = Some (Split ?q CHR ''.'')"
    unfolding instance_arcs_def Let_def oid b by (simp only: HasPrefix_append TrimPrefix_append not_True_eq_False if_False)
  ultimately show ?thesis by metis
qed

text \<open>An instance in the TYPE space is read back as the position it was asked for at, and so is one in the ONU-ID
  space.\<close>

lemma parse_type_instance:
  assumes "names_table table base" "0 < slot" "slot < 256" "0 < port" "port < 256" "0 \<le> k" "k < 2 ^ 63" "tail_ok r"
  shows "parseZxGponSuffix (instance_oid table (type_space slot port) k r) base = Some (slot, port, k)"
proof -
  have range: "0 \<le> type_space slot port" "type_space slot port < 2 ^ 32"
    using assms(2-5) by (simp_all add: type_space_def index_consts)
  then obtain more_arcs where arcs: "instance_arcs (instance_oid table (type_space slot port) k r) base =
      Some (dec (nat (type_space slot port)) # dec (nat k) # more_arcs)"
    using instance_arcs_oid [OF assms(1) _ assms(6,8)] by blast
  have "uint (of_nat (nat (type_space slot port)) :: u32) = type_space slot port"
    using range by (simp add: uint_word_of_int take_bit_eq_mod)
  from decode_type_space(1) [OF this assms(2-5)]
  show ?thesis
    using range assms(6,7) by (simp add: parseZxGponSuffix_def arcs ParseUint_dec ParseInt64_dec nat_less_iff)
qed

lemma parse_onu_instance:
  assumes "names_table table base" "0 < slot" "slot < 256" "0 < port" "port < 256" "0 \<le> k" "k < 2 ^ 63" "tail_ok r"
  shows "parseOnuIDSuffix (instance_oid table (onu_space slot port) k r) base = Some (slot, port, k)"
proof -
  have range: "0 \<le> onu_space slot port" "onu_space slot port < 2 ^ 32" "OnuIDIfIndexBase \<le> onu_space slot port"
    using assms(2-5) by (simp_all add: onu_space_def index_consts)
  then obtain more_arcs where arcs: "instance_arcs (instance_oid table (onu_space slot port) k r) base =
      Some (dec (nat (onu_space slot port)) # dec (nat k) # more_arcs)"
    using instance_arcs_oid [OF assms(1) _ assms(6,8)] by blast
  have w: "(of_nat (nat (onu_space slot port)) :: u32) = word_of_int (onu_space slot port)" using range(1) by simp
  note parts = onu_space_parts [OF assms(2-5)]
  have "uint ((word_of_int (onu_space slot port) - word_of_int OnuIDIfIndexBase :: u32) div word_of_int OnuIDSlotStride) = slot"
    "uint ((word_of_int (onu_space slot port) - word_of_int OnuIDIfIndexBase :: u32) mod word_of_int OnuIDSlotStride) = port"
    using parts assms(2-5) by (simp_all add: uint_div uint_mod OnuIDSlotStride_def)
  then show ?thesis
    using range assms(2,4,6,7)
    by (simp add: parseOnuIDSuffix_def arcs ParseUint_dec ParseInt64_dec nat_less_iff w Let_def)
qed

lemma hsgq_location_of_index:
  assumes "0 \<le> port" "port < 256" "0 \<le> k" "k < 256"
  shows "hsgqLocation (hsgqIfIndexFor port k) = (0, port, k)"
proof -
  have "(0x01000000 :: u32) = push_bit 24 (byte_of 1)" by (simp add: byte_of_def)
  then have f: "hsgqIfIndexFor port k = push_bit 24 (byte_of 1) OR (push_bit 8 (byte_of port) OR push_bit 0 (byte_of k))"
    by (simp add: hsgqIfIndexFor_def or.assoc)
  have "push_bit 8 (byte_of port) OR push_bit 0 (byte_of k) = push_bit 8 (byte_of port) + push_bit 0 (byte_of k)"
    by (rule or_is_add) (auto simp: push_byte bit_byte_of)
  moreover have "push_bit 24 (byte_of 1) OR (push_bit 8 (byte_of port) OR push_bit 0 (byte_of k)) =
      push_bit 24 (byte_of 1) + (push_bit 8 (byte_of port) OR push_bit 0 (byte_of k))"
    by (rule or_is_add) (auto simp: push_byte bit_or_iff bit_byte_of)
  ultimately have "hsgqIfIndexFor port k = push_bit 24 (byte_of 1) + (push_bit 8 (byte_of port) + push_bit 0 (byte_of k))"
    by (simp only: f)
  moreover have "uint (push_bit 24 (byte_of 1) + (push_bit 8 (byte_of port) + push_bit 0 (byte_of k))) = 2 ^ 24 + port * 2 ^ 8 + k"
    using assms uint_push_byte [of 1 24] uint_push_byte [of port 8] uint_push_byte [of k 0]
    by (simp only: uint_word_arith_bintrs take_bit_eq_mod) simp
  ultimately have u: "uint (hsgqIfIndexFor port k) = 2 ^ 24 + port * 2 ^ 8 + k" by simp
  have "uint (hsgqIfIndexFor port k) = (2 ^ 16 + port) * 256 + k" by (simp add: u)
  then have "uint (hsgqIfIndexFor port k) div 256 = 256 * 256 + port" "uint (hsgqIfIndexFor port k) mod 256 = k"
    using quotient_of [of k 256 "2 ^ 16 + port"] remainder_of [of k 256 "2 ^ 16 + port"] assms by simp_all
  then show ?thesis
    using remainder_of [of port 256 256] assms unfolding hsgqLocation_def byte_field unfolding low_field by simp
qed

section \<open>What the readers give\<close>

text \<open>C6. Every address the poller asks an agent for reads back as the position it was asked for: the TYPE-space and the
  ONU-ID-space instances of a ZTE chassis for cards and ports 1 to 255, whatever the table and whatever follows the ONU, and
  the packed index of an HSGQ one; the two ways the code computes a TYPE index agree.\<close>

theorem instances_read_back:
  assumes "names_table table base" "tail_ok r" "0 < slot" "slot < 256" "0 < port" "port < 256" "0 \<le> k" "k < 256"
  shows "parseZxGponSuffix (instance_oid table (type_space slot port) k r) base = Some (slot, port, k)
    \<and> parseOnuIDSuffix (instance_oid table (onu_space slot port) k r) base = Some (slot, port, k)
    \<and> uint (encodeZxGponIfIndex 16 slot port) = type_space slot port
    \<and> util_DecodeZxGponIfIndex (util_EncodeZxGponIfIndex slot port) = Some (slot, port)
    \<and> decodeOnuTypeIfIndex (encodeZxGponIfIndex 16 slot port) = Some (slot, port)
    \<and> hsgqLocation (hsgqIfIndexFor port k) = (0, port, k)"
proof (intro conjI)
  have enc: "uint (encodeZxGponIfIndex 16 slot port) = type_space slot port" "uint (util_EncodeZxGponIfIndex slot port) = type_space slot port"
    using encode_type_space [of slot port] assms by simp_all
  then show "uint (encodeZxGponIfIndex 16 slot port) = type_space slot port" by simp
  show "util_DecodeZxGponIfIndex (util_EncodeZxGponIfIndex slot port) = Some (slot, port)"
    by (rule decode_type_space(3) [OF enc(2) assms(3-6)])
  show "decodeOnuTypeIfIndex (encodeZxGponIfIndex 16 slot port) = Some (slot, port)"
    by (rule decode_onu_type [OF enc(1) assms(3-6)])
  show "parseZxGponSuffix (instance_oid table (type_space slot port) k r) base = Some (slot, port, k)"
    by (rule parse_type_instance [OF assms(1,3-7) _ assms(2)]) (use assms(8) in simp)
  show "parseOnuIDSuffix (instance_oid table (onu_space slot port) k r) base = Some (slot, port, k)"
    by (rule parse_onu_instance [OF assms(1,3-7) _ assms(2)]) (use assms(8) in simp)
  show "hsgqLocation (hsgqIfIndexFor port k) = (0, port, k)"
    by (rule hsgq_location_of_index) (use assms in simp_all)
qed

lemma instances_read_back_witness:
  "parseZxGponSuffix (instance_oid ''.1.3.6.1.4.1.3902.1012.3.28.2.1.4'' (type_space 3 1) 5 ''.1'') ''.1.3.6.1.4.1.3902.1012.3.28.2.1.4'' = Some (3, 1, 5)"
  using instances_read_back [of "''.1.3.6.1.4.1.3902.1012.3.28.2.1.4''" "''.1.3.6.1.4.1.3902.1012.3.28.2.1.4''" "''.1''" 3 1 5]
  by (simp add: names_table_def tail_ok_def)

text \<open>The reader documented as the reverse of \<open>encodeOnuIDIfIndex\<close> is not: it reads the TYPE layout.\<close>

lemma onu_id_index_not_reversed:
  "decodeOnuIDIfIndex (encodeOnuIDIfIndex 1 3 1) = Some (1, 3)"
  by code_simp

text \<open>A serial number of digits and letters loses its letters, and two ONUs become one; one that begins with the digit 1
  loses its first two characters.\<close>

lemma serial_letters_lost:
  "ExtractSerialNumber (VBytes ''2234A5678BCD'') = ''22345678''"
  "ExtractSerialNumber (VBytes ''22345678FFFF'') = ''22345678''"
  "ExtractSerialNumber (VBytes ''1234CDEFGHIJ'') = ''34CDEFGHIJ''"
  by code_simp+

lemma byte_less: "byte c < 256"
  unfolding byte_def by (metis mod_less_divisor of_char_mod_256 zero_less_numeral)

lemma hex2_inj: "hex2 a = hex2 b \<longleftrightarrow> a = b"
proof -
  have digit: "upper_digit m = upper_digit n \<longleftrightarrow> m = n" if "m < 16" "n < 16" for m n
  proof -
    have "(of_char (upper_digit m) :: nat) = (if m < 10 then 48 + m else 55 + m)"
      "(of_char (upper_digit n) :: nat) = (if n < 10 then 48 + n else 55 + n)"
      using that by (simp_all add: upper_digit_def of_char_of)
    note val = this
    show ?thesis
    proof
      assume "upper_digit m = upper_digit n"
      then have "(if m < 10 then 48 + m else 55 + m) = (if n < 10 then 48 + n else 55 + n)" using val by simp
      then show "m = n" using that by (simp split: if_splits)
    qed simp
  qed
  have small: "byte c div 16 < 16" "byte c mod 16 < 16" for c using byte_less [of c] by (simp_all add: less_mult_imp_div_less)
  have "hex2 a = hex2 b \<longleftrightarrow> byte a div 16 = byte b div 16 \<and> byte a mod 16 = byte b mod 16"
    using digit [OF small(1) small(1)] digit [OF small(2) small(2)] by (simp add: hex2_def)
  also have "\<dots> \<longleftrightarrow> byte a = byte b" by (metis mult_div_mod_eq)
  also have "\<dots> \<longleftrightarrow> a = b" by (simp add: byte_def)
  finally show ?thesis .
qed

lemma hex2_concat_inj:
  "length xs = length ys \<Longrightarrow> concat (map hex2 xs) = concat (map hex2 ys) \<Longrightarrow> xs = ys"
proof (induction xs ys rule: list_induct2)
  case (Cons x xs y ys)
  have "hex2 x @ concat (map hex2 xs) = hex2 y @ concat (map hex2 ys)" using Cons.prems by simp
  moreover have "length (hex2 x) = length (hex2 y)" by (simp add: hex2_def)
  ultimately show ?case using Cons.IH by (simp add: hex2_inj)
qed simp

text \<open>C7. Two waiting ONUs are never taken for one: whatever eight bytes they send, their serial numbers read the same only
  if they sent the same bytes; and a serial number, when there is one, is twelve printable characters.\<close>

theorem autofind_serial_faithful:
  assumes "formatAutofindSerial v \<noteq> []"
  shows "(formatAutofindSerial v = formatAutofindSerial w \<longrightarrow> text_of v = text_of w)
    \<and> length (formatAutofindSerial v) = 12 \<and> list_all printable (formatAutofindSerial v)"
proof -
  obtain raw where raw: "text_of v = Some raw" "length raw = 8" "list_all printable (take 4 raw)"
    "formatAutofindSerial v = take 4 raw @ concat (map hex2 (drop 4 raw))"
    using assms by (auto simp: formatAutofindSerial_def autofindSerialLen_def split: option.splits if_splits)
  have same: "text_of v = text_of w" if eq: "formatAutofindSerial v = formatAutofindSerial w"
  proof -
    obtain raw' where raw': "text_of w = Some raw'" "length raw' = 8"
      "formatAutofindSerial w = take 4 raw' @ concat (map hex2 (drop 4 raw'))"
      using assms eq by (auto simp: formatAutofindSerial_def autofindSerialLen_def split: option.splits if_splits)
    have "take 4 raw = take 4 raw'" "concat (map hex2 (drop 4 raw)) = concat (map hex2 (drop 4 raw'))"
      using eq raw(2,4) raw'(2,3) by simp_all
    then have "take 4 raw @ drop 4 raw = take 4 raw' @ drop 4 raw'"
      using hex2_concat_inj [of "drop 4 raw" "drop 4 raw'"] raw(2) raw'(2) by simp
    then show ?thesis using raw(1) raw'(1) by simp
  qed
  have two: "length (concat (map hex2 xs)) = 2 * length xs" for xs by (induction xs) (simp_all add: hex2_def)
  have digit: "printable (upper_digit n)" if "n < 16" for n
    using that by (simp add: printable_def byte_def upper_digit_def of_char_of)
  have "byte c div 16 < 16" "byte c mod 16 < 16" for c using byte_less [of c] by (simp_all add: less_mult_imp_div_less)
  then have "list_all printable (concat (map hex2 xs))" for xs by (induction xs) (simp_all add: hex2_def digit)
  then show ?thesis using same raw(2-4) two [of "drop 4 raw"] by (simp add: list_all_append)
qed

lemma autofind_serial_faithful_witness:
  "formatAutofindSerial (VBytes [CHR ''H'', CHR ''W'', CHR ''T'', CHR ''C'', CHR 0xB4, CHR 0x03, CHR 0xE8, CHR 0xA0]) = ''HWTCB403E8A0''
   \<and> length (formatAutofindSerial (VBytes [CHR ''H'', CHR ''W'', CHR ''T'', CHR ''C'', CHR 0xB4, CHR 0x03, CHR 0xE8, CHR 0xA0])) = 12"
proof -
  let ?v = "VBytes [CHR ''H'', CHR ''W'', CHR ''T'', CHR ''C'', CHR 0xB4, CHR 0x03, CHR 0xE8, CHR 0xA0]"
  have v: "formatAutofindSerial ?v = ''HWTCB403E8A0''" by code_simp
  then have "formatAutofindSerial ?v \<noteq> []" by simp
  from autofind_serial_faithful [OF this] v show ?thesis by blast
qed

text \<open>A power: no reading for the sentinels, otherwise what the sixteen bits mean as a signed number, in a range.\<close>

lemma power_range:
  assumes "0 \<le> raw" "raw < 65536"
  shows "(case decodeZxGponPower raw of None \<Rightarrow> raw = 65535 \<or> (30000 \<le> raw \<and> raw < 32768)
    | Some dbm \<Rightarrow> dbm = of_int (signed_take_bit 15 raw) * 0.002 - 30 \<and> - 95.54 < dbm \<and> dbm < 30)"
proof -
  have shift: "signed_take_bit 15 raw = (raw + 32768) mod 65536 - 32768"
    by (simp add: signed_take_bit_eq_take_bit_shift take_bit_eq_mod)
  show ?thesis
  proof (cases "raw < 32768")
    case True
    then have "signed_take_bit 15 raw = raw" using shift assms by simp
    then show ?thesis using True assms(1) by (simp add: decodeZxGponPower_def)
  next
    case False
    have "(1 * 65536 + (raw - 32768)) mod 65536 = raw - 32768" by (rule remainder_of) (use False assms in simp_all)
    moreover have "1 * 65536 + (raw - 32768) = raw + 32768" by simp
    ultimately have "(raw + 32768) mod 65536 = raw - 32768" by (simp only:)
    then have "signed_take_bit 15 raw = raw - 65536" using shift by simp
    moreover have "32768 \<le> real_of_int raw" using False by linarith
    ultimately show ?thesis using False assms(2) by (simp add: decodeZxGponPower_def field_simps)
  qed
qed

end
