(* ===== verification/Traps.thy ===== *)
theory Traps
  imports Worker SnmpParse
begin

text \<open>
  The SNMP traps (\<open>cmd/trapd\<close>): which OLT a packet is from and what it says (\<open>trap.go\<close>, \<open>main.go\<close>), the ONT it names
  (\<open>identity.go\<close>), the record kept of it (\<open>store.go\<close>) and the status it may set (\<open>apply.go\<close>).

  How \<open>fmt\<close> quotes a string (\<open>%q\<close>) is an argument; the value of a varbind that is neither octets nor a string is given
  as \<open>fmt\<close> prints it.
\<close>

section \<open>A packet\<close>

record Varbind =
  vb_OID :: string
  vb_Value :: string
  vb_Text :: string

record Trap =
  tr_OLTID :: uuid
  tr_Source :: string
  tr_OID :: string
  tr_Community :: string
  tr_Varbinds :: "Varbind list"

datatype pdu_value = Octets string | Text string | Printed string

record SnmpPDU =
  pdu_Name :: string
  pdu_Value :: pdu_value

record SnmpPacket =
  pk_Community :: string
  pk_Variables :: "SnmpPDU list"

definition snmpTrapOID :: string where "snmpTrapOID = ''.1.3.6.1.6.3.1.1.4.1.0''"

definition normaliseOID :: "string \<Rightarrow> string" where
  "normaliseOID oid = TrimPrefix oid ''.''"

definition hex_bytes :: "string \<Rightarrow> string" where
  "hex_bytes s = concat (map (\<lambda>c. [hex_digit ((of_char c :: nat) div 16), hex_digit ((of_char c :: nat) mod 16)]) s)"

definition renderValue :: "(string \<Rightarrow> string) \<Rightarrow> SnmpPDU \<Rightarrow> string \<times> string" where
  "renderValue quoted v =
     (case pdu_Value v of
        Octets text \<Rightarrow> (quoted text @ ''(hex:'' @ hex_bytes text @ '')'', text)
      | Text value \<Rightarrow> (value, value)
      | Printed value \<Rightarrow> (value, []))"

datatype trap_error = No_source | Unknown_source string | No_notification string

fun read_variables :: "(string \<Rightarrow> string) \<Rightarrow> SnmpPDU list \<Rightarrow> Trap \<Rightarrow> Trap" where
  "read_variables quoted [] trap = trap"
| "read_variables quoted (v # vs) trap =
     (case renderValue quoted v of
        (display, text) \<Rightarrow>
          if normaliseOID (pdu_Name v) = normaliseOID snmpTrapOID
          then read_variables quoted vs (trap\<lparr>tr_OID := display\<rparr>)
          else read_variables quoted vs
                 (trap\<lparr>tr_Varbinds := tr_Varbinds trap @ [\<lparr>vb_OID = pdu_Name v, vb_Value = display, vb_Text = text\<rparr>]\<rparr>))"

text \<open>The source is the address as \<open>IP.String\<close> prints it, if there is one.\<close>

definition parseTrap ::
  "(string \<Rightarrow> string) \<Rightarrow> SnmpPacket \<Rightarrow> string option \<Rightarrow> (string \<Rightarrow> uuid option) \<Rightarrow> trap_error + Trap" where
  "parseTrap quoted packet addr findOLT =
     (case addr of
        None \<Rightarrow> Inl No_source
      | Some source \<Rightarrow>
          (case findOLT source of
             None \<Rightarrow> Inl (Unknown_source source)
           | Some olt \<Rightarrow>
               let trap = read_variables quoted (pk_Variables packet)
                     \<lparr>tr_OLTID = olt, tr_Source = source, tr_OID = [], tr_Community = pk_Community packet, tr_Varbinds = []\<rparr>
               in if tr_OID trap = [] then Inl (No_notification source) else Inr trap))"

definition describe :: "Trap \<Rightarrow> string" where
  "describe trap = join_strings '' '' (map (\<lambda>vb. vb_OID vb @ ''='' @ vb_Value vb) (tr_Varbinds trap))"

section \<open>Which ONT it names\<close>

definition onuTrapTable :: string where "onuTrapTable = ''1.3.6.1.4.1.3902.1082.500.10.2.3.3.1''"
definition onuColumnName :: string where "onuColumnName = ''2''"
definition onuColumnLabel :: string where "onuColumnLabel = ''3''"
definition onuColumnSerial :: string where "onuColumnSerial = ''18''"

record onuIdentity =
  ou_SerialNumber :: string
  ou_Label :: string
  ou_Name :: string
  ou_IfIndex :: int
  ou_ONUID :: int

definition splitONUVarbind :: "string \<Rightarrow> (string \<times> int \<times> int) option" where
  "splitONUVarbind oid =
     (let trimmed = TrimPrefix oid ''.'' in
      if \<not> HasPrefix trimmed (onuTrapTable @ ''.'') then None
      else case Split (TrimPrefix trimmed (onuTrapTable @ ''.'')) CHR ''.'' of
             [column, index, onu] \<Rightarrow>
               (case ParseInt64 index of
                  None \<Rightarrow> None
                | Some i \<Rightarrow> (case ParseInt64 onu of None \<Rightarrow> None | Some n \<Rightarrow> Some (column, i, n)))
           | _ \<Rightarrow> None)"

definition trailingField :: "string \<Rightarrow> string" where
  "trailingField value = (if value = [] then [] else TrimSpace (last (Split value CHR '','')))"

definition no_identity :: onuIdentity where
  "no_identity = \<lparr>ou_SerialNumber = [], ou_Label = [], ou_Name = [], ou_IfIndex = 0, ou_ONUID = 0\<rparr>"

fun identify_from :: "Varbind list \<Rightarrow> onuIdentity \<Rightarrow> onuIdentity" where
  "identify_from [] d = d"
| "identify_from (vb # vbs) d =
     (case splitONUVarbind (vb_OID vb) of
        None \<Rightarrow> identify_from vbs d
      | Some (column, ifIndex, onuID) \<Rightarrow>
          let d = (if ou_IfIndex d = 0 then d\<lparr>ou_IfIndex := ifIndex, ou_ONUID := onuID\<rparr> else d);
              d = (if column = onuColumnSerial then d\<lparr>ou_SerialNumber := trailingField (vb_Text vb)\<rparr>
                   else if column = onuColumnLabel then d\<lparr>ou_Label := vb_Text vb\<rparr>
                   else if column = onuColumnName then d\<lparr>ou_Name := vb_Text vb\<rparr> else d)
          in identify_from vbs d)"

definition identify :: "Varbind list \<Rightarrow> onuIdentity" where
  "identify vbs = identify_from vbs no_identity"

section \<open>What it says\<close>

definition onuTrapFamily :: string where "onuTrapFamily = ''1.3.6.1.4.1.3902.1082.500.10.3.1.''"
definition eventLevelField :: string where "eventLevelField = ''eventLevel=''"

definition severityOf :: "string \<Rightarrow> string" where
  "severityOf community =
     (case find (\<lambda>field. HasPrefix field eventLevelField) (Split community CHR ''@'') of
        None \<Rightarrow> []
      | Some field \<Rightarrow> TrimPrefix field eventLevelField)"

definition trapStatus :: "string \<Rightarrow> string \<Rightarrow> string option" where
  "trapStatus oid community =
     (if \<not> HasPrefix (normaliseOID oid) onuTrapFamily then None
      else let severity = severityOf community in
           if severity = ''cleared'' then Some ONTStatusOnline
           else if severity = ''critical'' \<or> severity = ''major'' then Some ONTStatusOffline else None)"

definition worthWriting :: "string \<Rightarrow> string \<Rightarrow> bool" where
  "worthWriting current reported =
     (if reported = ONTStatusOnline then current \<noteq> ONTStatusOnline else current = ONTStatusOnline)"

definition apply_trap :: "time \<Rightarrow> Trap \<Rightarrow> onuIdentity \<Rightarrow> inventory \<Rightarrow> inventory" where
  "apply_trap now trap d s =
     (case trapStatus (tr_OID trap) (tr_Community trap) of
        None \<Rightarrow> s
      | Some status \<Rightarrow>
          if ou_SerialNumber d = [] then s
          else case min_row ont_ID (filter (\<lambda>t. ont_OLTID t = tr_OLTID trap \<and> ont_SerialNumber t = ou_SerialNumber d) (iv_onts s)) of
                 None \<Rightarrow> s
               | Some t \<Rightarrow>
                   if \<not> worthWriting (ont_Status t) status then s
                   else (case UpdateStatus now (ont_ID t) status s of
                           Inl e \<Rightarrow> s
                         | Inr s \<Rightarrow>
                             let eventType = (if status \<noteq> ONTStatusOnline then EventTypeOffline else EventTypeOnline) in
                             (case LogStatusChanges now [\<lparr>sc_ONTID = ont_ID t, sc_EventType = eventType, sc_Reason = status\<rparr>] (iv_events s) of
                                None \<Rightarrow> s
                              | Some evs \<Rightarrow> s\<lparr>iv_events := evs\<rparr>)))"

section \<open>The receiver\<close>

record ONTTrapEvent =
  te_OLTID :: uuid
  te_ReceivedAt :: time
  te_TrapOID :: string
  te_SourceAddress :: string
  te_Community :: string
  te_SerialNumber :: "string option"
  te_ONULabel :: "string option"
  te_ONUName :: "string option"
  te_IfIndex :: "int option"
  te_ONUID :: "int option"
  te_Varbinds :: string

record trapd =
  td_inv :: inventory
  td_events :: "ONTTrapEvent list"
  td_byIP :: "string \<Rightarrow> uuid option"

definition trap_event :: "time \<Rightarrow> Trap \<Rightarrow> ONTTrapEvent" where
  "trap_event now trap =
     (let d = identify (tr_Varbinds trap);
          given = (\<lambda>v. if v \<noteq> [] then Some v else None) in
      \<lparr>te_OLTID = tr_OLTID trap, te_ReceivedAt = now, te_TrapOID = tr_OID trap, te_SourceAddress = tr_Source trap,
       te_Community = tr_Community trap, te_SerialNumber = given (ou_SerialNumber d), te_ONULabel = given (ou_Label d),
       te_ONUName = given (ou_Name d), te_IfIndex = (if ou_IfIndex d \<noteq> 0 then Some (ou_IfIndex d) else None),
       te_ONUID = (if ou_IfIndex d \<noteq> 0 then Some (ou_ONUID d) else None), te_Varbinds = describe trap\<rparr>)"

text \<open>\<open>stored\<close> says whether the database took the row.\<close>

definition record_trap :: "bool \<Rightarrow> time \<Rightarrow> Trap \<Rightarrow> trapd \<Rightarrow> trapd" where
  "record_trap stored now trap td = (if stored then td\<lparr>td_events := td_events td @ [trap_event now trap]\<rparr> else td)"

definition refresh :: "trapd \<Rightarrow> trapd" where
  "refresh td = td\<lparr>td_byIP := fold (\<lambda>l m. m(olt_IPAddress l \<mapsto> olt_ID l)) (iv_olts (td_inv td)) Map.empty\<rparr>"

definition OnNewTrap :: "(string \<Rightarrow> string) \<Rightarrow> bool \<Rightarrow> time \<Rightarrow> SnmpPacket \<Rightarrow> string option \<Rightarrow> trapd \<Rightarrow> trapd" where
  "OnNewTrap quoted stored now packet addr td =
     (case parseTrap quoted packet addr (td_byIP td) of
        Inl e \<Rightarrow> td
      | Inr trap \<Rightarrow>
          let td = record_trap stored now trap td in
          td\<lparr>td_inv := apply_trap now trap (identify (tr_Varbinds trap)) (td_inv td)\<rparr>)"

section \<open>What a varbind names\<close>

definition onu_oid :: "string \<Rightarrow> nat \<Rightarrow> nat \<Rightarrow> string" where
  "onu_oid column i n = onuTrapTable @ ''.'' @ column @ ''.'' @ dec i @ ''.'' @ dec n"

lemma splitONUVarbind_onu_oid:
  assumes "CHR ''.'' \<notin> set column" "i < 2 ^ 63" "n < 2 ^ 63" "dot = [] \<or> dot = ''.''"
  shows "splitONUVarbind (dot @ onu_oid column i n) = Some (column, int i, int n)"
proof -
  have "CHR ''.'' \<notin> set (dec i)" "CHR ''.'' \<notin> set (dec n)" by (simp_all add: not_digit_dec is_digit_iff)
  then have parts: "Split (column @ CHR ''.'' # dec i @ CHR ''.'' # dec n) CHR ''.'' = [column, dec i, dec n]"
    using assms(1) by (simp add: Split_append Split_no_sep)
  let ?r = "column @ CHR ''.'' # dec i @ CHR ''.'' # dec n"
  have trim: "TrimPrefix (dot @ onu_oid column i n) ''.'' = (onuTrapTable @ ''.'') @ ?r"
    using assms(4) by (auto simp: onu_oid_def onuTrapTable_def)
  have "HasPrefix ((onuTrapTable @ ''.'') @ ?r) (onuTrapTable @ ''.'')"
    "TrimPrefix ((onuTrapTable @ ''.'') @ ?r) (onuTrapTable @ ''.'') = ?r"
    by (rule HasPrefix_append TrimPrefix_append)+
  then show ?thesis
    using assms(2,3) by (simp only: splitONUVarbind_def Let_def trim parts) (simp add: ParseInt64_dec)
qed

lemma identify_from_filter:
  "identify_from vbs d = identify_from (filter (\<lambda>vb. splitONUVarbind (vb_OID vb) \<noteq> None) vbs) d"
  by (induction vbs arbitrary: d) (auto split: option.splits)

lemma three_orders:
  assumes "mset xs = {#a, b, c#}"
  shows "xs \<in> {[a, b, c], [a, c, b], [b, a, c], [b, c, a], [c, a, b], [c, b, a]}"
proof -
  have "length xs = 3" using arg_cong [OF assms, of size] by simp
  then obtain x y z where "xs = [x, y, z]" by (auto simp: numeral_3_eq_3 length_Suc_conv)
  then show ?thesis using assms by (auto simp: add_eq_conv_diff split: if_splits)
qed

lemma trailingField_value:
  "CHR '','' \<notin> set serial \<Longrightarrow> TrimSpace serial = serial \<Longrightarrow> trailingField (mode @ '','' @ serial) = serial"
  by (simp add: trailingField_def last_field)

text \<open>C8. The identity of a trap is read back whatever the agent adds and in whatever order it writes: if the varbinds
  under the ONU table are the serial number behind its mode, the label and the name of one interface and number, in any
  order and among any others, with or without a leading dot, exactly these are read.\<close>

theorem identity_read_back:
  assumes "mset (filter (\<lambda>vb. splitONUVarbind (vb_OID vb) \<noteq> None) vbs) =
      {# \<lparr>vb_OID = dot1 @ onu_oid onuColumnSerial i n, vb_Value = v1, vb_Text = mode @ '','' @ serial\<rparr>,
         \<lparr>vb_OID = dot2 @ onu_oid onuColumnLabel i n, vb_Value = v2, vb_Text = label\<rparr>,
         \<lparr>vb_OID = dot3 @ onu_oid onuColumnName i n, vb_Value = v3, vb_Text = name\<rparr> #}"
    and "dot1 \<in> {[], ''.''}" "dot2 \<in> {[], ''.''}" "dot3 \<in> {[], ''.''}"
    and "0 < i" "i < 2 ^ 63" "n < 2 ^ 63" "CHR '','' \<notin> set serial" "TrimSpace serial = serial"
  shows "identify vbs =
     \<lparr>ou_SerialNumber = serial, ou_Label = label, ou_Name = name, ou_IfIndex = int i, ou_ONUID = int n\<rparr>"
proof -
  have split: "splitONUVarbind (dot1 @ onu_oid onuColumnSerial i n) = Some (onuColumnSerial, int i, int n)"
    "splitONUVarbind (dot2 @ onu_oid onuColumnLabel i n) = Some (onuColumnLabel, int i, int n)"
    "splitONUVarbind (dot3 @ onu_oid onuColumnName i n) = Some (onuColumnName, int i, int n)"
    using assms(2-7) by (auto intro!: splitONUVarbind_onu_oid simp: onuColumnSerial_def onuColumnLabel_def onuColumnName_def)
  show ?thesis
    using three_orders [OF assms(1)] split assms(5) trailingField_value [OF assms(8,9), of mode]
    unfolding identify_def identify_from_filter [of vbs]
    by (auto simp: no_identity_def onuColumnSerial_def onuColumnLabel_def onuColumnName_def)
qed

section \<open>What a trap does to a row\<close>

text \<open>The trap may speak for the row.\<close>

definition names_row :: "Trap \<Rightarrow> onuIdentity \<Rightarrow> ONT \<Rightarrow> bool" where
  "names_row trap d t \<longleftrightarrow> ont_OLTID t = tr_OLTID trap \<and> ou_SerialNumber d \<noteq> [] \<and> ont_SerialNumber t = ou_SerialNumber d"

lemma one_named:
  assumes "onts_ok ts" "t \<in> set ts" "names_row trap d t"
  shows "min_row ont_ID (filter (\<lambda>t. ont_OLTID t = tr_OLTID trap \<and> ont_SerialNumber t = ou_SerialNumber d) ts) = Some t"
    and "\<And>b. b \<in> set ts \<Longrightarrow> names_row trap d b \<Longrightarrow> b = t"
proof -
  have srt: "sorted_wrt onts_apart ts" using assms(1) by (simp add: onts_ok_def)
  have same: "b = t" if "b \<in> set ts" "names_row trap d b" for b
  proof (rule ccontr)
    assume "b \<noteq> t"
    then have "ont_ID b \<noteq> ont_ID t" using distinct_key_unique [OF apart_unique [OF srt] that(1) assms(2)] by blast
    then show False using apart_pair [OF srt that(1) assms(2)] that(2) assms(3) by (auto simp: onts_apart_def index_clash_def names_row_def)
  qed
  then show "\<And>b. b \<in> set ts \<Longrightarrow> names_row trap d b \<Longrightarrow> b = t" .
  let ?P = "\<lambda>t. ont_OLTID t = tr_OLTID trap \<and> ont_SerialNumber t = ou_SerialNumber d"
  have P: "?P b \<longleftrightarrow> names_row trap d b" for b using assms(3) by (auto simp: names_row_def)
  obtain u where u: "min_row ont_ID (filter ?P ts) = Some u"
    using assms(2,3) P by (cases "min_row ont_ID (filter ?P ts)") (auto simp: filter_empty_conv)
  then have "u \<in> set ts" "?P u" using min_row_mem [OF u] by auto
  then show "min_row ont_ID (filter ?P ts) = Some t" using u same P by auto
qed

lemma none_named:
  assumes "\<forall>t \<in> set ts. \<not> names_row trap d t" "ou_SerialNumber d \<noteq> []"
  shows "min_row ont_ID (filter (\<lambda>t. ont_OLTID t = tr_OLTID trap \<and> ont_SerialNumber t = ou_SerialNumber d) ts) = None"
  using assms by (auto simp: names_row_def filter_empty_conv)

lemma map_fixes: "map f xs = xs \<Longrightarrow> x \<in> set xs \<Longrightarrow> f x = x"
  by (induction xs) auto

definition trap_verdict :: "time \<Rightarrow> Trap \<Rightarrow> onuIdentity \<Rightarrow> ONT \<Rightarrow> ONT" where
  "trap_verdict now trap d t =
     (case trapStatus (tr_OID trap) (tr_Community trap) of
        None \<Rightarrow> t
      | Some st \<Rightarrow> if names_row trap d t \<and> worthWriting (ont_Status t) st then set_columns (status_columns now st) t else t)"

lemma apply_trap_rows:
  assumes "inventory_ok s"
  shows "iv_onts (apply_trap now trap d s) = map (trap_verdict now trap d) (iv_onts s)
    \<and> inventory_ok (apply_trap now trap d s)
    \<and> iv_olts (apply_trap now trap d s) = iv_olts s \<and> iv_metrics (apply_trap now trap d s) = iv_metrics s"
proof (cases "trapStatus (tr_OID trap) (tr_Community trap)")
  case None
  have "trap_verdict now trap d t = t" for t by (simp add: trap_verdict_def None)
  then show ?thesis using assms None by (simp add: apply_trap_def map_idI)
next
  case (Some st)
  note onts = inventory_onts_ok [OF assms]
  note ids = inventory_distinct [OF assms]
  show ?thesis
  proof (cases "\<exists>t \<in> set (iv_onts s). names_row trap d t \<and> worthWriting (ont_Status t) st")
    case False
    have "apply_trap now trap d s = s"
    proof (cases "\<exists>t \<in> set (iv_onts s). names_row trap d t")
      case True
      then obtain t where t: "t \<in> set (iv_onts s)" "names_row trap d t" by blast
      then show ?thesis using False one_named(1) [OF onts t] by (simp add: apply_trap_def Some)
    next
      case nobody: False
      then show ?thesis using none_named [of "iv_onts s" trap d] by (simp add: apply_trap_def Some)
    qed
    then show ?thesis using False assms by (auto simp: trap_verdict_def Some intro!: map_idI [symmetric])
  next
    case True
    then obtain t where t: "t \<in> set (iv_onts s)" "names_row trap d t" "worthWriting (ont_Status t) st" by blast
    let ?u = "set_columns (status_columns now st) t" and ?ty = "if st \<noteq> ONTStatusOnline then EventTypeOffline else EventTypeOnline"
    let ?c = "\<lparr>sc_ONTID = ont_ID t, sc_EventType = ?ty, sc_Reason = st\<rparr>"
    let ?s1 = "s\<lparr>iv_onts := put_row ?u (iv_onts s)\<rparr>"
    have upd: "UpdateStatus now (ont_ID t) st s = Inr ?s1"
    proof -
      have k: "kept s (UpdateStatus now (ont_ID t) st s) = ?s1"
        unfolding UpdateStatus_def by (rule write_ont_unmoved [OF onts t(1)]) simp_all
      have moved: "?u \<noteq> t" using t(3) by (auto simp: worthWriting_def status_columns_def split: if_splits dest: arg_cong [of _ _ ont_Status])
      have "put_row ?u (iv_onts s) \<noteq> iv_onts s"
      proof
        assume "put_row ?u (iv_onts s) = iv_onts s"
        from map_fixes [OF this [unfolded put_row_def] t(1)] show False using moved by simp
      qed
      then have "?s1 \<noteq> s" by (auto dest: arg_cong [of _ _ iv_onts])
      then show ?thesis using k by (auto simp: kept_def split: sum.splits)
    qed
    have ok1: "inventory_ok ?s1" by (rule UpdateStatus_ok [OF assms upd])
    define evs where "evs = (case LogStatusChanges now [?c] (iv_events s) of None \<Rightarrow> iv_events s | Some evs \<Rightarrow> evs)"
    have run: "apply_trap now trap d s = ?s1\<lparr>iv_events := evs\<rparr>"
      using one_named(1) [OF onts t(1,2)] t(2,3) upd
      by (auto simp: apply_trap_def Some names_row_def evs_def Let_def split: option.splits)
    have "set (map ont_ID (iv_onts ?s1)) = set (map ont_ID (iv_onts s))" by simp
    then have ids1: "ont_ID ` set (iv_onts ?s1) = ont_ID ` set (iv_onts s)" unfolding set_map .
    have known: "ev_ONTID ` set (iv_events s) \<subseteq> ont_ID ` set (iv_onts s)" using assms by (simp add: inventory_ok_def)
    have "ev_ONTID ` set evs \<subseteq> ont_ID ` set (iv_onts ?s1)"
    proof (cases "LogStatusChanges now [?c] (iv_events s)")
      case None
      then show ?thesis using known unfolding ids1 by (simp add: evs_def)
    next
      case (Some es)
      have "sc_ONTID ` set [?c] \<subseteq> ont_ID ` set (iv_onts s)" using t(1) by simp
      from subset_trans [OF LogStatusChanges_onts [OF Some] Un_least [OF known this]]
      show ?thesis unfolding ids1 by (simp add: evs_def Some)
    qed
    then have "inventory_ok (apply_trap now trap d s)" using ok1 by (simp add: run inventory_ok_def)
    moreover have "put_row ?u (iv_onts s) = map (trap_verdict now trap d) (iv_onts s)"
    proof -
      have "(if x = t then ?u else x) = trap_verdict now trap d x" if x: "x \<in> set (iv_onts s)" for x
      proof (cases "x = t")
        case True
        then show ?thesis using t(2,3) by (simp add: trap_verdict_def Some)
      next
        case False
        then have "\<not> names_row trap d x" using one_named(2) [OF onts t(1,2) x] by blast
        then show ?thesis using False by (simp add: trap_verdict_def Some)
      qed
      moreover have "put_row ?u (iv_onts s) = map (\<lambda>x. if x = t then ?u else x) (iv_onts s)"
        by (rule put_row_as_map [OF ids t(1)]) simp
      ultimately show ?thesis by simp
    qed
    ultimately show ?thesis by (simp add: run)
  qed
qed
lemma read_variables_source [simp]:
  "tr_OLTID (read_variables quoted vs trap) = tr_OLTID trap" "tr_Source (read_variables quoted vs trap) = tr_Source trap"
  "tr_Community (read_variables quoted vs trap) = tr_Community trap"
  by (induction vs arbitrary: trap) (simp_all split: prod.split)

lemma parseTrap_source:
  assumes "parseTrap quoted packet addr findOLT = Inr trap"
  shows "addr = Some (tr_Source trap)" "findOLT (tr_Source trap) = Some (tr_OLTID trap)"
    "tr_Community trap = pk_Community packet" "tr_OID trap \<noteq> []"
  using assms by (auto simp: parseTrap_def Let_def split: option.splits if_splits)

lemma OnNewTrap_rows:
  assumes "inventory_ok (td_inv td)" "parseTrap quoted packet addr (td_byIP td) = Inr trap"
  shows "iv_onts (td_inv (OnNewTrap quoted stored now packet addr td)) =
      map (trap_verdict now trap (identify (tr_Varbinds trap))) (iv_onts (td_inv td))
    \<and> inventory_ok (td_inv (OnNewTrap quoted stored now packet addr td))
    \<and> td_byIP (OnNewTrap quoted stored now packet addr td) = td_byIP td"
  using apply_trap_rows [OF assms(1), of now trap "identify (tr_Varbinds trap)"]
  by (simp add: OnNewTrap_def assms(2) Let_def record_trap_def)

lemma trap_verdict_cases:
  "trap_verdict now trap d t =
     (if HasPrefix (normaliseOID (tr_OID trap)) onuTrapFamily \<and> names_row trap d t
      then if severityOf (tr_Community trap) = ''cleared'' \<and> ont_Status t \<noteq> ONTStatusOnline
           then set_columns (status_columns now ONTStatusOnline) t
           else if severityOf (tr_Community trap) \<in> {''critical'', ''major''} \<and> ont_Status t = ONTStatusOnline
           then set_columns (status_columns now ONTStatusOffline) t else t
      else t)"
  by (auto simp: trap_verdict_def trapStatus_def worthWriting_def Let_def ont_status_defs)

lemma trap_verdict_again: "trap_verdict later trap d (trap_verdict now trap d t) = trap_verdict now trap d t"
  by (auto simp: trap_verdict_cases names_row_def ont_status_defs)

text \<open>C1. What a trap does, exactly: of all the rows only the one of the OLT the packet came from that carries the
  serial number the packet names is written, and only if the notification is about an ONU; a cleared alarm makes it online
  unless it already is, a critical or major one makes it offline only while it is online, so a more specific outage is never
  written over, and any other severity does nothing. The same packet again changes no row.\<close>

theorem trap_verdict_exact:
  assumes "inventory_ok (td_inv td)" "parseTrap quoted packet addr (td_byIP td) = Inr trap"
    and "td' = OnNewTrap quoted stored now packet addr td"
  shows "iv_onts (td_inv td') =
      map (\<lambda>t. if HasPrefix (normaliseOID (tr_OID trap)) onuTrapFamily \<and> ont_OLTID t = tr_OLTID trap
                   \<and> ou_SerialNumber (identify (tr_Varbinds trap)) \<noteq> []
                   \<and> ont_SerialNumber t = ou_SerialNumber (identify (tr_Varbinds trap))
                then if severityOf (pk_Community packet) = ''cleared'' \<and> ont_Status t \<noteq> ONTStatusOnline
                     then set_columns (status_columns now ONTStatusOnline) t
                     else if severityOf (pk_Community packet) \<in> {''critical'', ''major''} \<and> ont_Status t = ONTStatusOnline
                     then set_columns (status_columns now ONTStatusOffline) t else t
                else t) (iv_onts (td_inv td))
    \<and> iv_onts (td_inv (OnNewTrap quoted stored' later packet addr td')) = iv_onts (td_inv td')"
proof -
  let ?d = "identify (tr_Varbinds trap)"
  note once = OnNewTrap_rows [OF assms(1,2), of stored now]
  have "parseTrap quoted packet addr (td_byIP td') = Inr trap" "inventory_ok (td_inv td')"
    using once assms(2) by (simp_all add: assms(3))
  from OnNewTrap_rows [OF this(2,1), of stored' later]
  have "iv_onts (td_inv (OnNewTrap quoted stored' later packet addr td')) = iv_onts (td_inv td')"
    using once by (simp add: assms(3) trap_verdict_again)
  moreover have "iv_onts (td_inv td') = map (trap_verdict now trap ?d) (iv_onts (td_inv td))" using once by (simp add: assms(3))
  ultimately show ?thesis
    by (simp add: trap_verdict_cases names_row_def parseTrap_source(3) [OF assms(2)] conj_assoc cong: if_cong)
qed

text \<open>A trap speaks for one ONT at most, and only for one of its sender: whatever the packet holds, every row but one is
  as it was, that one hangs off the OLT whose address sent the packet, and its status moves between online and not online;
  a packet from any other address changes nothing at all. The inventory stays consistent.\<close>

theorem trap_speaks_for_its_sender:
  assumes "inventory_ok (td_inv td)"
  shows "let td' = OnNewTrap quoted stored now packet addr td in
     inventory_ok (td_inv td')
     \<and> ((case addr of None \<Rightarrow> True | Some source \<Rightarrow> td_byIP td source = None) \<longrightarrow> td' = td)
     \<and> (\<exists>i. list_all2 (\<lambda>t t'. t' = t
             \<or> (ont_ID t = i \<and> pid t' = pid t \<and> (ont_Status t' = ONTStatusOnline) \<noteq> (ont_Status t = ONTStatusOnline)
                \<and> (\<exists>source. addr = Some source \<and> td_byIP td source = Some (ont_OLTID t))))
           (iv_onts (td_inv td)) (iv_onts (td_inv td')))"
proof (cases "parseTrap quoted packet addr (td_byIP td)")
  case (Inl e)
  then have "OnNewTrap quoted stored now packet addr td = td" by (simp add: OnNewTrap_def)
  then show ?thesis using assms by (simp add: list_all2_same)
next
  case (Inr trap)
  let ?d = "identify (tr_Varbinds trap)" and ?ts = "iv_onts (td_inv td)"
  note rows = OnNewTrap_rows [OF assms Inr, of stored now] and src = parseTrap_source [OF Inr]
  obtain i where i: "\<forall>t \<in> set ?ts. names_row trap ?d t \<longrightarrow> ont_ID t = i"
    using one_named(2) [OF inventory_onts_ok [OF assms]] by metis
  have "trap_verdict now trap ?d t = t
      \<or> (ont_ID t = i \<and> pid (trap_verdict now trap ?d t) = pid t
         \<and> (ont_Status (trap_verdict now trap ?d t) = ONTStatusOnline) \<noteq> (ont_Status t = ONTStatusOnline)
         \<and> (\<exists>source. addr = Some source \<and> td_byIP td source = Some (ont_OLTID t)))" if t: "t \<in> set ?ts" for t
  proof (cases "names_row trap ?d t")
    case True
    then show ?thesis
      using i t src(1,2) by (auto simp: trap_verdict_cases names_row_def pid_def ont_status_defs)
  next
    case False
    then show ?thesis by (simp add: trap_verdict_cases)
  qed
  then show ?thesis
    using rows src(1,2) by (auto simp: Let_def list_all2_map2 list_all2_same intro!: exI [of _ i])
qed
section \<open>Witnesses\<close>

definition sample_varbinds :: "Varbind list" where
  "sample_varbinds =
     [\<lparr>vb_OID = ''.'' @ onu_oid onuColumnLabel 285 5, vb_Value = ''ONU-3:5'', vb_Text = ''ONU-3:5''\<rparr>,
      \<lparr>vb_OID = ''.1.3.6.1.2.1.1.3.0'', vb_Value = ''17'', vb_Text = []\<rparr>,
      \<lparr>vb_OID = ''.'' @ onu_oid onuColumnSerial 285 5, vb_Value = ''1,ZTEG12'', vb_Text = ''1,ZTEG12''\<rparr>,
      \<lparr>vb_OID = onu_oid onuColumnName 285 5, vb_Value = ''rumah'', vb_Text = ''rumah''\<rparr>]"

lemma identity_read_back_witness:
  "identify sample_varbinds =
     \<lparr>ou_SerialNumber = ''ZTEG12'', ou_Label = ''ONU-3:5'', ou_Name = ''rumah'', ou_IfIndex = int 285, ou_ONUID = int 5\<rparr>"
proof -
  let ?vbs = "[\<lparr>vb_OID = ''.'' @ onu_oid onuColumnLabel 285 5, vb_Value = ''ONU-3:5'', vb_Text = ''ONU-3:5''\<rparr>,
      \<lparr>vb_OID = ''.'' @ onu_oid onuColumnSerial 285 5, vb_Value = ''1,ZTEG12'', vb_Text = ''1'' @ '','' @ ''ZTEG12''\<rparr>,
      \<lparr>vb_OID = [] @ onu_oid onuColumnName 285 5, vb_Value = ''rumah'', vb_Text = ''rumah''\<rparr>]"
  have vbs: "filter (\<lambda>vb. splitONUVarbind (vb_OID vb) \<noteq> None) sample_varbinds = ?vbs" by code_simp
  show ?thesis
  proof (rule identity_read_back)
    show "mset (filter (\<lambda>vb. splitONUVarbind (vb_OID vb) \<noteq> None) sample_varbinds) =
      {# \<lparr>vb_OID = ''.'' @ onu_oid onuColumnSerial 285 5, vb_Value = ''1,ZTEG12'', vb_Text = ''1'' @ '','' @ ''ZTEG12''\<rparr>,
         \<lparr>vb_OID = ''.'' @ onu_oid onuColumnLabel 285 5, vb_Value = ''ONU-3:5'', vb_Text = ''ONU-3:5''\<rparr>,
         \<lparr>vb_OID = [] @ onu_oid onuColumnName 285 5, vb_Value = ''rumah'', vb_Text = ''rumah''\<rparr> #}"
      unfolding vbs by simp
    show "TrimSpace ''ZTEG12'' = ''ZTEG12''" by code_simp
  qed simp_all
qed

definition sample_trapd :: trapd where
  "sample_trapd = refresh \<lparr>td_inv = polled_inventory, td_events = [], td_byIP = Map.empty\<rparr>"

definition sample_packet :: SnmpPacket where
  "sample_packet = \<lparr>pk_Community = ''public@eventId=40366@eventLevel=major@confirm'',
     pk_Variables = [\<lparr>pdu_Name = snmpTrapOID, pdu_Value = Text ''.1.3.6.1.4.1.3902.1082.500.10.3.1.1''\<rparr>,
                     \<lparr>pdu_Name = ''.'' @ onu_oid onuColumnSerial 285 5, pdu_Value = Octets ''1,ZTEG12''\<rparr>]\<rparr>"

lemma sample_trap:
  "\<exists>trap. parseTrap (\<lambda>s. s) sample_packet (Some ''10.0.0.2'') (td_byIP sample_trapd) = Inr trap
     \<and> tr_OLTID trap = 7 \<and> HasPrefix (normaliseOID (tr_OID trap)) onuTrapFamily
     \<and> ou_SerialNumber (identify (tr_Varbinds trap)) = ''ZTEG12''"
proof -
  have "td_byIP sample_trapd ''10.0.0.2'' = Some 7" by (simp add: sample_trapd_def refresh_def sample_defs)
  then have "parseTrap (\<lambda>s. s) sample_packet (Some ''10.0.0.2'') (td_byIP sample_trapd) =
      parseTrap (\<lambda>s. s) sample_packet (Some ''10.0.0.2'') (\<lambda>_. Some 7)" by (simp add: parseTrap_def)
  moreover have "(case parseTrap (\<lambda>s. s) sample_packet (Some ''10.0.0.2'') (\<lambda>_. Some 7) of
      Inl e \<Rightarrow> False | Inr trap \<Rightarrow> tr_OLTID trap = 7 \<and> HasPrefix (normaliseOID (tr_OID trap)) onuTrapFamily
        \<and> ou_SerialNumber (identify (tr_Varbinds trap)) = ''ZTEG12'')" by code_simp
  ultimately show ?thesis by (auto split: sum.splits)
qed

lemma sample_trapd_ok: "inventory_ok (td_inv sample_trapd)"
  using polled_inventory_ok by (simp add: sample_trapd_def refresh_def)

lemma trap_verdict_exact_witness:
  "map ont_Status (iv_onts (td_inv (OnNewTrap (\<lambda>s. s) True 60 sample_packet (Some ''10.0.0.2'') sample_trapd))) = [''offline'']"
proof -
  obtain trap where trap: "parseTrap (\<lambda>s. s) sample_packet (Some ''10.0.0.2'') (td_byIP sample_trapd) = Inr trap"
    "tr_OLTID trap = 7" "HasPrefix (normaliseOID (tr_OID trap)) onuTrapFamily"
    "ou_SerialNumber (identify (tr_Varbinds trap)) = ''ZTEG12''"
    using sample_trap by blast
  have severity: "severityOf (pk_Community sample_packet) = ''major''" by code_simp
  have row: "iv_onts (td_inv sample_trapd) = [sample_row]" "ont_Status sample_row = ONTStatusOnline"
    "ont_OLTID sample_row = 7" "ont_SerialNumber sample_row = ''ZTEG12''"
    by (simp_all add: sample_trapd_def refresh_def sample_defs StatusMap_def ont_status_defs)
  show ?thesis
    using trap_verdict_exact [OF sample_trapd_ok trap(1) refl, of True 60] trap(2-4) severity row
    by (simp add: ont_status_defs)
qed

lemma trap_speaks_for_its_sender_witness:
  "OnNewTrap (\<lambda>s. s) True 60 sample_packet (Some ''10.9.9.9'') sample_trapd = sample_trapd"
  using trap_speaks_for_its_sender [OF sample_trapd_ok, of "\<lambda>s. s" True 60 sample_packet "Some ''10.9.9.9''"]
  by (simp add: Let_def sample_trapd_def refresh_def sample_defs)

end
