(* ===== verification/SnmpDrivers.thy ===== *)
theory SnmpDrivers
  imports OltDiscovery SnmpParse "HOL-Library.AList"
begin

text \<open>
  The SNMP drivers (\<open>connectivity/driver_zte.go\<close>, \<open>driver_hsgq.go\<close>): the walks and batched reads a ZTE chassis is read with
  (\<open>snmp_metrics_walk.go\<close>, \<open>snmp_metrics_table.go\<close>, \<open>snmp_traffic_rates.go\<close>, \<open>zte_metrics_get.go\<close>, \<open>zte_status_get.go\<close>,
  \<open>zte_inventory_get.go\<close>, \<open>snmp_metrics_single.go\<close>, \<open>snmp_walk_uncfg.go\<close>, \<open>snmp_bulkwalk.go\<close>), those of an HSGQ one, and the
  driver of \<open>OltDiscovery\<close> each of them is.

  The agent is a parameter: whether a client can be made, the rows a walk hands over and whether it ended without an error,
  and the values of a read in the order they were asked for (\<open>None\<close> for one it does not hold, no list at all when the read
  fails). A Go map is an association list with distinct keys. A scan's deadline is the answer of \<open>ctx.Err\<close> after a walk.
\<close>

record agent =
  ag_up :: bool
  ag_BulkWalk :: "string \<Rightarrow> (string \<times> snmp_value) list \<times> bool"
  ag_Walk :: "string \<Rightarrow> (string \<times> snmp_value) list \<times> bool"
  ag_Get :: "string list \<Rightarrow> snmp_value option list option"

text \<open>An agent that refuses GETBULK is walked again from the start; the rows it had handed over stay counted.\<close>

definition bulkWalk :: "agent \<Rightarrow> string \<Rightarrow> (string \<times> snmp_value) list \<times> bool" where
  "bulkWalk ag oid =
     (case ag_BulkWalk ag oid of
        (rows, True) \<Rightarrow> (rows, True)
      | (rows, False) \<Rightarrow> (case ag_Walk ag oid of (again, ok) \<Rightarrow> (rows @ again, ok)))"

text \<open>\<open>m[k] = f(m[k])\<close>, the zero value standing for a missing entry.\<close>

definition alter :: "'v \<Rightarrow> 'k \<Rightarrow> ('v \<Rightarrow> 'v) \<Rightarrow> ('k \<times> 'v) list \<Rightarrow> ('k \<times> 'v) list" where
  "alter zero k f m = AList.update k (f (case map_of m k of None \<Rightarrow> zero | Some v \<Rightarrow> v)) m"

section \<open>The tables of a ZTE chassis\<close>

definition BaseOID1 :: string where "BaseOID1 = ''.1.3.6.1.4.1.3902.1082''"
definition BaseOID2 :: string where "BaseOID2 = ''.1.3.6.1.4.1.3902.1012''"

definition OnuIDNamePrefix :: string where "OnuIDNamePrefix = ''.3.28.1.1.2''"
definition OnuDescriptionPrefix :: string where "OnuDescriptionPrefix = ''.3.28.1.1.3''"
definition OnuSerialNumberPrefix :: string where "OnuSerialNumberPrefix = ''.500.10.2.3.3.1.18''"
definition OnuTypePrefix :: string where "OnuTypePrefix = ''.3.28.1.1.5''"
definition OnuHardwareVersionPrefix :: string where "OnuHardwareVersionPrefix = ''.3.50.11.2.1.2''"
definition OnuIPAddressPrefix :: string where "OnuIPAddressPrefix = ''.3.50.16.1.1.10''"
definition OnuMACAddressPrefix :: string where "OnuMACAddressPrefix = ''.3.50.16.1.1.3''"
definition OnuUncfgSerialNumberPrefix :: string where "OnuUncfgSerialNumberPrefix = ''.3.13.3.1.2''"
definition OnuUncfgDeviceTypePrefix :: string where "OnuUncfgDeviceTypePrefix = ''.3.13.3.1.10''"
definition OnuUncfgSoftwareVerPrefix :: string where "OnuUncfgSoftwareVerPrefix = ''.3.13.3.1.11''"

definition phase_state_table :: string where "phase_state_table = BaseOID2 @ ''.3.28.2.1.4''"
definition rx_power_table :: string where "rx_power_table = BaseOID2 @ ''.3.50.12.1.1.10''"
definition tx_power_table :: string where "tx_power_table = BaseOID2 @ ''.3.50.12.1.1.14''"
definition distance_table :: string where "distance_table = BaseOID2 @ ''.3.11.4.1.2''"
definition temperature_table :: string where "temperature_table = BaseOID2 @ ''.3.50.12.1.1.1''"
definition voltage_table :: string where "voltage_table = BaseOID2 @ ''.3.50.12.1.1.2''"
definition bias_table :: string where "bias_table = BaseOID2 @ ''.3.50.12.1.1.3''"
definition equipment_table :: string where "equipment_table = BaseOID2 @ ''.3.50.11.2.1.9''"
definition rx_rate_table :: string where "rx_rate_table = BaseOID1 @ ''.500.4.2.2.2.1.3''"
definition tx_rate_table :: string where "tx_rate_table = BaseOID1 @ ''.500.4.2.2.2.1.46''"
definition rx_octets_table :: string where "rx_octets_table = BaseOID1 @ ''.500.4.2.2.2.1.1''"
definition tx_octets_table :: string where "tx_octets_table = BaseOID1 @ ''.500.4.2.2.2.1.44''"
definition rx_packets_table :: string where "rx_packets_table = BaseOID1 @ ''.500.4.2.2.2.1.2''"
definition tx_packets_table :: string where "tx_packets_table = BaseOID1 @ ''.500.4.2.2.2.1.45''"

section \<open>Walks\<close>

definition visit_status :: "string \<times> snmp_value \<Rightarrow> (ONTLocation \<times> int) list \<Rightarrow> (ONTLocation \<times> int) list" where
  "visit_status pdu statuses =
     (case parseZxGponSuffix (fst pdu) phase_state_table of
        None \<Rightarrow> statuses
      | Some loc \<Rightarrow>
          (case toInt64 (snd pdu) of
             None \<Rightarrow> statuses
           | Some v \<Rightarrow> if v \<ge> 30000 then statuses else AList.update loc v statuses))"

definition zteWalkStatuses :: "agent \<Rightarrow> (ONTLocation \<times> int) list option" where
  "zteWalkStatuses ag =
     (if \<not> ag_up ag then None
      else case bulkWalk ag phase_state_table of
             (rows, ok) \<Rightarrow> let statuses = fold visit_status rows [] in if ok then Some statuses else None)"

definition visit_metric :: "string \<Rightarrow> (int \<Rightarrow> 'a) \<Rightarrow> string \<times> snmp_value \<Rightarrow> (ONTLocation \<times> 'a) list \<Rightarrow> (ONTLocation \<times> 'a) list" where
  "visit_metric base mapper pdu results =
     (case parseZxGponSuffix (fst pdu) base of
        None \<Rightarrow> results
      | Some loc \<Rightarrow>
          (case toInt64 (snd pdu) of
             None \<Rightarrow> results
           | Some v \<Rightarrow> if v \<ge> 30000 then results else AList.update loc (mapper v) results))"

definition walkONTMetricTable :: "agent \<Rightarrow> string \<Rightarrow> (int \<Rightarrow> 'a) \<Rightarrow> (ONTLocation \<times> 'a) list option" where
  "walkONTMetricTable ag base mapper =
     (if \<not> ag_up ag then None
      else case bulkWalk ag base of
             (rows, ok) \<Rightarrow> let results = fold (visit_metric base mapper) rows [] in if ok then Some results else None)"

definition visit_string :: "string \<Rightarrow> string \<times> snmp_value \<Rightarrow> (ONTLocation \<times> string) list \<Rightarrow> (ONTLocation \<times> string) list" where
  "visit_string base pdu results =
     (case parseZxGponSuffix (fst pdu) base of
        None \<Rightarrow> results
      | Some loc \<Rightarrow>
          (case text_of (snd pdu) of
             None \<Rightarrow> results
           | Some v \<Rightarrow> let v = TrimSpace v in if v \<noteq> [] then AList.update loc v results else results))"

definition walkONTStringTable :: "agent \<Rightarrow> string \<Rightarrow> (ONTLocation \<times> string) list option" where
  "walkONTStringTable ag base =
     (if \<not> ag_up ag then None
      else case bulkWalk ag base of
             (rows, ok) \<Rightarrow> let results = fold (visit_string base) rows [] in if ok then Some results else None)"

definition visit_rx :: "string \<times> snmp_value \<Rightarrow> (ONTLocation \<times> ONTMetrics) list \<Rightarrow> (ONTLocation \<times> ONTMetrics) list" where
  "visit_rx pdu metrics =
     (case instance_arcs (fst pdu) rx_power_table of
        Some (ifIndex # onuIndex # _ # _) \<Rightarrow>
          (case ParseUint 32 ifIndex of
             None \<Rightarrow> metrics
           | Some n \<Rightarrow>
               (case ParseInt64 onuIndex of
                  None \<Rightarrow> metrics
                | Some k \<Rightarrow>
                    (case decodeOnuIDIfIndex (of_nat n) of
                       None \<Rightarrow> metrics
                     | Some (slot, port) \<Rightarrow>
                         (case toInt64 (snd pdu) of
                            None \<Rightarrow> metrics
                          | Some v \<Rightarrow> alter no_metrics (slot, port, k) (\<lambda>m. m\<lparr>om_RxPower := decodeZxGponPower v\<rparr>) metrics))))
      | _ \<Rightarrow> metrics)"

definition merge_table ::
  "('a \<Rightarrow> ONTMetrics \<Rightarrow> ONTMetrics) \<Rightarrow> ('a \<Rightarrow> ONTMetrics) \<Rightarrow> (ONTLocation \<times> 'a) list option
    \<Rightarrow> (ONTLocation \<times> ONTMetrics) list \<Rightarrow> (ONTLocation \<times> ONTMetrics) list" where
  "merge_table assign fresh tbl metrics =
     (case tbl of
        None \<Rightarrow> metrics
      | Some rows \<Rightarrow>
          fold (\<lambda>(k, v) m. case map_of m k of Some x \<Rightarrow> AList.update k (assign v x) m | None \<Rightarrow> AList.update k (fresh v) m)
            rows metrics)"

definition zteWalkMetrics :: "agent \<Rightarrow> (ONTLocation \<times> ONTMetrics) list option" where
  "zteWalkMetrics ag =
     (if \<not> ag_up ag then None
      else
        let metrics = fold visit_rx (fst (bulkWalk ag rx_power_table)) [];
            metrics = merge_table (\<lambda>v m. m\<lparr>om_TxPower := om_TxPower v\<rparr>) id
              (walkONTMetricTable ag tx_power_table (\<lambda>raw. no_metrics\<lparr>om_TxPower := decodeZxGponPower raw\<rparr>)) metrics;
            metrics = merge_table (\<lambda>v m. m\<lparr>om_Distance := om_Distance v\<rparr>) id
              (walkONTMetricTable ag distance_table (\<lambda>raw. no_metrics\<lparr>om_Distance := raw\<rparr>)) metrics;
            metrics = merge_table (\<lambda>v m. m\<lparr>om_Temperature := om_Temperature v\<rparr>) id
              (walkONTMetricTable ag temperature_table (\<lambda>raw. no_metrics\<lparr>om_Temperature := of_int raw / 256\<rparr>)) metrics;
            metrics = merge_table (\<lambda>v m. m\<lparr>om_Voltage := om_Voltage v\<rparr>) id
              (walkONTMetricTable ag voltage_table (\<lambda>raw. no_metrics\<lparr>om_Voltage := of_int raw / 10000\<rparr>)) metrics;
            metrics = merge_table (\<lambda>v m. m\<lparr>om_TxBiasCurrent := om_TxBiasCurrent v\<rparr>) id
              (walkONTMetricTable ag bias_table (\<lambda>raw. no_metrics\<lparr>om_TxBiasCurrent := of_int raw / 500\<rparr>)) metrics
        in Some (merge_table (\<lambda>v m. m\<lparr>om_SoftwareVersion := v\<rparr>) (\<lambda>v. no_metrics\<lparr>om_SoftwareVersion := v\<rparr>)
              (walkONTStringTable ag equipment_table) metrics))"

definition no_rates :: ONUTrafficRates where
  "no_rates = \<lparr>tr_RxOctetBps = 0, tr_TxOctetBps = 0, tr_RxOctets = 0, tr_TxOctets = 0, tr_RxPackets = 0, tr_TxPackets = 0\<rparr>"

definition visit_rate ::
  "string \<Rightarrow> (u64 \<Rightarrow> ONUTrafficRates \<Rightarrow> ONUTrafficRates) \<Rightarrow> string \<times> snmp_value
    \<Rightarrow> (ONTLocation \<times> ONUTrafficRates) list \<Rightarrow> (ONTLocation \<times> ONUTrafficRates) list" where
  "visit_rate base assign pdu rates =
     (case parseOnuIDSuffix (fst pdu) base of
        None \<Rightarrow> rates
      | Some loc \<Rightarrow>
          (case toInt64 (snd pdu) of
             None \<Rightarrow> rates
           | Some v \<Rightarrow> if v < 0 then rates else alter no_rates loc (assign (word_of_int v)) rates))"

definition collect_rates ::
  "agent \<Rightarrow> string \<Rightarrow> (u64 \<Rightarrow> ONUTrafficRates \<Rightarrow> ONUTrafficRates) \<Rightarrow> (ONTLocation \<times> ONUTrafficRates) list
    \<Rightarrow> (ONTLocation \<times> ONUTrafficRates) list \<times> bool" where
  "collect_rates ag base assign rates =
     (case bulkWalk ag base of (rows, ok) \<Rightarrow> (fold (visit_rate base assign) rows rates, ok))"

text \<open>The counters may fail, the gauges may not.\<close>

definition zteWalkTrafficRates :: "agent \<Rightarrow> (ONTLocation \<times> ONUTrafficRates) list option" where
  "zteWalkTrafficRates ag =
     (if \<not> ag_up ag then None
      else case collect_rates ag rx_rate_table (\<lambda>v r. r\<lparr>tr_RxOctetBps := v\<rparr>) [] of
             (_, False) \<Rightarrow> None
           | (rates, True) \<Rightarrow>
               (case collect_rates ag tx_rate_table (\<lambda>v r. r\<lparr>tr_TxOctetBps := v\<rparr>) rates of
                  (_, False) \<Rightarrow> None
                | (rates, True) \<Rightarrow>
                    let rates = fst (collect_rates ag rx_octets_table (\<lambda>v r. r\<lparr>tr_RxOctets := v\<rparr>) rates);
                        rates = fst (collect_rates ag tx_octets_table (\<lambda>v r. r\<lparr>tr_TxOctets := v\<rparr>) rates);
                        rates = fst (collect_rates ag rx_packets_table (\<lambda>v r. r\<lparr>tr_RxPackets := v\<rparr>) rates);
                        rates = fst (collect_rates ag tx_packets_table (\<lambda>v r. r\<lparr>tr_TxPackets := v\<rparr>) rates)
                    in Some rates))"

section \<open>Batched reads\<close>

definition zteGetBatchSize :: nat where "zteGetBatchSize = 40"
definition zteInventoryBatchSize :: nat where "zteInventoryBatchSize = 10"

text \<open>Each batch is asked for in one read and its answers are taken in the order of the requests; one that fails is
  skipped.\<close>

function get_batches ::
  "agent \<Rightarrow> nat \<Rightarrow> ('r \<Rightarrow> string) \<Rightarrow> ('r \<Rightarrow> snmp_value option \<Rightarrow> 'm \<Rightarrow> 'm) \<Rightarrow> 'r list \<Rightarrow> 'm \<Rightarrow> 'm" where
  "get_batches ag n oid take_in pending m =
     (if pending = [] \<or> n = 0 then m
      else get_batches ag n oid take_in (drop n pending)
             (case ag_Get ag (map oid (take n pending)) of
                None \<Rightarrow> m
              | Some vars \<Rightarrow> fold (\<lambda>(r, v) m. take_in r v m) (zip (take n pending) vars) m))"
  by pat_completeness auto

termination
  by (relation "measure (\<lambda>(ag, n, oid, take_in, pending, m). length pending)") auto

declare get_batches.simps [simp del]

definition zteMetricColumns :: "ONTLocation \<Rightarrow> (string \<times> (int \<Rightarrow> ONTMetrics \<Rightarrow> ONTMetrics)) list" where
  "zteMetricColumns loc =
     (case loc of (slot, port, ontID) \<Rightarrow>
        let inst = (\<lambda>table rest. instance_oid table (type_space slot port) ontID rest) in
        [(inst rx_power_table ''.1'', \<lambda>raw m. m\<lparr>om_RxPower := decodeZxGponPower raw\<rparr>),
         (inst tx_power_table ''.1'', \<lambda>raw m. m\<lparr>om_TxPower := decodeZxGponPower raw\<rparr>),
         (inst temperature_table ''.1'', \<lambda>raw m. m\<lparr>om_Temperature := of_int raw / 256\<rparr>),
         (inst voltage_table ''.1'', \<lambda>raw m. m\<lparr>om_Voltage := of_int raw / 10000\<rparr>),
         (inst bias_table ''.1'', \<lambda>raw m. m\<lparr>om_TxBiasCurrent := of_int raw / 500\<rparr>),
         (inst distance_table [], \<lambda>raw m. m\<lparr>om_Distance := raw\<rparr>)])"

definition QueryMetricsFor :: "agent \<Rightarrow> ONTLocation list \<Rightarrow> (ONTLocation \<times> ONTMetrics) list option" where
  "QueryMetricsFor ag locations =
     (if locations = [] then Some []
      else if \<not> ag_up ag then None
      else Some (get_batches ag zteGetBatchSize (\<lambda>(loc, oid, apply). oid)
             (\<lambda>(loc, oid, apply) v metrics.
                case Option.bind v toInt64 of None \<Rightarrow> metrics | Some raw \<Rightarrow> alter no_metrics loc (apply raw) metrics)
             (concat (map (\<lambda>loc. map (Pair loc) (zteMetricColumns loc)) locations))
             (fold (\<lambda>loc m. AList.update loc no_metrics m) locations [])))"

definition QueryStatusFor :: "agent \<Rightarrow> ONTLocation list \<Rightarrow> (ONTLocation \<times> int) list option" where
  "QueryStatusFor ag locations =
     (if locations = [] then Some []
      else if \<not> ag_up ag then None
      else Some (get_batches ag zteGetBatchSize
             (\<lambda>(slot, port, ontID). instance_oid phase_state_table (type_space slot port) ontID [])
             (\<lambda>loc v statuses.
                case Option.bind v toInt64 of
                  None \<Rightarrow> statuses
                | Some st \<Rightarrow> if st < 30000 then AList.update loc st statuses else statuses)
             locations []))"

definition zteInventoryColumns :: "ONTLocation \<Rightarrow> (string \<times> (snmp_value \<Rightarrow> ONTInventory \<Rightarrow> ONTInventory)) list" where
  "zteInventoryColumns loc =
     (case loc of (slot, port, ontID) \<Rightarrow>
        let inst = (\<lambda>table space rest. instance_oid table (space slot port) ontID rest) in
        [(inst (BaseOID1 @ OnuSerialNumberPrefix) onu_space [],
           \<lambda>v i. if ExtractSerialNumber v \<noteq> [] then i\<lparr>oi_SerialNumber := ExtractSerialNumber v\<rparr> else i),
         (inst (BaseOID2 @ OnuIDNamePrefix) type_space [], \<lambda>v i. i\<lparr>oi_Name := ExtractName v\<rparr>),
         (inst (BaseOID2 @ OnuDescriptionPrefix) type_space [], \<lambda>v i. i\<lparr>oi_Description := ExtractName v\<rparr>),
         (inst (BaseOID2 @ OnuTypePrefix) type_space [], \<lambda>v i. i\<lparr>oi_DeviceType := ExtractName v\<rparr>),
         (inst (BaseOID2 @ OnuHardwareVersionPrefix) type_space [], \<lambda>v i. i\<lparr>oi_HardwareVersion := ExtractName v\<rparr>),
         (inst (BaseOID2 @ OnuIPAddressPrefix) type_space ''.1'', \<lambda>v i. i\<lparr>oi_IPAddress := readZTEIPAddress v\<rparr>),
         (inst (BaseOID2 @ OnuMACAddressPrefix) type_space ''.1'', \<lambda>v i. i\<lparr>oi_MACAddress := formatZTEMACAddress v\<rparr>)])"

definition fetchZTEInventory :: "agent \<Rightarrow> ONTLocation list \<Rightarrow> (ONTLocation \<times> ONTInventory) list" where
  "fetchZTEInventory ag locations =
     get_batches ag zteInventoryBatchSize (\<lambda>(loc, oid, apply). oid)
       (\<lambda>(loc, oid, apply) v found.
          case v of None \<Rightarrow> found | Some x \<Rightarrow> alter no_inventory loc (apply x) found)
       (concat (map (\<lambda>loc. map (Pair loc) (zteInventoryColumns loc)) locations))
       (fold (\<lambda>loc m. AList.update loc no_inventory m) locations [])"

definition queryZTEInventoryFor :: "agent \<Rightarrow> ONTLocation list \<Rightarrow> (ONTLocation \<times> ONTInventory) list option" where
  "queryZTEInventoryFor ag locations = (if \<not> ag_up ag then None else Some (fetchZTEInventory ag locations))"

text \<open>The ports in the order they are first met, each with its ONUs.\<close>

definition pon_port :: "ONTLocation \<Rightarrow> int \<times> int" where
  "pon_port loc = (fst loc, fst (snd loc))"

definition port_groups :: "ONTLocation list \<Rightarrow> ONTLocation list list" where
  "port_groups locations =
     map (\<lambda>key. filter (\<lambda>loc. pon_port loc = key) locations)
       (fold (\<lambda>loc order. if pon_port loc \<in> set order then order else order @ [pon_port loc]) locations [])"

definition zteInventoryByPort ::
  "agent \<Rightarrow> ONTLocation list \<Rightarrow> (ONTLocation list \<times> (ONTLocation \<times> ONTInventory) list) list \<times> bool" where
  "zteInventoryByPort ag locations =
     (if locations = [] then ([], False)
      else if \<not> ag_up ag then ([], True)
      else (map (\<lambda>locs. (locs, fetchZTEInventory ag locs)) (port_groups locations), False))"

definition query_one :: "agent \<Rightarrow> string \<Rightarrow> int option" where
  "query_one ag oid =
     (case ag_Get ag [oid] of
        Some (v # _) \<Rightarrow> Option.bind v toInt64
      | _ \<Rightarrow> None)"

definition zteQueryONTMetrics :: "agent \<Rightarrow> int \<Rightarrow> int \<Rightarrow> int \<Rightarrow> ONTMetrics option" where
  "zteQueryONTMetrics ag slot port ontID =
     (if \<not> ag_up ag then None
      else
        let ifIndex = uint (encodeZxGponIfIndex 0x10 slot port);
            ask = (\<lambda>table. query_one ag (instance_oid table ifIndex ontID ''.1''));
            power = (\<lambda>table. case ask table of None \<Rightarrow> None | Some v \<Rightarrow> decodeZxGponPower v);
            scaled = (\<lambda>table divisor. case ask table of None \<Rightarrow> 0 | Some v \<Rightarrow> if v < 30000 then of_int v / divisor else 0)
        in Some (no_metrics\<lparr>om_RxPower := power rx_power_table, om_TxPower := power tx_power_table,
              om_Temperature := scaled temperature_table 256, om_Voltage := scaled voltage_table 10000,
              om_TxBiasCurrent := scaled bias_table 500,
              om_Distance := (case ask distance_table of None \<Rightarrow> 0 | Some v \<Rightarrow> v)\<rparr>))"

text \<open>The gauges and the counters of one ONU, in one read; none of them is an error.\<close>

definition rate_columns :: "(string \<times> (u64 \<Rightarrow> ONUTrafficRates \<Rightarrow> ONUTrafficRates)) list" where
  "rate_columns =
     [(rx_rate_table, \<lambda>v r. r\<lparr>tr_RxOctetBps := v\<rparr>), (tx_rate_table, \<lambda>v r. r\<lparr>tr_TxOctetBps := v\<rparr>),
      (rx_octets_table, \<lambda>v r. r\<lparr>tr_RxOctets := v\<rparr>), (tx_octets_table, \<lambda>v r. r\<lparr>tr_TxOctets := v\<rparr>),
      (rx_packets_table, \<lambda>v r. r\<lparr>tr_RxPackets := v\<rparr>), (tx_packets_table, \<lambda>v r. r\<lparr>tr_TxPackets := v\<rparr>)]"

definition gauge :: "snmp_value option \<Rightarrow> u64 option" where
  "gauge v = (case Option.bind v toInt64 of None \<Rightarrow> None | Some x \<Rightarrow> if x < 0 then None else Some (word_of_int x))"

definition zteQueryTrafficRates :: "agent \<Rightarrow> int \<Rightarrow> int \<Rightarrow> int \<Rightarrow> ONUTrafficRates option" where
  "zteQueryTrafficRates ag slot port ontID =
     (if \<not> ag_up ag then None
      else case ag_Get ag (map (\<lambda>(table, _). instance_oid table (onu_space slot port) ontID []) rate_columns) of
             None \<Rightarrow> None
           | Some vars \<Rightarrow>
               let answers = zip rate_columns vars in
               if \<forall>(_, v) \<in> set answers. gauge v = None then None
               else Some (fold (\<lambda>((_, assign), v) rates. case gauge v of None \<Rightarrow> rates | Some x \<Rightarrow> assign x rates) answers no_rates))"

definition zte_driver :: "agent \<Rightarrow> driver" where
  "zte_driver ag =
     \<lparr>dr_WalkStatuses = zteWalkStatuses ag, dr_WalkMetrics = zteWalkMetrics ag,
      dr_QueryMetricsFor = Some (QueryMetricsFor ag), dr_Inventory = queryZTEInventoryFor ag,
      dr_InventoryByPort = zteInventoryByPort ag, dr_WalkTrafficRates = zteWalkTrafficRates ag\<rparr>"

section \<open>ONUs that wait for their configuration\<close>

record UnconfiguredONU =
  un_Slot :: int
  un_Port :: int
  un_SerialNumber :: string
  un_DeviceType :: string
  un_SoftwareVersion :: string

type_synonym uncfgIndex = "int \<times> int \<times> int"

definition walkUncfgColumn ::
  "agent \<Rightarrow> string \<Rightarrow> (uncfgIndex \<Rightarrow> snmp_value \<Rightarrow> 'm \<Rightarrow> 'm) \<Rightarrow> 'm \<Rightarrow> 'm \<times> bool" where
  "walkUncfgColumn ag column visit m =
     (let oid = BaseOID2 @ column; base = TrimPrefix oid ''.'' @ ''.'' in
      case bulkWalk ag oid of
        (rows, ok) \<Rightarrow>
          (fold (\<lambda>(name, v) m.
                   let rest = TrimPrefix name ''.'' in
                   if \<not> HasPrefix rest base then m
                   else case parseUncfgSuffix (TrimPrefix rest base) of None \<Rightarrow> m | Some idx \<Rightarrow> visit idx v m)
             rows m, ok))"

definition uncfg_less :: "UnconfiguredONU \<Rightarrow> UnconfiguredONU \<Rightarrow> bool" where
  "uncfg_less a b =
     (if un_Slot a \<noteq> un_Slot b then un_Slot a < un_Slot b
      else if un_Port a \<noteq> un_Port b then un_Port a < un_Port b
      else map byte (un_SerialNumber a) \<noteq> map byte (un_SerialNumber b)
           \<and> (map byte (un_SerialNumber a), map byte (un_SerialNumber b)) \<in> lexord {(m, n). m < n})"

text \<open>\<open>sort.Slice\<close>: entries that compare equal may come in any order.\<close>

definition sorted_onus :: "UnconfiguredONU list \<Rightarrow> UnconfiguredONU list \<Rightarrow> bool" where
  "sorted_onus onus out \<longleftrightarrow> mset out = mset onus \<and> sorted_wrt (\<lambda>a b. \<not> uncfg_less b a) out"

text \<open>\<open>spent\<close> is what \<open>ctx.Err\<close> says after the second and after the third walk.\<close>

definition walkUnconfiguredONUs :: "agent \<Rightarrow> bool \<Rightarrow> bool \<Rightarrow> UnconfiguredONU list option" where
  "walkUnconfiguredONUs ag spent2 spent3 =
     (if \<not> ag_up ag then None
      else case walkUncfgColumn ag OnuUncfgSerialNumberPrefix
                  (\<lambda>idx v m. if formatAutofindSerial v \<noteq> [] then AList.update idx (formatAutofindSerial v) m else m) [] of
             (_, False) \<Rightarrow> None
           | (serials, True) \<Rightarrow>
               if serials = [] then Some []
               else case walkUncfgColumn ag OnuUncfgDeviceTypePrefix (\<lambda>idx v m. AList.update idx (ExtractName v) m) [] of
                      (types, ok2) \<Rightarrow>
                        if \<not> ok2 \<and> spent2 then None
                        else case walkUncfgColumn ag OnuUncfgSoftwareVerPrefix (\<lambda>idx v m. AList.update idx (ExtractName v) m) [] of
                               (versions, ok3) \<Rightarrow>
                                 if \<not> ok3 \<and> spent3 then None
                                 else Some (map (\<lambda>(idx, serial).
                                        \<lparr>un_Slot = fst idx, un_Port = fst (snd idx), un_SerialNumber = serial,
                                         un_DeviceType = (case map_of types idx of None \<Rightarrow> [] | Some t \<Rightarrow> t),
                                         un_SoftwareVersion = (case map_of versions idx of None \<Rightarrow> [] | Some t \<Rightarrow> t)\<rparr>) serials))"

section \<open>An HSGQ chassis\<close>

definition hsgqBase :: string where "hsgqBase = ''.1.3.6.1.4.1.50224''"
definition hsgqONUTable :: string where "hsgqONUTable = hsgqBase @ ''.3.3.2.1''"
definition hsgqOpticalTable :: string where "hsgqOpticalTable = hsgqBase @ ''.3.3.3.1''"
definition hsgqONUName :: string where "hsgqONUName = hsgqONUTable @ ''.2''"
definition hsgqONUStatus :: string where "hsgqONUStatus = hsgqONUTable @ ''.8''"
definition hsgqONUMAC :: string where "hsgqONUMAC = hsgqONUTable @ ''.7''"
definition hsgqONUHardware :: string where "hsgqONUHardware = hsgqONUTable @ ''.12''"
definition hsgqONUFirmware :: string where "hsgqONUFirmware = hsgqONUTable @ ''.13''"
definition hsgqONUDistance :: string where "hsgqONUDistance = hsgqONUTable @ ''.15''"
definition hsgqONUModel :: string where "hsgqONUModel = hsgqONUTable @ ''.26''"
definition hsgqRxPower :: string where "hsgqRxPower = hsgqOpticalTable @ ''.4''"
definition hsgqTxPower :: string where "hsgqTxPower = hsgqOpticalTable @ ''.5''"
definition hsgqBiasCurrent :: string where "hsgqBiasCurrent = hsgqOpticalTable @ ''.6''"
definition hsgqVoltage :: string where "hsgqVoltage = hsgqOpticalTable @ ''.7''"
definition hsgqTemperature :: string where "hsgqTemperature = hsgqOpticalTable @ ''.8''"
definition hsgqONUTail :: string where "hsgqONUTail = ''0.0''"
definition hsgqCentiScale :: real where "hsgqCentiScale = 100"
definition ifDescrOID :: string where "ifDescrOID = ''.1.3.6.1.2.1.2.2.1.2''"
definition ifHCInOctetsOID :: string where "ifHCInOctetsOID = ''.1.3.6.1.2.1.31.1.1.1.6''"
definition ifHCInUcastPktsOID :: string where "ifHCInUcastPktsOID = ''.1.3.6.1.2.1.31.1.1.1.7''"
definition ifHCOutOctetsOID :: string where "ifHCOutOctetsOID = ''.1.3.6.1.2.1.31.1.1.1.10''"
definition ifHCOutUcastPktsOID :: string where "ifHCOutUcastPktsOID = ''.1.3.6.1.2.1.31.1.1.1.11''"
definition ifInErrorsOID :: string where "ifInErrorsOID = ''.1.3.6.1.2.1.2.2.1.14''"
definition ifOutErrorsOID :: string where "ifOutErrorsOID = ''.1.3.6.1.2.1.2.2.1.20''"

definition hsgqWalkColumn :: "agent \<Rightarrow> string \<Rightarrow> string \<Rightarrow> (u32 \<Rightarrow> snmp_value \<Rightarrow> 'm \<Rightarrow> 'm) \<Rightarrow> 'm \<Rightarrow> 'm \<times> bool" where
  "hsgqWalkColumn ag table tail visit m =
     (let base = TrimPrefix table ''.'' @ ''.'' in
      case bulkWalk ag table of
        (rows, ok) \<Rightarrow>
          (fold (\<lambda>(name, v) m.
                   let rest = TrimPrefix name ''.'' in
                   if \<not> HasPrefix rest base then m
                   else case hsgqParseSuffix (TrimPrefix rest base) tail of None \<Rightarrow> m | Some ifIndex \<Rightarrow> visit ifIndex v m)
             rows m, ok))"

definition hsgqWalkStatuses :: "agent \<Rightarrow> (ONTLocation \<times> int) list option" where
  "hsgqWalkStatuses ag =
     (if \<not> ag_up ag then None
      else case hsgqWalkColumn ag hsgqONUStatus []
                  (\<lambda>ifIndex v m. case toInt64 v of None \<Rightarrow> m
                     | Some raw \<Rightarrow> AList.update (hsgqLocation ifIndex) (hsgqDecodeStatus raw) m) [] of
             (statuses, ok) \<Rightarrow> if ok then Some statuses else None)"

definition hsgq_numeric ::
  "agent \<Rightarrow> string \<Rightarrow> string \<Rightarrow> (int \<Rightarrow> ONTMetrics \<Rightarrow> ONTMetrics) \<Rightarrow> (ONTLocation \<times> ONTMetrics) list
    \<Rightarrow> (ONTLocation \<times> ONTMetrics) list" where
  "hsgq_numeric ag table tail apply metrics =
     fst (hsgqWalkColumn ag table tail
            (\<lambda>ifIndex v m. case toInt64 v of None \<Rightarrow> m | Some raw \<Rightarrow> alter no_metrics (hsgqLocation ifIndex) (apply raw) m)
            metrics)"

text \<open>\<open>^ONU(\d+)/(\d+)$\<close>, and both numbers in range.\<close>

definition onu_name :: "string \<Rightarrow> (int \<times> int) option" where
  "onu_name s =
     (if \<not> HasPrefix s ''ONU'' then None
      else case Cut (drop 3 s) CHR ''/'' of
             (port, onu, found) \<Rightarrow>
               if \<not> found \<or> port = [] \<or> onu = [] \<or> \<not> list_all is_digit port \<or> \<not> list_all is_digit onu then None
               else case (ParseInt64 port, ParseInt64 onu) of
                      (Some p, Some k) \<Rightarrow> Some (p, k)
                    | _ \<Rightarrow> None)"

definition hsgqResolveIfMibIndexes :: "agent \<Rightarrow> (ONTLocation \<times> u32) list option" where
  "hsgqResolveIfMibIndexes ag =
     (case hsgqWalkColumn ag ifDescrOID []
             (\<lambda>ifIndex v m. case onu_name (printableText v) of None \<Rightarrow> m
                | Some (port, onu) \<Rightarrow> AList.update (0, port, onu) ifIndex m) [] of
        (indexes, ok) \<Rightarrow> if ok then Some indexes else None)"

definition hsgq_counter ::
  "agent \<Rightarrow> (u32 \<times> ONTLocation) list \<Rightarrow> string \<Rightarrow> (u64 \<Rightarrow> ONTMetrics \<Rightarrow> ONTMetrics) \<Rightarrow> (ONTLocation \<times> ONTMetrics) list
    \<Rightarrow> (ONTLocation \<times> ONTMetrics) list" where
  "hsgq_counter ag byIfIndex oid apply metrics =
     fst (hsgqWalkColumn ag oid []
            (\<lambda>ifIndex v m. case map_of byIfIndex ifIndex of None \<Rightarrow> m
               | Some loc \<Rightarrow> (case toUint64 v of None \<Rightarrow> m | Some raw \<Rightarrow> alter no_metrics loc (apply raw) m)) metrics)"

definition hsgqWalkCounters :: "agent \<Rightarrow> (ONTLocation \<times> ONTMetrics) list \<Rightarrow> (ONTLocation \<times> ONTMetrics) list" where
  "hsgqWalkCounters ag metrics =
     (case hsgqResolveIfMibIndexes ag of
        None \<Rightarrow> metrics
      | Some indexes \<Rightarrow>
          if indexes = [] then metrics
          else let byIfIndex = fold (\<lambda>(loc, ifIndex) m. AList.update ifIndex loc m) indexes [];
                   metrics = hsgq_counter ag byIfIndex ifHCInOctetsOID (\<lambda>v m. m\<lparr>om_RxBytes := v\<rparr>) metrics;
                   metrics = hsgq_counter ag byIfIndex ifHCOutOctetsOID (\<lambda>v m. m\<lparr>om_TxBytes := v\<rparr>) metrics;
                   metrics = hsgq_counter ag byIfIndex ifHCInUcastPktsOID (\<lambda>v m. m\<lparr>om_RxPackets := v\<rparr>) metrics;
                   metrics = hsgq_counter ag byIfIndex ifHCOutUcastPktsOID (\<lambda>v m. m\<lparr>om_TxPackets := v\<rparr>) metrics;
                   metrics = hsgq_counter ag byIfIndex ifInErrorsOID (\<lambda>v m. m\<lparr>om_RxErrors := v\<rparr>) metrics
               in hsgq_counter ag byIfIndex ifOutErrorsOID (\<lambda>v m. m\<lparr>om_TxErrors := v\<rparr>) metrics)"

definition hsgqWalkMetrics :: "agent \<Rightarrow> (ONTLocation \<times> ONTMetrics) list option" where
  "hsgqWalkMetrics ag =
     (if \<not> ag_up ag then None
      else
        let metrics = hsgq_numeric ag hsgqRxPower hsgqONUTail (\<lambda>raw m. m\<lparr>om_RxPower := hsgqDecodePower raw\<rparr>) [];
            metrics = hsgq_numeric ag hsgqTxPower hsgqONUTail (\<lambda>raw m. m\<lparr>om_TxPower := hsgqDecodePower raw\<rparr>) metrics;
            metrics = hsgq_numeric ag hsgqBiasCurrent hsgqONUTail (\<lambda>raw m. m\<lparr>om_TxBiasCurrent := of_int raw / hsgqCentiScale\<rparr>) metrics;
            metrics = hsgq_numeric ag hsgqVoltage hsgqONUTail (\<lambda>raw m. m\<lparr>om_Voltage := of_int raw / hsgqCentiScale\<rparr>) metrics;
            metrics = hsgq_numeric ag hsgqTemperature hsgqONUTail (\<lambda>raw m. m\<lparr>om_Temperature := of_int raw / hsgqCentiScale\<rparr>) metrics;
            metrics = hsgq_numeric ag hsgqONUDistance [] (\<lambda>raw m. if raw > 0 then m\<lparr>om_Distance := raw\<rparr> else m) metrics
        in Some (hsgqWalkCounters ag metrics))"

definition hsgq_wanted ::
  "ONTLocation list \<Rightarrow> u32 \<Rightarrow> (ONTInventory \<Rightarrow> ONTInventory) \<Rightarrow> (ONTLocation \<times> ONTInventory) list
    \<Rightarrow> (ONTLocation \<times> ONTInventory) list" where
  "hsgq_wanted locations ifIndex apply found =
     (if hsgqLocation ifIndex \<notin> set locations then found else alter no_inventory (hsgqLocation ifIndex) apply found)"

definition hsgq_text ::
  "agent \<Rightarrow> ONTLocation list \<Rightarrow> string \<Rightarrow> (string \<Rightarrow> ONTInventory \<Rightarrow> ONTInventory) \<Rightarrow> (ONTLocation \<times> ONTInventory) list
    \<Rightarrow> (ONTLocation \<times> ONTInventory) list" where
  "hsgq_text ag locations table apply found =
     fst (hsgqWalkColumn ag table []
            (\<lambda>ifIndex v m. if printableText v \<noteq> [] then hsgq_wanted locations ifIndex (apply (printableText v)) m else m) found)"

definition hsgqInventory :: "agent \<Rightarrow> ONTLocation list \<Rightarrow> (ONTLocation \<times> ONTInventory) list option" where
  "hsgqInventory ag locations =
     (if locations = [] then Some []
      else if \<not> ag_up ag then None
      else
        let found = fst (hsgqWalkColumn ag hsgqONUMAC []
              (\<lambda>ifIndex v m. let mac = hsgqFormatMAC v in
                 if mac \<noteq> [] then hsgq_wanted locations ifIndex
                   (\<lambda>i. i\<lparr>oi_MACAddress := mac, oi_SerialNumber := filter (\<lambda>c. c \<noteq> CHR '':'') mac\<rparr>) m else m) []);
            found = hsgq_text ag locations hsgqONUName (\<lambda>v i. i\<lparr>oi_Name := v\<rparr>) found;
            found = hsgq_text ag locations hsgqONUModel (\<lambda>v i. i\<lparr>oi_DeviceType := v\<rparr>) found;
            found = hsgq_text ag locations hsgqONUFirmware (\<lambda>v i. i\<lparr>oi_SoftwareVersion := v\<rparr>) found
        in Some (hsgq_text ag locations hsgqONUHardware (\<lambda>v i. i\<lparr>oi_HardwareVersion := v\<rparr>) found))"

definition hsgqInventoryByPort ::
  "agent \<Rightarrow> ONTLocation list \<Rightarrow> (ONTLocation list \<times> (ONTLocation \<times> ONTInventory) list) list \<times> bool" where
  "hsgqInventoryByPort ag locations =
     (case hsgqInventory ag locations of None \<Rightarrow> ([], True) | Some found \<Rightarrow> ([(locations, found)], False))"

definition hsgqQueryONTMetrics :: "agent \<Rightarrow> int \<Rightarrow> int \<Rightarrow> ONTMetrics option" where
  "hsgqQueryONTMetrics ag port ontID =
     (if \<not> ag_up ag then None
      else
        let ifIndex = uint (hsgqIfIndexFor port ontID);
            optical = (\<lambda>table. query_one ag (table @ ''.'' @ itoa ifIndex @ ''.'' @ hsgqONUTail));
            take_in = (\<lambda>v apply (m :: ONTMetrics). case v of None \<Rightarrow> m | Some raw \<Rightarrow> apply raw m);
            m = take_in (optical hsgqRxPower) (\<lambda>raw m. m\<lparr>om_RxPower := hsgqDecodePower raw\<rparr>) no_metrics;
            m = take_in (optical hsgqTxPower) (\<lambda>raw m. m\<lparr>om_TxPower := hsgqDecodePower raw\<rparr>) m;
            m = take_in (optical hsgqBiasCurrent) (\<lambda>raw m. m\<lparr>om_TxBiasCurrent := of_int raw / hsgqCentiScale\<rparr>) m;
            m = take_in (optical hsgqVoltage) (\<lambda>raw m. m\<lparr>om_Voltage := of_int raw / hsgqCentiScale\<rparr>) m;
            m = take_in (optical hsgqTemperature) (\<lambda>raw m. m\<lparr>om_Temperature := of_int raw / hsgqCentiScale\<rparr>) m;
            m = take_in (query_one ag (hsgqONUDistance @ ''.'' @ itoa ifIndex))
                  (\<lambda>raw m. if raw > 0 then m\<lparr>om_Distance := raw\<rparr> else m) m
        in Some (case Option.bind (hsgqResolveIfMibIndexes ag) (\<lambda>indexes. map_of indexes (0, port, ontID)) of
             None \<Rightarrow> m
           | Some ifMibIndex \<Rightarrow>
               let counter = (\<lambda>oid apply (m :: ONTMetrics).
                     case ag_Get ag [oid @ ''.'' @ itoa (uint ifMibIndex)] of
                       Some (v # _) \<Rightarrow> (case Option.bind v toUint64 of None \<Rightarrow> m | Some raw \<Rightarrow> apply raw m)
                     | _ \<Rightarrow> m);
                   m = counter ifHCInOctetsOID (\<lambda>v m. m\<lparr>om_RxBytes := v\<rparr>) m;
                   m = counter ifHCOutOctetsOID (\<lambda>v m. m\<lparr>om_TxBytes := v\<rparr>) m;
                   m = counter ifHCInUcastPktsOID (\<lambda>v m. m\<lparr>om_RxPackets := v\<rparr>) m;
                   m = counter ifHCOutUcastPktsOID (\<lambda>v m. m\<lparr>om_TxPackets := v\<rparr>) m;
                   m = counter ifInErrorsOID (\<lambda>v m. m\<lparr>om_RxErrors := v\<rparr>) m
               in counter ifOutErrorsOID (\<lambda>v m. m\<lparr>om_TxErrors := v\<rparr>) m))"

text \<open>It is no \<open>MetricsQuerier\<close> and has no rates.\<close>

definition hsgq_driver :: "agent \<Rightarrow> driver" where
  "hsgq_driver ag =
     \<lparr>dr_WalkStatuses = hsgqWalkStatuses ag, dr_WalkMetrics = hsgqWalkMetrics ag, dr_QueryMetricsFor = None,
      dr_Inventory = hsgqInventory ag, dr_InventoryByPort = hsgqInventoryByPort ag, dr_WalkTrafficRates = None\<rparr>"

section \<open>The registry\<close>

text \<open>Every driver opens its own connection to the OLT it is called for; \<open>ag\<close> is that OLT's agent.\<close>

definition DriverFor :: "agent \<Rightarrow> string \<Rightarrow> driver option" where
  "DriverFor ag model =
     (if model = ''zte_c300'' \<or> model = ''zte_c320'' then Some (zte_driver ag)
      else if model = ''hsgq'' then Some (hsgq_driver ag) else None)"

section \<open>Maps as lists\<close>

text \<open>\<open>typed P m\<close>: every key once, every entry as \<open>P\<close> has it.\<close>

definition typed :: "('k \<Rightarrow> 'v \<Rightarrow> bool) \<Rightarrow> ('k \<times> 'v) list \<Rightarrow> bool" where
  "typed P m \<longleftrightarrow> distinct (map fst m) \<and> (\<forall>(k, v) \<in> set m. P k v)"

lemma typed_Nil [simp]: "typed P []"
  by (simp add: typed_def)

lemma set_AList_update: "set (AList.update k v m) \<subseteq> insert (k, v) (set m)"
  by (induction m) auto

lemma typed_update [intro]: "typed P m \<Longrightarrow> P k v \<Longrightarrow> typed P (AList.update k v m)"
  using set_AList_update [of k v m] by (fastforce simp: typed_def distinct_update)

lemma typed_map_of: "typed P m \<Longrightarrow> map_of m k = Some v \<Longrightarrow> P k v"
  by (auto simp: typed_def dest: map_of_SomeD)

lemma typed_weaken: "typed P m \<Longrightarrow> (\<And>k v. P k v \<Longrightarrow> Q k v) \<Longrightarrow> typed Q m"
  by (auto simp: typed_def)

lemma typed_alter:
  assumes "typed P m" "P k (f zero)" "\<And>v. P k v \<Longrightarrow> P k (f v)"
  shows "typed P (alter zero k f m)"
  unfolding alter_def by (rule typed_update [OF assms(1)]) (auto split: option.split intro: assms dest: typed_map_of [OF assms(1)])

lemma typed_fold:
  assumes "\<And>x m. x \<in> set xs \<Longrightarrow> typed P m \<Longrightarrow> typed P (f x m)" "typed P m"
  shows "typed P (fold f xs m)"
  using assms by (induction xs arbitrary: m) auto

lemma value_of_update [simp]: "value_of zero (AList.update k v m) = (value_of zero m)(k := v)"
  by (rule ext) (simp add: value_of_def update_conv')

lemma value_of_Nil [simp]: "value_of zero [] k = zero"
  by (simp add: value_of_def)

lemma alter_as_update: "alter zero k f m = AList.update k (f (value_of zero m k)) m"
  by (simp add: alter_def value_of_def)

lemma value_of_alter [simp]: "value_of zero (alter zero k f m) = (value_of zero m)(k := f (value_of zero m k))"
  by (simp add: alter_as_update)

text \<open>A table folded into a map of records: each key's record is folded over the key's own rows.\<close>

lemma value_of_fold_alter:
  "value_of zero (fold (\<lambda>(k, f) m. alter zero k f m) changes m) k =
     fold (\<lambda>(k', f) v. f v) (filter (\<lambda>(k', f). k' = k) changes) (value_of zero m k)"
  by (induction changes arbitrary: m) (auto simp: fun_upd_def)

section \<open>A column walked\<close>

text \<open>The visits of a walk that keeps one value a position: \<open>place\<close> reads the position off the instance, \<open>admit\<close> the value.\<close>

locale column_visit =
  fixes visit :: "string \<times> snmp_value \<Rightarrow> ('k \<times> 'v) list \<Rightarrow> ('k \<times> 'v) list"
    and place :: "string \<Rightarrow> 'k option"
    and admit :: "snmp_value \<Rightarrow> 'v option"
  assumes visit: "visit pdu m =
    (case (place (fst pdu), admit (snd pdu)) of (Some k, Some v) \<Rightarrow> AList.update k v m | _ \<Rightarrow> m)"
begin

lemma walk_typed:
  assumes "\<And>name k. place name = Some k \<Longrightarrow> K k" "\<And>x v. admit x = Some v \<Longrightarrow> V v"
  shows "typed (\<lambda>k v. K k \<and> V v) (fold visit rows [])"
  by (rule typed_fold) (auto simp: visit split: option.split intro: assms)

text \<open>An agent that lists a table shows its admitted values.\<close>

lemma walk_shows:
  assumes "distinct (map fst tbl)" "\<And>k. k \<in> fst ` set tbl \<Longrightarrow> place (name k) = Some k"
  shows "map_of (fold visit (map (\<lambda>(k, v). (name k, v)) tbl) m) k =
    (case Option.bind (map_of tbl k) admit of Some v \<Rightarrow> Some v | None \<Rightarrow> map_of m k)"
  using assms
proof (induction tbl arbitrary: m)
  case (Cons h tbl)
  obtain k0 v0 where h: "h = (k0, v0)" by (cases h)
  have "place (name k0) = Some k0" using Cons.prems(2) by (simp add: h)
  moreover have "map_of tbl k0 = None" using Cons.prems(1) by (simp add: h map_of_eq_None_iff)
  ultimately show ?case
    using Cons by (auto simp: h visit update_conv' split: option.split)
qed simp

end

definition plain_reading :: "snmp_value \<Rightarrow> int option" where
  "plain_reading x = Option.bind (toInt64 x) (\<lambda>v. if v \<ge> 30000 then None else Some v)"

interpretation status_walk: column_visit visit_status "\<lambda>name. parseZxGponSuffix name phase_state_table" plain_reading
  by unfold_locales (simp add: visit_status_def plain_reading_def split: option.split)

interpretation metric_walk: column_visit "visit_metric base mapper" "\<lambda>name. parseZxGponSuffix name base"
    "\<lambda>x. map_option mapper (plain_reading x)" for base mapper
  by unfold_locales (simp add: visit_metric_def plain_reading_def split: option.split)

definition text_reading :: "snmp_value \<Rightarrow> string option" where
  "text_reading x = Option.bind (text_of x) (\<lambda>v. if TrimSpace v = [] then None else Some (TrimSpace v))"

interpretation string_walk: column_visit "visit_string base" "\<lambda>name. parseZxGponSuffix name base" text_reading for base
  by unfold_locales (simp add: visit_string_def text_reading_def Let_def split: option.split)

section \<open>What a walk can hold\<close>

fun zte_place :: "ONTLocation \<Rightarrow> bool" where
  "zte_place (slot, port, k) \<longleftrightarrow> 0 < slot \<and> slot < 256 \<and> 0 < port \<and> port < 256 \<and> - (2 ^ 63) \<le> k \<and> k < 2 ^ 63"

fun hsgq_place :: "ONTLocation \<Rightarrow> bool" where
  "hsgq_place (slot, port, k) \<longleftrightarrow> slot = 0 \<and> 0 \<le> port \<and> port < 256 \<and> 0 \<le> k \<and> k < 256"

lemma byte_range: "0 \<le> uint ((w :: u32) AND 0xFF)" "uint ((w :: u32) AND 0xFF) < 256"
  by (simp_all add: low_field)

lemma ParseInt64_range: "ParseInt64 s = Some k \<Longrightarrow> - (2 ^ 63) \<le> k \<and> k < 2 ^ 63"
  unfolding ParseInt64_def Let_def by (auto split: prod.splits if_splits)

lemma parsed_place: "parseZxGponSuffix name base = Some loc \<Longrightarrow> zte_place loc"
  using byte_range ParseInt64_range
  by (auto simp: parseZxGponSuffix_def decodeZxGponIfIndex_def Let_def order_less_le
      split: list.splits option.splits if_splits)

lemma hsgq_location_place: "hsgq_place (hsgqLocation w)"
  using byte_range by (simp add: hsgqLocation_def)

lemma zteWalkStatuses_typed: "zteWalkStatuses ag = Some st \<Longrightarrow> typed (\<lambda>loc v. zte_place loc \<and> v < 30000) st"
  unfolding zteWalkStatuses_def Let_def
  by (auto split: if_splits prod.splits bool.splits option.splits simp: plain_reading_def
      intro!: status_walk.walk_typed parsed_place dest!: bind_eq_Some_conv [THEN iffD1])

lemma hsgqWalkColumn_typed:
  assumes "\<And>w v m. typed P m \<Longrightarrow> typed P (visit w v m)" "typed P m"
  shows "typed P (fst (hsgqWalkColumn ag table tail visit m))"
  unfolding hsgqWalkColumn_def Let_def
  by (auto split: prod.splits option.splits intro!: typed_fold assms)

lemma hsgqWalkStatuses_typed:
  assumes "hsgqWalkStatuses ag = Some st"
  shows "typed (\<lambda>loc v. hsgq_place loc \<and> v \<in> {PhaseStateOnline, PhaseStateOffline, PhaseStateUnknown}) st" (is "typed ?P st")
proof -
  let ?visit = "\<lambda>ifIndex v (m :: (ONTLocation \<times> int) list). case toInt64 v of None \<Rightarrow> m
      | Some raw \<Rightarrow> AList.update (hsgqLocation ifIndex) (hsgqDecodeStatus raw) m"
  have "typed ?P (fst (hsgqWalkColumn ag hsgqONUStatus [] ?visit []))"
    by (rule hsgqWalkColumn_typed)
      (auto split: option.split simp: hsgq_location_place hsgqDecodeStatus_def intro!: typed_update)
  then show ?thesis using assms by (auto simp: hsgqWalkStatuses_def split: if_splits prod.splits)
qed

text \<open>A batched read answers for what it was asked for.\<close>

lemma get_batches_inv:
  assumes "\<And>r v m. r \<in> set pending \<Longrightarrow> Q m \<Longrightarrow> Q (take_in r v m)" "Q m"
  shows "Q (get_batches ag n oid take_in pending m)"
  using assms
proof (induction ag n oid take_in pending m rule: get_batches.induct)
  case (1 ag n oid take_in pending m)
  show ?case
  proof (cases "pending = [] \<or> n = 0")
    case True
    then show ?thesis using "1.prems"(2) by (auto simp: get_batches.simps)
  next
    case False
    let ?m = "case ag_Get ag (map oid (take n pending)) of None \<Rightarrow> m
        | Some vars \<Rightarrow> fold (\<lambda>(r, v) m. take_in r v m) (zip (take n pending) vars) m"
    have step: "Q (fold (\<lambda>(r, v) m. take_in r v m) rvs m)" if "set rvs \<subseteq> set pending \<times> UNIV" "Q m" for rvs m
      using that
    proof (induction rvs arbitrary: m)
      case (Cons rv rvs)
      obtain r v where rv: "rv = (r, v)" by (cases rv)
      have "Q (take_in r v m)" by (rule "1.prems"(1)) (use Cons.prems rv in auto)
      then show ?case using Cons.IH [of "take_in r v m"] Cons.prems(1) by (simp add: rv)
    qed simp
    have "set (zip (take n pending) vars) \<subseteq> set pending \<times> UNIV" for vars :: "snmp_value option list"
      by (auto dest: set_zip_leftD in_set_takeD)
    then have "Q ?m" using "1.prems"(2) by (auto split: option.split intro!: step)
    moreover have "Q (take_in r v m')" if "r \<in> set (drop n pending)" "Q m'" for r v m'
      by (rule "1.prems"(1)) (use that in \<open>auto dest: in_set_dropD\<close>)
    ultimately show ?thesis using "1.IH" [OF False] False by (subst get_batches.simps) simp
  qed
qed

definition keyed_by :: "'k list \<Rightarrow> ('k \<times> 'v) list \<Rightarrow> bool" where
  "keyed_by ks m \<longleftrightarrow> distinct (map fst m) \<and> fst ` set m = set ks"

lemma keyed_by_update: "keyed_by ks m \<Longrightarrow> k \<in> set ks \<Longrightarrow> keyed_by ks (AList.update k v m)"
  by (auto simp: keyed_by_def distinct_update dom_update insert_absorb)

lemma keyed_by_alter: "keyed_by ks m \<Longrightarrow> k \<in> set ks \<Longrightarrow> keyed_by ks (alter zero k f m)"
  by (simp add: alter_def keyed_by_update)

lemma keyed_by_start: "keyed_by ks (fold (\<lambda>k. AList.update k zero) ks [])"
proof -
  have "distinct (map fst (fold (\<lambda>k. AList.update k zero) ks m))
      \<and> fst ` set (fold (\<lambda>k. AList.update k zero) ks m) = set ks \<union> fst ` set m" if "distinct (map fst m)" for m
    using that by (induction ks arbitrary: m) (auto simp: distinct_update dom_update)
  from this [of "[]"] show ?thesis by (simp add: keyed_by_def)
qed

lemma QueryMetricsFor_keyed:
  assumes "QueryMetricsFor ag locations = Some m"
  shows "keyed_by locations m"
proof (cases "locations = []")
  case True
  then show ?thesis using assms by (simp add: QueryMetricsFor_def keyed_by_def)
next
  case False
  then have m: "m = get_batches ag zteGetBatchSize (\<lambda>(loc, oid, apply). oid)
      (\<lambda>(loc, oid, apply) v metrics.
         case Option.bind v toInt64 of None \<Rightarrow> metrics | Some raw \<Rightarrow> alter no_metrics loc (apply raw) metrics)
      (concat (map (\<lambda>loc. map (Pair loc) (zteMetricColumns loc)) locations))
      (fold (\<lambda>loc m. AList.update loc no_metrics m) locations [])"
    using assms by (simp add: QueryMetricsFor_def split: if_splits)
  show ?thesis unfolding m
    by (rule get_batches_inv) (auto split: option.split intro!: keyed_by_start keyed_by_alter)
qed

lemma fetchZTEInventory_keyed: "keyed_by locations (fetchZTEInventory ag locations)"
  unfolding fetchZTEInventory_def
  by (rule get_batches_inv) (auto split: option.split intro!: keyed_by_start keyed_by_alter)

lemma grouped_mset:
  "distinct ks \<Longrightarrow> f ` set xs \<subseteq> set ks \<Longrightarrow> mset (concat (map (\<lambda>k. filter (\<lambda>x. f x = k) xs) ks)) = mset xs"
proof (induction ks arbitrary: xs)
  case (Cons k ks)
  have "mset (concat (map (\<lambda>j. filter (\<lambda>x. f x = j) (filter (\<lambda>x. f x \<noteq> k) xs)) ks)) = mset (filter (\<lambda>x. f x \<noteq> k) xs)"
    by (rule Cons.IH) (use Cons.prems in auto)
  moreover have "map (\<lambda>j. filter (\<lambda>x. f x = j) (filter (\<lambda>x. f x \<noteq> k) xs)) ks = map (\<lambda>j. filter (\<lambda>x. f x = j) xs) ks"
    using Cons.prems(1) by (auto intro!: filter_cong)
  ultimately have "mset (concat (map (\<lambda>j. filter (\<lambda>x. f x = j) xs) ks)) = mset (filter (\<lambda>x. f x \<noteq> k) xs)"
    by (simp only:)
  then show ?case using multiset_partition [of "mset xs" "\<lambda>x. f x = k"] by simp
qed simp

lemma fold_order:
  assumes "distinct order"
  shows "distinct (fold (\<lambda>x order. if f x \<in> set order then order else order @ [f x]) xs order)
    \<and> set (fold (\<lambda>x order. if f x \<in> set order then order else order @ [f x]) xs order) = set order \<union> f ` set xs"
  using assms by (induction xs arbitrary: order) (auto split: if_splits)

lemma port_groups_partition:
  "mset (concat (port_groups locations)) = mset locations"
  "g \<in> set (port_groups locations) \<Longrightarrow> \<exists>port. \<forall>loc \<in> set g. pon_port loc = port"
  using fold_order [of "[]" pon_port locations] by (auto simp: port_groups_def intro!: grouped_mset)

definition hsgq_identity :: "ONTLocation list \<Rightarrow> ONTLocation \<Rightarrow> ONTInventory \<Rightarrow> bool" where
  "hsgq_identity locations loc i \<longleftrightarrow>
     loc \<in> set locations \<and> hsgq_place loc \<and> oi_SerialNumber i = filter (\<lambda>c. c \<noteq> CHR '':'') (oi_MACAddress i)"

lemma hsgq_wanted_typed:
  assumes "typed (hsgq_identity locations) m"
    and "\<And>i. oi_SerialNumber i = filter (\<lambda>c. c \<noteq> CHR '':'') (oi_MACAddress i)
      \<Longrightarrow> oi_SerialNumber (f i) = filter (\<lambda>c. c \<noteq> CHR '':'') (oi_MACAddress (f i))"
  shows "typed (hsgq_identity locations) (hsgq_wanted locations w f m)"
proof (cases "hsgqLocation w \<in> set locations")
  case True
  then show ?thesis
    using assms(2) by (auto simp: hsgq_wanted_def no_inventory_def hsgq_identity_def hsgq_location_place
        intro!: typed_alter assms(1))
qed (simp add: hsgq_wanted_def assms(1))

lemma hsgq_text_typed:
  assumes "typed (hsgq_identity locations) m"
    and "\<And>v i. oi_SerialNumber (f v i) = oi_SerialNumber i \<and> oi_MACAddress (f v i) = oi_MACAddress i"
  shows "typed (hsgq_identity locations) (hsgq_text ag locations table f m)"
  unfolding hsgq_text_def
  by (rule hsgqWalkColumn_typed [OF _ assms(1)]) (auto intro!: hsgq_wanted_typed simp: assms(2))

lemma hsgqInventory_typed:
  assumes "hsgqInventory ag locations = Some found"
  shows "typed (hsgq_identity locations) found"
proof (cases "locations = []")
  case False
  then show ?thesis
    using assms unfolding hsgqInventory_def
    by (auto simp: Let_def split: if_splits
        intro!: hsgq_text_typed hsgqWalkColumn_typed hsgq_wanted_typed)
qed (use assms in \<open>simp add: hsgqInventory_def\<close>)

text \<open>An ONU that waits is listed once, by a serial number of twelve characters.\<close>

lemma autofind_length: "formatAutofindSerial v \<noteq> [] \<Longrightarrow> length (formatAutofindSerial v) = 12"
proof -
  have "length (concat (map hex2 bs)) = 2 * length bs" for bs by (induction bs) (auto simp: hex2_def)
  then show "formatAutofindSerial v \<noteq> [] \<Longrightarrow> length (formatAutofindSerial v) = 12"
    by (auto simp: formatAutofindSerial_def autofindSerialLen_def split: option.splits if_splits)
qed

lemma walkUncfgColumn_typed:
  assumes "\<And>idx v m. typed P m \<Longrightarrow> typed P (visit idx v m)" "typed P m"
  shows "typed P (fst (walkUncfgColumn ag column visit m))"
  unfolding walkUncfgColumn_def Let_def
  by (auto split: prod.splits option.splits intro!: typed_fold assms)

lemma unconfigured_serials:
  assumes "walkUnconfiguredONUs ag spent2 spent3 = Some onus" "u \<in> set onus"
  shows "length (un_SerialNumber u) = 12"
proof -
  let ?visit = "\<lambda>idx v (m :: (uncfgIndex \<times> string) list).
      if formatAutofindSerial v \<noteq> [] then AList.update idx (formatAutofindSerial v) m else m"
  have "typed (\<lambda>_ sn. length sn = 12) (fst (walkUncfgColumn ag OnuUncfgSerialNumberPrefix ?visit []))"
    by (rule walkUncfgColumn_typed) (auto simp: autofind_length intro!: typed_update)
  then show ?thesis
    using assms by (auto simp: walkUnconfiguredONUs_def typed_def split: if_splits prod.splits bool.splits)
qed

text \<open>C11. Whatever an agent sends, what the drivers hand over is well formed: the status walk of a ZTE chassis lists each position
  once, cards and ports between 1 and 255, and never the value that stands for no reading; the walk of an HSGQ one lists card 0,
  octets, and one of the three states it is mapped to; the batched reads answer for exactly the ONUs they were asked for; the
  instalments of an inventory partition them, one port each; and a serial number an HSGQ chassis gives is the MAC of an ONU that
  was asked for, without its colons.\<close>

theorem driver_answers_typed:
  "(case zteWalkStatuses ag of None \<Rightarrow> True | Some st \<Rightarrow> typed (\<lambda>loc v. zte_place loc \<and> v < 30000) st)
   \<and> (case hsgqWalkStatuses ag of None \<Rightarrow> True
      | Some st \<Rightarrow> typed (\<lambda>loc v. hsgq_place loc \<and> v \<in> {PhaseStateOnline, PhaseStateOffline, PhaseStateUnknown}) st)
   \<and> (case QueryMetricsFor ag locations of None \<Rightarrow> \<not> ag_up ag | Some m \<Rightarrow> keyed_by locations m)
   \<and> (case zteInventoryByPort ag locations of
        (parts, failed) \<Rightarrow>
          failed = (locations \<noteq> [] \<and> \<not> ag_up ag)
          \<and> mset (concat (map fst parts)) = (if failed then {#} else mset locations)
          \<and> list_all (\<lambda>(locs, found). keyed_by locs found \<and> (\<exists>port. set (map pon_port locs) \<subseteq> {port})) parts)
   \<and> (case hsgqInventory ag locations of None \<Rightarrow> \<not> ag_up ag | Some found \<Rightarrow> typed (hsgq_identity locations) found)"
proof (intro conjI)
  show "case QueryMetricsFor ag locations of None \<Rightarrow> \<not> ag_up ag | Some m \<Rightarrow> keyed_by locations m"
    using QueryMetricsFor_keyed [of ag locations] by (auto simp: QueryMetricsFor_def split: option.split if_splits)
  show "case hsgqInventory ag locations of None \<Rightarrow> \<not> ag_up ag | Some found \<Rightarrow> typed (hsgq_identity locations) found"
    using hsgqInventory_typed [of ag locations] by (auto simp: hsgqInventory_def split: option.split if_splits)
  have "fst ` set (map (\<lambda>locs. (locs, fetchZTEInventory ag locs)) gs) = set gs"
    "concat (map fst (map (\<lambda>locs. (locs, fetchZTEInventory ag locs)) gs)) = concat gs" for gs
    by (auto simp: image_image comp_def)
  then show "case zteInventoryByPort ag locations of
        (parts, failed) \<Rightarrow>
          failed = (locations \<noteq> [] \<and> \<not> ag_up ag)
          \<and> mset (concat (map fst parts)) = (if failed then {#} else mset locations)
          \<and> list_all (\<lambda>(locs, found). keyed_by locs found \<and> (\<exists>port. set (map pon_port locs) \<subseteq> {port})) parts"
    using port_groups_partition [where locations = locations]
    by (auto simp: zteInventoryByPort_def list_all_iff fetchZTEInventory_keyed comp_def) blast
qed (auto split: option.split dest: zteWalkStatuses_typed hsgqWalkStatuses_typed)

text \<open>C10. A ZTE chassis and its inventory come to rest: when the worker's synchronisation with a C300 or C320 ended without an
  error, the next one that reads the same registers nothing and fails nothing, and the ONUs it passes over are exactly those of
  the status walk - whatever the agent sent, since the walk lists no position twice and numbers every card.\<close>

theorem zte_sync_settles:
  assumes "inventory_ok s" "new_ids new" "olt_Model olt \<in> {''zte_c300'', ''zte_c320''}"
    and "syncOntsWithDiscovery new (DriverFor ag) now olt s = Some (r, s1)" "br_Errors r = []"
  shows "(case zteWalkStatuses ag of None \<Rightarrow> False | Some statuses \<Rightarrow>
      map_option fst (syncOntsWithDiscovery new (DriverFor ag) later olt s1) =
        Some \<lparr>br_Registered = 0, br_Skipped = length statuses, br_Errors = []\<rparr>)"
proof -
  have d: "DriverFor ag (olt_Model olt) = Some (zte_driver ag)" using assms(3) by (auto simp: DriverFor_def)
  then obtain statuses where w: "zteWalkStatuses ag = Some statuses"
    using assms(4) by (auto simp: syncOntsWithDiscovery_def discoverONTsForSync_def DiscoverOLTTopology_def zte_driver_def
        split: option.splits)
  note t = zteWalkStatuses_typed [OF w]
  have "fst l > 0" if "l \<in> fst ` set statuses" for l
    using t that by (cases l) (auto simp: typed_def)
  then show ?thesis
    using sync_settles [OF assms(1,2) d _ _ _ assms(4,5), of statuses later] t
    by (simp add: w zte_driver_def typed_def)
qed

section \<open>An agent asked and the same agent walked\<close>

text \<open>An agent that answers each instance by itself, and lists a table the way it answers for it.\<close>

definition answers_from :: "agent \<Rightarrow> (string \<Rightarrow> snmp_value option) \<Rightarrow> bool" where
  "answers_from ag ans \<longleftrightarrow> ag_up ag \<and> (\<forall>oids. ag_Get ag oids = Some (map ans oids))"

fun held_place :: "ONTLocation \<Rightarrow> bool" where
  "held_place (slot, port, k) \<longleftrightarrow> 0 < slot \<and> slot < 256 \<and> 0 < port \<and> port < 256 \<and> 0 \<le> k \<and> k < 2 ^ 63"

definition place_oid :: "string \<Rightarrow> string \<Rightarrow> ONTLocation \<Rightarrow> string" where
  "place_oid table r loc = (case loc of (slot, port, k) \<Rightarrow> instance_oid table (type_space slot port) k r)"

definition lists_table ::
  "agent \<Rightarrow> (string \<Rightarrow> snmp_value option) \<Rightarrow> string \<Rightarrow> string \<Rightarrow> (ONTLocation \<times> snmp_value) list \<Rightarrow> bool" where
  "lists_table ag ans table r rows \<longleftrightarrow>
     distinct (map fst rows) \<and> list_all held_place (map fst rows)
     \<and> bulkWalk ag table = (map (\<lambda>(loc, v). (place_oid table r loc, v)) rows, True)
     \<and> (\<forall>loc. held_place loc \<longrightarrow> ans (place_oid table r loc) = map_of rows loc)"

lemma get_batches_answered:
  assumes "answers_from ag ans" "n > 0"
  shows "get_batches ag n oid take_in pending m = fold (\<lambda>r. take_in r (ans (oid r))) pending m"
  using assms
proof (induction ag n oid take_in pending m rule: get_batches.induct)
  case (1 ag n oid take_in pending m)
  show ?case
  proof (cases "pending = []")
    case True
    then show ?thesis by (simp add: get_batches.simps)
  next
    case False
    have get: "ag_Get ag oids = Some (map ans oids)" for oids using "1.prems"(1) by (simp add: answers_from_def)
    have zipped: "fold (\<lambda>(r, v) m. take_in r v m) (zip rs (map ans (map oid rs))) m = fold (\<lambda>r. take_in r (ans (oid r))) rs m"
      for rs m by (induction rs arbitrary: m) auto
    have "fold (\<lambda>r. take_in r (ans (oid r))) pending m =
        fold (\<lambda>r. take_in r (ans (oid r))) (drop n pending) (fold (\<lambda>r. take_in r (ans (oid r))) (take n pending) m)"
      using fold_append [of "\<lambda>r. take_in r (ans (oid r))" "take n pending" "drop n pending"] by simp
    then show ?thesis
      using False "1.prems" "1.IH" by (subst get_batches.simps) (simp add: get zipped del: map_map)
  qed
qed

lemma names_base [simp]: "names_table (BaseOID2 @ t) (BaseOID2 @ t)"
  by (simp add: names_table_def BaseOID2_def TrimPrefix_def HasPrefix_code)

lemmas table_defs = phase_state_table_def rx_power_table_def tx_power_table_def distance_table_def temperature_table_def
  voltage_table_def bias_table_def

lemma place_read_back:
  assumes "held_place loc" "names_table table table" "tail_ok r"
  shows "parseZxGponSuffix (place_oid table r loc) table = Some loc"
  using assms parse_type_instance [OF assms(2)] by (cases loc) (simp add: place_oid_def)

lemma lists_tableD:
  assumes "lists_table ag ans table r rows"
  shows "distinct (map fst rows)" "loc \<in> fst ` set rows \<Longrightarrow> held_place loc"
    "bulkWalk ag table = (map (\<lambda>(loc, v). (place_oid table r loc, v)) rows, True)"
    "held_place loc \<Longrightarrow> ans (place_oid table r loc) = map_of rows loc"
  using assms by (auto simp: lists_table_def list_all_iff simp del: split_paired_All)

text \<open>The state of an ONU, asked for or found in the walk.\<close>

lemma walked_status:
  assumes "answers_from ag ans" "lists_table ag ans phase_state_table [] rows"
  shows "\<exists>st. zteWalkStatuses ag = Some st \<and> map_of st = (\<lambda>loc. Option.bind (map_of rows loc) plain_reading)"
proof -
  note l = lists_tableD [OF assms(2)]
  have "map_of (fold visit_status (map (\<lambda>(loc, v). (place_oid phase_state_table [] loc, v)) rows) []) loc =
      Option.bind (map_of rows loc) plain_reading" for loc
    by (subst status_walk.walk_shows)
      (auto simp: l(1) place_read_back l(2) table_defs tail_ok_def split: option.split)
  then show ?thesis using assms(1) l(3) by (auto simp: zteWalkStatuses_def answers_from_def)
qed

lemma asked_status:
  assumes "answers_from ag ans" "lists_table ag ans phase_state_table [] rows" "list_all held_place locations"
  shows "\<exists>st. QueryStatusFor ag locations = Some st
    \<and> map_of st = (\<lambda>loc. if loc \<in> set locations then Option.bind (map_of rows loc) plain_reading else None)"
proof -
  let ?take = "\<lambda>loc v statuses. case Option.bind v toInt64 of None \<Rightarrow> statuses
      | Some st \<Rightarrow> if st < 30000 then AList.update loc st statuses else statuses"
  have take: "?take loc v statuses = (case Option.bind v plain_reading of None \<Rightarrow> statuses | Some x \<Rightarrow> AList.update loc x statuses)"
    for loc v statuses by (cases v) (auto simp: plain_reading_def split: option.split)
  have "map_of (fold (\<lambda>loc. ?take loc (ans (place_oid phase_state_table [] loc))) locations m) loc' =
      (case (if loc' \<in> set locations then Option.bind (map_of rows loc') plain_reading else None) of
         Some v \<Rightarrow> Some v | None \<Rightarrow> map_of m loc')" for m loc'
    using assms(3) unfolding take
  proof (induction locations arbitrary: m)
    case (Cons loc locations)
    have "ans (place_oid phase_state_table [] loc) = map_of rows loc"
      using lists_tableD(4) [OF assms(2)] Cons.prems by simp
    then show ?case
      using Cons by (auto simp: update_conv' split: option.split)
  qed simp
  then have "map_of (fold (\<lambda>loc. ?take loc (ans (place_oid phase_state_table [] loc))) locations []) =
      (\<lambda>loc. if loc \<in> set locations then Option.bind (map_of rows loc) plain_reading else None)"
    by (intro ext) (simp split: option.split)
  moreover have "(\<lambda>(slot, port, ontID). instance_oid phase_state_table (type_space slot port) ontID []) = place_oid phase_state_table []"
    by (rule ext) (simp add: place_oid_def)
  ultimately show ?thesis
    using assms(1)
    by (auto simp: QueryStatusFor_def answers_from_def zteGetBatchSize_def get_batches_answered [OF assms(1)])
qed

text \<open>The figures of one ONU, from what each table holds for it.\<close>

definition figures :: "(string \<Rightarrow> int option) \<Rightarrow> ONTMetrics" where
  "figures r = no_metrics
     \<lparr>om_RxPower := Option.bind (r rx_power_table) decodeZxGponPower,
      om_TxPower := Option.bind (r tx_power_table) decodeZxGponPower,
      om_Temperature := (case r temperature_table of None \<Rightarrow> 0 | Some v \<Rightarrow> of_int v / 256),
      om_Voltage := (case r voltage_table of None \<Rightarrow> 0 | Some v \<Rightarrow> of_int v / 10000),
      om_TxBiasCurrent := (case r bias_table of None \<Rightarrow> 0 | Some v \<Rightarrow> of_int v / 500),
      om_Distance := (case r distance_table of None \<Rightarrow> 0 | Some v \<Rightarrow> v)\<rparr>"

definition metric_tables :: "(string \<times> string) list" where
  "metric_tables = [(rx_power_table, ''.1''), (tx_power_table, ''.1''), (temperature_table, ''.1''), (voltage_table, ''.1''),
     (bias_table, ''.1''), (distance_table, [])]"

definition raw_of :: "(string \<Rightarrow> (ONTLocation \<times> snmp_value) list) \<Rightarrow> ONTLocation \<Rightarrow> string \<Rightarrow> int option" where
  "raw_of rows loc t = Option.bind (map_of (rows t) loc) toInt64"

definition walked_of :: "(string \<Rightarrow> (ONTLocation \<times> snmp_value) list) \<Rightarrow> ONTLocation \<Rightarrow> string \<Rightarrow> int option" where
  "walked_of rows loc t = (if t = rx_power_table then raw_of rows loc t else Option.bind (map_of (rows t) loc) plain_reading)"

lemma option_apply: "(case x of None \<Rightarrow> id | Some v \<Rightarrow> f v) y = (case x of None \<Rightarrow> y | Some v \<Rightarrow> f v y)"
  by (simp split: option.split)

lemma figures_put:
  "figures r = (case r distance_table of None \<Rightarrow> id | Some v \<Rightarrow> om_Distance_update (\<lambda>_. v))
    ((case r bias_table of None \<Rightarrow> id | Some v \<Rightarrow> om_TxBiasCurrent_update (\<lambda>_. of_int v / 500))
    ((case r voltage_table of None \<Rightarrow> id | Some v \<Rightarrow> om_Voltage_update (\<lambda>_. of_int v / 10000))
    ((case r temperature_table of None \<Rightarrow> id | Some v \<Rightarrow> om_Temperature_update (\<lambda>_. of_int v / 256))
    ((case r tx_power_table of None \<Rightarrow> id | Some v \<Rightarrow> om_TxPower_update (\<lambda>_. decodeZxGponPower v))
    ((case r rx_power_table of None \<Rightarrow> id | Some v \<Rightarrow> om_RxPower_update (\<lambda>_. decodeZxGponPower v)) no_metrics)))))"
  by (simp add: figures_def no_metrics_def split: option.split)

lemma asked_metrics:
  assumes "answers_from ag ans" "list_all (\<lambda>(t, r). lists_table ag ans t r (rows t)) metric_tables"
    and "distinct locations" "list_all held_place locations"
  shows "\<exists>m. QueryMetricsFor ag locations = Some m \<and> (\<forall>loc \<in> set locations. value_of no_metrics m loc = figures (raw_of rows loc))"
proof -
  let ?step = "\<lambda>(loc, oid, apply) metrics. case Option.bind (ans oid) toInt64 of None \<Rightarrow> metrics
      | Some raw \<Rightarrow> alter no_metrics loc (apply raw) metrics"
  let ?pending = "concat (map (\<lambda>loc. map (Pair loc) (zteMetricColumns loc)) locations)"
  let ?start = "fold (\<lambda>loc m. AList.update loc no_metrics m) locations []"
  have start: "value_of no_metrics (fold (\<lambda>loc m. AList.update loc no_metrics m) ls m) loc = no_metrics"
    if "value_of no_metrics m loc = no_metrics" for ls m loc
    using that by (induction ls arbitrary: m) auto
  have own: "value_of no_metrics (fold ?step (map (Pair loc) cs) m) loc =
      fold (\<lambda>(oid, apply) v. case Option.bind (ans oid) toInt64 of None \<Rightarrow> v | Some raw \<Rightarrow> apply raw v) cs (value_of no_metrics m loc)"
    for loc cs m by (induction cs arbitrary: m) (auto split: option.split)
  have other: "value_of no_metrics (fold ?step (map (Pair loc') cs) m) loc = value_of no_metrics m loc" if "loc' \<noteq> loc" for loc' loc cs m
    using that by (induction cs arbitrary: m) (auto split: option.split)
  have rest: "value_of no_metrics (fold ?step (concat (map (\<lambda>l. map (Pair l) (zteMetricColumns l)) ls)) m) loc =
      value_of no_metrics m loc" if "loc \<notin> set ls" for loc ls m
    using that by (induction ls arbitrary: m) (auto simp: other)
  have columns: "fold (\<lambda>(oid, apply) v. case Option.bind (ans oid) toInt64 of None \<Rightarrow> v | Some raw \<Rightarrow> apply raw v)
      (zteMetricColumns loc) no_metrics = figures (raw_of rows loc)" if held: "held_place loc" for loc
  proof -
    obtain slot port k where loc: "loc = (slot, port, k)" by (cases loc)
    have "ans (place_oid t r loc) = map_of (rows t) loc" if "(t, r) \<in> set metric_tables" for t r
      using assms(2) that lists_tableD(4) [OF _ held] by (auto simp: list_all_iff)
    then have "\<And>t r. (t, r) \<in> set metric_tables \<Longrightarrow> ans (instance_oid t (type_space slot port) k r) = map_of (rows t) loc"
      by (simp add: place_oid_def loc)
    from this [of rx_power_table "''.1''"] this [of tx_power_table "''.1''"] this [of temperature_table "''.1''"]
      this [of voltage_table "''.1''"] this [of bias_table "''.1''"] this [of distance_table "[]"]
    show ?thesis
      by (simp add: metric_tables_def zteMetricColumns_def loc figures_put raw_of_def option_apply)
  qed
  have all: "value_of no_metrics (fold ?step ?pending m) loc = figures (raw_of rows loc)"
    if "loc \<in> set locations" "value_of no_metrics m loc = no_metrics" for loc m
    using assms(3,4) that
  proof (induction locations arbitrary: m)
    case (Cons l ls)
    show ?case
    proof (cases "l = loc")
      case True
      then show ?thesis using Cons.prems by (simp add: rest own columns)
    next
      case False
      then show ?thesis using Cons.prems Cons.IH [of "fold ?step (map (Pair l) (zteMetricColumns l)) m"] by (simp add: other)
    qed
  qed simp
  have "QueryMetricsFor ag locations = Some (if locations = [] then [] else fold ?step ?pending ?start)"
    using assms(1) by (simp add: QueryMetricsFor_def get_batches_answered [OF assms(1)] zteGetBatchSize_def answers_from_def
        case_prod_unfold)
  moreover have "\<forall>loc \<in> set locations. value_of no_metrics (fold ?step ?pending ?start) loc = figures (raw_of rows loc)"
    by (intro ballI all start value_of_Nil)
  ultimately show ?thesis
    by (intro exI [of _ "if locations = [] then [] else fold ?step ?pending ?start"] conjI)
      (assumption, cases "locations = []", simp_all only: list.set ball_empty if_True if_False not_True_eq_False)
qed

lemma value_of_None: "map_of m k = None \<Longrightarrow> value_of zero m k = zero"
  by (simp add: value_of_def)

lemma merge_table_fold:
  "merge_table assign fresh (Some rows) m =
     fold (\<lambda>(k, v) m. AList.update k (if map_of m k = None then fresh v else assign v (value_of no_metrics m k)) m) rows m"
  unfolding merge_table_def option.case
  by (rule fold_cong) (auto simp: value_of_def fun_eq_iff split: option.split)

lemma merged_metric:
  assumes "ag_up ag" "lists_table ag ans (BaseOID2 @ t) r rows" "tail_ok r"
    and "\<And>v m. assign (mapper v) m = put v m" "\<And>v. mapper v = put v no_metrics"
  shows "value_of no_metrics (merge_table assign id (walkONTMetricTable ag (BaseOID2 @ t) mapper) m) loc =
    (case Option.bind (map_of rows loc) plain_reading of None \<Rightarrow> id | Some v \<Rightarrow> put v) (value_of no_metrics m loc)"
proof -
  let ?t = "BaseOID2 @ t"
  note l = lists_tableD [OF assms(2)]
  define tbl where "tbl = fold (visit_metric ?t mapper) (map (\<lambda>(loc, v). (place_oid ?t r loc, v)) rows) []"
  have walk: "walkONTMetricTable ag ?t mapper = Some tbl"
    using assms(1) l(3) by (simp add: walkONTMetricTable_def tbl_def)
  have shown: "map_of tbl loc = map_option mapper (Option.bind (map_of rows loc) plain_reading)" for loc
    unfolding tbl_def
    by (subst metric_walk.walk_shows)
      (auto simp: l(1) place_read_back [OF l(2) names_base assms(3)] split: option.split bind_split)
  have once: "distinct (map fst tbl)"
    using metric_walk.walk_typed [of ?t "\<lambda>_. True" mapper "\<lambda>_. True"] unfolding tbl_def typed_def by simp
  have "value_of no_metrics (merge_table assign id (Some tb) m) loc =
      (case map_of tb loc of None \<Rightarrow> value_of no_metrics m loc
       | Some v \<Rightarrow> (if map_of m loc = None then v else assign v (value_of no_metrics m loc)))"
    if "distinct (map fst tb)" for tb m
    using that unfolding merge_table_fold
  proof (induction tb arbitrary: m)
    case (Cons kv tb)
    obtain k v where kv: "kv = (k, v)" by (cases kv)
    have "map_of tb k = None" using Cons.prems by (simp add: kv map_of_eq_None_iff)
    then show ?case using Cons by (cases "map_of tb loc") (auto simp: kv update_conv')
  qed simp
  from this [OF once, of m] show ?thesis
    by (cases "Option.bind (map_of rows loc) plain_reading"; cases "map_of m loc")
      (simp_all add: walk shown assms(4) [unfolded assms(5)] assms(5) value_of_None)
qed

lemma merged_version:
  "(value_of no_metrics (merge_table (\<lambda>v m. m\<lparr>om_SoftwareVersion := v\<rparr>) (\<lambda>v. no_metrics\<lparr>om_SoftwareVersion := v\<rparr>) tbl m) loc)
      \<lparr>om_SoftwareVersion := w\<rparr> = (value_of no_metrics m loc)\<lparr>om_SoftwareVersion := w\<rparr>"
proof (cases tbl)
  case (Some rows)
  show ?thesis unfolding Some merge_table_fold
    by (induction rows arbitrary: m) (auto simp: value_of_None)
qed (simp add: merge_table_def)

lemma rx_arcs:
  assumes "held_place (slot, port, k)"
  shows "instance_arcs (place_oid rx_power_table ''.1'' (slot, port, k)) rx_power_table =
    Some [dec (nat (type_space slot port)), dec (nat k), ''1'']"
proof -
  have "instance_arcs (instance_oid (BaseOID2 @ t) i k ''.1'') (BaseOID2 @ t) = Some [dec (nat i), dec (nat k), ''1'']"
    if "0 \<le> i" "0 \<le> k" for t i k
  proof -
    have b: "TrimPrefix (BaseOID2 @ u) ''.'' = tl BaseOID2 @ u" for u by (simp add: BaseOID2_def)
    have "TrimPrefix (instance_oid (BaseOID2 @ t) i k ''.1'') ''.'' =
        (TrimPrefix (BaseOID2 @ t) ''.'' @ ''.'') @ dec (nat i) @ CHR ''.'' # dec (nat k) @ CHR ''.'' # ''1''"
      using that b [of "t @ ''.'' @ itoa i @ ''.'' @ itoa k @ ''.1''"] b [of t] by (simp add: instance_oid_def itoa_def)
    then show ?thesis
      unfolding instance_arcs_def Let_def
      by (simp only: HasPrefix_append TrimPrefix_append not_True_eq_False if_False) (simp add: Split_append)
  qed
  moreover have "0 \<le> type_space slot port" using assms by (simp add: type_space_def index_consts)
  ultimately show ?thesis using assms by (simp add: place_oid_def rx_power_table_def)
qed

lemma rx_visited:
  assumes "held_place loc"
  shows "visit_rx (place_oid rx_power_table ''.1'' loc, v) m =
    (case toInt64 v of None \<Rightarrow> m | Some raw \<Rightarrow> alter no_metrics loc (\<lambda>m. m\<lparr>om_RxPower := decodeZxGponPower raw\<rparr>) m)"
proof -
  obtain slot port k where loc: "loc = (slot, port, k)" by (cases loc)
  have range: "0 \<le> type_space slot port" "type_space slot port < 2 ^ 32"
    using assms by (simp_all add: loc type_space_def index_consts)
  have "uint (of_nat (nat (type_space slot port)) :: u32) = type_space slot port"
    using range by (simp add: uint_word_of_int take_bit_eq_mod)
  from decode_type_space(2) [OF this] show ?thesis
    using range assms rx_arcs [of slot port k] unfolding loc
    by (simp add: visit_rx_def ParseUint_dec ParseInt64_dec nat_less_iff)
qed

lemma rx_walked:
  assumes "lists_table ag ans rx_power_table ''.1'' rows"
  shows "value_of no_metrics (fold visit_rx (fst (bulkWalk ag rx_power_table)) []) loc =
    (case Option.bind (map_of rows loc) toInt64 of None \<Rightarrow> id | Some v \<Rightarrow> om_RxPower_update (\<lambda>_. decodeZxGponPower v)) no_metrics"
proof -
  have "value_of no_metrics (fold visit_rx (map (\<lambda>(loc, v). (place_oid rx_power_table ''.1'' loc, v)) rs) m) loc =
      (case Option.bind (map_of rs loc) toInt64 of None \<Rightarrow> id | Some v \<Rightarrow> om_RxPower_update (\<lambda>_. decodeZxGponPower v))
        (value_of no_metrics m loc)" if "distinct (map fst rs)" "list_all held_place (map fst rs)" for rs m
    using that
  proof (induction rs arbitrary: m)
    case (Cons kv rs)
    obtain k v where kv: "kv = (k, v)" by (cases kv)
    have "map_of rs k = None" using Cons.prems(1) by (simp add: kv map_of_eq_None_iff)
    then show ?case using Cons by (auto simp: kv rx_visited split: option.split)
  qed simp
  then show ?thesis using assms by (simp add: lists_table_def)
qed

lemma figures_walk_order:
  "figures r = (case r bias_table of None \<Rightarrow> id | Some v \<Rightarrow> om_TxBiasCurrent_update (\<lambda>_. of_int v / 500))
    ((case r voltage_table of None \<Rightarrow> id | Some v \<Rightarrow> om_Voltage_update (\<lambda>_. of_int v / 10000))
    ((case r temperature_table of None \<Rightarrow> id | Some v \<Rightarrow> om_Temperature_update (\<lambda>_. of_int v / 256))
    ((case r distance_table of None \<Rightarrow> id | Some v \<Rightarrow> om_Distance_update (\<lambda>_. v))
    ((case r tx_power_table of None \<Rightarrow> id | Some v \<Rightarrow> om_TxPower_update (\<lambda>_. decodeZxGponPower v))
    ((case r rx_power_table of None \<Rightarrow> id | Some v \<Rightarrow> om_RxPower_update (\<lambda>_. decodeZxGponPower v)) no_metrics)))))"
  by (simp add: figures_def no_metrics_def split: option.split)

lemma figures_version: "(figures r)\<lparr>om_SoftwareVersion := []\<rparr> = figures r"
  by (simp add: figures_def no_metrics_def)

lemma walked_metrics:
  assumes "answers_from ag ans" "list_all (\<lambda>(t, r). lists_table ag ans t r (rows t)) metric_tables"
  shows "\<exists>w. zteWalkMetrics ag = Some w
    \<and> (\<forall>loc. (value_of no_metrics w loc)\<lparr>om_SoftwareVersion := []\<rparr> = figures (walked_of rows loc))"
proof -
  have up: "ag_up ag" using assms(1) by (simp add: answers_from_def)
  have l: "lists_table ag ans t r (rows t)" if "(t, r) \<in> set metric_tables" for t r
    using assms(2) that by (auto simp: list_all_iff)
  have t: "tail_ok ''.1''" "tail_ok []" by (simp_all add: tail_ok_def)
  let ?tx = "merge_table (\<lambda>v m. m\<lparr>om_TxPower := om_TxPower v\<rparr>) id
      (walkONTMetricTable ag tx_power_table (\<lambda>raw. no_metrics\<lparr>om_TxPower := decodeZxGponPower raw\<rparr>))"
  let ?di = "merge_table (\<lambda>v m. m\<lparr>om_Distance := om_Distance v\<rparr>) id
      (walkONTMetricTable ag distance_table (\<lambda>raw. no_metrics\<lparr>om_Distance := raw\<rparr>))"
  let ?te = "merge_table (\<lambda>v m. m\<lparr>om_Temperature := om_Temperature v\<rparr>) id
      (walkONTMetricTable ag temperature_table (\<lambda>raw. no_metrics\<lparr>om_Temperature := of_int raw / 256\<rparr>))"
  let ?vo = "merge_table (\<lambda>v m. m\<lparr>om_Voltage := om_Voltage v\<rparr>) id
      (walkONTMetricTable ag voltage_table (\<lambda>raw. no_metrics\<lparr>om_Voltage := of_int raw / 10000\<rparr>))"
  let ?bi = "merge_table (\<lambda>v m. m\<lparr>om_TxBiasCurrent := om_TxBiasCurrent v\<rparr>) id
      (walkONTMetricTable ag bias_table (\<lambda>raw. no_metrics\<lparr>om_TxBiasCurrent := of_int raw / 500\<rparr>))"
  note merged = merged_metric [OF up]
  have tx: "value_of no_metrics (?tx m) loc = (case Option.bind (map_of (rows tx_power_table) loc) plain_reading of None \<Rightarrow> id
      | Some v \<Rightarrow> om_TxPower_update (\<lambda>_. decodeZxGponPower v)) (value_of no_metrics m loc)" for m loc
    unfolding tx_power_table_def by (rule merged [OF _ t(1)]) (use l in \<open>auto simp: metric_tables_def tx_power_table_def\<close>)
  have di: "value_of no_metrics (?di m) loc = (case Option.bind (map_of (rows distance_table) loc) plain_reading of None \<Rightarrow> id
      | Some v \<Rightarrow> om_Distance_update (\<lambda>_. v)) (value_of no_metrics m loc)" for m loc
    unfolding distance_table_def by (rule merged [OF _ t(2)]) (use l in \<open>auto simp: metric_tables_def distance_table_def\<close>)
  have te: "value_of no_metrics (?te m) loc = (case Option.bind (map_of (rows temperature_table) loc) plain_reading of None \<Rightarrow> id
      | Some v \<Rightarrow> om_Temperature_update (\<lambda>_. of_int v / 256)) (value_of no_metrics m loc)" for m loc
    unfolding temperature_table_def by (rule merged [OF _ t(1)]) (use l in \<open>auto simp: metric_tables_def temperature_table_def\<close>)
  have vo: "value_of no_metrics (?vo m) loc = (case Option.bind (map_of (rows voltage_table) loc) plain_reading of None \<Rightarrow> id
      | Some v \<Rightarrow> om_Voltage_update (\<lambda>_. of_int v / 10000)) (value_of no_metrics m loc)" for m loc
    unfolding voltage_table_def by (rule merged [OF _ t(1)]) (use l in \<open>auto simp: metric_tables_def voltage_table_def\<close>)
  have bi: "value_of no_metrics (?bi m) loc = (case Option.bind (map_of (rows bias_table) loc) plain_reading of None \<Rightarrow> id
      | Some v \<Rightarrow> om_TxBiasCurrent_update (\<lambda>_. of_int v / 500)) (value_of no_metrics m loc)" for m loc
    unfolding bias_table_def by (rule merged [OF _ t(1)]) (use l in \<open>auto simp: metric_tables_def bias_table_def\<close>)
  have rx: "value_of no_metrics (fold visit_rx (fst (bulkWalk ag rx_power_table)) []) loc =
      (case Option.bind (map_of (rows rx_power_table) loc) toInt64 of None \<Rightarrow> id
       | Some v \<Rightarrow> om_RxPower_update (\<lambda>_. decodeZxGponPower v)) no_metrics" for loc
    by (rule rx_walked [where ans = ans]) (rule l, simp add: metric_tables_def)
  have names: "tx_power_table \<noteq> rx_power_table" "distance_table \<noteq> rx_power_table" "temperature_table \<noteq> rx_power_table"
    "voltage_table \<noteq> rx_power_table" "bias_table \<noteq> rx_power_table"
    by (simp_all add: table_defs)
  have "zteWalkMetrics ag = Some (merge_table (\<lambda>v m. m\<lparr>om_SoftwareVersion := v\<rparr>) (\<lambda>v. no_metrics\<lparr>om_SoftwareVersion := v\<rparr>)
      (walkONTStringTable ag equipment_table) (?bi (?vo (?te (?di (?tx (fold visit_rx (fst (bulkWalk ag rx_power_table)) [])))))))"
    using up by (simp add: zteWalkMetrics_def Let_def)
  moreover have "value_of no_metrics (?bi (?vo (?te (?di (?tx (fold visit_rx (fst (bulkWalk ag rx_power_table)) [])))))) loc =
      figures (walked_of rows loc)" for loc
    unfolding bi vo te di tx rx figures_walk_order by (simp only: walked_of_def names refl if_False if_True raw_of_def)
  ultimately show ?thesis by (simp add: merged_version figures_version)
qed

text \<open>C9. Asked or walked, a ZTE chassis says the same of an ONU: for an agent that answers for an instance what it lists, and
  that lists no reading of 30000 or more but a received power, the state of each ONU asked for is the one of the status walk, and
  every figure the batched reads give of it is the figure of the metric walk, which adds the equipment's version only.\<close>

theorem asked_is_walked:
  assumes "answers_from ag ans" "lists_table ag ans phase_state_table [] phases"
    and "list_all (\<lambda>(t, r). lists_table ag ans t r (rows t)) metric_tables"
    and "list_all (\<lambda>(t, r). t = rx_power_table \<or> list_all (\<lambda>(loc, v). toInt64 v = plain_reading v) (rows t)) metric_tables"
    and "distinct locations" "list_all held_place locations"
  shows "(case (QueryStatusFor ag locations, zteWalkStatuses ag) of
        (Some asked, Some swept) \<Rightarrow> list_all (\<lambda>loc. map_of asked loc = map_of swept loc) locations | _ \<Rightarrow> False)
    \<and> (case (QueryMetricsFor ag locations, zteWalkMetrics ag) of
        (Some asked, Some swept) \<Rightarrow>
          list_all (\<lambda>loc. value_of no_metrics asked loc = (value_of no_metrics swept loc)\<lparr>om_SoftwareVersion := []\<rparr>) locations
      | _ \<Rightarrow> False)"
proof -
  have "Option.bind (map_of (rows t) loc) toInt64 = Option.bind (map_of (rows t) loc) plain_reading"
    if "(t, r) \<in> set metric_tables" "t \<noteq> rx_power_table" for t r loc
    using assms(4) that by (cases "map_of (rows t) loc") (auto simp: list_all_iff dest!: map_of_SomeD)
  then have plain: "raw_of rows loc t = walked_of rows loc t" if "t \<in> fst ` set metric_tables" for t loc
    using that by (cases loc) (auto simp: raw_of_def walked_of_def)
  have "figures (raw_of rows loc) = figures (walked_of rows loc)" for loc
    by (simp add: figures_def plain metric_tables_def)
  then show ?thesis
    using asked_status [OF assms(1,2,6)] walked_status [OF assms(1,2)]
      asked_metrics [OF assms(1,3,5,6)] walked_metrics [OF assms(1,3)]
    by (auto simp: list_all_iff)
qed

text \<open>The walk takes every reading of 30000 or more for a sentinel, a supply voltage of 3.3 V (33000 tenths of a millivolt) too;
  the batched read does not: the same agent, two figures.\<close>

lemma walk_loses_the_voltage:
  assumes "answers_from ag ans" "list_all (\<lambda>(t, r). lists_table ag ans t r (rows t)) metric_tables" "held_place loc"
    and "raw_of rows loc voltage_table = Some 33000"
  shows "\<exists>asked swept. QueryMetricsFor ag [loc] = Some asked \<and> om_Voltage (value_of no_metrics asked loc) = 3.3
    \<and> zteWalkMetrics ag = Some swept \<and> om_Voltage (value_of no_metrics swept loc) = 0"
proof -
  have "walked_of rows loc voltage_table = None"
    using assms(4) by (cases "map_of (rows voltage_table) loc") (auto simp: walked_of_def raw_of_def plain_reading_def table_defs)
  moreover obtain swept where w: "zteWalkMetrics ag = Some swept"
    "(value_of no_metrics swept loc)\<lparr>om_SoftwareVersion := []\<rparr> = figures (walked_of rows loc)"
    using walked_metrics [OF assms(1,2)] by blast
  moreover have "om_Voltage (value_of no_metrics swept loc) = om_Voltage ((value_of no_metrics swept loc)\<lparr>om_SoftwareVersion := []\<rparr>)"
    by simp
  ultimately have "om_Voltage (value_of no_metrics swept loc) = 0" by (simp only: w(2)) (simp add: figures_def)
  moreover obtain asked where "QueryMetricsFor ag [loc] = Some asked" "value_of no_metrics asked loc = figures (raw_of rows loc)"
    using asked_metrics [OF assms(1,2), of "[loc]"] assms(3) by auto
  ultimately show ?thesis using w(1) assms(4) by (auto simp: figures_def)
qed

text \<open>The single read asks for the distance below one arc more than its table has: an agent that answers as the table is
  indexed has nothing there, and the distance reads 0.\<close>

lemma single_read_has_no_distance:
  assumes "ag_up ag" "ag_Get ag [instance_oid distance_table (uint (encodeZxGponIfIndex 0x10 slot port)) ontID ''.1''] = Some [None]"
    and "zteQueryONTMetrics ag slot port ontID = Some m"
  shows "om_Distance m = 0"
  using assms by (auto simp: zteQueryONTMetrics_def query_one_def Let_def)

section \<open>At a concrete agent\<close>

definition sample_tables :: "((string \<times> string) \<times> snmp_value) list" where
  "sample_tables = ((phase_state_table, []), VInt 3) #
     zip metric_tables [VInt 5000, VInt 6000, VInt 9000, VInt 29000, VInt 3000, VInt 1200]"

definition sample_rows :: "string \<Rightarrow> (ONTLocation \<times> snmp_value) list" where
  "sample_rows t = map (\<lambda>(_, v). ((3, 1, 5), v)) (filter (\<lambda>((t', _), _). t' = t) sample_tables)"

definition sample_ans :: "string \<Rightarrow> snmp_value option" where
  "sample_ans = map_of (map (\<lambda>((t, r), v). (place_oid t r (3, 1, 5), v)) sample_tables)"

definition sample_rest :: "string \<Rightarrow> string" where
  "sample_rest t = (if t = phase_state_table \<or> t = distance_table then [] else ''.1'')"

definition sample_agent :: agent where
  "sample_agent = \<lparr>ag_up = True,
     ag_BulkWalk = (\<lambda>t. (map (\<lambda>(loc, v). (place_oid t (sample_rest t) loc, v)) (sample_rows t), True)),
     ag_Walk = (\<lambda>table. ([], False)),
     ag_Get = (\<lambda>oids. Some (map sample_ans oids))\<rparr>"

definition names_apart_at :: "string \<Rightarrow> string \<Rightarrow> bool" where
  "names_apart_at t t' \<longleftrightarrow> (let n = Suc (min (length t) (length t')) in take n (t @ ''.'') \<noteq> take n (t' @ ''.''))"

lemma apart_tables: "names_apart_at t t' \<Longrightarrow> place_oid t r loc \<noteq> place_oid t' r' loc'"
proof
  assume apart: "names_apart_at t t'" and eq: "place_oid t r loc = place_oid t' r' loc'"
  let ?n = "Suc (min (length t) (length t'))"
  have "take ?n (place_oid u q l) = take ?n (u @ ''.'')" if "?n \<le> Suc (length u)" for u q l
    using that by (cases l) (simp add: place_oid_def instance_oid_def take_Cons' split: nat_diff_split)
  from this [of t r loc] this [of t' r' loc'] show False using apart eq by (simp add: names_apart_at_def Let_def)
qed

lemma sample_lists: "list_all (\<lambda>((t, r), v). lists_table sample_agent sample_ans t r (sample_rows t)) sample_tables"
proof -
  let ?x = "(3, 1, 5) :: ONTLocation"
  have names: "list_all (\<lambda>((t, r), _). names_table t t \<and> tail_ok r \<and> sample_rest t = r) sample_tables"
    and others: "list_all (\<lambda>((t, _), _). list_all (\<lambda>((t', _), _). t' = t \<or> names_apart_at t t') sample_tables) sample_tables"
    and rows: "list_all (\<lambda>((t, r), v). sample_rows t = [(?x, v)]) sample_tables"
    and finds: "list_all (\<lambda>((t, r), v). sample_ans (place_oid t r ?x) = Some v) sample_tables"
    by code_simp+
  have "sample_ans (place_oid t r loc) = map_of (sample_rows t) loc" if t: "((t, r), v) \<in> set sample_tables" and h: "held_place loc" for t r v loc
  proof (cases "loc = ?x")
    case True
    then show ?thesis
      using bspec [OF finds [unfolded list_all_iff] t] bspec [OF rows [unfolded list_all_iff] t] by simp
  next
    case False
    have "place_oid t' r' ?x \<noteq> place_oid t r loc" if t': "((t', r'), v') \<in> set sample_tables" for t' r' v'
    proof (cases "t' = t")
      case True
      have "parseZxGponSuffix (place_oid t r loc) t = Some loc" "parseZxGponSuffix (place_oid t r' ?x) t = Some ?x"
        by (rule place_read_back; use names h t t' True in \<open>auto simp: list_all_iff\<close>)+
      then show ?thesis using False True by auto
    next
      case False
      then have "names_apart_at t' t"
        using bspec [OF bspec [OF others [unfolded list_all_iff] t', simplified prod.case list_all_iff] t] by auto
      then show ?thesis by (rule apart_tables)
    qed
    then have "sample_ans (place_oid t r loc) = None" by (force simp: sample_ans_def map_of_eq_None_iff)
    then show ?thesis using False rows t by (auto simp: list_all_iff)
  qed
  then show ?thesis
    using names rows by (auto simp: list_all_iff lists_table_def bulkWalk_def sample_agent_def)
qed

lemma asked_is_walked_witness:
  "(case (QueryStatusFor sample_agent [(3, 1, 5)], zteWalkStatuses sample_agent) of
      (Some asked, Some swept) \<Rightarrow> map_of asked (3, 1, 5) = map_of swept (3, 1, 5) | _ \<Rightarrow> False)"
proof -
  have "answers_from sample_agent sample_ans" by (simp add: answers_from_def sample_agent_def)
  moreover have "lists_table sample_agent sample_ans phase_state_table [] (sample_rows phase_state_table)"
    "list_all (\<lambda>(t, r). lists_table sample_agent sample_ans t r (sample_rows t)) metric_tables"
    using sample_lists by (simp_all add: sample_tables_def metric_tables_def)
  moreover have "list_all (\<lambda>(t, r). t = rx_power_table \<or> list_all (\<lambda>(loc, v). toInt64 v = plain_reading v) (sample_rows t)) metric_tables"
    by code_simp
  ultimately show ?thesis
    using asked_is_walked [of sample_agent sample_ans "sample_rows phase_state_table" sample_rows "[(3, 1, 5)]"]
    by (auto split: option.splits)
qed

text \<open>An agent whose walks answer and whose reads fail.\<close>

definition walked_agent :: agent where
  "walked_agent = sample_agent\<lparr>ag_Get := (\<lambda>_. None)\<rparr>"

lemma unanswered: "ag_Get ag = (\<lambda>_. None) \<Longrightarrow> get_batches ag n oid take_in pending m = m"
  by (induction ag n oid take_in pending m rule: get_batches.induct) (subst get_batches.simps, simp)

lemma walked_agent_reads:
  "zteWalkStatuses walked_agent = Some [((3, 1, 5), 3)]"
  "QueryMetricsFor walked_agent [loc] = Some [(loc, no_metrics)]"
  "queryZTEInventoryFor walked_agent [loc] = Some [(loc, no_inventory)]"
proof -
  have "sample_rows phase_state_table = [((3, 1, 5), VInt 3)]" "sample_rest phase_state_table = []" by code_simp+
  moreover have "parseZxGponSuffix (place_oid phase_state_table [] (3, 1, 5)) phase_state_table = Some (3, 1, 5)" by code_simp
  ultimately show "zteWalkStatuses walked_agent = Some [((3, 1, 5), 3)]"
    by (simp add: zteWalkStatuses_def bulkWalk_def walked_agent_def sample_agent_def visit_status_def)
qed (simp_all add: QueryMetricsFor_def queryZTEInventoryFor_def fetchZTEInventory_def unanswered walked_agent_def sample_agent_def)

lemma zte_sync_settles_witness:
  "let olt = (hd (iv_olts sample_inventory))\<lparr>olt_Model := ''zte_c300''\<rparr>;
       s1 = snd (the (syncOntsWithDiscovery next_uuid (DriverFor walked_agent) 5 olt sample_inventory))
   in case zteWalkStatuses walked_agent of None \<Rightarrow> False | Some statuses \<Rightarrow>
        map_option fst (syncOntsWithDiscovery next_uuid (DriverFor walked_agent) 90 olt s1) =
          Some \<lparr>br_Registered = 0, br_Skipped = length statuses, br_Errors = []\<rparr>"
proof -
  let ?olt = "(hd (iv_olts sample_inventory))\<lparr>olt_Model := ''zte_c300''\<rparr>"
  have "\<exists>r s1. syncOntsWithDiscovery next_uuid (DriverFor walked_agent) 5 ?olt sample_inventory = Some (r, s1) \<and> br_Errors r = []"
    by (simp add: run_defs DriverFor_def zte_driver_def walked_agent_reads no_metrics_def sample_inventory_def
        newONTFromDiscovery_def placed_def)
  then obtain r s1 where run: "syncOntsWithDiscovery next_uuid (DriverFor walked_agent) 5 ?olt sample_inventory = Some (r, s1)"
    and quiet: "br_Errors r = []" by blast
  show ?thesis
    unfolding Let_def run option.sel snd_conv
    by (rule zte_sync_settles [OF sample_inventory_ok next_uuid_new _ run quiet]) simp
qed

end
