(* ===== verification/Spec2Isabelle.thy ===== *)
theory Spec2Isabelle
  imports Accounts TrustedProxies CsOutbox GroupOutbox Broadcasts Telemetry PollQueue RangeTables Aggregate OntProvision Telnet ApiWire WireGuard Traps SnmpDrivers
begin

text \<open>
  A verification development of TikMan, the program an Internet provider runs its fibre network with: it polls
  optical line terminals (OLTs) and routers, keeps the inventory of the subscribers' boxes (ONTs), registers and
  provisions them over the OLT's command line, collects flow records, answers customers over WhatsApp and keeps VPN
  tunnels to its sites. The program is written in Go under \<open>src/backend\<close>: libraries in \<open>internal/\<close>, one process per directory
  of \<open>cmd/\<close> (\<open>api\<close>, \<open>worker\<close>, \<open>trapd\<close>, \<open>flowd\<close>, \<open>wa\<close>). The processes meet in one PostgreSQL database and share no memory; what one
  process relies on of another is therefore a statement on rows.

  \<^bold>\<open>How the program is modelled.\<close> A Go struct is a record with the struct's fields in the struct's order, under a short
  prefix; an enumeration is a datatype; a table is the list of its rows and its unique indexes are written into the
  operations that insert and update (\<open>Prelude\<close>). An operation of a service takes the tables it touches and returns them
  changed, with an option or a sum for its error; where it runs several statements outside a transaction it is a function of
  every intermediate table, or its steps are separate transitions of an inductive relation, so that another process may come in
  between. A panic is a value (\<open>Ipfix\<close>, \<open>PollQueue\<close>). Go's integers are words or int with the wrap written out where a
  value can reach the edge (\<open>Ipfix\<close>, \<open>NetAddr\<close>, \<open>Telemetry\<close>, \<open>SnmpDrivers\<close>), nat where it cannot. Times and durations are
  nanoseconds.

  \<^bold>\<open>What is taken from outside.\<close> What is not in the repository is an argument: the clock, read once per request or pass;
  random identifiers, new to the table they go to; bcrypt, JSON, Redis (\<open>Sessions\<close>), the Unicode tables (\<open>GoText\<close>), the rendering of a
  float, an SNMP agent (\<open>SnmpDrivers\<close>), a device at the other end of a Telnet session (\<open>ZteProvision\<close>, \<open>OntProvision\<close>), the
  kernel's tunnel device (\<open>WireGuard\<close>) and WhatsApp. What the code relies on of them is a named hypothesis (\<open>unicode_sane\<close>,
  the documented commands of Redis in \<open>Sessions\<close>, \<open>answers_from\<close> in \<open>SnmpDrivers\<close>), and each is met by a concrete
  instance in a witness. A transaction is atomic, and values fit the width of their columns. Floating-point numbers are reals.

  \<^bold>\<open>The theories, from the ground up.\<close>

  \<^item> \<open>Prelude\<close>: rows, first row in an order, update of the rows that match, unique keys; the collections \<open>table_simps\<close> and \<open>codec\<close>.
  \<open>GoStrings\<close>: the parts of \<open>strings\<close>, \<open>strconv\<close> and \<open>sort\<close> in use, binary search with its specification; \<open>GoText\<close>: strings by rune;
  \<open>NetAddr\<close>: \<open>net/netip\<close> addresses and prefixes with parsers and printers that undo each other; \<open>NetIP\<close>: the older package \<open>net\<close>.
  \<^item> \<open>Access\<close>, \<open>Sessions\<close>, \<open>Gateway\<close>: a request on its way (\<open>middleware/rate_limit.go\<close>, \<open>auth.go\<close>, \<open>rbac.go\<close>, \<open>auth/session.go\<close>,
  \<open>memory_store.go\<close>, \<open>api/router.go\<close>). The limiter's table of visitors, both session stores as implementations of one
  abstract store (the locale \<open>session_backend\<close>), and the whole route table, from which the access policy is computed.
  \<open>Accounts\<close> (\<open>services/user_service.go\<close>, \<open>user_initials.go\<close>, \<open>api/user_handler.go\<close>, \<open>auth_handler.go\<close>): the handlers behind it that
  change users and sessions together. \<open>TrustedProxies\<close> (\<open>middleware/trusted_proxies.go\<close>): whose forwarded address the limiter believes.
  \<^item> \<open>PollQueue\<close> (\<open>services/poll_job_service.go\<close>, \<open>router_poll_jobs.go\<close>): who polls what and when. Both queues are instances of
  the locale \<open>lease_queue\<close>, where the exclusion of two workers is proved once. \<open>Jobs\<close> (\<open>job_state_machine.go\<close>, \<open>job_service.go\<close>): the
  status machines of provisioning and batch jobs as instances of \<open>status_machine\<close>, and the table of jobs.
  \<^item> \<open>SnmpParse\<close> (\<open>connectivity/snmp_encoding.go\<close>, \<open>snmp_parsing.go\<close>, \<open>snmp_uncfg_serial.go\<close> and others): what an agent's indexes, octets and
  texts mean. \<open>SnmpDrivers\<close> (\<open>driver_zte.go\<close>, \<open>driver_hsgq.go\<close>, \<open>driver_registry.go\<close>, \<open>snmp_*walk*.go\<close>, \<open>zte_*get.go\<close>): every walk and
  batched read of the two drivers, over an agent that is an argument; the locale \<open>column_visit\<close> is what a visited column adds to
  the rows gathered so far.
  \<^item> \<open>Telemetry\<close> (\<open>services/event_service.go\<close>, \<open>event_status_batch.go\<close>, \<open>metrics_traffic_usage.go\<close>): status events, availability,
  data used. \<open>Inventory\<close> (\<open>ont_service*.go\<close>, \<open>ont_odp_assign.go\<close>, \<open>zte_register_odp.go\<close> and more): the table of ONTs, to which the
  API, discovery, the poller and traps write; the locale \<open>page_callback\<close> is what paging through it asks of a callback.
  \<open>OltDiscovery\<close> (\<open>olt_service_discovery.go\<close>, \<open>metrics_service.go\<close>, \<open>snmp_discovery*.go\<close>): the claim of an OLT, its walk,
  the instalments its records are written in. \<open>Worker\<close> (\<open>cmd/worker\<close>): a claimed job from the queue of \<open>PollQueue\<close> through the
  tunnels of \<open>WireGuard\<close>, a driver's reading and the rows of \<open>Inventory\<close> and \<open>Telemetry\<close> back to the queue. \<open>Traps\<close> (\<open>cmd/trapd\<close>):
  a packet that changes one of those rows in between.
  \<^item> \<open>ZteProvision\<close> (\<open>zte_gpon_register_*.go\<close>, \<open>zte_command_builder.go\<close>, \<open>zte_provision_validator.go\<close>, \<open>zte_gpon_onu_id.go\<close>,
  \<open>zte_onu_removal.go\<close>) and \<open>OntProvision\<close> (\<open>ont_provisioning_*.go\<close>, \<open>manual_config_security.go\<close>, \<open>snapshot_service.go\<close>): checks, commands, the run
  against a device, the rollback, and the job that records it. \<open>Telnet\<close> (\<open>connectivity/telnet_*.go\<close>, \<open>command_executor.go\<close>): the
  session the commands travel on.
  \<^item> \<open>RangeTables\<close>, \<open>Ipfix\<close>, \<open>Classify\<close>, \<open>Aggregate\<close> (\<open>internal/netflow\<close>): a datagram becomes flows, a flow gets a place in the
  network, and flows become minutes. The three address tables are instances of \<open>range_search\<close>.
  \<^item> \<open>ApiWire\<close> (\<open>internal/mikrotik/apiwire.go\<close>, \<open>api.go\<close>, \<open>parse.go\<close>): the wire protocol of RouterOS. \<open>WireGuard\<close>
  (\<open>services/wireguard_*.go\<close>, \<open>internal/wireguard\<close>): addresses, peers, rendering, and the device that must follow the database
  (the locale \<open>tunnel_device\<close>).
  \<^item> \<open>CsInbox\<close> (\<open>services/cs_*.go\<close>): threads, messages, receipts and waits of the customers' inbox. \<open>GroupChat\<close>
  (\<open>services/wa_group_*.go\<close>): the mirror of the groups a number is in, their messages, receipts, reactions and polls. \<open>Outbox\<close>: what
  the three queues of messages to be sent promise (the locale \<open>outbox\<close>), which \<open>CsOutbox\<close> (\<open>wa/outbound.go\<close>), \<open>GroupOutbox\<close>
  (\<open>wa/group_drainer.go\<close>) and \<open>Broadcasts\<close> (\<open>wa/broadcast_drainer.go\<close>, \<open>services/cs_broadcast_post_service.go\<close>) keep.

  \<^bold>\<open>What is shown.\<close> \<^emph>\<open>Invariants\<close> of every reachable state: the inventory, the inbox, the groups, the tunnels, the status record, the
  jobs, the sums of a minute. \<^emph>\<open>Safety\<close>: who may reach a handler and change an account; that a lease and a discovery's claim
  exclude; that a command line holds no second command and a failed registration removes nothing it did not create; that
  silence on the network changes no row; that no customer is sent an answer twice. \<^emph>\<open>Refinement\<close>: the Redis sessions of an abstract store, the tunnel
  device of the database. \<^emph>\<open>Equivalence\<close>: a preview and what runs, batched reads and walks. \<^emph>\<open>Round trips\<close>: sentences,
  Telnet streams, SNMP instances, trap identities. \<^emph>\<open>Functional\<close> statements that say a result exactly, and that discovery and
  synchronisation come to rest. \<^emph>\<open>Termination and liveness\<close>: a pass over an OLT ends, a run settles its job,
  a drain settles what it claimed.
  \<^emph>\<open>Bounds\<close>: the limiter on every window, back-off. Each is followed by a witness when it has hypotheses.

  \<^bold>\<open>Loops and fuel.\<close> Most loops are structural or have a measure (\<open>merge_loop\<close>, \<open>trim_by\<close>, \<open>get_batches\<close>, \<open>sets_loop\<close>,
  \<open>reply_loop\<close>, \<open>duration_loop\<close>). \<open>decodeRecords\<close> carries the number of bytes of the set as fuel: every record of a
  template that was accepted takes at least one byte, so fuel never runs out, which \<open>Ipfix\<close> proves. The search for a free tunnel address makes
  at most as many rounds as the subnet has addresses; the printer of an IPv6 address has eight groups. A reader on a
  session is given the list of reads that will succeed before the deadline, so a wait without end is an empty list. \<open>each_page\<close>, which
  ends only if its callback and its table allow it, is a \<open>partial_function\<close>, and \<open>Worker\<close> proves that the poller's pass ends.

  \<^bold>\<open>Not modelled, and why.\<close>
  \<^item> Sockets, deadlines, TLS, goroutines and files around the modelled parts: \<open>cmd/flowd\<close>, \<open>cmd/trapd\<close>'s listener, dialling in
  \<open>connectivity\<close> and \<open>mikrotik\<close>, the REST transport of RouterOS and the decoding of its rows.
  \<^item> The WhatsApp client (\<open>internal/wa\<close>, \<open>cmd/wa\<close>): it translates events and calls of a library that is not in the repository;
  what it hands to the inbox is modelled there. Link previews fetch pages and decode images.
  \<^item> Reads that are single SQL aggregations: flow queries, metrics and dashboards, the inbox's lists and performance figures; the schema itself.
  \<^item> The network map and its KML import, further tables of a chassis (cards, VLANs, profiles) with their caches, templates,
  settings, the audit log and push messages: none writes a row that a modelled operation reads.
  \<^item> The handlers other than the account handlers, which bind a request and render an answer around the modelled services;
  start-up, configuration, seeds and benchmarks; the TypeScript front end.
\<close>

end
